(* ===== verification/Prelude.thy ===== *)
theory Prelude
  imports Main "HOL-Library.Word" "HOL-Library.AList" "HOL-Library.Sublist"
    "HOL-Library.List_Lexorder" "HOL-Library.Char_ord"
begin

text \<open>
  Shared by every component: the model's names for the machine types, the two integer
  disciplines of the code (saturating and wrapping), the hash maps the relay keeps in memory,
  and generic lemmas on lists.

  The fixed-width Rust types u8, u16, u32 and u64 are words of that width. A usize holds a
  length or a count derived from lengths; it is a natural number, and the operations of the
  code that wrap (\<open>fetch_add\<close>, \<open>fetch_sub\<close>, \<open>+\<close>) go through \<open>usize_add\<close> and \<open>usize_sub\<close>,
  which write the reduction modulo \<open>2 ^ 64\<close> out. A \<open>String\<close> is the list of its UTF-8 bytes,
  so \<open>length\<close> is Rust's \<open>len()\<close>.
\<close>

named_theorems usize_simps \<open>evaluation of the machine-integer operations within bounds\<close>
named_theorems dashmap_simps \<open>lookups after updates of the in-memory maps\<close>

type_synonym u8 = "8 word"
type_synonym u16 = "16 word"
type_synonym u32 = "32 word"
type_synonym u64 = "64 word"
type_synonym usize = nat
type_synonym bytes = "8 word list"


section \<open>Machine integers\<close>

definition usize_modulus :: nat where
  "usize_modulus = 18446744073709551616"

definition usize_max :: nat where
  "usize_max = 18446744073709551615"

text \<open>Wrapping addition and subtraction of usize values (\<open>fetch_add\<close>, \<open>fetch_sub\<close>, \<open>+\<close>).\<close>

definition usize_add :: "usize \<Rightarrow> usize \<Rightarrow> usize" where
  "usize_add a b = (a + b) mod usize_modulus"

definition usize_sub :: "usize \<Rightarrow> usize \<Rightarrow> usize" where
  "usize_sub a b = (a + (usize_modulus - b mod usize_modulus)) mod usize_modulus"

text \<open>\<open>usize::saturating_add\<close> and \<open>usize::saturating_sub\<close>.\<close>

definition usize_sat_add :: "usize \<Rightarrow> usize \<Rightarrow> usize" where
  "usize_sat_add a b = min (a + b) usize_max"

definition usize_sat_sub :: "usize \<Rightarrow> usize \<Rightarrow> usize" where
  "usize_sat_sub a b = a - b"

text \<open>\<open>saturating_add\<close> and \<open>saturating_sub\<close> of the fixed-width types.\<close>

definition sat_add :: "'a::len word \<Rightarrow> 'a word \<Rightarrow> 'a word" where
  "sat_add a b = (if a \<le> a + b then a + b else - 1)"

definition sat_sub :: "'a::len word \<Rightarrow> 'a word \<Rightarrow> 'a word" where
  "sat_sub a b = (if b \<le> a then a - b else 0)"

lemma usize_modulus_eq: "usize_modulus = 2 ^ 64"
  by (simp add: usize_modulus_def)

lemma usize_add_exact [usize_simps]: "a + b < usize_modulus \<Longrightarrow> usize_add a b = a + b"
  by (simp add: usize_add_def)

lemma usize_sub_exact [usize_simps]:
  assumes "b \<le> a" "a < usize_modulus"
  shows "usize_sub a b = a - b"
proof -
  have "b mod usize_modulus = b" using assms by simp
  moreover have "a + (usize_modulus - b) = (a - b) + usize_modulus" using assms by linarith
  ultimately have "usize_sub a b = ((a - b) + usize_modulus) mod usize_modulus"
    by (simp only: usize_sub_def)
  also have "\<dots> = (a - b) mod usize_modulus" by (rule mod_add_self2)
  also have "\<dots> = a - b" using assms by simp
  finally show ?thesis .
qed

lemma usize_sat_add_exact [usize_simps]: "a + b < usize_modulus \<Longrightarrow> usize_sat_add a b = a + b"
  by (simp add: usize_sat_add_def usize_max_def usize_modulus_def)

lemma usize_max_lt [simp]: "usize_max < usize_modulus"
  by (simp add: usize_max_def usize_modulus_def)

lemma unat_sat_add: "unat (sat_add a b) = min (unat a + unat b) (2 ^ LENGTH('a) - 1)"
  for a b :: "'a::len word"
proof (cases "unat a + unat b < 2 ^ LENGTH('a)")
  case True
  then have "unat (a + b) = unat a + unat b"
    by (simp add: unat_add_lem)
  with True show ?thesis
    by (auto simp: sat_add_def word_le_nat_alt)
next
  case False
  then have "\<not> a \<le> a + b"
    using no_olen_add_nat by blast
  with False show ?thesis
    by (auto simp: sat_add_def unsigned_minus_1_eq_mask mask_eq_exp_minus_1)
qed

lemma unat_sat_sub: "unat (sat_sub a b) = unat a - unat b"
  by (auto simp: sat_sub_def unat_sub word_le_nat_alt)

lemma unat_plus_one: "n \<noteq> - 1 \<Longrightarrow> unat (n + 1) = Suc (unat n)" for n :: "'a::len word"
  using unatSuc [of n] by (simp add: add.commute add_eq_0_iff)

lemma sat_sub_le: "sat_sub a b \<le> a"
  by (simp add: word_le_nat_alt unat_sat_sub)

lemma sat_sub_less_iff: "d < sat_sub a b \<longleftrightarrow> unat d + unat b < unat a"
  by (auto simp: word_less_nat_alt unat_sat_sub)


section \<open>Hash maps\<close>

text \<open>
  A \<open>DashMap\<close> or \<open>HashMap\<close> is an association list with distinct keys; the order of the list
  stands for the order in which the map is iterated, which no property depends on.
\<close>

type_synonym ('k, 'v) dashmap = "('k \<times> 'v) list"

abbreviation dm_get :: "('k, 'v) dashmap \<Rightarrow> 'k \<Rightarrow> 'v option" where
  "dm_get \<equiv> map_of"

abbreviation dm_insert :: "'k \<Rightarrow> 'v \<Rightarrow> ('k, 'v) dashmap \<Rightarrow> ('k, 'v) dashmap" where
  "dm_insert \<equiv> AList.update"

abbreviation dm_remove :: "'k \<Rightarrow> ('k, 'v) dashmap \<Rightarrow> ('k, 'v) dashmap" where
  "dm_remove \<equiv> AList.delete"

definition dm_wf :: "('k, 'v) dashmap \<Rightarrow> bool" where
  "dm_wf m \<longleftrightarrow> distinct (map fst m)"

definition dm_contains :: "('k, 'v) dashmap \<Rightarrow> 'k \<Rightarrow> bool" where
  "dm_contains m k \<longleftrightarrow> dm_get m k \<noteq> None"

lemma dm_get_insert [simp, dashmap_simps]: "dm_get (dm_insert k v m) = (dm_get m)(k \<mapsto> v)"
  by (rule update_conv')

lemma dm_get_remove [simp, dashmap_simps]: "dm_get (dm_remove k m) = (dm_get m)(k := None)"
  by (auto simp: delete_conv fun_eq_iff)

lemma dm_wf_Nil [simp]: "dm_wf []"
  by (simp add: dm_wf_def)

lemma dm_wf_insert [simp, intro]: "dm_wf m \<Longrightarrow> dm_wf (dm_insert k v m)"
  unfolding dm_wf_def by (rule distinct_update)

lemma dm_wf_remove [simp, intro]: "dm_wf m \<Longrightarrow> dm_wf (dm_remove k m)"
  unfolding dm_wf_def by (rule distinct_delete)

lemma dm_remove_absent: "dm_get m k = None \<Longrightarrow> dm_remove k m = m"
  by (simp add: delete_notin_dom map_of_eq_None_iff)

lemma dm_wf_ConsD: "dm_wf ((k, v) # m) \<Longrightarrow> dm_wf m \<and> dm_remove k m = m"
  by (simp add: dm_wf_def delete_notin_dom)

lemma dm_length_remove:
  "dm_wf m \<Longrightarrow> dm_get m k = Some v \<Longrightarrow> length m = Suc (length (dm_remove k m))"
  by (induction m) (auto dest!: dm_wf_ConsD split: if_splits)

lemma dm_length_insert_new: "dm_get m k = None \<Longrightarrow> length (dm_insert k v m) = Suc (length m)"
  by (induction m) (auto split: if_splits)

lemma dm_length_insert_old: "dm_get m k = Some w \<Longrightarrow> length (dm_insert k v m) = length m"
  by (induction m) (auto split: if_splits)

lemma dm_get_set: "dm_wf m \<Longrightarrow> (k, v) \<in> set m \<longleftrightarrow> dm_get m k = Some v"
  by (auto simp: dm_wf_def)

text \<open>The sum of a weight over a map, and how one insertion or removal changes it.\<close>

definition dm_sum :: "('v \<Rightarrow> nat) \<Rightarrow> ('k, 'v) dashmap \<Rightarrow> nat" where
  "dm_sum f m = sum_list (map (f \<circ> snd) m)"

lemma dm_sum_simps [simp]: "dm_sum f [] = 0" "dm_sum f ((k, v) # m) = f v + dm_sum f m"
  by (simp_all add: dm_sum_def)

lemma dm_sum_insert_new: "dm_get m k = None \<Longrightarrow> dm_sum f (dm_insert k v m) = dm_sum f m + f v"
  by (induction m) (auto split: if_splits)

lemma dm_sum_insert_old:
  "dm_wf m \<Longrightarrow> dm_get m k = Some w \<Longrightarrow> dm_sum f (dm_insert k v m) + f w = dm_sum f m + f v"
  by (induction m) (auto simp: dm_wf_def split: if_splits)

lemma dm_sum_remove:
  "dm_wf m \<Longrightarrow> dm_get m k = Some w \<Longrightarrow> dm_sum f (dm_remove k m) + f w = dm_sum f m"
  by (induction m) (auto dest!: dm_wf_ConsD split: if_splits)

lemma dm_sum_ge: "dm_get m k = Some v \<Longrightarrow> f v \<le> dm_sum f m"
  by (induction m) (auto split: if_splits intro: trans_le_add2)


section \<open>Lists\<close>

text \<open>A list sorted by a key that is injective on it is determined by its elements.\<close>

lemma sort_key_unique:
  assumes "set xs = set ys" "distinct xs" "distinct ys" "inj_on f (set ys)" "sorted (map f ys)"
  shows "sort_key f xs = ys"
proof (rule map_sorted_distinct_set_unique [of f])
  show "inj_on f (set (sort_key f xs) \<union> set ys)" using assms by simp
  show "sorted (map f (sort_key f xs))" by simp
  show "distinct (map f (sort_key f xs))" using assms by (simp add: distinct_map)
  show "distinct (map f ys)" using assms by (simp add: distinct_map)
qed (use assms in auto)

lemma sum_list_filter_split:
  "sum_list (map f (filter P xs)) + sum_list (map f (filter (\<lambda>x. \<not> P x) xs)) = sum_list (map f xs)"
  for f :: "'a \<Rightarrow> nat"
  by (induction xs) auto

lemma sum_list_map_update:
  "t < length xs \<Longrightarrow> sum_list (map f (xs[t := x])) + f (xs ! t) = sum_list (map f xs) + f x" for f :: "'b \<Rightarrow> nat"
proof (induction xs arbitrary: t)
  case (Cons a xs)
  then show ?case by (cases t) auto
qed simp

end
