(* ===== verification/RustStd.thy ===== *)
theory RustStd
  imports Prelude
begin

text \<open>
  The pieces of Rust's string library the relay uses, on UTF-8 byte strings:
  \<open>split_once\<close>, \<open>strip_prefix\<close>, \<open>trim\<close>, decimal \<open>Display\<close> and \<open>FromStr\<close> of unsigned
  integers. The lemmas are the round trip between printing and parsing and the facts about
  separators that the stores' keys rest on.
\<close>


section \<open>Splitting\<close>

text \<open>\<open>str::split_once\<close> at an ASCII character: the first occurrence separates.\<close>

fun split_once :: "char \<Rightarrow> string \<Rightarrow> (string \<times> string) option" where
  "split_once c [] = None"
| "split_once c (x # xs) =
     (if x = c then Some ([], xs)
      else map_option (\<lambda>(a, b). (x # a, b)) (split_once c xs))"

lemma split_once_append [simp]: "c \<notin> set a \<Longrightarrow> split_once c (a @ c # b) = Some (a, b)"
  by (induction a) auto

lemma split_once_None_iff: "split_once c s = None \<longleftrightarrow> c \<notin> set s"
  by (induction s) auto

lemma split_once_Some:
  "split_once c s = Some (a, b) \<Longrightarrow> s = a @ c # b \<and> c \<notin> set a"
  by (induction s arbitrary: a) (auto split: if_splits)

text \<open>Two strings with a separator that neither first part holds are equal part by part.\<close>

lemma separated_eq_iff:
  fixes a a' :: string
  assumes "c \<notin> set a" "c \<notin> set a'"
  shows "a @ c # b = a' @ c # b' \<longleftrightarrow> a = a' \<and> b = b'"
proof
  assume "a @ c # b = a' @ c # b'"
  then have "split_once c (a @ c # b) = split_once c (a' @ c # b')" by (rule arg_cong)
  with assms show "a = a' \<and> b = b'" by simp
qed simp

text \<open>\<open>str::starts_with\<close> and \<open>str::strip_prefix\<close>.\<close>

definition starts_with :: "string \<Rightarrow> string \<Rightarrow> bool" where
  "starts_with s p \<longleftrightarrow> take (length p) s = p"

definition strip_prefix :: "string \<Rightarrow> string \<Rightarrow> string option" where
  "strip_prefix s p = (if starts_with s p then Some (drop (length p) s) else None)"

lemma starts_with_iff: "starts_with s p \<longleftrightarrow> prefix p s"
  by (metis append_eq_conv_conj prefix_def starts_with_def)


section \<open>Decimal numbers\<close>

text \<open>\<open>Display\<close> of an unsigned integer.\<close>

definition digit_char :: "nat \<Rightarrow> char" where
  "digit_char d = char_of (48 + d)"

fun show_dec :: "nat \<Rightarrow> string" where
  "show_dec n = (if n < 10 then [digit_char n] else show_dec (n div 10) @ [digit_char (n mod 10)])"

declare show_dec.simps [simp del]

text \<open>
  \<open>FromStr\<close> of an unsigned integer with the given number of values: one optional \<open>+\<close>, at
  least one digit, \<open>None\<close> (Rust's \<open>Err\<close>) for any other character and for overflow.
\<close>

definition digit_val :: "char \<Rightarrow> nat option" where
  "digit_val c = (let n = of_char c in if 48 \<le> n \<and> n \<le> (57::nat) then Some (n - 48) else None)"

fun parse_digits :: "nat \<Rightarrow> string \<Rightarrow> nat \<Rightarrow> nat option" where
  "parse_digits lim [] acc = Some acc"
| "parse_digits lim (c # cs) acc =
     (case digit_val c of
        None \<Rightarrow> None
      | Some d \<Rightarrow> if acc * 10 + d < lim then parse_digits lim cs (acc * 10 + d) else None)"

definition parse_uint :: "nat \<Rightarrow> string \<Rightarrow> nat option" where
  "parse_uint lim s =
     (let t = (case s of c # cs \<Rightarrow> if c = CHR ''+'' then cs else s | [] \<Rightarrow> [])
      in if t = [] then None else parse_digits lim t 0)"

definition parse_u64 :: "string \<Rightarrow> u64 option" where
  "parse_u64 s = map_option of_nat (parse_uint 18446744073709551616 s)"

lemma digit_val_digit_char [simp]: "d < 10 \<Longrightarrow> digit_val (digit_char d) = Some d"
  by (simp add: digit_val_def digit_char_def)

lemma show_dec_digits: "set (show_dec n) \<subseteq> digit_char ` {0..<10}"
proof (induction n rule: show_dec.induct)
  case (1 n)
  then show ?case by (cases "n < 10") (auto simp: show_dec.simps [of n])
qed

lemma digit_char_neq [simp]:
  "d < 10 \<Longrightarrow> digit_char d \<noteq> CHR ''+''" "d < 10 \<Longrightarrow> digit_char d \<noteq> CHR '':''"
  by (auto dest: arg_cong [where f = "of_char :: char \<Rightarrow> nat"] simp: digit_char_def)

lemma show_dec_nonempty [simp]: "show_dec n \<noteq> []"
  by (subst show_dec.simps) simp

lemma colon_notin_show_dec [simp]: "CHR '':'' \<notin> set (show_dec n)"
proof
  assume "CHR '':'' \<in> set (show_dec n)"
  then obtain d where "d < 10" "CHR '':'' = digit_char d" using show_dec_digits [of n] by auto
  then show False using digit_char_neq(2) [of d] by simp
qed

lemma parse_digits_append:
  "parse_digits lim (xs @ ys) acc =
     (case parse_digits lim xs acc of None \<Rightarrow> None | Some a \<Rightarrow> parse_digits lim ys a)"
  by (induction xs arbitrary: acc) (auto split: option.splits)

lemma parse_digits_show_dec: "n < lim \<Longrightarrow> parse_digits lim (show_dec n) 0 = Some n"
proof (induction n rule: show_dec.induct)
  case (1 n)
  show ?case
  proof (cases "n < 10")
    case True
    with 1 show ?thesis by (simp add: show_dec.simps [of n])
  next
    case False
    with 1 have "parse_digits lim (show_dec (n div 10)) 0 = Some (n div 10)" by simp
    with False 1 show ?thesis by (simp add: show_dec.simps [of n] parse_digits_append)
  qed
qed

text \<open>Parsing what was printed gives the number back.\<close>

lemma parse_uint_show_dec: "n < lim \<Longrightarrow> parse_uint lim (show_dec n) = Some n"
proof -
  assume "n < lim"
  obtain c cs where s: "show_dec n = c # cs" by (meson list.exhaust show_dec_nonempty)
  then have "c \<in> digit_char ` {0..<10}" using show_dec_digits [of n] by auto
  then have "c \<noteq> CHR ''+''" by auto
  with s \<open>n < lim\<close> show ?thesis
    using parse_digits_show_dec [of n lim] by (simp add: parse_uint_def)
qed

lemma show_dec_inject [simp]: "show_dec m = show_dec n \<longleftrightarrow> m = n"
  by (metis lessI less_max_iff_disj option.inject parse_digits_show_dec)

lemma parse_u64_show_dec: "parse_u64 (show_dec (unat w)) = Some w"
  using unsigned_less [of w, where 'a = nat]
  by (simp add: parse_u64_def parse_uint_show_dec)


section \<open>Trimming\<close>

text \<open>
  \<open>str::trim\<close> strips the characters of Unicode's White\_Space property from both ends; they
  are listed here by their UTF-8 encodings.
\<close>

definition whitespace :: "string list" where
  "whitespace =
     [
      [CHR 0x09], [CHR 0x0A], [CHR 0x0B],
      [CHR 0x0C], [CHR 0x0D], [CHR 0x20],
      [CHR 0xC2, CHR 0x85], [CHR 0xC2, CHR 0xA0], [CHR 0xE1, CHR 0x9A, CHR 0x80],
      [CHR 0xE2, CHR 0x80, CHR 0x80], [CHR 0xE2, CHR 0x80, CHR 0x81], [CHR 0xE2, CHR 0x80, CHR 0x82],
      [CHR 0xE2, CHR 0x80, CHR 0x83], [CHR 0xE2, CHR 0x80, CHR 0x84], [CHR 0xE2, CHR 0x80, CHR 0x85],
      [CHR 0xE2, CHR 0x80, CHR 0x86], [CHR 0xE2, CHR 0x80, CHR 0x87], [CHR 0xE2, CHR 0x80, CHR 0x88],
      [CHR 0xE2, CHR 0x80, CHR 0x89], [CHR 0xE2, CHR 0x80, CHR 0x8A], [CHR 0xE2, CHR 0x80, CHR 0xA8],
      [CHR 0xE2, CHR 0x80, CHR 0xA9], [CHR 0xE2, CHR 0x80, CHR 0xAF], [CHR 0xE2, CHR 0x81, CHR 0x9F],
      [CHR 0xE3, CHR 0x80, CHR 0x80]]"

text \<open>The length of the first listed encoding that the string starts with, 0 for none.\<close>

fun leading :: "string list \<Rightarrow> string \<Rightarrow> nat" where
  "leading [] s = 0"
| "leading (w # ws) s = (if w \<noteq> [] \<and> starts_with s w then length w else leading ws s)"

lemma leading_le: "leading ws s \<le> length s"
  by (induction ws) (auto simp: starts_with_iff dest: prefix_length_le)

function strip_all :: "string list \<Rightarrow> string \<Rightarrow> string" where
  "strip_all ws s = (if leading ws s = 0 then s else strip_all ws (drop (leading ws s) s))"
  by pat_completeness auto
termination
proof (relation "measure (\<lambda>(ws, s). length s)")
  fix ws s
  assume "leading ws s \<noteq> 0"
  then have "length (drop (leading ws s) s) < length s" using leading_le [of ws s] by simp
  then show "((ws, drop (leading ws s) s), (ws, s)) \<in> measure (\<lambda>(ws, s). length s)" by simp
qed simp

declare strip_all.simps [simp del]

definition trim :: "string \<Rightarrow> string" where
  "trim s = rev (strip_all (map rev whitespace) (rev (strip_all whitespace s)))"

end
