(* ===== verification/Config.thy ===== *)
theory Config
  imports RustStd
begin

text \<open>
  The constants of \<open>src/config.rs\<close>, at their Rust types, and the operator's file-transfer
  limits \<open>FileConfig\<close> as they are read from the environment. The lemmas show that no
  environment can switch a limit off: every limit is positive, the global cap holds a file of
  the largest size, and the chunk bound admits such a file in chunks of the smallest size.
\<close>

named_theorems config_defs \<open>the values of the configuration constants\<close>


section \<open>Constants\<close>

definition MAX_QUEUE_PER_RECIPIENT :: usize where [config_defs]: "MAX_QUEUE_PER_RECIPIENT = 500"
definition MAX_FRAME_BYTES :: usize where [config_defs]: "MAX_FRAME_BYTES = 512 * 1024"
definition PER_MAILBOX_QUEUE_BYTES :: usize where
  [config_defs]: "PER_MAILBOX_QUEUE_BYTES = 8 * 1024 * 1024"
definition GLOBAL_QUEUE_DISK_CAP_BYTES :: usize where
  [config_defs]: "GLOBAL_QUEUE_DISK_CAP_BYTES = 4 * 1024 * 1024 * 1024"
definition QUEUE_TTL_MS :: u64 where [config_defs]: "QUEUE_TTL_MS = 14 * 24 * 60 * 60 * 1000"
definition PROTOCOL_MIN_SUPPORTED :: u16 where [config_defs]: "PROTOCOL_MIN_SUPPORTED = 4"
definition PROTOCOL_VERSION :: u16 where [config_defs]: "PROTOCOL_VERSION = 7"
definition SENDER_CERT_TTL_MS :: u64 where [config_defs]: "SENDER_CERT_TTL_MS = 24 * 60 * 60 * 1000"
definition RATE_WINDOW_MS :: u64 where [config_defs]: "RATE_WINDOW_MS = 60 * 1000"
definition MAX_FRAMES_PER_WINDOW :: u32 where [config_defs]: "MAX_FRAMES_PER_WINDOW = 600"
definition OUTBOUND_QUEUE_CAPACITY :: usize where [config_defs]: "OUTBOUND_QUEUE_CAPACITY = 256"
definition MAX_MAILBOXES :: usize where [config_defs]: "MAX_MAILBOXES = 50000"
definition MAX_DELIVERY_TOKENS_PER_MAILBOX :: usize where
  [config_defs]: "MAX_DELIVERY_TOKENS_PER_MAILBOX = 64"
definition MAX_BUNDLES :: usize where [config_defs]: "MAX_BUNDLES = 50000"
definition MAX_BUNDLE_BYTES :: usize where [config_defs]: "MAX_BUNDLE_BYTES = 16 * 1024"
definition MAX_TOTAL_BUNDLE_BYTES :: usize where
  [config_defs]: "MAX_TOTAL_BUNDLE_BYTES = 64 * 1024 * 1024"
definition MAX_BUNDLE_TTL_MS :: u64 where
  [config_defs]: "MAX_BUNDLE_TTL_MS = 30 * 24 * 60 * 60 * 1000"
definition MAX_SENDS_PER_DEST_PER_WINDOW :: u32 where
  [config_defs]: "MAX_SENDS_PER_DEST_PER_WINDOW = 120"
definition POW_LEADING_ZERO_BITS :: nat where [config_defs]: "POW_LEADING_ZERO_BITS = 22"
definition MAILBOX_IDLE_TTL_MS :: u64 where
  [config_defs]: "MAILBOX_IDLE_TTL_MS = 30 * 24 * 60 * 60 * 1000"
definition MAILBOX_ACTIVITY_GRANULARITY_MS :: u64 where
  [config_defs]: "MAILBOX_ACTIVITY_GRANULARITY_MS = 24 * 60 * 60 * 1000"
definition MAX_CONNECTIONS :: usize where [config_defs]: "MAX_CONNECTIONS = 16384"
definition BUNDLE_PRUNE_MIN_INTERVAL_MS :: u64 where
  [config_defs]: "BUNDLE_PRUNE_MIN_INTERVAL_MS = 30 * 1000"
definition DEFAULT_MAX_FILE_MIB :: u64 where [config_defs]: "DEFAULT_MAX_FILE_MIB = 32"
definition DEFAULT_MAX_TOTAL_FILE_MIB :: u64 where
  [config_defs]: "DEFAULT_MAX_TOTAL_FILE_MIB = 8 * 1024"
definition DEFAULT_FILE_TTL_HOURS :: u64 where [config_defs]: "DEFAULT_FILE_TTL_HOURS = 7 * 24"
definition DEFAULT_MAX_FILE_TRANSFERS :: u64 where [config_defs]: "DEFAULT_MAX_FILE_TRANSFERS = 50000"
definition MIN_FILE_CHUNK_BYTES :: u64 where [config_defs]: "MIN_FILE_CHUNK_BYTES = 16 * 1024"
definition INCOMPLETE_FILE_TTL_MS :: u64 where [config_defs]: "INCOMPLETE_FILE_TTL_MS = 60 * 60 * 1000"


section \<open>File-transfer limits\<close>

record file_config =
  max_file_bytes :: u64
  max_total_file_bytes :: u64
  file_ttl_ms :: u64
  max_transfers :: usize
  max_chunks :: u32

text \<open>The environment: \<open>std::env::var\<close>, \<open>None\<close> for a variable that is unset or not UTF-8.\<close>

type_synonym environ = "string \<Rightarrow> string option"

text \<open>\<open>u64::saturating_mul\<close>, \<open>u64::div_ceil\<close> and the clamp-and-cast to u32.\<close>

definition sat_mul :: "u64 \<Rightarrow> u64 \<Rightarrow> u64" where
  "sat_mul a b = of_nat (min (unat a * unat b) usize_max)"

definition div_ceil :: "u64 \<Rightarrow> u64 \<Rightarrow> u64" where
  "div_ceil a b = a div b + (if a mod b = 0 then 0 else 1)"

definition clamp_u32 :: "u64 \<Rightarrow> u32" where
  "clamp_u32 w = ucast (max 1 (min w 0xFFFFFFFF))"

definition env_u64 :: "environ \<Rightarrow> string \<Rightarrow> u64 \<Rightarrow> u64" where
  "env_u64 env key dflt =
     (case env key of
        Some v \<Rightarrow>
          (case parse_u64 (trim v) of
             Some n \<Rightarrow> if n > 0 then n else dflt
           | None \<Rightarrow> dflt)
      | None \<Rightarrow> dflt)"

definition from_env :: "environ \<Rightarrow> file_config" where
  "from_env env =
     (let mfb = sat_mul (env_u64 env ''AXENO_MAX_FILE_MIB'' DEFAULT_MAX_FILE_MIB) (1024 * 1024);
          mtfb = max (sat_mul (env_u64 env ''AXENO_MAX_TOTAL_FILE_MIB'' DEFAULT_MAX_TOTAL_FILE_MIB)
                        (1024 * 1024)) mfb;
          ttl = sat_mul (env_u64 env ''AXENO_FILE_TTL_HOURS'' DEFAULT_FILE_TTL_HOURS)
                  (60 * 60 * 1000);
          mt = unat (env_u64 env ''AXENO_MAX_FILE_TRANSFERS'' DEFAULT_MAX_FILE_TRANSFERS);
          mc = clamp_u32 (div_ceil mfb MIN_FILE_CHUNK_BYTES)
      in \<lparr>max_file_bytes = mfb, max_total_file_bytes = mtfb, file_ttl_ms = ttl,
          max_transfers = mt, max_chunks = mc\<rparr>)"

lemma env_u64_pos: "0 < dflt \<Longrightarrow> 0 < env_u64 env key dflt"
  by (auto simp: env_u64_def split: option.splits)

lemma unat_sat_mul: "unat (sat_mul a b) = min (unat a * unat b) usize_max"
  by (simp add: sat_mul_def unat_of_nat usize_max_def)

lemma sat_mul_pos: "0 < a \<Longrightarrow> 0 < b \<Longrightarrow> 0 < sat_mul a b"
  by (simp add: word_less_nat_alt unat_sat_mul usize_max_def)

lemma unat_clamp_u32: "unat (clamp_u32 w) = max 1 (min (unat w) 0xFFFFFFFF)"
proof -
  have "unat (max 1 (min w (0xFFFFFFFF :: u64))) = max 1 (min (unat w) 0xFFFFFFFF)"
    by (auto simp: max_def min_def word_le_nat_alt)
  then show ?thesis
    by (simp add: clamp_u32_def unsigned_ucast_eq take_bit_nat_eq_self)
qed

lemma unat_div_ceil_le: "1 < unat b \<Longrightarrow> unat a \<le> unat (div_ceil a b) * unat b"
proof -
  assume b: "1 < unat b"
  have q: "unat a = unat (a div b) * unat b + unat (a mod b)"
    by (simp add: unat_div_distrib unat_mod_distrib)
  have lt: "unat (a mod b) < unat b" using b by (simp add: unat_mod_distrib)
  show ?thesis
  proof (cases "a mod b = 0")
    case True
    with q show ?thesis by (simp add: div_ceil_def)
  next
    case False
    have "unat (a div b) \<le> unat a div 2"
      using b by (simp add: unat_div_distrib div_le_mono2)
    then have "unat (a div b) + 1 < 2 ^ 64"
      using unsigned_less [of a, where 'a = nat] by simp
    then have "unat (a div b + 1) = unat (a div b) + 1"
      using unat_add_lem [of "a div b" 1] by simp
    with q lt False show ?thesis by (simp add: div_ceil_def algebra_simps)
  qed
qed

text \<open>
  No environment disables a file-transfer limit. Whatever the variables hold (unset, not a
  number, zero, out of range), every limit is positive, the global cap holds at least one file
  of the largest size, and the chunk bound admits a largest file in 16 KiB chunks (or is the
  largest u32).
\<close>

theorem from_env_limits:
  "0 < max_file_bytes (from_env env)
   \<and> max_file_bytes (from_env env) \<le> max_total_file_bytes (from_env env)
   \<and> 0 < file_ttl_ms (from_env env) \<and> 0 < max_transfers (from_env env)
   \<and> 0 < max_chunks (from_env env)
   \<and> (unat (max_chunks (from_env env)) = 2 ^ 32 - 1
      \<or> unat (max_file_bytes (from_env env)) \<le> unat (max_chunks (from_env env)) * 16384)"
proof -
  have pos: "0 < env_u64 env k d" if "0 < d" for k d using that by (rule env_u64_pos)
  have ceil: "unat w \<le> unat (div_ceil w MIN_FILE_CHUNK_BYTES) * 16384" for w
    using unat_div_ceil_le [of MIN_FILE_CHUNK_BYTES w] by (simp add: config_defs)
  have clamp: "unat (clamp_u32 (div_ceil w MIN_FILE_CHUNK_BYTES)) = 2 ^ 32 - 1
      \<or> unat w \<le> unat (clamp_u32 (div_ceil w MIN_FILE_CHUNK_BYTES)) * 16384" for w
    using ceil [of w] by (auto simp: unat_clamp_u32 max_def min_def)
  have "0 < unat (clamp_u32 w)" for w by (simp add: unat_clamp_u32)
  moreover have "0 < sat_mul (env_u64 env k d) m" if "0 < d" "0 < m" for k d m
    using that by (intro sat_mul_pos pos)
  ultimately show ?thesis
    using clamp pos by (simp add: from_env_def Let_def word_less_nat_alt config_defs)
qed

end
