(* ===== verification/Util.thy ===== *)
theory Util
  imports Config
begin

unbundle bit_operations_syntax

text \<open>
  The stateless helpers of \<open>src/util.rs\<close>: time rounding, token hashes, the constant-time
  comparison, the validation of identifiers and the proof of work. SHA-256 and the hex
  encoding are third-party code: the record \<open>hash_ops\<close> carries them, and nothing is assumed of
  them here but what a lemma states.
\<close>

record hash_ops =
  sha256 :: "string \<Rightarrow> bytes"
  hex_encode :: "bytes \<Rightarrow> string"

definition as_bytes :: "string \<Rightarrow> bytes" where
  "as_bytes = map (\<lambda>c. of_nat (of_char c))"


section \<open>Time and hashes\<close>

definition now_activity_ms :: "u64 \<Rightarrow> u64" where
  "now_activity_ms now = now - (now mod MAILBOX_ACTIVITY_GRANULARITY_MS)"

definition token_hash :: "hash_ops \<Rightarrow> string \<Rightarrow> string" where
  "token_hash H token = hex_encode H (sha256 H token)"

definition ct_eq :: "string \<Rightarrow> string \<Rightarrow> bool" where
  "ct_eq a b =
     (if length a \<noteq> length b then False
      else fold (\<lambda>(x, y) acc. acc OR (x XOR y)) (zip (as_bytes a) (as_bytes b)) (0::u8) = 0)"

text \<open>
  The effect of \<open>atomic_sub_saturating\<close>: its compare-exchange loop replaces the current value
  by \<open>current.saturating_sub(val)\<close>.
\<close>

definition atomic_sub_saturating :: "usize \<Rightarrow> usize \<Rightarrow> usize" where
  "atomic_sub_saturating counter val = usize_sat_sub counter val"


section \<open>Identifiers\<close>

definition is_ascii_alphanumeric :: "char \<Rightarrow> bool" where
  "is_ascii_alphanumeric c =
     (CHR ''0'' \<le> c \<and> c \<le> CHR ''9'' \<or> CHR ''A'' \<le> c \<and> c \<le> CHR ''Z'' \<or> CHR ''a'' \<le> c \<and> c \<le> CHR ''z'')"

definition id_char :: "char \<Rightarrow> bool" where
  "id_char b = (is_ascii_alphanumeric b \<or> b = CHR ''-'' \<or> b = CHR ''_'')"

definition valid_recipient_id :: "string \<Rightarrow> bool" where
  "valid_recipient_id i =
     (starts_with i ''mbx_'' \<and> 36 \<le> length i \<and> length i \<le> 128 \<and> list_all id_char i)"

definition valid_bundle_id :: "string \<Rightarrow> bool" where
  "valid_bundle_id i = (16 \<le> length i \<and> length i \<le> 128 \<and> list_all id_char i)"

definition valid_token :: "string \<Rightarrow> bool" where
  "valid_token token = (16 \<le> length token \<and> length token \<le> 128 \<and> list_all id_char token)"


section \<open>Proof of work\<close>

text \<open>The loop of \<open>pow_hash_ok\<close> with its counter of bits still to check.\<close>

fun pow_bits_ok :: "nat \<Rightarrow> bytes \<Rightarrow> bool" where
  "pow_bits_ok bits [] = True"
| "pow_bits_ok bits (byte # hash) =
     (if bits = 0 then True
      else if bits \<ge> 8 then (if byte \<noteq> 0 then False else pow_bits_ok (bits - 8) hash)
      else drop_bit (8 - bits) byte = 0)"

definition pow_hash_ok :: "bytes \<Rightarrow> bool" where
  "pow_hash_ok hash = pow_bits_ok POW_LEADING_ZERO_BITS hash"

definition pow_input :: "string \<Rightarrow> u64 \<Rightarrow> string \<Rightarrow> string" where
  "pow_input recipient_id ts_window nonce_part =
     recipient_id @ '':'' @ show_dec (unat ts_window) @ '':'' @ nonce_part"

definition verify_pow :: "hash_ops \<Rightarrow> u64 \<Rightarrow> string \<Rightarrow> string \<Rightarrow> bool" where
  "verify_pow H now_secs recipient_id nonce =
     (let current_window = now_secs div 600
      in case split_once CHR '':'' nonce of
           Some (ts_str, nonce_part) \<Rightarrow>
             (case parse_u64 ts_str of
                Some ts_window \<Rightarrow>
                  if ts_window \<noteq> current_window \<and> ts_window \<noteq> sat_sub current_window 1 then False
                  else pow_hash_ok (sha256 H (pow_input recipient_id ts_window nonce_part))
              | None \<Rightarrow> False)
         | None \<Rightarrow> False)"


section \<open>Lemmas\<close>

text \<open>An identifier never holds a colon, the separator of the stores' keys.\<close>

lemma colon_not_id_char [simp]: "\<not> id_char CHR '':''"
  by (simp add: id_char_def is_ascii_alphanumeric_def less_eq_char_def)

lemma valid_ids_no_colon:
  "valid_recipient_id s \<Longrightarrow> CHR '':'' \<notin> set s"
  "valid_bundle_id s \<Longrightarrow> CHR '':'' \<notin> set s"
  by (auto simp: valid_recipient_id_def valid_bundle_id_def list_all_iff)

lemma unat_now_activity: "unat (now_activity_ms now) = unat now - unat now mod 86400000"
proof -
  have "unat (now mod 86400000) = unat now mod 86400000" by (simp add: unat_mod_distrib)
  then show ?thesis
    by (simp add: now_activity_ms_def config_defs unat_sub word_le_nat_alt)
qed

lemma now_activity_bounds:
  "now_activity_ms now \<le> now" "unat now < unat (now_activity_ms now) + 86400000"
  using mod_less_divisor [of 86400000 "unat now"]
  by (auto simp: word_le_nat_alt unat_now_activity)

lemma or_xor_zero_iff: "acc OR (x XOR y) = 0 \<longleftrightarrow> acc = 0 \<and> x = y" for x :: "'a::len word"
proof -
  have "x XOR y = 0 \<Longrightarrow> x = y"
    by (metis xor.assoc xor.left_neutral xor.right_neutral xor_self_eq)
  then show ?thesis by (auto simp: or_eq_0_iff)
qed

lemma fold_diff_zero:
  "length xs = length ys \<Longrightarrow>
   fold (\<lambda>(x, y) acc. acc OR (x XOR y)) (zip xs ys) a = 0 \<longleftrightarrow> a = 0 \<and> xs = ys"
  for xs :: "u8 list"
proof (induction xs ys arbitrary: a rule: list_induct2)
  case (Cons x xs y ys)
  then show ?case by (simp add: or_xor_zero_iff)
qed simp

lemma as_bytes_inject [simp]: "as_bytes a = as_bytes b \<longleftrightarrow> a = b"
proof -
  have "unat (of_nat (of_char c) :: u8) = of_char c" for c
    by (simp add: unat_of_nat nat_of_char_less_256)
  then have "map (char_of \<circ> unat) (as_bytes c) = c" for c
    by (simp add: as_bytes_def o_def)
  then show ?thesis by metis
qed

lemma length_as_bytes [simp]: "length (as_bytes a) = length a"
  by (simp add: as_bytes_def)

lemma ct_eq_iff [simp]: "ct_eq a b \<longleftrightarrow> a = b"
  using fold_diff_zero [of "as_bytes a" "as_bytes b" 0] by (auto simp: ct_eq_def)

text \<open>
  The constant-time comparison of token hashes, which folds the bytewise differences
  into one accumulator, decides equality of strings.
\<close>

theorem ct_eq_correct: "ct_eq a b \<longleftrightarrow> a = b"
  by (rule ct_eq_iff)


subsection \<open>The proof of work\<close>

text \<open>The bits of a hash, most significant bit of each byte first.\<close>

definition byte_bits :: "u8 \<Rightarrow> bool list" where
  "byte_bits b = map (bit b) (rev [0..<8])"

definition hash_bits :: "bytes \<Rightarrow> bool list" where
  "hash_bits hash = concat (map byte_bits hash)"

lemma length_byte_bits [simp]: "length (byte_bits b) = 8"
  by (simp add: byte_bits_def)

lemma byte_zero_iff: "b = 0 \<longleftrightarrow> list_all Not (byte_bits b)" for b :: u8
  by (auto simp: byte_bits_def list_all_iff bit_eq_iff)

lemma drop_bit_zero_iff:
  fixes b :: u8
  assumes "n < 8"
  shows "drop_bit (8 - n) b = 0 \<longleftrightarrow> list_all Not (take n (byte_bits b))"
proof -
  have "set (take n (rev [0..<8])) = {8 - n..<8}"
    using assms by (simp add: take_rev)
  moreover have "drop_bit (8 - n) b = 0 \<longleftrightarrow> (\<forall>i. \<not> bit b (8 - n + i))"
  proof
    assume "drop_bit (8 - n) b = 0"
    then show "\<forall>i. \<not> bit b (8 - n + i)" by (metis bit_0_eq bit_drop_bit_eq bot_apply bot_bool_def comp_def)
  qed (auto simp: bit_eq_iff bit_drop_bit_eq)
  moreover have "(\<forall>i. \<not> bit b (8 - n + i)) \<longleftrightarrow> (\<forall>j\<in>{8 - n..<8}. \<not> bit b j)"
  proof safe
    fix j
    assume *: "\<forall>i. \<not> bit b (8 - n + i)" and "j \<in> {8 - n..<8}" "bit b j"
    then have "bit b (8 - n + (j - (8 - n)))" by simp
    with * show False by blast
  next
    fix i
    assume *: "\<forall>j\<in>{8 - n..<8}. \<not> bit b j" and b: "bit b (8 - n + i)"
    from b have "8 - n + i < 8" by (auto dest: bit_imp_le_length)
    with * b show False by auto
  qed
  ultimately show ?thesis
    by (simp add: byte_bits_def list_all_iff take_map)
qed

lemma pow_bits_ok_iff: "pow_bits_ok n hash \<longleftrightarrow> list_all Not (take n (hash_bits hash))"
proof (induction n hash rule: pow_bits_ok.induct)
  case (2 bits byte hash)
  consider "bits = 0" | "0 < bits" "bits < 8" | "8 \<le> bits" by linarith
  then show ?case
  proof cases
    case 3
    with 2 show ?thesis using byte_zero_iff [of byte] by (auto simp: hash_bits_def)
  qed (simp_all add: hash_bits_def drop_bit_zero_iff)
qed (simp add: hash_bits_def)

text \<open>
  The byte-wise check of the proof of work is the bit-wise one: a hash is accepted exactly
  when its first 22 bits are zero.
\<close>

theorem pow_hash_ok_iff: "pow_hash_ok hash \<longleftrightarrow> list_all Not (take 22 (hash_bits hash))"
  by (simp add: pow_hash_ok_def pow_bits_ok_iff config_defs)

lemma verify_powE:
  assumes "verify_pow H now rid nonce"
  obtains ts_str ts np where "split_once CHR '':'' nonce = Some (ts_str, np)"
    "parse_u64 ts_str = Some ts" "ts = now div 600 \<or> ts = sat_sub (now div 600) 1"
    "pow_hash_ok (sha256 H (pow_input rid ts np))"
  using assms by (auto simp: verify_pow_def Let_def split: option.splits prod.splits if_splits)

text \<open>
  A proof of work expires: a nonce accepted at one time is refused 20 minutes later and
  at every time after that.
\<close>

theorem pow_expires:
  assumes "verify_pow H now rid nonce" "unat now + 1200 \<le> unat later"
  shows "\<not> verify_pow H later rid nonce"
proof
  assume "verify_pow H later rid nonce"
  then obtain s ts np where new: "split_once CHR '':'' nonce = Some (s, np)" "parse_u64 s = Some ts"
    and late: "ts = later div 600 \<or> ts = sat_sub (later div 600) 1"
    by (rule verify_powE)
  from assms(1) have early: "ts = now div 600 \<or> ts = sat_sub (now div 600) 1"
    by (rule verify_powE) (use new in simp)
  have "unat ts \<le> unat now div 600"
    using early by (auto simp: unat_sat_sub unat_div_distrib)
  moreover have "unat later div 600 - 1 \<le> unat ts"
    using late by (auto simp: unat_sat_sub unat_div_distrib)
  moreover have "unat now div 600 + 2 \<le> unat later div 600"
    using div_le_mono [OF assms(2), of 600] by simp
  ultimately show False by simp
qed

definition zero_hash :: hash_ops where
  "zero_hash = \<lparr>sha256 = (\<lambda>_. replicate 32 0), hex_encode = map (char_of \<circ> unat)\<rparr>"

lemma pow_hash_ok_zero: "pow_hash_ok (replicate n 0)"
  by (auto simp: pow_hash_ok_iff hash_bits_def byte_bits_def list_all_iff
      dest!: in_set_takeD split: if_splits)

theorem pow_expires_witness: "\<not> verify_pow zero_hash 2400 ''mbx_a'' ''2:x''"
proof (rule pow_expires)
  show "verify_pow zero_hash 1200 ''mbx_a'' ''2:x''"
    by (simp add: verify_pow_def parse_u64_def parse_uint_def digit_val_def Let_def zero_hash_def
        pow_hash_ok_zero del: replicate.simps)
qed simp

text \<open>
  A proof of work is bound to the identifier and the time window it was made for: the
  hashed text determines both, so a nonce found for one mailbox, bundle or transfer is not one
  for another.
\<close>

theorem pow_input_binds:
  assumes "CHR '':'' \<notin> set rid" "CHR '':'' \<notin> set rid'"
  shows "pow_input rid ts np = pow_input rid' ts' np' \<longleftrightarrow> rid = rid' \<and> ts = ts' \<and> np = np'"
  using assms by (auto simp: pow_input_def separated_eq_iff word_unat_eq_iff)

theorem pow_input_binds_witness:
  "(pow_input ''mbx_a'' 1 ''x'' = pow_input ''mbx_b'' 1 ''x'') = False"
  using pow_input_binds [of "''mbx_a''" "''mbx_b''" 1 "''x''" 1 "''x''"] by simp

end
