(* ===== verification/Storage.thy ===== *)
theory Storage
  imports RustStd
begin

text \<open>
  What the stores use of the third-party code beneath them: redb's tables, serde\_json's
  encoding of a record and uuid's text form. None of it is modelled; each is a record of
  operations that the stores' definitions take as an argument, and the documented behaviour
  the stores rely on is the locale of the same name.

  A table is redb's ordered map from byte-string keys to values. A write transaction is
  atomic: the stores' definitions take, for each transaction, whether the redb calls in it
  succeed, and a failed one leaves the table as it was.
\<close>

named_theorems table_simps \<open>the laws of an ordered table\<close>


section \<open>Interfaces\<close>

record ('t, 'b) table_ops =
  t_empty :: 't
  t_get :: "'t \<Rightarrow> string \<Rightarrow> 'b option"
  t_insert :: "string \<Rightarrow> 'b \<Rightarrow> 't \<Rightarrow> 't"
  t_remove :: "string \<Rightarrow> 't \<Rightarrow> 't"
  t_iter :: "'t \<Rightarrow> (string \<times> 'b) list"
  t_range :: "string \<Rightarrow> string \<Rightarrow> 't \<Rightarrow> (string \<times> 'b) list"

record ('v, 'b) codec =
  enc :: "'v \<Rightarrow> 'b"
  dec :: "'b \<Rightarrow> 'v option"

type_synonym uuid = "128 word"

record uuid_ops =
  show_uuid :: "uuid \<Rightarrow> string"
  parse_uuid :: "string \<Rightarrow> uuid option"

text \<open>How the redb calls of one store operation turn out: its reads and its write transaction.\<close>

record io =
  read_ok :: bool
  write_ok :: bool

definition io_fine :: io where
  "io_fine = \<lparr>read_ok = True, write_ok = True\<rparr>"

lemma io_fine_simps [simp]: "read_ok io_fine" "write_ok io_fine"
  by (simp_all add: io_fine_def)

text \<open>Removing a list of keys, one by one, as the stores' loops do.\<close>

definition t_remove_all :: "('t, 'b) table_ops \<Rightarrow> string list \<Rightarrow> 't \<Rightarrow> 't" where
  "t_remove_all T ks t = fold (t_remove T) ks t"

text \<open>The sum of a weight over the entries of a table, for the byte and count accounting.\<close>

definition t_wsum :: "('t, 'b) table_ops \<Rightarrow> (string \<Rightarrow> 'b \<Rightarrow> nat) \<Rightarrow> 't \<Rightarrow> nat" where
  "t_wsum T f t = sum_list (map (\<lambda>(k, b). f k b) (t_iter T t))"

definition t_weight :: "('t, 'b) table_ops \<Rightarrow> (string \<Rightarrow> 'b \<Rightarrow> nat) \<Rightarrow> 't \<Rightarrow> string \<Rightarrow> nat" where
  "t_weight T f t k = (case t_get T t k of None \<Rightarrow> 0 | Some b \<Rightarrow> f k b)"


section \<open>Key ranges\<close>

text \<open>
  The stores select one owner's entries by the key range from \<open>owner:\<close> (inclusive) to
  \<open>owner;\<close> (exclusive). In the byte order of strings that range holds exactly the keys that
  start with \<open>owner:\<close>, because \<open>;\<close> is the character after \<open>:\<close>.
\<close>

lemma char_colon_range: "CHR '':'' \<le> c \<and> c < CHR '';'' \<longleftrightarrow> c = CHR '':''"
proof -
  have "of_char c = (58::nat) \<longleftrightarrow> c = CHR '':''"
    using of_char_eq_iff [of c "CHR '':''", where 'a = nat] by simp
  then show ?thesis by (auto simp: less_char_def less_eq_char_def)
qed

lemma key_range_prefix:
  "m @ '':'' \<le> k \<and> k < m @ '';'' \<longleftrightarrow> prefix (m @ '':'') k"
proof (induction m arbitrary: k)
  case Nil
  show ?case
  proof (cases k)
    case (Cons c cs)
    have "[] \<le> cs" "\<not> cs < []" by auto
    with Cons char_colon_range [of c] show ?thesis
      by (auto simp: Cons_less_Cons Cons_le_Cons)
  qed simp
next
  case (Cons x m)
  show ?case
  proof (cases k)
    case (Cons c cs)
    with Cons.IH [of cs] show ?thesis by (auto simp: Cons_less_Cons Cons_le_Cons)
  qed simp
qed

lemma prefix_colon_iff:
  assumes "CHR '':'' \<notin> set m" "CHR '':'' \<notin> set m'"
  shows "prefix (m @ '':'') (m' @ '':'' @ i) \<longleftrightarrow> m = m'"
proof
  assume "prefix (m @ '':'') (m' @ '':'' @ i)"
  then obtain r where "m' @ CHR '':'' # i = m @ CHR '':'' # r" by (auto simp: prefix_def)
  with assms show "m = m'" using separated_eq_iff by metis
qed simp


lemma prefix_colon_unique:
  assumes "prefix (m @ '':'') k" "prefix (m' @ '':'') k" "CHR '':'' \<notin> set m" "CHR '':'' \<notin> set m'"
  shows "m = m'"
proof -
  obtain r where "k = m' @ '':'' @ r" using assms(2) by (auto simp: prefix_def)
  with assms(1,3,4) show ?thesis using prefix_colon_iff by metis
qed


section \<open>Ordered tables\<close>

locale redb_table =
  fixes T :: "('t, 'b) table_ops"
  assumes get_empty: "t_get T (t_empty T) = Map.empty"
    and get_insert: "t_get T (t_insert T k v t) = (t_get T t)(k \<mapsto> v)"
    and get_remove: "t_get T (t_remove T k t) = (t_get T t)(k := None)"
    and iter_sorted: "sorted_wrt (<) (map fst (t_iter T t))"
    and iter_get: "map_of (t_iter T t) = t_get T t"
    and range_iter: "t_range T lo hi t = filter (\<lambda>(k, _). lo \<le> k \<and> k < hi) (t_iter T t)"
begin

lemmas get_laws [table_simps] = get_empty get_insert get_remove

lemma distinct_iter: "distinct (map fst (t_iter T t))"
  using iter_sorted [of t] strict_sorted_iff by blast

lemma in_iter_iff: "(k, b) \<in> set (t_iter T t) \<longleftrightarrow> t_get T t k = Some b"
  using distinct_iter [of t] by (simp add: iter_get [symmetric])

lemma iter_Nil_iff: "t_iter T t = [] \<longleftrightarrow> t_get T t = Map.empty"
  using iter_get [of t] by (metis map_of.simps(1) map_of_eq_empty_iff)

lemma range_prefix:
  "t_range T (m @ '':'') (m @ '';'') t = filter (\<lambda>(k, _). prefix (m @ '':'') k) (t_iter T t)"
  by (simp only: range_iter key_range_prefix)

lemma in_range_iff:
  "(k, b) \<in> set (t_range T (m @ '':'') (m @ '';'') t)
     \<longleftrightarrow> t_get T t k = Some b \<and> prefix (m @ '':'') k"
  by (auto simp: range_prefix in_iter_iff)

lemma get_remove_all:
  "t_get T (t_remove_all T ks t) k = (if k \<in> set ks then None else t_get T t k)"
  unfolding t_remove_all_def by (induction ks arbitrary: t) (auto simp: table_simps)

lemma dom_iter: "dom (t_get T t) = fst ` set (t_iter T t)"
  by (metis dom_map_of_conv_image_fst iter_get)

lemma finite_dom [simp]: "finite (dom (t_get T t))"
  by (simp add: dom_iter)

lemma wsum_eq_sum: "t_wsum T f t = (\<Sum>k\<in>dom (t_get T t). t_weight T f t k)"
proof -
  have "t_wsum T f t = (\<Sum>(k, b)\<in>set (t_iter T t). f k b)"
    unfolding t_wsum_def using distinct_iter [of t]
    by (intro sum_list_distinct_conv_sum_set) (simp add: distinct_map)
  also have "\<dots> = (\<Sum>(k, b)\<in>set (t_iter T t). t_weight T f t k)"
    by (intro sum.cong) (auto simp: t_weight_def in_iter_iff)
  also have "\<dots> = (\<Sum>k\<in>fst ` set (t_iter T t). t_weight T f t k)"
    using distinct_iter [of t] by (subst sum.reindex) (auto simp: distinct_map case_prod_unfold)
  finally show ?thesis by (simp add: dom_iter)
qed

lemma wsum_all:
  assumes "finite A" "dom (t_get T t) \<subseteq> A"
  shows "t_wsum T f t = (\<Sum>k\<in>A. t_weight T f t k)"
  unfolding wsum_eq_sum using assms
  by (intro sum.mono_neutral_left) (auto simp: t_weight_def split: option.splits)

lemma wsum_update:
  assumes "t_get T t' = (t_get T t)(k := x)"
  shows "t_wsum T f t' + t_weight T f t k
           = t_wsum T f t + (case x of None \<Rightarrow> 0 | Some b \<Rightarrow> f k b)"
proof -
  define A where "A = insert k (dom (t_get T t))"
  have fin: "finite A" "k \<in> A" by (auto simp: A_def)
  have rest: "(\<Sum>i\<in>A - {k}. t_weight T f t' i) = (\<Sum>i\<in>A - {k}. t_weight T f t i)"
    by (intro sum.cong) (auto simp: t_weight_def assms)
  have split: "t_wsum T f u = t_weight T f u k + (\<Sum>i\<in>A - {k}. t_weight T f u i)"
    if "dom (t_get T u) \<subseteq> A" for u
    using fin that by (simp add: wsum_all [of A] sum.remove [of A k])
  have "t_wsum T f t' = t_weight T f t' k + (\<Sum>i\<in>A - {k}. t_weight T f t i)"
    using split [of t'] rest by (cases x) (auto simp: A_def assms)
  moreover have "t_wsum T f t = t_weight T f t k + (\<Sum>i\<in>A - {k}. t_weight T f t i)"
    using split [of t] by (auto simp: A_def)
  moreover have "t_weight T f t' k = (case x of None \<Rightarrow> 0 | Some b \<Rightarrow> f k b)"
    by (simp add: t_weight_def assms)
  ultimately show ?thesis by simp
qed

lemma wsum_insert:
  "t_wsum T f (t_insert T k v t) + t_weight T f t k = t_wsum T f t + f k v"
  using wsum_update [of "t_insert T k v t" t k "Some v" f] by (simp add: table_simps)

lemma wsum_remove: "t_wsum T f (t_remove T k t) + t_weight T f t k = t_wsum T f t"
  using wsum_update [of "t_remove T k t" t k None f] by (simp add: table_simps)

lemma wsum_remove_distinct:
  "distinct ks \<Longrightarrow>
   t_wsum T f (t_remove_all T ks t) + sum_list (map (t_weight T f t) ks) = t_wsum T f t"
proof (induction ks arbitrary: t)
  case (Cons k ks)
  have "map (t_weight T f (t_remove T k t)) ks = map (t_weight T f t) ks"
    using Cons.prems by (auto simp: t_weight_def table_simps)
  with Cons.IH [of "t_remove T k t"] Cons.prems wsum_remove [of f k t] show ?case
    by (simp add: t_remove_all_def)
qed (simp add: t_remove_all_def)

lemma wsum_empty: "t_wsum T f (t_empty T) = 0"
  by (simp add: wsum_eq_sum get_empty)

lemma wsum_mono:
  assumes "\<And>k b. t_get T t k = Some b \<Longrightarrow> f k b \<le> g k b"
  shows "t_wsum T f t \<le> t_wsum T g t"
  unfolding wsum_eq_sum using assms
  by (intro sum_mono) (auto simp: t_weight_def split: option.splits)

lemma wsum_cong:
  assumes "\<And>k b. t_get T t k = Some b \<Longrightarrow> f k b = g k b"
  shows "t_wsum T f t = t_wsum T g t"
  by (rule antisym) (rule wsum_mono, simp add: assms)+

lemma wsum_weight_cong:
  assumes "\<And>k. t_weight T f t k = t_weight T g t' k"
  shows "t_wsum T f t = t_wsum T g t'"
  using wsum_all [of "dom (t_get T t) \<union> dom (t_get T t')" t f]
    wsum_all [of "dom (t_get T t) \<union> dom (t_get T t')" t' g] assms by simp

lemma get_remove_range:
  "t_get T (t_remove_all T (map fst (t_range T (m @ '':'') (m @ '';'') t)) t) k
     = (if prefix (m @ '':'') k then None else t_get T t k)"
proof -
  have "k \<in> set (map fst (t_range T (m @ '':'') (m @ '';'') t))
      \<longleftrightarrow> prefix (m @ '':'') k \<and> t_get T t k \<noteq> None"
    by (force simp: in_range_iff image_iff Bex_def)
  then show ?thesis by (auto simp: get_remove_all)
qed

lemma length_iter: "length (t_iter T t) = t_wsum T (\<lambda>_ _. 1) t"
  by (simp add: t_wsum_def case_prod_unfold sum_list_triv)

lemma length_iter_insert:
  "length (t_iter T (t_insert T k v t)) =
     (if t_get T t k = None then Suc (length (t_iter T t)) else length (t_iter T t))"
  using wsum_insert [of "\<lambda>_ _. 1" k v t]
  by (auto simp: length_iter t_weight_def split: option.splits)

lemma length_iter_remove:
  "length (t_iter T (t_remove T k t)) =
     (if t_get T t k = None then length (t_iter T t) else length (t_iter T t) - 1)"
  using wsum_remove [of "\<lambda>_ _. 1" k t]
  by (auto simp: length_iter t_weight_def split: option.splits)

text \<open>A sum that gives the inserted key no weight is unchanged.\<close>

lemma wsum_insert_key: "(\<And>b. f k b = 0) \<Longrightarrow> t_wsum T f (t_insert T k v t) = t_wsum T f t"
  using wsum_insert [of f k v t] by (simp add: t_weight_def split: option.splits)

lemma wsum_indicator: "t_wsum T (\<lambda>k b. if P k then 1 else 0) t = card {k \<in> dom (t_get T t). P k}"
proof -
  have "t_wsum T (\<lambda>k b. if P k then 1 else 0) t = (\<Sum>k\<in>dom (t_get T t). if P k then 1 else 0)"
    unfolding wsum_eq_sum by (intro sum.cong) (auto simp: t_weight_def)
  then show ?thesis by (simp add: sum.If_cases Collect_conj_eq Int_commute)
qed

lemma weight_le_wsum: "t_weight T f t k \<le> t_wsum T f t"
proof (cases "k \<in> dom (t_get T t)")
  case True
  then show ?thesis unfolding wsum_eq_sum by (intro member_le_sum) auto
qed (auto simp: t_weight_def split: option.splits)

end


section \<open>Encodings\<close>

locale serde_codec =
  fixes C :: "('v, 'b) codec"
  assumes dec_enc: "dec C (enc C v) = Some v"

locale uuid_text =
  fixes U :: uuid_ops
  assumes parse_show: "parse_uuid U (show_uuid U u) = Some u"
begin

lemma show_inject: "show_uuid U u = show_uuid U v \<longleftrightarrow> u = v"
  by (metis option.inject parse_show)

end

end
