(* ===== verification/Protocol.thy ===== *)
theory Protocol
  imports Util Storage
begin

text \<open>
  The wire protocol of \<open>src/protocol.rs\<close>: the stored envelope and the frames, each a datatype
  with the constructors and the fields of the Rust enum in their order, and the constructors of
  error frames. serde\_json's reading and writing of frames is third-party code and not modelled.
\<close>

type_synonym recipient_id = string

record stored_envelope =
  env_id :: uuid
  env_to :: recipient_id
  envelope_type :: string
  ciphertext :: string

datatype client_frame =
  Hello (h_recipient_id: recipient_id) (h_auth_token: string) (h_delivery_token: string)
    (h_protocol_min: "u16 option") (h_protocol_max: "u16 option") (h_protocol_version: "u16 option")
    (h_pow: "string option") (h_cert_only: bool)
| SetDeliveryTokens string "string list"
| IssueSenderCertificate string string u32 string
| SendEnvelope "string option" recipient_id string string string
| UploadBundle string string string u64 "string option"
| FetchBundle string string
| UploadFileChunk string string u32 u32 u64 string "string option"
| FetchFileChunk string string u32
| DeleteTransfer string string
| Ack "uuid list"
| RetireMailbox
| Ping

datatype server_frame =
  HelloOk u16 u16 u16 u64 string u64
| SenderCertificate string string string u64
| BundleUploaded string string u64
| Bundle string string string u64
| FileChunkStored string string u32 u32 u32
| FileChunk string string u32 u32 u64 string
| TransferDeleted string string
| FileError string string string string
| Envelope stored_envelope
| Synced u64
| SendOk uuid bool "string option"
| SendError "string option" string string
| DeliveryTokensSet string usize
| AckOk usize
| Pong u64
| Error string string

definition err :: "string \<Rightarrow> string \<Rightarrow> server_frame" where
  "err code message = Error code message"

definition send_err :: "string option \<Rightarrow> string \<Rightarrow> string \<Rightarrow> server_frame" where
  "send_err client_ref code message = SendError client_ref code message"

definition file_err :: "string \<Rightarrow> string \<Rightarrow> string \<Rightarrow> string \<Rightarrow> server_frame" where
  "file_err request_id transfer_id code message = FileError request_id transfer_id code message"

end
