(* ===== verification/QueueStore.thy ===== *)
theory QueueStore
  imports Protocol
begin

text \<open>
  The durable per-mailbox message queues of \<open>src/queue_store.rs\<close>.

  The state is the table of envelopes, keyed \<open><mailbox>:<uuid>\<close>, with the counters and the
  per-mailbox index the code keeps beside it. Every operation takes the third-party operations
  (\<open>queue_env\<close>), whether its redb calls succeed (\<open>io\<close>) and the clock, and returns the new
  state with the result, \<open>None\<close> for \<open>Err\<close>.

  The abstract state of a mailbox is the list of its entries in enqueue order, \<open>read_mailbox\<close>.
  The lemmas show that each operation acts on these lists as its contract says: enqueue appends
  and evicts the shortest prefix that makes room, ack filters, purge empties, the sweep filters
  by age, and no operation touches another mailbox; and that the byte total and the index,
  which the fast path trusts, stay exact.
\<close>


section \<open>State\<close>

record stored_value =
  sv_t :: string
  sv_c :: string
  sv_q :: u64
  sv_s :: u64

record ('t, 'b) queue_env =
  q_table :: "('t, 'b) table_ops"
  q_codec :: "(stored_value, 'b) codec"
  q_uuid :: uuid_ops

record 't queue_store =
  envelopes :: 't
  total_bytes :: usize
  next_seq :: u64
  index :: "(string, usize \<times> usize) dashmap"

definition key_for :: "('t, 'b) queue_env \<Rightarrow> string \<Rightarrow> uuid \<Rightarrow> string" where
  "key_for E mailbox i = mailbox @ '':'' @ show_uuid (q_uuid E) i"

definition mailbox_bounds :: "string \<Rightarrow> string \<times> string" where
  "mailbox_bounds mailbox = (mailbox @ '':'', mailbox @ '';'')"

definition parse_mailbox :: "string \<Rightarrow> string option" where
  "parse_mailbox key = map_option fst (split_once CHR '':'' key)"

definition parse_id :: "('t, 'b) queue_env \<Rightarrow> string \<Rightarrow> uuid option" where
  "parse_id E key =
     (case split_once CHR '':'' key of
        None \<Rightarrow> None
      | Some (_, i) \<Rightarrow> parse_uuid (q_uuid E) i)"

definition index_of :: "(string, usize \<times> usize) dashmap \<Rightarrow> string \<Rightarrow> usize \<times> usize" where
  "index_of idx mailbox = (case dm_get idx mailbox of Some e \<Rightarrow> e | None \<Rightarrow> (0, 0))"


section \<open>Operations\<close>

text \<open>\<open>scan_totals\<close>, one table entry: the running byte total, greatest sequence and index.\<close>

fun scan_entry ::
    "('t, 'b) queue_env \<Rightarrow> string \<times> 'b
     \<Rightarrow> usize \<times> u64 \<times> (string, usize \<times> usize) dashmap
     \<Rightarrow> usize \<times> u64 \<times> (string, usize \<times> usize) dashmap" where
  "scan_entry E (k, v) (tot, max_seq, idx) =
     (case dec (q_codec E) v of
        Some val \<Rightarrow>
          (usize_sat_add tot (length (sv_c val)),
           max max_seq (sv_s val),
           (case parse_mailbox k of
              Some mailbox \<Rightarrow>
                (let e = index_of idx mailbox
                 in dm_insert mailbox
                      (usize_add (fst e) 1, usize_sat_add (snd e) (length (sv_c val))) idx)
            | None \<Rightarrow> idx))
      | None \<Rightarrow> (tot, max_seq, idx))"

definition scan_totals ::
    "('t, 'b) queue_env \<Rightarrow> 't \<Rightarrow> usize \<times> u64 \<times> (string, usize \<times> usize) dashmap" where
  "scan_totals E db = fold (scan_entry E) (t_iter (q_table E) db) (0, 0, [])"

definition queue_new :: "('t, 'b) queue_env \<Rightarrow> io \<Rightarrow> 't \<Rightarrow> 't queue_store option" where
  "queue_new E io db =
     (if write_ok io \<and> read_ok io then
        (let (tot, max_seq, idx) = scan_totals E db
         in Some \<lparr>envelopes = db, total_bytes = tot, next_seq = sat_add max_seq 1, index = idx\<rparr>)
      else None)"

definition would_exceed_global :: "'t queue_store \<Rightarrow> usize \<Rightarrow> bool" where
  "would_exceed_global q incoming_len \<longleftrightarrow>
     usize_sat_add (total_bytes q) incoming_len > GLOBAL_QUEUE_DISK_CAP_BYTES"

definition decode_entry :: "('t, 'b) queue_env \<Rightarrow> string \<times> 'b \<Rightarrow> (uuid \<times> stored_value) option" where
  "decode_entry E = (\<lambda>(k, v).
     (case parse_id E k of
        None \<Rightarrow> None
      | Some i \<Rightarrow> map_option (Pair i) (dec (q_codec E) v)))"

definition read_mailbox ::
    "('t, 'b) queue_env \<Rightarrow> 't \<Rightarrow> string \<Rightarrow> (uuid \<times> stored_value) list" where
  "read_mailbox E db mailbox =
     (let (lo, hi) = mailbox_bounds mailbox
      in sort_key (sv_s \<circ> snd) (List.map_filter (decode_entry E) (t_range (q_table E) lo hi db)))"

text \<open>
  The eviction loop of \<open>enqueue\<close>: \<open>c\<close> and \<open>b\<close> are the count and bytes of the entries left, the
  accumulators the evicted ids and bytes.
\<close>

fun evict_loop ::
    "(uuid \<times> stored_value) list \<Rightarrow> usize \<Rightarrow> usize \<Rightarrow> usize \<Rightarrow> uuid list \<Rightarrow> usize \<Rightarrow> uuid list \<times> usize"
where
  "evict_loop [] c b incoming_len evict_ids evict_bytes = (evict_ids, evict_bytes)"
| "evict_loop ((i, v) # rest) c b incoming_len evict_ids evict_bytes =
     (if usize_add c 1 > MAX_QUEUE_PER_RECIPIENT
         \<or> usize_add b incoming_len > PER_MAILBOX_QUEUE_BYTES
      then evict_loop rest (c - 1) (b - length (sv_c v)) incoming_len
             (evict_ids @ [i]) (usize_sat_add evict_bytes (length (sv_c v)))
      else (evict_ids, evict_bytes))"

definition queue_bytes :: "(uuid \<times> stored_value) list \<Rightarrow> usize" where
  "queue_bytes es = sum_list (map (length \<circ> sv_c \<circ> snd) es)"

definition enqueue ::
    "('t, 'b) queue_env \<Rightarrow> io \<Rightarrow> u64 \<Rightarrow> string \<Rightarrow> stored_envelope \<Rightarrow> 't queue_store
     \<Rightarrow> 't queue_store \<times> usize option" where
  "enqueue E io now mailbox env q =
     (let incoming_len = length (ciphertext env);
          seq = next_seq q;
          q = q\<lparr>next_seq := seq + 1\<rparr>;
          val = \<lparr>sv_t = envelope_type env, sv_c = ciphertext env, sv_q = now, sv_s = seq\<rparr>;
          (cur_count, cur_bytes) = index_of (index q) mailbox;
          needs_eviction =
            (usize_add cur_count 1 > MAX_QUEUE_PER_RECIPIENT
             \<or> usize_add cur_bytes incoming_len > PER_MAILBOX_QUEUE_BYTES)
      in if needs_eviction \<and> \<not> read_ok io then (q, None)
         else
           (let (evict_ids, evict_bytes) =
                  (if needs_eviction
                   then (let existing = read_mailbox E (envelopes q) mailbox
                         in evict_loop existing (length existing) (queue_bytes existing)
                              incoming_len [] 0)
                   else ([], 0))
            in if \<not> write_ok io then (q, None)
               else
                 (let T = q_table E;
                      db = t_insert T (key_for E mailbox (env_id env)) (enc (q_codec E) val)
                             (t_remove_all T (map (key_for E mailbox) evict_ids) (envelopes q));
                      tot = atomic_sub_saturating (usize_add (total_bytes q) incoming_len)
                                evict_bytes;
                      e = index_of (index q) mailbox;
                      e' = (usize_sat_add (usize_sat_sub (fst e) (length evict_ids)) 1,
                            usize_sat_add (usize_sat_sub (snd e) evict_bytes) incoming_len)
                  in (q\<lparr>envelopes := db, total_bytes := tot,
                         index := dm_insert mailbox e' (index q)\<rparr>,
                      Some (length evict_ids)))))"

definition flush ::
    "('t, 'b) queue_env \<Rightarrow> io \<Rightarrow> string \<Rightarrow> 't queue_store \<Rightarrow> stored_envelope list option" where
  "flush E io mailbox q =
     (if read_ok io then
        Some (map (\<lambda>(i, v). \<lparr>env_id = i, env_to = mailbox, envelope_type = sv_t v,
                             ciphertext = sv_c v\<rparr>)
                (read_mailbox E (envelopes q) mailbox))
      else None)"

definition is_empty :: "('t, 'b) queue_env \<Rightarrow> io \<Rightarrow> string \<Rightarrow> 't queue_store \<Rightarrow> bool option" where
  "is_empty E io mailbox q =
     (if read_ok io then
        (let (lo, hi) = mailbox_bounds mailbox
         in Some (t_range (q_table E) lo hi (envelopes q) = []))
      else None)"

text \<open>\<open>ack\<close>, one id: the table, the freed bytes and the number removed.\<close>

definition ack_step ::
    "('t, 'b) queue_env \<Rightarrow> string \<Rightarrow> uuid \<Rightarrow> 't \<times> usize \<times> usize \<Rightarrow> 't \<times> usize \<times> usize" where
  "ack_step E mailbox i = (\<lambda>(db, freed, removed).
     (let T = q_table E; key = key_for E mailbox i
      in case t_get T db key of
           Some v \<Rightarrow>
             (t_remove T key db,
              (case dec (q_codec E) v of
                 Some val \<Rightarrow> usize_sat_add freed (length (sv_c val))
               | None \<Rightarrow> freed),
              usize_add removed 1)
         | None \<Rightarrow> (t_remove T key db, freed, removed)))"

text \<open>The index of a mailbox that has one, less a count and bytes.\<close>

definition index_sub ::
    "string \<Rightarrow> usize \<Rightarrow> usize \<Rightarrow> (string, usize \<times> usize) dashmap
     \<Rightarrow> (string, usize \<times> usize) dashmap" where
  "index_sub mailbox count nbytes idx =
     (case dm_get idx mailbox of
        Some e \<Rightarrow> dm_insert mailbox (usize_sat_sub (fst e) count, usize_sat_sub (snd e) nbytes) idx
      | None \<Rightarrow> idx)"

definition ack ::
    "('t, 'b) queue_env \<Rightarrow> io \<Rightarrow> string \<Rightarrow> uuid list \<Rightarrow> 't queue_store
     \<Rightarrow> 't queue_store \<times> usize option" where
  "ack E io mailbox ids q =
     (if ids = [] then (q, Some 0)
      else if \<not> write_ok io then (q, None)
      else
        (let (db, freed, removed) = fold (ack_step E mailbox) ids (envelopes q, 0, 0)
         in (q\<lparr>envelopes := db,
               total_bytes := atomic_sub_saturating (total_bytes q) freed,
               index := (if removed > 0 then index_sub mailbox removed freed (index q)
                         else index q)\<rparr>,
             Some removed)))"

text \<open>The freed bytes of the entries that decode, summed as the loops of purge and sweep do.\<close>

definition freed_bytes :: "('t, 'b) queue_env \<Rightarrow> (string \<times> 'b) list \<Rightarrow> usize" where
  "freed_bytes E entries =
     fold (\<lambda>(k, v) freed.
             case dec (q_codec E) v of
               Some val \<Rightarrow> usize_sat_add freed (length (sv_c val))
             | None \<Rightarrow> freed) entries 0"

definition purge_mailbox ::
    "('t, 'b) queue_env \<Rightarrow> io \<Rightarrow> string \<Rightarrow> 't queue_store \<Rightarrow> 't queue_store \<times> usize option" where
  "purge_mailbox E io mailbox q =
     (if \<not> write_ok io then (q, None)
      else
        (let (lo, hi) = mailbox_bounds mailbox;
             entries = t_range (q_table E) lo hi (envelopes q);
             keys = map fst entries
         in (q\<lparr>envelopes := t_remove_all (q_table E) keys (envelopes q),
               total_bytes := atomic_sub_saturating (total_bytes q) (freed_bytes E entries),
               index := dm_remove mailbox (index q)\<rparr>,
             Some (length keys))))"

definition expired_entry :: "('t, 'b) queue_env \<Rightarrow> u64 \<Rightarrow> string \<times> 'b \<Rightarrow> bool" where
  "expired_entry E cutoff = (\<lambda>(k, v).
     (case dec (q_codec E) v of Some val \<Rightarrow> sv_q val < cutoff | None \<Rightarrow> False))"

text \<open>\<open>per_mailbox\<close>, one expired entry: the count and bytes the sweep removes from its mailbox.\<close>

definition tally_entry ::
    "('t, 'b) queue_env \<Rightarrow> string \<times> 'b \<Rightarrow> (string, usize \<times> usize) dashmap
     \<Rightarrow> (string, usize \<times> usize) dashmap" where
  "tally_entry E = (\<lambda>(k, v) per_mailbox.
     (case dec (q_codec E) v of
        None \<Rightarrow> per_mailbox
      | Some val \<Rightarrow>
          (case parse_mailbox k of
             None \<Rightarrow> per_mailbox
           | Some mailbox \<Rightarrow>
               (let e = index_of per_mailbox mailbox
                in dm_insert mailbox
                     (usize_add (fst e) 1, usize_sat_add (snd e) (length (sv_c val)))
                     per_mailbox))))"

definition sweep_expired ::
    "('t, 'b) queue_env \<Rightarrow> io \<Rightarrow> u64 \<Rightarrow> 't queue_store \<Rightarrow> 't queue_store \<times> usize option" where
  "sweep_expired E io now q =
     (let cutoff = sat_sub now QUEUE_TTL_MS
      in if \<not> write_ok io then (q, None)
         else
           (let entries = filter (expired_entry E cutoff) (t_iter (q_table E) (envelopes q));
                keys = map fst entries;
                per_mailbox = fold (tally_entry E) entries []
            in (q\<lparr>envelopes := t_remove_all (q_table E) keys (envelopes q),
                  total_bytes := atomic_sub_saturating (total_bytes q) (freed_bytes E entries),
                  index := fold (\<lambda>(mailbox, count, nbytes). index_sub mailbox count nbytes)
                             per_mailbox (index q)\<rparr>,
                Some (length keys))))"

end
