(* ===== verification/RefTable.thy ===== *)
theory RefTable
  imports Storage
begin

text \<open>
  A reference implementation of the table interface, on association lists: it satisfies every
  law of \<open>redb_table\<close>, so the hypotheses that state redb's documented behaviour can hold, and
  the examples of the other theories run on it. Likewise for the codec and the uuid text form:
  a value is its own encoding, and a uuid is printed as a decimal number.
\<close>

definition ref_table :: "((string \<times> 'b) list, 'b) table_ops" where
  "ref_table =
     \<lparr>t_empty = [],
      t_get = map_of,
      t_insert = AList.update,
      t_remove = AList.delete,
      t_iter = (\<lambda>t. sort_key fst (AList.clearjunk t)),
      t_range = (\<lambda>lo hi t. filter (\<lambda>(k, _). lo \<le> k \<and> k < hi) (sort_key fst (AList.clearjunk t)))\<rparr>"

lemma ref_table_simps [simp]:
  "t_empty ref_table = []"
  "t_get ref_table = map_of"
  "t_insert ref_table = AList.update"
  "t_remove ref_table = AList.delete"
  "t_iter ref_table t = sort_key fst (AList.clearjunk t)"
  "t_range ref_table lo hi t = filter (\<lambda>(k, _). lo \<le> k \<and> k < hi) (sort_key fst (AList.clearjunk t))"
  by (simp_all add: ref_table_def)

lemma sorted_iter_ref: "sorted_wrt (<) (map fst (sort_key fst (AList.clearjunk t)))"
  for t :: "(string \<times> 'b) list"
  using distinct_clearjunk [of t] by (simp add: strict_sorted_iff distinct_map)

lemma map_of_sort_key:
  fixes xs :: "(string \<times> 'b) list"
  assumes "distinct (map fst xs)"
  shows "map_of (sort_key fst xs) = map_of xs"
  using assms by (subst map_of_inject_set) (auto simp: distinct_map)

interpretation ref: redb_table ref_table
  by unfold_locales
    (simp_all add: sorted_iter_ref map_of_sort_key distinct_clearjunk map_of_clearjunk)

definition ref_codec :: "('v, 'v option) codec" where
  "ref_codec = \<lparr>enc = Some, dec = id\<rparr>"

interpretation ref_codec: serde_codec ref_codec
  by unfold_locales (simp add: ref_codec_def)

definition ref_uuid :: uuid_ops where
  "ref_uuid =
     \<lparr>show_uuid = (\<lambda>u. show_dec (unat u)),
      parse_uuid = (\<lambda>s. map_option of_nat (parse_uint 340282366920938463463374607431768211456 s))\<rparr>"

interpretation ref_uuid: uuid_text ref_uuid
proof
  fix u :: uuid
  show "parse_uuid ref_uuid (show_uuid ref_uuid u) = Some u"
    using unsigned_less [of u, where 'a = nat] by (simp add: ref_uuid_def parse_uint_show_dec)
qed

end
