(* ===== verification/QueueProofs.thy ===== *)
theory QueueProofs
  imports QueueStore RefTable
begin

text \<open>
  The correctness of the queue store: the representation invariant, the effect of every
  operation on the mailbox lists, and the restart scan.
\<close>


section \<open>The representation invariant\<close>

definition entry_at ::
    "('t, 'b) queue_env \<Rightarrow> 't \<Rightarrow> string \<Rightarrow> uuid \<Rightarrow> stored_value \<Rightarrow> bool" where
  "entry_at E db m i v \<longleftrightarrow>
     (\<exists>b. t_get (q_table E) db (key_for E m i) = Some b \<and> dec (q_codec E) b = Some v)"

definition well_keyed :: "('t, 'b) queue_env \<Rightarrow> 't \<Rightarrow> bool" where
  "well_keyed E db \<longleftrightarrow>
     (\<forall>k b. t_get (q_table E) db k = Some b \<longrightarrow>
        (\<exists>m i v. CHR '':'' \<notin> set m \<and> k = key_for E m i \<and> dec (q_codec E) b = Some v))"

definition entry_len :: "('t, 'b) queue_env \<Rightarrow> string \<Rightarrow> 'b \<Rightarrow> nat" where
  "entry_len E k b = (case dec (q_codec E) b of Some v \<Rightarrow> length (sv_c v) | None \<Rightarrow> 0)"

text \<open>The entries of a mailbox in enqueue order: the abstract state of the store.\<close>

abbreviation mail :: "('t, 'b) queue_env \<Rightarrow> 't queue_store \<Rightarrow> string \<Rightarrow> (uuid \<times> stored_value) list"
where "mail E q m \<equiv> read_mailbox E (envelopes q) m"

text \<open>Sequence numbers: below the next one, and distinct within a mailbox.\<close>

definition seqs_ok :: "('t, 'b) queue_env \<Rightarrow> 't \<Rightarrow> u64 \<Rightarrow> bool" where
  "seqs_ok E db nxt \<longleftrightarrow>
     (\<forall>m i v. CHR '':'' \<notin> set m \<and> entry_at E db m i v \<longrightarrow> sv_s v < nxt) \<and>
     (\<forall>m i v j w. CHR '':'' \<notin> set m \<and> entry_at E db m i v \<and> entry_at E db m j w \<and> sv_s v = sv_s w
        \<longrightarrow> i = j)"

definition queue_inv :: "('t, 'b) queue_env \<Rightarrow> 't queue_store \<Rightarrow> bool" where
  "queue_inv E q \<longleftrightarrow>
     well_keyed E (envelopes q) \<and> seqs_ok E (envelopes q) (next_seq q) \<and>
     (\<forall>m. CHR '':'' \<notin> set m \<longrightarrow>
        index_of (index q) m = (length (mail E q m), queue_bytes (mail E q m)) \<and>
        length (mail E q m) \<le> MAX_QUEUE_PER_RECIPIENT \<and>
        queue_bytes (mail E q m) \<le> PER_MAILBOX_QUEUE_BYTES) \<and>
     total_bytes q = t_wsum (q_table E) (entry_len E) (envelopes q) \<and>
     total_bytes q < usize_modulus"

text \<open>A mailbox has room for an envelope of the given length; how many entries to drop for it.\<close>

definition fits :: "(uuid \<times> stored_value) list \<Rightarrow> usize \<Rightarrow> bool" where
  "fits es n \<longleftrightarrow>
     length es + 1 \<le> MAX_QUEUE_PER_RECIPIENT \<and> queue_bytes es + n \<le> PER_MAILBOX_QUEUE_BYTES"

fun evict_count :: "(uuid \<times> stored_value) list \<Rightarrow> usize \<Rightarrow> nat" where
  "evict_count [] n = 0"
| "evict_count (e # es) n = (if fits (e # es) n then 0 else Suc (evict_count es n))"

lemma queue_bytes_simps [simp]:
  "queue_bytes [] = 0"
  "queue_bytes (e # es) = length (sv_c (snd e)) + queue_bytes es"
  "queue_bytes (es @ es') = queue_bytes es + queue_bytes es'"
  by (simp_all add: queue_bytes_def)

lemma queue_bytes_split: "queue_bytes (take n es) + queue_bytes (drop n es) = queue_bytes es"
  by (metis append_take_drop_id queue_bytes_simps(3))

lemma evict_count_le: "evict_count es n \<le> length es"
  by (induction es) auto

lemma evict_count_fits:
  "n \<le> PER_MAILBOX_QUEUE_BYTES \<Longrightarrow> fits (drop (evict_count es n) es) n"
  by (induction es) (auto simp: fits_def MAX_QUEUE_PER_RECIPIENT_def)

lemma evict_count_least: "j < evict_count es n \<Longrightarrow> \<not> fits (drop j es) n"
proof (induction es arbitrary: j)
  case (Cons e es)
  then show ?case by (cases j) (auto split: if_splits)
qed simp

lemma evict_count_zero: "fits es n \<Longrightarrow> evict_count es n = 0"
  by (cases es) auto

lemma evict_loop_eq:
  assumes "c = length es" "b = queue_bytes es" "length es + 1 < usize_modulus"
    "queue_bytes es + n < usize_modulus" "eb + queue_bytes es < usize_modulus"
  shows "evict_loop es c b n ids eb =
     (ids @ map fst (take (evict_count es n) es), eb + queue_bytes (take (evict_count es n) es))"
  using assms
proof (induction es arbitrary: c b ids eb)
  case (Cons e es)
  obtain i v where e: "e = (i, v)" by force
  have test: "(usize_add c 1 > MAX_QUEUE_PER_RECIPIENT
      \<or> usize_add b n > PER_MAILBOX_QUEUE_BYTES) \<longleftrightarrow> \<not> fits (e # es) n"
    using Cons.prems by (auto simp: fits_def usize_simps)
  show ?case
  proof (cases "fits (e # es) n")
    case True
    with test e show ?thesis by auto
  next
    case False
    have "evict_loop es (c - 1) (b - length (sv_c v)) n (ids @ [i])
            (usize_sat_add eb (length (sv_c v)))
        = ((ids @ [i]) @ map fst (take (evict_count es n) es),
           usize_sat_add eb (length (sv_c v)) + queue_bytes (take (evict_count es n) es))"
      using Cons.prems e by (intro Cons.IH) (auto simp: usize_simps)
    with False test e Cons.prems show ?thesis
      by (auto simp: usize_simps)
  qed
qed simp


section \<open>Keys and mailbox lists\<close>

locale queue_backend =
  tab: redb_table "q_table E" + cod: serde_codec "q_codec E" + uu: uuid_text "q_uuid E"
  for E :: "('t, 'b) queue_env"
begin

lemma key_for_inject:
  "CHR '':'' \<notin> set m \<Longrightarrow> CHR '':'' \<notin> set m' \<Longrightarrow>
   key_for E m i = key_for E m' j \<longleftrightarrow> m = m' \<and> i = j"
  by (simp add: key_for_def separated_eq_iff uu.show_inject)

lemma parse_key [simp]:
  "CHR '':'' \<notin> set m \<Longrightarrow> parse_id E (key_for E m i) = Some i"
  "CHR '':'' \<notin> set m \<Longrightarrow> parse_mailbox (key_for E m i) = Some m"
  by (simp_all add: parse_id_def parse_mailbox_def key_for_def uu.parse_show)

lemma prefix_key_iff:
  "CHR '':'' \<notin> set m \<Longrightarrow> CHR '':'' \<notin> set m' \<Longrightarrow> prefix (m @ '':'') (key_for E m' i) \<longleftrightarrow> m = m'"
  using prefix_colon_iff [of m m' "show_uuid (q_uuid E) i"] by (simp add: key_for_def)

lemma well_keyedE:
  assumes "well_keyed E db" "t_get (q_table E) db k = Some b"
  obtains m i v where "CHR '':'' \<notin> set m" "k = key_for E m i" "dec (q_codec E) b = Some v"
  using assms unfolding well_keyed_def by blast

text \<open>The table entries that \<open>read_mailbox\<close> selects.\<close>

lemma in_mailbox_range:
  assumes "well_keyed E db" "CHR '':'' \<notin> set m"
    "(k, b) \<in> set (t_range (q_table E) (m @ '':'') (m @ '';'') db)"
  obtains i v where "k = key_for E m i" "dec (q_codec E) b = Some v" "entry_at E db m i v"
    "decode_entry E (k, b) = Some (i, v)"
proof -
  from assms(3) have get: "t_get (q_table E) db k = Some b" and pre: "prefix (m @ '':'') k"
    by (auto simp: tab.in_range_iff)
  from assms(1) get obtain m' i v
    where k: "CHR '':'' \<notin> set m'" "k = key_for E m' i" "dec (q_codec E) b = Some v"
    by (rule well_keyedE)
  with pre assms(2) have "m' = m" by (auto simp: prefix_key_iff)
  with k get assms(2) show thesis
    by (intro that [of i v]) (auto simp: entry_at_def decode_entry_def)
qed

definition unsorted_mailbox :: "'t \<Rightarrow> string \<Rightarrow> (uuid \<times> stored_value) list" where
  "unsorted_mailbox db m =
     List.map_filter (decode_entry E) (t_range (q_table E) (m @ '':'') (m @ '';'') db)"

lemma read_mailbox_unsorted:
  "read_mailbox E db m = sort_key (sv_s \<circ> snd) (unsorted_mailbox db m)"
  by (simp add: read_mailbox_def mailbox_bounds_def unsorted_mailbox_def)

lemma unsorted_mailbox_map:
  assumes "well_keyed E db" "CHR '':'' \<notin> set m"
  shows "unsorted_mailbox db m
     = map (the \<circ> decode_entry E) (t_range (q_table E) (m @ '':'') (m @ '';'') db)"
  unfolding unsorted_mailbox_def List.map_filter_def
  by (subst filter_True) (use assms in \<open>auto elim!: in_mailbox_range\<close>)

lemma set_read_mailbox:
  assumes "well_keyed E db" "CHR '':'' \<notin> set m"
  shows "(i, v) \<in> set (read_mailbox E db m) \<longleftrightarrow> entry_at E db m i v"
proof
  assume "(i, v) \<in> set (read_mailbox E db m)"
  then obtain k b where "(k, b) \<in> set (t_range (q_table E) (m @ '':'') (m @ '';'') db)"
    "(i, v) = the (decode_entry E (k, b))"
    by (auto simp: read_mailbox_unsorted unsorted_mailbox_map [OF assms])
  then show "entry_at E db m i v" using assms by (auto elim!: in_mailbox_range)
next
  assume "entry_at E db m i v"
  then obtain b where b: "t_get (q_table E) db (key_for E m i) = Some b" "dec (q_codec E) b = Some v"
    by (auto simp: entry_at_def)
  with assms have "(key_for E m i, b) \<in> set (t_range (q_table E) (m @ '':'') (m @ '';'') db)"
    "decode_entry E (key_for E m i, b) = Some (i, v)"
    by (auto simp: tab.in_range_iff prefix_key_iff decode_entry_def)
  then show "(i, v) \<in> set (read_mailbox E db m)"
    unfolding read_mailbox_unsorted unsorted_mailbox_map [OF assms] by force
qed

lemma distinct_ids:
  assumes "well_keyed E db" "CHR '':'' \<notin> set m"
  shows "distinct (map fst (unsorted_mailbox db m))"
proof -
  let ?R = "t_range (q_table E) (m @ '':'') (m @ '';'') db"
  have "distinct ?R" "inj_on fst (set ?R)"
    using tab.distinct_iter [of db]
    by (auto simp: tab.range_prefix distinct_map inj_on_def)
  moreover have "inj_on (fst \<circ> (the \<circ> decode_entry E)) (set ?R)"
  proof (rule inj_onI)
    fix x y assume xy: "x \<in> set ?R" "y \<in> set ?R"
      "(fst \<circ> (the \<circ> decode_entry E)) x = (fst \<circ> (the \<circ> decode_entry E)) y"
    obtain k b where x: "x = (k, b)" by force
    obtain k' b' where y: "y = (k', b')" by force
    from xy x obtain i v where 1: "k = key_for E m i" "decode_entry E (k, b) = Some (i, v)"
      using assms by (auto elim!: in_mailbox_range)
    from xy y obtain j w where 2: "k' = key_for E m j" "decode_entry E (k', b') = Some (j, w)"
      using assms by (auto elim!: in_mailbox_range)
    from xy(3) x y 1 2 have "k = k'" by simp
    with x y show "x = y" using inj_onD [OF \<open>inj_on fst (set ?R)\<close> _ xy(1,2)] by simp
  qed
  ultimately show ?thesis by (simp add: unsorted_mailbox_map [OF assms] distinct_map)
qed

lemma distinct_mail:
  assumes "well_keyed E db" "CHR '':'' \<notin> set m"
  shows "distinct (map fst (read_mailbox E db m))" "distinct (read_mailbox E db m)"
  using distinct_ids [OF assms] by (auto simp: read_mailbox_unsorted distinct_map)

text \<open>A list with a mailbox's entries in the order of their sequence numbers is its list.\<close>

lemma read_mailbox_eqI:
  assumes "well_keyed E db" "CHR '':'' \<notin> set m"
    "\<And>i v. (i, v) \<in> set ys \<longleftrightarrow> entry_at E db m i v"
    "distinct ys" "sorted (map (sv_s \<circ> snd) ys)" "inj_on (sv_s \<circ> snd) (set ys)"
  shows "read_mailbox E db m = ys"
proof -
  have "set (unsorted_mailbox db m) = set ys"
    using assms(3) set_read_mailbox [OF assms(1,2)] by (auto simp: read_mailbox_unsorted)
  moreover have "distinct (unsorted_mailbox db m)"
    using distinct_ids [OF assms(1,2)] by (simp add: distinct_map)
  ultimately show ?thesis
    unfolding read_mailbox_unsorted using assms(4-6) by (intro sort_key_unique)
qed

lemma seqs_inj:
  assumes "well_keyed E db" "seqs_ok E db nxt" "CHR '':'' \<notin> set m"
  shows "inj_on (sv_s \<circ> snd) (set (read_mailbox E db m))"
proof (rule inj_onI)
  fix x y
  assume xy: "x \<in> set (read_mailbox E db m)" "y \<in> set (read_mailbox E db m)"
    "(sv_s \<circ> snd) x = (sv_s \<circ> snd) y"
  then have "entry_at E db m (fst x) (snd x)" "entry_at E db m (fst y) (snd y)"
    using set_read_mailbox [OF assms(1,3), of "fst x" "snd x"]
      set_read_mailbox [OF assms(1,3), of "fst y" "snd y"] by simp_all
  with assms(2,3) xy have "fst x = fst y" unfolding seqs_ok_def comp_def by blast
  moreover have "inj_on fst (set (read_mailbox E db m))"
    using distinct_mail(1) [OF assms(1,3)] by (simp add: distinct_map)
  ultimately show "x = y" using inj_onD xy(1,2) by metis
qed

text \<open>What the invariant says of one mailbox.\<close>

lemma queue_invD:
  assumes "queue_inv E q" "CHR '':'' \<notin> set m"
  shows "well_keyed E (envelopes q)" "seqs_ok E (envelopes q) (next_seq q)"
    "index_of (index q) m = (length (mail E q m), queue_bytes (mail E q m))"
    "length (mail E q m) \<le> MAX_QUEUE_PER_RECIPIENT"
    "queue_bytes (mail E q m) \<le> PER_MAILBOX_QUEUE_BYTES"
    "total_bytes q = t_wsum (q_table E) (entry_len E) (envelopes q)"
    "total_bytes q < usize_modulus"
  using assms by (simp_all add: queue_inv_def)

lemma entry_len_weight:
  "entry_at E db m i v \<Longrightarrow>
   t_weight (q_table E) (entry_len E) db (key_for E m i) = length (sv_c v)"
  by (auto simp: entry_at_def t_weight_def entry_len_def)

lemma sum_weights:
  "(\<And>i v. (i, v) \<in> set es \<Longrightarrow> entry_at E db m i v) \<Longrightarrow>
   sum_list (map (t_weight (q_table E) (entry_len E) db) (map (key_for E m \<circ> fst) es))
     = queue_bytes es"
  by (induction es) (auto simp: entry_len_weight)

lemma distinct_keys:
  "CHR '':'' \<notin> set m \<Longrightarrow> distinct (map fst es) \<Longrightarrow> distinct (map (key_for E m \<circ> fst) es)"
  by (auto simp: distinct_map inj_on_def key_for_inject)

text \<open>A mailbox's bytes are part of the total.\<close>

lemma queue_bytes_le_total:
  assumes "well_keyed E db" "CHR '':'' \<notin> set m"
  shows "queue_bytes (read_mailbox E db m) \<le> t_wsum (q_table E) (entry_len E) db"
proof -
  have "sum_list (map (t_weight (q_table E) (entry_len E) db)
      (map (key_for E m \<circ> fst) (read_mailbox E db m))) = queue_bytes (read_mailbox E db m)"
    using set_read_mailbox [OF assms] by (intro sum_weights) auto
  then show ?thesis
    using tab.wsum_remove_distinct [OF distinct_keys [OF assms(2) distinct_mail(1) [OF assms]],
        of "entry_len E" db]
    by simp
qed

text \<open>
  Removing entries of one mailbox by their keys: the keys that are left, the lists and the
  total.
\<close>

lemma entry_at_remove_all:
  assumes "CHR '':'' \<notin> set m" "CHR '':'' \<notin> set m'"
  shows "entry_at E (t_remove_all (q_table E) (map (key_for E m) ids) db) m' i v
     \<longleftrightarrow> entry_at E db m' i v \<and> \<not> (m' = m \<and> i \<in> set ids)"
  using assms by (auto simp: entry_at_def tab.get_remove_all key_for_inject split: if_splits)

lemma well_keyed_remove_all:
  "well_keyed E db \<Longrightarrow> well_keyed E (t_remove_all (q_table E) ks db)"
  unfolding well_keyed_def by (simp add: tab.get_remove_all)

lemma seqs_ok_mono:
  assumes "seqs_ok E db nxt"
    "\<And>m i v. CHR '':'' \<notin> set m \<Longrightarrow> entry_at E db' m i v \<Longrightarrow> entry_at E db m i v"
  shows "seqs_ok E db' nxt"
  using assms unfolding seqs_ok_def by blast

text \<open>A mailbox whose entries a table keeps has the same list, filtered by what it keeps.\<close>

lemma read_mailbox_filter:
  assumes "well_keyed E db" "well_keyed E db'" "seqs_ok E db nxt" "CHR '':'' \<notin> set m"
    "\<And>i v. entry_at E db' m i v \<longleftrightarrow> entry_at E db m i v \<and> P (i, v)"
  shows "read_mailbox E db' m = filter P (read_mailbox E db m)"
proof (rule read_mailbox_eqI)
  show "distinct (filter P (read_mailbox E db m))"
    using distinct_mail(2) [OF assms(1,4)] by simp
  show "sorted (map (sv_s \<circ> snd) (filter P (read_mailbox E db m)))"
    unfolding read_mailbox_unsorted by (rule sorted_filter) simp
  show "inj_on (sv_s \<circ> snd) (set (filter P (read_mailbox E db m)))"
    by (rule inj_on_subset [OF seqs_inj [OF assms(1,3,4)]]) auto
qed (use assms set_read_mailbox [OF assms(1,4)] in auto)

lemma read_mailbox_same:
  assumes "well_keyed E db" "well_keyed E db'" "seqs_ok E db nxt" "CHR '':'' \<notin> set m"
    "\<And>i v. entry_at E db' m i v \<longleftrightarrow> entry_at E db m i v"
  shows "read_mailbox E db' m = read_mailbox E db m"
  using read_mailbox_filter [OF assms(1-4), of "\<lambda>_. True"] assms(5) by simp

end


section \<open>Enqueue\<close>

definition queued_value :: "u64 \<Rightarrow> stored_envelope \<Rightarrow> 't queue_store \<Rightarrow> stored_value" where
  "queued_value now env q =
     \<lparr>sv_t = envelope_type env, sv_c = ciphertext env, sv_q = now, sv_s = next_seq q\<rparr>"

text \<open>What the callers guarantee of an enqueue that counts: a fresh id, a frame-sized body.\<close>

definition enqueue_pre ::
    "('t, 'b) queue_env \<Rightarrow> string \<Rightarrow> stored_envelope \<Rightarrow> 't queue_store \<Rightarrow> bool" where
  "enqueue_pre E m env q \<longleftrightarrow>
     CHR '':'' \<notin> set m \<and> t_get (q_table E) (envelopes q) (key_for E m (env_id env)) = None \<and>
     length (ciphertext env) \<le> PER_MAILBOX_QUEUE_BYTES \<and>
     \<not> would_exceed_global q (length (ciphertext env)) \<and> next_seq q \<noteq> - 1"

lemma not_exceed_bound:
  "\<not> would_exceed_global q n \<Longrightarrow> total_bytes q + n \<le> GLOBAL_QUEUE_DISK_CAP_BYTES"
  by (auto simp: would_exceed_global_def usize_sat_add_def config_defs usize_max_def min_def
      split: if_splits)

lemma seq_suc: "nxt \<noteq> - 1 \<Longrightarrow> s < nxt + 1 \<longleftrightarrow> s \<le> nxt" for nxt :: u64
  by (simp add: word_less_nat_alt word_le_nat_alt unat_plus_one less_Suc_eq_le)

context queue_backend
begin

lemma evict_choice:
  assumes "length es \<le> MAX_QUEUE_PER_RECIPIENT" "queue_bytes es \<le> PER_MAILBOX_QUEUE_BYTES"
    "n \<le> PER_MAILBOX_QUEUE_BYTES"
  shows "(if usize_add (length es) 1 > MAX_QUEUE_PER_RECIPIENT
            \<or> usize_add (queue_bytes es) n > PER_MAILBOX_QUEUE_BYTES
          then evict_loop es (length es) (queue_bytes es) n [] 0 else ([], 0))
       = (map fst (take (evict_count es n) es), queue_bytes (take (evict_count es n) es))"
proof -
  have small: "length es + 1 < usize_modulus" "queue_bytes es + n < usize_modulus"
    using assms by (simp_all add: config_defs usize_modulus_def)
  then have "(usize_add (length es) 1 > MAX_QUEUE_PER_RECIPIENT
      \<or> usize_add (queue_bytes es) n > PER_MAILBOX_QUEUE_BYTES) \<longleftrightarrow> \<not> fits es n"
    by (auto simp: fits_def usize_simps)
  moreover have "evict_loop es (length es) (queue_bytes es) n [] 0
      = (map fst (take (evict_count es n) es), queue_bytes (take (evict_count es n) es))"
    using small evict_loop_eq [of "length es" es "queue_bytes es" n 0 "[]"] by simp
  ultimately show ?thesis by (simp add: evict_count_zero)
qed

lemma enqueue_result:
  assumes inv: "queue_inv E q" and pre: "enqueue_pre E m env q"
    and eq: "enqueue E io now m env q = (q', Some n)"
  defines "es \<equiv> mail E q m" and "len \<equiv> length (ciphertext env)"
  shows "n = evict_count es len"
    "envelopes q' = t_insert (q_table E) (key_for E m (env_id env))
       (enc (q_codec E) (queued_value now env q))
       (t_remove_all (q_table E) (map (key_for E m) (map fst (take n es))) (envelopes q))"
    "total_bytes q' = total_bytes q + len - queue_bytes (take n es)"
    "index q' = dm_insert m (length es - n + 1, queue_bytes (drop n es) + len) (index q)"
    "next_seq q' = next_seq q + 1"
proof -
  have m: "CHR '':'' \<notin> set m" and len: "len \<le> PER_MAILBOX_QUEUE_BYTES"
    and cap: "total_bytes q + len \<le> GLOBAL_QUEUE_DISK_CAP_BYTES"
    using pre not_exceed_bound by (auto simp: enqueue_pre_def len_def)
  note I = queue_invD [OF inv m, folded es_def]
  let ?k = "evict_count es len"
  have choice: "(if usize_add (length es) 1 > MAX_QUEUE_PER_RECIPIENT
      \<or> usize_add (queue_bytes es) len > PER_MAILBOX_QUEUE_BYTES
      then evict_loop es (length es) (queue_bytes es) len [] 0 else ([], 0))
    = (map fst (take ?k es), queue_bytes (take ?k es))"
    using I len by (intro evict_choice) auto
  have k: "?k \<le> length es" by (rule evict_count_le)
  have split: "queue_bytes es - queue_bytes (take ?k es) = queue_bytes (drop ?k es)"
    using queue_bytes_split [of ?k es] by simp
  have arith: "usize_add (total_bytes q) len = total_bytes q + len"
    "usize_sat_add (length es - ?k) (Suc 0) = length es - ?k + 1"
    "usize_sat_add (queue_bytes (drop ?k es)) len = queue_bytes (drop ?k es) + len"
    using I len cap queue_bytes_split [of ?k es]
    by (auto intro!: usize_add_exact
        simp: usize_sat_add_def usize_max_def config_defs usize_modulus_def)
  have res: "q' = q\<lparr>next_seq := next_seq q + 1,
      envelopes := t_insert (q_table E) (key_for E m (env_id env))
        (enc (q_codec E) (queued_value now env q))
        (t_remove_all (q_table E) (map (key_for E m) (map fst (take ?k es))) (envelopes q)),
      total_bytes := total_bytes q + len - queue_bytes (take ?k es),
      index := dm_insert m (length es - ?k + 1, queue_bytes (drop ?k es) + len) (index q)\<rparr>
      \<and> n = ?k"
    using eq choice I(3) k split arith
    by (auto simp: enqueue_def Let_def len_def [symmetric] es_def [symmetric]
        queued_value_def atomic_sub_saturating_def usize_sat_sub_def
        split: if_splits prod.splits)
  then show "n = ?k" by simp
  with res show "envelopes q' = t_insert (q_table E) (key_for E m (env_id env))
       (enc (q_codec E) (queued_value now env q))
       (t_remove_all (q_table E) (map (key_for E m) (map fst (take n es))) (envelopes q))"
    "total_bytes q' = total_bytes q + len - queue_bytes (take n es)"
    "index q' = dm_insert m (length es - n + 1, queue_bytes (drop n es) + len) (index q)"
    "next_seq q' = next_seq q + 1"
    by simp_all
qed

text \<open>The table after an enqueue, and the lists of every mailbox.\<close>

lemma enqueue_entry_at:
  assumes "CHR '':'' \<notin> set m" "CHR '':'' \<notin> set m'"
  shows "entry_at E (t_insert (q_table E) (key_for E m i) (enc (q_codec E) w)
           (t_remove_all (q_table E) (map (key_for E m) ids) db)) m' j v
     \<longleftrightarrow> (if m' = m \<and> j = i then v = w
          else entry_at E db m' j v \<and> \<not> (m' = m \<and> j \<in> set ids))"
  using assms entry_at_remove_all [OF assms, of ids db j v]
  by (auto simp: entry_at_def tab.get_insert key_for_inject cod.dec_enc)

lemma well_keyed_insert:
  "well_keyed E db \<Longrightarrow> CHR '':'' \<notin> set m \<Longrightarrow>
   well_keyed E (t_insert (q_table E) (key_for E m i) (enc (q_codec E) w) db)"
  unfolding well_keyed_def by (auto simp: tab.get_insert cod.dec_enc)

lemma in_take_ids:
  assumes "distinct (map fst es)" "(i, v) \<in> set es"
  shows "i \<in> set (map fst (take n es)) \<longleftrightarrow> (i, v) \<notin> set (drop n es)"
proof -
  have "distinct (map fst (take n es) @ map fst (drop n es))"
    using assms(1) by (simp flip: map_append)
  moreover have "(i, v) \<in> set (take n es) \<union> set (drop n es)"
    using assms(2) by (metis append_take_drop_id set_append)
  ultimately show ?thesis by (force simp: image_iff)
qed

lemma enqueue_effect:
  assumes inv: "queue_inv E q" and pre: "enqueue_pre E m env q"
    and eq: "enqueue E io now m env q = (q', Some n)"
  shows "well_keyed E (envelopes q')" "seqs_ok E (envelopes q') (next_seq q')"
    "mail E q' m = drop n (mail E q m) @ [(env_id env, queued_value now env q)]"
    "\<And>m'. CHR '':'' \<notin> set m' \<Longrightarrow> m' \<noteq> m \<Longrightarrow> mail E q' m' = mail E q m'"
proof -
  define es where "es = mail E q m"
  define w where "w = queued_value now env q"
  have m: "CHR '':'' \<notin> set m" and seq: "next_seq q \<noteq> - 1"
    and fresh: "t_get (q_table E) (envelopes q) (key_for E m (env_id env)) = None"
    using pre by (auto simp: enqueue_pre_def)
  note I = queue_invD [OF inv m, folded es_def]
  note R = enqueue_result [OF inv pre eq, folded es_def w_def]
  have es: "distinct (map fst es)" "\<And>i v. (i, v) \<in> set es \<longleftrightarrow> entry_at E (envelopes q) m i v"
    using distinct_mail [OF I(1) m] set_read_mailbox [OF I(1) m] by (auto simp: es_def)
  have w: "sv_s w = next_seq q" by (simp add: w_def queued_value_def)
  show wk: "well_keyed E (envelopes q')"
    unfolding R(2) by (intro well_keyed_insert well_keyed_remove_all I(1) m)
  have at: "entry_at E (envelopes q') m' j v \<longleftrightarrow>
      (if m' = m \<and> j = env_id env then v = w
       else entry_at E (envelopes q) m' j v \<and> \<not> (m' = m \<and> j \<in> set (map fst (take n es))))"
    if "CHR '':'' \<notin> set m'" for m' j v
    unfolding R(2) by (rule enqueue_entry_at [OF m that])
  have new: "\<not> entry_at E (envelopes q) m (env_id env) v" for v
    using fresh by (simp add: entry_at_def)
  have old: "sv_s v < next_seq q" if "CHR '':'' \<notin> set m'" "entry_at E (envelopes q) m' j v"
    for m' j v using I(2) that by (auto simp: seqs_ok_def)
  show "seqs_ok E (envelopes q') (next_seq q')"
    unfolding seqs_ok_def R(5)
  proof (intro conjI allI impI; elim conjE)
    fix m' i v assume "CHR '':'' \<notin> set m'" "entry_at E (envelopes q') m' i v"
    then show "sv_s v < next_seq q + 1"
      using old [of m' i v] w by (auto simp: at seq_suc [OF seq] less_imp_le split: if_splits)
  next
    fix m' i v j u
    assume a: "CHR '':'' \<notin> set m'" "entry_at E (envelopes q') m' i v"
      "entry_at E (envelopes q') m' j u" "sv_s v = sv_s u"
    have uniq: "i = j" if "entry_at E (envelopes q) m' i v" "entry_at E (envelopes q) m' j u"
      using I(2) a(1,4) that unfolding seqs_ok_def by blast
    have "i = env_id env \<and> sv_s v = next_seq q \<or> entry_at E (envelopes q) m' i v"
      using a(2) w unfolding at [OF a(1)] by (cases "m' = m \<and> i = env_id env") simp_all
    moreover have "j = env_id env \<and> sv_s u = next_seq q \<or> entry_at E (envelopes q) m' j u"
      using a(3) w unfolding at [OF a(1)] by (cases "m' = m \<and> j = env_id env") simp_all
    ultimately show "i = j"
      using uniq old [OF a(1)] a(4) by (metis less_irrefl)
  qed
  show "mail E q' m = drop n (mail E q m) @ [(env_id env, queued_value now env q)]"
    unfolding es_def [symmetric] w_def [symmetric]
  proof (rule read_mailbox_eqI [OF wk m])
    show "(i, v) \<in> set (drop n es @ [(env_id env, w)]) \<longleftrightarrow> entry_at E (envelopes q') m i v" for i v
    proof (cases "(i, v) \<in> set es")
      case True
      then have "i \<noteq> env_id env" using es(2) new by blast
      with True show ?thesis
        using es(2) [of i v] in_take_ids [OF es(1) True, of n] by (simp add: at [OF m])
    next
      case False
      then have "(i, v) \<notin> set (drop n es)" by (meson in_set_dropD)
      with False show ?thesis using es(2) [of i v] new by (auto simp: at [OF m])
    qed
    have lt: "sv_s (snd e) < next_seq q" if "e \<in> set (drop n es)" for e
      using that es(2) [of "fst e" "snd e"] old [OF m, of "fst e" "snd e"]
      by (auto dest: in_set_dropD)
    have "sorted (map (sv_s \<circ> snd) es)" by (simp add: es_def read_mailbox_unsorted)
    then have srt: "sorted (map (sv_s \<circ> snd) (drop n es))" by (metis drop_map sorted_wrt_drop)
    have inj: "inj_on (sv_s \<circ> snd) (set (drop n es))"
      using seqs_inj [OF I(1,2) m] set_drop_subset [of n es]
      unfolding es_def by (rule inj_on_subset)
    have "(env_id env, w) \<notin> set (drop n es)" using lt [of "(env_id env, w)"] w by auto
    then show "distinct (drop n es @ [(env_id env, w)])"
      using es(1) by (auto simp: distinct_map)
    show "sorted (map (sv_s \<circ> snd) (drop n es @ [(env_id env, w)]))"
      using srt lt w by (auto simp: sorted_append less_imp_le)
    have "sv_s w \<notin> (sv_s \<circ> snd) ` set (drop n es)"
    proof
      assume "sv_s w \<in> (sv_s \<circ> snd) ` set (drop n es)"
      then obtain e where "e \<in> set (drop n es)" "sv_s w = sv_s (snd e)" by auto
      with lt [of e] w show False by simp
    qed
    then show "inj_on (sv_s \<circ> snd) (set (drop n es @ [(env_id env, w)]))"
      using inj by (auto simp: inj_on_insert)
  qed
  fix m' assume m': "CHR '':'' \<notin> set m'" "m' \<noteq> m"
  then show "mail E q' m' = mail E q m'"
    by (intro read_mailbox_same [OF I(1) wk I(2)]) (auto simp: at)
qed

lemma index_of_insert [simp]:
  "index_of (dm_insert k e idx) m = (if m = k then e else index_of idx m)"
  by (simp add: index_of_def)

lemma enqueue_inv:
  assumes inv: "queue_inv E q" and pre: "enqueue_pre E m env q"
    and eq: "enqueue E io now m env q = (q', Some n)"
  shows "queue_inv E q'"
proof -
  define es where "es = mail E q m"
  define w where "w = queued_value now env q"
  let ?len = "length (ciphertext env)"
  let ?key = "key_for E m (env_id env)" and ?T = "q_table E"
  have m: "CHR '':'' \<notin> set m" and len: "?len \<le> PER_MAILBOX_QUEUE_BYTES"
    and fresh: "t_get ?T (envelopes q) ?key = None"
    and cap: "total_bytes q + ?len \<le> GLOBAL_QUEUE_DISK_CAP_BYTES"
    using pre not_exceed_bound by (auto simp: enqueue_pre_def)
  note I = queue_invD [OF inv m, folded es_def]
  note R = enqueue_result [OF inv pre eq, folded es_def w_def]
  note F = enqueue_effect [OF inv pre eq, folded es_def w_def]
  have es: "distinct (map fst es)" "\<And>i v. (i, v) \<in> set es \<Longrightarrow> entry_at E (envelopes q) m i v"
    using distinct_mail [OF I(1) m] set_read_mailbox [OF I(1) m] by (auto simp: es_def)
  have n: "n \<le> length es" using R(1) evict_count_le by metis
  have w: "length (sv_c w) = ?len" by (simp add: w_def queued_value_def)
  let ?ks = "map (key_for E m \<circ> fst) (take n es)"
  let ?mid = "t_remove_all ?T ?ks (envelopes q)"
  have "distinct (map fst (take n es))" using es(1) by (simp add: distinct_take flip: take_map)
  then have "distinct ?ks" by (rule distinct_keys [OF m])
  moreover have "sum_list (map (t_weight ?T (entry_len E) (envelopes q)) ?ks)
      = queue_bytes (take n es)"
    by (rule sum_weights) (use es(2) in \<open>auto dest: in_set_takeD\<close>)
  ultimately have "t_wsum ?T (entry_len E) ?mid + queue_bytes (take n es) = total_bytes q"
    using tab.wsum_remove_distinct [of ?ks "entry_len E" "envelopes q"] I(6) by simp
  moreover have "t_weight ?T (entry_len E) ?mid ?key = 0"
    using fresh by (simp add: t_weight_def tab.get_remove_all)
  ultimately have "total_bytes q' = t_wsum ?T (entry_len E) (envelopes q')"
    using R(2,3) tab.wsum_insert [of "entry_len E" ?key "enc (q_codec E) w" ?mid] w
    by (simp add: entry_len_def cod.dec_enc)
  moreover have "total_bytes q' < usize_modulus"
    using R(3) cap by (simp add: config_defs usize_modulus_def)
  moreover have "fits (drop n es) ?len" using R(1) evict_count_fits [OF len] by simp
  then have "length (mail E q' m) \<le> MAX_QUEUE_PER_RECIPIENT"
    "queue_bytes (mail E q' m) \<le> PER_MAILBOX_QUEUE_BYTES"
    using F(3) n w by (auto simp: fits_def)
  moreover have "index_of (index q') m = (length (mail E q' m), queue_bytes (mail E q' m))"
    using F(3) R(4) n w by simp
  ultimately show ?thesis
    unfolding queue_inv_def using F R(4) queue_invD [OF inv]
    by (metis index_of_insert)
qed

text \<open>A failed enqueue loses nothing but a sequence number.\<close>

lemma enqueue_fail:
  assumes "enqueue E io now m env q = (q', None)"
  shows "q' = q\<lparr>next_seq := next_seq q + 1\<rparr>"
  using assms by (auto simp: enqueue_def Let_def split: if_splits prod.splits)

lemma enqueue_fail_inv:
  assumes "queue_inv E q" "next_seq q \<noteq> - 1" "enqueue E io now m env q = (q', None)"
  shows "queue_inv E q'" "mail E q' = mail E q"
  using assms(1,2) enqueue_fail [OF assms(3)]
  by (auto simp: queue_inv_def seqs_ok_def seq_suc less_imp_le)

end

end
