(* ===== verification/QueueRemoval.thy ===== *)
theory QueueRemoval
  imports QueueProofs "HOL-Library.Multiset"
begin

text \<open>
  The operations of the queue store that remove entries (ack, purge, the expiry sweep), and the
  scan that rebuilds the counters when the store is opened.
\<close>


section \<open>Sums over a mailbox\<close>

lemma sum_list_sort_key: "sum_list (map f (sort_key g xs)) = sum_list (map f xs)"
  for f :: "'a \<Rightarrow> nat"
  by (metis mset_map mset_sort sum_mset_sum_list)

lemma filter_one_id:
  assumes "distinct (map fst es)" "(i, v) \<in> set es"
  shows "queue_bytes es = length (sv_c v) + queue_bytes (filter (\<lambda>e. fst e \<noteq> i) es)"
    "length es = Suc (length (filter (\<lambda>e. fst e \<noteq> i) es))"
proof -
  obtain xs ys where es: "es = xs @ (i, v) # ys" using assms(2) by (auto simp: in_set_conv_decomp)
  then have "filter (\<lambda>e. fst e \<noteq> i) xs = xs" "filter (\<lambda>e. fst e \<noteq> i) ys = ys"
    using assms(1) by (auto simp: filter_id_conv image_iff)
  then show "queue_bytes es = length (sv_c v) + queue_bytes (filter (\<lambda>e. fst e \<noteq> i) es)"
    "length es = Suc (length (filter (\<lambda>e. fst e \<noteq> i) es))"
    by (simp_all add: es)
qed

lemma queue_bytes_filter_le: "queue_bytes (filter P es) \<le> queue_bytes es"
  by (induction es) auto

lemma freed_bytes_eq:
  "sum_list (map (\<lambda>(k, b). entry_len E k b) es) < usize_modulus \<Longrightarrow>
   freed_bytes E es = sum_list (map (\<lambda>(k, b). entry_len E k b) es)"
proof -
  have "fold (\<lambda>(k, v) freed. case dec (q_codec E) v of
            Some val \<Rightarrow> usize_sat_add freed (length (sv_c val)) | None \<Rightarrow> freed) es a
      = a + sum_list (map (\<lambda>(k, b). entry_len E k b) es)"
    if "a + sum_list (map (\<lambda>(k, b). entry_len E k b) es) < usize_modulus" for a
    using that
  proof (induction es arbitrary: a)
    case (Cons e es)
    then show ?case
      by (auto simp: entry_len_def usize_sat_add_exact split: option.splits prod.splits)
  qed simp
  then show "sum_list (map (\<lambda>(k, b). entry_len E k b) es) < usize_modulus \<Longrightarrow> ?thesis"
    by (simp add: freed_bytes_def)
qed

lemma index_of_index_sub [simp]:
  "index_of (index_sub k c b idx) m =
     (if m = k then (fst (index_of idx m) - c, snd (index_of idx m) - b) else index_of idx m)"
  by (auto simp: index_sub_def index_of_def usize_sat_sub_def split: option.splits)

lemma index_of_remove [simp]:
  "index_of (dm_remove k idx) m = (if m = k then (0, 0) else index_of idx m)"
  by (simp add: index_of_def)

context queue_backend
begin

text \<open>
  A sum over the entries of a mailbox that satisfy a condition is the sum over the table entries
  with the mailbox's key prefix that satisfy it.
\<close>

lemma mail_sum:
  fixes h :: "stored_value \<Rightarrow> nat"
  assumes "well_keyed E db" "CHR '':'' \<notin> set m"
  shows "sum_list (map (h \<circ> snd) (filter (P \<circ> snd) (read_mailbox E db m)))
     = sum_list (map (\<lambda>(k, b). h (the (dec (q_codec E) b)))
         (filter (\<lambda>(k, b). prefix (m @ '':'') k \<and> P (the (dec (q_codec E) b)))
            (t_iter (q_table E) db)))"
    (is "?lhs = ?rhs")
proof -
  let ?R = "t_range (q_table E) (m @ '':'') (m @ '';'') db"
  let ?D = "\<lambda>(k, b). the (dec (q_codec E) b)"
  have dec: "snd (the (decode_entry E e)) = ?D e" if "e \<in> set ?R" for e
  proof -
    obtain k b where e: "e = (k, b)" by force
    with that assms obtain i v where "dec (q_codec E) b = Some v" "decode_entry E (k, b) = Some (i, v)"
      by (metis in_mailbox_range)
    with e show ?thesis by simp
  qed
  have "?lhs = sum_list (map (h \<circ> snd) (filter (P \<circ> snd) (unsorted_mailbox db m)))"
    by (simp add: read_mailbox_unsorted filter_sort sum_list_sort_key)
  also have "\<dots> = sum_list (map (h \<circ> ?D) (filter (P \<circ> ?D) ?R))"
    unfolding unsorted_mailbox_map [OF assms] filter_map map_map
    using dec by (intro arg_cong [where f = sum_list] map_cong filter_cong) (auto simp: comp_def)
  also have "filter (P \<circ> ?D) ?R = filter (\<lambda>(k, b). prefix (m @ '':'') k \<and> P (?D (k, b)))
      (t_iter (q_table E) db)"
    by (auto simp: tab.range_prefix intro!: filter_cong)
  finally show ?thesis by (simp add: comp_def case_prod_unfold)
qed

lemma mail_bytes:
  assumes "well_keyed E db" "CHR '':'' \<notin> set m"
  shows "queue_bytes (read_mailbox E db m)
     = sum_list (map (\<lambda>(k, b). entry_len E k b) (t_range (q_table E) (m @ '':'') (m @ '';'') db))"
proof -
  have "queue_bytes (read_mailbox E db m)
      = sum_list (map (\<lambda>(k, b). length (sv_c (the (dec (q_codec E) b))))
          (t_range (q_table E) (m @ '':'') (m @ '';'') db))"
    using mail_sum [OF assms, of "length \<circ> sv_c" "\<lambda>_. True"]
    by (simp add: queue_bytes_def tab.range_prefix comp_def)
  also have "\<dots> = sum_list (map (\<lambda>(k, b). entry_len E k b)
      (t_range (q_table E) (m @ '':'') (m @ '';'') db))"
    by (intro arg_cong [where f = sum_list] map_cong)
      (auto simp: entry_len_def elim!: in_mailbox_range [OF assms])
  finally show ?thesis .
qed

lemma mail_length:
  assumes "well_keyed E db" "CHR '':'' \<notin> set m"
  shows "length (read_mailbox E db m) = length (t_range (q_table E) (m @ '':'') (m @ '';'') db)"
  by (simp add: read_mailbox_unsorted unsorted_mailbox_map [OF assms])


text \<open>Removing keys from the table: what is left.\<close>

lemma entry_at_remove_keys:
  "entry_at E (t_remove_all (q_table E) ks db) m i v
     \<longleftrightarrow> entry_at E db m i v \<and> key_for E m i \<notin> set ks"
  by (auto simp: entry_at_def tab.get_remove_all)

lemma seqs_ok_remove_keys:
  "seqs_ok E db nxt \<Longrightarrow> seqs_ok E (t_remove_all (q_table E) ks db) nxt"
  by (erule seqs_ok_mono) (simp add: entry_at_remove_keys)

lemma read_mailbox_remove_keys:
  assumes "well_keyed E db" "seqs_ok E db nxt" "CHR '':'' \<notin> set m"
  shows "read_mailbox E (t_remove_all (q_table E) ks db) m
     = filter (\<lambda>e. key_for E m (fst e) \<notin> set ks) (read_mailbox E db m)"
  by (rule read_mailbox_filter [OF assms(1) well_keyed_remove_all assms(2,3)])
    (auto simp: assms(1) entry_at_remove_keys)


section \<open>Ack\<close>

lemma ack_step_simps:
  "t_get (q_table E) db (key_for E m i) = None \<Longrightarrow>
   ack_step E m i (db, fr, rm) = (t_remove (q_table E) (key_for E m i) db, fr, rm)"
  "t_get (q_table E) db (key_for E m i) = Some b \<Longrightarrow> dec (q_codec E) b = Some v \<Longrightarrow>
   ack_step E m i (db, fr, rm) =
     (t_remove (q_table E) (key_for E m i) db, usize_sat_add fr (length (sv_c v)), usize_add rm 1)"
  by (simp_all add: ack_step_def Let_def)

lemma ack_fold:
  assumes "CHR '':'' \<notin> set m"
    "well_keyed E db" "seqs_ok E db nxt"
    "fr + t_wsum (q_table E) (entry_len E) db < usize_modulus"
    "rm + length (read_mailbox E db m) < usize_modulus"
    "fold (ack_step E m) ids (db, fr, rm) = (db', fr', rm')"
  shows "db' = t_remove_all (q_table E) (map (key_for E m) ids) db
    \<and> fr' + queue_bytes (read_mailbox E db' m) = fr + queue_bytes (read_mailbox E db m)
    \<and> rm' + length (read_mailbox E db' m) = rm + length (read_mailbox E db m)
    \<and> fr' + t_wsum (q_table E) (entry_len E) db' = fr + t_wsum (q_table E) (entry_len E) db"
  using assms(2-)
proof (induction ids arbitrary: db fr rm)
  case Nil
  then show ?case by (simp add: t_remove_all_def)
next
  case (Cons i ids)
  let ?T = "q_table E" and ?key = "key_for E m i"
  let ?db1 = "t_remove ?T ?key db"
  have db1: "?db1 = t_remove_all ?T [?key] db" by (simp add: t_remove_all_def)
  have ok: "well_keyed E ?db1" "seqs_ok E ?db1 nxt"
    using Cons.prems(1,2) by (simp_all only: db1 well_keyed_remove_all seqs_ok_remove_keys)
  have mail1: "read_mailbox E ?db1 m = filter (\<lambda>e. fst e \<noteq> i) (read_mailbox E db m)"
    unfolding db1 read_mailbox_remove_keys [OF Cons.prems(1,2) assms(1)]
    by (simp add: key_for_inject assms(1) eq_commute)
  have ws: "t_wsum ?T (entry_len E) ?db1 + t_weight ?T (entry_len E) db ?key
      = t_wsum ?T (entry_len E) db" by (rule tab.wsum_remove)
  have all: "t_remove_all ?T (map (key_for E m) (i # ids)) db
      = t_remove_all ?T (map (key_for E m) ids) ?db1" by (simp add: t_remove_all_def)
  show ?case
  proof (cases "t_get ?T db ?key")
    case None
    then have "\<not> entry_at E db m i v" for v by (simp add: entry_at_def)
    then have same: "read_mailbox E ?db1 m = read_mailbox E db m"
      unfolding mail1 using set_read_mailbox [OF Cons.prems(1) assms(1)]
      by (auto simp: filter_id_conv)
    have ws': "t_wsum ?T (entry_len E) ?db1 = t_wsum ?T (entry_len E) db"
      using None ws by (simp add: t_weight_def)
    have step: "fold (ack_step E m) ids (?db1, fr, rm) = (db', fr', rm')"
      using Cons.prems(5) None by (simp add: ack_step_simps)
    have "fr + t_wsum ?T (entry_len E) ?db1 < usize_modulus"
      "rm + length (read_mailbox E ?db1 m) < usize_modulus"
      using Cons.prems(3,4) ws' same by simp_all
    from Cons.IH [OF ok this step] show ?thesis unfolding all ws' same .
  next
    case (Some b)
    obtain m' j v where "CHR '':'' \<notin> set m'" "?key = key_for E m' j" "dec (q_codec E) b = Some v"
      using Cons.prems(1) Some by (rule well_keyedE)
    then have v: "dec (q_codec E) b = Some v" "entry_at E db m i v"
      using Some by (auto simp: entry_at_def)
    then have "(i, v) \<in> set (read_mailbox E db m)"
      using set_read_mailbox [OF Cons.prems(1) assms(1)] by simp
    note one = filter_one_id [OF distinct_mail(1) [OF Cons.prems(1) assms(1)] this,
        folded mail1]
    have w: "t_weight ?T (entry_len E) db ?key = length (sv_c v)"
      using v(2) by (rule entry_len_weight)
    have step: "fold (ack_step E m) ids (?db1, fr + length (sv_c v), rm + 1) = (db', fr', rm')"
      using Cons.prems(3-5) Some v(1) ws w one
      by (simp add: ack_step_simps usize_simps)
    have "fr + length (sv_c v) + t_wsum ?T (entry_len E) ?db1 < usize_modulus"
      "rm + 1 + length (read_mailbox E ?db1 m) < usize_modulus"
      using Cons.prems(3,4) ws w one by simp_all
    from Cons.IH [OF ok this step] show ?thesis using ws w one unfolding all by linarith
  qed
qed

lemma ack_effect:
  assumes inv: "queue_inv E q" and m: "CHR '':'' \<notin> set m"
    and eq: "ack E io m ids q = (q', Some n)"
  shows "queue_inv E q'" "mail E q' m = filter (\<lambda>e. fst e \<notin> set ids) (mail E q m)"
    "\<And>m'. CHR '':'' \<notin> set m' \<Longrightarrow> m' \<noteq> m \<Longrightarrow> mail E q' m' = mail E q m'"
    "n = length (filter (\<lambda>e. fst e \<in> set ids) (mail E q m))" "next_seq q' = next_seq q"
proof -
  note I = queue_invD [OF inv m]
  let ?T = "q_table E"
  have "queue_inv E q' \<and> mail E q' m = filter (\<lambda>e. fst e \<notin> set ids) (mail E q m)
    \<and> (\<forall>m'. CHR '':'' \<notin> set m' \<and> m' \<noteq> m \<longrightarrow> mail E q' m' = mail E q m')
    \<and> n + length (mail E q' m) = length (mail E q m) \<and> next_seq q' = next_seq q"
  proof (cases "ids = []")
    case True
    with eq inv show ?thesis by (auto simp: ack_def)
  next
    case False
    obtain db fr rm where fold: "fold (ack_step E m) ids (envelopes q, 0, 0) = (db, fr, rm)"
      by (metis prod_cases3)
    have q': "q' = q\<lparr>envelopes := db, total_bytes := total_bytes q - fr,
        index := (if rm > 0 then index_sub m rm fr (index q) else index q)\<rparr>" "n = rm"
      using eq False fold
      by (auto simp: ack_def atomic_sub_saturating_def usize_sat_sub_def split: if_splits)
    have len: "0 + length (mail E q m) < usize_modulus"
      using I(4) by (simp add: config_defs usize_modulus_def)
    have fr: "0 + t_wsum ?T (entry_len E) (envelopes q) < usize_modulus" using I(6,7) by simp
    note A = ack_fold [OF m I(1,2) fr len fold]
    then have db: "db = t_remove_all ?T (map (key_for E m) ids) (envelopes q)" by simp
    have mail: "mail E q' m' = (if m' = m then filter (\<lambda>e. fst e \<notin> set ids) (mail E q m)
        else mail E q m')" if "CHR '':'' \<notin> set m'" for m'
      using read_mailbox_remove_keys [OF I(1,2) that] m that
      by (auto simp: q'(1) db key_for_inject intro!: filter_cong filter_True)
    have "rm = 0 \<Longrightarrow> fr = 0"
    proof -
      assume "rm = 0"
      then have "length (filter (\<lambda>e. fst e \<notin> set ids) (mail E q m)) = length (mail E q m)"
        using A [THEN conjunct2] mail [OF m] q'(1) by simp
      then have "filter (\<lambda>e. fst e \<notin> set ids) (mail E q m) = mail E q m"
        by (metis filter_True length_filter_less less_irrefl)
      then show "fr = 0" using A [THEN conjunct2] mail [OF m] q'(1) by simp
    qed
    then have "index_of (index q') m' = (if m' = m
        then (fst (index_of (index q) m) - rm, snd (index_of (index q) m) - fr)
        else index_of (index q) m')" for m' by (simp add: q'(1))
    then have idx: "index_of (index q') m' = (length (mail E q' m'), queue_bytes (mail E q' m'))"
      if "CHR '':'' \<notin> set m'" for m'
      using A [THEN conjunct2] queue_invD(3) [OF inv that] mail that q'(1) by (auto split: if_splits)
    have "queue_inv E q'"
      unfolding queue_inv_def
    proof (intro conjI allI impI)
      show "well_keyed E (envelopes q')" "seqs_ok E (envelopes q') (next_seq q')"
        using I(1,2) by (simp_all add: q'(1) db well_keyed_remove_all seqs_ok_remove_keys)
      show "total_bytes q' = t_wsum ?T (entry_len E) (envelopes q')" "total_bytes q' < usize_modulus"
        using A [THEN conjunct2] I(6,7) unfolding q'(1) by simp_all linarith+
      fix m' :: string assume m': "CHR '':'' \<notin> set m'"
      note J = queue_invD [OF inv m']
      show "length (mail E q' m') \<le> MAX_QUEUE_PER_RECIPIENT"
        "queue_bytes (mail E q' m') \<le> PER_MAILBOX_QUEUE_BYTES"
        using J(4,5) mail [OF m']
        by (auto intro: le_trans [OF length_filter_le] le_trans [OF queue_bytes_filter_le])
    qed (use idx in auto)
    moreover have "n + length (mail E q' m) = length (mail E q m)"
      using A [THEN conjunct2] q' by simp
    ultimately show ?thesis using q'(1) mail m by auto
  qed
  then show "queue_inv E q'" "mail E q' m = filter (\<lambda>e. fst e \<notin> set ids) (mail E q m)"
    "\<And>m'. CHR '':'' \<notin> set m' \<Longrightarrow> m' \<noteq> m \<Longrightarrow> mail E q' m' = mail E q m'"
    "n = length (filter (\<lambda>e. fst e \<in> set ids) (mail E q m))" "next_seq q' = next_seq q"
    using sum_length_filter_compl [of "\<lambda>e. fst e \<in> set ids" "mail E q m"] by auto
qed

section \<open>Removing a batch of keys: purge and sweep\<close>

text \<open>
  Purge and sweep collect a list of table entries and remove their keys. For such a batch the
  freed bytes are exact, and the invariant holds again once the index agrees with the lists.
\<close>

lemma batch_sum:
  assumes "distinct (map fst es)" "set es \<subseteq> set (t_iter (q_table E) db)"
  shows "t_wsum (q_table E) (entry_len E) (t_remove_all (q_table E) (map fst es) db)
      + sum_list (map (\<lambda>(k, b). entry_len E k b) es) = t_wsum (q_table E) (entry_len E) db"
proof -
  have eq: "map (t_weight (q_table E) (entry_len E) db \<circ> fst) es = map (\<lambda>(k, b). entry_len E k b) es"
    using assms(2) by (auto simp: t_weight_def dest!: subsetD simp: tab.in_iter_iff)
  then show ?thesis
    using tab.wsum_remove_distinct [OF assms(1), of "entry_len E" db] unfolding map_map eq by simp
qed

lemma batch_inv:
  assumes inv: "queue_inv E q" and es: "distinct (map fst es)"
    "set es \<subseteq> set (t_iter (q_table E) (envelopes q))"
    and q': "envelopes q' = t_remove_all (q_table E) (map fst es) (envelopes q)"
      "total_bytes q' = atomic_sub_saturating (total_bytes q) (freed_bytes E es)"
      "next_seq q' = next_seq q"
    and idx: "\<And>m. CHR '':'' \<notin> set m \<Longrightarrow>
      index_of (index q') m = (length (mail E q' m), queue_bytes (mail E q' m))"
  shows "queue_inv E q'"
proof -
  have e: "CHR '':'' \<notin> set ([] :: string)" by simp
  note I = queue_invD [OF inv e]
  note B = batch_sum [OF es]
  have "freed_bytes E es = sum_list (map (\<lambda>(k, b). entry_len E k b) es)"
    using B I(6,7) by (intro freed_bytes_eq) simp
  then have tot: "total_bytes q' = t_wsum (q_table E) (entry_len E) (envelopes q')"
    "total_bytes q' < usize_modulus"
    using B I(6,7) unfolding q' atomic_sub_saturating_def usize_sat_sub_def by simp_all
  show ?thesis
    unfolding queue_inv_def
  proof (intro conjI allI impI)
    show "well_keyed E (envelopes q')" "seqs_ok E (envelopes q') (next_seq q')"
      using I(1,2) by (simp_all add: q' well_keyed_remove_all seqs_ok_remove_keys)
    fix m :: string assume m: "CHR '':'' \<notin> set m"
    note J = queue_invD [OF inv m]
    have mail: "mail E q' m = filter (\<lambda>e. key_for E m (fst e) \<notin> fst ` set es) (mail E q m)"
      using read_mailbox_remove_keys [OF J(1,2) m] by (simp add: q')
    show "length (mail E q' m) \<le> MAX_QUEUE_PER_RECIPIENT"
      "queue_bytes (mail E q' m) \<le> PER_MAILBOX_QUEUE_BYTES"
      using J(4,5) unfolding mail
      by (auto intro: le_trans [OF length_filter_le] le_trans [OF queue_bytes_filter_le])
  qed (use idx tot in auto)
qed

lemma distinct_filter_iter:
  "distinct (map fst (filter P (t_iter (q_table E) db)))"
  using tab.distinct_iter by (rule distinct_map_filter)

lemma purge_effect:
  assumes inv: "queue_inv E q" and m: "CHR '':'' \<notin> set m"
    and eq: "purge_mailbox E io m q = (q', Some n)"
  shows "queue_inv E q'" "mail E q' m = []" "n = length (mail E q m)"
    "\<And>m'. CHR '':'' \<notin> set m' \<Longrightarrow> m' \<noteq> m \<Longrightarrow> mail E q' m' = mail E q m'" "next_seq q' = next_seq q"
proof -
  note I = queue_invD [OF inv m]
  define es where "es = t_range (q_table E) (m @ '':'') (m @ '';'') (envelopes q)"
  have q': "q' = q\<lparr>envelopes := t_remove_all (q_table E) (map fst es) (envelopes q),
      total_bytes := atomic_sub_saturating (total_bytes q) (freed_bytes E es),
      index := dm_remove m (index q)\<rparr>" "n = length es"
    using eq by (auto simp: purge_mailbox_def mailbox_bounds_def es_def Let_def split: if_splits)
  have es: "distinct (map fst es)" "set es \<subseteq> set (t_iter (q_table E) (envelopes q))"
    using distinct_filter_iter by (auto simp: es_def tab.range_prefix)
  have inkey: "key_for E m' i \<in> fst ` set es \<longleftrightarrow> m' = m"
    if "CHR '':'' \<notin> set m'" "(i, v) \<in> set (mail E q m')" for m' i v
  proof
    assume "key_for E m' i \<in> fst ` set es"
    then have "prefix (m @ '':'') (key_for E m' i)" by (auto simp: es_def tab.in_range_iff)
    with m that(1) show "m' = m" by (simp add: prefix_key_iff)
  next
    assume "m' = m"
    with that set_read_mailbox [OF I(1) m, of i v]
    obtain b where "t_get (q_table E) (envelopes q) (key_for E m i) = Some b"
      by (auto simp: entry_at_def)
    then have "(key_for E m i, b) \<in> set es" by (simp add: es_def tab.in_range_iff key_for_def)
    with \<open>m' = m\<close> show "key_for E m' i \<in> fst ` set es" by force
  qed
  have mail: "mail E q' m' = (if m' = m then [] else mail E q m')" if "CHR '':'' \<notin> set m'" for m'
  proof -
    have "mail E q' m' = filter (\<lambda>e. key_for E m' (fst e) \<notin> fst ` set es) (mail E q m')"
      using read_mailbox_remove_keys [OF I(1,2) that, of "map fst es"] by (simp add: q'(1))
    also have "\<dots> = filter (\<lambda>e. m' \<noteq> m) (mail E q m')"
      using inkey [OF that] by (intro filter_cong) (simp_all add: prod_eq_iff split_paired_all)
    finally show ?thesis by simp
  qed
  show "queue_inv E q'"
    by (rule batch_inv [OF inv es]) (use mail queue_invD(3) [OF inv] in \<open>auto simp: q'(1)\<close>)
  show "mail E q' m = []" using mail [OF m] by simp
  show "n = length (mail E q m)" using q'(2) mail_length [OF I(1) m] by (simp add: es_def)
  show "mail E q' m' = mail E q m'" if "CHR '':'' \<notin> set m'" "m' \<noteq> m" for m'
    using mail that by simp
  show "next_seq q' = next_seq q" by (simp add: q'(1))
qed

lemma is_empty_iff:
  assumes "queue_inv E q" "CHR '':'' \<notin> set m" "read_ok io"
  shows "is_empty E io m q = Some (mail E q m = [])"
  using mail_length [OF queue_invD(1) [OF assms(1,2)] assms(2)] assms(3)
  by (simp add: is_empty_def mailbox_bounds_def flip: length_0_conv)


section \<open>The expiry sweep and the scan at start\<close>

text \<open>
  Both fold over table entries and count, per mailbox, the entries and bytes they see.
\<close>

definition decodes :: "string \<times> 'b \<Rightarrow> bool" where
  "decodes = (\<lambda>(k, b). \<exists>m i v. CHR '':'' \<notin> set m \<and> k = key_for E m i \<and> dec (q_codec E) b = Some v)"

lemma decodes_iter: "well_keyed E db \<Longrightarrow> e \<in> set (t_iter (q_table E) db) \<Longrightarrow> decodes e"
  unfolding well_keyed_def decodes_def by (cases e) (simp add: tab.in_iter_iff)

lemma entry_len_decodes: "decodes (k, b) \<Longrightarrow> entry_len E k b = length (sv_c (the (dec (q_codec E) b)))"
  by (auto simp: decodes_def entry_len_def)

abbreviation of_mailbox :: "string \<Rightarrow> (string \<times> 'b) list \<Rightarrow> (string \<times> 'b) list" where
  "of_mailbox m \<equiv> filter (\<lambda>(k, b). prefix (m @ '':'') k)"

lemma tally_entry_index:
  assumes "decodes (k, b)" "CHR '':'' \<notin> set m"
  shows "index_of (tally_entry E (k, b) acc) m =
    (if prefix (m @ '':'') k
     then (usize_add (fst (index_of acc m)) 1, usize_sat_add (snd (index_of acc m)) (entry_len E k b))
     else index_of acc m)"
  using assms by (auto simp: decodes_def tally_entry_def Let_def prefix_key_iff entry_len_def)

lemma tally_fold:
  assumes "\<And>e. e \<in> set es \<Longrightarrow> decodes e" "CHR '':'' \<notin> set m"
    "fst (index_of acc m) + length (of_mailbox m es) < usize_modulus"
    "snd (index_of acc m) + sum_list (map (\<lambda>(k, b). entry_len E k b) (of_mailbox m es))
       < usize_modulus"
  shows "index_of (fold (tally_entry E) es acc) m =
    (fst (index_of acc m) + length (of_mailbox m es),
     snd (index_of acc m) + sum_list (map (\<lambda>(k, b). entry_len E k b) (of_mailbox m es)))"
  using assms(1,3,4)
proof (induction es arbitrary: acc)
  case (Cons e es)
  obtain k b where e: "e = (k, b)" by force
  have step: "index_of (tally_entry E e acc) m =
    (if prefix (m @ '':'') k
     then (fst (index_of acc m) + 1, snd (index_of acc m) + entry_len E k b)
     else index_of acc m)"
    unfolding e by (subst tally_entry_index) (use Cons.prems e assms(2) in \<open>auto simp: usize_simps\<close>)
  show ?case
    using Cons.prems e step by (simp add: Cons.IH split: if_splits)
qed simp

lemma dm_wf_tally: "dm_wf acc \<Longrightarrow> dm_wf (fold (tally_entry E) es acc)"
  by (induction es arbitrary: acc)
    (auto simp: tally_entry_def Let_def split: option.splits prod.splits)

lemma tally_empty: "index_of (fold (tally_entry E) [] []) m = (0, 0)"
  by (simp add: index_of_def)

end

lemma index_of_fold_sub:
  "dm_wf pm \<Longrightarrow> index_of (fold (\<lambda>(mailbox, count, nbytes). index_sub mailbox count nbytes) pm idx) m =
     (fst (index_of idx m) - fst (index_of pm m), snd (index_of idx m) - snd (index_of pm m))"
proof (induction pm arbitrary: idx)
  case (Cons e pm)
  obtain k c b where e: "e = (k, c, b)" by (cases e)
  have "dm_wf pm" "dm_get pm k = None"
    using Cons.prems e by (auto simp: dm_wf_def map_of_eq_None_iff)
  then have "index_of pm k = (0, 0)" "\<And>m. index_of (e # pm) m = (if m = k then (c, b) else index_of pm m)"
    by (simp_all add: index_of_def e)
  with \<open>dm_wf pm\<close> show ?case by (auto simp: e Cons.IH)
qed (simp add: index_of_def)

context queue_backend
begin

lemma sweep_effect:
  assumes inv: "queue_inv E q" and eq: "sweep_expired E io now q = (q', Some n)"
  defines "live \<equiv> \<lambda>e. \<not> sv_q (snd e) < sat_sub now QUEUE_TTL_MS"
  shows "queue_inv E q'" "CHR '':'' \<notin> set m \<Longrightarrow> mail E q' m = filter live (mail E q m)"
    "next_seq q' = next_seq q"
proof -
  let ?T = "q_table E" and ?cut = "sat_sub now QUEUE_TTL_MS"
  have e: "CHR '':'' \<notin> set ([] :: string)" by simp
  note I = queue_invD [OF inv e]
  define es where "es = filter (expired_entry E ?cut) (t_iter ?T (envelopes q))"
  have q': "envelopes q' = t_remove_all ?T (map fst es) (envelopes q)"
    "total_bytes q' = atomic_sub_saturating (total_bytes q) (freed_bytes E es)"
    "next_seq q' = next_seq q"
    "index q' = fold (\<lambda>(mailbox, count, nbytes). index_sub mailbox count nbytes)
       (fold (tally_entry E) es []) (index q)"
    using eq by (auto simp: sweep_expired_def es_def Let_def split: if_splits)
  have es: "distinct (map fst es)" "set es \<subseteq> set (t_iter ?T (envelopes q))"
    using distinct_filter_iter by (auto simp: es_def)
  have inkey: "key_for E m i \<in> fst ` set es \<longleftrightarrow> \<not> live (i, v)"
    if m: "CHR '':'' \<notin> set m" and iv: "(i, v) \<in> set (mail E q m)" for m i v
  proof -
    obtain b where b: "t_get ?T (envelopes q) (key_for E m i) = Some b" "dec (q_codec E) b = Some v"
      using set_read_mailbox [OF I(1) m] iv by (auto simp: entry_at_def)
    have "key_for E m i \<in> fst ` set es \<longleftrightarrow> (key_for E m i, b) \<in> set es"
      using b(1) by (auto simp: es_def image_iff tab.in_iter_iff intro!: bexI [of _ "(key_for E m i, b)"])
    also have "\<dots> \<longleftrightarrow> \<not> live (i, v)"
      using b unfolding es_def live_def by (simp add: tab.in_iter_iff expired_entry_def)
    finally show ?thesis .
  qed
  have mail: "mail E q' m = filter live (mail E q m)" if m: "CHR '':'' \<notin> set m" for m
  proof -
    have "mail E q' m = filter (\<lambda>e. key_for E m (fst e) \<notin> fst ` set es) (mail E q m)"
      using read_mailbox_remove_keys [OF I(1,2) m, of "map fst es"] by (simp add: q'(1))
    also have "\<dots> = filter live (mail E q m)"
      using inkey [OF m] by (intro filter_cong) (simp_all add: prod_eq_iff split_paired_all)
    finally show ?thesis .
  qed
  have idx: "index_of (index q') m = (length (mail E q' m), queue_bytes (mail E q' m))"
    if m: "CHR '':'' \<notin> set m" for m
  proof -
    note J = queue_invD [OF inv m]
    let ?gone = "filter (\<lambda>e. \<not> live e) (mail E q m)"
    have of_m: "of_mailbox m es = filter (\<lambda>(k, b). prefix (m @ '':'') k
        \<and> sv_q (the (dec (q_codec E) b)) < ?cut) (t_iter ?T (envelopes q))"
      unfolding es_def filter_filter
      by (intro filter_cong) (auto simp: expired_entry_def decodes_def dest!: decodes_iter [OF I(1)])
    have gone: "sum_list (map (h \<circ> snd) ?gone) = sum_list (map (\<lambda>(k, b). h (the (dec (q_codec E) b)))
        (of_mailbox m es))" for h :: "stored_value \<Rightarrow> nat"
      using mail_sum [OF I(1) m, of h "\<lambda>v. sv_q v < ?cut"] unfolding of_m live_def comp_def by simp
    have cnt: "length (of_mailbox m es) = length ?gone"
      using gone [of "\<lambda>_. 1"] by (simp add: comp_def sum_list_triv case_prod_unfold)
    have lens: "map (\<lambda>(k, b). length (sv_c (the (dec (q_codec E) b)))) (of_mailbox m es)
        = map (\<lambda>(k, b). entry_len E k b) (of_mailbox m es)"
      using es(2) entry_len_decodes [OF decodes_iter [OF I(1)]] by auto
    have byt: "sum_list (map (\<lambda>(k, b). entry_len E k b) (of_mailbox m es)) = queue_bytes ?gone"
      unfolding lens [symmetric] using gone [of "length \<circ> sv_c"]
      by (simp add: queue_bytes_def comp_def)
    have "length ?gone \<le> length (mail E q m)" "queue_bytes ?gone \<le> queue_bytes (mail E q m)"
      by (auto intro: queue_bytes_filter_le)
    then have "length ?gone < usize_modulus" "queue_bytes ?gone < usize_modulus"
      using J(4,5) by (simp_all add: config_defs usize_modulus_def del: length_filter_le)
    then have "index_of (fold (tally_entry E) es []) m = (length ?gone, queue_bytes ?gone)"
      using es(2) decodes_iter [OF I(1)]
      by (subst tally_fold) (auto simp: cnt byt m index_of_def)
    then have "index_of (index q') m = (length (mail E q m) - length ?gone,
        queue_bytes (mail E q m) - queue_bytes ?gone)"
      by (simp add: q'(4) index_of_fold_sub dm_wf_tally J(3))
    moreover have "queue_bytes (mail E q m) = queue_bytes (filter live (mail E q m)) + queue_bytes ?gone"
      unfolding queue_bytes_def by (rule sum_list_filter_split [symmetric])
    moreover have "length (mail E q m) = length (filter live (mail E q m)) + length ?gone"
      by (rule sum_length_filter_compl [symmetric])
    ultimately show ?thesis by (simp add: mail [OF m])
  qed
  show "queue_inv E q'" by (rule batch_inv [OF inv es q'(1-3) idx])
  show "CHR '':'' \<notin> set m \<Longrightarrow> mail E q' m = filter live (mail E q m)" by (rule mail)
  show "next_seq q' = next_seq q" by (rule q'(3))
qed


text \<open>
  The scan at start computes the byte total, the greatest sequence number and the index.
\<close>

lemma scan_fold:
  assumes "\<And>e. e \<in> set es \<Longrightarrow> decodes e"
    "t + sum_list (map (\<lambda>(k, b). entry_len E k b) es) < usize_modulus"
  shows "fold (scan_entry E) es (t, mx, acc) =
    (t + sum_list (map (\<lambda>(k, b). entry_len E k b) es),
     fold max (map (\<lambda>(k, b). sv_s (the (dec (q_codec E) b))) es) mx,
     fold (tally_entry E) es acc)"
  using assms
proof (induction es arbitrary: t mx acc)
  case (Cons e es)
  obtain k b where e: "e = (k, b)" by force
  obtain m i v where kb: "CHR '':'' \<notin> set m" "k = key_for E m i" "dec (q_codec E) b = Some v"
    using Cons.prems(1) [of e] e by (auto simp: decodes_def)
  have "scan_entry E e (t, mx, acc) = (t + entry_len E k b, max mx (sv_s v), tally_entry E e acc)"
    using Cons.prems(2) e kb
    by (simp add: usize_simps entry_len_def tally_entry_def Let_def)
  with Cons e kb show ?case by (simp add: max.commute del: scan_entry.simps)
qed simp

lemma fold_max_ge: "x \<in> insert a (set xs) \<Longrightarrow> x \<le> fold max xs a" for a :: "'a::linorder"
proof (induction xs arbitrary: a x)
  case (Cons y xs)
  have "max y a \<le> fold max xs (max y a)" by (rule Cons.IH) simp
  moreover have "x \<in> set xs \<Longrightarrow> x \<le> fold max xs (max y a)" by (rule Cons.IH) simp
  ultimately show ?case using Cons.prems by auto
qed simp

lemma fold_max_in: "fold max xs a \<in> insert a (set xs)" for a :: "'a::linorder"
proof (induction xs arbitrary: a)
  case (Cons y xs)
  from Cons [of "max y a"] show ?case by (auto simp: max_def split: if_splits)
qed simp

lemma sat_succ: "x < n \<Longrightarrow> sat_add x 1 = x + 1 \<and> x < x + 1 \<and> x + 1 \<le> n" for x n :: u64
proof -
  assume "x < n"
  then have "x \<noteq> - 1" by (metis word_order.extremum leD)
  then have "unat (x + 1) = Suc (unat x)" by (rule unat_plus_one)
  with \<open>x < n\<close> show ?thesis by (simp add: sat_add_def word_less_nat_alt word_le_nat_alt)
qed

text \<open>Opening a table that a run of the relay left: the counters come back exactly.\<close>

lemma reopen_effect:
  assumes inv: "queue_inv E q" and eq: "queue_new E io (envelopes q) = Some q'"
  shows "queue_inv E q'" "envelopes q' = envelopes q" "total_bytes q' = total_bytes q"
    "CHR '':'' \<notin> set m \<Longrightarrow> index_of (index q') m = index_of (index q) m"
proof -
  let ?it = "t_iter (q_table E) (envelopes q)"
  have e: "CHR '':'' \<notin> set ([] :: string)" by simp
  note I = queue_invD [OF inv e]
  note dec = decodes_iter [OF I(1)]
  define mx where "mx = fold max (map (\<lambda>(k, b). sv_s (the (dec (q_codec E) b))) ?it) 0"
  have total: "sum_list (map (\<lambda>(k, b). entry_len E k b) ?it) = total_bytes q"
    using I(6) by (simp add: t_wsum_def)
  then have scan: "scan_totals E (envelopes q) = (total_bytes q, mx, fold (tally_entry E) ?it [])"
    using scan_fold [of ?it 0 0 "[]"] dec I(7) by (simp add: scan_totals_def mx_def)
  then have q': "q' = \<lparr>envelopes = envelopes q, total_bytes = total_bytes q,
      next_seq = sat_add mx 1, index = fold (tally_entry E) ?it []\<rparr>"
    using eq by (auto simp: queue_new_def split: if_splits)
  have below: "sv_s v \<le> mx" if "CHR '':'' \<notin> set m" "entry_at E (envelopes q) m i v" for m i v
  proof -
    from that obtain b where "(key_for E m i, b) \<in> set ?it" "dec (q_codec E) b = Some v"
      by (auto simp: entry_at_def tab.in_iter_iff)
    then have "sv_s v \<in> set (map (\<lambda>(k, b). sv_s (the (dec (q_codec E) b))) ?it)" by force
    then show ?thesis unfolding mx_def by (intro fold_max_ge) simp
  qed
  have seqs: "sv_s v < sat_add mx 1" if v: "CHR '':'' \<notin> set m" "entry_at E (envelopes q) m i v"
    for m i v
  proof -
    have lt: "sv_s v < next_seq q" using I(2) v by (auto simp: seqs_ok_def)
    have "mx \<in> insert 0 (set (map (\<lambda>(k, b). sv_s (the (dec (q_codec E) b))) ?it))"
      unfolding mx_def by (rule fold_max_in)
    then have "mx < next_seq q"
    proof
      assume "mx = 0"
      with lt show ?thesis using le_less_trans word_zero_le by blast
    next
      assume "mx \<in> set (map (\<lambda>(k, b). sv_s (the (dec (q_codec E) b))) ?it)"
      then obtain k b where kb: "(k, b) \<in> set ?it" "mx = sv_s (the (dec (q_codec E) b))" by auto
      from dec [OF kb(1)] obtain m i u where "CHR '':'' \<notin> set m" "entry_at E (envelopes q) m i u"
        "dec (q_codec E) b = Some u"
        using kb(1) by (auto simp: decodes_def entry_at_def tab.in_iter_iff)
      with kb(2) I(2) show ?thesis by (auto simp: seqs_ok_def)
    qed
    then have "sat_add mx 1 = mx + 1 \<and> mx < mx + 1" using sat_succ by blast
    with below [OF v] show ?thesis using order_le_less_trans by metis
  qed
  have idx: "index_of (index q') m = (length (mail E q' m), queue_bytes (mail E q' m))"
    if m: "CHR '':'' \<notin> set m" for m
  proof -
    note J = queue_invD [OF inv m]
    have "of_mailbox m ?it = t_range (q_table E) (m @ '':'') (m @ '';'') (envelopes q)"
      by (simp add: tab.range_prefix)
    then have "length (of_mailbox m ?it) = length (mail E q m)"
      "sum_list (map (\<lambda>(k, b). entry_len E k b) (of_mailbox m ?it)) = queue_bytes (mail E q m)"
      using mail_length [OF I(1) m] mail_bytes [OF I(1) m] by simp_all
    then show ?thesis
      using J(4,5) dec unfolding q'
      by (simp, subst tally_fold) (auto simp: m index_of_def config_defs usize_modulus_def)
  qed
  show "queue_inv E q'"
    unfolding queue_inv_def
  proof (intro conjI allI impI)
    have "seqs_ok E (envelopes q) (sat_add mx 1)"
      using I(2) seqs unfolding seqs_ok_def by blast
    then show "seqs_ok E (envelopes q') (next_seq q')" by (simp add: q')
    fix m :: string assume m: "CHR '':'' \<notin> set m"
    show "length (mail E q' m) \<le> MAX_QUEUE_PER_RECIPIENT"
      "queue_bytes (mail E q' m) \<le> PER_MAILBOX_QUEUE_BYTES"
      using queue_invD(4,5) [OF inv m] by (simp_all add: q')
  qed (use idx I in \<open>auto simp: q'\<close>)
  show "envelopes q' = envelopes q" "total_bytes q' = total_bytes q" by (simp_all add: q')
  show "index_of (index q') m = index_of (index q) m" if m: "CHR '':'' \<notin> set m"
    using idx [OF m] queue_invD(3) [OF inv m] by (simp add: q')
qed

text \<open>An empty table opens as an empty store.\<close>

lemma open_empty:
  assumes "queue_new E io (t_empty (q_table E)) = Some q"
  shows "queue_inv E q" "mail E q m = []" "total_bytes q = 0"
proof -
  have it: "t_iter (q_table E) (t_empty (q_table E)) = []"
    by (simp add: tab.iter_Nil_iff tab.get_empty)
  have rd: "read_mailbox E (t_empty (q_table E)) m = []" for m
    by (simp add: read_mailbox_unsorted unsorted_mailbox_def tab.range_iter it
        List.map_filter_def)
  have q: "q = \<lparr>envelopes = t_empty (q_table E), total_bytes = 0, next_seq = sat_add 0 1, index = []\<rparr>"
    using assms it by (auto simp: queue_new_def scan_totals_def split: if_splits)
  show "queue_inv E q"
    by (simp add: q rd queue_inv_def well_keyed_def seqs_ok_def entry_at_def tab.get_empty
        index_of_def tab.wsum_empty config_defs usize_modulus_def)
  show "mail E q m = []" "total_bytes q = 0" by (simp_all add: q rd)
qed

end

end
