(* ===== verification/QueueProps.thy ===== *)
theory QueueProps
  imports QueueRemoval
begin

text \<open>
  The contract of the queue store over whole runs. The locale \<open>bounded_fifo\<close> is what a user of
  the store relies on: how each operation changes the list of one mailbox. Its lemmas follow a
  message through any sequence of operations; the interpretation discharges the laws for the
  store's own operations, and the properties of the store stand at the end.
\<close>


section \<open>Runs\<close>

datatype queue_op =
    QEnqueue io u64 string stored_envelope
  | QAck io string "uuid list"
  | QPurge io string
  | QSweep io u64
  | QReopen io

fun apply_op :: "('t, 'b) queue_env \<Rightarrow> queue_op \<Rightarrow> 't queue_store \<Rightarrow> 't queue_store" where
  "apply_op E (QEnqueue io now m env) q = fst (enqueue E io now m env q)"
| "apply_op E (QAck io m ids) q = fst (ack E io m ids q)"
| "apply_op E (QPurge io m) q = fst (purge_mailbox E io m q)"
| "apply_op E (QSweep io now) q = fst (sweep_expired E io now q)"
| "apply_op E (QReopen io) q =
     (case queue_new E io (envelopes q) of Some q' \<Rightarrow> q' | None \<Rightarrow> q)"

text \<open>
  What the caller of an operation checks first: a mailbox name without the separator, and for an
  enqueue a fresh envelope id, an envelope that fits a mailbox, room under the global cap.
\<close>

fun op_ok :: "('t, 'b) queue_env \<Rightarrow> queue_op \<Rightarrow> 't queue_store \<Rightarrow> bool" where
  "op_ok E (QEnqueue io now m env) q \<longleftrightarrow> enqueue_pre E m env q"
| "op_ok E (QAck io m ids) q \<longleftrightarrow> CHR '':'' \<notin> set m"
| "op_ok E (QPurge io m) q \<longleftrightarrow> CHR '':'' \<notin> set m"
| "op_ok E (QSweep io now) q \<longleftrightarrow> True"
| "op_ok E (QReopen io) q \<longleftrightarrow> True"

fun run :: "('op \<Rightarrow> 's \<Rightarrow> 's) \<Rightarrow> 'op list \<Rightarrow> 's \<Rightarrow> 's" where
  "run step [] s = s"
| "run step (x # xs) s = run step xs (step x s)"

fun run_ok :: "('op \<Rightarrow> 's \<Rightarrow> bool) \<Rightarrow> ('op \<Rightarrow> 's \<Rightarrow> 's) \<Rightarrow> 'op list \<Rightarrow> 's \<Rightarrow> bool" where
  "run_ok ok step [] s \<longleftrightarrow> True"
| "run_ok ok step (x # xs) s \<longleftrightarrow> ok x s \<and> run_ok ok step xs (step x s)"

text \<open>The later traffic of a mailbox: the envelopes a run enqueues for it.\<close>

fun traffic :: "string \<Rightarrow> queue_op list \<Rightarrow> stored_envelope list" where
  "traffic m (QEnqueue io now m' env # ops) = (if m' = m then env # traffic m ops else traffic m ops)"
| "traffic m (op # ops) = traffic m ops"
| "traffic m [] = []"

text \<open>No operation of the run asks for the entry to be removed.\<close>

fun spares :: "string \<Rightarrow> uuid \<times> stored_value \<Rightarrow> queue_op \<Rightarrow> bool" where
  "spares m e (QAck io m' ids) \<longleftrightarrow> m' \<noteq> m \<or> fst e \<notin> set ids"
| "spares m e (QPurge io m') \<longleftrightarrow> m' \<noteq> m"
| "spares m e (QSweep io now) \<longleftrightarrow> \<not> sv_q (snd e) < sat_sub now QUEUE_TTL_MS"
| "spares m e (QEnqueue io now m' env) \<longleftrightarrow> True"
| "spares m e (QReopen io) \<longleftrightarrow> True"

text \<open>One mailbox list after an operation.\<close>

inductive box_step ::
    "string \<Rightarrow> queue_op \<Rightarrow> (uuid \<times> stored_value) list \<Rightarrow> (uuid \<times> stored_value) list \<Rightarrow> bool"
  for m where
  same: "box_step m op es es"
| append: "fst e = env_id env \<Longrightarrow> length (sv_c (snd e)) = length (ciphertext env) \<Longrightarrow>
    box_step m (QEnqueue io now m env) es
      (drop (evict_count es (length (ciphertext env))) es @ [e])"
| remove: "(\<And>e. e \<in> set es \<Longrightarrow> spares m e op \<Longrightarrow> P e) \<Longrightarrow>
    box_step m op es (filter P es)"

inductive_cases box_stepE: "box_step m op es es'"


section \<open>The contract\<close>

locale bounded_fifo =
  fixes inv :: "'s \<Rightarrow> bool"
    and box :: "'s \<Rightarrow> string \<Rightarrow> (uuid \<times> stored_value) list"
    and ok :: "queue_op \<Rightarrow> 's \<Rightarrow> bool"
    and step :: "queue_op \<Rightarrow> 's \<Rightarrow> 's"
  assumes step_inv: "inv s \<Longrightarrow> ok op s \<Longrightarrow> inv (step op s)"
    and step_box: "inv s \<Longrightarrow> ok op s \<Longrightarrow> CHR '':'' \<notin> set m \<Longrightarrow>
      box_step m op (box s m) (box (step op s) m)"
begin

lemma run_inv: "inv s \<Longrightarrow> run_ok ok step ops s \<Longrightarrow> inv (run step ops s)"
  by (induction ops arbitrary: s) (auto intro: step_inv)

text \<open>
  A message stays in its mailbox while the messages behind it and the later traffic leave room
  for it.
\<close>

lemma survives:
  assumes "inv s" "run_ok ok step ops s" "CHR '':'' \<notin> set m"
    "\<And>op. op \<in> set ops \<Longrightarrow> spares m e op"
    "box s m = xs @ e # ys"
    "length (e # ys) + length (traffic m ops) \<le> MAX_QUEUE_PER_RECIPIENT"
    "queue_bytes (e # ys) + sum_list (map (length \<circ> ciphertext) (traffic m ops))
       \<le> PER_MAILBOX_QUEUE_BYTES"
  shows "e \<in> set (box (run step ops s) m)"
  using assms(1,2,4-)
proof (induction ops arbitrary: s xs ys)
  case (Cons op ops)
  let ?s = "step op s"
  have bs: "box_step m op (box s m) (box ?s m)" using Cons.prems(1,2) assms(3) by (simp add: step_box)
  have "inv ?s" "run_ok ok step ops ?s" using Cons.prems(1,2) by (auto intro: step_inv)
  note IH = Cons.IH [OF this Cons.prems(3)]
  have len: "length (traffic m ops) \<le> length (traffic m (op # ops))"
    "sum_list (map (length \<circ> ciphertext) (traffic m ops))
      \<le> sum_list (map (length \<circ> ciphertext) (traffic m (op # ops)))"
    by (cases op; simp)+
  from bs have "\<exists>xs' ys'. box ?s m = xs' @ e # ys'
      \<and> length (e # ys') + length (traffic m ops) \<le> MAX_QUEUE_PER_RECIPIENT
      \<and> queue_bytes (e # ys') + sum_list (map (length \<circ> ciphertext) (traffic m ops))
          \<le> PER_MAILBOX_QUEUE_BYTES"
  proof cases
    case same
    show ?thesis
      by (rule exI [of _ xs], rule exI [of _ ys])
        (use Cons.prems(4-6) len same in \<open>simp add: comp_def\<close>)
  next
    case (append new env io now)
    let ?n = "evict_count (box s m) (length (ciphertext env))"
    have "fits (drop (length xs) (box s m)) (length (ciphertext env))"
      using Cons.prems(4-6) append(1) by (simp add: fits_def)
    then have "?n \<le> length xs" using evict_count_least not_le_imp_less by blast
    then have "box ?s m = drop ?n xs @ e # ys @ [new]"
      using append Cons.prems(4) by simp
    then show ?thesis using Cons.prems(5,6) append(1,4)
      by - (rule exI [of _ "drop ?n xs"], rule exI [of _ "ys @ [new]"], simp add: comp_def)
  next
    case (remove P)
    have "P e" using remove(2) Cons.prems(3,4) by auto
    then have "box ?s m = filter P xs @ e # filter P ys" using remove(1) Cons.prems(4) by simp
    moreover have "length (filter P ys) \<le> length ys" "queue_bytes (filter P ys) \<le> queue_bytes ys"
      by (auto intro: queue_bytes_filter_le)
    ultimately show ?thesis using Cons.prems(5,6) len
      by - (rule exI [of _ "filter P xs"], rule exI [of _ "filter P ys"],
        simp add: comp_def del: length_filter_le)
  qed
  then obtain xs' ys' where nx: "box ?s m = xs' @ e # ys'"
    "length (e # ys') + length (traffic m ops) \<le> MAX_QUEUE_PER_RECIPIENT"
    "queue_bytes (e # ys') + sum_list (map (length \<circ> ciphertext) (traffic m ops))
      \<le> PER_MAILBOX_QUEUE_BYTES" by blast
  have "e \<in> set (box (run step ops ?s) m)"
    by (rule IH [OF _ nx]) simp
  then show ?case by simp
qed simp

text \<open>
  Messages keep their order, and what a run adds comes after what was there: the list after a
  run is a subsequence of the old one followed by new messages.
\<close>

lemma order_kept:
  assumes "inv s" "run_ok ok step ops s" "CHR '':'' \<notin> set m"
  obtains old new where "box (run step ops s) m = old @ new" "subseq old (box s m)"
    "subseq (map fst new) (map env_id (traffic m ops))"
proof -
  have "\<exists>old new. box (run step ops s) m = old @ new \<and> subseq old es
      \<and> subseq (map fst new) (map fst ns @ map env_id (traffic m ops))"
    if "box s m = es @ ns" for es ns
    using assms(1,2) that
  proof (induction ops arbitrary: s es ns)
    case Nil
    then show ?case by auto
  next
    case (Cons op ops)
    let ?s = "step op s"
    have bs: "box_step m op (box s m) (box ?s m)"
      using Cons.prems(1,2) assms(3) by (simp add: step_box)
    have ih: "inv ?s" "run_ok ok step ops ?s" using Cons.prems(1,2) by (auto intro: step_inv)
    note trans = subseq_order.order_trans
    from bs show ?case
    proof cases
      case same
      then have "box ?s m = es @ ns" using Cons.prems(3) by simp
      from Cons.IH [OF ih this] obtain old new where on: "box (run step ops ?s) m = old @ new"
        "subseq old es" "subseq (map fst new) (map fst ns @ map env_id (traffic m ops))" by blast
      moreover have "subseq (map env_id (traffic m ops)) (map env_id (traffic m (op # ops)))"
        by (cases op) auto
      ultimately show ?thesis using on
        by -
        (rule exI [of _ old], rule exI [of _ new], auto intro: trans [OF on(3)] list_emb_append_mono)
    next
      case (append e env io now)
      let ?n = "evict_count (box s m) (length (ciphertext env))"
      have "box ?s m = drop ?n es @ (drop (?n - length es) ns @ [e])"
        using append Cons.prems(3) by simp
      from Cons.IH [OF ih this] obtain old new where on: "box (run step ops ?s) m = old @ new"
        "subseq old (drop ?n es)"
        "subseq (map fst new) (map fst (drop (?n - length es) ns @ [e]) @ map env_id (traffic m ops))"
        by blast
      have "subseq (drop k l) l" for k and l :: "'c list" by (simp add: suffix_drop suffix_imp_subseq)
      moreover have "subseq (map fst (drop k ns @ [e]) @ map env_id (traffic m ops))
          (map fst ns @ map env_id (traffic m (op # ops)))" for k
        using append(1,3) by (simp add: list_emb_append_mono subseq_map suffix_drop suffix_imp_subseq)
      ultimately show ?thesis using on
        by -
        (rule exI [of _ old], rule exI [of _ new], auto intro: trans)
    next
      case (remove P)
      then have "box ?s m = filter P es @ filter P ns" using Cons.prems(3) by simp
      from Cons.IH [OF ih this] obtain old new where on: "box (run step ops ?s) m = old @ new"
        "subseq old (filter P es)"
        "subseq (map fst new) (map fst (filter P ns) @ map env_id (traffic m ops))"
        by blast
      moreover have "subseq (map env_id (traffic m ops)) (map env_id (traffic m (op # ops)))"
        by (cases op) auto
      ultimately show ?thesis
        by -
        (rule exI [of _ old], rule exI [of _ new], 
         auto intro: trans [OF on(2)] trans [OF on(3)] list_emb_append_mono subseq_map
           subseq_filter_left)
    qed
  qed
  from this [of "box s m" "[]"] that show thesis by auto
qed

end


section \<open>The store provides it\<close>

context queue_backend
begin

lemma failed_removal:
  "ack E io m ids q = (q', None) \<Longrightarrow> q' = q"
  "purge_mailbox E io m q = (q', None) \<Longrightarrow> q' = q"
  "sweep_expired E io now q = (q', None) \<Longrightarrow> q' = q"
  by (auto simp: ack_def purge_mailbox_def sweep_expired_def Let_def split: if_splits prod.splits)

lemma apply_op_inv: "queue_inv E q \<Longrightarrow> op_ok E op q \<Longrightarrow> queue_inv E (apply_op E op q)"
proof (cases op)
  case (QEnqueue io now m env)
  assume inv: "queue_inv E q" and ok: "op_ok E op q"
  obtain q' r where eq: "enqueue E io now m env q = (q', r)" by force
  have "queue_inv E q'"
  proof (cases r)
    case None
    with eq inv ok QEnqueue show ?thesis by (auto simp: enqueue_pre_def intro: enqueue_fail_inv(1))
  next
    case (Some n)
    with eq inv ok QEnqueue show ?thesis by (auto intro: enqueue_inv)
  qed
  with eq QEnqueue show ?thesis by simp
next
  case (QAck io m ids)
  assume inv: "queue_inv E q" and ok: "op_ok E op q"
  obtain q' r where "ack E io m ids q = (q', r)" by force
  with inv ok QAck show ?thesis
    by (cases r) (auto dest: failed_removal intro: ack_effect(1))
next
  case (QPurge io m)
  assume inv: "queue_inv E q" and ok: "op_ok E op q"
  obtain q' r where "purge_mailbox E io m q = (q', r)" by force
  with inv ok QPurge show ?thesis
    by (cases r) (auto dest: failed_removal intro: purge_effect(1))
next
  case (QSweep io now)
  assume inv: "queue_inv E q" and ok: "op_ok E op q"
  obtain q' r where "sweep_expired E io now q = (q', r)" by force
  with inv QSweep show ?thesis
    by (cases r) (auto dest: failed_removal intro: sweep_effect(1))
next
  case (QReopen io)
  assume inv: "queue_inv E q" and ok: "op_ok E op q"
  with QReopen show ?thesis by (auto split: option.splits dest: reopen_effect(1))
qed

lemma apply_op_box:
  assumes inv: "queue_inv E q" and ok: "op_ok E op q" and m: "CHR '':'' \<notin> set m"
  shows "box_step m op (mail E q m) (mail E (apply_op E op q) m)"
proof (cases op)
  case (QEnqueue io now m' env)
  obtain q' r where eq: "enqueue E io now m' env q = (q', r)" by force
  have pre: "enqueue_pre E m' env q" using ok QEnqueue by simp
  show ?thesis
  proof (cases r)
    case None
    with eq inv pre have "mail E q' = mail E q"
      by (intro enqueue_fail_inv(2)) (auto simp: enqueue_pre_def)
    with eq QEnqueue show ?thesis by (simp add: box_step.same)
  next
    case (Some n)
    note eq = eq [unfolded Some]
    show ?thesis
    proof (cases "m = m'")
      case True
      have "mail E q' m = drop (evict_count (mail E q m) (length (ciphertext env))) (mail E q m)
          @ [(env_id env, queued_value now env q)]"
        using enqueue_effect(3) [OF inv pre eq] enqueue_result(1) [OF inv pre eq] True by simp
      with eq QEnqueue True show ?thesis by (simp add: box_step.append queued_value_def)
    next
      case False
      with enqueue_effect(4) [OF inv pre eq m] eq QEnqueue show ?thesis by (simp add: box_step.same)
    qed
  qed
next
  case (QAck io m' ids)
  obtain q' r where eq: "ack E io m' ids q = (q', r)" by force
  show ?thesis
  proof (cases r)
    case None
    with eq QAck failed_removal(1) show ?thesis by (force intro: box_step.same)
  next
    case (Some n)
    with eq QAck ok have "mail E q' m = (if m = m' then filter (\<lambda>e. fst e \<notin> set ids) (mail E q m)
        else mail E q m)"
      using ack_effect(2,3) [OF inv _ eq [unfolded Some]] m by auto
    then show ?thesis using eq QAck by (auto intro!: box_step.same box_step.remove)
  qed
next
  case (QPurge io m')
  obtain q' r where eq: "purge_mailbox E io m' q = (q', r)" by force
  show ?thesis
  proof (cases r)
    case None
    with eq QPurge failed_removal(2) show ?thesis by (force intro: box_step.same)
  next
    case (Some n)
    with eq QPurge ok have "mail E q' m = filter (\<lambda>e. m \<noteq> m') (mail E q m)"
      using purge_effect(2,4) [OF inv _ eq [unfolded Some]] m by (cases "m = m'") auto
    then show ?thesis using eq QPurge by (auto intro: box_step.same box_step.remove)
  qed
next
  case (QSweep io now)
  obtain q' r where eq: "sweep_expired E io now q = (q', r)" by force
  show ?thesis
  proof (cases r)
    case None
    with eq QSweep failed_removal(3) show ?thesis by (force intro: box_step.same)
  next
    case (Some n)
    with eq QSweep sweep_effect(2) [OF inv eq [unfolded Some] m] show ?thesis
      by (auto intro!: box_step.remove)
  qed
next
  case (QReopen io)
  then show ?thesis
    using reopen_effect(2) [OF inv] by (auto intro: box_step.same split: option.splits)
qed

end

interpretation qf: bounded_fifo "\<lambda>q. queue_backend E \<and> queue_inv E q" "mail E" "op_ok E" "apply_op E"
  for E :: "('t, 'b) queue_env"
  by unfold_locales (auto intro: queue_backend.apply_op_inv queue_backend.apply_op_box)



section \<open>Results of single operations\<close>

text \<open>With redb's calls succeeding every operation returns a result; a failed one changes no list.\<close>

lemma operations_return:
  "read_ok io \<Longrightarrow> write_ok io \<Longrightarrow> snd (enqueue E io now m env q) \<noteq> None"
  "write_ok io \<Longrightarrow> snd (ack E io m ids q) \<noteq> None"
  "write_ok io \<Longrightarrow> snd (purge_mailbox E io m q) \<noteq> None"
  "write_ok io \<Longrightarrow> snd (sweep_expired E io now q) \<noteq> None"
  by (auto simp: enqueue_def ack_def purge_mailbox_def sweep_expired_def Let_def split: prod.splits)

lemma write_fails:
  "\<not> write_ok io \<Longrightarrow> snd (enqueue E io now m env q) = None"
  "\<not> write_ok io \<Longrightarrow> ids \<noteq> [] \<Longrightarrow> snd (ack E io m ids q) = None"
  "\<not> write_ok io \<Longrightarrow> snd (purge_mailbox E io m q) = None"
  "\<not> write_ok io \<Longrightarrow> snd (sweep_expired E io now q) = None"
  by (auto simp: enqueue_def ack_def purge_mailbox_def sweep_expired_def Let_def split: prod.splits)

lemma snd_SomeE:
  assumes "snd p \<noteq> None"
  obtains x y where "p = (x, Some y)"
  using assms by (cases p) auto

definition delivered :: "string \<Rightarrow> (uuid \<times> stored_value) list \<Rightarrow> stored_envelope list" where
  "delivered m es = map (\<lambda>(i, v). \<lparr>env_id = i, env_to = m, envelope_type = sv_t v,
     ciphertext = sv_c v\<rparr>) es"

lemma flush_delivered: "read_ok io \<Longrightarrow> flush E io m q = Some (delivered m (mail E q m))"
  by (simp add: flush_def delivered_def)

lemma delivered_simps [simp]:
  "delivered m [] = []" "delivered m (es @ es') = delivered m es @ delivered m es'"
  "map env_id (delivered m es) = map fst es"
  "length (delivered m es) = length es"
  by (auto simp: delivered_def)

lemma delivered_value: "delivered m [(env_id env, queued_value now env q)] = [env\<lparr>env_to := m\<rparr>]"
  by (simp add: delivered_def queued_value_def)

context queue_backend
begin

lemma apply_op_total:
  assumes "queue_inv E q" "op_ok E op q" "total_bytes q \<le> GLOBAL_QUEUE_DISK_CAP_BYTES"
  shows "total_bytes (apply_op E op q) \<le> GLOBAL_QUEUE_DISK_CAP_BYTES"
proof (cases op)
  case (QEnqueue io now m env)
  obtain q' r where eq: "enqueue E io now m env q = (q', r)" by force
  have pre: "enqueue_pre E m env q" using assms(2) QEnqueue by simp
  show ?thesis
  proof (cases r)
    case None
    with eq QEnqueue enqueue_fail assms(3) show ?thesis by fastforce
  next
    case (Some n)
    have "total_bytes q + length (ciphertext env) \<le> GLOBAL_QUEUE_DISK_CAP_BYTES"
      using pre by (auto simp: enqueue_pre_def intro: not_exceed_bound)
    with enqueue_result(3) [OF assms(1) pre eq [unfolded Some]] eq QEnqueue show ?thesis by simp
  qed
next
  case (QReopen io)
  then show ?thesis
    using reopen_effect(3) [OF assms(1)] assms(3) by (auto split: option.splits)
qed (use assms(3) in \<open>auto simp: ack_def purge_mailbox_def sweep_expired_def Let_def
      atomic_sub_saturating_def usize_sat_sub_def split: prod.splits\<close>)

lemma run_total:
  "queue_inv E q \<Longrightarrow> run_ok (op_ok E) (apply_op E) ops q \<Longrightarrow>
   total_bytes q \<le> GLOBAL_QUEUE_DISK_CAP_BYTES \<Longrightarrow>
   total_bytes (run (apply_op E) ops q) \<le> GLOBAL_QUEUE_DISK_CAP_BYTES"
  by (induction ops arbitrary: q) (auto intro: apply_op_inv apply_op_total)

end


text \<open>An accepted envelope is still in its mailbox after a run that spares it and leaves room.\<close>

lemma enqueued_survives:
  assumes "queue_backend E" "queue_inv E q" "enqueue_pre E m env q"
    "enqueue E io now m env q = (q', Some n)"
    "run_ok (op_ok E) (apply_op E) ops q'"
    "\<And>op. op \<in> set ops \<Longrightarrow> spares m (env_id env, queued_value now env q) op"
    "length (traffic m ops) < MAX_QUEUE_PER_RECIPIENT"
    "length (ciphertext env) + sum_list (map (length \<circ> ciphertext) (traffic m ops))
       \<le> PER_MAILBOX_QUEUE_BYTES"
  shows "(env_id env, queued_value now env q) \<in> set (mail E (run (apply_op E) ops q') m)"
proof -
  have m: "CHR '':'' \<notin> set m" using assms(3) by (simp add: enqueue_pre_def)
  have inv: "queue_backend E \<and> queue_inv E q'"
    using queue_backend.enqueue_inv [OF assms(1-4)] assms(1) by simp
  show ?thesis
    using qf.survives [OF inv assms(5) m assms(6)
        queue_backend.enqueue_effect(3) [OF assms(1-4)]] assms(7,8)
    by (simp add: queued_value_def)
qed

end
