(* ===== verification/QueueTheorems.thy ===== *)
theory QueueTheorems
  imports QueueProps
begin

text \<open>
  The properties of the queue store, each a consequence of the lemmas of the component, and an
  instance of each on the reference backend: a store with one envelope in the mailbox \<open>mb\<close>.
\<close>


section \<open>A reference store\<close>

definition ref_queue :: "((string \<times> stored_value option) list, stored_value option) queue_env" where
  "ref_queue = \<lparr>q_table = ref_table, q_codec = ref_codec, q_uuid = ref_uuid\<rparr>"

lemma ref_queue_simps [simp]:
  "q_table ref_queue = ref_table" "q_codec ref_queue = ref_codec" "q_uuid ref_queue = ref_uuid"
  by (simp_all add: ref_queue_def)

lemma ref_backend [simp]: "queue_backend ref_queue"
  by (simp add: queue_backend_def ref.redb_table_axioms ref_codec.serde_codec_axioms
      ref_uuid.uuid_text_axioms)

definition store0 :: "(string \<times> stored_value option) list queue_store" where
  "store0 = \<lparr>envelopes = [], total_bytes = 0, next_seq = 1, index = []\<rparr>"

definition sample_env :: stored_envelope where
  "sample_env = \<lparr>env_id = 7, env_to = ''mb'', envelope_type = ''chat'', ciphertext = ''hello''\<rparr>"

definition store1 :: "(string \<times> stored_value option) list queue_store" where
  "store1 = fst (enqueue ref_queue io_fine 5 ''mb'' sample_env store0)"

definition sample_entry :: "uuid \<times> stored_value" where
  "sample_entry = (7, \<lparr>sv_t = ''chat'', sv_c = ''hello'', sv_q = 5, sv_s = 1\<rparr>)"

lemma queue_new_ref: "queue_new ref_queue io_fine [] = Some store0"
  by (simp add: queue_new_def scan_totals_def store0_def sat_add_def)

lemma store0: "queue_inv ref_queue store0" "mail ref_queue store0 m = []"
  "total_bytes store0 = 0"
  using queue_backend.open_empty [OF ref_backend, of io_fine store0] by (simp_all add: queue_new_ref)

lemma sample_pre: "enqueue_pre ref_queue ''mb'' sample_env store0"
  by (simp add: enqueue_pre_def sample_env_def store0_def would_exceed_global_def config_defs
      usize_sat_add_def usize_max_def)

lemma sample_enqueued: "enqueue ref_queue io_fine 5 ''mb'' sample_env store0 = (store1, Some 0)"
  by (simp add: store1_def enqueue_def Let_def store0_def sample_env_def index_of_def usize_add_def
      usize_modulus_def config_defs)

lemma sample_queued: "(env_id sample_env, queued_value 5 sample_env store0) = sample_entry"
  by (simp add: queued_value_def sample_env_def sample_entry_def store0_def)

lemma store1: "queue_inv ref_queue store1" "mail ref_queue store1 ''mb'' = [sample_entry]"
  using queue_backend.enqueue_inv [OF ref_backend store0(1) sample_pre sample_enqueued]
    queue_backend.enqueue_effect(3) [OF ref_backend store0(1) sample_pre sample_enqueued]
  by (simp_all add: store0(2) sample_queued)

lemma store1_other: "CHR '':'' \<notin> set m \<Longrightarrow> m \<noteq> ''mb'' \<Longrightarrow> mail ref_queue store1 m = []"
  using queue_backend.enqueue_effect(4) [OF ref_backend store0(1) sample_pre sample_enqueued, of m]
  by (simp add: store0(2))

lemma store1_counters: "total_bytes store1 = 5" "next_seq store1 = 2"
  by (simp_all add: store1_def enqueue_def Let_def store0_def sample_env_def index_of_def usize_add_def
      usize_modulus_def config_defs atomic_sub_saturating_def usize_sat_sub_def)


section \<open>QEnqueue and flush\<close>

text \<open>
  C23: when redb's calls succeed, an enqueue of an envelope that fits returns, appends the
  envelope behind the mailbox's list, and evicts from its front the shortest prefix that brings
  the mailbox under both caps again; no other mailbox changes, and the counters stay exact.
\<close>

theorem enqueue_appends:
  assumes "queue_backend E" "queue_inv E q" "enqueue_pre E m env q" "read_ok io" "write_ok io"
  shows "\<exists>q' n. enqueue E io now m env q = (q', Some n) \<and> queue_inv E q'
    \<and> mail E q' m = drop n (mail E q m) @ [(env_id env, queued_value now env q)]
    \<and> fits (drop n (mail E q m)) (length (ciphertext env))
    \<and> (\<forall>j<n. \<not> fits (drop j (mail E q m)) (length (ciphertext env)))
    \<and> (\<forall>m'. CHR '':'' \<notin> set m' \<and> m' \<noteq> m \<longrightarrow> mail E q' m' = mail E q m')"
proof -
  obtain q' n where eq: "enqueue E io now m env q = (q', Some n)"
    using operations_return(1) [OF assms(4,5)] by (rule snd_SomeE)
  note E = queue_backend.enqueue_effect [OF assms(1-3) eq]
    queue_backend.enqueue_inv [OF assms(1-3) eq] queue_backend.enqueue_result(1) [OF assms(1-3) eq]
  have "length (ciphertext env) \<le> PER_MAILBOX_QUEUE_BYTES"
    using assms(3) by (simp add: enqueue_pre_def)
  then show ?thesis using eq E evict_count_fits evict_count_least by auto
qed

theorem enqueue_appends_witness:
  "\<exists>q' n. enqueue ref_queue io_fine 5 ''mb'' sample_env store0 = (q', Some n)
     \<and> mail ref_queue q' ''mb'' = [sample_entry]"
  using enqueue_appends [OF ref_backend store0(1) sample_pre, of io_fine 5]
  by (auto simp: store0(2) sample_queued)

text \<open>
  a flush returns the envelopes stored for the mailbox, all of them and no others, each
  once and with its id, type and ciphertext, at most 500, and the mailbox counts as empty
  exactly if there are none.
\<close>

theorem flush_exact:
  assumes "queue_backend E" "queue_inv E q" "CHR '':'' \<notin> set m" "read_ok io"
  shows "\<exists>msgs. flush E io m q = Some msgs \<and> distinct (map env_id msgs)
    \<and> length msgs \<le> MAX_QUEUE_PER_RECIPIENT \<and> is_empty E io m q = Some (msgs = [])
    \<and> (\<forall>x. x \<in> set msgs \<longleftrightarrow> env_to x = m \<and> (\<exists>v. entry_at E (envelopes q) m (env_id x) v
          \<and> envelope_type x = sv_t v \<and> ciphertext x = sv_c v))"
proof -
  note I = queue_backend.queue_invD [OF assms(1-3)]
  have set: "x \<in> set (delivered m (mail E q m)) \<longleftrightarrow> env_to x = m
      \<and> (\<exists>v. (env_id x, v) \<in> set (mail E q m) \<and> envelope_type x = sv_t v \<and> ciphertext x = sv_c v)"
    for x by (cases x) (force simp: delivered_def image_iff)
  show ?thesis
    unfolding flush_delivered [OF assms(4)]
      queue_backend.is_empty_iff [OF assms]
    using I(4) queue_backend.distinct_mail(1) [OF assms(1) I(1) assms(3)] set
    by (intro exI [of _ "delivered m (mail E q m)"])
      (simp add: queue_backend.set_read_mailbox [OF assms(1) I(1) assms(3)]
        flip: length_0_conv)
qed

theorem flush_exact_witness:
  "\<exists>msgs. flush ref_queue io_fine ''mb'' store1 = Some msgs \<and> distinct (map env_id msgs)
     \<and> is_empty ref_queue io_fine ''mb'' store1 = Some (msgs = [])"
  using flush_exact [OF ref_backend store1(1), of "''mb''" io_fine] by auto


section \<open>Removal\<close>

text \<open>
  C18: an ack removes from the mailbox the entries with the given ids and no others, reports
  their number, keeps the order of the rest, and touches no other mailbox; with ids that are
  not there it changes nothing.
\<close>

theorem ack_exact:
  assumes "queue_backend E" "queue_inv E q" "CHR '':'' \<notin> set m" "write_ok io"
  shows "\<exists>q'. ack E io m ids q = (q', Some (length (filter (\<lambda>e. fst e \<in> set ids) (mail E q m))))
    \<and> queue_inv E q' \<and> mail E q' m = filter (\<lambda>e. fst e \<notin> set ids) (mail E q m)
    \<and> (\<forall>m'. CHR '':'' \<notin> set m' \<and> m' \<noteq> m \<longrightarrow> mail E q' m' = mail E q m')"
proof -
  obtain q' n where eq: "ack E io m ids q = (q', Some n)"
    using operations_return(2) [OF assms(4)] by (rule snd_SomeE)
  show ?thesis using eq queue_backend.ack_effect [OF assms(1-3) eq] by auto
qed

theorem ack_exact_witness:
  "\<exists>q'. ack ref_queue io_fine ''mb'' [7, 9, 7] store1 = (q', Some 1) \<and> mail ref_queue q' ''mb'' = []"
  using ack_exact [OF ref_backend store1(1), of "''mb''" io_fine "[7, 9, 7]"]
  by (auto simp: store1(2) sample_entry_def)

text \<open>
  A purge empties the mailbox, reports how many envelopes it held, and touches no other
  mailbox, also none whose name starts with the purged one.
\<close>

theorem purge_empties:
  assumes "queue_backend E" "queue_inv E q" "CHR '':'' \<notin> set m" "write_ok io"
  shows "\<exists>q'. purge_mailbox E io m q = (q', Some (length (mail E q m)))
    \<and> queue_inv E q' \<and> mail E q' m = []
    \<and> (\<forall>m'. CHR '':'' \<notin> set m' \<and> m' \<noteq> m \<longrightarrow> mail E q' m' = mail E q m')"
proof -
  obtain q' n where eq: "purge_mailbox E io m q = (q', Some n)"
    using operations_return(3) [OF assms(4)] by (rule snd_SomeE)
  show ?thesis using eq queue_backend.purge_effect [OF assms(1-3) eq] by auto
qed

theorem purge_empties_witness:
  "\<exists>q'. purge_mailbox ref_queue io_fine ''m'' store1 = (q', Some 0)
     \<and> mail ref_queue q' ''mb'' = [sample_entry]"
  using purge_empties [OF ref_backend store1(1), of "''m''" io_fine]
  by (auto simp: store1 store1_other)

text \<open>
  The sweep removes from every mailbox the envelopes queued more than the TTL ago and no
  others, in order, and keeps the counters exact.
\<close>

theorem sweep_by_age:
  assumes "queue_backend E" "queue_inv E q" "write_ok io"
  shows "\<exists>q' n. sweep_expired E io now q = (q', Some n) \<and> queue_inv E q'
    \<and> (\<forall>m. CHR '':'' \<notin> set m \<longrightarrow>
        mail E q' m = filter (\<lambda>e. unat now - unat QUEUE_TTL_MS \<le> unat (sv_q (snd e))) (mail E q m))"
proof -
  obtain q' n where eq: "sweep_expired E io now q = (q', Some n)"
    using operations_return(4) [OF assms(3)] by (rule snd_SomeE)
  have "(\<not> x < sat_sub now QUEUE_TTL_MS) = (unat now - unat QUEUE_TTL_MS \<le> unat x)" for x
    by (simp add: word_less_nat_alt unat_sat_sub not_less)
  then show ?thesis using eq queue_backend.sweep_effect(1,2) [OF assms(1,2) eq] by simp
qed

theorem sweep_by_age_witness:
  "(\<exists>q' n. sweep_expired ref_queue io_fine 1209600005 store1 = (q', Some n)
     \<and> mail ref_queue q' ''mb'' = [sample_entry])
   \<and> (\<exists>q' n. sweep_expired ref_queue io_fine 1209600006 store1 = (q', Some n)
     \<and> mail ref_queue q' ''mb'' = [])"
  using sweep_by_age [OF ref_backend store1(1), of io_fine 1209600005]
    sweep_by_age [OF ref_backend store1(1), of io_fine 1209600006]
  by (auto simp: store1(2) sample_entry_def config_defs dest!: spec [of _ "''mb''"])

text \<open>
  An operation whose redb write fails reports the error and loses nothing: every mailbox
  keeps its list, and the counters still agree with it.
\<close>

theorem failed_write_loses_nothing:
  assumes "queue_backend E" "queue_inv E q" "\<not> write_ok io" "next_seq q \<noteq> - 1" "ids \<noteq> []"
  shows "(\<exists>q'. enqueue E io now m env q = (q', None) \<and> queue_inv E q' \<and> mail E q' = mail E q)
    \<and> ack E io m ids q = (q, None) \<and> purge_mailbox E io m q = (q, None)
    \<and> sweep_expired E io now q = (q, None)"
proof -
  obtain q' where "enqueue E io now m env q = (q', None)"
    using write_fails(1) [OF assms(3)] by (metis prod.collapse)
  then have "\<exists>q'. enqueue E io now m env q = (q', None) \<and> queue_inv E q' \<and> mail E q' = mail E q"
    using queue_backend.enqueue_fail_inv [OF assms(1,2,4)] by blast
  then show ?thesis
    using assms(3,5) by (simp add: ack_def purge_mailbox_def sweep_expired_def Let_def)
qed

theorem failed_write_loses_nothing_witness:
  "ack ref_queue \<lparr>read_ok = True, write_ok = False\<rparr> ''mb'' [7] store1 = (store1, None)"
  using failed_write_loses_nothing [OF ref_backend store1(1),
      of "\<lparr>read_ok = True, write_ok = False\<rparr>" "[7]"] store1_counters
  by simp


section \<open>Restart\<close>

text \<open>
  Opening the table a run left rebuilds the store: the same lists in the same order, the
  same byte total and per-mailbox index, and a next sequence number above every stored one.
\<close>

theorem restart_restores:
  assumes "queue_backend E" "queue_inv E q" "read_ok io" "write_ok io"
  shows "\<exists>q'. queue_new E io (envelopes q) = Some q' \<and> queue_inv E q' \<and> mail E q' = mail E q
    \<and> total_bytes q' = total_bytes q
    \<and> (\<forall>m. CHR '':'' \<notin> set m \<longrightarrow> index_of (index q') m = index_of (index q) m
         \<and> (\<forall>e \<in> set (mail E q m). sv_s (snd e) < next_seq q'))"
proof -
  obtain q' where eq: "queue_new E io (envelopes q) = Some q'"
    using assms(3,4) by (cases "scan_totals E (envelopes q)") (auto simp: queue_new_def)
  note R = queue_backend.reopen_effect [OF assms(1,2) eq]
  have "sv_s (snd e) < next_seq q'" if "CHR '':'' \<notin> set m" "e \<in> set (mail E q m)" for m e
    using queue_backend.queue_invD(1,2) [OF assms(1) R(1) that(1)] that R(2)
      queue_backend.set_read_mailbox [OF assms(1) _ that(1), of "envelopes q" "fst e" "snd e"]
    unfolding seqs_ok_def by auto
  then show ?thesis using eq R by auto
qed

theorem restart_restores_witness:
  "\<exists>q'. queue_new ref_queue io_fine (envelopes store1) = Some q'
     \<and> mail ref_queue q' ''mb'' = [sample_entry] \<and> total_bytes q' = 5"
  using restart_restores [OF ref_backend store1(1), of io_fine] by (auto simp: store1 store1_counters)


section \<open>Runs\<close>

text \<open>
  C22: at-least-once delivery. An envelope that was accepted is in every later flush of its
  mailbox, whatever the store does meanwhile (other mailboxes' traffic, acks of other
  envelopes, sweeps within its TTL, failed writes, restarts), as long as nobody acks it, the
  mailbox is not purged and the later traffic to the mailbox leaves room for it under the caps.
\<close>

theorem accepted_is_delivered:
  assumes "queue_backend E" "queue_inv E q" "enqueue_pre E m env q"
    "enqueue E io now m env q = (q', Some n)"
    "run_ok (op_ok E) (apply_op E) ops q'"
    "\<And>op. op \<in> set ops \<Longrightarrow> spares m (env_id env, queued_value now env q) op"
    "length (traffic m ops) < MAX_QUEUE_PER_RECIPIENT"
    "length (ciphertext env) + sum_list (map (length \<circ> ciphertext) (traffic m ops))
       \<le> PER_MAILBOX_QUEUE_BYTES"
    "read_ok io'"
  shows "\<exists>msgs. flush E io' m (run (apply_op E) ops q') = Some msgs \<and> env\<lparr>env_to := m\<rparr> \<in> set msgs"
  using enqueued_survives [OF assms(1-8)] flush_delivered [OF assms(9), of E m]
  by (force simp: delivered_def queued_value_def)

lemma sample_delivered_run:
  "run_ok (op_ok ref_queue) (apply_op ref_queue) [QReopen io_fine, QAck io_fine ''mb'' [9]] store1"
  by simp

theorem accepted_is_delivered_witness:
  "\<exists>msgs. flush ref_queue io_fine ''mb''
       (run (apply_op ref_queue) [QReopen io_fine, QAck io_fine ''mb'' [9]] store1) = Some msgs
     \<and> sample_env\<lparr>env_to := ''mb''\<rparr> \<in> set msgs"
proof (rule accepted_is_delivered [OF ref_backend store0(1) sample_pre sample_enqueued
      sample_delivered_run])
  fix op assume "op \<in> set [QReopen io_fine, QAck io_fine ''mb'' [9]]"
  then show "spares ''mb'' (env_id sample_env, queued_value 5 sample_env store0) op"
    by (auto simp: sample_queued sample_entry_def)
qed (simp_all add: config_defs sample_env_def)

text \<open>
  C30: first in, first out over whole runs. What is left of a mailbox's list keeps its order,
  and what a run adds stands behind it in the order of the enqueues.
\<close>

theorem order_of_delivery:
  assumes "queue_backend E" "queue_inv E q" "run_ok (op_ok E) (apply_op E) ops q"
    "CHR '':'' \<notin> set m"
  shows "\<exists>old new. mail E (run (apply_op E) ops q) m = old @ new \<and> subseq old (mail E q m)
    \<and> subseq (map fst new) (map env_id (traffic m ops))"
  using qf.order_kept [OF conjI [OF assms(1,2)] assms(3,4)] by blast

theorem order_of_delivery_witness:
  "\<exists>old new. mail ref_queue (run (apply_op ref_queue) [QPurge io_fine ''a'', QSweep io_fine 9] store1)
       ''mb'' = old @ new \<and> subseq old [sample_entry] \<and> subseq (map fst new) []"
  using order_of_delivery [OF ref_backend store1(1), of "[QPurge io_fine ''a'', QSweep io_fine 9]" "''mb''"]
  by (simp add: store1(2))

text \<open>
  C24: the caps. From an empty table, whatever sequence of operations follows, no mailbox holds
  more than 500 envelopes or 8 MiB, the store holds at most 4 GiB, and the byte total the
  admission check reads is exactly what the table holds.
\<close>

theorem caps_hold:
  assumes "queue_backend E" "queue_new E io (t_empty (q_table E)) = Some q"
    "run_ok (op_ok E) (apply_op E) ops q" "q' = run (apply_op E) ops q"
  shows "total_bytes q' = t_wsum (q_table E) (entry_len E) (envelopes q')
    \<and> total_bytes q' \<le> GLOBAL_QUEUE_DISK_CAP_BYTES
    \<and> (\<forall>m. CHR '':'' \<notin> set m \<longrightarrow> length (mail E q' m) \<le> MAX_QUEUE_PER_RECIPIENT
         \<and> queue_bytes (mail E q' m) \<le> PER_MAILBOX_QUEUE_BYTES)"
proof -
  note O = queue_backend.open_empty [OF assms(1,2)]
  have "queue_inv E q'"
    using qf.run_inv [OF conjI [OF assms(1) O(1)] assms(3)] assms(4) by simp
  moreover have "total_bytes q' \<le> GLOBAL_QUEUE_DISK_CAP_BYTES"
    using queue_backend.run_total [OF assms(1) O(1) assms(3)] O(3) assms(4) by simp
  ultimately show ?thesis by (simp add: queue_inv_def)
qed

lemma sample_run: "run_ok (op_ok ref_queue) (apply_op ref_queue) [QEnqueue io_fine 5 ''mb'' sample_env] store0"
  using sample_pre by simp

theorem caps_hold_witness:
  "total_bytes (run (apply_op ref_queue) [QEnqueue io_fine 5 ''mb'' sample_env] store0)
     \<le> GLOBAL_QUEUE_DISK_CAP_BYTES"
  using caps_hold [OF ref_backend _ sample_run refl, of io_fine] queue_new_ref by simp

end
