(* ===== verification/FileStore.thy ===== *)
theory FileStore
  imports Protocol Config
begin

text \<open>
  The chunked file transfers of \<open>src/file_store.rs\<close>.

  The state is the two redb tables (transfer metadata keyed by transfer id, chunks keyed
  \<open><transfer_id>:<index>\<close>), the metadata cache, and the two counters behind the global caps. An
  operation takes the third-party operations (\<open>file_env\<close>), which of its redb calls succeed and
  the clock readings, and returns the new state and an \<open>Inl\<close> rejection or an \<open>Inr\<close> result.
  A write transaction that is not committed leaves the tables as they were.
\<close>


section \<open>State\<close>

record file_meta =
  m_total_chunks :: u32
  m_total_bytes :: u64
  m_stored_bytes :: u64
  m_received_chunks :: u32
  m_created_at_ms :: u64

datatype file_reject = TooLarge | Full | BadRequest | NotFound

fun reject_code :: "file_reject \<Rightarrow> string" where
  "reject_code TooLarge = ''file_too_large''"
| "reject_code Full = ''relay_full''"
| "reject_code BadRequest = ''bad_request''"
| "reject_code NotFound = ''not_found''"

fun reject_message :: "file_reject \<Rightarrow> string" where
  "reject_message TooLarge = ''file exceeds this relay's size limit''"
| "reject_message Full = ''relay file storage is full''"
| "reject_message BadRequest = ''malformed file transfer request''"
| "reject_message NotFound = ''file transfer not found or expired''"

record stored_chunk =
  sc_received_chunks :: u32
  sc_total_chunks :: u32

record fetched_chunk =
  fc_data :: bytes
  fc_total_chunks :: u32
  fc_total_bytes :: u64

record ('m, 'b, 'c) file_env =
  f_meta :: "('m, 'b) table_ops"
  f_chunks :: "('c, bytes) table_ops"
  f_codec :: "(file_meta, 'b) codec"

record ('m, 'c) file_store =
  meta_table :: 'm
  chunk_table :: 'c
  config :: file_config
  meta_cache :: "(string, file_meta) dashmap"
  reserved_bytes :: u64
  transfer_count :: usize

text \<open>Which redb calls of one \<open>write_chunk\<close> succeed, in their order.\<close>

record chunk_io =
  begin_ok :: bool
  tables_ok :: bool
  meta_get_ok :: bool
  chunk_get_ok :: bool
  insert_ok :: bool
  commit_ok :: bool

definition chunk_key :: "string \<Rightarrow> u32 \<Rightarrow> string" where
  "chunk_key transfer_id chunk_index = transfer_id @ '':'' @ show_dec (unat chunk_index)"

definition chunk_bounds :: "string \<Rightarrow> string \<times> string" where
  "chunk_bounds transfer_id = (transfer_id @ '':'', transfer_id @ '';'')"


section \<open>Counters\<close>

text \<open>
  The compare-and-exchange loops, run without a competing thread: the first exchange succeeds.
\<close>

definition reserve_slot ::
    "('m, 'c) file_store \<Rightarrow> ('m, 'c) file_store \<times> (file_reject + unit)" where
  "reserve_slot s =
     (if transfer_count s \<ge> max_transfers (config s) then (s, Inl Full)
      else (s\<lparr>transfer_count := usize_add (transfer_count s) 1\<rparr>, Inr ()))"

definition try_reserve_bytes ::
    "u64 \<Rightarrow> ('m, 'c) file_store \<Rightarrow> ('m, 'c) file_store \<times> (file_reject + unit)" where
  "try_reserve_bytes amount s =
     (let next = sat_add (reserved_bytes s) amount
      in if next > max_total_file_bytes (config s) then (s, Inl Full)
         else (s\<lparr>reserved_bytes := next\<rparr>, Inr ()))"

definition release_slot :: "('m, 'c) file_store \<Rightarrow> ('m, 'c) file_store" where
  "release_slot s = s\<lparr>transfer_count := usize_sub (transfer_count s) 1\<rparr>"

definition release_bytes :: "u64 \<Rightarrow> ('m, 'c) file_store \<Rightarrow> ('m, 'c) file_store" where
  "release_bytes amount s = s\<lparr>reserved_bytes := sat_sub (reserved_bytes s) amount\<rparr>"


section \<open>Opening\<close>

text \<open>\<open>scan_meta\<close>, one table entry: the reserved bytes, the count and the cache.\<close>

fun scan_meta_entry ::
    "('m, 'b, 'c) file_env \<Rightarrow> string \<times> 'b \<Rightarrow> u64 \<times> usize \<times> (string, file_meta) dashmap
     \<Rightarrow> u64 \<times> usize \<times> (string, file_meta) dashmap" where
  "scan_meta_entry E (k, v) (reserved, count, cache) =
     (case dec (f_codec E) v of
        Some meta \<Rightarrow>
          (sat_add reserved (m_stored_bytes meta), usize_add count 1, dm_insert k meta cache)
      | None \<Rightarrow> (reserved, count, cache))"

definition file_new ::
    "('m, 'b, 'c) file_env \<Rightarrow> io \<Rightarrow> 'm \<Rightarrow> 'c \<Rightarrow> file_config \<Rightarrow> ('m, 'c) file_store option" where
  "file_new E io mt ct cfg =
     (if write_ok io \<and> read_ok io then
        (let (reserved, count, cache) = fold (scan_meta_entry E) (t_iter (f_meta E) mt) (0, 0, [])
         in Some \<lparr>meta_table = mt, chunk_table = ct, config = cfg, meta_cache = cache,
                  reserved_bytes = reserved, transfer_count = count\<rparr>)
      else None)"


section \<open>Storing a chunk\<close>

text \<open>
  The closure of \<open>write_chunk\<close>: the state with the bytes it reserved, the reserved and the
  to-be-released amounts, and the tables and metadata to commit.
\<close>

definition write_txn ::
    "('m, 'b, 'c) file_env \<Rightarrow> chunk_io \<Rightarrow> u64 \<Rightarrow> string \<Rightarrow> u32 \<Rightarrow> u32 \<Rightarrow> u64 \<Rightarrow> bytes \<Rightarrow> u64 \<Rightarrow> bool
     \<Rightarrow> ('m, 'c) file_store
     \<Rightarrow> ('m, 'c) file_store \<times> u64 \<times> u64 \<times> (file_reject + 'm \<times> 'c \<times> file_meta)" where
  "write_txn E io now transfer_id chunk_index total_chunks total_bytes data data_len creating s =
     (if \<not> tables_ok io then (s, 0, 0, Inl Full)
      else
        (case (if creating then
                 Inr \<lparr>m_total_chunks = total_chunks, m_total_bytes = total_bytes,
                      m_stored_bytes = 0, m_received_chunks = 0, m_created_at_ms = now\<rparr>
               else if \<not> meta_get_ok io then Inl Full
               else (case t_get (f_meta E) (meta_table s) transfer_id of
                       Some v \<Rightarrow> (case dec (f_codec E) v of Some m \<Rightarrow> Inr m | None \<Rightarrow> Inl NotFound)
                     | None \<Rightarrow> Inl NotFound)) of
           Inl e \<Rightarrow> (s, 0, 0, Inl e)
         | Inr meta \<Rightarrow>
             if \<not> chunk_get_ok io then (s, 0, 0, Inl Full)
             else
               (let key = chunk_key transfer_id chunk_index;
                    prev_len = (case t_get (f_chunks E) (chunk_table s) key of
                                  Some v \<Rightarrow> of_nat (length v) | None \<Rightarrow> 0);
                    new_stored = m_stored_bytes meta - prev_len + data_len
                in if new_stored > m_total_bytes meta \<or> new_stored > max_file_bytes (config s)
                   then (s, 0, 0, Inl BadRequest)
                   else
                     (let (s, reserved_add, release_after_commit, r) =
                        (if data_len > prev_len
                         then (case try_reserve_bytes (data_len - prev_len) s of
                                 (s, Inl e) \<Rightarrow> (s, 0, 0, Inl e)
                               | (s, Inr _) \<Rightarrow> (s, data_len - prev_len, 0, Inr ()))
                         else (s, 0, prev_len - data_len, Inr ()))
                      in case r of
                           Inl e \<Rightarrow> (s, reserved_add, release_after_commit, Inl e)
                         | Inr _ \<Rightarrow>
                             (let meta = meta\<lparr>m_stored_bytes := new_stored,
                                    m_received_chunks := (if prev_len = 0
                                      then m_received_chunks meta + 1
                                      else m_received_chunks meta)\<rparr>
                              in if \<not> insert_ok io
                                 then (s, reserved_add, release_after_commit, Inl Full)
                                 else (s, reserved_add, release_after_commit,
                                   Inr (t_insert (f_meta E) transfer_id (enc (f_codec E) meta)
                                          (meta_table s),
                                        t_insert (f_chunks E) key data (chunk_table s),
                                        meta)))))))"

definition write_chunk ::
    "('m, 'b, 'c) file_env \<Rightarrow> chunk_io \<Rightarrow> u64 \<Rightarrow> string \<Rightarrow> u32 \<Rightarrow> u32 \<Rightarrow> u64 \<Rightarrow> bytes \<Rightarrow> u64 \<Rightarrow> bool
     \<Rightarrow> ('m, 'c) file_store \<Rightarrow> ('m, 'c) file_store \<times> (file_reject + stored_chunk)" where
  "write_chunk E io now transfer_id chunk_index total_chunks total_bytes data data_len creating s =
     (if \<not> begin_ok io then (s, Inl Full)
      else
        (case write_txn E io now transfer_id chunk_index total_chunks total_bytes data data_len
                creating s of
           (s, reserved_add, _, Inl e) \<Rightarrow>
             (if reserved_add > 0 then release_bytes reserved_add s else s, Inl e)
         | (s, reserved_add, release_after_commit, Inr (mt, ct, meta)) \<Rightarrow>
             if \<not> commit_ok io
             then (if reserved_add > 0 then release_bytes reserved_add s else s, Inl Full)
             else
               (let s = s\<lparr>meta_table := mt, chunk_table := ct\<rparr>;
                    s = (if release_after_commit > 0 then release_bytes release_after_commit s
                         else s);
                    e = (case dm_get (meta_cache s) transfer_id of
                           Some e \<Rightarrow> e
                         | None \<Rightarrow> \<lparr>m_total_chunks = total_chunks, m_total_bytes = total_bytes,
                                     m_stored_bytes = m_stored_bytes meta,
                                     m_received_chunks = m_received_chunks meta,
                                     m_created_at_ms = m_created_at_ms meta\<rparr>);
                    e = (if m_received_chunks meta \<ge> m_received_chunks e
                         then e\<lparr>m_stored_bytes := m_stored_bytes meta,
                                m_received_chunks := m_received_chunks meta\<rparr>
                         else e)
                in (s\<lparr>meta_cache := dm_insert transfer_id e (meta_cache s)\<rparr>,
                    Inr \<lparr>sc_received_chunks = m_received_chunks meta,
                         sc_total_chunks = total_chunks\<rparr>))))"

text \<open>
  \<open>store_chunk\<close> reads the clock when it claims the id (\<open>now_claim\<close>) and again when it writes
  the metadata of a new transfer (\<open>now_write\<close>).
\<close>

definition store_chunk ::
    "('m, 'b, 'c) file_env \<Rightarrow> chunk_io \<Rightarrow> u64 \<Rightarrow> u64 \<Rightarrow> string \<Rightarrow> u32 \<Rightarrow> u32 \<Rightarrow> u64 \<Rightarrow> bytes
     \<Rightarrow> ('m, 'c) file_store \<Rightarrow> ('m, 'c) file_store \<times> (file_reject + stored_chunk)" where
  "store_chunk E io now_claim now_write transfer_id chunk_index total_chunks total_bytes data s =
     (if data = [] \<or> total_chunks = 0 \<or> total_chunks > max_chunks (config s)
         \<or> chunk_index \<ge> total_chunks
      then (s, Inl BadRequest)
      else if total_bytes = 0 \<or> total_bytes > max_file_bytes (config s) then (s, Inl TooLarge)
      else
        (let data_len = of_nat (length data) :: u64
         in case dm_get (meta_cache s) transfer_id of
              Some m \<Rightarrow>
                if m_total_chunks m \<noteq> total_chunks \<or> m_total_bytes m \<noteq> total_bytes
                then (s, Inl BadRequest)
                else write_chunk E io now_write transfer_id chunk_index total_chunks total_bytes
                       data data_len False s
            | None \<Rightarrow>
                if chunk_index \<noteq> 0 then (s, Inl NotFound)
                else
                  (let s = s\<lparr>meta_cache := dm_insert transfer_id
                         \<lparr>m_total_chunks = total_chunks, m_total_bytes = total_bytes,
                          m_stored_bytes = 0, m_received_chunks = 0,
                          m_created_at_ms = now_claim\<rparr> (meta_cache s)\<rparr>
                   in case reserve_slot s of
                        (s, Inl e) \<Rightarrow>
                          (s\<lparr>meta_cache := dm_remove transfer_id (meta_cache s)\<rparr>, Inl e)
                      | (s, Inr _) \<Rightarrow>
                          (case write_chunk E io now_write transfer_id chunk_index total_chunks
                                  total_bytes data data_len True s of
                             (s, Inl e) \<Rightarrow>
                               (let s = release_slot s
                                in (s\<lparr>meta_cache := dm_remove transfer_id (meta_cache s)\<rparr>, Inl e))
                           | (s, Inr r) \<Rightarrow> (s, Inr r)))))"


section \<open>Fetching, deleting, sweeping\<close>

definition fetch_chunk ::
    "('m, 'b, 'c) file_env \<Rightarrow> io \<Rightarrow> string \<Rightarrow> u32 \<Rightarrow> ('m, 'c) file_store
     \<Rightarrow> file_reject + fetched_chunk" where
  "fetch_chunk E io transfer_id chunk_index s =
     (case dm_get (meta_cache s) transfer_id of
        None \<Rightarrow> Inl NotFound
      | Some meta \<Rightarrow>
          if chunk_index \<ge> m_total_chunks meta then Inl BadRequest
          else if \<not> read_ok io then Inl NotFound
          else (case t_get (f_chunks E) (chunk_table s) (chunk_key transfer_id chunk_index) of
                  Some v \<Rightarrow> Inr \<lparr>fc_data = v, fc_total_chunks = m_total_chunks meta,
                                 fc_total_bytes = m_total_bytes meta\<rparr>
                | None \<Rightarrow> Inl NotFound))"

definition delete_transfer ::
    "('m, 'b, 'c) file_env \<Rightarrow> io \<Rightarrow> string \<Rightarrow> ('m, 'c) file_store
     \<Rightarrow> ('m, 'c) file_store \<times> bool option" where
  "delete_transfer E io transfer_id s =
     (if \<not> write_ok io then (s, None)
      else
        (let (lo, hi) = chunk_bounds transfer_id;
             entry = t_get (f_meta E) (meta_table s) transfer_id;
             existed = (entry \<noteq> None);
             stored = (case entry of
                         Some v \<Rightarrow> (case dec (f_codec E) v of
                                      Some meta \<Rightarrow> m_stored_bytes meta | None \<Rightarrow> 0)
                       | None \<Rightarrow> 0);
             keys = map fst (t_range (f_chunks E) lo hi (chunk_table s));
             s = s\<lparr>meta_table := t_remove (f_meta E) transfer_id (meta_table s),
                   chunk_table := t_remove_all (f_chunks E) keys (chunk_table s)\<rparr>
         in if existed
            then (release_bytes stored
                    (release_slot (s\<lparr>meta_cache := dm_remove transfer_id (meta_cache s)\<rparr>)),
                  Some True)
            else (s, Some False)))"

definition transfer_expired :: "file_config \<Rightarrow> u64 \<Rightarrow> file_meta \<Rightarrow> bool" where
  "transfer_expired cfg now m =
     (let full_cutoff = sat_sub now (file_ttl_ms cfg);
          incomplete_cutoff = sat_sub now (min INCOMPLETE_FILE_TTL_MS (file_ttl_ms cfg));
          cutoff = (if m_received_chunks m \<ge> m_total_chunks m then full_cutoff
                    else incomplete_cutoff)
      in m_created_at_ms m < cutoff)"

text \<open>The loop over the expired ids; the first failing deletion ends it with its error.\<close>

fun delete_all ::
    "('m, 'b, 'c) file_env \<Rightarrow> (string \<Rightarrow> io) \<Rightarrow> string list \<Rightarrow> usize \<Rightarrow> ('m, 'c) file_store
     \<Rightarrow> ('m, 'c) file_store \<times> usize option" where
  "delete_all E io [] removed s = (s, Some removed)"
| "delete_all E io (i # ids) removed s =
     (case delete_transfer E (io i) i s of
        (s, None) \<Rightarrow> (s, None)
      | (s, Some existed) \<Rightarrow>
          delete_all E io ids (if existed then usize_add removed 1 else removed) s)"

definition sweep_expired_files ::
    "('m, 'b, 'c) file_env \<Rightarrow> (string \<Rightarrow> io) \<Rightarrow> u64 \<Rightarrow> ('m, 'c) file_store
     \<Rightarrow> ('m, 'c) file_store \<times> usize option" where
  "sweep_expired_files E io now s =
     delete_all E io (map fst (filter (\<lambda>(k, m). transfer_expired (config s) now m) (meta_cache s)))
       0 s"

end
