(* ===== verification/FileDisk.thy ===== *)
theory FileDisk
  imports FileStore RefTable
begin

text \<open>
  What the two tables of the file store hold, apart from the cache and the counters in memory: the
  metadata of every transfer agrees with its chunks, and no chunk is without its transfer. The
  two transactions that change the tables, a chunk and a deletion, are followed here once, for
  the operations run one at a time (\<open>FileProofs\<close>) and for their interleavings (\<open>FileCaps\<close>).
\<close>


section \<open>Tables\<close>

definition meta_at :: "('m, 'b, 'c) file_env \<Rightarrow> ('m, 'c) file_store \<Rightarrow> string \<Rightarrow> file_meta option" where
  "meta_at E s tid = Option.bind (t_get (f_meta E) (meta_table s) tid) (dec (f_codec E))"

definition chunk_at ::
    "('m, 'b, 'c) file_env \<Rightarrow> ('m, 'c) file_store \<Rightarrow> string \<Rightarrow> u32 \<Rightarrow> bytes option" where
  "chunk_at E s tid i = t_get (f_chunks E) (chunk_table s) (chunk_key tid i)"

definition stored_weight :: "('m, 'b, 'c) file_env \<Rightarrow> string \<Rightarrow> 'b \<Rightarrow> nat" where
  "stored_weight E k b = (case dec (f_codec E) b of Some m \<Rightarrow> unat (m_stored_bytes m) | None \<Rightarrow> 0)"

definition chunk_bytes :: "('m, 'b, 'c) file_env \<Rightarrow> 'c \<Rightarrow> string \<Rightarrow> nat" where
  "chunk_bytes E ct tid =
     t_wsum (f_chunks E) (\<lambda>k v. if prefix (tid @ '':'') k then length v else 0) ct"

definition chunk_count :: "('m, 'b, 'c) file_env \<Rightarrow> 'c \<Rightarrow> string \<Rightarrow> nat" where
  "chunk_count E ct tid =
     t_wsum (f_chunks E) (\<lambda>k v. if prefix (tid @ '':'') k then 1 else 0) ct"

definition meta_ok :: "('m, 'b, 'c) file_env \<Rightarrow> 'c \<Rightarrow> string \<Rightarrow> file_meta \<Rightarrow> bool" where
  "meta_ok E ct tid m \<longleftrightarrow>
     m_stored_bytes m \<le> m_total_bytes m \<and>
     unat (m_stored_bytes m) = chunk_bytes E ct tid \<and>
     unat (m_received_chunks m) = chunk_count E ct tid"

definition old_len :: "('m, 'b, 'c) file_env \<Rightarrow> ('m, 'c) file_store \<Rightarrow> string \<Rightarrow> u32 \<Rightarrow> nat" where
  "old_len E s tid i = (case chunk_at E s tid i of Some v \<Rightarrow> length v | None \<Rightarrow> 0)"

definition updated_meta :: "u64 \<Rightarrow> u64 \<Rightarrow> file_meta \<Rightarrow> file_meta" where
  "updated_meta prev len m = m\<lparr>m_stored_bytes := m_stored_bytes m - prev + len,
     m_received_chunks := (if prev = 0 then m_received_chunks m + 1 else m_received_chunks m)\<rparr>"

lemma chunk_key_inject:
  "CHR '':'' \<notin> set t \<Longrightarrow> CHR '':'' \<notin> set t' \<Longrightarrow> chunk_key t i = chunk_key t' j \<longleftrightarrow> t = t' \<and> i = j"
  by (auto simp: chunk_key_def separated_eq_iff word_unat_eq_iff)

lemma chunk_key_inject_left:
  assumes "CHR '':'' \<notin> set t"
  shows "chunk_key t' j = chunk_key t i \<longleftrightarrow> t' = t \<and> j = i"
proof
  assume eq: "chunk_key t' j = chunk_key t i"
  have "count_list (chunk_key u k) CHR '':'' = Suc (count_list u CHR '':'')" for u k
    by (simp add: chunk_key_def count_list_0_iff)
  with eq have "count_list t' CHR '':'' = count_list t CHR '':''" by (metis nat.inject)
  with assms have "CHR '':'' \<notin> set t'" by (metis count_list_0_iff)
  with assms eq show "t' = t \<and> j = i" by (simp add: chunk_key_inject)
qed simp

lemma chunk_key_inject_index [simp]: "chunk_key t i = chunk_key t j \<longleftrightarrow> i = j"
  by (auto simp: chunk_key_def word_unat_eq_iff)

lemma prefix_chunk_key:
  "CHR '':'' \<notin> set t \<Longrightarrow> CHR '':'' \<notin> set t' \<Longrightarrow> prefix (t @ '':'') (chunk_key t' i) \<longleftrightarrow> t = t'"
  using prefix_colon_iff [of t t' "show_dec (unat i)"] by (simp add: chunk_key_def)

lemma prefix_own_key [simp]: "prefix (t @ '':'') (chunk_key t i)"
  by (simp add: chunk_key_def)

section \<open>The invariant of the tables\<close>

definition disk_inv :: "('m, 'b, 'c) file_env \<Rightarrow> ('m, 'c) file_store \<Rightarrow> bool" where
  "disk_inv E s \<longleftrightarrow>
     (\<forall>tid b. t_get (f_meta E) (meta_table s) tid = Some b \<longrightarrow>
        CHR '':'' \<notin> set tid \<and> dec (f_codec E) b \<noteq> None) \<and>
     (\<forall>tid m. meta_at E s tid = Some m \<longrightarrow> meta_ok E (chunk_table s) tid m) \<and>
     (\<forall>k v. t_get (f_chunks E) (chunk_table s) k = Some v \<longrightarrow>
        (\<exists>tid i. k = chunk_key tid i \<and> meta_at E s tid \<noteq> None \<and> i \<noteq> - 1 \<and> v \<noteq> []))"

definition disk_bytes :: "('m, 'b, 'c) file_env \<Rightarrow> ('m, 'c) file_store \<Rightarrow> nat" where
  "disk_bytes E s = t_wsum (f_meta E) (stored_weight E) (meta_table s)"

definition disk_rows :: "('m, 'b, 'c) file_env \<Rightarrow> ('m, 'c) file_store \<Rightarrow> nat" where
  "disk_rows E s = length (t_iter (f_meta E) (meta_table s))"

lemma disk_invD:
  assumes "disk_inv E s"
  shows "\<And>tid b. t_get (f_meta E) (meta_table s) tid = Some b \<Longrightarrow>
        CHR '':'' \<notin> set tid \<and> dec (f_codec E) b \<noteq> None"
    "\<And>tid m. meta_at E s tid = Some m \<Longrightarrow> meta_ok E (chunk_table s) tid m"
    "\<And>k v. t_get (f_chunks E) (chunk_table s) k = Some v \<Longrightarrow>
        \<exists>tid i. k = chunk_key tid i \<and> meta_at E s tid \<noteq> None \<and> i \<noteq> - 1 \<and> v \<noteq> []"
  using assms unfolding disk_inv_def by blast+

lemma disk_same:
  assumes "meta_table s' = meta_table s" "chunk_table s' = chunk_table s"
  shows "disk_inv E s' = disk_inv E s" "disk_bytes E s' = disk_bytes E s" "disk_rows E s' = disk_rows E s"
    "meta_at E s' = meta_at E s" "chunk_at E s' = chunk_at E s"
proof -
  show M: "meta_at E s' = meta_at E s" by (simp add: meta_at_def assms fun_eq_iff)
  show "chunk_at E s' = chunk_at E s" by (simp add: chunk_at_def assms fun_eq_iff)
  show "disk_inv E s' = disk_inv E s" "disk_bytes E s' = disk_bytes E s" "disk_rows E s' = disk_rows E s"
    by (simp_all add: disk_inv_def disk_bytes_def disk_rows_def M assms)
qed

lemma card_below: "card {i :: u32. i < n} = unat n"
proof -
  have "unat ` {i :: u32. i < n} = {..<unat n}"
  proof (intro equalityI subsetI)
    fix k assume k: "k \<in> {..<unat n}"
    moreover have "unat n < 2 ^ 32" using unsigned_less [of n, where 'a = nat] by simp
    ultimately have "unat (of_nat k :: u32) = k" by (simp add: unat_of_nat)
    with k show "k \<in> unat ` {i :: u32. i < n}"
      by (intro image_eqI [of _ _ "of_nat k"]) (simp_all add: word_less_nat_alt)
  qed (auto simp: word_less_nat_alt)
  moreover have "inj_on (unat :: u32 \<Rightarrow> nat) {i. i < n}" by (rule inj_onI) (simp add: word_unat_eq_iff)
  ultimately show ?thesis by (metis card_image card_lessThan)
qed

lemma not_max_iff: "i \<noteq> - 1 \<longleftrightarrow> i < (- 1 :: u32)"
  by (metis word_order.not_eq_extremum)


locale file_backend =
  mt: redb_table "f_meta E" + ct: redb_table "f_chunks E" + cod: serde_codec "f_codec E"
  for E :: "('m, 'b, 'c) file_env"
begin

lemma stored_row: "disk_inv E s \<Longrightarrow> t_get (f_meta E) (meta_table s) tid = None \<longleftrightarrow> meta_at E s tid = None"
  using disk_invD(1) [of E s tid] by (auto simp: meta_at_def split: Option.bind_splits)

lemma stored_id_ok: "disk_inv E s \<Longrightarrow> meta_at E s tid \<noteq> None \<Longrightarrow> CHR '':'' \<notin> set tid"
  using disk_invD(1) [of E s tid] by (auto simp: meta_at_def bind_eq_Some_conv)

text \<open>The chunks of a transfer, counted.\<close>

lemma chunk_count_eq:
  assumes inv: "disk_inv E s" and tid: "CHR '':'' \<notin> set tid"
  shows "chunk_count E (chunk_table s) tid = card {i. chunk_at E s tid i \<noteq> None}"
proof -
  have "{k \<in> dom (t_get (f_chunks E) (chunk_table s)). prefix (tid @ '':'') k}
      = chunk_key tid ` {i. chunk_at E s tid i \<noteq> None}" (is "?K = _")
  proof (intro equalityI subsetI)
    fix k assume "k \<in> ?K"
    then obtain v where v: "t_get (f_chunks E) (chunk_table s) k = Some v" "prefix (tid @ '':'') k"
      by auto
    from disk_invD(3) [OF inv v(1)] obtain t i where k: "k = chunk_key t i" "meta_at E s t \<noteq> None"
      by blast
    with stored_id_ok [OF inv] v tid have "t = tid" by (simp add: prefix_chunk_key)
    with k v show "k \<in> chunk_key tid ` {i. chunk_at E s tid i \<noteq> None}"
      by (auto simp: chunk_at_def)
  qed (auto simp: chunk_at_def)
  then show ?thesis
    by (simp add: chunk_count_def ct.wsum_indicator card_image inj_on_def)
qed

lemma no_chunk_without_meta:
  assumes "disk_inv E s" "CHR '':'' \<notin> set tid" "meta_at E s tid = None"
  shows "chunk_at E s tid i = None"
proof (rule ccontr)
  assume "chunk_at E s tid i \<noteq> None"
  then obtain v where "t_get (f_chunks E) (chunk_table s) (chunk_key tid i) = Some v"
    by (auto simp: chunk_at_def)
  from disk_invD(3) [OF assms(1) this] obtain t j
    where k: "chunk_key tid i = chunk_key t j" "meta_at E s t \<noteq> None" by blast
  with stored_id_ok [OF assms(1)] assms(2,3) show False by (auto simp: chunk_key_inject)
qed

lemma no_chunks:
  assumes "disk_inv E s" "CHR '':'' \<notin> set tid" "meta_at E s tid = None"
  shows "chunk_bytes E (chunk_table s) tid = 0" "chunk_count E (chunk_table s) tid = 0"
proof -
  have "\<not> prefix (tid @ '':'') k" if kv: "t_get (f_chunks E) (chunk_table s) k = Some v" for k v
    using disk_invD(3) [OF assms(1) kv] stored_id_ok [OF assms(1)] assms(2,3)
    by (auto simp: prefix_chunk_key)
  then have "t_weight (f_chunks E) (\<lambda>k v. if prefix (tid @ '':'') k then f v else 0) (chunk_table s) k = 0"
    for f :: "bytes \<Rightarrow> nat" and k by (auto simp: t_weight_def split: option.splits)
  then show "chunk_bytes E (chunk_table s) tid = 0" "chunk_count E (chunk_table s) tid = 0"
    by (simp_all add: chunk_bytes_def chunk_count_def ct.wsum_eq_sum)
qed

lemma stored_weight_at:
  "t_weight (f_meta E) (stored_weight E) (meta_table s) tid
     = (case meta_at E s tid of Some m \<Rightarrow> unat (m_stored_bytes m) | None \<Rightarrow> 0)"
  by (auto simp: t_weight_def stored_weight_def meta_at_def split: option.splits)

lemma stored_le_disk:
  "meta_at E s tid = Some m \<Longrightarrow> unat (m_stored_bytes m) \<le> disk_bytes E s"
  using mt.weight_le_wsum [of "stored_weight E" "meta_table s" tid]
  by (simp add: disk_bytes_def stored_weight_at)

lemma old_len_le_stored:
  assumes "disk_inv E s" "meta_at E s tid = Some m"
  shows "old_len E s tid i \<le> unat (m_stored_bytes m)"
proof -
  have "old_len E s tid i = t_weight (f_chunks E)
      (\<lambda>k v. if prefix (tid @ '':'') k then length v else 0) (chunk_table s) (chunk_key tid i)"
    by (simp add: old_len_def chunk_at_def t_weight_def split: option.splits)
  also have "\<dots> \<le> chunk_bytes E (chunk_table s) tid"
    unfolding chunk_bytes_def by (rule ct.weight_le_wsum)
  finally show ?thesis using disk_invD(2) [OF assms] by (simp add: meta_ok_def)
qed

lemma old_len_zero_iff:
  assumes inv: "disk_inv E s" and tid: "CHR '':'' \<notin> set tid"
  shows "(of_nat (old_len E s tid ci) :: u64) = 0 \<longleftrightarrow> chunk_at E s tid ci = None"
proof -
  have "old_len E s tid ci < 2 ^ 64"
  proof (cases "meta_at E s tid")
    case (Some m)
    from old_len_le_stored [OF inv this, of ci] show ?thesis
      using unsigned_less [of "m_stored_bytes m", where 'a = nat] by simp
  qed (use no_chunk_without_meta [OF inv tid] in \<open>simp add: old_len_def\<close>)
  then have "unat (of_nat (old_len E s tid ci) :: u64) = old_len E s tid ci" by (simp add: unat_of_nat)
  then have "(of_nat (old_len E s tid ci) :: u64) = 0 \<longleftrightarrow> old_len E s tid ci = 0"
    by (metis of_nat_0 unat_eq_zero)
  also have "\<dots> \<longleftrightarrow> chunk_at E s tid ci = None"
    using disk_invD(3) [OF inv] by (fastforce simp: old_len_def chunk_at_def split: option.splits)
  finally show ?thesis .
qed

lemma room_for_chunk:
  assumes inv: "disk_inv E s" and tid: "CHR '':'' \<notin> set tid"
    and start: "meta_at E s tid = Some m \<or> meta_at E s tid = None \<and> m_received_chunks m = 0"
    and ci: "ci \<noteq> - 1" and free: "chunk_at E s tid ci = None"
  shows "m_received_chunks m \<noteq> - 1"
  using start
proof
  assume m: "meta_at E s tid = Some m"
  have at: "i \<noteq> - 1" if held: "chunk_at E s tid i \<noteq> None" for i
  proof -
    obtain v where "t_get (f_chunks E) (chunk_table s) (chunk_key tid i) = Some v"
      using held by (auto simp: chunk_at_def)
    from disk_invD(3) [OF inv this] show ?thesis
      using tid chunk_key_inject_left [OF tid] by metis
  qed
  have "{i. chunk_at E s tid i \<noteq> None} \<subseteq> {i :: u32. i < - 1}"
    "ci \<in> {i :: u32. i < - 1}" "ci \<notin> {i. chunk_at E s tid i \<noteq> None}"
    using at ci free by (auto simp: not_max_iff)
  then have "{i. chunk_at E s tid i \<noteq> None} \<subset> {i :: u32. i < - 1}" by blast
  then have "card {i. chunk_at E s tid i \<noteq> None} < unat (- 1 :: u32)"
    using psubset_card_mono [of "{i :: u32. i < - 1}"] by (simp add: card_below)
  then have "unat (m_received_chunks m) < unat (- 1 :: u32)"
    using disk_invD(2) [OF inv m] chunk_count_eq [OF inv tid] by (simp add: meta_ok_def)
  then show ?thesis by auto
qed auto

text \<open>
  A chunk is put in place: the transfer's metadata starts from what is stored, or from nothing, and
  the byte arithmetic does not wrap.
\<close>

lemma disk_put:
  assumes inv: "disk_inv E s" and tid: "CHR '':'' \<notin> set tid" and data: "data \<noteq> []"
    and ci: "ci \<noteq> - 1"
    and start: "meta_at E s tid = Some m \<or>
      meta_at E s tid = None \<and> m_stored_bytes m = 0 \<and> m_received_chunks m = 0"
    and m': "m' = updated_meta (of_nat (old_len E s tid ci)) len m" "m_stored_bytes m' \<le> m_total_bytes m"
    and stored: "unat (m_stored_bytes m') = unat (m_stored_bytes m) - old_len E s tid ci + length data"
    and s': "meta_table s' = t_insert (f_meta E) tid (enc (f_codec E) m') (meta_table s)"
      "chunk_table s' = t_insert (f_chunks E) (chunk_key tid ci) data (chunk_table s)"
  shows "disk_inv E s'" "meta_at E s' = (meta_at E s)(tid \<mapsto> m')"
    "chunk_at E s' = (chunk_at E s)(tid := (chunk_at E s tid)(ci \<mapsto> data))"
    "disk_bytes E s' + old_len E s tid ci = disk_bytes E s + length data"
    "disk_rows E s' = disk_rows E s + (if meta_at E s tid = None then 1 else 0)"
    "m_received_chunks m \<le> m_received_chunks m'"
proof -
  define p where "p = old_len E s tid ci"
  let ?l = "length data" and ?T = "f_meta E" and ?C = "f_chunks E"
  have none: "meta_at E s tid = None \<Longrightarrow> chunk_at E s tid i = None" for i
    by (rule no_chunk_without_meta [OF inv tid])
  have p: "p \<le> unat (m_stored_bytes m)"
    using start old_len_le_stored [OF inv, of tid m ci] none [of ci] by (auto simp: p_def old_len_def)
  show meta: "meta_at E s' = (meta_at E s)(tid \<mapsto> m')"
    by (auto simp: meta_at_def s'(1) mt.get_insert cod.dec_enc)
  show chunk: "chunk_at E s' = (chunk_at E s)(tid := (chunk_at E s tid)(ci \<mapsto> data))"
    by (auto simp: chunk_at_def s'(2) ct.get_insert chunk_key_inject_left [OF tid] fun_eq_iff)
  show "disk_rows E s' = disk_rows E s + (if meta_at E s tid = None then 1 else 0)"
    using stored_row [OF inv, of tid] by (simp add: disk_rows_def s'(1) mt.length_iter_insert)
  have "t_weight ?T (stored_weight E) (meta_table s) tid = unat (m_stored_bytes m)"
    using start by (auto simp: stored_weight_at)
  moreover have "stored_weight E tid (enc (f_codec E) m') = unat (m_stored_bytes m')"
    by (simp add: stored_weight_def cod.dec_enc)
  ultimately show "disk_bytes E s' + old_len E s tid ci = disk_bytes E s + ?l"
    using mt.wsum_insert [of "stored_weight E" tid "enc (f_codec E) m'" "meta_table s"] stored p
    by (simp add: disk_bytes_def s'(1) p_def)
  have prev0: "(of_nat (old_len E s tid ci) :: u64) = 0 \<longleftrightarrow> chunk_at E s tid ci = None"
    by (rule old_len_zero_iff [OF inv tid])
  have room: "chunk_at E s tid ci = None \<Longrightarrow> unat (m_received_chunks m + 1) = Suc (unat (m_received_chunks m))"
    using room_for_chunk [OF inv tid _ ci] start by (intro unat_plus_one) auto
  then show "m_received_chunks m \<le> m_received_chunks m'"
    using prev0 by (auto simp: m'(1) updated_meta_def word_le_nat_alt)
  have "chunk_bytes E (chunk_table s') tid + p = chunk_bytes E (chunk_table s) tid + ?l"
    using ct.wsum_insert [of "\<lambda>k v. if prefix (tid @ '':'') k then length v else 0"
        "chunk_key tid ci" data "chunk_table s"]
    by (simp add: chunk_bytes_def s'(2) t_weight_def p_def old_len_def chunk_at_def split: option.splits)
  moreover have "chunk_bytes E (chunk_table s) tid = unat (m_stored_bytes m)"
    using start disk_invD(2) [OF inv] no_chunks(1) [OF inv tid] by (auto simp: meta_ok_def)
  ultimately have bytes: "unat (m_stored_bytes m') = chunk_bytes E (chunk_table s') tid"
    using stored p by (simp add: p_def)
  have "chunk_count E (chunk_table s') tid + (if chunk_at E s tid ci = None then 0 else 1)
      = chunk_count E (chunk_table s) tid + 1"
    using ct.wsum_insert [of "\<lambda>k v. if prefix (tid @ '':'') k then 1 else 0"
        "chunk_key tid ci" data "chunk_table s"]
    by (auto simp: chunk_count_def s'(2) t_weight_def chunk_at_def split: option.splits)
  moreover have "chunk_count E (chunk_table s) tid = unat (m_received_chunks m)"
    using start disk_invD(2) [OF inv] no_chunks(2) [OF inv tid] by (auto simp: meta_ok_def)
  ultimately have count: "unat (m_received_chunks m') = chunk_count E (chunk_table s') tid"
    using prev0 room by (auto simp: m'(1) updated_meta_def)
  have other: "\<not> prefix (t @ '':'') (chunk_key tid ci)" if "t \<noteq> tid" "CHR '':'' \<notin> set t" for t
    using that tid by (simp add: prefix_chunk_key)
  show "disk_inv E s'"
    unfolding disk_inv_def
  proof (intro conjI allI impI)
    show "meta_ok E (chunk_table s') t d" if "meta_at E s' t = Some d" for t d
    proof (cases "t = tid")
      case True
      with that meta have "d = m'" by simp
      with True bytes count m' show ?thesis by (simp add: meta_ok_def updated_meta_def)
    next
      case False
      with that meta have d: "meta_at E s t = Some d" by simp
      then have "CHR '':'' \<notin> set t" using stored_id_ok [OF inv] by simp
      with False disk_invD(2) [OF inv d] other show ?thesis
        by (simp add: meta_ok_def chunk_bytes_def chunk_count_def s'(2) ct.wsum_insert_key)
    qed
    show "\<exists>t i. k = chunk_key t i \<and> meta_at E s' t \<noteq> None \<and> i \<noteq> - 1 \<and> v \<noteq> []"
      if "t_get ?C (chunk_table s') k = Some v" for k v
      using that disk_invD(3) [OF inv, of k v] data ci
      by (cases "k = chunk_key tid ci") (auto simp: s'(2) ct.get_insert meta split: if_splits)
  qed (use disk_invD(1) [OF inv] tid in
      \<open>auto simp: s'(1) mt.get_insert cod.dec_enc split: if_splits\<close>)
qed

text \<open>A transfer is deleted with its chunks.\<close>

lemma disk_delete:
  assumes inv: "disk_inv E s" and tid: "CHR '':'' \<notin> set tid"
    and s': "meta_table s' = t_remove (f_meta E) tid (meta_table s)"
      "chunk_table s' = t_remove_all (f_chunks E)
         (map fst (t_range (f_chunks E) (tid @ '':'') (tid @ '';'') (chunk_table s))) (chunk_table s)"
  shows "disk_inv E s'" "meta_at E s' = (meta_at E s)(tid := None)"
    "chunk_at E s' = (chunk_at E s)(tid := Map.empty)"
    "disk_bytes E s = disk_bytes E s'
       + (case meta_at E s tid of Some m \<Rightarrow> unat (m_stored_bytes m) | None \<Rightarrow> 0)"
    "disk_rows E s = disk_rows E s' + (if meta_at E s tid = None then 0 else 1)"
proof -
  let ?T = "f_meta E" and ?C = "f_chunks E"
  show meta: "meta_at E s' = (meta_at E s)(tid := None)"
    by (auto simp: meta_at_def s'(1) mt.get_remove)
  show "disk_bytes E s = disk_bytes E s'
       + (case meta_at E s tid of Some m \<Rightarrow> unat (m_stored_bytes m) | None \<Rightarrow> 0)"
    using mt.wsum_remove [of "stored_weight E" tid "meta_table s"]
    by (simp add: disk_bytes_def s'(1) stored_weight_at)
  have "meta_at E s tid \<noteq> None \<Longrightarrow> 0 < disk_rows E s"
    using stored_row [OF inv, of tid] mt.iter_Nil_iff [of "meta_table s"]
    by (auto simp: disk_rows_def)
  then show "disk_rows E s = disk_rows E s' + (if meta_at E s tid = None then 0 else 1)"
    using stored_row [OF inv, of tid] by (auto simp: disk_rows_def s'(1) mt.length_iter_remove)
  have get: "t_get ?C (chunk_table s') k = (if prefix (tid @ '':'') k then None
      else t_get ?C (chunk_table s) k)" for k
    by (simp add: s'(2) ct.get_remove_range)
  show "chunk_at E s' = (chunk_at E s)(tid := Map.empty)"
  proof (intro ext)
    fix t i
    show "chunk_at E s' t i = ((chunk_at E s)(tid := Map.empty)) t i"
    proof (cases "chunk_at E s t i")
      case None
      then show ?thesis by (auto simp: chunk_at_def get)
    next
      case (Some v)
      with disk_invD(3) [OF inv, of "chunk_key t i" v] obtain t' j
        where "chunk_key t i = chunk_key t' j" "meta_at E s t' \<noteq> None" by (auto simp: chunk_at_def)
      with stored_id_ok [OF inv] have "CHR '':'' \<notin> set t" using chunk_key_inject_left by metis
      with tid show ?thesis by (auto simp: chunk_at_def get prefix_chunk_key)
    qed
  qed
  have same: "chunk_bytes E (chunk_table s') t = chunk_bytes E (chunk_table s) t"
    "chunk_count E (chunk_table s') t = chunk_count E (chunk_table s) t"
    if "t \<noteq> tid" "CHR '':'' \<notin> set t" for t
    unfolding chunk_bytes_def chunk_count_def using that tid prefix_colon_unique
    by (intro ct.wsum_weight_cong; auto simp: t_weight_def get split: option.splits)+
  show "disk_inv E s'"
    unfolding disk_inv_def
  proof (intro conjI allI impI)
    show "meta_ok E (chunk_table s') t m" if "meta_at E s' t = Some m" for t m
    proof -
      from that meta have t: "meta_at E s t = Some m" "t \<noteq> tid" by (auto split: if_splits)
      then have "CHR '':'' \<notin> set t" using stored_id_ok [OF inv] by simp
      with t disk_invD(2) [OF inv t(1)] same show ?thesis by (simp add: meta_ok_def)
    qed
    show "\<exists>t i. k = chunk_key t i \<and> meta_at E s' t \<noteq> None \<and> i \<noteq> - 1 \<and> v \<noteq> []"
      if "t_get ?C (chunk_table s') k = Some v" for k v
    proof -
      have k: "\<not> prefix (tid @ '':'') k" "t_get ?C (chunk_table s) k = Some v"
        using that by (auto simp: get split: if_splits)
      from disk_invD(3) [OF inv k(2)] obtain t i where t: "k = chunk_key t i"
        "meta_at E s t \<noteq> None" "i \<noteq> - 1" "v \<noteq> []" by blast
      with k(1) have "t \<noteq> tid" by auto
      with t meta show ?thesis by auto
    qed
  qed (use disk_invD(1) [OF inv] in \<open>auto simp: s'(1) mt.get_remove split: if_splits\<close>)
qed

end

end
