(* ===== verification/FileProofs.thy ===== *)
theory FileProofs
  imports FileDisk
begin

text \<open>
  The correctness of the file store: the representation invariant (the cache and the counters
  agree with the tables, and those with themselves), the effect of each operation on it, and that
  a rejected operation leaves the store as it was.
\<close>


section \<open>The representation invariant\<close>

definition config_ok :: "file_config \<Rightarrow> bool" where
  "config_ok c \<longleftrightarrow> max_transfers c < usize_modulus \<and> max_total_file_bytes c < - 1"

text \<open>The cached metadata is the stored one, but for the clock reading it was created with.\<close>

definition cached :: "file_meta \<Rightarrow> file_meta \<Rightarrow> bool" where
  "cached c d \<longleftrightarrow> c\<lparr>m_created_at_ms := m_created_at_ms d\<rparr> = d"

definition file_inv :: "('m, 'b, 'c) file_env \<Rightarrow> ('m, 'c) file_store \<Rightarrow> bool" where
  "file_inv E s \<longleftrightarrow>
     config_ok (config s) \<and>
     (\<forall>tid b. t_get (f_meta E) (meta_table s) tid = Some b \<longrightarrow>
        CHR '':'' \<notin> set tid \<and> dec (f_codec E) b \<noteq> None) \<and>
     dm_wf (meta_cache s) \<and>
     (\<forall>tid. rel_option cached (dm_get (meta_cache s) tid) (meta_at E s tid)) \<and>
     (\<forall>tid m. meta_at E s tid = Some m \<longrightarrow> meta_ok E (chunk_table s) tid m) \<and>
     (\<forall>k v. t_get (f_chunks E) (chunk_table s) k = Some v \<longrightarrow>
        (\<exists>tid i m. k = chunk_key tid i \<and> meta_at E s tid = Some m \<and> i < m_total_chunks m \<and> v \<noteq> [])) \<and>
     unat (reserved_bytes s) = t_wsum (f_meta E) (stored_weight E) (meta_table s) \<and>
     transfer_count s = length (t_iter (f_meta E) (meta_table s)) \<and>
     transfer_count s < usize_modulus"

lemma file_invD:
  assumes "file_inv E s"
  shows "config_ok (config s)"
    "\<And>tid b. t_get (f_meta E) (meta_table s) tid = Some b \<Longrightarrow>
        CHR '':'' \<notin> set tid \<and> dec (f_codec E) b \<noteq> None"
    "dm_wf (meta_cache s)"
    "\<And>tid. rel_option cached (dm_get (meta_cache s) tid) (meta_at E s tid)"
    "\<And>tid m. meta_at E s tid = Some m \<Longrightarrow> meta_ok E (chunk_table s) tid m"
    "\<And>k v. t_get (f_chunks E) (chunk_table s) k = Some v \<Longrightarrow>
        \<exists>tid i m. k = chunk_key tid i \<and> meta_at E s tid = Some m \<and> i < m_total_chunks m \<and> v \<noteq> []"
    "unat (reserved_bytes s) = t_wsum (f_meta E) (stored_weight E) (meta_table s)"
    "transfer_count s = length (t_iter (f_meta E) (meta_table s))"
    "transfer_count s < usize_modulus"
  using assms unfolding file_inv_def by blast+

lemma dm_remove_insert_new: "dm_get m k = None \<Longrightarrow> dm_remove k (dm_insert k v m) = m"
  by (induction m) (auto simp: dm_remove_absent split: if_splits)


section \<open>Rejections change nothing\<close>

lemma reserve_then_release:
  assumes "max_total_file_bytes (config s) < - 1" "try_reserve_bytes n s = (s', Inr u)"
  shows "release_bytes n s' = s"
proof -
  from assms have s': "s' = s\<lparr>reserved_bytes := sat_add (reserved_bytes s) n\<rparr>"
    "sat_add (reserved_bytes s) n < - 1"
    by (auto simp: try_reserve_bytes_def Let_def not_less split: if_splits)
  then have "sat_sub (sat_add (reserved_bytes s) n) n = reserved_bytes s"
    by (auto simp: sat_add_def sat_sub_def word_le_nat_alt split: if_splits)
      (metis no_olen_add_nat olen_add_eqv word_le_nat_alt)
  with s' show ?thesis by (simp add: release_bytes_def)
qed

lemma try_reserve_Inl: "try_reserve_bytes n s = (s', Inl e) \<Longrightarrow> s' = s"
  by (auto simp: try_reserve_bytes_def Let_def split: if_splits)

lemma try_reserve_Inr:
  "try_reserve_bytes n s = (s', Inr u) \<Longrightarrow>
   meta_table s' = meta_table s \<and> chunk_table s' = chunk_table s"
  by (auto simp: try_reserve_bytes_def Let_def split: if_splits)

lemma diff_pos: "p < n \<Longrightarrow> 0 < n - p" for n p :: "'a::len word"
  by (simp add: word_less_nat_alt unat_sub word_le_nat_alt)

lemma write_txn_rollback:
  assumes "max_total_file_bytes (config s) < - 1"
    "write_txn E io now tid ci tc tb data len creating s = (s', add, rel, r)"
  shows "(if add > 0 then release_bytes add s' else s') = s"
  using assms(2) reserve_then_release [OF assms(1)] unfolding write_txn_def Let_def
  by (auto split: if_splits option.splits sum.splits prod.splits
      dest: try_reserve_Inl simp: diff_pos)

lemma write_chunk_reject:
  assumes "max_total_file_bytes (config s) < - 1"
    "write_chunk E io now tid ci tc tb data len creating s = (s', Inl e)"
  shows "s' = s"
proof -
  obtain s1 add rel r where t: "write_txn E io now tid ci tc tb data len creating s = (s1, add, rel, r)"
    using prod_cases4 by blast
  from write_txn_rollback [OF assms(1) this] assms(2) show ?thesis
    unfolding write_chunk_def t by (auto simp: Let_def split: if_splits sum.splits prod.splits)
qed

lemma store_chunk_reject:
  assumes "file_inv E s" "store_chunk E io t1 t2 tid ci tc tb data s = (s', Inl e)"
  shows "s' = s"
proof -
  have cfg: "max_total_file_bytes (config s) < - 1" and cnt: "transfer_count s < usize_modulus"
    using file_invD(1,9) [OF assms(1)] by (simp_all add: config_ok_def)
  show ?thesis
  proof (cases "dm_get (meta_cache s) tid")
    case (Some m)
    with assms(2) cfg show ?thesis
      by (auto simp: store_chunk_def Let_def split: if_splits dest: write_chunk_reject)
  next
    case None
    let ?claim = "\<lambda>n. s\<lparr>meta_cache := dm_insert tid \<lparr>m_total_chunks = tc, m_total_bytes = tb,
      m_stored_bytes = 0, m_received_chunks = 0, m_created_at_ms = t1\<rparr> (meta_cache s),
      transfer_count := n\<rparr>"
    have rej: "s1 = ?claim (usize_add (transfer_count s) (Suc 0))"
      if "write_chunk E io t2 tid ci tc tb data len True (?claim (usize_add (transfer_count s) (Suc 0)))
        = (s1, Inl x)" for s1 x len ci
      using write_chunk_reject [OF _ that] cfg by simp
    have "transfer_count s < max_transfers (config s) \<Longrightarrow>
        usize_sub (usize_add (transfer_count s) (Suc 0)) (Suc 0) = transfer_count s"
      using file_invD(1) [OF assms(1)] by (simp add: config_ok_def usize_simps)
    then show ?thesis
      using None assms(2)
      by (auto simp: store_chunk_def Let_def reserve_slot_def release_slot_def dm_remove_insert_new
          split: if_splits sum.splits prod.splits dest!: rej)
  qed
qed


section \<open>The effect of a stored chunk\<close>

text \<open>The metadata a write starts from: a new transfer's, or the stored one.\<close>

definition start_meta ::
    "('m, 'b, 'c) file_env \<Rightarrow> u64 \<Rightarrow> string \<Rightarrow> u32 \<Rightarrow> u64 \<Rightarrow> bool \<Rightarrow> ('m, 'c) file_store
     \<Rightarrow> file_meta option" where
  "start_meta E now tid tc tb creating s =
     (if creating then Some \<lparr>m_total_chunks = tc, m_total_bytes = tb, m_stored_bytes = 0,
                             m_received_chunks = 0, m_created_at_ms = now\<rparr>
      else meta_at E s tid)"

lemma write_txn_Inr:
  assumes "write_txn E io now tid ci tc tb data len creating s = (s', add, rel, Inr (mt, ct, m'))"
  defines "prev \<equiv> of_nat (old_len E s tid ci) :: u64"
  obtains m where "start_meta E now tid tc tb creating s = Some m" "m' = updated_meta prev len m"
    "mt = t_insert (f_meta E) tid (enc (f_codec E) m') (meta_table s)"
    "ct = t_insert (f_chunks E) (chunk_key tid ci) data (chunk_table s)"
    "m_stored_bytes m' \<le> m_total_bytes m" "m_stored_bytes m' \<le> max_file_bytes (config s)"
    "if prev < len then try_reserve_bytes (len - prev) s = (s', Inr ()) \<and> rel = 0
     else s' = s \<and> rel = prev - len"
proof -
  have prev: "(case t_get (f_chunks E) (chunk_table s) (chunk_key tid ci) of
      Some v \<Rightarrow> of_nat (length v) | None \<Rightarrow> 0) = prev"
    by (simp add: prev_def old_len_def chunk_at_def split: option.splits)
  show thesis
    using assms(1) unfolding write_txn_def Let_def prev
    by (auto intro!: that split: if_splits option.splits sum.splits prod.splits
        dest: try_reserve_Inr simp: start_meta_def meta_at_def updated_meta_def not_less)
qed

definition charged :: "u64 \<Rightarrow> u64 \<Rightarrow> u64 \<Rightarrow> u64" where
  "charged prev len r = (if prev < len then sat_add r (len - prev) else sat_sub r (prev - len))"

lemma write_chunk_Inr:
  assumes "write_chunk E io now tid ci tc tb data len creating s = (s', Inr r)"
  defines "prev \<equiv> of_nat (old_len E s tid ci) :: u64"
  obtains m m' e where "start_meta E now tid tc tb creating s = Some m" "m' = updated_meta prev len m"
    "m_stored_bytes m' \<le> m_total_bytes m"
    "prev < len \<Longrightarrow> sat_add (reserved_bytes s) (len - prev) \<le> max_total_file_bytes (config s)"
    "s' = s\<lparr>meta_table := t_insert (f_meta E) tid (enc (f_codec E) m') (meta_table s),
            chunk_table := t_insert (f_chunks E) (chunk_key tid ci) data (chunk_table s),
            reserved_bytes := charged prev len (reserved_bytes s),
            meta_cache := dm_insert tid e (meta_cache s)\<rparr>"
    "r = \<lparr>sc_received_chunks = m_received_chunks m', sc_total_chunks = tc\<rparr>"
    "e = (let c = (case dm_get (meta_cache s) tid of
                     Some c \<Rightarrow> c
                   | None \<Rightarrow> \<lparr>m_total_chunks = tc, m_total_bytes = tb,
                       m_stored_bytes = m_stored_bytes m', m_received_chunks = m_received_chunks m',
                       m_created_at_ms = m_created_at_ms m'\<rparr>)
          in if m_received_chunks m' \<ge> m_received_chunks c
             then c\<lparr>m_stored_bytes := m_stored_bytes m', m_received_chunks := m_received_chunks m'\<rparr>
             else c)"
proof -
  obtain s1 add rel x where t: "write_txn E io now tid ci tc tb data len creating s = (s1, add, rel, x)"
    using prod_cases4 by blast
  with assms(1) obtain mt ct m' where x: "x = Inr (mt, ct, m')"
    by (auto simp: write_chunk_def split: if_splits sum.splits)
  obtain m where m: "start_meta E now tid tc tb creating s = Some m" "m' = updated_meta prev len m"
    "mt = t_insert (f_meta E) tid (enc (f_codec E) m') (meta_table s)"
    "ct = t_insert (f_chunks E) (chunk_key tid ci) data (chunk_table s)"
    "m_stored_bytes m' \<le> m_total_bytes m"
    and c: "if prev < len then try_reserve_bytes (len - prev) s = (s1, Inr ()) \<and> rel = 0
     else s1 = s \<and> rel = prev - len"
    using write_txn_Inr [OF t [unfolded x]] unfolding prev_def by metis
  have s1: "(if rel > 0 then release_bytes rel s1 else s1)
      = s\<lparr>reserved_bytes := charged prev len (reserved_bytes s)\<rparr>"
    using c by (auto simp: charged_def try_reserve_bytes_def release_bytes_def sat_sub_def Let_def
        not_less word_gt_0 split: if_splits)
  have cap: "prev < len \<Longrightarrow>
      sat_add (reserved_bytes s) (len - prev) \<le> max_total_file_bytes (config s)"
    using c by (auto simp: try_reserve_bytes_def Let_def not_less split: if_splits)
  have upd: "(if rel > 0 then release_bytes rel (s1\<lparr>meta_table := mt, chunk_table := ct\<rparr>)
      else s1\<lparr>meta_table := mt, chunk_table := ct\<rparr>)
    = s\<lparr>meta_table := mt, chunk_table := ct, reserved_bytes := charged prev len (reserved_bytes s)\<rparr>"
    using s1 by (cases s1, cases s) (auto simp: release_bytes_def split: if_splits)
  show thesis
    using assms(1) unfolding write_chunk_def t x prod.case sum.case Let_def upd
    by (intro that [OF m(1,2,5) cap]) (auto simp: Let_def m(3,4) split: if_splits)
qed


lemma file_inv_disk: "file_inv E s \<Longrightarrow> disk_inv E s"
  unfolding file_inv_def disk_inv_def by (metis leD option.distinct(1) word_order.extremum)

context file_backend
begin

lemma file_id_ok: "file_inv E s \<Longrightarrow> meta_at E s tid = Some m \<Longrightarrow> CHR '':'' \<notin> set tid"
  using stored_id_ok [OF file_inv_disk] by simp

lemma chunk_index_less:
  assumes inv: "file_inv E s" and "chunk_at E s tid i \<noteq> None" "meta_at E s tid = Some m"
  shows "i < m_total_chunks m"
proof -
  obtain v where "t_get (f_chunks E) (chunk_table s) (chunk_key tid i) = Some v"
    using assms(2) by (auto simp: chunk_at_def)
  from file_invD(6) [OF inv this] obtain t j m'
    where k: "chunk_key tid i = chunk_key t j" "meta_at E s t = Some m'" "j < m_total_chunks m'"
    by blast
  have "CHR '':'' \<notin> set t" "CHR '':'' \<notin> set tid"
    using file_invD(2) [OF inv] k(2) assms(3) by (auto simp: meta_at_def bind_eq_Some_conv)
  with k assms(3) show ?thesis by (auto simp: chunk_key_inject)
qed

lemma received_le_total:
  assumes "file_inv E s" "meta_at E s tid = Some m"
  shows "m_received_chunks m \<le> m_total_chunks m"
    "m_received_chunks m = m_total_chunks m \<longleftrightarrow> (\<forall>i < m_total_chunks m. chunk_at E s tid i \<noteq> None)"
proof -
  have tid: "CHR '':'' \<notin> set tid" by (rule file_id_ok [OF assms])
  have n: "unat (m_received_chunks m) = card {i. chunk_at E s tid i \<noteq> None}"
    using file_invD(5) [OF assms] chunk_count_eq [OF file_inv_disk [OF assms(1)] tid] by (simp add: meta_ok_def)
  have sub: "{i. chunk_at E s tid i \<noteq> None} \<subseteq> {i. i < m_total_chunks m}"
    using chunk_index_less [OF assms(1) _ assms(2)] by auto
  have fin: "finite {i :: u32. i < m_total_chunks m}" by simp
  show "m_received_chunks m \<le> m_total_chunks m"
    using card_mono [OF fin sub] n by (simp add: card_below word_le_nat_alt)
  have "m_received_chunks m = m_total_chunks m
      \<longleftrightarrow> {i. chunk_at E s tid i \<noteq> None} = {i. i < m_total_chunks m}"
    using card_subset_eq [OF fin sub] n by (metis card_below word_unat_eq_iff)
  also have "\<dots> \<longleftrightarrow> (\<forall>i < m_total_chunks m. chunk_at E s tid i \<noteq> None)"
    using sub by blast
  finally show "m_received_chunks m = m_total_chunks m
      \<longleftrightarrow> (\<forall>i < m_total_chunks m. chunk_at E s tid i \<noteq> None)" .
qed


lemma reserved_disk: "file_inv E s \<Longrightarrow> unat (reserved_bytes s) = disk_bytes E s"
  by (simp add: disk_bytes_def file_invD(7))

lemma stored_le_reserved:
  "file_inv E s \<Longrightarrow> meta_at E s tid = Some m \<Longrightarrow> unat (m_stored_bytes m) \<le> unat (reserved_bytes s)"
  using stored_le_disk [of s tid m] by (simp add: reserved_disk)

end

text \<open>The words of one write stay in range, because the new bytes were reserved first.\<close>

lemma write_arith:
  fixes r stored cap :: u64
  assumes "p \<le> unat stored" "unat stored \<le> unat r" "l < usize_modulus" "cap < - 1"
    "(of_nat p :: u64) < of_nat l \<Longrightarrow> sat_add r (of_nat l - of_nat p) \<le> cap"
  shows "unat (stored - of_nat p + of_nat l) = unat stored - p + l"
    "unat (charged (of_nat p) (of_nat l) r) = unat r - p + l"
    "unat stored - p + l < 2 ^ 64"
proof -
  have lim: "unat stored < 2 ^ 64" "unat r < 2 ^ 64"
    using unsigned_less [of stored, where 'a = nat] unsigned_less [of r, where 'a = nat] by simp_all
  then have p: "unat (of_nat p :: u64) = p" and l: "unat (of_nat l :: u64) = l"
    using assms(1,3) by (simp_all add: unat_of_nat usize_modulus_def)
  have lt: "(of_nat p :: u64) < of_nat l \<longleftrightarrow> p < l" by (simp add: word_less_nat_alt p l)
  have diff: "unat (of_nat l - of_nat p :: u64) = l - p" if "p < l"
    using that p l by (simp add: unat_sub word_le_nat_alt)
  have room: "unat r + (l - p) < 2 ^ 64 - 1" if "p < l"
  proof -
    have "sat_add r (of_nat l - of_nat p) < (- 1 :: u64)"
      using assms(4,5) lt that by (meson le_less_trans)
    then show ?thesis
      by (simp add: word_less_nat_alt unat_sat_add diff [OF that] unsigned_minus_1_eq_mask mask_eq_exp_minus_1)
  qed
  show nowrap: "unat stored - p + l < 2 ^ 64"
    using room assms(1,2) lim by (cases "p < l") simp_all
  have "unat (stored - of_nat p) = unat stored - p"
    using assms(1) p by (simp add: unat_sub word_le_nat_alt)
  then show "unat (stored - of_nat p + of_nat l) = unat stored - p + l"
    using nowrap l by (simp add: unat_plus_if')
  show "unat (charged (of_nat p) (of_nat l) r) = unat r - p + l"
  proof (cases "p < l")
    case True
    with room [OF True] assms(1,2) show ?thesis
      by (simp add: charged_def lt unat_sat_add diff)
  next
    case False
    then have "unat (of_nat p - of_nat l :: u64) = p - l"
      using p l by (simp add: unat_sub word_le_nat_alt)
    with False assms(1,2) show ?thesis
      by (simp add: charged_def lt unat_sat_sub)
  qed
qed

context file_backend
begin

text \<open>The cache entry after a write: the metadata that was committed.\<close>

lemma cache_advance:
  assumes inv: "file_inv E s" and tid: "CHR '':'' \<notin> set tid"
    and start: "meta_at E s tid = Some m \<or>
      meta_at E s tid = None \<and> m_stored_bytes m = 0 \<and> m_received_chunks m = 0"
    and ci: "ci < m_total_chunks m"
    and m': "m' = updated_meta (of_nat (old_len E s tid ci)) len m" and c: "cached c m"
  shows "m_received_chunks c \<le> m_received_chunks m'"
    "cached (c\<lparr>m_stored_bytes := m_stored_bytes m', m_received_chunks := m_received_chunks m'\<rparr>) m'"
proof -
  note D = file_inv_disk [OF inv]
  have "ci \<noteq> - 1" using ci by auto
  then have "m_received_chunks m \<le> m_received_chunks m + 1" if "chunk_at E s tid ci = None"
    using unat_plus_one [OF room_for_chunk [OF D tid _ _ that, of m]] start
    by (auto simp: word_le_nat_alt)
  then have "m_received_chunks m \<le> m_received_chunks m'"
    using old_len_zero_iff [OF D tid, of ci] by (auto simp: m' updated_meta_def)
  moreover have "m_received_chunks c = m_received_chunks m"
    using c unfolding cached_def by (metis file_meta.select_convs(4) file_meta.surjective file_meta.update_convs(5))
  ultimately show "m_received_chunks c \<le> m_received_chunks m'" by simp
  show "cached (c\<lparr>m_stored_bytes := m_stored_bytes m', m_received_chunks := m_received_chunks m'\<rparr>) m'"
    using c by (cases c, cases m) (auto simp: cached_def m' updated_meta_def)
qed

lemma put_effect:
  assumes inv: "file_inv E s" and tid: "CHR '':'' \<notin> set tid" and data: "data \<noteq> []"
    "length data < usize_modulus" and ci: "ci < m_total_chunks m"
    and start: "meta_at E s tid = Some m \<or>
      meta_at E s tid = None \<and> m_stored_bytes m = 0 \<and> m_received_chunks m = 0"
    and m': "m' = updated_meta (of_nat (old_len E s tid ci)) (of_nat (length data)) m"
      "m_stored_bytes m' \<le> m_total_bytes m"
    and cap: "(of_nat (old_len E s tid ci) :: u64) < of_nat (length data) \<Longrightarrow>
      sat_add (reserved_bytes s) (of_nat (length data) - of_nat (old_len E s tid ci))
        \<le> max_total_file_bytes (config s)"
    and s': "meta_table s' = t_insert (f_meta E) tid (enc (f_codec E) m') (meta_table s)"
      "chunk_table s' = t_insert (f_chunks E) (chunk_key tid ci) data (chunk_table s)"
      "reserved_bytes s' = charged (of_nat (old_len E s tid ci)) (of_nat (length data)) (reserved_bytes s)"
      "meta_cache s' = dm_insert tid e (meta_cache s)" "cached e m'"
      "transfer_count s' = transfer_count s + (if meta_at E s tid = None then 1 else 0)"
      "transfer_count s' < usize_modulus" "config s' = config s"
  shows "file_inv E s'" "meta_at E s' = (meta_at E s)(tid \<mapsto> m')"
    "chunk_at E s' = (chunk_at E s)(tid := (chunk_at E s tid)(ci \<mapsto> data))"
    "unat (reserved_bytes s') = unat (reserved_bytes s) - old_len E s tid ci + length data"
    "unat (m_stored_bytes m') = unat (m_stored_bytes m) - old_len E s tid ci + length data"
proof -
  note D = file_inv_disk [OF inv]
  let ?l = "length data"
  have "old_len E s tid ci \<le> unat (m_stored_bytes m)"
    using start old_len_le_stored [OF D, of tid m ci] no_chunk_without_meta [OF D tid, of ci]
    by (auto simp: old_len_def)
  moreover have "unat (m_stored_bytes m) \<le> unat (reserved_bytes s)"
    using start stored_le_reserved [OF inv, of tid m] by auto
  moreover have "max_total_file_bytes (config s) < - 1"
    using file_invD(1) [OF inv] by (simp add: config_ok_def)
  ultimately have arith: "unat (m_stored_bytes m') = unat (m_stored_bytes m) - old_len E s tid ci + ?l"
    "unat (reserved_bytes s') = unat (reserved_bytes s) - old_len E s tid ci + ?l"
    using write_arith [OF _ _ data(2) _ cap] by (simp_all add: m'(1) updated_meta_def s'(3))
  note P = disk_put [OF D tid data(1) _ start m' arith(1) s'(1,2)]
  have ci': "ci \<noteq> - 1" using ci by auto
  show meta: "meta_at E s' = (meta_at E s)(tid \<mapsto> m')"
    "chunk_at E s' = (chunk_at E s)(tid := (chunk_at E s tid)(ci \<mapsto> data))"
    using P(2,3) ci' by blast+
  show "unat (reserved_bytes s') = unat (reserved_bytes s) - old_len E s tid ci + ?l"
    "unat (m_stored_bytes m') = unat (m_stored_bytes m) - old_len E s tid ci + ?l"
    by (rule arith)+
  have shape: "m_total_chunks m' = m_total_chunks m" by (simp add: m'(1) updated_meta_def)
  have keys: "\<exists>t i m. k = chunk_key t i \<and> meta_at E s' t = Some m \<and> i < m_total_chunks m \<and> v \<noteq> []"
    if kv: "t_get (f_chunks E) (chunk_table s') k = Some v" for k v
  proof (cases "k = chunk_key tid ci")
    case True
    with kv have "v = data" by (simp add: s'(2) ct.get_insert)
    with True show ?thesis using meta ci shape data(1) by auto
  next
    case False
    with kv have "t_get (f_chunks E) (chunk_table s) k = Some v" by (simp add: s'(2) ct.get_insert)
    from file_invD(6) [OF inv this] obtain t i d
      where d: "k = chunk_key t i" "meta_at E s t = Some d" "i < m_total_chunks d" "v \<noteq> []" by blast
    with start shape meta show ?thesis by (cases "t = tid") auto
  qed
  show "file_inv E s'"
    unfolding file_inv_def
  proof (intro conjI allI impI)
    show "config_ok (config s')" using file_invD(1) [OF inv] by (simp add: s'(8))
    show "dm_wf (meta_cache s')" using file_invD(3) [OF inv] by (simp add: s'(4))
    show "rel_option cached (dm_get (meta_cache s') t) (meta_at E s' t)" for t
      using file_invD(4) [OF inv, of t] s'(5) by (simp add: s'(4) meta)
    show "unat (reserved_bytes s') = t_wsum (f_meta E) (stored_weight E) (meta_table s')"
      using P(4) [OF ci'] arith reserved_disk [OF inv] old_len_le_stored [OF D, of tid m ci]
        stored_le_reserved [OF inv, of tid m] start no_chunk_without_meta [OF D tid, of ci]
      by (auto simp: disk_bytes_def old_len_def)
    show "transfer_count s' = length (t_iter (f_meta E) (meta_table s'))"
      using P(5) [OF ci'] file_invD(8) [OF inv] by (simp add: s'(6) disk_rows_def)
  qed (use disk_invD(1,2) [OF P(1) [OF ci']] keys s'(7) in blast)+
qed

end

end
