(* ===== verification/FileOps.thy ===== *)
theory FileOps
  imports FileProofs
begin

text \<open>
  The operations of the file store as seen by their callers: what an accepted chunk, a
  deletion, the sweep and a restart do to the transfers and to the counters.
\<close>


section \<open>An accepted chunk\<close>

lemma store_chunk_checks:
  assumes "store_chunk E io t1 t2 tid ci tc tb data s = (s', Inr r)"
  shows "data \<noteq> []" "ci < tc" "tc \<le> max_chunks (config s)" "tb \<le> max_file_bytes (config s)"
  using assms by (auto simp: store_chunk_def not_less not_le split: if_splits)

lemma cached_eq: "cached c d \<Longrightarrow> c = d\<lparr>m_created_at_ms := m_created_at_ms c\<rparr>"
  by (cases c, cases d) (auto simp: cached_def)

context file_backend
begin

lemma store_effect:
  assumes inv: "file_inv E s" and tid: "CHR '':'' \<notin> set tid" and len: "length data < usize_modulus"
    and eq: "store_chunk E io t1 t2 tid ci tc tb data s = (s', Inr r)"
  obtains m' where "file_inv E s'" "meta_at E s' = (meta_at E s)(tid \<mapsto> m')"
    "chunk_at E s' = (chunk_at E s)(tid := (chunk_at E s tid)(ci \<mapsto> data))"
    "r = \<lparr>sc_received_chunks = m_received_chunks m', sc_total_chunks = tc\<rparr>"
    "m_total_chunks m' = tc" "m_total_bytes m' = tb"
    "m_created_at_ms m' = (case meta_at E s tid of Some m \<Rightarrow> m_created_at_ms m | None \<Rightarrow> t2)"
    "unat (reserved_bytes s') = unat (reserved_bytes s) - old_len E s tid ci + length data"
    "reserved_bytes s' \<le> max (reserved_bytes s) (max_total_file_bytes (config s))"
    "transfer_count s' \<le> max (transfer_count s) (max_transfers (config s))"
    "config s' = config s"
    "dm_get (meta_cache s') = (dm_get (meta_cache s))(tid \<mapsto> m'\<lparr>m_created_at_ms :=
       (case dm_get (meta_cache s) tid of Some c \<Rightarrow> m_created_at_ms c | None \<Rightarrow> t1)\<rparr>)"
proof -
  define prev where "prev = (of_nat (old_len E s tid ci) :: u64)"
  define l where "l = (of_nat (length data) :: u64)"
  note chk = store_chunk_checks [OF eq]
  have low: "charged prev l x \<le> max x (max_total_file_bytes (config s))"
    if "prev < l \<Longrightarrow> sat_add x (l - prev) \<le> max_total_file_bytes (config s)" for x
    using that sat_sub_le [of x "prev - l"] by (auto simp: charged_def le_max_iff_disj)
  have rel: "rel_option cached (dm_get (meta_cache s) tid) (meta_at E s tid)"
    by (rule file_invD(4) [OF inv])
  show thesis
  proof (cases "dm_get (meta_cache s) tid")
    case (Some c)
    then obtain d where d: "meta_at E s tid = Some d" "cached c d"
      using rel by (auto simp: option_rel_Some1)
    have shape: "m_total_chunks d = m_total_chunks c" "m_total_bytes d = m_total_bytes c"
      using d(2) by (cases c, cases d, auto simp: cached_def)+
    have tc: "m_total_chunks c = tc" "m_total_bytes c = tb"
      and w: "write_chunk E io t2 tid ci tc tb data l False s = (s', Inr r)"
      using eq Some by (auto simp: store_chunk_def Let_def l_def split: if_splits)
    obtain m m' e where m: "start_meta E t2 tid tc tb False s = Some m"
      "m' = updated_meta prev l m" "m_stored_bytes m' \<le> m_total_bytes m"
      "prev < l \<Longrightarrow> sat_add (reserved_bytes s) (l - prev) \<le> max_total_file_bytes (config s)"
      and s': "s' = s\<lparr>meta_table := t_insert (f_meta E) tid (enc (f_codec E) m') (meta_table s),
            chunk_table := t_insert (f_chunks E) (chunk_key tid ci) data (chunk_table s),
            reserved_bytes := charged prev l (reserved_bytes s),
            meta_cache := dm_insert tid e (meta_cache s)\<rparr>"
      and r: "r = \<lparr>sc_received_chunks = m_received_chunks m', sc_total_chunks = tc\<rparr>"
      and e: "e = (let c = (case dm_get (meta_cache s) tid of
                     Some c \<Rightarrow> c
                   | None \<Rightarrow> \<lparr>m_total_chunks = tc, m_total_bytes = tb,
                       m_stored_bytes = m_stored_bytes m', m_received_chunks = m_received_chunks m',
                       m_created_at_ms = m_created_at_ms m'\<rparr>)
          in if m_received_chunks m' \<ge> m_received_chunks c
             then c\<lparr>m_stored_bytes := m_stored_bytes m', m_received_chunks := m_received_chunks m'\<rparr>
             else c)"
      by (rule write_chunk_Inr [OF w, folded prev_def]) blast
    have "m = d" using m(1) d(1) by (simp add: start_meta_def)
    then have start: "meta_at E s tid = Some m \<or>
        meta_at E s tid = None \<and> m_stored_bytes m = 0 \<and> m_received_chunks m = 0"
      and ci: "ci < m_total_chunks m" and cm: "cached c m"
      using d chk(2) tc shape by auto
    have ce: "cached e m'"
      using cache_advance [OF inv tid start ci m(2) [unfolded prev_def] cm] by (simp add: e Some Let_def)
    note P = put_effect [OF inv tid chk(1) len ci start m(2) [unfolded prev_def l_def] m(3)
        m(4) [unfolded prev_def l_def], of s' e]
    have "file_inv E s' \<and> meta_at E s' = (meta_at E s)(tid \<mapsto> m')
      \<and> chunk_at E s' = (chunk_at E s)(tid := (chunk_at E s tid)(ci \<mapsto> data))
      \<and> unat (reserved_bytes s') = unat (reserved_bytes s) - old_len E s tid ci + length data"
      using ce d(1) file_invD(9) [OF inv] by (intro conjI; intro P) (simp_all add: s' prev_def l_def)
    moreover have "e = m'\<lparr>m_created_at_ms := m_created_at_ms c\<rparr>"
      using cached_eq [OF ce] by (simp add: e Some Let_def split: if_splits)
    ultimately show thesis
      using r tc shape \<open>m = d\<close> d(1) low [OF m(4)] Some
      by (intro that [of m']) (auto simp: m(2) updated_meta_def s')
  next
    case None
    then have new: "meta_at E s tid = None" using rel by simp
    define s0 where "s0 = s\<lparr>meta_cache := dm_insert tid \<lparr>m_total_chunks = tc, m_total_bytes = tb,
      m_stored_bytes = 0, m_received_chunks = 0, m_created_at_ms = t1\<rparr> (meta_cache s),
      transfer_count := usize_add (transfer_count s) 1\<rparr>"
    have cnt: "transfer_count s < max_transfers (config s)"
      and w: "write_chunk E io t2 tid ci tc tb data l True s0 = (s', Inr r)"
      using eq None by (auto simp: store_chunk_def Let_def l_def s0_def reserve_slot_def
          split: if_splits sum.splits prod.splits)
    have old0: "old_len E s0 tid ci = old_len E s tid ci" by (simp add: old_len_def chunk_at_def s0_def)
    obtain m m' e where m: "start_meta E t2 tid tc tb True s0 = Some m"
      "m' = updated_meta prev l m" "m_stored_bytes m' \<le> m_total_bytes m"
      "prev < l \<Longrightarrow> sat_add (reserved_bytes s0) (l - prev) \<le> max_total_file_bytes (config s0)"
      and s': "s' = s0\<lparr>meta_table := t_insert (f_meta E) tid (enc (f_codec E) m') (meta_table s0),
            chunk_table := t_insert (f_chunks E) (chunk_key tid ci) data (chunk_table s0),
            reserved_bytes := charged prev l (reserved_bytes s0),
            meta_cache := dm_insert tid e (meta_cache s0)\<rparr>"
      and r: "r = \<lparr>sc_received_chunks = m_received_chunks m', sc_total_chunks = tc\<rparr>"
      and e: "e = (let c = (case dm_get (meta_cache s0) tid of
                     Some c \<Rightarrow> c
                   | None \<Rightarrow> \<lparr>m_total_chunks = tc, m_total_bytes = tb,
                       m_stored_bytes = m_stored_bytes m', m_received_chunks = m_received_chunks m',
                       m_created_at_ms = m_created_at_ms m'\<rparr>)
          in if m_received_chunks m' \<ge> m_received_chunks c
             then c\<lparr>m_stored_bytes := m_stored_bytes m', m_received_chunks := m_received_chunks m'\<rparr>
             else c)"
      by (rule write_chunk_Inr [OF w, unfolded old0, folded prev_def]) blast
    have cap: "prev < l \<Longrightarrow> sat_add (reserved_bytes s) (l - prev) \<le> max_total_file_bytes (config s)"
      using m(4) by (simp add: s0_def)
    have m_eq: "m = \<lparr>m_total_chunks = tc, m_total_bytes = tb, m_stored_bytes = 0,
        m_received_chunks = 0, m_created_at_ms = t2\<rparr>"
      using m(1) by (simp add: start_meta_def)
    then have start: "meta_at E s tid = Some m \<or>
        meta_at E s tid = None \<and> m_stored_bytes m = 0 \<and> m_received_chunks m = 0"
      and ci: "ci < m_total_chunks m"
      and cm: "cached \<lparr>m_total_chunks = tc, m_total_bytes = tb,
             m_stored_bytes = 0, m_received_chunks = 0, m_created_at_ms = t1\<rparr> m"
      using new chk(2) by (auto simp: cached_def)
    have ce: "cached e m'"
      using cache_advance [OF inv tid start ci m(2) [unfolded prev_def] cm] by (simp add: e s0_def Let_def)
    note P = put_effect [OF inv tid chk(1) len ci start m(2) [unfolded prev_def l_def] m(3)
        cap [unfolded prev_def l_def], of s' e]
    have u: "usize_add (transfer_count s) (Suc 0) = Suc (transfer_count s)"
      "Suc (transfer_count s) < usize_modulus"
      using cnt file_invD(1) [OF inv] by (auto simp: config_ok_def usize_add_def)
    have mc: "dm_insert tid e (meta_cache s0) = dm_insert tid e (meta_cache s)"
      by (simp add: s0_def update_last)
    have "file_inv E s' \<and> meta_at E s' = (meta_at E s)(tid \<mapsto> m')
      \<and> chunk_at E s' = (chunk_at E s)(tid := (chunk_at E s tid)(ci \<mapsto> data))
      \<and> unat (reserved_bytes s') = unat (reserved_bytes s) - old_len E s tid ci + length data"
      using ce new u mc by (intro conjI; intro P) (simp_all add: s' prev_def l_def, simp_all add: s0_def)
    moreover have "e = m'\<lparr>m_created_at_ms := t1\<rparr>"
      using cached_eq [OF ce] by (simp add: e s0_def Let_def)
    ultimately show thesis
      using r new low [OF cap] cnt u None
      by (intro that [of m']) (auto simp: m(2) m_eq updated_meta_def s' s0_def)
  qed
qed


section \<open>Deletion\<close>

lemma count_pos:
  assumes "file_inv E s" "meta_at E s tid \<noteq> None"
  shows "0 < transfer_count s"
proof -
  have "t_get (f_meta E) (meta_table s) tid \<noteq> None"
    using stored_row [OF file_inv_disk [OF assms(1)]] assms(2) by simp
  then show ?thesis
    using file_invD(8) [OF assms(1)] mt.iter_Nil_iff [of "meta_table s"] by (metis length_greater_0_conv)
qed

lemma delete_effect:
  assumes inv: "file_inv E s" and tid: "CHR '':'' \<notin> set tid"
    and eq: "delete_transfer E io tid s = (s', Some b)"
  shows "file_inv E s'" "meta_at E s' = (meta_at E s)(tid := None)"
    "chunk_at E s' = (chunk_at E s)(tid := Map.empty)" "b \<longleftrightarrow> meta_at E s tid \<noteq> None"
    "unat (reserved_bytes s') = unat (reserved_bytes s) -
       (case meta_at E s tid of Some m \<Rightarrow> unat (m_stored_bytes m) | None \<Rightarrow> 0)"
    "transfer_count s' = transfer_count s - (if meta_at E s tid = None then 0 else 1)"
    "config s' = config s" "meta_cache s' = dm_remove tid (meta_cache s)"
proof -
  let ?T = "f_meta E" and ?C = "f_chunks E"
  define stored where "stored = (case meta_at E s tid of Some m \<Rightarrow> m_stored_bytes m | None \<Rightarrow> 0)"
  have some: "t_get ?T (meta_table s) tid \<noteq> None \<longleftrightarrow> meta_at E s tid \<noteq> None"
    using file_invD(2) [OF inv, of tid] by (auto simp: meta_at_def split: Option.bind_splits)
  have st: "(case t_get ?T (meta_table s) tid of
      Some v \<Rightarrow> (case dec (f_codec E) v of Some meta \<Rightarrow> m_stored_bytes meta | None \<Rightarrow> 0)
    | None \<Rightarrow> 0) = stored"
    by (auto simp: stored_def meta_at_def split: option.splits)
  note cnt = count_pos [OF inv, of tid]
  have none: "meta_at E s tid = None \<Longrightarrow> dm_remove tid (meta_cache s) = meta_cache s"
    using file_invD(4) [OF inv, of tid] by (intro dm_remove_absent) simp
  have s': "meta_table s' = t_remove ?T tid (meta_table s)"
    "chunk_table s' = t_remove_all ?C (map fst (t_range ?C (tid @ '':'') (tid @ '';'') (chunk_table s)))
       (chunk_table s)"
    "reserved_bytes s' = sat_sub (reserved_bytes s) stored"
    "transfer_count s' = transfer_count s - (if meta_at E s tid = None then 0 else 1)"
    "meta_cache s' = dm_remove tid (meta_cache s)" "config s' = config s"
    "b \<longleftrightarrow> meta_at E s tid \<noteq> None"
    using eq some cnt none file_invD(9) [OF inv]
    by (auto simp: delete_transfer_def chunk_bounds_def st Let_def release_bytes_def release_slot_def
        usize_simps stored_def sat_sub_def split: if_splits)
  show "b \<longleftrightarrow> meta_at E s tid \<noteq> None" "config s' = config s"
    "transfer_count s' = transfer_count s - (if meta_at E s tid = None then 0 else 1)"
    "meta_cache s' = dm_remove tid (meta_cache s)" by fact+
  show res: "unat (reserved_bytes s') = unat (reserved_bytes s) -
       (case meta_at E s tid of Some m \<Rightarrow> unat (m_stored_bytes m) | None \<Rightarrow> 0)"
    by (simp add: s'(3) unat_sat_sub stored_def split: option.splits)
  note D = disk_delete [OF file_inv_disk [OF inv] tid s'(1,2)]
  show meta: "meta_at E s' = (meta_at E s)(tid := None)"
    "chunk_at E s' = (chunk_at E s)(tid := Map.empty)" by (rule D(2,3))+
  show "file_inv E s'"
    unfolding file_inv_def
  proof (intro conjI allI impI)
    show "rel_option cached (dm_get (meta_cache s') t) (meta_at E s' t)" for t
      using file_invD(4) [OF inv, of t] by (simp add: s'(5) meta)
    show "\<exists>t i m. k = chunk_key t i \<and> meta_at E s' t = Some m \<and> i < m_total_chunks m \<and> v \<noteq> []"
      if kv: "t_get ?C (chunk_table s') k = Some v" for k v
    proof -
      have k: "\<not> prefix (tid @ '':'') k" "t_get ?C (chunk_table s) k = Some v"
        using kv by (auto simp: s'(2) ct.get_remove_range split: if_splits)
      from file_invD(6) [OF inv k(2)] obtain t i m where t: "k = chunk_key t i"
        "meta_at E s t = Some m" "i < m_total_chunks m" "v \<noteq> []" by blast
      with k(1) have "t \<noteq> tid" by auto
      with t meta show ?thesis by auto
    qed
    show "unat (reserved_bytes s') = t_wsum ?T (stored_weight E) (meta_table s')"
      using D(4) reserved_disk [OF inv] res by (simp add: disk_bytes_def split: option.splits)
    show "transfer_count s' = length (t_iter ?T (meta_table s'))"
      using D(5) file_invD(8) [OF inv] by (simp add: s'(4) disk_rows_def split: if_splits)
  qed (use file_invD(1,3,9) [OF inv] disk_invD(1,2) [OF D(1)] s' in auto)
qed

lemma delete_fail: "delete_transfer E io tid s = (s', None) \<Longrightarrow> s' = s"
  by (auto simp: delete_transfer_def Let_def split: if_splits prod.splits)

lemma delete_inv:
  "file_inv E s \<Longrightarrow> CHR '':'' \<notin> set tid \<Longrightarrow> file_inv E (fst (delete_transfer E io tid s))"
  by (cases "delete_transfer E io tid s"; cases "snd (delete_transfer E io tid s)")
    (auto intro: delete_effect(1) dest: delete_fail)


section \<open>The sweep\<close>

lemma cached_id_ok:
  assumes "file_inv E s" "dm_get (meta_cache s) tid = Some c"
  shows "CHR '':'' \<notin> set tid"
  using file_invD(2,4) [OF assms(1), of tid] assms(2)
  by (auto simp: option_rel_Some1 meta_at_def bind_eq_Some_conv)

lemma delete_all_effect:
  assumes "file_inv E s" "delete_all E io ids n s = (s', Some k)"
    "\<And>t. t \<in> set ids \<Longrightarrow> CHR '':'' \<notin> set t"
  shows "file_inv E s' \<and> meta_at E s' = (\<lambda>t. if t \<in> set ids then None else meta_at E s t)
    \<and> chunk_at E s' = (\<lambda>t. if t \<in> set ids then Map.empty else chunk_at E s t) \<and> config s' = config s"
  using assms
proof (induction ids arbitrary: n s)
  case (Cons i ids)
  obtain s1 r where d: "delete_transfer E (io i) i s = (s1, r)" by force
  with Cons.prems(2) obtain b where r: "r = Some b" by (cases r) auto
  have i: "CHR '':'' \<notin> set i" using Cons.prems(3) by simp
  note D = delete_effect [OF Cons.prems(1) i d [unfolded r]]
  from Cons.prems(2,3) d r have "delete_all E io ids (if b then usize_add n 1 else n) s1 = (s', Some k)"
    "\<And>t. t \<in> set ids \<Longrightarrow> CHR '':'' \<notin> set t" by simp_all
  from Cons.IH [OF D(1) this] D(2,3,7) show ?case by (auto simp: fun_eq_iff)
qed simp

lemma delete_all_inv:
  "file_inv E s \<Longrightarrow> (\<And>t. t \<in> set ids \<Longrightarrow> CHR '':'' \<notin> set t) \<Longrightarrow> file_inv E (fst (delete_all E io ids n s))"
proof (induction ids arbitrary: n s)
  case (Cons i ids)
  have "CHR '':'' \<notin> set i" using Cons.prems(2) by simp
  from delete_inv [OF Cons.prems(1) this, of "io i"] Cons show ?case
    by (auto split: prod.splits option.splits)
qed simp

lemma delete_returns: "write_ok io \<Longrightarrow> snd (delete_transfer E io tid s) \<noteq> None"
  by (auto simp: delete_transfer_def Let_def split: prod.splits)

lemma delete_all_returns:
  "(\<And>t. t \<in> set ids \<Longrightarrow> write_ok (io t)) \<Longrightarrow> snd (delete_all E io ids n s) \<noteq> None"
proof (induction ids arbitrary: n s)
  case (Cons i ids)
  then show ?case by (auto simp: delete_transfer_def Let_def split: prod.splits option.splits if_splits)
qed simp

lemma sweep_files_effect:
  assumes inv: "file_inv E s" and eq: "sweep_expired_files E io now s = (s', Some k)"
  defines "gone \<equiv> \<lambda>t. \<exists>c. dm_get (meta_cache s) t = Some c \<and> transfer_expired (config s) now c"
  shows "file_inv E s'" "meta_at E s' = (\<lambda>t. if gone t then None else meta_at E s t)"
    "chunk_at E s' = (\<lambda>t. if gone t then Map.empty else chunk_at E s t)" "config s' = config s"
proof -
  let ?ids = "map fst (filter (\<lambda>(k, m). transfer_expired (config s) now m) (meta_cache s))"
  have mem: "t \<in> set ?ids \<longleftrightarrow> gone t" for t
    using file_invD(3) [OF inv] by (force simp: gone_def image_iff dm_get_set [symmetric])
  have "\<And>t. t \<in> set ?ids \<Longrightarrow> CHR '':'' \<notin> set t"
    using mem cached_id_ok [OF inv] by (auto simp: gone_def)
  from delete_all_effect [OF inv eq [unfolded sweep_expired_files_def] this]
  show "file_inv E s'" "meta_at E s' = (\<lambda>t. if gone t then None else meta_at E s t)"
    "chunk_at E s' = (\<lambda>t. if gone t then Map.empty else chunk_at E s t)" "config s' = config s"
    unfolding mem by simp_all
qed

end

end
