(* ===== verification/FileRuns.thy ===== *)
theory FileRuns
  imports FileOps QueueProps
begin

text \<open>
  The scan that reopens the file store, and the contract of the store over whole runs: the
  locale \<open>chunk_keeper\<close> says how one step may change a chunk, its lemma follows a chunk through
  any sequence of operations, and the interpretation discharges its laws for the store.
\<close>


section \<open>Reopening\<close>

context file_backend
begin

lemma scan_meta_fold:
  assumes "\<And>k b. (k, b) \<in> set es \<Longrightarrow> dec (f_codec E) b \<noteq> None" "distinct (map fst es)"
    "unat r + sum_list (map (\<lambda>(k, b). stored_weight E k b) es) < 2 ^ 64"
    "n + length es < usize_modulus" "dm_wf cache"
  shows "\<exists>r' cache'. fold (scan_meta_entry E) es (r, n, cache) = (r', n + length es, cache')
    \<and> unat r' = unat r + sum_list (map (\<lambda>(k, b). stored_weight E k b) es) \<and> dm_wf cache'
    \<and> (\<forall>k. dm_get cache' k = (case map_of es k of Some b \<Rightarrow> dec (f_codec E) b | None \<Rightarrow> dm_get cache k))"
  using assms
proof (induction es arbitrary: r n cache)
  case (Cons e es)
  obtain k b where e: "e = (k, b)" by force
  obtain m where m: "dec (f_codec E) b = Some m" using Cons.prems(1) [of k b] e by auto
  have w: "stored_weight E k b = unat (m_stored_bytes m)" by (simp add: stored_weight_def m)
  have r: "unat (sat_add r (m_stored_bytes m)) = unat r + unat (m_stored_bytes m)"
    using Cons.prems(3) e w by (simp add: unat_sat_add)
  have step: "scan_meta_entry E e (r, n, cache)
      = (sat_add r (m_stored_bytes m), n + 1, dm_insert k m cache)"
    using Cons.prems(4) e m by (simp add: usize_simps)
  have "\<exists>r' cache'. fold (scan_meta_entry E) es (sat_add r (m_stored_bytes m), n + 1, dm_insert k m cache)
      = (r', n + 1 + length es, cache')
    \<and> unat r' = unat (sat_add r (m_stored_bytes m)) + sum_list (map (\<lambda>(k, b). stored_weight E k b) es)
    \<and> dm_wf cache' \<and> (\<forall>j. dm_get cache' j = (case map_of es j of Some b \<Rightarrow> dec (f_codec E) b
        | None \<Rightarrow> dm_get (dm_insert k m cache) j))"
    by (rule Cons.IH) (use Cons.prems e r w in auto)
  moreover have "map_of es k = None" using Cons.prems(2) e by (simp add: map_of_eq_None_iff)
  ultimately show ?case
    using step r w m by (fastforce simp: e simp del: scan_meta_entry.simps split: option.splits)
qed auto

lemma file_reopen_effect:
  assumes inv: "file_inv E s" and cfg: "config_ok cfg"
    and eq: "file_new E io (meta_table s) (chunk_table s) cfg = Some s'"
  shows "file_inv E s'" "meta_at E s' = meta_at E s" "chunk_at E s' = chunk_at E s"
    "reserved_bytes s' = reserved_bytes s" "transfer_count s' = transfer_count s" "config s' = cfg"
    "dm_get (meta_cache s') = meta_at E s"
proof -
  let ?es = "t_iter (f_meta E) (meta_table s)"
  have total: "sum_list (map (\<lambda>(k, b). stored_weight E k b) ?es) = unat (reserved_bytes s)"
    using file_invD(7) [OF inv] by (simp add: t_wsum_def)
  have "\<exists>r' cache'. fold (scan_meta_entry E) ?es (0, 0, []) = (r', 0 + length ?es, cache')
    \<and> unat r' = unat (0 :: u64) + sum_list (map (\<lambda>(k, b). stored_weight E k b) ?es) \<and> dm_wf cache'
    \<and> (\<forall>k. dm_get cache' k = (case map_of ?es k of Some b \<Rightarrow> dec (f_codec E) b | None \<Rightarrow> dm_get [] k))"
    using file_invD(2,8,9) [OF inv] mt.distinct_iter unsigned_less [of "reserved_bytes s", where 'a = nat]
    by (intro scan_meta_fold) (auto simp: mt.in_iter_iff total)
  moreover have bind: "(case t_get (f_meta E) (meta_table s) k of Some b \<Rightarrow> dec (f_codec E) b
      | None \<Rightarrow> dm_get [] k) = meta_at E s k" for k
    by (simp add: meta_at_def split: option.splits)
  ultimately obtain cache where c: "fold (scan_meta_entry E) ?es (0, 0, [])
      = (reserved_bytes s, transfer_count s, cache)" "dm_wf cache"
    "\<And>k. dm_get cache k = meta_at E s k"
    unfolding total mt.iter_get bind using file_invD(8) [OF inv]
    by (auto simp: word_unat_eq_iff)
  have s': "s' = \<lparr>meta_table = meta_table s, chunk_table = chunk_table s, config = cfg,
      meta_cache = cache, reserved_bytes = reserved_bytes s, transfer_count = transfer_count s\<rparr>"
    using eq c(1) by (auto simp: file_new_def split: if_splits)
  then show same: "meta_at E s' = meta_at E s" "chunk_at E s' = chunk_at E s"
    "reserved_bytes s' = reserved_bytes s" "transfer_count s' = transfer_count s" "config s' = cfg"
    "dm_get (meta_cache s') = meta_at E s"
    using c(3) by (auto simp: meta_at_def chunk_at_def fun_eq_iff)
  have "rel_option cached (dm_get cache t) (meta_at E s t)" for t
    unfolding c(3) by (rule option.rel_refl) (simp add: cached_def)
  then show "file_inv E s'"
    using inv cfg c(2) same unfolding file_inv_def by (simp add: s')
qed

lemma file_open_empty:
  assumes "file_new E io (t_empty (f_meta E)) (t_empty (f_chunks E)) cfg = Some s" "config_ok cfg"
  shows "file_inv E s" "meta_at E s tid = None" "reserved_bytes s = 0" "transfer_count s = 0"
    "config s = cfg"
proof -
  have it: "t_iter (f_meta E) (t_empty (f_meta E)) = []"
    by (simp add: mt.iter_Nil_iff mt.get_empty)
  have s: "s = \<lparr>meta_table = t_empty (f_meta E), chunk_table = t_empty (f_chunks E), config = cfg,
      meta_cache = [], reserved_bytes = 0, transfer_count = 0\<rparr>"
    using assms(1) it by (auto simp: file_new_def split: if_splits)
  show "file_inv E s"
    using assms(2) it
    by (simp add: s file_inv_def meta_at_def mt.get_empty ct.get_empty mt.wsum_empty usize_modulus_def)
  show "meta_at E s tid = None" "reserved_bytes s = 0" "transfer_count s = 0" "config s = cfg"
    by (simp_all add: s meta_at_def mt.get_empty)
qed

end


section \<open>Runs\<close>

datatype file_op =
    FStore chunk_io u64 u64 string u32 u32 u64 bytes
  | FDelete io string
  | FSweep "string \<Rightarrow> io" u64
  | FReopen io

fun file_step :: "('m, 'b, 'c) file_env \<Rightarrow> file_op \<Rightarrow> ('m, 'c) file_store \<Rightarrow> ('m, 'c) file_store" where
  "file_step E (FStore io t1 t2 tid ci tc tb data) s = fst (store_chunk E io t1 t2 tid ci tc tb data s)"
| "file_step E (FDelete io tid) s = fst (delete_transfer E io tid s)"
| "file_step E (FSweep io now) s = fst (sweep_expired_files E io now s)"
| "file_step E (FReopen io) s =
     (case file_new E io (meta_table s) (chunk_table s) (config s) of Some s' \<Rightarrow> s' | None \<Rightarrow> s)"

fun file_op_ok :: "file_op \<Rightarrow> bool" where
  "file_op_ok (FStore io t1 t2 tid ci tc tb data) \<longleftrightarrow>
     CHR '':'' \<notin> set tid \<and> length data < usize_modulus"
| "file_op_ok (FDelete io tid) \<longleftrightarrow> CHR '':'' \<notin> set tid"
| "file_op_ok (FSweep io now) \<longleftrightarrow> True"
| "file_op_ok (FReopen io) \<longleftrightarrow> True"

text \<open>
  An operation that spares the chunk \<open>v\<close> at index \<open>i\<close> of a transfer created no earlier than
  \<open>born\<close>: no deletion of the transfer, no other bytes for the index, and no sweep after the
  shorter of the two expiry windows.
\<close>

fun file_spares :: "file_config \<Rightarrow> u64 \<Rightarrow> string \<Rightarrow> u32 \<Rightarrow> bytes \<Rightarrow> file_op \<Rightarrow> bool" where
  "file_spares cfg born tid i v (FStore io t1 t2 tid' ci tc tb data) \<longleftrightarrow>
     tid' = tid \<and> ci = i \<longrightarrow> data = v"
| "file_spares cfg born tid i v (FDelete io tid') \<longleftrightarrow> tid' \<noteq> tid"
| "file_spares cfg born tid i v (FSweep io now) \<longleftrightarrow>
     unat now \<le> unat born + unat (min INCOMPLETE_FILE_TTL_MS (file_ttl_ms cfg))"
| "file_spares cfg born tid i v (FReopen io) \<longleftrightarrow> True"

locale chunk_keeper =
  fixes inv :: "'s \<Rightarrow> bool" and holds :: "'s \<Rightarrow> u64 \<Rightarrow> string \<Rightarrow> u32 \<Rightarrow> bytes \<Rightarrow> u32 \<times> u64 \<Rightarrow> bool"
    and cfg :: "'s \<Rightarrow> file_config" and step :: "file_op \<Rightarrow> 's \<Rightarrow> 's"
  assumes step_inv: "inv s \<Longrightarrow> file_op_ok op \<Longrightarrow> inv (step op s)"
    and step_cfg: "inv s \<Longrightarrow> file_op_ok op \<Longrightarrow> cfg (step op s) = cfg s"
    and step_holds: "inv s \<Longrightarrow> file_op_ok op \<Longrightarrow> holds s born tid i v shape \<Longrightarrow>
      file_spares (cfg s) born tid i v op \<Longrightarrow> holds (step op s) born tid i v shape"
begin

lemma run_keeps:
  assumes "inv s" "list_all file_op_ok ops" "holds s born tid i v shape"
    "list_all (file_spares (cfg s) born tid i v) ops"
  shows "inv (run step ops s) \<and> holds (run step ops s) born tid i v shape"
  using assms by (induction ops arbitrary: s) (auto simp: step_inv step_holds step_cfg)

end


definition chunk_held ::
    "('m, 'b, 'c) file_env \<Rightarrow> ('m, 'c) file_store \<Rightarrow> u64 \<Rightarrow> string \<Rightarrow> u32 \<Rightarrow> bytes \<Rightarrow> u32 \<times> u64 \<Rightarrow> bool"
where
  "chunk_held E s born tid i v shape \<longleftrightarrow>
     chunk_at E s tid i = Some v \<and>
     (\<exists>c d. dm_get (meta_cache s) tid = Some c \<and> meta_at E s tid = Some d \<and>
        born \<le> m_created_at_ms c \<and> born \<le> m_created_at_ms d \<and>
        (m_total_chunks d, m_total_bytes d) = shape)"

lemma not_expired:
  assumes "unat now \<le> unat born + unat (min INCOMPLETE_FILE_TTL_MS (file_ttl_ms cfg))"
    "born \<le> m_created_at_ms c"
  shows "\<not> transfer_expired cfg now c"
proof -
  have "unat (min INCOMPLETE_FILE_TTL_MS (file_ttl_ms cfg)) \<le> unat (file_ttl_ms cfg)"
    using min.cobounded2 word_le_nat_alt by blast
  then show ?thesis
    using assms by (auto simp: transfer_expired_def Let_def sat_sub_less_iff word_le_nat_alt)
qed

context file_backend
begin

lemma store_keeps:
  assumes inv: "file_inv E s" and ok: "CHR '':'' \<notin> set t" "length data < usize_modulus"
    and held: "chunk_held E s born tid i v shape" and spare: "t = tid \<and> ci = i \<Longrightarrow> data = v"
    and eq: "store_chunk E io t1 t2 t ci tc tb data s = (s', Inr r)"
  shows "chunk_held E s' born tid i v shape"
proof -
  obtain c d where cd: "dm_get (meta_cache s) tid = Some c" "meta_at E s tid = Some d"
    "born \<le> m_created_at_ms c" "born \<le> m_created_at_ms d" "(m_total_chunks d, m_total_bytes d) = shape"
    and v: "chunk_at E s tid i = Some v"
    using held by (auto simp: chunk_held_def)
  show ?thesis
  proof (cases "t = tid")
    case True
    have "cached c d" using file_invD(4) [OF inv, of tid] cd by simp
    then have "m_total_chunks d = m_total_chunks c" "m_total_bytes d = m_total_bytes c"
      by (cases c, cases d, auto simp: cached_def)+
    moreover have "m_total_chunks c = tc" "m_total_bytes c = tb"
      using eq cd(1) True by (auto simp: store_chunk_def Let_def split: if_splits)
    ultimately show ?thesis
      by - (rule store_effect [OF inv ok eq], use True cd v spare in \<open>auto simp: chunk_held_def\<close>)
  next
    case False
    show ?thesis
      by (rule store_effect [OF inv ok eq]) (use False cd v in \<open>auto simp: chunk_held_def\<close>)
  qed
qed

lemma sweep_inv: "file_inv E s \<Longrightarrow> file_inv E (fst (sweep_expired_files E io now s))"
  unfolding sweep_expired_files_def
  by (rule delete_all_inv)
    (auto simp: file_invD(3) dm_get_set cached_id_ok)

lemma delete_cfg: "config (fst (delete_transfer E io tid s)) = config s"
  by (auto simp: delete_transfer_def Let_def release_bytes_def release_slot_def split: prod.splits)

lemma delete_all_cfg: "config (fst (delete_all E io ids n s)) = config s"
proof (induction ids arbitrary: n s)
  case (Cons i ids)
  then show ?case using delete_cfg [of "io i" i s] by (auto split: prod.splits option.splits)
qed simp

lemma delete_keeps:
  assumes "file_inv E s" "CHR '':'' \<notin> set t" "t \<noteq> tid" "chunk_held E s born tid i v shape"
  shows "chunk_held E (fst (delete_transfer E io t s)) born tid i v shape"
proof (cases "snd (delete_transfer E io t s)")
  case None
  then show ?thesis using delete_fail assms(4) by (metis prod.collapse)
next
  case (Some b)
  then have "delete_transfer E io t s = (fst (delete_transfer E io t s), Some b)"
    by (metis prod.collapse)
  from delete_effect(2,3,8) [OF assms(1,2) this] assms(3,4) show ?thesis
    by (auto simp: chunk_held_def)
qed

lemma delete_all_keeps:
  assumes "file_inv E s" "\<And>t. t \<in> set ids \<Longrightarrow> CHR '':'' \<notin> set t" "tid \<notin> set ids"
    "chunk_held E s born tid i v shape"
  shows "chunk_held E (fst (delete_all E io ids n s)) born tid i v shape"
  using assms
proof (induction ids arbitrary: n s)
  case (Cons t ids)
  have t: "CHR '':'' \<notin> set t" "t \<noteq> tid" using Cons.prems(2,3) by auto
  from delete_keeps [OF Cons.prems(1) t Cons.prems(4), of "io t"]
    delete_inv [OF Cons.prems(1) t(1), of "io t"] Cons show ?case
    by (auto split: prod.splits option.splits)
qed simp

lemma file_step_inv:
  assumes "file_inv E s" "file_op_ok op"
  shows "file_inv E (file_step E op s)" "config (file_step E op s) = config s"
proof -
  have "file_inv E (file_step E op s) \<and> config (file_step E op s) = config s"
  proof (cases op)
    case (FStore io t1 t2 tid ci tc tb data)
    obtain s' r where eq: "store_chunk E io t1 t2 tid ci tc tb data s = (s', r)" by force
    show ?thesis
    proof (cases r)
      case (Inl e)
      with store_chunk_reject [OF assms(1) eq [unfolded Inl]] eq assms FStore show ?thesis by simp
    next
      case (Inr x)
      with eq assms FStore show ?thesis
        by (auto elim: store_effect [OF assms(1) _ _ eq [unfolded Inr]])
    qed
  next
    case (FDelete io tid)
    with assms show ?thesis by (simp add: delete_inv delete_cfg)
  next
    case (FSweep io now)
    with assms show ?thesis by (simp add: sweep_inv) (simp add: sweep_expired_files_def delete_all_cfg)
  next
    case (FReopen io)
    with assms file_reopen_effect(1,6) [OF assms(1) file_invD(1) [OF assms(1)]] show ?thesis
      by (auto split: option.splits)
  qed
  then show "file_inv E (file_step E op s)" "config (file_step E op s) = config s" by simp_all
qed

lemma file_step_keeps:
  assumes inv: "file_inv E s" and ok: "file_op_ok op" and held: "chunk_held E s born tid i v shape"
    and spare: "file_spares (config s) born tid i v op"
  shows "chunk_held E (file_step E op s) born tid i v shape"
proof (cases op)
  case (FStore io t1 t2 t ci tc tb data)
  obtain s' r where eq: "store_chunk E io t1 t2 t ci tc tb data s = (s', r)" by force
  show ?thesis
  proof (cases r)
    case (Inl e)
    with store_chunk_reject [OF inv eq [unfolded Inl]] eq held FStore show ?thesis by simp
  next
    case (Inr x)
    with eq ok spare FStore show ?thesis
      using store_keeps [OF inv _ _ held _ eq [unfolded Inr]] by simp
  qed
next
  case (FDelete io t)
  with ok spare delete_keeps [OF inv _ _ held] show ?thesis by simp
next
  case (FSweep io now)
  obtain c where c: "dm_get (meta_cache s) tid = Some c" "born \<le> m_created_at_ms c"
    using held by (auto simp: chunk_held_def)
  have wf: "dm_wf (meta_cache s)" by (rule file_invD(3) [OF inv])
  have "\<not> transfer_expired (config s) now c" using spare FSweep not_expired [OF _ c(2)] by simp
  then have "tid \<notin> set (map fst (filter (\<lambda>(k, m). transfer_expired (config s) now m) (meta_cache s)))"
    using wf c(1) by (auto simp: dm_get_set)
  then show ?thesis
    unfolding FSweep file_step.simps sweep_expired_files_def
    by (intro delete_all_keeps [OF inv _ _ held]) (auto simp: dm_get_set [OF wf] cached_id_ok [OF inv])
next
  case (FReopen io)
  with held file_reopen_effect(2,3,7) [OF inv file_invD(1) [OF inv], of io] show ?thesis
    by (auto simp: chunk_held_def split: option.splits)
qed

end

text \<open>The caps, which every operation keeps.\<close>

definition file_caps :: "('m, 'c) file_store \<Rightarrow> bool" where
  "file_caps s \<longleftrightarrow> reserved_bytes s \<le> max_total_file_bytes (config s) \<and>
     transfer_count s \<le> max_transfers (config s)"

context file_backend
begin

lemma delete_caps:
  assumes "file_inv E s" "CHR '':'' \<notin> set t" "file_caps s"
  shows "file_caps (fst (delete_transfer E io t s))"
proof (cases "snd (delete_transfer E io t s)")
  case None
  then show ?thesis using delete_fail assms(3) by (metis prod.collapse)
next
  case (Some b)
  then have eq: "delete_transfer E io t s = (fst (delete_transfer E io t s), Some b)"
    by (metis prod.collapse)
  from delete_effect(5-7) [OF assms(1,2) eq] assms(3) show ?thesis
    by (auto simp: file_caps_def word_le_nat_alt)
qed

lemma delete_all_caps:
  "file_inv E s \<Longrightarrow> (\<And>t. t \<in> set ids \<Longrightarrow> CHR '':'' \<notin> set t) \<Longrightarrow> file_caps s \<Longrightarrow>
   file_caps (fst (delete_all E io ids n s))"
proof (induction ids arbitrary: n s)
  case (Cons i ids)
  have i: "CHR '':'' \<notin> set i" using Cons.prems(2) by simp
  from delete_inv [OF Cons.prems(1) i, of "io i"] delete_caps [OF Cons.prems(1) i Cons.prems(3), of "io i"]
    Cons show ?case
    by (auto split: prod.splits option.splits)
qed simp

lemma file_step_caps:
  assumes inv: "file_inv E s" and ok: "file_op_ok op" and caps: "file_caps s"
  shows "file_caps (file_step E op s)"
proof (cases op)
  case (FStore io t1 t2 t ci tc tb data)
  obtain s' r where eq: "store_chunk E io t1 t2 t ci tc tb data s = (s', r)" by force
  show ?thesis
  proof (cases r)
    case (Inl e)
    with store_chunk_reject [OF inv eq [unfolded Inl]] eq caps FStore show ?thesis by simp
  next
    case (Inr x)
    have "file_caps s'"
      by (rule store_effect [OF inv _ _ eq [unfolded Inr]])
        (use ok FStore caps in \<open>auto simp: file_caps_def max_def split: if_splits\<close>)
    with eq FStore show ?thesis by simp
  qed
next
  case (FDelete io t)
  with ok delete_caps [OF inv _ caps] show ?thesis by simp
next
  case (FSweep io now)
  show ?thesis
    unfolding FSweep file_step.simps sweep_expired_files_def
    by (intro delete_all_caps [OF inv _ caps])
      (auto simp: dm_get_set [OF file_invD(3) [OF inv]] cached_id_ok [OF inv])
next
  case (FReopen io)
  with caps file_reopen_effect(4-6) [OF inv file_invD(1) [OF inv], of io] show ?thesis
    by (auto simp: file_caps_def split: option.splits)
qed

lemma run_caps:
  "file_inv E s \<Longrightarrow> list_all file_op_ok ops \<Longrightarrow> file_caps s \<Longrightarrow> config s = cfg \<Longrightarrow>
   file_inv E (run (file_step E) ops s) \<and> file_caps (run (file_step E) ops s)
     \<and> config (run (file_step E) ops s) = cfg"
  by (induction ops arbitrary: s) (auto simp: file_step_inv file_step_caps)

end

interpretation fk: chunk_keeper "\<lambda>s. file_backend E \<and> file_inv E s" "chunk_held E" config "file_step E"
  for E :: "('m, 'b, 'c) file_env"
  by unfold_locales (auto intro: file_backend.file_step_inv file_backend.file_step_keeps)

end
