(* ===== verification/FileTheorems.thy ===== *)
theory FileTheorems
  imports FileRuns
begin

text \<open>
  The properties of the file store, and an instance of each on the reference backend: a store
  with one transfer of two chunks, the first of them uploaded.
\<close>


section \<open>A reference store\<close>

definition ref_files ::
    "((string \<times> file_meta option) list, file_meta option, (string \<times> bytes) list) file_env" where
  "ref_files = \<lparr>f_meta = ref_table, f_chunks = ref_table, f_codec = ref_codec\<rparr>"

lemma ref_files_simps [simp]:
  "f_meta ref_files = ref_table" "f_chunks ref_files = ref_table" "f_codec ref_files = ref_codec"
  by (simp_all add: ref_files_def)

lemma ref_file_backend [simp]: "file_backend ref_files"
  by (simp add: file_backend_def ref.redb_table_axioms ref_codec.serde_codec_axioms)

definition small_config :: file_config where
  "small_config = \<lparr>max_file_bytes = 100, max_total_file_bytes = 250, file_ttl_ms = 60000,
     max_transfers = 3, max_chunks = 4\<rparr>"

lemma small_config_ok: "config_ok small_config"
  by (simp add: config_ok_def small_config_def usize_modulus_def)

definition files0 :: "((string \<times> file_meta option) list, (string \<times> bytes) list) file_store" where
  "files0 = \<lparr>meta_table = [], chunk_table = [], config = small_config, meta_cache = [],
     reserved_bytes = 0, transfer_count = 0\<rparr>"

definition all_ok :: chunk_io where
  "all_ok = \<lparr>begin_ok = True, tables_ok = True, meta_get_ok = True, chunk_get_ok = True,
     insert_ok = True, commit_ok = True\<rparr>"

definition files1 :: "((string \<times> file_meta option) list, (string \<times> bytes) list) file_store" where
  "files1 = fst (store_chunk ref_files all_ok 1000 1001 ''t'' 0 2 5 [1, 2, 3] files0)"

lemma file_new_ref: "file_new ref_files io_fine [] [] small_config = Some files0"
  by (simp add: file_new_def files0_def)

lemma files0: "file_inv ref_files files0" "meta_at ref_files files0 t = None"
  using file_backend.file_open_empty [OF ref_file_backend, of io_fine small_config files0]
  by (simp_all add: file_new_ref small_config_ok)

lemma stored1:
  "store_chunk ref_files all_ok 1000 1001 ''t'' 0 2 5 [1, 2, 3] files0
     = (files1, Inr \<lparr>sc_received_chunks = 1, sc_total_chunks = 2\<rparr>)"
  by (simp add: files1_def store_chunk_def files0_def small_config_def Let_def reserve_slot_def
      write_chunk_def write_txn_def all_ok_def try_reserve_bytes_def sat_add_def)

lemma files1: "file_inv ref_files files1" "chunk_at ref_files files1 ''t'' 0 = Some [1, 2, 3]"
  "meta_at ref_files files1 ''t'' = Some \<lparr>m_total_chunks = 2, m_total_bytes = 5, m_stored_bytes = 3,
     m_received_chunks = 1, m_created_at_ms = 1001\<rparr>"
  "dm_get (meta_cache files1) ''t'' = Some \<lparr>m_total_chunks = 2, m_total_bytes = 5, m_stored_bytes = 3,
     m_received_chunks = 1, m_created_at_ms = 1000\<rparr>"
  "reserved_bytes files1 = 3" "transfer_count files1 = 1" "config files1 = small_config"
proof -
  show "file_inv ref_files files1"
    by (rule file_backend.store_effect [OF ref_file_backend files0(1) _ _ stored1])
      (simp_all add: usize_modulus_def)
qed (simp_all add: files1_def store_chunk_def files0_def small_config_def Let_def reserve_slot_def
      write_chunk_def write_txn_def all_ok_def try_reserve_bytes_def sat_add_def usize_add_def
      usize_modulus_def chunk_at_def meta_at_def ref_codec_def)


section \<open>Uploads\<close>

text \<open>
  The earliest creation time a sweep can read for the transfer of an upload: of its cached and its
  stored metadata, or of the two clock readings that create them.
\<close>

definition transfer_born ::
    "('m, 'b, 'c) file_env \<Rightarrow> u64 \<Rightarrow> u64 \<Rightarrow> string \<Rightarrow> ('m, 'c) file_store \<Rightarrow> u64" where
  "transfer_born E t1 t2 tid s =
     (case (dm_get (meta_cache s) tid, meta_at E s tid) of
        (Some c, Some d) \<Rightarrow> min (m_created_at_ms c) (m_created_at_ms d)
      | _ \<Rightarrow> min t1 t2)"

text \<open>An accepted upload holds its chunk, of a new transfer or of one that was there.\<close>

lemma upload_held:
  assumes "file_backend E" "file_inv E s" "CHR '':'' \<notin> set tid" "length data < usize_modulus"
    "store_chunk E io t1 t2 tid ci tc tb data s = (s', Inr r)"
  shows "file_inv E s'" "config s' = config s" "chunk_held E s' (transfer_born E t1 t2 tid s) tid ci data (tc, tb)"
proof -
  have rel: "rel_option cached (dm_get (meta_cache s) tid) (meta_at E s tid)" by (rule file_invD(4) [OF assms(2)])
  have "file_inv E s' \<and> config s' = config s \<and> chunk_held E s' (transfer_born E t1 t2 tid s) tid ci data (tc, tb)"
    by (rule file_backend.store_effect [OF assms])
      (use rel in \<open>auto simp: chunk_held_def transfer_born_def split: option.splits\<close>)
  then show "file_inv E s'" "config s' = config s" "chunk_held E s' (transfer_born E t1 t2 tid s) tid ci data (tc, tb)"
    by simp_all
qed

text \<open>
  C25: a chunk that was accepted can be fetched back, byte for byte and with the declared shape
  of its transfer, whichever its index and whether it began the transfer or went on with it, and
  whatever the store does meanwhile (uploads of other chunks, re-uploads of the same bytes,
  rejected uploads, deletions of other transfers, restarts, sweeps at most the shorter of one hour
  and the operator's TTL after the transfer was created), until its transfer is deleted or other
  bytes are uploaded for its index.
\<close>

theorem uploaded_is_fetched:
  assumes "file_backend E" "file_inv E s" "CHR '':'' \<notin> set tid" "length data < usize_modulus"
    "store_chunk E io t1 t2 tid ci tc tb data s = (s', Inr r)"
    "list_all file_op_ok ops" "list_all (file_spares (config s) (transfer_born E t1 t2 tid s) tid ci data) ops"
    "read_ok io'"
  shows "fetch_chunk E io' tid ci (run (file_step E) ops s')
    = Inr \<lparr>fc_data = data, fc_total_chunks = tc, fc_total_bytes = tb\<rparr>"
proof -
  let ?s = "run (file_step E) ops s'" and ?born = "transfer_born E t1 t2 tid s"
  have "(file_backend E \<and> file_inv E ?s) \<and> chunk_held E ?s ?born tid ci data (tc, tb)"
    using fk.run_keeps [of E s' ops ?born tid ci data "(tc, tb)"] upload_held [OF assms(1-5)] assms(1,6,7) by simp
  then obtain c d where cd: "dm_get (meta_cache ?s) tid = Some c" "meta_at E ?s tid = Some d"
    "m_total_chunks d = tc" "m_total_bytes d = tb" "chunk_at E ?s tid ci = Some data" "file_inv E ?s"
    by (auto simp: chunk_held_def)
  have "cached c d" using file_invD(4) [OF cd(6), of tid] cd(1,2) by simp
  then have "m_total_chunks c = tc" "m_total_bytes c = tb"
    using cd(3,4) by (cases c, cases d, auto simp: cached_def)+
  moreover have "ci < tc" using store_chunk_checks(2) [OF assms(5)] .
  ultimately show ?thesis using cd assms(8) by (simp add: fetch_chunk_def chunk_at_def)
qed

text \<open>The second chunk of the sample transfer.\<close>

lemma stored2:
  obtains files2 where "store_chunk ref_files all_ok 2000 2001 ''t'' 1 2 5 [9, 9] files1
     = (files2, Inr \<lparr>sc_received_chunks = 2, sc_total_chunks = 2\<rparr>)"
proof -
  have "snd (store_chunk ref_files all_ok 2000 2001 ''t'' 1 2 5 [9, 9] files1)
     = Inr \<lparr>sc_received_chunks = 2, sc_total_chunks = 2\<rparr>"
    by (simp add: files1_def store_chunk_def files0_def small_config_def Let_def reserve_slot_def
      write_chunk_def write_txn_def all_ok_def try_reserve_bytes_def sat_add_def ref_codec_def) (simp add: word_le_nat_alt)
  with that show thesis by (metis prod.collapse)
qed

theorem uploaded_is_fetched_witness:
  "\<exists>files2. fetch_chunk ref_files io_fine ''t'' 1 (run (file_step ref_files)
       [FStore all_ok 3000 3001 ''t'' 0 2 5 [4, 4, 4], FSweep (\<lambda>_. io_fine) 4000, FReopen io_fine] files2)
     = Inr \<lparr>fc_data = [9, 9], fc_total_chunks = 2, fc_total_bytes = 5\<rparr>"
proof -
  obtain files2 where st: "store_chunk ref_files all_ok 2000 2001 ''t'' 1 2 5 [9, 9] files1
     = (files2, Inr \<lparr>sc_received_chunks = 2, sc_total_chunks = 2\<rparr>)" by (rule stored2)
  have "transfer_born ref_files 2000 2001 ''t'' files1 = 1000" by (simp add: transfer_born_def files1)
  then show ?thesis
    by (intro exI [of _ files2], intro uploaded_is_fetched [OF ref_file_backend files1(1) _ _ st])
      (simp_all add: files1(7) usize_modulus_def small_config_def INCOMPLETE_FILE_TTL_MS_def)
qed

text \<open>
  C26: a rejected upload leaves the whole store as it was, for every reason of rejection (shape,
  size, caps, an unknown transfer, any failing redb call): no slot and no byte stays reserved,
  no provisional metadata is left in the cache.
\<close>

theorem rejected_upload_changes_nothing:
  assumes "file_inv E s" "store_chunk E io t1 t2 tid ci tc tb data s = (s', Inl e)"
  shows "s' = s"
  using assms by (rule store_chunk_reject)

lemma files1_reject:
  "store_chunk ref_files (all_ok\<lparr>commit_ok := False\<rparr>) 5 6 ''u'' 0 2 5 [1, 2] files0 = (files0, Inl Full)"
  by (simp add: store_chunk_def files0_def small_config_def Let_def reserve_slot_def release_slot_def
      write_chunk_def write_txn_def all_ok_def try_reserve_bytes_def sat_add_def usize_add_def
      usize_sub_def usize_modulus_def release_bytes_def sat_sub_def)

theorem rejected_upload_changes_nothing_witness:
  "fst (store_chunk ref_files (all_ok\<lparr>commit_ok := False\<rparr>) 5 6 ''u'' 0 2 5 [1, 2] files0) = files0"
  using rejected_upload_changes_nothing [OF files0(1) files1_reject] files1_reject by simp

text \<open>
  An accepted upload puts exactly its chunk in place and touches no other chunk; the global
  byte counter moves by the difference of the stored bytes, so that uploading the same index
  again counts once; the reported number of chunks is the number of distinct indices stored, and
  it reaches the declared total exactly when every index is there. The invariant is kept.
\<close>

theorem accepted_upload:
  assumes "file_backend E" "file_inv E s" "CHR '':'' \<notin> set tid" "length data < usize_modulus"
    "store_chunk E io t1 t2 tid ci tc tb data s = (s', Inr r)"
  shows "file_inv E s' \<and> chunk_at E s' = (chunk_at E s)(tid := (chunk_at E s tid)(ci \<mapsto> data))
    \<and> unat (reserved_bytes s') + old_len E s tid ci = unat (reserved_bytes s) + length data
    \<and> unat (sc_received_chunks r) = card {i. chunk_at E s' tid i \<noteq> None}
    \<and> (sc_received_chunks r = tc \<longleftrightarrow> (\<forall>i<tc. chunk_at E s' tid i \<noteq> None))"
proof (rule file_backend.store_effect [OF assms])
  fix m'
  assume P: "file_inv E s'" "meta_at E s' = (meta_at E s)(tid \<mapsto> m')"
    "chunk_at E s' = (chunk_at E s)(tid := (chunk_at E s tid)(ci \<mapsto> data))"
    "r = \<lparr>sc_received_chunks = m_received_chunks m', sc_total_chunks = tc\<rparr>" "m_total_chunks m' = tc"
    "unat (reserved_bytes s') = unat (reserved_bytes s) - old_len E s tid ci + length data"
  have m': "meta_at E s' tid = Some m'" by (simp add: P(2))
  have "old_len E s tid ci \<le> unat (reserved_bytes s)"
  proof (cases "meta_at E s tid")
    case None
    from file_backend.no_chunk_without_meta [OF assms(1) file_inv_disk [OF assms(2)] assms(3) this, of ci] show ?thesis
      by (simp add: old_len_def)
  next
    case (Some m)
    from file_backend.old_len_le_stored [OF assms(1) file_inv_disk [OF assms(2)] this, of ci]
      file_backend.stored_le_reserved [OF assms(1,2) Some] show ?thesis by simp
  qed
  moreover have "unat (m_received_chunks m') = card {i. chunk_at E s' tid i \<noteq> None}"
    using file_invD(5) [OF P(1) m'] file_backend.chunk_count_eq [OF assms(1) file_inv_disk [OF P(1)] assms(3)]
    by (simp add: meta_ok_def)
  ultimately show ?thesis
    using P file_backend.received_le_total(2) [OF assms(1) P(1) m'] by simp
qed

theorem accepted_upload_witness:
  "unat (reserved_bytes files1) = 3 \<and> chunk_at ref_files files1 ''t'' 0 = Some [1, 2, 3]"
  using accepted_upload [OF ref_file_backend files0(1) _ _ stored1]
  by (simp add: usize_modulus_def files0_def old_len_def chunk_at_def)

text \<open>
  An upload within the limits is accepted: the first chunk of a new transfer, when the
  declared shape is within the operator's limits, a transfer slot is free, the bytes fit under
  the global cap, and redb's calls succeed.
\<close>

theorem upload_accepted:
  assumes "file_backend E" "file_inv E s" "CHR '':'' \<notin> set tid" "meta_at E s tid = None"
    "0 < tc" "tc \<le> max_chunks (config s)" "0 < tb" "tb \<le> max_file_bytes (config s)"
    "data \<noteq> []" "length data \<le> unat tb"
    "transfer_count s < max_transfers (config s)"
    "unat (reserved_bytes s) + length data \<le> unat (max_total_file_bytes (config s))"
    "begin_ok io" "tables_ok io" "chunk_get_ok io" "insert_ok io" "commit_ok io"
  shows "\<exists>s'. store_chunk E io t1 t2 tid 0 tc tb data s
    = (s', Inr \<lparr>sc_received_chunks = 1, sc_total_chunks = tc\<rparr>)"
proof -
  have none: "dm_get (meta_cache s) tid = None"
    using file_invD(4) [OF assms(2), of tid] assms(4) by simp
  have chunk: "t_get (f_chunks E) (chunk_table s) (chunk_key tid 0) = None"
    using file_backend.no_chunk_without_meta [OF assms(1) file_inv_disk [OF assms(2)] assms(3,4), of 0] by (simp add: chunk_at_def)
  have lt: "length data < 2 ^ 64"
    using assms(10) unsigned_less [of tb, where 'a = nat] by simp
  then have l: "unat (of_nat (length data) :: u64) = length data" by (simp add: unat_of_nat)
  have le: "(of_nat (length data) :: u64) \<le> tb" "(of_nat (length data) :: u64) \<le> max_file_bytes (config s)"
    using assms(8,10) l by (auto simp: word_le_nat_alt)
  have pos: "0 < (of_nat (length data) :: u64)"
    using assms(9) l by (simp add: word_less_nat_alt)
  have cap: "\<not> max_total_file_bytes (config s) < sat_add (reserved_bytes s) (of_nat (length data))"
    using assms(12) l by (simp add: word_less_nat_alt unat_sat_add)
  show ?thesis
    using assms(6,8,9,11,13-) assms(5,7) [unfolded word_gt_0] none chunk le pos cap
    by (simp add: store_chunk_def Let_def reserve_slot_def write_chunk_def write_txn_def
        try_reserve_bytes_def not_less not_le)
qed

theorem upload_accepted_witness:
  "\<exists>s'. store_chunk ref_files all_ok 7 8 ''u'' 0 2 5 [1, 2] files1
     = (s', Inr \<lparr>sc_received_chunks = 1, sc_total_chunks = 2\<rparr>)"
  by (rule upload_accepted [OF ref_file_backend files1(1)])
    (simp_all add: files1(5-7) small_config_def all_ok_def,
     simp add: files1_def store_chunk_def files0_def small_config_def Let_def reserve_slot_def
      write_chunk_def write_txn_def all_ok_def try_reserve_bytes_def sat_add_def meta_at_def)


section \<open>Deletion and expiry\<close>

text \<open>
  A deletion removes the transfer's metadata and every one of its chunks, returns exactly
  the bytes and the slot it held, reports whether it existed, and touches no other transfer.
\<close>

theorem delete_frees_exactly:
  assumes "file_backend E" "file_inv E s" "CHR '':'' \<notin> set tid" "write_ok io"
  shows "\<exists>s'. delete_transfer E io tid s = (s', Some (meta_at E s tid \<noteq> None)) \<and> file_inv E s'
    \<and> meta_at E s' = (meta_at E s)(tid := None) \<and> chunk_at E s' = (chunk_at E s)(tid := Map.empty)
    \<and> unat (reserved_bytes s') + chunk_bytes E (chunk_table s) tid = unat (reserved_bytes s)
    \<and> transfer_count s' + (if meta_at E s tid = None then 0 else 1) = transfer_count s"
proof -
  obtain s' b where eq: "delete_transfer E io tid s = (s', Some b)"
    using file_backend.delete_returns [OF assms(1,4)] by (rule snd_SomeE)
  note D = file_backend.delete_effect [OF assms(1-3) eq]
  have bytes: "chunk_bytes E (chunk_table s) tid
      = (case meta_at E s tid of Some m \<Rightarrow> unat (m_stored_bytes m) | None \<Rightarrow> 0)"
    using file_invD(5) [OF assms(2), of tid] file_backend.no_chunks(1) [OF assms(1) file_inv_disk [OF assms(2)] assms(3)]
    by (auto simp: meta_ok_def split: option.splits)
  have "chunk_bytes E (chunk_table s) tid \<le> unat (reserved_bytes s)"
    using file_backend.stored_le_reserved [OF assms(1,2), of tid] by (auto simp: bytes split: option.splits)
  moreover have "meta_at E s tid \<noteq> None \<Longrightarrow> 0 < transfer_count s"
    using file_backend.count_pos [OF assms(1,2)] by blast
  ultimately show ?thesis using eq D bytes by auto
qed

theorem delete_frees_exactly_witness:
  "\<exists>s'. delete_transfer ref_files io_fine ''t'' files1 = (s', Some True)
     \<and> chunk_at ref_files s' ''t'' 0 = None \<and> transfer_count s' = 0"
  using delete_frees_exactly [OF ref_file_backend files1(1), of "''t''" io_fine]
  by (auto simp: files1)

text \<open>
  the sweep deletes exactly the transfers whose age is over their window: the operator's
  TTL for a transfer that has all its chunks, the shorter of the TTL and one hour for one that
  has not; everything else keeps its metadata and chunks.
\<close>

definition window :: "file_config \<Rightarrow> file_meta \<Rightarrow> nat" where
  "window cfg m = (if m_received_chunks m = m_total_chunks m then unat (file_ttl_ms cfg)
     else min 3600000 (unat (file_ttl_ms cfg)))"

lemma transfer_expired_iff:
  "m_received_chunks m \<le> m_total_chunks m \<Longrightarrow>
   transfer_expired cfg now m \<longleftrightarrow> unat (m_created_at_ms m) + window cfg m < unat now"
  by (auto simp: transfer_expired_def window_def Let_def sat_sub_less_iff min_def word_le_nat_alt
      INCOMPLETE_FILE_TTL_MS_def word_unat_eq_iff)

theorem sweep_exact:
  assumes "file_backend E" "file_inv E s" "\<And>t. write_ok (io t)"
  shows "\<exists>s' n. sweep_expired_files E io now s = (s', Some n) \<and> file_inv E s' \<and>
    (\<forall>t. if \<exists>c. dm_get (meta_cache s) t = Some c \<and>
              unat (m_created_at_ms c) + window (config s) c < unat now
         then meta_at E s' t = None \<and> chunk_at E s' t = Map.empty
         else meta_at E s' t = meta_at E s t \<and> chunk_at E s' t = chunk_at E s t)"
proof -
  have "snd (sweep_expired_files E io now s) \<noteq> None"
    unfolding sweep_expired_files_def
    by (rule file_backend.delete_all_returns [OF assms(1)]) (simp add: assms(3))
  then obtain s' n where eq: "sweep_expired_files E io now s = (s', Some n)" by (rule snd_SomeE)
  have "transfer_expired (config s) now c \<longleftrightarrow>
      unat (m_created_at_ms c) + window (config s) c < unat now"
    if c: "dm_get (meta_cache s) t = Some c" for t c
  proof -
    obtain d where d: "meta_at E s t = Some d" "cached c d"
      using file_invD(4) [OF assms(2), of t] c by (cases "meta_at E s t") auto
    then have "m_received_chunks c \<le> m_total_chunks c"
      using file_backend.received_le_total(1) [OF assms(1,2) d(1)]
      by (cases c, cases d) (auto simp: cached_def)
    then show ?thesis by (rule transfer_expired_iff)
  qed
  then show ?thesis
    using eq file_backend.sweep_files_effect(1-3) [OF assms(1,2) eq]
    by (intro exI [of _ s'] exI [of _ n]) auto
qed

theorem sweep_exact_witness:
  "\<exists>s' n. sweep_expired_files ref_files (\<lambda>_. io_fine) 61001 files1 = (s', Some n)
     \<and> chunk_at ref_files s' ''t'' 0 = None"
  using sweep_exact [OF ref_file_backend files1(1), of "\<lambda>_. io_fine" 61001]
  by (auto simp: files1 window_def small_config_def dest!: spec [of _ "''t''"])


section \<open>Caps and restart\<close>

text \<open>
  C27: the caps. From empty tables, whatever sequence of uploads, deletions, sweeps and restarts
  follows, the stored bytes and the number of transfers stay within the operator's limits, the
  counter behind the global cap is the sum of what the transfers store, and every transfer's
  count is what its chunks hold and is no more than it declared.
\<close>

theorem file_caps_hold:
  assumes "file_backend E" "config_ok cfg"
    "file_new E io (t_empty (f_meta E)) (t_empty (f_chunks E)) cfg = Some s0"
    "list_all file_op_ok ops" "s = run (file_step E) ops s0"
  shows "reserved_bytes s \<le> max_total_file_bytes cfg \<and> transfer_count s \<le> max_transfers cfg
    \<and> unat (reserved_bytes s) = t_wsum (f_meta E) (stored_weight E) (meta_table s)
    \<and> (\<forall>tid m. meta_at E s tid = Some m \<longrightarrow> m_stored_bytes m \<le> m_total_bytes m
         \<and> unat (m_stored_bytes m) = chunk_bytes E (chunk_table s) tid)"
proof -
  note O = file_backend.file_open_empty [OF assms(1,3,2)]
  have "file_inv E s \<and> file_caps s \<and> config s = cfg"
    unfolding assms(5) using O assms(4)
    by (intro file_backend.run_caps [OF assms(1)]) (simp_all add: file_caps_def)
  then show ?thesis
    using file_invD(5,7) [of E s] by (auto simp: meta_ok_def file_caps_def)
qed

theorem file_caps_hold_witness:
  "reserved_bytes (run (file_step ref_files) [FStore all_ok 1 2 ''a'' 0 1 4 [1, 2, 3, 4]] files0)
     \<le> max_total_file_bytes small_config"
  using file_caps_hold [OF ref_file_backend small_config_ok, of io_fine files0
      "[FStore all_ok 1 2 ''a'' 0 1 4 [1, 2, 3, 4]]"] file_new_ref
  by (simp add: usize_modulus_def)

text \<open>
  Opening the tables that a run left restores the store: the same metadata, now also in the
  cache, the same chunks and the same two counters.
\<close>

theorem file_restart_restores:
  assumes "file_backend E" "file_inv E s" "config_ok cfg" "read_ok io" "write_ok io"
  shows "\<exists>s'. file_new E io (meta_table s) (chunk_table s) cfg = Some s' \<and> file_inv E s'
    \<and> dm_get (meta_cache s') = meta_at E s \<and> meta_at E s' = meta_at E s \<and> chunk_at E s' = chunk_at E s
    \<and> reserved_bytes s' = reserved_bytes s \<and> transfer_count s' = transfer_count s"
proof -
  obtain s' where eq: "file_new E io (meta_table s) (chunk_table s) cfg = Some s'"
    using assms(4,5)
    by (cases "fold (scan_meta_entry E) (t_iter (f_meta E) (meta_table s)) (0, 0, [])")
      (auto simp: file_new_def)
  then show ?thesis using file_backend.file_reopen_effect [OF assms(1-3) eq] by blast
qed

theorem file_restart_restores_witness:
  "\<exists>s'. file_new ref_files io_fine (meta_table files1) (chunk_table files1) small_config = Some s'
     \<and> chunk_at ref_files s' ''t'' 0 = Some [1, 2, 3] \<and> reserved_bytes s' = 3"
  using file_restart_restores [OF ref_file_backend files1(1) small_config_ok, of io_fine]
  by (auto simp: files1)

text \<open>
  The creation time of a transfer is read twice: the cache keeps the first reading and the table
  the second, so the two differ whenever the clock moves in between.
\<close>

lemma creation_time_skew:
  "\<exists>c d. dm_get (meta_cache files1) ''t'' = Some c \<and> meta_at ref_files files1 ''t'' = Some d
     \<and> m_created_at_ms c \<noteq> m_created_at_ms d"
  by (simp add: files1)

end
