(* ===== verification/MetaStore.thy ===== *)
theory MetaStore
  imports Protocol
begin

text \<open>
  The write-back store for mailbox records and invite bundles of \<open>src/meta_store.rs\<close>: two redb
  tables that are read whole at start and written in batches of upserts and deletes. The two
  halves of the Rust module are the same code at two types, so each operation is one definition
  over a table and a codec, used at both.

  The locale \<open>write_back\<close> is the contract between a cache, its set of dirty keys and its table:
  a key that is not dirty has the same value in the table, up to a relation \<open>same\<close> on values.
  Marking a key after changing it keeps this, a successful flush of the dirty keys makes the
  table agree everywhere, and loading the table gives the cache back.
\<close>


section \<open>Records\<close>

record mailbox_auth =
  receive_auth_hash :: string
  delivery_token_hash :: string
  delivery_token_hashes :: "string list"
  last_active_ms :: u64

record hosted_bundle =
  b_id :: string
  b_ciphertext :: string
  b_created_at_ms :: u64
  b_expires_at_ms :: u64


section \<open>Operations\<close>

text \<open>\<open>load_all_auth\<close> and \<open>load_all_bundles\<close>: the entries that decode, in key order.\<close>

definition load_all ::
    "('t, 'b) table_ops \<Rightarrow> ('v, 'b) codec \<Rightarrow> io \<Rightarrow> 't \<Rightarrow> (string \<times> 'v) list option" where
  "load_all T C io tbl =
     (if read_ok io
      then Some (List.map_filter (\<lambda>(k, v). map_option (Pair k) (dec C v)) (t_iter T tbl))
      else None)"

definition table_is_empty :: "('t, 'b) table_ops \<Rightarrow> io \<Rightarrow> 't \<Rightarrow> bool option" where
  "table_is_empty T io tbl = (if read_ok io then Some (t_iter T tbl = []) else None)"

text \<open>\<open>flush_auth\<close> and \<open>flush_bundles\<close>: one transaction for the whole batch.\<close>

definition apply_item ::
    "('t, 'b) table_ops \<Rightarrow> ('v, 'b) codec \<Rightarrow> string \<times> 'v option \<Rightarrow> 't \<Rightarrow> 't" where
  "apply_item T C = (\<lambda>(k, maybe) tbl.
     (case maybe of Some v \<Rightarrow> t_insert T k (enc C v) tbl | None \<Rightarrow> t_remove T k tbl))"

definition flush_items ::
    "('t, 'b) table_ops \<Rightarrow> ('v, 'b) codec \<Rightarrow> io \<Rightarrow> (string \<times> 'v option) list \<Rightarrow> 't
     \<Rightarrow> 't \<times> unit option" where
  "flush_items T C io items tbl =
     (if items = [] then (tbl, Some ())
      else if \<not> write_ok io then (tbl, None)
      else (fold (apply_item T C) items tbl, Some ()))"


section \<open>The write-back contract\<close>

definition stored_at :: "('t, 'b) table_ops \<Rightarrow> ('v, 'b) codec \<Rightarrow> 't \<Rightarrow> string \<Rightarrow> 'v option" where
  "stored_at T C tbl k = Option.bind (t_get T tbl k) (dec C)"

definition synced ::
    "('t, 'b) table_ops \<Rightarrow> ('v, 'b) codec \<Rightarrow> ('v \<Rightarrow> 'v \<Rightarrow> bool) \<Rightarrow> (string, 'v) dashmap
     \<Rightarrow> (string, unit) dashmap \<Rightarrow> 't \<Rightarrow> bool" where
  "synced T C same cache dirty tbl \<longleftrightarrow>
     (\<forall>k. dm_contains dirty k \<or> rel_option same (stored_at T C tbl k) (dm_get cache k))"

locale write_back = tab: redb_table T + cod: serde_codec C
  for T :: "('t, 'b) table_ops" and C :: "('v, 'b) codec" +
  fixes same :: "'v \<Rightarrow> 'v \<Rightarrow> bool"
  assumes same_refl: "same v v"
begin

lemma stored_apply_item:
  "stored_at T C (apply_item T C (k, x) tbl) = (stored_at T C tbl)(k := x)"
  by (auto simp: stored_at_def apply_item_def tab.get_insert tab.get_remove cod.dec_enc fun_eq_iff
      split: option.splits)

lemma stored_fold:
  "stored_at T C (fold (apply_item T C) items tbl) j
     = (case map_of (rev items) j of Some x \<Rightarrow> x | None \<Rightarrow> stored_at T C tbl j)"
proof (induction items arbitrary: tbl)
  case (Cons e items)
  obtain k x where "e = (k, x)" by force
  with Cons show ?case by (auto simp: stored_apply_item map_add_def split: option.splits)
qed simp

text \<open>A change of the cache at a key that is marked afterwards keeps the rest in step.\<close>

lemma synced_change:
  assumes "synced T C same cache dirty tbl" "\<And>j. j \<noteq> k \<Longrightarrow> dm_get cache' j = dm_get cache j"
  shows "synced T C same cache' (dm_insert k () dirty) tbl"
  using assms by (auto simp: synced_def dm_contains_def)

lemma synced_related:
  assumes "synced T C same cache dirty tbl" "\<And>j. rel_option same (dm_get cache j) (dm_get cache' j)"
    "\<And>u v w. same u v \<Longrightarrow> same v w \<Longrightarrow> same u w"
  shows "synced T C same cache' dirty tbl"
proof -
  have "rel_option same (stored_at T C tbl k) (dm_get cache' k)"
    if "rel_option same (stored_at T C tbl k) (dm_get cache k)" for k
    using that assms(2) [of k] assms(3) by (auto simp: option.rel_sel)
  with assms(1) show ?thesis by (auto simp: synced_def)
qed

text \<open>
  A flush that writes the current values of all dirty keys and commits makes the table agree at
  every key; one that fails leaves the table as it was.
\<close>

lemma flush_dirty_synced:
  assumes "synced T C same cache dirty tbl"
    "flush_items T C io (map (\<lambda>(k, _). (k, dm_get cache k)) dirty) tbl = (tbl', Some ())"
  shows "synced T C same cache [] tbl'"
    "dm_contains dirty k \<Longrightarrow> stored_at T C tbl' k = dm_get cache k"
    "\<not> dm_contains dirty k \<Longrightarrow> stored_at T C tbl' k = stored_at T C tbl k"
proof -
  let ?items = "map (\<lambda>(k, _). (k, dm_get cache k)) dirty"
  have tbl': "tbl' = fold (apply_item T C) ?items tbl"
    using assms(2) by (auto simp: flush_items_def split: if_splits)
  have "map_of (rev (map (\<lambda>(k, _). (k, f k)) d)) k
      = (if dm_contains d k then Some (f k) else None)" for f :: "string \<Rightarrow> 'v option" and d :: "(string, unit) dashmap" and k
    by (induction d) (auto simp: dm_contains_def map_add_def split: if_splits)
  then have at: "stored_at T C tbl' k
      = (if dm_contains dirty k then dm_get cache k else stored_at T C tbl k)" for k
    by (simp add: tbl' stored_fold)
  then show "dm_contains dirty k \<Longrightarrow> stored_at T C tbl' k = dm_get cache k"
    "\<not> dm_contains dirty k \<Longrightarrow> stored_at T C tbl' k = stored_at T C tbl k" by simp_all
  have "rel_option same x x" for x :: "'v option" by (simp add: option.rel_refl same_refl)
  with at assms(1) show "synced T C same cache [] tbl'" by (auto simp: synced_def)
qed

lemma flush_fail: "flush_items T C io items tbl = (tbl', None) \<Longrightarrow> tbl' = tbl"
  by (auto simp: flush_items_def split: if_splits)

text \<open>What loading the table returns.\<close>

lemma load_all_map:
  assumes "load_all T C io tbl = Some es"
  shows "map_of es k = stored_at T C tbl k" "distinct (map fst es)"
proof -
  have es: "es = List.map_filter (\<lambda>(k, v). map_option (Pair k) (dec C v)) (t_iter T tbl)"
    using assms by (auto simp: load_all_def split: if_splits)
  have "map_of (List.map_filter (\<lambda>(k, v). map_option (Pair k) (dec C v)) xs) k
      = Option.bind (map_of xs k) (dec C)" if "distinct (map fst xs)" for xs :: "(string \<times> 'b) list"
    using that
  proof (induction xs)
    case (Cons x xs)
    obtain j b where x: "x = (j, b)" by force
    then have "map_of xs j = None" using Cons.prems by (simp add: map_of_eq_None_iff)
    with Cons x show ?case by (auto simp: List.map_filter_simps split: option.splits)
  qed (simp add: List.map_filter_simps)
  then show "map_of es k = stored_at T C tbl k"
    unfolding es using tab.distinct_iter tab.iter_get by (simp add: stored_at_def)
  have sub: "map fst (List.map_filter (\<lambda>(k, v). map_option (Pair k) (dec C v)) xs)
      = map fst (filter (\<lambda>(k, v). dec C v \<noteq> None) xs)" for xs :: "(string \<times> 'b) list"
    by (induction xs) (auto simp: List.map_filter_simps split: option.splits)
  show "distinct (map fst es)"
    unfolding es sub using tab.distinct_iter by (rule distinct_map_filter)
qed

end

end
