(* ===== verification/State.thy ===== *)
theory State
  imports QueueStore FileStore MetaStore
begin

text \<open>
  The shared runtime state of \<open>src/state.rs\<close>: the caches of mailbox records and invite bundles
  with their dirty sets and counters, the send-rate windows, the routes of live sockets, and the
  three durable stores. A socket's outbound channel is a number; an operation that reads the
  clock takes the reading.
\<close>

type_synonym chan = nat

record ('t, 'b, 'c) app_env =
  a_queue :: "('t, 'b) queue_env"
  a_files :: "('t, 'b, 'c) file_env"
  a_auth :: "('t, 'b) table_ops"
  a_auth_codec :: "(mailbox_auth, 'b) codec"
  a_bundles :: "('t, 'b) table_ops"
  a_bundle_codec :: "(hosted_bundle, 'b) codec"

record ('t, 'c) app_state =
  queues :: "'t queue_store"
  auth_table :: 't
  bundle_table :: 't
  files :: "('t, 'c) file_store"
  limits :: file_config
  online :: "(recipient_id, chan) dashmap"
  auths :: "(recipient_id, mailbox_auth) dashmap"
  mailbox_count :: usize
  bundles :: "(string, hosted_bundle) dashmap"
  total_bundle_bytes :: usize
  send_rate :: "(recipient_id, u64 \<times> u32) dashmap"
  trust_root_public_b64 :: string
  dirty_auth :: "(recipient_id, unit) dashmap"
  dirty_bundles :: "(string, unit) dashmap"
  conn_count :: usize
  last_bundle_prune_ms :: u64


section \<open>Mailbox records\<close>

definition mailbox_auth_new :: "u64 \<Rightarrow> string \<Rightarrow> string \<Rightarrow> mailbox_auth" where
  "mailbox_auth_new now auth_hash delivery_hash =
     \<lparr>receive_auth_hash = auth_hash, delivery_token_hash = delivery_hash,
      delivery_token_hashes = [delivery_hash], last_active_ms = now_activity_ms now\<rparr>"

definition accepts_delivery_hash :: "mailbox_auth \<Rightarrow> string \<Rightarrow> bool" where
  "accepts_delivery_hash auth hash =
     (ct_eq (delivery_token_hash auth) hash
      \<or> list_ex (\<lambda>h. ct_eq h hash) (delivery_token_hashes auth))"

definition ensure_delivery_hash :: "string \<Rightarrow> mailbox_auth \<Rightarrow> mailbox_auth \<times> bool" where
  "ensure_delivery_hash hash auth =
     (let auth = (if delivery_token_hash auth = [] then auth\<lparr>delivery_token_hash := hash\<rparr> else auth)
      in if list_ex (\<lambda>h. h = hash) (delivery_token_hashes auth) then (auth, False)
         else
           (let hs = (if length (delivery_token_hashes auth) \<ge> MAX_DELIVERY_TOKENS_PER_MAILBOX
                      then drop 1 (delivery_token_hashes auth) else delivery_token_hashes auth)
            in (auth\<lparr>delivery_token_hashes := hs @ [hash]\<rparr>, True)))"

definition replace_delivery_hashes :: "string list \<Rightarrow> mailbox_auth \<Rightarrow> mailbox_auth" where
  "replace_delivery_hashes hashes auth =
     (let out = fold (\<lambda>hash out. if list_ex (\<lambda>h. h = hash) out then out else out @ [hash])
                  (take MAX_DELIVERY_TOKENS_PER_MAILBOX hashes) []
      in auth\<lparr>delivery_token_hash := (case out of h # _ \<Rightarrow> h | [] \<Rightarrow> []),
              delivery_token_hashes := out\<rparr>)"


section \<open>Start\<close>

definition build_auths :: "u64 \<Rightarrow> (string \<times> mailbox_auth) list \<Rightarrow> (string, mailbox_auth) dashmap" where
  "build_auths load_now entries =
     fold (\<lambda>(rid, auth).
             dm_insert rid (if last_active_ms auth = 0 then auth\<lparr>last_active_ms := load_now\<rparr>
                            else auth)) entries []"

definition build_bundles ::
    "(string \<times> hosted_bundle) list \<Rightarrow> (string, hosted_bundle) dashmap \<times> usize" where
  "build_bundles entries =
     fold (\<lambda>(_, bundle) (bs, n).
             (dm_insert (b_id bundle) bundle bs, usize_sat_add n (length (b_ciphertext bundle))))
       entries ([], 0)"

definition build ::
    "('t, 'b, 'c) app_env \<Rightarrow> io \<Rightarrow> io \<Rightarrow> u64 \<Rightarrow> 't \<Rightarrow> 't \<Rightarrow> 't queue_store \<Rightarrow> ('t, 'c) file_store
     \<Rightarrow> file_config \<Rightarrow> string \<Rightarrow> ('t, 'c) app_state option" where
  "build E io_auth io_bundles now at bt qs fs cfg trust_root =
     (case load_all (a_auth E) (a_auth_codec E) io_auth at of
        None \<Rightarrow> None
      | Some auth_entries \<Rightarrow>
          (case load_all (a_bundles E) (a_bundle_codec E) io_bundles bt of
             None \<Rightarrow> None
           | Some bundle_entries \<Rightarrow>
               (let as = build_auths (now_activity_ms now) auth_entries;
                    (bs, bundle_bytes) = build_bundles bundle_entries
                in Some \<lparr>queues = qs, auth_table = at, bundle_table = bt, files = fs, limits = cfg,
                         online = [], auths = as, mailbox_count = length as, bundles = bs,
                         total_bundle_bytes = bundle_bytes, send_rate = [],
                         trust_root_public_b64 = trust_root, dirty_auth = [], dirty_bundles = [],
                         conn_count = 0, last_bundle_prune_ms = 0\<rparr>)))"


section \<open>Write-back\<close>

definition mark_auth_dirty :: "string \<Rightarrow> ('t, 'c) app_state \<Rightarrow> ('t, 'c) app_state" where
  "mark_auth_dirty rid s = s\<lparr>dirty_auth := dm_insert rid () (dirty_auth s)\<rparr>"

definition mark_bundle_dirty :: "string \<Rightarrow> ('t, 'c) app_state \<Rightarrow> ('t, 'c) app_state" where
  "mark_bundle_dirty i s = s\<lparr>dirty_bundles := dm_insert i () (dirty_bundles s)\<rparr>"

definition flush_dirty_meta ::
    "('t, 'b, 'c) app_env \<Rightarrow> io \<Rightarrow> io \<Rightarrow> ('t, 'c) app_state \<Rightarrow> ('t, 'c) app_state \<times> unit option" where
  "flush_dirty_meta E io_auth io_bundles s =
     (let auth_batch = map (\<lambda>(k, _). (k, dm_get (auths s) k)) (dirty_auth s);
          s = s\<lparr>dirty_auth := fold dm_remove (map fst (dirty_auth s)) (dirty_auth s)\<rparr>
      in case flush_items (a_auth E) (a_auth_codec E) io_auth auth_batch (auth_table s) of
           (_, None) \<Rightarrow> (s, None)
         | (at, Some _) \<Rightarrow>
             (let s = s\<lparr>auth_table := at\<rparr>;
                  bundle_batch = map (\<lambda>(k, _). (k, dm_get (bundles s) k)) (dirty_bundles s);
                  s = s\<lparr>dirty_bundles := fold dm_remove (map fst (dirty_bundles s)) (dirty_bundles s)\<rparr>
              in case flush_items (a_bundles E) (a_bundle_codec E) io_bundles bundle_batch
                        (bundle_table s) of
                   (_, None) \<Rightarrow> (s, None)
                 | (bt, Some _) \<Rightarrow> (s\<lparr>bundle_table := bt\<rparr>, Some ())))"


section \<open>Limits\<close>

definition reserve_mailbox_slot :: "('t, 'c) app_state \<Rightarrow> ('t, 'c) app_state \<times> bool" where
  "reserve_mailbox_slot s =
     (if mailbox_count s \<ge> MAX_MAILBOXES then (s, False)
      else (s\<lparr>mailbox_count := usize_add (mailbox_count s) 1\<rparr>, True))"

text \<open>\<open>allow_dest_send\<close> on one destination's entry, and on the map.\<close>

definition rate_step :: "u64 \<Rightarrow> (u64 \<times> u32) option \<Rightarrow> (u64 \<times> u32) \<times> bool" where
  "rate_step now e =
     (let (window_start, count) = (case e of Some e \<Rightarrow> e | None \<Rightarrow> (now, 0))
      in if sat_sub now window_start > RATE_WINDOW_MS then ((now, 1), True)
         else if count \<ge> MAX_SENDS_PER_DEST_PER_WINDOW then ((window_start, count), False)
         else ((window_start, count + 1), True))"

definition allow_dest_send :: "u64 \<Rightarrow> string \<Rightarrow> ('t, 'c) app_state \<Rightarrow> ('t, 'c) app_state \<times> bool" where
  "allow_dest_send now to s =
     (let (e, ok) = rate_step now (dm_get (send_rate s) to)
      in (s\<lparr>send_rate := dm_insert to e (send_rate s)\<rparr>, ok))"


section \<open>Maintenance\<close>

text \<open>The removal loop of \<open>prune_expired_bundles\<close>, one expired bundle.\<close>

definition prune_one ::
    "string \<times> usize \<Rightarrow> ('t, 'c) app_state \<times> usize \<Rightarrow> ('t, 'c) app_state \<times> usize" where
  "prune_one = (\<lambda>(i, len) (s, freed).
     (if dm_contains (bundles s) i
      then (mark_bundle_dirty i (s\<lparr>bundles := dm_remove i (bundles s)\<rparr>), usize_sat_add freed len)
      else (s, freed)))"

definition prune_expired_bundles :: "u64 \<Rightarrow> ('t, 'c) app_state \<Rightarrow> ('t, 'c) app_state" where
  "prune_expired_bundles now s =
     (let last = last_bundle_prune_ms s
      in if sat_sub now last < BUNDLE_PRUNE_MIN_INTERVAL_MS \<and> last \<noteq> 0 then s
         else
           (let s = s\<lparr>last_bundle_prune_ms := now\<rparr>;
                expired = map (\<lambda>(k, b). (k, length (b_ciphertext b)))
                            (filter (\<lambda>(k, b). b_expires_at_ms b \<le> now) (bundles s))
            in if expired = [] then s
               else
                 (let (s, freed) = fold prune_one expired (s, 0)
                  in s\<lparr>total_bundle_bytes := atomic_sub_saturating (total_bundle_bytes s) freed\<rparr>)))"

definition idle :: "u64 \<Rightarrow> mailbox_auth \<Rightarrow> bool" where
  "idle now auth \<longleftrightarrow> sat_sub now (last_active_ms auth) > MAILBOX_IDLE_TTL_MS"

definition gc_one ::
    "('t, 'b, 'c) app_env \<Rightarrow> (string \<Rightarrow> io) \<Rightarrow> u64 \<Rightarrow> string \<Rightarrow> ('t, 'c) app_state \<Rightarrow> ('t, 'c) app_state" where
  "gc_one E io now rid s =
     (case dm_get (auths s) rid of
        Some auth \<Rightarrow>
          if idle now auth \<and> \<not> dm_contains (online s) rid
          then
            (let s = s\<lparr>auths := dm_remove rid (auths s)\<rparr>;
                 s = s\<lparr>mailbox_count := usize_sub (mailbox_count s) 1\<rparr>;
                 s = mark_auth_dirty rid s;
                 s = s\<lparr>queues := fst (purge_mailbox (a_queue E) (io rid) rid (queues s))\<rparr>
             in s\<lparr>send_rate := dm_remove rid (send_rate s)\<rparr>)
          else s
      | None \<Rightarrow> s)"

definition gc_idle_mailboxes ::
    "('t, 'b, 'c) app_env \<Rightarrow> (string \<Rightarrow> io) \<Rightarrow> u64 \<Rightarrow> ('t, 'c) app_state \<Rightarrow> ('t, 'c) app_state" where
  "gc_idle_mailboxes E io now s =
     (let candidates = map fst (filter (\<lambda>(k, auth). idle now auth) (auths s));
          stale = filter (\<lambda>rid.
            (let queue_empty = (case is_empty (a_queue E) (io rid) rid (queues s) of
                                  Some b \<Rightarrow> b | None \<Rightarrow> True);
                 offline = (\<not> dm_contains (online s) rid)
             in queue_empty \<and> offline)) candidates
      in fold (gc_one E io now) stale s)"

end
