(* ===== verification/Ws.thy ===== *)
theory Ws
  imports State
begin

text \<open>
  The per-connection frame loop of \<open>src/ws.rs\<close>: one definition per frame kind, the whole handler
  with its early returns, and the connection life cycle around them.

  A handler takes the connection and the shared state and returns them with the frames it sends,
  each with the channel it is sent on; the results of sends on the socket's own channel are
  ignored by the code, and \<open>Outbox\<close> has what becomes of the frames. What a frame's processing meets outside is its
  input: the clock readings in the order of the calls, the fresh message id, which store calls
  succeed, whether the live route takes the message, and how many envelopes of a backlog the
  socket takes. Parsing of the JSON text, base64 and libsignal's certificates are parameters.
\<close>

record ('t, 'b, 'c) ws_env =
  w_app :: "('t, 'b, 'c) app_env"
  w_hash :: hash_ops
  w_json :: "string \<Rightarrow> string + client_frame"
  b64_decode :: "string \<Rightarrow> bytes option"
  b64_encode :: "bytes \<Rightarrow> string"
  parse_key :: "bytes \<Rightarrow> string + bytes"
  sign_cert :: "string \<Rightarrow> bytes \<Rightarrow> u32 \<Rightarrow> u64 \<Rightarrow> string + bytes"

record frame_in =
  i_clock :: "nat \<Rightarrow> u64"
  i_secs :: u64
  i_uuid :: uuid
  i_qio :: io
  i_cio :: chunk_io
  i_fio :: io
  i_live :: bool
  i_alive :: nat
  i_rng :: "string option"

record conn =
  tx :: chan
  recipient :: "recipient_id option"
  window_start_ms :: u64
  frame_count :: u32

type_synonym outputs = "(chan \<times> server_frame) list"


section \<open>Mailboxes\<close>

definition pow_valid :: "('t, 'b, 'c) ws_env \<Rightarrow> frame_in \<Rightarrow> string \<Rightarrow> string option \<Rightarrow> bool" where
  "pow_valid W i ident pow =
     (case pow of Some n \<Rightarrow> verify_pow (w_hash W) (i_secs i) ident n | None \<Rightarrow> False)"

text \<open>The entry match of \<open>Hello\<close>: the state with the mailbox registered, or the rejection.\<close>

definition hello_entry ::
    "('t, 'b, 'c) ws_env \<Rightarrow> frame_in \<Rightarrow> string \<Rightarrow> string \<Rightarrow> string \<Rightarrow> string option
     \<Rightarrow> ('t, 'c) app_state \<Rightarrow> ('t, 'c) app_state \<times> server_frame option" where
  "hello_entry W i rid auth_hash delivery_hash pow s =
     (case dm_get (auths s) rid of
        Some existing \<Rightarrow>
          if \<not> ct_eq (receive_auth_hash existing) auth_hash
          then (s, Some (err ''hello_rejected'' ''mailbox authentication or proof of work failed''))
          else
            (let auth = existing\<lparr>last_active_ms := now_activity_ms (i_clock i 1)\<rparr>;
                 (auth, _) = ensure_delivery_hash delivery_hash auth
             in (s\<lparr>auths := dm_insert rid auth (auths s)\<rparr>, None))
      | None \<Rightarrow>
          if \<not> pow_valid W i rid pow
          then (s, Some (err ''hello_rejected'' ''mailbox authentication or proof of work failed''))
          else
            (case reserve_mailbox_slot s of
               (s, False) \<Rightarrow> (s, Some (err ''relay_full'' ''relay mailbox limit reached''))
             | (s, True) \<Rightarrow>
                 (s\<lparr>auths := dm_insert rid (mailbox_auth_new (i_clock i 1) auth_hash delivery_hash)
                               (auths s)\<rparr>, None)))"

definition hello_flush ::
    "('t, 'b, 'c) ws_env \<Rightarrow> frame_in \<Rightarrow> chan \<Rightarrow> string \<Rightarrow> u16 \<Rightarrow> ('t, 'c) app_state \<Rightarrow> outputs" where
  "hello_flush W i ch rid selected s =
     (let envs = (case flush (a_queue (w_app W)) (i_qio i) rid (queues s) of
                    Some envs \<Rightarrow> take (i_alive i) envs | None \<Rightarrow> [])
      in map (\<lambda>env. (ch, Envelope env)) envs
         @ (if selected \<ge> 6 then [(ch, Synced (of_nat (length envs)))] else []))"

definition handle_hello ::
    "('t, 'b, 'c) ws_env \<Rightarrow> frame_in \<Rightarrow> string \<Rightarrow> string \<Rightarrow> string \<Rightarrow> u16 option \<Rightarrow> u16 option
     \<Rightarrow> u16 option \<Rightarrow> string option \<Rightarrow> bool \<Rightarrow> conn \<Rightarrow> ('t, 'c) app_state
     \<Rightarrow> conn \<times> ('t, 'c) app_state \<times> outputs" where
  "handle_hello W i rid auth_token delivery_token protocol_min protocol_max protocol_version pow
       cert_only c s =
     (let dflt = (case protocol_version of Some v \<Rightarrow> v | None \<Rightarrow> PROTOCOL_VERSION);
          client_min = (case protocol_min of Some v \<Rightarrow> v | None \<Rightarrow> dflt);
          client_max = (case protocol_max of Some v \<Rightarrow> v | None \<Rightarrow> dflt);
          selected = min PROTOCOL_VERSION client_max
      in if selected < PROTOCOL_MIN_SUPPORTED \<or> selected < client_min
         then (c, s, [(tx c, err ''protocol_mismatch'' ''no common relay protocol version'')])
         else if \<not> valid_recipient_id rid \<or> \<not> valid_token auth_token \<or> \<not> valid_token delivery_token
         then (c, s, [(tx c, err ''bad_hello'' ''invalid mailbox or token'')])
         else
           (case hello_entry W i rid (token_hash (w_hash W) auth_token)
                   (token_hash (w_hash W) delivery_token) pow s of
              (s, Some rejection) \<Rightarrow> (c, s, [(tx c, rejection)])
            | (s, None) \<Rightarrow>
                (let s = mark_auth_dirty rid s;
                     c = c\<lparr>recipient := Some rid\<rparr>;
                     ok = (tx c, HelloOk selected PROTOCOL_MIN_SUPPORTED PROTOCOL_VERSION
                             (i_clock i 2) (trust_root_public_b64 s) (max_file_bytes (limits s)))
                 in if cert_only then (c, s, [ok])
                    else
                      (let s = s\<lparr>online := dm_insert rid (tx c) (online s)\<rparr>
                       in (c, s, ok # hello_flush W i (tx c) rid selected s)))))"

definition handle_set_delivery_tokens ::
    "('t, 'b, 'c) ws_env \<Rightarrow> string \<Rightarrow> string list \<Rightarrow> conn \<Rightarrow> ('t, 'c) app_state
     \<Rightarrow> ('t, 'c) app_state \<times> outputs" where
  "handle_set_delivery_tokens W request_id tokens c s =
     (case recipient c of
        None \<Rightarrow> (s, [(tx c, err ''not_registered'' ''send hello first'')])
      | Some rid \<Rightarrow>
          if tokens = [] \<or> length tokens > MAX_DELIVERY_TOKENS_PER_MAILBOX
             \<or> \<not> list_all valid_token tokens
          then (s, [(tx c, err ''bad_tokens'' ''invalid delivery-token allowlist'')])
          else
            (case dm_get (auths s) rid of
               Some auth \<Rightarrow>
                 (let auth = replace_delivery_hashes (map (token_hash (w_hash W)) tokens) auth;
                      s = mark_auth_dirty rid (s\<lparr>auths := dm_insert rid auth (auths s)\<rparr>)
                  in (s, [(tx c, DeliveryTokensSet request_id (length (delivery_token_hashes auth)))]))
             | None \<Rightarrow> (s, [(tx c, err ''not_registered'' ''mailbox auth missing'')])))"

definition issue_sender_certificate ::
    "('t, 'b, 'c) ws_env \<Rightarrow> frame_in \<Rightarrow> string \<Rightarrow> string \<Rightarrow> u32 \<Rightarrow> string \<Rightarrow> ('t, 'c) app_state
     \<Rightarrow> string + server_frame" where
  "issue_sender_certificate W i request_id sender_uuid sender_device_id sender_cert_public_b64 s =
     (if \<not> valid_recipient_id sender_uuid \<or> sender_device_id = 0 \<or> sender_device_id > 127
      then Inl ''invalid sender certificate request''
      else if length sender_cert_public_b64 > 64
      then Inl ''sender certificate public key is too large''
      else
        (case b64_decode W sender_cert_public_b64 of
           None \<Rightarrow> Inl ''bad sender certificate public key encoding''
         | Some key_bytes \<Rightarrow>
             (case parse_key W key_bytes of
                Inl e \<Rightarrow> Inl (''bad sender certificate public key: '' @ e)
              | Inr sender_public \<Rightarrow>
                  (case i_rng i of
                     Some e \<Rightarrow> Inl e
                   | None \<Rightarrow>
                       (let expires_at_ms = sat_add (i_clock i 1) SENDER_CERT_TTL_MS
                        in case sign_cert W sender_uuid sender_public sender_device_id expires_at_ms of
                             Inl e \<Rightarrow> Inl e
                           | Inr cert \<Rightarrow>
                               Inr (SenderCertificate request_id (b64_encode W cert)
                                      (trust_root_public_b64 s) expires_at_ms))))))"

definition handle_issue_certificate ::
    "('t, 'b, 'c) ws_env \<Rightarrow> frame_in \<Rightarrow> string \<Rightarrow> string \<Rightarrow> u32 \<Rightarrow> string \<Rightarrow> conn \<Rightarrow> ('t, 'c) app_state
     \<Rightarrow> outputs" where
  "handle_issue_certificate W i request_id sender_uuid sender_device_id sender_cert_public_b64 c s =
     (case recipient c of
        None \<Rightarrow> [(tx c, err ''not_registered'' ''send hello first'')]
      | Some registered_rid \<Rightarrow>
          if sender_uuid \<noteq> registered_rid
          then [(tx c, err ''cert_denied''
                  ''sender certificate can only be issued for your authenticated mailbox'')]
          else
            (case issue_sender_certificate W i request_id sender_uuid sender_device_id
                    sender_cert_public_b64 s of
               Inr frame \<Rightarrow> [(tx c, frame)]
             | Inl e \<Rightarrow> [(tx c, err ''cert_failed'' e)]))"


section \<open>Messages\<close>

text \<open>The live delivery of \<open>SendEnvelope\<close>: a route that does not take the frame is dropped.\<close>

definition deliver_live ::
    "frame_in \<Rightarrow> string \<Rightarrow> stored_envelope \<Rightarrow> ('t, 'c) app_state
     \<Rightarrow> ('t, 'c) app_state \<times> bool \<times> outputs" where
  "deliver_live i to env s =
     (case dm_get (online s) to of
        Some live \<Rightarrow>
          if i_live i then (s, True, [(live, Envelope env)])
          else (s\<lparr>online := dm_remove to (online s)\<rparr>, False, [])
      | None \<Rightarrow> (s, False, []))"

definition handle_send ::
    "('t, 'b, 'c) ws_env \<Rightarrow> frame_in \<Rightarrow> string option \<Rightarrow> string \<Rightarrow> string \<Rightarrow> string \<Rightarrow> string
     \<Rightarrow> conn \<Rightarrow> ('t, 'c) app_state \<Rightarrow> ('t, 'c) app_state \<times> outputs" where
  "handle_send W i client_ref to delivery_token etype ctext c s =
     (if \<not> valid_recipient_id to \<or> \<not> valid_token delivery_token
      then (s, [(tx c, send_err client_ref ''bad_send'' ''invalid destination or delivery token'')])
      else if length etype > 32
      then (s, [(tx c, send_err client_ref ''bad_envelope'' ''envelope type too long'')])
      else
        (case dm_get (auths s) to of
           None \<Rightarrow> (s, [(tx c, send_err client_ref ''delivery_denied'' ''delivery token rejected'')])
         | Some auth \<Rightarrow>
             if \<not> accepts_delivery_hash auth (token_hash (w_hash W) delivery_token)
             then (s, [(tx c, send_err client_ref ''delivery_denied'' ''delivery token rejected'')])
             else
               (let auth = auth\<lparr>last_active_ms := now_activity_ms (i_clock i 1)\<rparr>;
                    s = s\<lparr>auths := dm_insert to auth (auths s)\<rparr>
                in case allow_dest_send (i_clock i 2) to s of
                     (s, False) \<Rightarrow>
                       (s, [(tx c, send_err client_ref ''rate_limited''
                               ''too many sends to this destination'')])
                   | (s, True) \<Rightarrow>
                       (let env = \<lparr>env_id = i_uuid i, env_to = to, envelope_type = etype,
                                   ciphertext = ctext\<rparr>;
                            (s, delivered_live, live_out) = deliver_live i to env s
                        in if would_exceed_global (queues s) (length ctext)
                           then
                             (s, live_out @
                                [(tx c, if delivered_live
                                        then SendOk (i_uuid i) False client_ref
                                        else send_err client_ref ''relay_full''
                                               ''relay queue storage limit reached'')])
                           else
                             (let (q, r) = enqueue (a_queue (w_app W)) (i_qio i) (i_clock i 3) to env
                                             (queues s);
                                  enqueued = (r \<noteq> None);
                                  s = mark_auth_dirty to (s\<lparr>queues := q\<rparr>)
                              in (s, live_out @
                                [(tx c, if enqueued \<or> delivered_live
                                        then SendOk (i_uuid i) (\<not> delivered_live) client_ref
                                        else send_err client_ref ''relay_error''
                                               ''could not persist message for offline delivery'')]))))))"

definition handle_ack ::
    "('t, 'b, 'c) ws_env \<Rightarrow> frame_in \<Rightarrow> uuid list \<Rightarrow> conn \<Rightarrow> ('t, 'c) app_state
     \<Rightarrow> ('t, 'c) app_state \<times> outputs" where
  "handle_ack W i ids c s =
     (case recipient c of
        None \<Rightarrow> (s, [(tx c, err ''not_registered'' ''send hello first'')])
      | Some rid \<Rightarrow>
          (let (q, r) = ack (a_queue (w_app W)) (i_qio i) rid ids (queues s);
               removed = (case r of Some n \<Rightarrow> n | None \<Rightarrow> 0)
           in (s\<lparr>queues := q\<rparr>, [(tx c, AckOk removed)])))"

text \<open>\<open>RetireMailbox\<close> ends the connection.\<close>

definition handle_retire ::
    "('t, 'b, 'c) ws_env \<Rightarrow> frame_in \<Rightarrow> conn \<Rightarrow> ('t, 'c) app_state
     \<Rightarrow> ('t, 'c) app_state \<times> outputs \<times> bool" where
  "handle_retire W i c s =
     (case recipient c of
        None \<Rightarrow> (s, [(tx c, err ''not_registered'' ''send hello first'')], False)
      | Some rid \<Rightarrow>
          (let s = (if dm_contains (auths s) rid
                    then s\<lparr>auths := dm_remove rid (auths s),
                           mailbox_count := usize_sub (mailbox_count s) 1\<rparr>
                    else s);
               s = s\<lparr>queues := fst (purge_mailbox (a_queue (w_app W)) (i_qio i) rid (queues s))\<rparr>;
               s = s\<lparr>send_rate := dm_remove rid (send_rate s)\<rparr>;
               s = s\<lparr>online := dm_remove rid (online s)\<rparr>
           in (mark_auth_dirty rid s, [(tx c, AckOk 0)], True)))"


section \<open>Invite bundles\<close>

definition handle_upload_bundle ::
    "('t, 'b, 'c) ws_env \<Rightarrow> frame_in \<Rightarrow> string \<Rightarrow> string \<Rightarrow> string \<Rightarrow> u64 \<Rightarrow> string option \<Rightarrow> conn
     \<Rightarrow> ('t, 'c) app_state \<Rightarrow> ('t, 'c) app_state \<times> outputs" where
  "handle_upload_bundle W i request_id bundle_id ctext expires_at_ms pow c s =
     (if \<not> valid_bundle_id bundle_id \<or> length ctext > MAX_BUNDLE_BYTES
      then (s, [(tx c, err ''bad_bundle'' ''invalid invite bundle'')])
      else if \<not> pow_valid W i bundle_id pow
      then (s, [(tx c, err ''bad_pow'' ''invalid proof of work for invite bundle upload'')])
      else
        (let s = prune_expired_bundles (i_clock i 1) s;
             existing_reply =
               (case dm_get (bundles s) bundle_id of
                  None \<Rightarrow> None
                | Some existing \<Rightarrow>
                    if b_expires_at_ms existing \<le> i_clock i 2 then None
                    else if b_ciphertext existing = ctext
                    then Some (BundleUploaded request_id bundle_id (b_expires_at_ms existing))
                    else Some (err ''bundle_exists'' ''an invite bundle with this id already exists''))
         in case existing_reply of
              Some reply \<Rightarrow> (s, [(tx c, reply)])
            | None \<Rightarrow>
                if length (bundles s) \<ge> MAX_BUNDLES
                then (s, [(tx c, err ''relay_full'' ''relay invite bundle limit reached'')])
                else
                  (let bundle_len = length ctext
                   in if usize_sat_add (total_bundle_bytes s) bundle_len > MAX_TOTAL_BUNDLE_BYTES
                      then (s, [(tx c, err ''relay_full'' ''relay invite bundle storage limit reached'')])
                      else
                        (let now = i_clock i 3;
                             max_expires = sat_add now MAX_BUNDLE_TTL_MS;
                             expires = max (min expires_at_ms max_expires) (sat_add now 60000);
                             bundle = \<lparr>b_id = bundle_id, b_ciphertext = ctext, b_created_at_ms = now,
                                       b_expires_at_ms = expires\<rparr>;
                             old = dm_get (bundles s) bundle_id;
                             s = s\<lparr>bundles := dm_insert bundle_id bundle (bundles s)\<rparr>;
                             s = (case old of
                                    Some b \<Rightarrow> s\<lparr>total_bundle_bytes :=
                                        atomic_sub_saturating (total_bundle_bytes s)
                                          (length (b_ciphertext b))\<rparr>
                                  | None \<Rightarrow> s);
                             s = s\<lparr>total_bundle_bytes := usize_add (total_bundle_bytes s) bundle_len\<rparr>;
                             s = mark_bundle_dirty bundle_id s
                         in (s, [(tx c, BundleUploaded request_id bundle_id expires)])))))"

definition handle_fetch_bundle ::
    "frame_in \<Rightarrow> string \<Rightarrow> string \<Rightarrow> conn \<Rightarrow> ('t, 'c) app_state \<Rightarrow> ('t, 'c) app_state \<times> outputs" where
  "handle_fetch_bundle i request_id bundle_id c s =
     (let s = prune_expired_bundles (i_clock i 1) s;
          now = i_clock i 2
      in case dm_get (bundles s) bundle_id of
           Some bundle \<Rightarrow>
             if b_expires_at_ms bundle > now
             then (s, [(tx c, Bundle request_id (b_id bundle) (b_ciphertext bundle)
                               (b_expires_at_ms bundle))])
             else (s, [(tx c, err ''bundle_not_found'' ''invite bundle was not found or has expired'')])
         | None \<Rightarrow>
             (s, [(tx c, err ''bundle_not_found'' ''invite bundle was not found or has expired'')]))"


section \<open>Files\<close>

definition handle_upload_chunk ::
    "('t, 'b, 'c) ws_env \<Rightarrow> frame_in \<Rightarrow> string \<Rightarrow> string \<Rightarrow> u32 \<Rightarrow> u32 \<Rightarrow> u64 \<Rightarrow> string \<Rightarrow> string option
     \<Rightarrow> conn \<Rightarrow> ('t, 'c) app_state \<Rightarrow> ('t, 'c) app_state \<times> outputs" where
  "handle_upload_chunk W i request_id transfer_id chunk_index total_chunks declared_bytes ctext pow c s =
     (if \<not> valid_bundle_id transfer_id
      then (s, [(tx c, file_err request_id transfer_id ''bad_request'' ''invalid transfer id'')])
      else
        (case b64_decode W ctext of
           None \<Rightarrow> (s, [(tx c, file_err request_id transfer_id ''bad_request'' ''invalid chunk encoding'')])
         | Some raw \<Rightarrow>
             if chunk_index = 0 \<and> \<not> pow_valid W i transfer_id pow
             then (s, [(tx c, file_err request_id transfer_id ''pow_required''
                               ''invalid proof of work for new file transfer'')])
             else
               (case store_chunk (a_files (w_app W)) (i_cio i) (i_clock i 1) (i_clock i 2) transfer_id
                       chunk_index total_chunks declared_bytes raw (files s) of
                  (fs, Inr stored) \<Rightarrow>
                    (s\<lparr>files := fs\<rparr>,
                     [(tx c, FileChunkStored request_id transfer_id chunk_index
                               (sc_received_chunks stored) (sc_total_chunks stored))])
                | (fs, Inl reject) \<Rightarrow>
                    (s\<lparr>files := fs\<rparr>,
                     [(tx c, file_err request_id transfer_id (reject_code reject)
                               (reject_message reject))]))))"

definition handle_fetch_chunk ::
    "('t, 'b, 'c) ws_env \<Rightarrow> frame_in \<Rightarrow> string \<Rightarrow> string \<Rightarrow> u32 \<Rightarrow> conn \<Rightarrow> ('t, 'c) app_state \<Rightarrow> outputs"
where
  "handle_fetch_chunk W i request_id transfer_id chunk_index c s =
     (if \<not> valid_bundle_id transfer_id
      then [(tx c, file_err request_id transfer_id ''bad_request'' ''invalid transfer id'')]
      else
        (case fetch_chunk (a_files (w_app W)) (i_fio i) transfer_id chunk_index (files s) of
           Inr chunk \<Rightarrow>
             [(tx c, FileChunk request_id transfer_id chunk_index (fc_total_chunks chunk)
                       (fc_total_bytes chunk) (b64_encode W (fc_data chunk)))]
         | Inl reject \<Rightarrow>
             [(tx c, file_err request_id transfer_id (reject_code reject) (reject_message reject))]))"

definition handle_delete_transfer ::
    "('t, 'b, 'c) ws_env \<Rightarrow> frame_in \<Rightarrow> string \<Rightarrow> string \<Rightarrow> conn \<Rightarrow> ('t, 'c) app_state
     \<Rightarrow> ('t, 'c) app_state \<times> outputs" where
  "handle_delete_transfer W i request_id transfer_id c s =
     (if \<not> valid_bundle_id transfer_id
      then (s, [(tx c, file_err request_id transfer_id ''bad_request'' ''invalid transfer id'')])
      else
        (s\<lparr>files := fst (delete_transfer (a_files (w_app W)) (i_fio i) transfer_id (files s))\<rparr>,
         [(tx c, TransferDeleted request_id transfer_id)]))"


section \<open>The frame loop\<close>

text \<open>One parsed frame: the connection, the state, what is sent, and whether the loop ends.\<close>

fun handle_frame ::
    "('t, 'b, 'c) ws_env \<Rightarrow> frame_in \<Rightarrow> client_frame \<Rightarrow> conn \<Rightarrow> ('t, 'c) app_state
     \<Rightarrow> conn \<times> ('t, 'c) app_state \<times> outputs \<times> bool" where
  "handle_frame W i (Hello rid auth_token delivery_token pmin pmax pver pow cert_only) c s =
     (let (c, s, out) = handle_hello W i rid auth_token delivery_token pmin pmax pver pow cert_only c s
      in (c, s, out, False))"
| "handle_frame W i (SetDeliveryTokens request_id tokens) c s =
     (let (s, out) = handle_set_delivery_tokens W request_id tokens c s in (c, s, out, False))"
| "handle_frame W i (IssueSenderCertificate request_id sender dev key) c s =
     (c, s, handle_issue_certificate W i request_id sender dev key c s, False)"
| "handle_frame W i (SendEnvelope client_ref to token etype ctext) c s =
     (let (s, out) = handle_send W i client_ref to token etype ctext c s in (c, s, out, False))"
| "handle_frame W i (UploadBundle request_id bid ctext expires pow) c s =
     (let (s, out) = handle_upload_bundle W i request_id bid ctext expires pow c s
      in (c, s, out, False))"
| "handle_frame W i (FetchBundle request_id bid) c s =
     (let (s, out) = handle_fetch_bundle i request_id bid c s in (c, s, out, False))"
| "handle_frame W i (UploadFileChunk request_id tid ci tc tb ctext pow) c s =
     (let (s, out) = handle_upload_chunk W i request_id tid ci tc tb ctext pow c s
      in (c, s, out, False))"
| "handle_frame W i (FetchFileChunk request_id tid ci) c s =
     (c, s, handle_fetch_chunk W i request_id tid ci c s, False)"
| "handle_frame W i (DeleteTransfer request_id tid) c s =
     (let (s, out) = handle_delete_transfer W i request_id tid c s in (c, s, out, False))"
| "handle_frame W i (Ack ids) c s =
     (let (s, out) = handle_ack W i ids c s in (c, s, out, False))"
| "handle_frame W i RetireMailbox c s =
     (let (s, out, stop) = handle_retire W i c s in (c, s, out, stop))"
| "handle_frame W i Ping c s = (c, s, [(tx c, Pong (i_clock i 1))], False)"

definition count_frame :: "u64 \<Rightarrow> conn \<Rightarrow> conn" where
  "count_frame now c =
     (let c = (if sat_sub now (window_start_ms c) > RATE_WINDOW_MS
               then c\<lparr>window_start_ms := now, frame_count := 0\<rparr> else c)
      in c\<lparr>frame_count := sat_add (frame_count c) 1\<rparr>)"

definition handle_text ::
    "('t, 'b, 'c) ws_env \<Rightarrow> frame_in \<Rightarrow> string \<Rightarrow> conn \<Rightarrow> ('t, 'c) app_state
     \<Rightarrow> conn \<times> ('t, 'c) app_state \<times> outputs \<times> bool" where
  "handle_text W i text c s =
     (let c = count_frame (i_clock i 0) c
      in if frame_count c > MAX_FRAMES_PER_WINDOW
         then (c, s, [(tx c, err ''rate_limited'' ''too many frames on this socket'')], False)
         else if length text > MAX_FRAME_BYTES
         then (c, s, [(tx c, err ''too_large'' ''frame too large'')], False)
         else
           (case w_json W text of
              Inl e \<Rightarrow> (c, s, [(tx c, err ''bad_json'' e)], False)
            | Inr frame \<Rightarrow> handle_frame W i frame c s))"

text \<open>The start and the end of \<open>handle_socket\<close>.\<close>

definition open_socket ::
    "u64 \<Rightarrow> chan \<Rightarrow> ('t, 'c) app_state \<Rightarrow> ('t, 'c) app_state \<times> conn option" where
  "open_socket now ch s =
     (let before = conn_count s;
          s = s\<lparr>conn_count := usize_add (conn_count s) 1\<rparr>
      in if before \<ge> MAX_CONNECTIONS
         then (s\<lparr>conn_count := usize_sub (conn_count s) 1\<rparr>, None)
         else (s, Some \<lparr>tx = ch, recipient = None, window_start_ms = now, frame_count = 0\<rparr>))"

definition close_socket :: "conn \<Rightarrow> ('t, 'c) app_state \<Rightarrow> ('t, 'c) app_state" where
  "close_socket c s =
     (let s = (case recipient c of
                 Some rid \<Rightarrow>
                   if dm_get (online s) rid = Some (tx c)
                   then s\<lparr>online := dm_remove rid (online s)\<rparr> else s
               | None \<Rightarrow> s)
      in s\<lparr>conn_count := usize_sub (conn_count s) 1\<rparr>)"

end
