(* ===== verification/StateProofs.thy ===== *)
theory StateProofs
  imports State QueueProps FileRuns
begin

text \<open>
  The invariant of the shared state and the effect of its operations on it: the counters agree
  with the maps they count, the caps hold, and the write-back sets cover every difference
  between a cache and its table.
\<close>


section \<open>Slot counters\<close>

text \<open>
  Three parts of the relay bound a number of live things by a counter that is reserved before and
  released after: mailboxes, file transfers and connections.
\<close>

locale slot_counter =
  fixes count :: "'s \<Rightarrow> usize" and cap :: "'s \<Rightarrow> usize"
    and reserve :: "'s \<Rightarrow> 's \<times> bool" and release :: "'s \<Rightarrow> 's"
  assumes reserve_free: "count s < cap s \<Longrightarrow> cap s < usize_modulus \<Longrightarrow>
      snd (reserve s) \<and> count (fst (reserve s)) = Suc (count s) \<and> cap (fst (reserve s)) = cap s"
    and reserve_full: "cap s \<le> count s \<Longrightarrow> Suc (count s) < usize_modulus \<Longrightarrow>
      \<not> snd (reserve s) \<and> count (fst (reserve s)) = count s \<and> cap (fst (reserve s)) = cap s"
    and release_one: "0 < count s \<Longrightarrow> count s < usize_modulus \<Longrightarrow>
      count (release s) = count s - 1 \<and> cap (release s) = cap s"
begin

text \<open>A client that releases only what it holds: \<open>held\<close> counts its slots.\<close>

fun slot_run :: "bool list \<Rightarrow> nat \<Rightarrow> 's \<Rightarrow> nat \<times> 's" where
  "slot_run [] held s = (held, s)"
| "slot_run (True # xs) held s =
     (case reserve s of (s, ok) \<Rightarrow> slot_run xs (if ok then Suc held else held) s)"
| "slot_run (False # xs) held s =
     (if held = 0 then slot_run xs held s else slot_run xs (held - 1) (release s))"

lemma slot_run_exact:
  assumes "slot_run xs (count s) s = (held, s')" "count s \<le> cap s" "Suc (cap s) < usize_modulus"
  shows "count s' = held" "held \<le> cap s'" "cap s' = cap s"
proof -
  have "count s' = held \<and> held \<le> cap s' \<and> cap s' = cap s"
    using assms
  proof (induction xs arbitrary: s)
    case (Cons x xs)
    show ?case
    proof (cases x)
      case True
      obtain s1 ok where r: "reserve s = (s1, ok)" by force
      show ?thesis
      proof (cases "count s < cap s")
        case True
        with reserve_free [of s] r Cons.IH [of s1] Cons.prems \<open>x\<close> show ?thesis by simp
      next
        case False
        with reserve_full [of s] r Cons.IH [of s1] Cons.prems \<open>x\<close> show ?thesis by simp
      qed
    next
      case False
      show ?thesis
      proof (cases "count s = 0")
        case True
        with \<open>\<not> x\<close> Cons.IH [of s] Cons.prems show ?thesis by simp
      next
        case False
        have "count s - Suc 0 \<le> cap s" using Cons.prems(2) by simp
        with False \<open>\<not> x\<close> release_one [of s] Cons.IH [of "release s"] Cons.prems show ?thesis by simp
      qed
    qed
  qed auto
  then show "count s' = held" "held \<le> cap s'" "cap s' = cap s" by simp_all
qed

end

interpretation mailbox_slots: slot_counter mailbox_count "\<lambda>_. MAX_MAILBOXES" reserve_mailbox_slot
  "\<lambda>s. s\<lparr>mailbox_count := usize_sub (mailbox_count s) 1\<rparr>"
  by unfold_locales (auto simp: reserve_mailbox_slot_def usize_simps)

interpretation transfer_slots: slot_counter transfer_count "\<lambda>s. max_transfers (config s)"
  "\<lambda>s. map_prod id (\<lambda>r. case r of Inr _ \<Rightarrow> True | Inl _ \<Rightarrow> False) (reserve_slot s)" release_slot
  by unfold_locales (auto simp: reserve_slot_def release_slot_def usize_simps)


section \<open>Mailbox records\<close>

lemma ensure_delivery_hash_ok:
  assumes "ensure_delivery_hash h a = (a', changed)"
    "length (delivery_token_hashes a) \<le> MAX_DELIVERY_TOKENS_PER_MAILBOX"
  shows "length (delivery_token_hashes a') \<le> MAX_DELIVERY_TOKENS_PER_MAILBOX"
    "accepts_delivery_hash a' h" "receive_auth_hash a' = receive_auth_hash a"
    "last_active_ms a' = last_active_ms a"
  using assms
  by (auto simp: ensure_delivery_hash_def Let_def list_ex_iff accepts_delivery_hash_def config_defs
      split: if_splits)

lemma dedup_fold:
  "set (fold (\<lambda>h out. if list_ex (\<lambda>x. x = h) out then out else out @ [h]) hs acc) = set acc \<union> set hs
   \<and> length (fold (\<lambda>h out. if list_ex (\<lambda>x. x = h) out then out else out @ [h]) hs acc)
       \<le> length acc + length hs"
proof (induction hs arbitrary: acc)
  case (Cons h hs)
  from Cons [of acc] Cons [of "acc @ [h]"] show ?case by (auto simp: list_ex_iff)
qed simp

lemma replace_delivery_hashes_ok:
  "length (delivery_token_hashes (replace_delivery_hashes hs a)) \<le> MAX_DELIVERY_TOKENS_PER_MAILBOX"
  "hs \<noteq> [] \<Longrightarrow> length hs \<le> MAX_DELIVERY_TOKENS_PER_MAILBOX \<Longrightarrow>
   accepts_delivery_hash (replace_delivery_hashes hs a) h \<longleftrightarrow> h \<in> set hs"
  "receive_auth_hash (replace_delivery_hashes hs a) = receive_auth_hash a"
  "last_active_ms (replace_delivery_hashes hs a) = last_active_ms a"
proof -
  define out where "out = fold (\<lambda>hash out. if list_ex (\<lambda>h. h = hash) out then out else out @ [hash])
    (take MAX_DELIVERY_TOKENS_PER_MAILBOX hs) []"
  have out: "set out = set (take MAX_DELIVERY_TOKENS_PER_MAILBOX hs)"
    "length out \<le> length (take MAX_DELIVERY_TOKENS_PER_MAILBOX hs)"
    using dedup_fold [of "take MAX_DELIVERY_TOKENS_PER_MAILBOX hs" "[]"] by (simp_all add: out_def)
  show "length (delivery_token_hashes (replace_delivery_hashes hs a)) \<le> MAX_DELIVERY_TOKENS_PER_MAILBOX"
    using out(2) by (simp add: replace_delivery_hashes_def Let_def out_def)
  show "receive_auth_hash (replace_delivery_hashes hs a) = receive_auth_hash a"
    "last_active_ms (replace_delivery_hashes hs a) = last_active_ms a"
    by (simp_all add: replace_delivery_hashes_def Let_def)
  assume hs: "hs \<noteq> []" "length hs \<le> MAX_DELIVERY_TOKENS_PER_MAILBOX"
  with out(1) have set: "set out = set hs" "out \<noteq> []" by auto
  then have "(case out of h # _ \<Rightarrow> h | [] \<Rightarrow> []) \<in> set hs" by (cases out) auto
  moreover have "accepts_delivery_hash (replace_delivery_hashes hs a) h \<longleftrightarrow>
      (case out of h # _ \<Rightarrow> h | [] \<Rightarrow> []) = h \<or> h \<in> set out"
    unfolding replace_delivery_hashes_def Let_def out_def [symmetric]
    by (auto simp: accepts_delivery_hash_def list_ex_iff)
  ultimately show "accepts_delivery_hash (replace_delivery_hashes hs a) h \<longleftrightarrow> h \<in> set hs"
    using set by auto
qed


section \<open>The invariant\<close>

definition auths_ok :: "('t, 'c) app_state \<Rightarrow> bool" where
  "auths_ok s \<longleftrightarrow>
     dm_wf (auths s) \<and> mailbox_count s = length (auths s) \<and> mailbox_count s \<le> MAX_MAILBOXES \<and>
     (\<forall>rid a. dm_get (auths s) rid = Some a \<longrightarrow>
        CHR '':'' \<notin> set rid \<and> length (delivery_token_hashes a) \<le> MAX_DELIVERY_TOKENS_PER_MAILBOX)"

definition bundle_len :: "hosted_bundle \<Rightarrow> nat" where
  "bundle_len b = length (b_ciphertext b)"

abbreviation bundle_sum :: "(string, hosted_bundle) dashmap \<Rightarrow> nat" where
  "bundle_sum \<equiv> dm_sum bundle_len"

definition bundles_ok :: "('t, 'c) app_state \<Rightarrow> bool" where
  "bundles_ok s \<longleftrightarrow>
     dm_wf (bundles s) \<and> length (bundles s) \<le> MAX_BUNDLES \<and>
     total_bundle_bytes s = bundle_sum (bundles s) \<and> total_bundle_bytes s \<le> MAX_TOTAL_BUNDLE_BYTES \<and>
     (\<forall>k b. dm_get (bundles s) k = Some b \<longrightarrow> b_id b = k)"

definition app_inv :: "('t, 'b, 'c) app_env \<Rightarrow> ('t, 'c) app_state \<Rightarrow> bool" where
  "app_inv E s \<longleftrightarrow>
     queue_inv (a_queue E) (queues s) \<and> file_inv (a_files E) (files s) \<and> auths_ok s \<and> bundles_ok s"

text \<open>
  The two write-back relations. A refreshed activity lease is not always marked dirty (a send
  that is refused by the rate limit refreshes it and stops), so mailbox records agree with their
  table up to the lease; bundles agree exactly.
\<close>

definition same_auth :: "mailbox_auth \<Rightarrow> mailbox_auth \<Rightarrow> bool" where
  "same_auth a b \<longleftrightarrow> a\<lparr>last_active_ms := last_active_ms b\<rparr> = b"

definition meta_synced :: "('t, 'b, 'c) app_env \<Rightarrow> ('t, 'c) app_state \<Rightarrow> bool" where
  "meta_synced E s \<longleftrightarrow>
     synced (a_auth E) (a_auth_codec E) same_auth (auths s) (dirty_auth s) (auth_table s) \<and>
     synced (a_bundles E) (a_bundle_codec E) (=) (bundles s) (dirty_bundles s) (bundle_table s)"

lemma same_auth_iff:
  "same_auth a b \<longleftrightarrow> receive_auth_hash a = receive_auth_hash b
     \<and> delivery_token_hash a = delivery_token_hash b \<and> delivery_token_hashes a = delivery_token_hashes b"
  by (cases a, cases b) (auto simp: same_auth_def)

locale app_backend =
  qb: queue_backend "a_queue E" + fb: file_backend "a_files E" +
  at: redb_table "a_auth E" + ac: serde_codec "a_auth_codec E" +
  bt: redb_table "a_bundles E" + bc: serde_codec "a_bundle_codec E"
  for E :: "('t, 'b, 'c) app_env"

sublocale app_backend \<subseteq> aw: write_back "a_auth E" "a_auth_codec E" same_auth
  by unfold_locales (simp add: same_auth_iff)

sublocale app_backend \<subseteq> bw: write_back "a_bundles E" "a_bundle_codec E" "(=)"
  by unfold_locales simp


section \<open>Pruning bundles\<close>

lemma prune_fold:
  fixes s :: "('t, 'c) app_state"
  assumes "dm_wf (bundles s)" "distinct (map fst es)"
    "\<And>k n. (k, n) \<in> set es \<Longrightarrow> \<exists>b. dm_get (bundles s) k = Some b \<and> n = length (b_ciphertext b)"
    "freed + bundle_sum (bundles s) < usize_modulus"
    "fold prune_one es (s, freed) = (s', freed')"
  shows "dm_wf (bundles s') \<and> length (bundles s') \<le> length (bundles s)
    \<and> (\<forall>k. dm_get (bundles s') k = (if k \<in> fst ` set es then None else dm_get (bundles s) k))
    \<and> bundle_sum (bundles s') + freed' = bundle_sum (bundles s) + freed
    \<and> (\<forall>k. dm_contains (dirty_bundles s') k \<longleftrightarrow> dm_contains (dirty_bundles s) k \<or> k \<in> fst ` set es)
    \<and> s' = s\<lparr>bundles := bundles s', dirty_bundles := dirty_bundles s'\<rparr>"
  using assms
proof (induction es arbitrary: s freed)
  case (Cons e es)
  obtain k n where e: "e = (k, n)" by force
  obtain b where b: "dm_get (bundles s) k = Some b" "n = length (b_ciphertext b)"
    using Cons.prems(3) [of k n] e by auto
  let ?s = "mark_bundle_dirty k (s\<lparr>bundles := dm_remove k (bundles s)\<rparr>)"
  have sum: "bundle_sum (dm_remove k (bundles s)) + n = bundle_sum (bundles s)"
    using dm_sum_remove [OF Cons.prems(1) b(1), of bundle_len] b(2) by (simp add: bundle_len_def)
  have step: "prune_one e (s, freed) = (?s, freed + n)"
    using b sum Cons.prems(4) by (simp add: e prune_one_def dm_contains_def usize_simps)
  have get: "\<exists>b. dm_get (bundles ?s) j = Some b \<and> m = length (b_ciphertext b)"
    if "(j, m) \<in> set es" for j m
    using Cons.prems(2,3) that e by (force simp: mark_bundle_dirty_def image_iff)
  have "dm_wf (bundles s') \<and> length (bundles s') \<le> length (bundles ?s)
    \<and> (\<forall>k. dm_get (bundles s') k = (if k \<in> fst ` set es then None else dm_get (bundles ?s) k))
    \<and> bundle_sum (bundles s') + freed' = bundle_sum (bundles ?s) + (freed + n)
    \<and> (\<forall>k. dm_contains (dirty_bundles s') k \<longleftrightarrow> dm_contains (dirty_bundles ?s) k \<or> k \<in> fst ` set es)
    \<and> s' = ?s\<lparr>bundles := bundles s', dirty_bundles := dirty_bundles s'\<rparr>"
    by (rule Cons.IH) (use Cons.prems step sum get e in \<open>auto simp: mark_bundle_dirty_def\<close>)
  then show ?case
    using sum dm_length_remove [OF Cons.prems(1) b(1)] e
    by (auto simp: mark_bundle_dirty_def dm_contains_def)
qed auto

lemma prune_effect:
  fixes s :: "('t, 'c) app_state"
  assumes ok: "bundles_ok s" and eq: "s' = prune_expired_bundles now s"
  shows "bundles_ok s'"
    "\<And>k b. dm_get (bundles s') k = Some b \<Longrightarrow> dm_get (bundles s) k = Some b"
    "\<And>k b. dm_get (bundles s) k = Some b \<Longrightarrow> now < b_expires_at_ms b \<Longrightarrow> dm_get (bundles s') k = Some b"
    "\<And>k. dm_contains (dirty_bundles s) k \<Longrightarrow> dm_contains (dirty_bundles s') k"
    "\<And>k. dm_get (bundles s') k \<noteq> dm_get (bundles s) k \<Longrightarrow> dm_contains (dirty_bundles s') k"
    "s' = s\<lparr>bundles := bundles s', dirty_bundles := dirty_bundles s',
       total_bundle_bytes := total_bundle_bytes s', last_bundle_prune_ms := last_bundle_prune_ms s'\<rparr>"
proof -
  define s0 where "s0 = s\<lparr>last_bundle_prune_ms := now\<rparr>"
  define es where "es = map (\<lambda>(k, b). (k, length (b_ciphertext b)))
    (filter (\<lambda>(k, b). b_expires_at_ms b \<le> now) (bundles s))"
  have wf: "dm_wf (bundles s)" and tot: "total_bundle_bytes s = bundle_sum (bundles s)"
    and lim: "bundle_sum (bundles s) < usize_modulus"
    using ok by (auto simp: bundles_ok_def config_defs usize_modulus_def)
  have gone: "k \<in> fst ` set es \<longleftrightarrow> (\<exists>b. dm_get (bundles s) k = Some b \<and> b_expires_at_ms b \<le> now)" for k
    by (force simp: es_def dm_get_set [OF wf, symmetric] image_iff)
  consider (quiet) "s' = s \<or> s' = s0"
    | (pruned) s1 freed where "fold prune_one es (s0, 0) = (s1, freed)"
        "s' = s1\<lparr>total_bundle_bytes := atomic_sub_saturating (total_bundle_bytes s1) freed\<rparr>"
    using eq unfolding prune_expired_bundles_def Let_def s0_def es_def
    by (cases "fold prune_one es (s0, 0)") (auto simp: s0_def es_def split: if_splits prod.splits)
  then have "bundles_ok s' \<and> (\<forall>k b. dm_get (bundles s') k = Some b \<longrightarrow> dm_get (bundles s) k = Some b)
    \<and> (\<forall>k b. dm_get (bundles s) k = Some b \<and> now < b_expires_at_ms b \<longrightarrow> dm_get (bundles s') k = Some b)
    \<and> (\<forall>k. dm_contains (dirty_bundles s) k \<longrightarrow> dm_contains (dirty_bundles s') k)
    \<and> (\<forall>k. dm_get (bundles s') k \<noteq> dm_get (bundles s) k \<longrightarrow> dm_contains (dirty_bundles s') k)
    \<and> s' = s\<lparr>bundles := bundles s', dirty_bundles := dirty_bundles s',
       total_bundle_bytes := total_bundle_bytes s', last_bundle_prune_ms := last_bundle_prune_ms s'\<rparr>"
  proof cases
    case quiet
    with ok show ?thesis by (auto simp: s0_def bundles_ok_def)
  next
    case pruned
    have "distinct (map fst es)"
      using wf by (simp add: es_def comp_def case_prod_unfold dm_wf_def distinct_map_filter)
    moreover have "\<And>k n. (k, n) \<in> set es \<Longrightarrow> \<exists>b. dm_get (bundles s0) k = Some b \<and> n = length (b_ciphertext b)"
      using wf by (auto simp: es_def s0_def dm_get_set)
    ultimately have F: "dm_wf (bundles s1)" "length (bundles s1) \<le> length (bundles s0)"
      "\<And>k. dm_get (bundles s1) k = (if k \<in> fst ` set es then None else dm_get (bundles s0) k)"
      "bundle_sum (bundles s1) + freed = bundle_sum (bundles s0) + 0"
      "\<And>k. dm_contains (dirty_bundles s1) k \<longleftrightarrow> dm_contains (dirty_bundles s0) k \<or> k \<in> fst ` set es"
      "s1 = s0\<lparr>bundles := bundles s1, dirty_bundles := dirty_bundles s1\<rparr>"
      using prune_fold [of s0 es 0 s1 freed] wf lim pruned(1) by (simp_all add: s0_def)
    have fields: "bundles s' = bundles s1" "dirty_bundles s' = dirty_bundles s1"
      by (simp_all add: pruned(2))
    have tb: "total_bundle_bytes s1 = total_bundle_bytes s0"
      by (subst F(6)) simp
    then have tb': "total_bundle_bytes s' = bundle_sum (bundles s')"
      using F(4) tot by (simp add: pruned(2) atomic_sub_saturating_def usize_sat_sub_def s0_def)
    have rest: "s' = s\<lparr>bundles := bundles s', dirty_bundles := dirty_bundles s',
       total_bundle_bytes := total_bundle_bytes s', last_bundle_prune_ms := last_bundle_prune_ms s'\<rparr>"
      unfolding pruned(2) by (subst F(6), subst F(6)) (simp add: s0_def)
    have "bundles_ok s'"
      using ok F(1-4) tb' by (auto simp: bundles_ok_def fields s0_def split: if_splits)
    then show ?thesis
      using rest F(3,5) gone by (auto simp: fields s0_def not_less split: if_splits)
  qed
  then show "bundles_ok s'"
    "\<And>k b. dm_get (bundles s') k = Some b \<Longrightarrow> dm_get (bundles s) k = Some b"
    "\<And>k b. dm_get (bundles s) k = Some b \<Longrightarrow> now < b_expires_at_ms b \<Longrightarrow> dm_get (bundles s') k = Some b"
    "\<And>k. dm_contains (dirty_bundles s) k \<Longrightarrow> dm_contains (dirty_bundles s') k"
    "\<And>k. dm_get (bundles s') k \<noteq> dm_get (bundles s) k \<Longrightarrow> dm_contains (dirty_bundles s') k"
    "s' = s\<lparr>bundles := bundles s', dirty_bundles := dirty_bundles s',
       total_bundle_bytes := total_bundle_bytes s', last_bundle_prune_ms := last_bundle_prune_ms s'\<rparr>"
    by blast+
qed


section \<open>Collecting idle mailboxes\<close>

text \<open>One collection: what it does when the mailbox is idle and offline, and otherwise nothing.\<close>

lemma usize_sub_one: "0 < n \<Longrightarrow> n \<le> MAX_MAILBOXES \<Longrightarrow> usize_sub n 1 = n - 1"
  by (rule usize_sub_exact) (simp_all add: config_defs usize_modulus_def)

lemma fold_remove_all: "fold dm_remove (map fst d) d = []" for d :: "('k \<times> 'v) list"
proof -
  have "fold dm_remove ks d' = filter (\<lambda>(k, _). k \<notin> set ks) d'" for ks and d' :: "('k \<times> 'v) list"
    by (induction ks arbitrary: d') (auto simp: AList.delete_eq intro!: filter_cong)
  then show ?thesis by (force simp: filter_empty_conv)
qed

context app_backend
begin

definition same_rest :: "('t, 'c) app_state \<Rightarrow> ('t, 'c) app_state \<Rightarrow> bool" where
  "same_rest s s' \<longleftrightarrow> auth_table s' = auth_table s \<and> bundle_table s' = bundle_table s \<and>
     files s' = files s \<and> limits s' = limits s \<and> online s' = online s \<and> bundles s' = bundles s \<and>
     total_bundle_bytes s' = total_bundle_bytes s \<and>
     trust_root_public_b64 s' = trust_root_public_b64 s \<and> dirty_bundles s' = dirty_bundles s \<and>
     conn_count s' = conn_count s \<and> last_bundle_prune_ms s' = last_bundle_prune_ms s"

lemma purge_fst_inv:
  assumes "queue_inv (a_queue E) q" "CHR '':'' \<notin> set m"
  shows "queue_inv (a_queue E) (fst (purge_mailbox (a_queue E) io m q))"
    "CHR '':'' \<notin> set m' \<Longrightarrow> m' \<noteq> m \<Longrightarrow>
     mail (a_queue E) (fst (purge_mailbox (a_queue E) io m q)) m' = mail (a_queue E) q m'"
proof -
  obtain q' r where eq: "purge_mailbox (a_queue E) io m q = (q', r)" by force
  have "queue_inv (a_queue E) q' \<and> (\<forall>m'. CHR '':'' \<notin> set m' \<and> m' \<noteq> m \<longrightarrow>
      mail (a_queue E) q' m' = mail (a_queue E) q m')"
  proof (cases r)
    case None
    with eq qb.failed_removal(2) assms(1) show ?thesis by blast
  next
    case (Some n)
    with qb.purge_effect(1,4) [OF assms eq [unfolded Some]] show ?thesis by blast
  qed
  with eq show "queue_inv (a_queue E) (fst (purge_mailbox (a_queue E) io m q))"
    "CHR '':'' \<notin> set m' \<Longrightarrow> m' \<noteq> m \<Longrightarrow>
     mail (a_queue E) (fst (purge_mailbox (a_queue E) io m q)) m' = mail (a_queue E) q m'" by simp_all
qed

text \<open>
  After a flush that failed the tables may lag behind the caches for good, so what follows is
  proved with and without the write-back relation: \<open>sy\<close> says whether it is claimed.
\<close>

definition auth_sync :: "bool \<Rightarrow> ('t, 'c) app_state \<Rightarrow> bool" where
  "auth_sync sy s \<longleftrightarrow>
     (sy \<longrightarrow> synced (a_auth E) (a_auth_codec E) same_auth (auths s) (dirty_auth s) (auth_table s))"

lemma gc_one_effect:
  assumes inv: "queue_inv (a_queue E) (queues s)" "auths_ok s"
    and syn: "auth_sync sy s"
    and eq: "s' = gc_one E io now rid s"
  defines "hit \<equiv> \<exists>a. dm_get (auths s) rid = Some a \<and> idle now a \<and> \<not> dm_contains (online s) rid"
  shows "queue_inv (a_queue E) (queues s')" "auths_ok s'" "same_rest s s'"
    "auth_sync sy s'"
    "dm_get (auths s') = (if hit then (dm_get (auths s))(rid := None) else dm_get (auths s))"
    "\<And>m. CHR '':'' \<notin> set m \<Longrightarrow> m \<noteq> rid \<or> \<not> hit \<Longrightarrow>
       mail (a_queue E) (queues s') m = mail (a_queue E) (queues s) m"
proof -
  have "queue_inv (a_queue E) (queues s') \<and> auths_ok s' \<and> same_rest s s'
    \<and> auth_sync sy s'
    \<and> dm_get (auths s') = (if hit then (dm_get (auths s))(rid := None) else dm_get (auths s))
    \<and> (\<forall>m. CHR '':'' \<notin> set m \<longrightarrow> m \<noteq> rid \<or> \<not> hit \<longrightarrow>
       mail (a_queue E) (queues s') m = mail (a_queue E) (queues s) m)"
  proof (cases hit)
    case False
    then have "s' = s" by (auto simp: eq gc_one_def hit_def split: option.splits)
    with False inv syn show ?thesis by (simp add: same_rest_def)
  next
    case True
    then obtain a where a: "dm_get (auths s) rid = Some a" "idle now a" "\<not> dm_contains (online s) rid"
      by (auto simp: hit_def)
    have s': "s' = s\<lparr>auths := dm_remove rid (auths s), mailbox_count := usize_sub (mailbox_count s) 1,
        dirty_auth := dm_insert rid () (dirty_auth s),
        queues := fst (purge_mailbox (a_queue E) (io rid) rid (queues s)),
        send_rate := dm_remove rid (send_rate s)\<rparr>"
      using a by (simp add: eq gc_one_def mark_auth_dirty_def Let_def)
    have rid: "CHR '':'' \<notin> set rid" using inv(2) a(1) by (auto simp: auths_ok_def)
    have len: "length (auths s) = Suc (length (dm_remove rid (auths s)))"
      using inv(2) a(1) by (intro dm_length_remove) (auto simp: auths_ok_def)
    have "auths_ok s'"
      using inv(2) len by (auto simp: auths_ok_def s' usize_sub_one [simplified] split: if_splits)
    moreover have "auth_sync sy s'"
      using syn aw.synced_change [of "auths s" "dirty_auth s" "auth_table s" rid "dm_remove rid (auths s)"]
      by (auto simp: s' auth_sync_def)
    ultimately show ?thesis
      using True purge_fst_inv [OF inv(1) rid, where io = "io rid"] by (simp add: s' same_rest_def)
  qed
  then show "queue_inv (a_queue E) (queues s')" "auths_ok s'" "same_rest s s'"
    "auth_sync sy s'"
    "dm_get (auths s') = (if hit then (dm_get (auths s))(rid := None) else dm_get (auths s))"
    "\<And>m. CHR '':'' \<notin> set m \<Longrightarrow> m \<noteq> rid \<or> \<not> hit \<Longrightarrow>
       mail (a_queue E) (queues s') m = mail (a_queue E) (queues s) m" by blast+
qed

lemma gc_fold_effect:
  assumes "queue_inv (a_queue E) (queues s)" "auths_ok s"
    "auth_sync sy s"
    "\<And>rid. rid \<in> set rids \<Longrightarrow> \<not> dm_contains (online s) rid"
    "\<And>rid a. rid \<in> set rids \<Longrightarrow> dm_get (auths s) rid = Some a \<Longrightarrow> idle now a"
  shows "queue_inv (a_queue E) (queues (fold (gc_one E io now) rids s))
    \<and> auths_ok (fold (gc_one E io now) rids s) \<and> same_rest s (fold (gc_one E io now) rids s)
    \<and> auth_sync sy (fold (gc_one E io now) rids s)
    \<and> dm_get (auths (fold (gc_one E io now) rids s))
        = (\<lambda>rid. if rid \<in> set rids then None else dm_get (auths s) rid)
    \<and> (\<forall>m. CHR '':'' \<notin> set m \<and> m \<notin> set rids \<longrightarrow>
        mail (a_queue E) (queues (fold (gc_one E io now) rids s)) m = mail (a_queue E) (queues s) m)"
  using assms
proof (induction rids arbitrary: s)
  case (Cons rid rids)
  let ?s = "gc_one E io now rid s"
  note G = gc_one_effect [OF Cons.prems(1-3) refl, where io = io and now = now and rid = rid]
  have on: "online ?s = online s" using G(3) by (simp add: same_rest_def)
  have get: "dm_get (auths ?s) = (dm_get (auths s))(rid := None)"
  proof (cases "dm_get (auths s) rid")
    case None
    with G(5) show ?thesis by (simp add: fun_upd_idem)
  next
    case (Some a)
    with G(5) Cons.prems(4) [of rid] Cons.prems(5) [of rid a] show ?thesis by simp
  qed
  have trans: "same_rest s t" if "same_rest ?s t" for t
    using G(3) that by (simp add: same_rest_def)
  have mailq: "mail (a_queue E) (queues ?s) m = mail (a_queue E) (queues s) m"
    if "CHR '':'' \<notin> set m" "m \<noteq> rid" for m using G(6) that by blast
  have "\<not> dm_contains (online ?s) r" if "r \<in> set rids" for r
    using Cons.prems(4) that by (simp add: on)
  moreover have "idle now a" if "r \<in> set rids" "dm_get (auths ?s) r = Some a" for r a
    using Cons.prems(5) that by (auto simp: get split: if_splits)
  ultimately have IH: "queue_inv (a_queue E) (queues (fold (gc_one E io now) rids ?s))
    \<and> auths_ok (fold (gc_one E io now) rids ?s) \<and> same_rest ?s (fold (gc_one E io now) rids ?s)
    \<and> auth_sync sy (fold (gc_one E io now) rids ?s)
    \<and> dm_get (auths (fold (gc_one E io now) rids ?s))
        = (\<lambda>rid. if rid \<in> set rids then None else dm_get (auths ?s) rid)
    \<and> (\<forall>m. CHR '':'' \<notin> set m \<and> m \<notin> set rids \<longrightarrow>
        mail (a_queue E) (queues (fold (gc_one E io now) rids ?s)) m = mail (a_queue E) (queues ?s) m)"
    by (intro Cons.IH [OF G(1,2,4)])
  then have "dm_get (auths (fold (gc_one E io now) (rid # rids) s))
      = (\<lambda>r. if r \<in> set (rid # rids) then None else dm_get (auths s) r)"
    unfolding get by auto
  with IH trans mailq show ?case by simp
qed (auto simp: same_rest_def)

lemma gc_effect:
  assumes inv: "app_inv E s" and syn: "sy \<Longrightarrow> meta_synced E s" and eq: "s' = gc_idle_mailboxes E io now s"
  defines "gone \<equiv> \<lambda>rid. \<exists>a. dm_get (auths s) rid = Some a \<and> idle now a \<and> \<not> dm_contains (online s) rid
    \<and> (read_ok (io rid) \<longrightarrow> mail (a_queue E) (queues s) rid = [])"
  shows "app_inv E s'" "sy \<Longrightarrow> meta_synced E s'" "same_rest s s'"
    "dm_get (auths s') = (\<lambda>rid. if gone rid then None else dm_get (auths s) rid)"
    "\<And>m. CHR '':'' \<notin> set m \<Longrightarrow> \<not> gone m \<Longrightarrow>
       mail (a_queue E) (queues s') m = mail (a_queue E) (queues s) m"
proof -
  define stale where "stale = filter (\<lambda>rid.
    (case is_empty (a_queue E) (io rid) rid (queues s) of Some b \<Rightarrow> b | None \<Rightarrow> True)
      \<and> \<not> dm_contains (online s) rid) (map fst (filter (\<lambda>(k, auth). idle now auth) (auths s)))"
  have q: "queue_inv (a_queue E) (queues s)" and ok: "auths_ok s"
    and as: "auth_sync sy s"
    using inv syn by (auto simp: app_inv_def meta_synced_def auth_sync_def)
  have wf: "dm_wf (auths s)" using ok by (simp add: auths_ok_def)
  have emp: "(case is_empty (a_queue E) (io rid) rid (queues s) of Some b \<Rightarrow> b | None \<Rightarrow> True)
      \<longleftrightarrow> (read_ok (io rid) \<longrightarrow> mail (a_queue E) (queues s) rid = [])"
    if "CHR '':'' \<notin> set rid" for rid
    using qb.is_empty_iff [OF q that] by (cases "read_ok (io rid)") (auto simp: is_empty_def)
  have col: "CHR '':'' \<notin> set rid" if "dm_get (auths s) rid = Some a" for rid a
    using ok that by (auto simp: auths_ok_def)
  have mem: "rid \<in> set stale \<longleftrightarrow> gone rid" for rid
  proof -
    have "rid \<in> set (map fst (filter (\<lambda>(k, auth). idle now auth) (auths s)))
        \<longleftrightarrow> (\<exists>a. dm_get (auths s) rid = Some a \<and> idle now a)"
      by (force simp: dm_get_set [OF wf, symmetric])
    then show ?thesis using emp col unfolding stale_def gone_def by auto
  qed
  have s': "s' = fold (gc_one E io now) stale s"
    by (simp add: eq gc_idle_mailboxes_def stale_def Let_def)
  have F: "queue_inv (a_queue E) (queues s') \<and> auths_ok s' \<and> same_rest s s'
    \<and> auth_sync sy s'
    \<and> dm_get (auths s') = (\<lambda>rid. if rid \<in> set stale then None else dm_get (auths s) rid)
    \<and> (\<forall>m. CHR '':'' \<notin> set m \<and> m \<notin> set stale \<longrightarrow>
        mail (a_queue E) (queues s') m = mail (a_queue E) (queues s) m)"
    unfolding s' using mem by (intro gc_fold_effect [OF q ok as]) (auto simp: gone_def)
  then show "dm_get (auths s') = (\<lambda>rid. if gone rid then None else dm_get (auths s) rid)"
    "\<And>m. CHR '':'' \<notin> set m \<Longrightarrow> \<not> gone m \<Longrightarrow>
       mail (a_queue E) (queues s') m = mail (a_queue E) (queues s) m" "same_rest s s'"
    by (auto simp: mem)
  from F inv syn show "app_inv E s'" "sy \<Longrightarrow> meta_synced E s'"
    by (auto simp: app_inv_def meta_synced_def bundles_ok_def same_rest_def auth_sync_def)
qed


section \<open>Write-back and restart\<close>

lemma flush_effect:
  assumes syn: "meta_synced E s" and eq: "flush_dirty_meta E io1 io2 s = (s', Some ())"
  shows "meta_synced E s'" "dirty_auth s' = []" "dirty_bundles s' = []"
    "s' = s\<lparr>dirty_auth := [], dirty_bundles := [], auth_table := auth_table s',
       bundle_table := bundle_table s'\<rparr>"
    "\<And>k. rel_option same_auth (stored_at (a_auth E) (a_auth_codec E) (auth_table s') k) (dm_get (auths s) k)"
    "\<And>k. dm_contains (dirty_auth s) k \<Longrightarrow>
       stored_at (a_auth E) (a_auth_codec E) (auth_table s') k = dm_get (auths s) k"
    "\<And>k. stored_at (a_bundles E) (a_bundle_codec E) (bundle_table s') k = dm_get (bundles s) k"
proof -
  obtain at bt where f: "flush_items (a_auth E) (a_auth_codec E) io1
      (map (\<lambda>(k, _). (k, dm_get (auths s) k)) (dirty_auth s)) (auth_table s) = (at, Some ())"
    "flush_items (a_bundles E) (a_bundle_codec E) io2
      (map (\<lambda>(k, _). (k, dm_get (bundles s) k)) (dirty_bundles s)) (bundle_table s) = (bt, Some ())"
    and s': "s' = s\<lparr>dirty_auth := [], auth_table := at, dirty_bundles := [], bundle_table := bt\<rparr>"
    using eq by (auto simp: flush_dirty_meta_def Let_def fold_remove_all split: prod.splits option.splits)
  have A: "synced (a_auth E) (a_auth_codec E) same_auth (auths s) [] at"
    and B: "synced (a_bundles E) (a_bundle_codec E) (=) (bundles s) [] bt"
    using syn aw.flush_dirty_synced(1) [OF _ f(1)] bw.flush_dirty_synced(1) [OF _ f(2)]
    by (auto simp: meta_synced_def)
  then show "meta_synced E s'" by (simp add: meta_synced_def s')
  show "dirty_auth s' = []" "dirty_bundles s' = []" by (simp_all add: s')
  show "s' = s\<lparr>dirty_auth := [], dirty_bundles := [], auth_table := auth_table s',
      bundle_table := bundle_table s'\<rparr>" by (cases s) (simp add: s')
  show "rel_option same_auth (stored_at (a_auth E) (a_auth_codec E) (auth_table s') k) (dm_get (auths s) k)"
    for k using A by (auto simp: synced_def s' dm_contains_def)
  show "dm_contains (dirty_auth s) k \<Longrightarrow>
      stored_at (a_auth E) (a_auth_codec E) (auth_table s') k = dm_get (auths s) k" for k
    using syn aw.flush_dirty_synced(2) [OF _ f(1)] by (auto simp: meta_synced_def s')
  show "stored_at (a_bundles E) (a_bundle_codec E) (bundle_table s') k = dm_get (bundles s) k" for k
    using B by (auto simp: synced_def s' dm_contains_def option.rel_eq)
qed

end

text \<open>What the two loops of \<open>build\<close> compute from the loaded entries.\<close>

definition fresh_lease :: "u64 \<Rightarrow> mailbox_auth \<Rightarrow> mailbox_auth" where
  "fresh_lease now a = (if last_active_ms a = 0 then a\<lparr>last_active_ms := now\<rparr> else a)"

lemma same_auth_fresh: "same_auth a (fresh_lease now a)"
  by (simp add: same_auth_iff fresh_lease_def)

lemma fold_insert_get:
  assumes "distinct (map fst es)"
  shows "dm_get (fold (\<lambda>(k, v). dm_insert k (f v)) es m) k
      = (case map_of es k of Some v \<Rightarrow> Some (f v) | None \<Rightarrow> dm_get m k)"
    "dm_wf m \<Longrightarrow> dm_wf (fold (\<lambda>(k, v). dm_insert k (f v)) es m)"
    "length (fold (\<lambda>(k, v). dm_insert k (f v)) es m) \<le> length m + length es"
proof -
  show "dm_get (fold (\<lambda>(k, v). dm_insert k (f v)) es m) k
      = (case map_of es k of Some v \<Rightarrow> Some (f v) | None \<Rightarrow> dm_get m k)"
    using assms
  proof (induction es arbitrary: m)
    case (Cons e es)
    obtain j v where e: "e = (j, v)" by force
    then have "map_of es j = None" using Cons.prems by (simp add: map_of_eq_None_iff)
    with Cons e show ?case by (auto split: option.splits)
  qed simp
  show "dm_wf m \<Longrightarrow> dm_wf (fold (\<lambda>(k, v). dm_insert k (f v)) es m)"
    by (induction es arbitrary: m) auto
  show "length (fold (\<lambda>(k, v). dm_insert k (f v)) es m) \<le> length m + length es"
  proof (induction es arbitrary: m)
    case (Cons e es)
    obtain j v where e: "e = (j, v)" by force
    have "length (dm_insert j (f v) m) \<le> Suc (length m)"
      by (cases "dm_get m j") (simp_all add: dm_length_insert_new dm_length_insert_old)
    with Cons [of "dm_insert j (f v) m"] e show ?case by simp
  qed simp
qed

lemma build_auths_fold: "build_auths now es = fold (\<lambda>(k, v). dm_insert k (fresh_lease now v)) es []"
  by (simp add: build_auths_def fresh_lease_def)

lemma build_bundles_fold:
  assumes "list_all (\<lambda>(k, b). b_id b = k) es" "distinct (map fst es)"
    "sum_list (map (bundle_len \<circ> snd) es) < usize_modulus"
  shows "build_bundles es = (fold (\<lambda>(k, v). dm_insert k v) es [], sum_list (map (bundle_len \<circ> snd) es))"
    "bundle_sum (fold (\<lambda>(k, v). dm_insert k v) es []) = sum_list (map (bundle_len \<circ> snd) es)"
proof -
  have "fold (\<lambda>(_, bundle) (bs, n). (dm_insert (b_id bundle) bundle bs,
        usize_sat_add n (length (b_ciphertext bundle)))) es (m, n)
      = (fold (\<lambda>(k, v). dm_insert k v) es m, n + sum_list (map (bundle_len \<circ> snd) es))"
    if "n + sum_list (map (bundle_len \<circ> snd) es) < usize_modulus" for m n
    using assms(1) that
  proof (induction es arbitrary: m n)
    case (Cons e es)
    obtain k b where e: "e = (k, b)" by force
    with Cons show ?case by (simp add: usize_simps bundle_len_def)
  qed simp
  with assms(3) show "build_bundles es = (fold (\<lambda>(k, v). dm_insert k v) es [], sum_list (map (bundle_len \<circ> snd) es))"
    by (simp add: build_bundles_def)
  have "bundle_sum (fold (\<lambda>(k, v). dm_insert k v) es m)
      = bundle_sum m + sum_list (map (bundle_len \<circ> snd) es)"
    if "\<And>k. k \<in> fst ` set es \<Longrightarrow> dm_get m k = None" for m
    using assms(2) that
  proof (induction es arbitrary: m)
    case (Cons e es)
    obtain k b where e: "e = (k, b)" by force
    have "dm_get m k = None" using Cons.prems(2) e by simp
    moreover have "dm_get (dm_insert k b m) j = None" if j: "j \<in> fst ` set es" for j
    proof -
      have "j \<noteq> k" using Cons.prems(1) e j by auto
      moreover have "dm_get m j = None" using Cons.prems(2) j by simp
      ultimately show ?thesis by simp
    qed
    then have "bundle_sum (fold (\<lambda>(k, v). dm_insert k v) es (dm_insert k b m))
        = bundle_sum (dm_insert k b m) + sum_list (map (bundle_len \<circ> snd) es)"
      using Cons.prems(1) by (intro Cons.IH) simp_all
    ultimately show ?case using e by (simp add: dm_sum_insert_new comp_def)
  qed simp
  then show "bundle_sum (fold (\<lambda>(k, v). dm_insert k v) es []) = sum_list (map (bundle_len \<circ> snd) es)"
    by simp
qed


text \<open>A map with the entries of another has its sums and its size.\<close>

lemma dm_same_get:
  assumes "dm_wf m" "dm_wf m'" "dm_get m = dm_get m'"
  shows "dm_sum f m = dm_sum f m'" "length m = length m'"
proof -
  have "(k, v) \<in> set m \<longleftrightarrow> (k, v) \<in> set m'" for k v
    using assms by (simp add: dm_get_set)
  then have "set m = set m'" by auto
  moreover have "distinct m" "distinct m'" using assms(1,2) by (simp_all add: dm_wf_def distinct_map)
  ultimately have eq: "mset m = mset m'" by (simp add: set_eq_iff_mset_eq_distinct)
  then show "length m = length m'" by (rule mset_eq_length)
  have "mset (map (f \<circ> snd) m) = mset (map (f \<circ> snd) m')" using eq by simp
  then show "dm_sum f m = dm_sum f m'" unfolding dm_sum_def by (metis sum_mset_sum_list)
qed

lemma dm_length_dom: "dm_wf m \<Longrightarrow> length m = card (dom (dm_get m))"
  unfolding dm_wf_def dom_map_of_conv_image_fst by (metis distinct_card length_map set_map)

context app_backend
begin

lemma build_effect:
  assumes ok: "auths_ok s" "bundles_ok s" and syn: "meta_synced E s"
    and clean: "dirty_auth s = []" "dirty_bundles s = []"
    and eq: "build E io1 io2 now (auth_table s) (bundle_table s) q f cfg tr = Some s'"
  shows "auths_ok s'" "bundles_ok s'" "meta_synced E s'"
    "\<And>k. rel_option same_auth (dm_get (auths s) k) (dm_get (auths s') k)"
    "dm_get (bundles s') = dm_get (bundles s)" "mailbox_count s' = mailbox_count s"
    "total_bundle_bytes s' = total_bundle_bytes s" "queues s' = q" "files s' = f"
    "\<And>k. dm_get (auths s') k
       = map_option (fresh_lease (now_activity_ms now)) (stored_at (a_auth E) (a_auth_codec E) (auth_table s) k)"
proof -
  let ?SA = "stored_at (a_auth E) (a_auth_codec E) (auth_table s)"
  let ?SB = "stored_at (a_bundles E) (a_bundle_codec E) (bundle_table s)"
  let ?lease = "fresh_lease (now_activity_ms now)"
  have A: "rel_option same_auth (?SA k) (dm_get (auths s) k)" and B: "?SB k = dm_get (bundles s) k" for k
    using syn clean by (auto simp: meta_synced_def synced_def dm_contains_def option.rel_eq)
  obtain as bs where load: "load_all (a_auth E) (a_auth_codec E) io1 (auth_table s) = Some as"
    "load_all (a_bundles E) (a_bundle_codec E) io2 (bundle_table s) = Some bs"
    using eq by (auto simp: build_def split: option.splits)
  note la = aw.load_all_map [OF load(1)] and lb = bw.load_all_map [OF load(2)]
  let ?M = "fold (\<lambda>(k, v). dm_insert k (?lease v)) as []"
  let ?B = "fold (\<lambda>(k, v). dm_insert k v) bs []"
  have bs_get: "map_of bs = dm_get (bundles s)" using lb(1) B by auto
  have bs_wf: "dm_wf bs" using lb(2) by (simp add: dm_wf_def)
  have ids: "list_all (\<lambda>(k, b). b_id b = k) bs"
    using ok(2) bs_get dm_get_set [OF bs_wf] by (auto simp: bundles_ok_def list_all_iff)
  have bsum: "sum_list (map (bundle_len \<circ> snd) bs) = total_bundle_bytes s"
    using dm_same_get(1) [OF bs_wf, of "bundles s" bundle_len] ok(2) bs_get
    by (simp add: bundles_ok_def dm_sum_def)
  also have "\<dots> < usize_modulus" using ok(2) by (simp add: bundles_ok_def config_defs usize_modulus_def)
  finally have lim: "sum_list (map (bundle_len \<circ> snd) bs) < usize_modulus" .
  note bb = build_bundles_fold [OF ids lb(2) lim]
  have s': "auths s' = ?M" "mailbox_count s' = length ?M" "bundles s' = ?B"
    "total_bundle_bytes s' = total_bundle_bytes s" "dirty_auth s' = []" "dirty_bundles s' = []"
    "auth_table s' = auth_table s" "bundle_table s' = bundle_table s" "queues s' = q" "files s' = f"
    using eq load bb(1) bsum by (auto simp: build_def build_auths_fold Let_def)
  note M = fold_insert_get [OF la(2), where f = ?lease and m = "[]"]
    and N = fold_insert_get [OF lb(2), where f = "\<lambda>v. v" and m = "[]"]
  show getA: "dm_get (auths s') k = map_option ?lease (?SA k)" for k
    using M(1) [of k] la(1) [of k] by (simp add: s' split: option.splits)
  show rel: "rel_option same_auth (dm_get (auths s) k) (dm_get (auths s') k)" for k
    using A [of k] by (cases "?SA k"; cases "dm_get (auths s) k")
      (simp_all add: getA same_auth_iff fresh_lease_def)
  show getB: "dm_get (bundles s') = dm_get (bundles s)"
  proof
    show "dm_get (bundles s') k = dm_get (bundles s) k" for k
      using N(1) [of k] bs_get by (simp add: s' split: option.splits)
  qed
  have wf: "dm_wf (auths s')" "dm_wf (bundles s')" using M(2) N(2) by (simp_all add: s')
  have "dom (dm_get (auths s')) = dom (dm_get (auths s))"
    using rel by (force simp: option.rel_sel dom_def)
  then have len: "length (auths s') = length (auths s)"
    using wf(1) ok(1) by (simp add: dm_length_dom auths_ok_def)
  show "mailbox_count s' = mailbox_count s" using s'(1,2) len ok(1) by (simp add: auths_ok_def)
  moreover have "CHR '':'' \<notin> set k \<and> length (delivery_token_hashes a') \<le> MAX_DELIVERY_TOKENS_PER_MAILBOX"
    if k: "dm_get (auths s') k = Some a'" for k a'
  proof -
    obtain a where a: "dm_get (auths s) k = Some a" "same_auth a a'"
      using rel [of k] k by (cases "dm_get (auths s) k") auto
    from a(2) have "delivery_token_hashes a' = delivery_token_hashes a" by (simp add: same_auth_iff)
    with a(1) ok(1) show ?thesis unfolding auths_ok_def by metis
  qed
  ultimately show "auths_ok s'"
    using ok(1) wf(1) len unfolding auths_ok_def by simp
  show "total_bundle_bytes s' = total_bundle_bytes s" "queues s' = q" "files s' = f" by (simp_all add: s')
  have "length (bundles s') = length (bundles s)" "bundle_sum (bundles s') = bundle_sum (bundles s)"
    using dm_same_get [OF wf(2) _ getB] ok(2) by (simp_all add: bundles_ok_def)
  then show "bundles_ok s'"
    using ok(2) wf(2) getB s'(4) by (simp add: bundles_ok_def)
  show "meta_synced E s'"
    using B getA getB
    by (auto simp: meta_synced_def synced_def s'(5-8) option.rel_eq option.rel_map same_auth_fresh
        intro: option.rel_refl)
qed

end

end
