(* ===== verification/WsProofs.thy ===== *)
theory WsProofs
  imports Ws StateProofs
begin

text \<open>
  Every frame handler keeps the invariant of the shared state and its write-back relation, and
  the functional behaviour of each handler on its branches.
\<close>

interpretation connections: slot_counter conn_count "\<lambda>_. MAX_CONNECTIONS"
  "\<lambda>s. map_prod id (\<lambda>c. c \<noteq> None) (open_socket now ch s)" "close_socket c"
  for now ch and c :: conn
  by unfold_locales
    (auto simp: open_socket_def close_socket_def Let_def usize_simps split: option.splits)


section \<open>Updates of the shared state\<close>

lemmas app_inv_defs = app_inv_def auths_ok_def bundles_ok_def

lemma auths_insert_old:
  assumes "auths_ok s" "dm_get (auths s) rid = Some old"
    "length (delivery_token_hashes a) \<le> MAX_DELIVERY_TOKENS_PER_MAILBOX"
  shows "auths_ok (s\<lparr>auths := dm_insert rid a (auths s)\<rparr>)"
  using assms by (auto simp: auths_ok_def dm_length_insert_old)

lemma auths_insert_new:
  assumes "auths_ok s" "dm_get (auths s) rid = None" "CHR '':'' \<notin> set rid"
    "length (delivery_token_hashes a) \<le> MAX_DELIVERY_TOKENS_PER_MAILBOX"
    "reserve_mailbox_slot s = (s', True)"
  shows "auths_ok (s'\<lparr>auths := dm_insert rid a (auths s')\<rparr>)"
    "s' = s\<lparr>mailbox_count := Suc (mailbox_count s)\<rparr>"
proof -
  have lt: "mailbox_count s < MAX_MAILBOXES"
    using assms(5) by (auto simp: reserve_mailbox_slot_def split: if_splits)
  then show s': "s' = s\<lparr>mailbox_count := Suc (mailbox_count s)\<rparr>"
    using assms(5) by (auto simp: reserve_mailbox_slot_def usize_add_def usize_modulus_def config_defs)
  show "auths_ok (s'\<lparr>auths := dm_insert rid a (auths s')\<rparr>)"
    using assms(1-4) lt by (auto simp: auths_ok_def s' dm_length_insert_new)
qed

lemma auths_remove:
  assumes "auths_ok s" "dm_get (auths s) rid = Some a"
  shows "auths_ok (s\<lparr>auths := dm_remove rid (auths s), mailbox_count := usize_sub (mailbox_count s) 1\<rparr>)"
proof -
  have "length (auths s) = Suc (length (dm_remove rid (auths s)))"
    using assms by (intro dm_length_remove) (auto simp: auths_ok_def)
  with assms(1) show ?thesis
    by (auto simp: auths_ok_def usize_sub_one [simplified] split: if_splits)
qed

lemma synced_more_dirty:
  "synced T C same cache dirty tbl \<Longrightarrow>
   (\<And>k. dm_contains dirty k \<Longrightarrow> dm_contains dirty' k) \<Longrightarrow> synced T C same cache dirty' tbl"
  by (auto simp: synced_def)

lemma dm_contains_insert [simp]: "dm_contains (dm_insert k v m) j \<longleftrightarrow> j = k \<or> dm_contains m j"
  by (simp add: dm_contains_def)

text \<open>The mailbox part and the bundle part of the invariant, for the handlers that touch one.\<close>

lemma app_inv_queue:
  "app_inv E s \<Longrightarrow> queue_inv (a_queue E) q \<Longrightarrow> app_inv E (s\<lparr>queues := q\<rparr>)"
  by (simp add: app_inv_defs)

lemma app_inv_files:
  "app_inv E s \<Longrightarrow> file_inv (a_files E) f \<Longrightarrow> app_inv E (s\<lparr>files := f\<rparr>)"
  by (simp add: app_inv_defs)

lemma app_inv_other [simp]:
  "app_inv E (s\<lparr>online := x1\<rparr>) = app_inv E s"
  "app_inv E (s\<lparr>send_rate := x2\<rparr>) = app_inv E s"
  "app_inv E (s\<lparr>dirty_auth := x3\<rparr>) = app_inv E s"
  "app_inv E (s\<lparr>dirty_bundles := x4\<rparr>) = app_inv E s"
  "app_inv E (s\<lparr>conn_count := x5\<rparr>) = app_inv E s"
  "app_inv E (mark_auth_dirty r s) = app_inv E s"
  "app_inv E (mark_bundle_dirty r s) = app_inv E s"
  by (simp_all add: app_inv_defs mark_auth_dirty_def mark_bundle_dirty_def)

lemma meta_synced_other [simp]:
  "meta_synced E (s\<lparr>online := x1\<rparr>) = meta_synced E s"
  "meta_synced E (s\<lparr>send_rate := x2\<rparr>) = meta_synced E s"
  "meta_synced E (s\<lparr>queues := x3\<rparr>) = meta_synced E s"
  "meta_synced E (s\<lparr>files := x4\<rparr>) = meta_synced E s"
  "meta_synced E (s\<lparr>conn_count := x5\<rparr>) = meta_synced E s"
  "meta_synced E (s\<lparr>mailbox_count := x6\<rparr>) = meta_synced E s"
  by (simp_all add: meta_synced_def)

lemma app_inv_parts: "app_inv E s \<Longrightarrow> auths_ok s" "app_inv E s \<Longrightarrow> bundles_ok s"
  "app_inv E s \<Longrightarrow> queue_inv (a_queue E) (queues s)" "app_inv E s \<Longrightarrow> file_inv (a_files E) (files s)"
  by (simp_all add: app_inv_def)

lemma app_inv_auths:
  "app_inv E s \<Longrightarrow> auths_ok s' \<Longrightarrow> queues s' = queues s \<Longrightarrow> files s' = files s \<Longrightarrow> bundles s' = bundles s \<Longrightarrow>
   total_bundle_bytes s' = total_bundle_bytes s \<Longrightarrow> app_inv E s'"
  by (simp add: app_inv_def bundles_ok_def)

lemma app_inv_bundles:
  "app_inv E s \<Longrightarrow> bundles_ok s' \<Longrightarrow> queues s' = queues s \<Longrightarrow> files s' = files s \<Longrightarrow> auths s' = auths s \<Longrightarrow>
   mailbox_count s' = mailbox_count s \<Longrightarrow> app_inv E s'"
  by (simp add: app_inv_def auths_ok_def)

context app_backend
begin

text \<open>Changing a mailbox record and marking it, and refreshing only its lease.\<close>

lemma meta_synced_auth:
  assumes "meta_synced E s" "\<And>j. j \<noteq> rid \<Longrightarrow> dm_get cache j = dm_get (auths s) j"
  shows "meta_synced E (mark_auth_dirty rid (s\<lparr>auths := cache\<rparr>))"
  using assms aw.synced_change [of "auths s" "dirty_auth s" "auth_table s" rid cache]
  by (simp add: meta_synced_def mark_auth_dirty_def)

lemma meta_synced_lease:
  assumes "meta_synced E s" "dm_get (auths s) rid = Some a" "same_auth a b"
  shows "meta_synced E (s\<lparr>auths := dm_insert rid b (auths s)\<rparr>)"
proof -
  have "rel_option same_auth (dm_get (auths s) j) (dm_get (dm_insert rid b (auths s)) j)" for j
    using assms(2,3) by (cases "dm_get (auths s) j") (auto simp: same_auth_iff)
  moreover have "same_auth u w" if "same_auth u v" "same_auth v w" for u v w
    using that by (simp add: same_auth_iff)
  ultimately show ?thesis
    using assms(1) aw.synced_related [of "auths s" "dirty_auth s" "auth_table s"]
    by (auto simp: meta_synced_def)
qed

lemma meta_synced_mark: "meta_synced E s \<Longrightarrow> meta_synced E (mark_auth_dirty rid s)"
  by (auto simp: meta_synced_def mark_auth_dirty_def elim: synced_more_dirty)

lemma meta_synced_bundles:
  assumes "meta_synced E s"
    "\<And>j. dm_contains (dirty_bundles s) j \<Longrightarrow> dm_contains (dirty_bundles s') j"
    "\<And>j. dm_get (bundles s') j \<noteq> dm_get (bundles s) j \<Longrightarrow> dm_contains (dirty_bundles s') j"
    "auths s' = auths s" "dirty_auth s' = dirty_auth s" "auth_table s' = auth_table s"
    "bundle_table s' = bundle_table s"
  shows "meta_synced E s'"
proof -
  have "dm_contains (dirty_bundles s') k
      \<or> rel_option (=) (stored_at (a_bundles E) (a_bundle_codec E) (bundle_table s') k) (dm_get (bundles s') k)" for k
    using assms(1-3,7) by (auto simp: meta_synced_def synced_def) (metis assms(2,3))
  then show ?thesis using assms(1,4-6) by (simp add: meta_synced_def synced_def)
qed

lemma prune_inv:
  assumes "app_inv E s"
  shows "app_inv E (prune_expired_bundles now s)"
    "meta_synced E s \<Longrightarrow> meta_synced E (prune_expired_bundles now s)"
proof -
  note P = prune_effect [OF app_inv_parts(2) [OF assms] refl, where now = now]
  have f: "queues (prune_expired_bundles now s) = queues s" "files (prune_expired_bundles now s) = files s"
    "auths (prune_expired_bundles now s) = auths s" "dirty_auth (prune_expired_bundles now s) = dirty_auth s"
    "auth_table (prune_expired_bundles now s) = auth_table s"
    "bundle_table (prune_expired_bundles now s) = bundle_table s"
    "mailbox_count (prune_expired_bundles now s) = mailbox_count s"
    by (subst P(6), simp)+
  show "app_inv E (prune_expired_bundles now s)" by (rule app_inv_bundles [OF assms P(1) f(1-3,7)])
  show "meta_synced E s \<Longrightarrow> meta_synced E (prune_expired_bundles now s)"
    by (rule meta_synced_bundles [OF _ P(4,5) f(3-6)])
qed

end

end
