(* ===== verification/WsInv.thy ===== *)
theory WsInv
  imports WsProofs
begin

text \<open>
  Every frame handler keeps the invariant of the shared state and its write-back relation, for
  any frame a client can send. What the handlers rely on outside the sources is the locale
  \<open>relay_backend\<close>: the storage laws, and that neither JSON parsing nor base64 decoding makes a
  payload longer than the text it came in.
\<close>

fun payload :: "client_frame \<Rightarrow> string" where
  "payload (SendEnvelope r t d e c) = c"
| "payload (UploadFileChunk r t ci tc tb c p) = c"
| "payload _ = []"

locale relay_backend = app_backend "w_app W" for W :: "('t, 'b, 'c) ws_env" +
  assumes json_bounded: "w_json W text = Inr f \<Longrightarrow> length (payload f) \<le> length text"
    and b64_bounded: "b64_decode W text = Some raw \<Longrightarrow> length raw \<le> length text"

text \<open>The invariant, and the write-back relation where no flush has failed (\<open>sy\<close>).\<close>

definition state_ok :: "('t, 'b, 'c) ws_env \<Rightarrow> bool \<Rightarrow> ('t, 'c) app_state \<Rightarrow> bool" where
  "state_ok W sy s \<longleftrightarrow> app_inv (w_app W) s \<and> (sy \<longrightarrow> meta_synced (w_app W) s)"

text \<open>
  What a frame meets outside: the message id is new (a random v4 uuid) and the 64-bit sequence
  counter has not run through.
\<close>

definition input_ok :: "('t, 'b, 'c) ws_env \<Rightarrow> frame_in \<Rightarrow> ('t, 'c) app_state \<Rightarrow> bool" where
  "input_ok W i s \<longleftrightarrow>
     (\<forall>m. t_get (q_table (a_queue (w_app W))) (envelopes (queues s))
            (key_for (a_queue (w_app W)) m (i_uuid i)) = None) \<and> next_seq (queues s) \<noteq> - 1"

definition conn_ok :: "conn \<Rightarrow> bool" where
  "conn_ok c \<longleftrightarrow> (\<forall>rid. recipient c = Some rid \<longrightarrow> CHR '':'' \<notin> set rid)"

lemma state_okI: "app_inv (w_app W) s \<Longrightarrow> (sy \<Longrightarrow> meta_synced (w_app W) s) \<Longrightarrow> state_ok W sy s"
  by (simp add: state_ok_def)

lemma state_okD:
  assumes "state_ok W sy s"
  shows "app_inv (w_app W) s" "sy \<Longrightarrow> meta_synced (w_app W) s" "auths_ok s" "bundles_ok s"
    "queue_inv (a_queue (w_app W)) (queues s)" "file_inv (a_files (w_app W)) (files s)"
  using assms by (simp_all add: state_ok_def app_inv_def)

lemma state_ok_other [simp]:
  "state_ok W sy (s\<lparr>online := x1\<rparr>) = state_ok W sy s"
  "state_ok W sy (s\<lparr>send_rate := x2\<rparr>) = state_ok W sy s"
  "state_ok W sy (s\<lparr>conn_count := x3\<rparr>) = state_ok W sy s"
  by (simp_all add: state_ok_def)

lemma state_ok_queues:
  "state_ok W sy s \<Longrightarrow> queue_inv (a_queue (w_app W)) q \<Longrightarrow> state_ok W sy (s\<lparr>queues := q\<rparr>)"
  by (simp add: state_ok_def app_inv_queue)

lemma state_ok_files:
  "state_ok W sy s \<Longrightarrow> file_inv (a_files (w_app W)) f \<Longrightarrow> state_ok W sy (s\<lparr>files := f\<rparr>)"
  by (simp add: state_ok_def app_inv_files)

text \<open>Updates of different fields commute.\<close>

lemma update_order:
  "s\<lparr>mailbox_count := n, auths := as\<rparr> = s\<lparr>auths := as, mailbox_count := n\<rparr>"
  "mark_auth_dirty rid (s\<lparr>queues := q, send_rate := r, online := l\<rparr>)
     = (mark_auth_dirty rid s)\<lparr>queues := q, send_rate := r, online := l\<rparr>"
  for s :: "('t, 'c) app_state"
  by (cases s, simp add: mark_auth_dirty_def)+

text \<open>The fields no handler writes.\<close>

definition same_core :: "('t, 'c) app_state \<Rightarrow> ('t, 'c) app_state \<Rightarrow> bool" where
  "same_core s s' \<longleftrightarrow> conn_count s' = conn_count s \<and> limits s' = limits s \<and>
     trust_root_public_b64 s' = trust_root_public_b64 s \<and> auth_table s' = auth_table s \<and>
     bundle_table s' = bundle_table s"

lemma same_core_refl [simp]: "same_core s s"
  by (simp add: same_core_def)

lemma same_core_fields [simp]:
  "same_core s (s'\<lparr>online := x1\<rparr>) = same_core s s'" "same_core s (s'\<lparr>send_rate := x2\<rparr>) = same_core s s'"
  "same_core s (s'\<lparr>queues := x3\<rparr>) = same_core s s'" "same_core s (s'\<lparr>files := x4\<rparr>) = same_core s s'"
  "same_core s (s'\<lparr>auths := x5\<rparr>) = same_core s s'" "same_core s (s'\<lparr>mailbox_count := x6\<rparr>) = same_core s s'"
  "same_core s (s'\<lparr>bundles := x7\<rparr>) = same_core s s'"
  "same_core s (s'\<lparr>total_bundle_bytes := x8\<rparr>) = same_core s s'"
  "same_core s (mark_auth_dirty r s') = same_core s s'"
  "same_core s (mark_bundle_dirty r s') = same_core s s'"
  by (simp_all add: same_core_def mark_auth_dirty_def mark_bundle_dirty_def)

context relay_backend
begin

abbreviation E where "E \<equiv> w_app W"

text \<open>Registering a mailbox, or changing its record, and marking it.\<close>

lemma state_ok_auth:
  assumes "state_ok W sy s" "auths_ok (s\<lparr>auths := as, mailbox_count := n\<rparr>)"
    "\<And>j. j \<noteq> rid \<Longrightarrow> dm_get as j = dm_get (auths s) j"
  shows "state_ok W sy (mark_auth_dirty rid (s\<lparr>auths := as, mailbox_count := n\<rparr>))"
proof (rule state_okI)
  show "app_inv E (mark_auth_dirty rid (s\<lparr>auths := as, mailbox_count := n\<rparr>))"
    using app_inv_auths [OF state_okD(1) [OF assms(1)] assms(2)] by simp
  have "mark_auth_dirty rid (s\<lparr>auths := as, mailbox_count := n\<rparr>)
      = (mark_auth_dirty rid (s\<lparr>auths := as\<rparr>))\<lparr>mailbox_count := n\<rparr>"
    by (simp add: mark_auth_dirty_def)
  moreover assume sy
  ultimately show "meta_synced E (mark_auth_dirty rid (s\<lparr>auths := as, mailbox_count := n\<rparr>))"
    using meta_synced_auth [OF state_okD(2) [OF assms(1)] assms(3), of rid] by simp
qed

lemma state_ok_change:
  assumes "state_ok W sy s" "dm_get (auths s) rid = Some old"
    "length (delivery_token_hashes a) \<le> MAX_DELIVERY_TOKENS_PER_MAILBOX"
  shows "state_ok W sy (mark_auth_dirty rid (s\<lparr>auths := dm_insert rid a (auths s)\<rparr>))"
  using state_ok_auth [OF assms(1), where as = "dm_insert rid a (auths s)" and n = "mailbox_count s" and rid = rid]
    auths_insert_old [OF state_okD(3) [OF assms(1)] assms(2,3)] by simp

text \<open>A refreshed lease is not always marked.\<close>

lemma state_ok_lease:
  assumes "state_ok W sy s" "dm_get (auths s) rid = Some a"
  shows "state_ok W sy (s\<lparr>auths := dm_insert rid (a\<lparr>last_active_ms := t\<rparr>) (auths s)\<rparr>)"
proof (rule state_okI)
  have "length (delivery_token_hashes a) \<le> MAX_DELIVERY_TOKENS_PER_MAILBOX"
    using state_okD(3) [OF assms(1)] assms(2) by (auto simp: auths_ok_def)
  then have ok: "auths_ok (s\<lparr>auths := dm_insert rid (a\<lparr>last_active_ms := t\<rparr>) (auths s)\<rparr>)"
    by (intro auths_insert_old [OF state_okD(3) [OF assms(1)] assms(2)]) simp
  show "app_inv E (s\<lparr>auths := dm_insert rid (a\<lparr>last_active_ms := t\<rparr>) (auths s)\<rparr>)"
    by (rule app_inv_auths [OF state_okD(1) [OF assms(1)] ok]) simp_all
  assume sy
  then show "meta_synced E (s\<lparr>auths := dm_insert rid (a\<lparr>last_active_ms := t\<rparr>) (auths s)\<rparr>)"
    by (rule meta_synced_lease [OF state_okD(2) [OF assms(1)] assms(2)]) (simp add: same_auth_iff)
qed

lemma state_ok_mark: "state_ok W sy s \<Longrightarrow> state_ok W sy (mark_auth_dirty rid s)"
  by (simp add: state_ok_def meta_synced_mark)

lemma state_ok_prune: "state_ok W sy s \<Longrightarrow> state_ok W sy (prune_expired_bundles now s)"
  by (simp add: state_ok_def prune_inv)

lemma same_core_prune: "state_ok W sy s \<Longrightarrow> same_core s (prune_expired_bundles now s)"
proof -
  assume "state_ok W sy s"
  note P = prune_effect(6) [OF state_okD(4) [OF this] refl, where now = now]
  show ?thesis unfolding same_core_def by (subst P, simp)+
qed


section \<open>Mailbox handlers\<close>

lemma hello_entry_ok:
  assumes ok: "state_ok W sy s" and rid: "CHR '':'' \<notin> set rid"
    and eq: "hello_entry W i rid ah dh pow s = (s', r)"
  shows "r = None \<Longrightarrow> state_ok W sy (mark_auth_dirty rid s')" "r \<noteq> None \<Longrightarrow> s' = s" "same_core s s'"
proof -
  have "(r = None \<longrightarrow> state_ok W sy (mark_auth_dirty rid s')) \<and> (r \<noteq> None \<longrightarrow> s' = s) \<and> same_core s s'"
  proof (cases "dm_get (auths s) rid")
    case (Some a)
    obtain b ch where b: "ensure_delivery_hash dh (a\<lparr>last_active_ms := now_activity_ms (i_clock i 1)\<rparr>) = (b, ch)"
      by force
    have "length (delivery_token_hashes a) \<le> MAX_DELIVERY_TOKENS_PER_MAILBOX"
      using state_okD(3) [OF ok] Some by (auto simp: auths_ok_def)
    then have "length (delivery_token_hashes b) \<le> MAX_DELIVERY_TOKENS_PER_MAILBOX"
      using ensure_delivery_hash_ok(1) [OF b] by simp
    then show ?thesis
      using eq Some b state_ok_change [OF ok Some, of b]
      by (auto simp: hello_entry_def split: if_splits)
  next
    case None
    obtain s1 r1 where r1: "reserve_mailbox_slot s = (s1, r1)" by force
    show ?thesis
    proof (cases r1)
      case True
      let ?a = "mailbox_auth_new (i_clock i 1) ah dh"
      have len: "length (delivery_token_hashes ?a) \<le> MAX_DELIVERY_TOKENS_PER_MAILBOX"
        by (simp add: mailbox_auth_new_def config_defs)
      have r1': "reserve_mailbox_slot s = (s1, True)" using r1 True by simp
      note N = auths_insert_new [OF state_okD(3) [OF ok] None rid len r1']
      have "state_ok W sy (mark_auth_dirty rid (s1\<lparr>auths := dm_insert rid ?a (auths s1)\<rparr>))"
        using state_ok_auth [OF ok, where as = "dm_insert rid ?a (auths s)" and n = "Suc (mailbox_count s)" and rid = rid] N
        by (simp add: update_order)
      then show ?thesis using eq None r1 True N(2) by (auto simp: hello_entry_def split: if_splits)
    next
      case False
      with r1 have "s1 = s" by (auto simp: reserve_mailbox_slot_def split: if_splits)
      with eq None r1 False show ?thesis by (auto simp: hello_entry_def split: if_splits)
    qed
  qed
  then show "r = None \<Longrightarrow> state_ok W sy (mark_auth_dirty rid s')" "r \<noteq> None \<Longrightarrow> s' = s" "same_core s s'"
    by blast+
qed

lemma hello_ok:
  assumes ok: "state_ok W sy s" "conn_ok c"
    and eq: "handle_hello W i rid at dt pmin pmax pver pow co c s = (c', s', out)"
  shows "state_ok W sy s'" "conn_ok c'" "same_core s s'" "tx c' = tx c"
proof -
  obtain s1 r where e: "hello_entry W i rid (token_hash (w_hash W) at) (token_hash (w_hash W) dt) pow s = (s1, r)"
    by force
  have "state_ok W sy s' \<and> conn_ok c' \<and> same_core s s' \<and> tx c' = tx c"
  proof (cases "valid_recipient_id rid")
    case True
    then have rid: "CHR '':'' \<notin> set rid" by (rule valid_ids_no_colon)
    note H = hello_entry_ok [OF ok(1) rid e]
    show ?thesis
      using ok eq e H rid
      by (cases r) (auto simp: handle_hello_def Let_def conn_ok_def split: if_splits)
  next
    case False
    with eq ok show ?thesis by (auto simp: handle_hello_def Let_def split: if_splits)
  qed
  then show "state_ok W sy s'" "conn_ok c'" "same_core s s'" "tx c' = tx c" by simp_all
qed

lemma set_tokens_ok:
  assumes "state_ok W sy s" "handle_set_delivery_tokens W rq toks c s = (s', out)"
  shows "state_ok W sy s'" "same_core s s'"
  using assms state_ok_change [OF assms(1)] replace_delivery_hashes_ok(1)
  by (auto simp: handle_set_delivery_tokens_def Let_def split: if_splits option.splits)

lemma ack_ok:
  assumes ok: "state_ok W sy s" "conn_ok c" and eq: "handle_ack W i ids c s = (s', out)"
  shows "state_ok W sy s'" "same_core s s'"
proof -
  have "state_ok W sy s' \<and> same_core s s'"
  proof (cases "recipient c")
    case (Some rid)
    have rid: "CHR '':'' \<notin> set rid" using ok(2) Some by (simp add: conn_ok_def)
    obtain q r where a: "ack (a_queue E) (i_qio i) rid ids (queues s) = (q, r)" by force
    have "queue_inv (a_queue E) q"
      using qb.apply_op_inv [OF state_okD(5) [OF ok(1)], of "QAck (i_qio i) rid ids"] rid a by simp
    with eq Some a ok(1) show ?thesis
      by (auto simp: handle_ack_def intro: state_ok_queues)
  qed (use eq ok in \<open>auto simp: handle_ack_def\<close>)
  then show "state_ok W sy s'" "same_core s s'" by simp_all
qed

lemma retire_ok:
  assumes ok: "state_ok W sy s" "conn_ok c" and eq: "handle_retire W i c s = (s', out, stop)"
  shows "state_ok W sy s'" "same_core s s'"
proof -
  have "state_ok W sy s' \<and> same_core s s'"
  proof (cases "recipient c")
    case (Some rid)
    have rid: "CHR '':'' \<notin> set rid" using ok(2) Some by (simp add: conn_ok_def)
    define s1 where "s1 = (if dm_contains (auths s) rid then s\<lparr>auths := dm_remove rid (auths s),
      mailbox_count := usize_sub (mailbox_count s) 1\<rparr> else s)"
    let ?q = "fst (purge_mailbox (a_queue E) (i_qio i) rid (queues s))"
    have q1: "queues s1 = queues s" by (simp add: s1_def)
    have s1: "state_ok W sy (mark_auth_dirty rid s1)"
    proof (cases "dm_get (auths s) rid")
      case None
      then show ?thesis using state_ok_mark [OF ok(1)] by (simp add: s1_def dm_contains_def)
    next
      case (Some a)
      then show ?thesis
        using state_ok_auth [OF ok(1) auths_remove [OF state_okD(3) [OF ok(1)] Some]]
        by (simp add: s1_def dm_contains_def)
    qed
    have "state_ok W sy ((mark_auth_dirty rid s1)\<lparr>queues := ?q\<rparr>)"
      by (rule state_ok_queues [OF s1 purge_fst_inv(1) [OF state_okD(5) [OF ok(1)] rid]])
    then have "state_ok W sy ((mark_auth_dirty rid s1)\<lparr>queues := ?q, send_rate := dm_remove rid (send_rate s1),
        online := dm_remove rid (online s1)\<rparr>)" by simp
    moreover have "s' = (mark_auth_dirty rid s1)\<lparr>queues := ?q, send_rate := dm_remove rid (send_rate s1),
        online := dm_remove rid (online s1)\<rparr>"
      using eq Some by (simp add: handle_retire_def Let_def s1_def [symmetric] q1 update_order)
    ultimately show ?thesis by (simp add: s1_def)
  qed (use eq ok in \<open>auto simp: handle_retire_def\<close>)
  then show "state_ok W sy s'" "same_core s s'" by simp_all
qed


section \<open>Messages\<close>

lemma enqueue_ok:
  assumes ok: "state_ok W sy s" "input_ok W i s" "CHR '':'' \<notin> set to"
    and len: "length (ciphertext env) \<le> PER_MAILBOX_QUEUE_BYTES" "env_id env = i_uuid i"
      "\<not> would_exceed_global (queues s) (length (ciphertext env))"
    and eq: "enqueue (a_queue E) io now to env (queues s) = (q, r)"
  shows "queue_inv (a_queue E) q"
proof -
  have "op_ok (a_queue E) (QEnqueue io now to env) (queues s)"
    using ok(2,3) len by (simp add: enqueue_pre_def input_ok_def)
  from qb.apply_op_inv [OF state_okD(5) [OF ok(1)] this] eq show ?thesis by simp
qed

lemma send_ok:
  assumes ok: "state_ok W sy s" "input_ok W i s" "length ctext \<le> PER_MAILBOX_QUEUE_BYTES"
    and eq: "handle_send W i cref to tok ety ctext c s = (s', out)"
  shows "state_ok W sy s'" "same_core s s'"
proof -
  have "state_ok W sy s' \<and> same_core s s'"
  proof (cases "valid_recipient_id to \<and> (\<exists>a. dm_get (auths s) to = Some a)")
    case False
    with eq ok(1) show ?thesis by (auto simp: handle_send_def split: if_splits option.splits)
  next
    case True
    then obtain a where a: "dm_get (auths s) to = Some a" and to: "CHR '':'' \<notin> set to"
      using valid_ids_no_colon(1) by blast
    define s1 where "s1 = s\<lparr>auths := dm_insert to (a\<lparr>last_active_ms := now_activity_ms (i_clock i 1)\<rparr>) (auths s)\<rparr>"
    define env where "env = \<lparr>env_id = i_uuid i, env_to = to, envelope_type = ety, ciphertext = ctext\<rparr>"
    obtain s2 allowed where r: "allow_dest_send (i_clock i 2) to s1 = (s2, allowed)" by force
    obtain s3 live lo where d: "deliver_live i to env s2 = (s3, live, lo)" using prod_cases3 by blast
    obtain q res where e: "enqueue (a_queue E) (i_qio i) (i_clock i 3) to env (queues s3) = (q, res)" by force
    have s1: "state_ok W sy s1" "queues s1 = queues s" "same_core s s1"
      unfolding s1_def by (simp_all add: state_ok_lease [OF ok(1) a])
    have s2: "state_ok W sy s2" "queues s2 = queues s" "same_core s s2"
      using r s1 by (auto simp: allow_dest_send_def split: prod.splits)
    have s3: "state_ok W sy s3" "queues s3 = queues s" "same_core s s3"
      using d s2 by (auto simp: deliver_live_def split: option.splits if_splits)
    have "input_ok W i s3" using ok(2) s3(2) by (simp add: input_ok_def)
    then have "state_ok W sy (s3\<lparr>queues := q\<rparr>)" if "\<not> would_exceed_global (queues s3) (length ctext)"
      by (intro state_ok_queues [OF s3(1)] enqueue_ok [OF s3(1) _ to _ _ _ e])
        (use ok(3) that in \<open>simp_all add: env_def\<close>)
    then show ?thesis
      using eq a r [unfolded s1_def] d e ok(1) s2 s3
      unfolding handle_send_def env_def [symmetric] Let_def
      by (auto simp: state_ok_mark split: if_splits bool.splits)
  qed
  then show "state_ok W sy s'" "same_core s s'" by simp_all
qed


section \<open>Bundles and files\<close>

lemma bundle_insert_ok:
  assumes ok: "state_ok W sy s" and lim: "length (bundles s) < MAX_BUNDLES"
    "usize_sat_add (total_bundle_bytes s) (bundle_len b) \<le> MAX_TOTAL_BUNDLE_BYTES"
    and n: "n = (case dm_get (bundles s) (b_id b) of
        Some old \<Rightarrow> atomic_sub_saturating (total_bundle_bytes s) (bundle_len old)
      | None \<Rightarrow> total_bundle_bytes s)"
  shows "state_ok W sy (mark_bundle_dirty (b_id b) (s\<lparr>bundles := dm_insert (b_id b) b (bundles s),
    total_bundle_bytes := usize_add n (bundle_len b)\<rparr>))" (is "state_ok W sy ?s")
proof (rule state_okI)
  note B = state_okD(4) [OF ok, unfolded bundles_ok_def]
  have room: "total_bundle_bytes s + bundle_len b \<le> MAX_TOTAL_BUNDLE_BYTES"
    using lim(2) by (auto simp: usize_sat_add_def usize_max_def config_defs min_def split: if_splits)
  have sum: "n + bundle_len b = bundle_sum (dm_insert (b_id b) b (bundles s)) \<and> n \<le> total_bundle_bytes s"
  proof (cases "dm_get (bundles s) (b_id b)")
    case None
    with B n show ?thesis by (simp add: dm_sum_insert_new)
  next
    case (Some old)
    have "bundle_sum (dm_insert (b_id b) b (bundles s)) + bundle_len old = bundle_sum (bundles s) + bundle_len b"
      using B Some by (intro dm_sum_insert_old) simp_all
    moreover have "bundle_len old \<le> bundle_sum (bundles s)" by (rule dm_sum_ge [OF Some])
    ultimately show ?thesis
      using B n Some by (simp add: atomic_sub_saturating_def usize_sat_sub_def)
  qed
  have add: "usize_add n (bundle_len b) = n + bundle_len b"
    using sum room by (simp add: usize_add_def usize_modulus_def config_defs)
  have len: "length (dm_insert (b_id b) b (bundles s)) \<le> Suc (length (bundles s))"
    by (cases "dm_get (bundles s) (b_id b)") (simp_all add: dm_length_insert_new dm_length_insert_old)
  have "bundles_ok ?s"
    using B lim(1) len room sum unfolding bundles_ok_def mark_bundle_dirty_def by (auto simp: add)
  then show "app_inv E ?s"
    using state_okD(1) [OF ok] by (rule_tac app_inv_bundles) (simp_all add: mark_bundle_dirty_def)
  assume sy
  then show "meta_synced E ?s"
    by (rule meta_synced_bundles [OF state_okD(2) [OF ok]])
      (simp_all add: mark_bundle_dirty_def split: if_splits)
qed

lemma upload_bundle_ok:
  assumes ok: "state_ok W sy s" and eq: "handle_upload_bundle W i rq bid ctext exp pow c s = (s', out)"
  shows "state_ok W sy s'" "same_core s s'"
proof -
  define s1 where "s1 = prune_expired_bundles (i_clock i 1) s"
  have s1: "state_ok W sy s1" "same_core s s1"
    unfolding s1_def using ok by (simp_all add: state_ok_prune same_core_prune)
  have ins: "state_ok W sy (mark_bundle_dirty bid (s1\<lparr>bundles := dm_insert bid b (bundles s1),
      total_bundle_bytes := usize_add n (length ctext)\<rparr>))"
    if "length (bundles s1) < MAX_BUNDLES"
      "usize_sat_add (total_bundle_bytes s1) (length ctext) \<le> MAX_TOTAL_BUNDLE_BYTES"
      "b = \<lparr>b_id = bid, b_ciphertext = ctext, b_created_at_ms = t, b_expires_at_ms = e\<rparr>"
      "n = (case dm_get (bundles s1) bid of
          Some old \<Rightarrow> atomic_sub_saturating (total_bundle_bytes s1) (length (b_ciphertext old))
        | None \<Rightarrow> total_bundle_bytes s1)" for b n t e
    using bundle_insert_ok [OF s1(1), of b n] that by (simp add: bundle_len_def cong: option.case_cong)
  have "state_ok W sy s' \<and> same_core s s'"
    using eq ok s1 unfolding handle_upload_bundle_def s1_def [symmetric] Let_def
    by (auto simp: not_le not_less intro!: ins split: if_splits option.splits)
  then show "state_ok W sy s'" "same_core s s'" by simp_all
qed

lemma fetch_bundle_ok:
  assumes "state_ok W sy s" "handle_fetch_bundle i rq bid c s = (s', out)"
  shows "state_ok W sy s'" "same_core s s'"
  using assms by (auto simp: handle_fetch_bundle_def Let_def state_ok_prune same_core_prune
      split: option.splits if_splits)

lemma upload_chunk_ok:
  assumes ok: "state_ok W sy s" "length ctext < usize_modulus"
    and eq: "handle_upload_chunk W i rq tid ci tc tb ctext pow c s = (s', out)"
  shows "state_ok W sy s'" "same_core s s'"
proof -
  have "state_ok W sy s' \<and> same_core s s'"
  proof (cases "valid_bundle_id tid")
    case True
    then have tid: "CHR '':'' \<notin> set tid" by (rule valid_ids_no_colon)
    show ?thesis
    proof (cases "b64_decode W ctext")
      case (Some raw)
      then have raw: "length raw < usize_modulus" using b64_bounded ok(2) by fastforce
      obtain f r where st: "store_chunk (a_files E) (i_cio i) (i_clock i 1) (i_clock i 2) tid ci tc tb raw (files s) = (f, r)"
        by force
      have "file_inv (a_files E) f"
        using fb.file_step_inv(1) [OF state_okD(6) [OF ok(1)],
            of "FStore (i_cio i) (i_clock i 1) (i_clock i 2) tid ci tc tb raw"] tid raw st by simp
      then show ?thesis
        using eq ok(1) True Some st
        by (auto simp: handle_upload_chunk_def intro: state_ok_files split: if_splits sum.splits)
    qed (use eq ok in \<open>auto simp: handle_upload_chunk_def split: if_splits\<close>)
  qed (use eq ok in \<open>auto simp: handle_upload_chunk_def\<close>)
  then show "state_ok W sy s'" "same_core s s'" by simp_all
qed

lemma delete_transfer_ok:
  assumes "state_ok W sy s" "handle_delete_transfer W i rq tid c s = (s', out)"
  shows "state_ok W sy s'" "same_core s s'"
  using assms fb.delete_inv [OF state_okD(6) [OF assms(1)] valid_ids_no_colon(2)]
  by (auto simp: handle_delete_transfer_def intro: state_ok_files split: if_splits)


section \<open>Frames\<close>

lemma frame_ok:
  assumes "state_ok W sy s" "conn_ok c" "input_ok W i s" "length (payload f) \<le> MAX_FRAME_BYTES"
    "handle_frame W i f c s = (c', s', out, stop)"
  shows "state_ok W sy s' \<and> conn_ok c' \<and> same_core s s' \<and> tx c' = tx c"
proof -
  have lim: "length ctext \<le> PER_MAILBOX_QUEUE_BYTES" "length ctext < usize_modulus"
    if "length ctext \<le> MAX_FRAME_BYTES" for ctext :: string
    using that by (simp_all add: config_defs usize_modulus_def)
  note keeps = hello_ok set_tokens_ok send_ok upload_bundle_ok fetch_bundle_ok upload_chunk_ok
    delete_transfer_ok ack_ok retire_ok
  show ?thesis
  proof (cases f)
    case (SendEnvelope r to tk et ct)
    with assms lim show ?thesis by (auto split: prod.splits dest: send_ok [of _ s i ct])
  next
    case (UploadFileChunk r tid ci tc tb ct p)
    with assms lim show ?thesis by (auto split: prod.splits dest: upload_chunk_ok [of _ s ct])
  qed (use assms in \<open>auto split: prod.splits dest: keeps\<close>)
qed

lemma text_ok:
  assumes "state_ok W sy s" "conn_ok c" "input_ok W i s" "handle_text W i text c s = (c', s', out, stop)"
  shows "state_ok W sy s'" "conn_ok c'" "same_core s s'" "tx c' = tx c"
proof -
  define c1 where "c1 = count_frame (i_clock i 0) c"
  have c1: "conn_ok c1" "tx c1 = tx c" using assms(2) by (auto simp: c1_def count_frame_def conn_ok_def)
  have "state_ok W sy s' \<and> conn_ok c' \<and> same_core s s' \<and> tx c' = tx c"
  proof (cases "frame_count c1 > MAX_FRAMES_PER_WINDOW \<or> length text > MAX_FRAME_BYTES")
    case True
    with assms c1 show ?thesis
      by (auto simp: handle_text_def c1_def [symmetric] Let_def split: if_splits)
  next
    case False
    show ?thesis
    proof (cases "w_json W text")
      case (Inr f)
      have "handle_frame W i f c1 s = (c', s', out, stop)"
        using assms(4) Inr False by (simp add: handle_text_def c1_def Let_def)
      moreover have "length (payload f) \<le> MAX_FRAME_BYTES"
        using json_bounded [OF Inr] False by simp
      ultimately show ?thesis using frame_ok [OF assms(1) c1(1) assms(3)] c1(2) by metis
    qed (use assms False c1 in \<open>auto simp: handle_text_def c1_def [symmetric] Let_def\<close>)
  qed
  then show "state_ok W sy s'" "conn_ok c'" "same_core s s'" "tx c' = tx c" by simp_all
qed

end

end
