(* ===== verification/Relay.thy ===== *)
theory Relay
  imports WsInv
begin

text \<open>
  The relay as a whole: the shared state with the sockets that are open, and the steps that
  change it, each the work of one task of the program (a socket that opens, a text frame on an
  open socket, a socket that ends, and the four periodic tasks of \<open>src/main.rs\<close>), and the
  restart of the process: the sockets and the caches are lost, the stores are opened again on
  their tables and the caches are built from theirs, with what had been flushed.

  A step refines the two stores: what it does to the queue store and to the file store is the
  run of a list of their operations, computed from the event (\<open>event_queue_ops\<close>,
  \<open>event_file_ops\<close>), each of which meets the condition its store asks of a caller. The
  properties of the stores over runs of operations therefore hold over runs of the relay.
\<close>


section \<open>The periodic tasks\<close>

definition meta_flush_tick ::
    "('t, 'b, 'c) app_env \<Rightarrow> io \<Rightarrow> io \<Rightarrow> ('t, 'c) app_state \<Rightarrow> ('t, 'c) app_state" where
  "meta_flush_tick E io_auth io_bundles s =
     (if dirty_auth s = [] \<and> dirty_bundles s = [] then s
      else fst (flush_dirty_meta E io_auth io_bundles s))"

definition mailbox_gc_tick ::
    "('t, 'b, 'c) app_env \<Rightarrow> (string \<Rightarrow> io) \<Rightarrow> u64 \<Rightarrow> ('t, 'c) app_state \<Rightarrow> ('t, 'c) app_state" where
  "mailbox_gc_tick E io now s = gc_idle_mailboxes E io now s"

definition queue_sweep_tick ::
    "('t, 'b, 'c) app_env \<Rightarrow> io \<Rightarrow> u64 \<Rightarrow> ('t, 'c) app_state \<Rightarrow> ('t, 'c) app_state" where
  "queue_sweep_tick E io now s = s\<lparr>queues := fst (sweep_expired (a_queue E) io now (queues s))\<rparr>"

definition file_sweep_tick ::
    "('t, 'b, 'c) app_env \<Rightarrow> (string \<Rightarrow> io) \<Rightarrow> u64 \<Rightarrow> ('t, 'c) app_state \<Rightarrow> ('t, 'c) app_state" where
  "file_sweep_tick E io now s = s\<lparr>files := fst (sweep_expired_files (a_files E) io now (files s))\<rparr>"


section \<open>Steps\<close>

record ('t, 'c) relay =
  app :: "('t, 'c) app_state"
  conns :: "(chan, conn) dashmap"

datatype event =
    Connect chan u64
  | Text chan frame_in string
  | Disconnect chan
  | MetaFlush io io
  | MailboxGc "string \<Rightarrow> io" u64
  | QueueSweep io u64
  | FileSweep "string \<Rightarrow> io" u64
  | Restart io io io io u64

inductive relay_step ::
    "('t, 'b, 'c) ws_env \<Rightarrow> ('t, 'c) relay \<Rightarrow> event \<Rightarrow> outputs \<Rightarrow> ('t, 'c) relay \<Rightarrow> bool"
  for W where
  accept: "dm_get (conns R) ch = None \<Longrightarrow> open_socket now ch (app R) = (s, Some c) \<Longrightarrow>
    relay_step W R (Connect ch now) [] \<lparr>app = s, conns = dm_insert ch c (conns R)\<rparr>"
| refuse: "open_socket now ch (app R) = (s, None) \<Longrightarrow>
    relay_step W R (Connect ch now) [] \<lparr>app = s, conns = conns R\<rparr>"
| frame: "dm_get (conns R) ch = Some c \<Longrightarrow> input_ok W i (app R) \<Longrightarrow>
    handle_text W i msg c (app R) = (c', s, out, False) \<Longrightarrow>
    relay_step W R (Text ch i msg) out \<lparr>app = s, conns = dm_insert ch c' (conns R)\<rparr>"
| retire: "dm_get (conns R) ch = Some c \<Longrightarrow> input_ok W i (app R) \<Longrightarrow>
    handle_text W i msg c (app R) = (c', s, out, True) \<Longrightarrow>
    relay_step W R (Text ch i msg) out \<lparr>app = close_socket c' s, conns = dm_remove ch (conns R)\<rparr>"
| disconnect: "dm_get (conns R) ch = Some c \<Longrightarrow>
    relay_step W R (Disconnect ch) [] \<lparr>app = close_socket c (app R), conns = dm_remove ch (conns R)\<rparr>"
| meta_flush: "relay_step W R (MetaFlush io1 io2) []
    \<lparr>app = meta_flush_tick (w_app W) io1 io2 (app R), conns = conns R\<rparr>"
| mailbox_gc: "relay_step W R (MailboxGc gio now) []
    \<lparr>app = mailbox_gc_tick (w_app W) gio now (app R), conns = conns R\<rparr>"
| queue_sweep: "relay_step W R (QueueSweep io now) []
    \<lparr>app = queue_sweep_tick (w_app W) io now (app R), conns = conns R\<rparr>"
| file_sweep: "relay_step W R (FileSweep fio now) []
    \<lparr>app = file_sweep_tick (w_app W) fio now (app R), conns = conns R\<rparr>"
| restart: "queue_new (a_queue (w_app W)) ioq (envelopes (queues (app R))) = Some q \<Longrightarrow>
    file_new (a_files (w_app W)) iof (meta_table (files (app R))) (chunk_table (files (app R)))
      (limits (app R)) = Some f \<Longrightarrow>
    build (w_app W) ioa iob now (auth_table (app R)) (bundle_table (app R)) q f (limits (app R))
      (trust_root_public_b64 (app R)) = Some s \<Longrightarrow>
    relay_step W R (Restart ioq iof ioa iob now) [] \<lparr>app = s, conns = []\<rparr>"

inductive_cases relay_stepE:
  "relay_step W R (Connect ch now) out R'"
  "relay_step W R (Text ch i msg) out R'"
  "relay_step W R (Disconnect ch) out R'"
  "relay_step W R (MetaFlush io1 io2) out R'"
  "relay_step W R (MailboxGc gio now) out R'"
  "relay_step W R (QueueSweep io now) out R'"
  "relay_step W R (FileSweep fio now) out R'"
  "relay_step W R (Restart ioq iof ioa iob now) out R'"

inductive relay_run ::
    "('t, 'b, 'c) ws_env \<Rightarrow> ('t, 'c) relay \<Rightarrow> event list \<Rightarrow> outputs \<Rightarrow> ('t, 'c) relay \<Rightarrow> bool"
  for W where
  none: "relay_run W R [] [] R"
| more: "relay_step W R e out R1 \<Longrightarrow> relay_run W R1 es outs R' \<Longrightarrow>
    relay_run W R (e # es) (out @ outs) R'"

inductive_cases relay_run_NilE: "relay_run W R [] outs R'"
inductive_cases relay_run_ConsE: "relay_run W R (e # es) outs R'"

lemma relay_run_append:
  "relay_run W R es outs R1 \<Longrightarrow> relay_run W R1 es' outs' R' \<Longrightarrow> relay_run W R (es @ es') (outs @ outs') R'"
  by (induction rule: relay_run.induct) (auto intro: relay_run.intros simp: relay_run.more)

text \<open>A step is determined by its event: the relay computes.\<close>

lemma relay_step_deterministic:
  assumes "relay_step W R e out R'" "relay_step W R e out' R''"
  shows "out' = out \<and> R'' = R'"
  using assms by (cases rule: relay_step.cases) (auto elim!: relay_stepE)


section \<open>What a step asks of the stores\<close>

text \<open>The conditions under which \<open>SendEnvelope\<close> reaches the queue store.\<close>

definition send_admitted ::
    "('t, 'b, 'c) ws_env \<Rightarrow> frame_in \<Rightarrow> string \<Rightarrow> string \<Rightarrow> string \<Rightarrow> string \<Rightarrow> ('t, 'c) app_state \<Rightarrow> bool" where
  "send_admitted W i to token etype ctext s \<longleftrightarrow>
     valid_recipient_id to \<and> valid_token token \<and> length etype \<le> 32 \<and>
     (case dm_get (auths s) to of
        None \<Rightarrow> False | Some auth \<Rightarrow> accepts_delivery_hash auth (token_hash (w_hash W) token)) \<and>
     snd (rate_step (i_clock i 2) (dm_get (send_rate s) to)) \<and>
     \<not> would_exceed_global (queues s) (length ctext)"

fun frame_queue_ops ::
    "('t, 'b, 'c) ws_env \<Rightarrow> frame_in \<Rightarrow> client_frame \<Rightarrow> conn \<Rightarrow> ('t, 'c) app_state \<Rightarrow> queue_op list" where
  "frame_queue_ops W i (SendEnvelope cref to token etype ctext) c s =
     (if send_admitted W i to token etype ctext s
      then [QEnqueue (i_qio i) (i_clock i 3) to
              \<lparr>env_id = i_uuid i, env_to = to, envelope_type = etype, ciphertext = ctext\<rparr>]
      else [])"
| "frame_queue_ops W i (Ack ids) c s =
     (case recipient c of Some rid \<Rightarrow> [QAck (i_qio i) rid ids] | None \<Rightarrow> [])"
| "frame_queue_ops W i RetireMailbox c s =
     (case recipient c of Some rid \<Rightarrow> [QPurge (i_qio i) rid] | None \<Rightarrow> [])"
| "frame_queue_ops W i _ c s = []"

fun frame_file_ops ::
    "('t, 'b, 'c) ws_env \<Rightarrow> frame_in \<Rightarrow> client_frame \<Rightarrow> file_op list" where
  "frame_file_ops W i (UploadFileChunk r tid ci tc tb ctext pow) =
     (case b64_decode W ctext of
        Some raw \<Rightarrow>
          if valid_bundle_id tid \<and> (ci \<noteq> 0 \<or> pow_valid W i tid pow)
          then [FStore (i_cio i) (i_clock i 1) (i_clock i 2) tid ci tc tb raw] else []
      | None \<Rightarrow> [])"
| "frame_file_ops W i (DeleteTransfer r tid) =
     (if valid_bundle_id tid then [FDelete (i_fio i) tid] else [])"
| "frame_file_ops W i _ = []"

definition frame_of ::
    "('t, 'b, 'c) ws_env \<Rightarrow> frame_in \<Rightarrow> string \<Rightarrow> conn \<Rightarrow> client_frame option" where
  "frame_of W i msg c =
     (if frame_count (count_frame (i_clock i 0) c) > MAX_FRAMES_PER_WINDOW \<or> length msg > MAX_FRAME_BYTES
      then None else (case w_json W msg of Inr f \<Rightarrow> Some f | Inl _ \<Rightarrow> None))"

text \<open>The mailboxes a collection purges, in the order of the map.\<close>

definition collected ::
    "('t, 'b, 'c) app_env \<Rightarrow> (string \<Rightarrow> io) \<Rightarrow> u64 \<Rightarrow> ('t, 'c) app_state \<Rightarrow> string list" where
  "collected E io now s =
     filter (\<lambda>rid. (case is_empty (a_queue E) (io rid) rid (queues s) of Some b \<Rightarrow> b | None \<Rightarrow> True)
               \<and> \<not> dm_contains (online s) rid)
       (map fst (filter (\<lambda>(k, auth). idle now auth) (auths s)))"

fun event_queue_ops :: "('t, 'b, 'c) ws_env \<Rightarrow> event \<Rightarrow> ('t, 'c) relay \<Rightarrow> queue_op list" where
  "event_queue_ops W (Text ch i msg) R =
     (case dm_get (conns R) ch of
        None \<Rightarrow> []
      | Some c \<Rightarrow> (case frame_of W i msg c of
                     None \<Rightarrow> [] | Some f \<Rightarrow> frame_queue_ops W i f c (app R)))"
| "event_queue_ops W (MailboxGc gio now) R =
     map (\<lambda>rid. QPurge (gio rid) rid) (collected (w_app W) gio now (app R))"
| "event_queue_ops W (QueueSweep io now) R = [QSweep io now]"
| "event_queue_ops W (Restart ioq iof ioa iob now) R = [QReopen ioq]"
| "event_queue_ops W _ R = []"

fun event_file_ops :: "('t, 'b, 'c) ws_env \<Rightarrow> event \<Rightarrow> ('t, 'c) relay \<Rightarrow> file_op list" where
  "event_file_ops W (Text ch i msg) R =
     (case dm_get (conns R) ch of
        None \<Rightarrow> []
      | Some c \<Rightarrow> (case frame_of W i msg c of None \<Rightarrow> [] | Some f \<Rightarrow> frame_file_ops W i f))"
| "event_file_ops W (FileSweep fio now) R = [FSweep fio now]"
| "event_file_ops W (Restart ioq iof ioa iob now) R = [FReopen iof]"
| "event_file_ops W _ R = []"

end
