(* ===== verification/RelayProofs.thy ===== *)
theory RelayProofs
  imports Relay
begin

text \<open>
  The refinement of the stores by the relay's steps, and the relay's invariant, by rule
  induction over its runs.
\<close>


section \<open>Runs of store operations\<close>

lemma run_append: "run step (xs @ ys) s = run step ys (run step xs s)"
  by (induction xs arbitrary: s) auto

lemma run_ok_append:
  "run_ok ok step (xs @ ys) s \<longleftrightarrow> run_ok ok step xs s \<and> run_ok ok step ys (run step xs s)"
  by (induction xs arbitrary: s) auto

lemma run_ok_all: "(\<And>x s. x \<in> set xs \<Longrightarrow> ok x s) \<Longrightarrow> run_ok ok step xs s"
  by (induction xs arbitrary: s) auto


section \<open>Frames refine the stores\<close>

lemma prune_stores:
  assumes "bundles_ok s"
  shows "queues (prune_expired_bundles now s) = queues s" "files (prune_expired_bundles now s) = files s"
    "auths (prune_expired_bundles now s) = auths s" "online (prune_expired_bundles now s) = online s"
    "send_rate (prune_expired_bundles now s) = send_rate s"
  by (subst prune_effect(6) [OF assms refl, where now = now], simp)+

lemma hello_stores:
  assumes "handle_hello W i rid at dt pmin pmax pver pow co c s = (c', s', out)"
  shows "queues s' = queues s" "files s' = files s" "bundles s' = bundles s" "send_rate s' = send_rate s"
proof -
  obtain s1 r where e: "hello_entry W i rid (token_hash (w_hash W) at) (token_hash (w_hash W) dt) pow s = (s1, r)"
    by force
  then have "queues s1 = queues s \<and> files s1 = files s \<and> bundles s1 = bundles s \<and> send_rate s1 = send_rate s"
    by (auto simp: hello_entry_def reserve_mailbox_slot_def Let_def split: option.splits if_splits prod.splits)
  with assms e show "queues s' = queues s" "files s' = files s" "bundles s' = bundles s"
    "send_rate s' = send_rate s"
    by (auto simp: handle_hello_def Let_def mark_auth_dirty_def split: if_splits option.splits)
qed

text \<open>A send goes to the queue store exactly when it is admitted.\<close>

lemma send_stores:
  assumes "handle_send W i cref to tok ety ctext c s = (s', out)"
  shows "queues s' = run (apply_op (a_queue (w_app W)))
      (frame_queue_ops W i (SendEnvelope cref to tok ety ctext) c s) (queues s)" "files s' = files s"
proof -
  let ?Q = "run (apply_op (a_queue (w_app W)))
      (frame_queue_ops W i (SendEnvelope cref to tok ety ctext) c s) (queues s)"
  define env where "env = \<lparr>env_id = i_uuid i, env_to = to, envelope_type = ety, ciphertext = ctext\<rparr>"
  have "queues s' = ?Q \<and> files s' = files s"
  proof (cases "dm_get (auths s) to")
    case None
    with assms show ?thesis by (auto simp: handle_send_def send_admitted_def split: if_splits)
  next
    case (Some a)
    define s1 where "s1 = s\<lparr>auths := dm_insert to (a\<lparr>last_active_ms := now_activity_ms (i_clock i 1)\<rparr>) (auths s)\<rparr>"
    obtain e b where rt: "rate_step (i_clock i 2) (dm_get (send_rate s) to) = (e, b)"
      by (cases "rate_step (i_clock i 2) (dm_get (send_rate s) to)") simp
    obtain s2 allowed where r: "allow_dest_send (i_clock i 2) to s1 = (s2, allowed)" by force
    obtain s3 live lo where d: "deliver_live i to env s2 = (s3, live, lo)" using prod_cases3 by blast
    have s2: "queues s2 = queues s" "files s2 = files s" "allowed = b"
      using r rt by (auto simp: allow_dest_send_def s1_def)
    have s3: "queues s3 = queues s" "files s3 = files s"
      using d s2 by (auto simp: deliver_live_def split: option.splits if_splits)
    show ?thesis
      using assms Some r [unfolded s1_def] d s2 s3 rt
      unfolding handle_send_def env_def [symmetric] Let_def
      by (auto simp: send_admitted_def env_def mark_auth_dirty_def
          split: if_splits bool.splits prod.splits)
  qed
  then show "queues s' = ?Q" "files s' = files s" by simp_all
qed

lemma frame_stores:
  assumes eq: "handle_frame W i f c s = (c', s', out, stop)" and ok: "bundles_ok s"
  shows "queues s' = run (apply_op (a_queue (w_app W))) (frame_queue_ops W i f c s) (queues s)
    \<and> files s' = run (file_step (a_files (w_app W))) (frame_file_ops W i f) (files s)"
proof (cases f)
  case Hello
  with eq show ?thesis by (auto split: prod.splits dest: hello_stores)
next
  case SendEnvelope
  with eq show ?thesis by (auto split: prod.splits dest: send_stores simp del: frame_queue_ops.simps(1))
next
  case UploadBundle
  with eq prune_stores [OF ok] show ?thesis
    by (auto simp: handle_upload_bundle_def Let_def mark_bundle_dirty_def
        split: if_splits option.splits)
next
  case FetchBundle
  with eq prune_stores [OF ok] show ?thesis
    by (auto simp: handle_fetch_bundle_def Let_def split: if_splits option.splits)
qed (use eq in \<open>auto simp: handle_set_delivery_tokens_def handle_upload_chunk_def handle_delete_transfer_def
    handle_ack_def handle_retire_def mark_auth_dirty_def Let_def
    split: if_splits option.splits prod.splits sum.splits\<close>)

lemma count_recipient [simp]: "recipient (count_frame now c) = recipient c" "tx (count_frame now c) = tx c"
  by (simp_all add: count_frame_def Let_def)

lemma frame_queue_ops_count: "frame_queue_ops W i f (count_frame now c) s = frame_queue_ops W i f c s"
  by (cases f) simp_all

text \<open>\<open>handle_text\<close> is \<open>handle_frame\<close> on the frame it admits, and otherwise an error reply.\<close>

lemma handle_text_frame:
  "handle_text W i msg c s =
     (case frame_of W i msg c of
        Some f \<Rightarrow> handle_frame W i f (count_frame (i_clock i 0) c) s
      | None \<Rightarrow> (let c = count_frame (i_clock i 0) c
                 in (c, s, [(tx c,
                      if frame_count c > MAX_FRAMES_PER_WINDOW then err ''rate_limited'' ''too many frames on this socket''
                      else if length msg > MAX_FRAME_BYTES then err ''too_large'' ''frame too large''
                      else (case w_json W msg of Inl e \<Rightarrow> err ''bad_json'' e | Inr _ \<Rightarrow> err [] []))], False)))"
  by (auto simp: handle_text_def frame_of_def Let_def split: sum.splits)

lemma text_stores:
  assumes "handle_text W i msg c s = (c', s', out, stop)" "bundles_ok s"
  shows "queues s' = run (apply_op (a_queue (w_app W)))
      (case frame_of W i msg c of None \<Rightarrow> [] | Some f \<Rightarrow> frame_queue_ops W i f c s) (queues s)"
    "files s' = run (file_step (a_files (w_app W)))
      (case frame_of W i msg c of None \<Rightarrow> [] | Some f \<Rightarrow> frame_file_ops W i f) (files s)"
  using assms frame_stores [OF _ assms(2), of W i _ "count_frame (i_clock i 0) c" c' s' out stop]
  by (auto simp: handle_text_frame frame_queue_ops_count Let_def split: option.splits)


section \<open>A collection refines the queue store\<close>

lemma gc_fold_queues:
  assumes "distinct rids" "\<And>rid. rid \<in> set rids \<Longrightarrow>
      \<not> dm_contains (online s) rid \<and> (\<exists>a. dm_get (auths s) rid = Some a \<and> idle now a)"
  shows "queues (fold (gc_one E io now) rids s)
      = run (apply_op (a_queue E)) (map (\<lambda>rid. QPurge (io rid) rid) rids) (queues s)
    \<and> files (fold (gc_one E io now) rids s) = files s"
  using assms
proof (induction rids arbitrary: s)
  case (Cons rid rids)
  let ?s = "gc_one E io now rid s"
  obtain a where a: "dm_get (auths s) rid = Some a" "idle now a" "\<not> dm_contains (online s) rid"
    using Cons.prems(2) [of rid] by auto
  then have s: "online ?s = online s" "auths ?s = dm_remove rid (auths s)"
    "queues ?s = apply_op (a_queue E) (QPurge (io rid) rid) (queues s)" "files ?s = files s"
    by (simp_all add: gc_one_def mark_auth_dirty_def Let_def)
  have "queues (fold (gc_one E io now) rids ?s)
      = run (apply_op (a_queue E)) (map (\<lambda>rid. QPurge (io rid) rid) rids) (queues ?s)
    \<and> files (fold (gc_one E io now) rids ?s) = files ?s"
    by (rule Cons.IH) (use Cons.prems s in auto)
  with s show ?case by simp
qed simp

lemma gc_stores:
  assumes "auths_ok s"
  shows "queues (gc_idle_mailboxes E io now s)
      = run (apply_op (a_queue E)) (map (\<lambda>rid. QPurge (io rid) rid) (collected E io now s)) (queues s)"
    "files (gc_idle_mailboxes E io now s) = files s"
proof -
  have wf: "dm_wf (auths s)" using assms by (simp add: auths_ok_def)
  then have "distinct (collected E io now s)"
    by (simp add: collected_def dm_wf_def distinct_map_filter)
  moreover have "\<not> dm_contains (online s) rid \<and> (\<exists>a. dm_get (auths s) rid = Some a \<and> idle now a)"
    if "rid \<in> set (collected E io now s)" for rid
    using that dm_get_set [OF wf] by (force simp: collected_def)
  ultimately have "queues (fold (gc_one E io now) (collected E io now s) s)
      = run (apply_op (a_queue E)) (map (\<lambda>rid. QPurge (io rid) rid) (collected E io now s)) (queues s)
    \<and> files (fold (gc_one E io now) (collected E io now s) s) = files s"
    by (rule gc_fold_queues)
  moreover have "gc_idle_mailboxes E io now s = fold (gc_one E io now) (collected E io now s) s"
    by (simp add: gc_idle_mailboxes_def collected_def Let_def)
  ultimately show "queues (gc_idle_mailboxes E io now s)
      = run (apply_op (a_queue E)) (map (\<lambda>rid. QPurge (io rid) rid) (collected E io now s)) (queues s)"
    "files (gc_idle_mailboxes E io now s) = files s" by simp_all
qed

lemma flush_stores:
  "queues (fst (flush_dirty_meta E io1 io2 s)) = queues s"
  "files (fst (flush_dirty_meta E io1 io2 s)) = files s"
  "conn_count (fst (flush_dirty_meta E io1 io2 s)) = conn_count s"
  "limits (fst (flush_dirty_meta E io1 io2 s)) = limits s"
  "app_inv E (fst (flush_dirty_meta E io1 io2 s)) = app_inv E s"
  by (auto simp: flush_dirty_meta_def Let_def app_inv_defs split: prod.splits option.splits)

lemma tick_stores:
  "queues (meta_flush_tick E io1 io2 s) = queues s" "files (meta_flush_tick E io1 io2 s) = files s"
  "conn_count (meta_flush_tick E io1 io2 s) = conn_count s" "limits (meta_flush_tick E io1 io2 s) = limits s"
  "app_inv E (meta_flush_tick E io1 io2 s) = app_inv E s"
  by (simp_all add: meta_flush_tick_def flush_stores)

lemma close_stores [simp]:
  "queues (close_socket c s) = queues s" "files (close_socket c s) = files s"
  "limits (close_socket c s) = limits s" "bundles (close_socket c s) = bundles s"
  "auths (close_socket c s) = auths s" "conn_count (close_socket c s) = usize_sub (conn_count s) 1"
  "state_ok W sy (close_socket c s) = state_ok W sy s"
  by (auto simp: close_socket_def Let_def split: option.splits)

lemma open_stores:
  assumes "open_socket now ch s = (s', r)"
  shows "queues s' = queues s" "files s' = files s" "limits s' = limits s"
    "state_ok W sy s' = state_ok W sy s"
  using assms by (auto simp: open_socket_def Let_def split: if_splits)


lemma build_stores:
  assumes "build E ioa iob now at bt q f cfg tr = Some s"
  shows "queues s = q" "files s = f" "limits s = cfg" "auth_table s = at" "bundle_table s = bt"
    "conn_count s = 0" "dirty_auth s = []" "dirty_bundles s = []"
  using assms by (auto simp: build_def Let_def split: option.splits prod.splits)


section \<open>Refinement\<close>

lemma step_stores:
  assumes "relay_step W R e out R'" "auths_ok (app R)" "bundles_ok (app R)"
    "config (files (app R)) = limits (app R)"
  shows "queues (app R') = run (apply_op (a_queue (w_app W))) (event_queue_ops W e R) (queues (app R))
    \<and> files (app R') = run (file_step (a_files (w_app W))) (event_file_ops W e R) (files (app R))"
  using assms
  by (cases rule: relay_step.cases)
    (auto simp: open_stores text_stores tick_stores mailbox_gc_tick_def queue_sweep_tick_def
      file_sweep_tick_def gc_stores dest: build_stores)


section \<open>The invariant\<close>

definition conns_ok :: "(chan, conn) dashmap \<Rightarrow> bool" where
  "conns_ok cs \<longleftrightarrow> dm_wf cs \<and> length cs \<le> MAX_CONNECTIONS \<and>
     (\<forall>ch c. dm_get cs ch = Some c \<longrightarrow> conn_ok c \<and> tx c = ch)"

text \<open>
  The metadata tables hold a state that satisfies the invariant: the one of the last flush. It
  is the state a restart comes back to.
\<close>

definition snapshot_ok :: "('t, 'b, 'c) app_env \<Rightarrow> ('t, 'c) app_state \<Rightarrow> bool" where
  "snapshot_ok E s \<longleftrightarrow>
     (\<exists>s0 :: ('t, 'c) app_state. auths_ok s0 \<and> bundles_ok s0 \<and> meta_synced E s0 \<and> dirty_auth s0 = [] \<and>
        dirty_bundles s0 = [] \<and> auth_table s0 = auth_table s \<and> bundle_table s0 = bundle_table s)"

definition relay_inv :: "('t, 'b, 'c) ws_env \<Rightarrow> bool \<Rightarrow> ('t, 'c) relay \<Rightarrow> bool" where
  "relay_inv W sy R \<longleftrightarrow>
     state_ok W sy (app R) \<and> conns_ok (conns R) \<and> conn_count (app R) = length (conns R) \<and>
     total_bytes (queues (app R)) \<le> GLOBAL_QUEUE_DISK_CAP_BYTES \<and> file_caps (files (app R)) \<and>
     config (files (app R)) = limits (app R) \<and> (sy \<longrightarrow> snapshot_ok (w_app W) (app R))"

lemma relay_invD:
  assumes "relay_inv W sy R"
  shows "state_ok W sy (app R)" "conns_ok (conns R)" "conn_count (app R) = length (conns R)"
    "total_bytes (queues (app R)) \<le> GLOBAL_QUEUE_DISK_CAP_BYTES" "file_caps (files (app R))"
    "config (files (app R)) = limits (app R)" "sy \<Longrightarrow> snapshot_ok (w_app W) (app R)"
  using assms by (simp_all add: relay_inv_def)

text \<open>
  The events that keep the invariant. A flush that fails loses its dirty marks, so with the
  write-back relation (\<open>sy\<close>) flushes commit; without it there is no restart.
\<close>

fun event_fine :: "bool \<Rightarrow> event \<Rightarrow> bool" where
  "event_fine sy (MetaFlush io1 io2) \<longleftrightarrow> (sy \<longrightarrow> write_ok io1 \<and> write_ok io2)"
| "event_fine sy (Restart ioq iof ioa iob now) \<longleftrightarrow> sy"
| "event_fine sy _ \<longleftrightarrow> True"

lemma conns_insert:
  assumes "conns_ok cs" "dm_get cs ch = Some c" "conn_ok c'" "tx c' = ch"
  shows "conns_ok (dm_insert ch c' cs)" "length (dm_insert ch c' cs) = length cs"
  using assms by (auto simp: conns_ok_def dm_length_insert_old)

lemma conns_remove:
  assumes "conns_ok cs" "dm_get cs ch = Some c"
  shows "conns_ok (dm_remove ch cs)" "usize_sub (length cs) 1 = length (dm_remove ch cs)"
proof -
  have len: "length cs = Suc (length (dm_remove ch cs))"
    using assms by (metis conns_ok_def dm_length_remove)
  with assms show "conns_ok (dm_remove ch cs)" by (auto simp: conns_ok_def)
  have "length cs < usize_modulus"
    using assms(1) by (auto simp: conns_ok_def config_defs usize_modulus_def)
  then show "usize_sub (length cs) 1 = length (dm_remove ch cs)"
    unfolding len by (subst usize_sub_exact) simp_all
qed

context relay_backend
begin

text \<open>The operations a step asks of a store meet the store's conditions.\<close>

lemma frame_ops_ok:
  assumes "state_ok W sy s" "conn_ok c" "input_ok W i s" "length (payload f) \<le> MAX_FRAME_BYTES"
  shows "run_ok (op_ok (a_queue E)) (apply_op (a_queue E)) (frame_queue_ops W i f c s) (queues s)"
    "list_all file_op_ok (frame_file_ops W i f)"
proof -
  show "run_ok (op_ok (a_queue E)) (apply_op (a_queue E)) (frame_queue_ops W i f c s) (queues s)"
  proof (cases f)
    case (SendEnvelope cref to tok ety ctext)
    then have "length ctext \<le> PER_MAILBOX_QUEUE_BYTES" using assms(4) by (simp add: config_defs)
    then show ?thesis
      using SendEnvelope assms(3) valid_ids_no_colon(1) [of to]
      by (auto simp: enqueue_pre_def send_admitted_def input_ok_def)
  qed (use assms(2) in \<open>auto simp: conn_ok_def split: option.splits\<close>)
  show "list_all file_op_ok (frame_file_ops W i f)"
  proof (cases f)
    case (UploadFileChunk r tid ci tc tb ctext pow)
    then have "length ctext < usize_modulus" using assms(4) by (simp add: config_defs usize_modulus_def)
    then show ?thesis
      using UploadFileChunk valid_ids_no_colon(2) [of tid] b64_bounded
      by (fastforce split: option.splits)
  qed (auto dest: valid_ids_no_colon(2))
qed

lemma frame_of_payload: "frame_of W i msg c = Some f \<Longrightarrow> length (payload f) \<le> MAX_FRAME_BYTES"
  using json_bounded [of msg f] by (auto simp: frame_of_def split: if_splits sum.splits)

lemma event_ops_ok:
  assumes "relay_inv W sy R" "relay_step W R e out R'"
  shows "run_ok (op_ok (a_queue E)) (apply_op (a_queue E)) (event_queue_ops W e R) (queues (app R))"
    "list_all file_op_ok (event_file_ops W e R)"
proof -
  note I = relay_invD [OF assms(1)]
  have "run_ok (op_ok (a_queue E)) (apply_op (a_queue E)) (event_queue_ops W e R) (queues (app R))
    \<and> list_all file_op_ok (event_file_ops W e R)"
  proof (cases e)
    case (Text ch i msg)
    show ?thesis
    proof (cases "dm_get (conns R) ch")
      case (Some c)
      then have "conn_ok c" using I(2) by (auto simp: conns_ok_def)
      moreover have "input_ok W i (app R)" using assms(2) Text by (auto elim: relay_stepE)
      ultimately show ?thesis
        using Text Some frame_ops_ok [OF I(1)] frame_of_payload by (auto split: option.splits)
    qed (simp add: Text)
  next
    case (MailboxGc gio now)
    have "CHR '':'' \<notin> set rid" if "rid \<in> set (collected E gio now (app R))" for rid
      using that state_okD(3) [OF I(1)] dm_get_set by (force simp: collected_def auths_ok_def)
    then show ?thesis using MailboxGc by (auto intro!: run_ok_all)
  qed auto
  then show "run_ok (op_ok (a_queue E)) (apply_op (a_queue E)) (event_queue_ops W e R) (queues (app R))"
    "list_all file_op_ok (event_file_ops W e R)" by simp_all
qed

lemma flush_tick_ok:
  assumes "state_ok W sy s" "sy \<Longrightarrow> write_ok io1 \<and> write_ok io2"
  shows "state_ok W sy (meta_flush_tick E io1 io2 s)"
proof (rule state_okI)
  show "app_inv E (meta_flush_tick E io1 io2 s)" using state_okD(1) [OF assms(1)] by (simp add: tick_stores)
  assume sy: sy
  then have "snd (flush_dirty_meta E io1 io2 s) = Some ()"
    using assms(2) by (auto simp: flush_dirty_meta_def flush_items_def Let_def split: if_splits)
  then have "flush_dirty_meta E io1 io2 s = (fst (flush_dirty_meta E io1 io2 s), Some ())"
    by (metis prod.collapse)
  from flush_effect(1) [OF state_okD(2) [OF assms(1) sy] this] state_okD(2) [OF assms(1) sy]
  show "meta_synced E (meta_flush_tick E io1 io2 s)" by (simp add: meta_flush_tick_def)
qed

lemma restart_ok:
  assumes inv: "relay_inv W True R"
    and q: "queue_new (a_queue E) ioq (envelopes (queues (app R))) = Some q"
    and f: "file_new (a_files E) iof (meta_table (files (app R))) (chunk_table (files (app R)))
      (limits (app R)) = Some f"
    and s: "build E ioa iob now (auth_table (app R)) (bundle_table (app R)) q f (limits (app R)) tr = Some s"
  shows "state_ok W sy s"
proof (rule state_okI)
  note I = relay_invD [OF inv]
  obtain s0 :: "('t, 'c) app_state" where s0: "auths_ok s0" "bundles_ok s0" "meta_synced E s0"
    "dirty_auth s0 = []" "dirty_bundles s0 = []" "auth_table s0 = auth_table (app R)"
    "bundle_table s0 = bundle_table (app R)"
    using I(7) by (auto simp: snapshot_ok_def)
  note B = build_effect [OF s0(1-5) s [folded s0(6,7)]]
  have "queue_inv (a_queue E) q"
    by (rule qb.reopen_effect(1) [OF state_okD(5) [OF I(1)] q])
  moreover have "file_inv (a_files E) f"
    using fb.file_reopen_effect(1) [OF state_okD(6) [OF I(1)] _ f]
      file_invD(1) [OF state_okD(6) [OF I(1)]] I(6) by simp
  ultimately show "app_inv E s" using B(1,2,8,9) by (simp add: app_inv_def)
  show "meta_synced E s" by (rule B(3))
qed

lemma step_state_ok:
  assumes inv: "relay_inv W sy R" and step: "relay_step W R e out R'" and fine: "event_fine sy e"
  shows "state_ok W sy (app R') \<and> conns_ok (conns R') \<and> conn_count (app R') = length (conns R')
    \<and> limits (app R') = limits (app R)"
  using step
proof (cases rule: relay_step.cases)
  note I = relay_invD [OF inv]
  have con: "conn_ok c \<and> tx c = ch"
    if "dm_get (conns R) ch = Some c" for ch c
    using I(2) that by (auto simp: conns_ok_def)
  have small: "n < usize_modulus" if "n \<le> Suc MAX_CONNECTIONS" for n
    using that by (simp add: config_defs usize_modulus_def)
  {
    case (accept ch now s c)
    with I have "conns_ok (dm_insert ch c (conns R)) \<and> conn_count s = length (dm_insert ch c (conns R))"
      by (auto simp: open_socket_def Let_def conns_ok_def conn_ok_def dm_length_insert_new usize_add_def
          small split: if_splits)
    with accept I(1) open_stores [OF accept(5)] show ?thesis by auto
  next
    case (refuse now ch s)
    with I have "conn_count s = length (conns R)"
      using connections.reserve_full [where s = "app R" and now = now and ch = ch] small [of "Suc (conn_count (app R))"]
      by (auto simp: open_socket_def Let_def conns_ok_def split: if_splits)
    with refuse I open_stores [OF refuse(4)] show ?thesis by auto
  next
    case (frame ch c i msg c' s)
    note T = text_ok [OF I(1) _ frame(4,5)] and c = con [OF frame(3)]
    from T c conns_insert [OF I(2) frame(3)] I(3) frame show ?thesis
      by (simp add: same_core_def)
  next
    case (retire ch c i msg c' s)
    note T = text_ok [OF I(1) _ retire(4,5)] and c = con [OF retire(3)]
    from T c conns_remove [OF I(2) retire(3)] I(3) retire show ?thesis
      by (auto simp: same_core_def)
  next
    case (disconnect ch c)
    from conns_remove [OF I(2) disconnect(4)] I disconnect show ?thesis by auto
  next
    case (meta_flush io1 io2)
    with flush_tick_ok [OF I(1)] fine I show ?thesis by (auto simp: tick_stores)
  next
    case (mailbox_gc gio now)
    with gc_effect [OF state_okD(1) [OF I(1)] state_okD(2) [OF I(1)] refl] I show ?thesis
      by (auto simp: mailbox_gc_tick_def same_rest_def intro: state_okI)
  next
    case (queue_sweep io now)
    have "queue_inv (a_queue E) (fst (sweep_expired (a_queue E) io now (queues (app R))))"
      using qb.apply_op_inv [OF state_okD(5) [OF I(1)], of "QSweep io now"] by simp
    with queue_sweep I show ?thesis by (auto simp: queue_sweep_tick_def intro: state_ok_queues)
  next
    case (file_sweep fio now)
    with fb.sweep_inv [OF state_okD(6) [OF I(1)]] I show ?thesis
      by (auto simp: file_sweep_tick_def intro: state_ok_files)
  next
    case (restart ioq q iof f ioa iob now s)
    have "relay_inv W True R" using inv fine restart(1) by simp
    from restart_ok [OF this restart(4-6)] build_stores [OF restart(6)] restart show ?thesis
      by (simp add: conns_ok_def)
  }
qed

text \<open>Only a flush writes the metadata tables, and what it writes satisfies the invariant.\<close>

lemma snapshot_same:
  "snapshot_ok E s \<Longrightarrow> auth_table s' = auth_table s \<Longrightarrow> bundle_table s' = bundle_table s \<Longrightarrow> snapshot_ok E s'"
  by (auto simp: snapshot_ok_def)

lemma flush_tick_snapshot:
  assumes "state_ok W True s" "snapshot_ok E s" "write_ok io1" "write_ok io2"
  shows "snapshot_ok E (meta_flush_tick E io1 io2 s)"
proof (cases "dirty_auth s = [] \<and> dirty_bundles s = []")
  case True
  with assms(2) show ?thesis by (simp add: meta_flush_tick_def)
next
  case False
  let ?s = "fst (flush_dirty_meta E io1 io2 s)"
  have "snd (flush_dirty_meta E io1 io2 s) = Some ()"
    using assms(3,4) by (auto simp: flush_dirty_meta_def flush_items_def Let_def split: if_splits)
  then have "flush_dirty_meta E io1 io2 s = (?s, Some ())" by (metis prod.collapse)
  from flush_effect(1-3) [OF state_okD(2) [OF assms(1) TrueI] this]
  have "meta_synced E ?s" "dirty_auth ?s = []" "dirty_bundles ?s = []" .
  moreover have "app_inv E ?s" using state_okD(1) [OF assms(1)] by (simp add: flush_stores)
  ultimately have "snapshot_ok E ?s" unfolding snapshot_ok_def app_inv_def by blast
  with False show ?thesis unfolding meta_flush_tick_def by (simp only: if_False)
qed

lemma step_tables:
  assumes inv: "relay_inv W sy R" and step: "relay_step W R e out R'" and e: "\<And>io1 io2. e \<noteq> MetaFlush io1 io2"
  shows "auth_table (app R') = auth_table (app R) \<and> bundle_table (app R') = bundle_table (app R)"
  using step
proof (cases rule: relay_step.cases)
  note I = relay_invD [OF inv]
  have con: "conn_ok c" if "dm_get (conns R) ch = Some c" for ch c
    using I(2) that by (auto simp: conns_ok_def)
  {
    case (frame ch c i msg c' s)
    from text_ok(3) [OF I(1) con [OF frame(3)] frame(4,5)] frame show ?thesis by (simp add: same_core_def)
  next
    case (retire ch c i msg c' s)
    from text_ok(3) [OF I(1) con [OF retire(3)] retire(4,5)] retire show ?thesis
      by (auto simp: same_core_def close_socket_def Let_def split: option.splits)
  next
    case (mailbox_gc gio now)
    with gc_effect(3) [OF state_okD(1) [OF I(1)] state_okD(2) [OF I(1)] refl] show ?thesis
      by (auto simp: mailbox_gc_tick_def same_rest_def)
  next
    case (restart ioq q iof f ioa iob now s)
    with build_stores [OF restart(6)] show ?thesis by simp
  }
qed (use e in \<open>auto simp: open_socket_def close_socket_def queue_sweep_tick_def file_sweep_tick_def Let_def
    split: option.splits if_splits\<close>)

lemma step_snapshot:
  assumes inv: "relay_inv W True R" and step: "relay_step W R e out R'" and fine: "event_fine True e"
  shows "snapshot_ok E (app R')"
proof (cases "\<exists>io1 io2. e = MetaFlush io1 io2")
  case True
  then obtain io1 io2 where e: "e = MetaFlush io1 io2" by blast
  with step have "app R' = meta_flush_tick E io1 io2 (app R)" by (auto elim: relay_stepE)
  with flush_tick_snapshot relay_invD(1,7) [OF inv] fine e show ?thesis by simp
next
  case False
  with step_tables [OF inv step] relay_invD(7) [OF inv] show ?thesis by (blast intro: snapshot_same)
qed

lemma step_inv:
  assumes inv: "relay_inv W sy R" and step: "relay_step W R e out R'" and fine: "event_fine sy e"
  shows "relay_inv W sy R'" "limits (app R') = limits (app R)"
proof -
  note I = relay_invD [OF inv] and S = step_state_ok [OF assms] and O = event_ops_ok [OF inv step]
  note F = step_stores [OF step state_okD(3,4) [OF I(1)] I(6)]
  have "total_bytes (queues (app R')) \<le> GLOBAL_QUEUE_DISK_CAP_BYTES"
    using F qb.run_total [OF state_okD(5) [OF I(1)] O(1) I(4)] by simp
  moreover have "file_caps (files (app R')) \<and> config (files (app R')) = limits (app R)"
    using F fb.run_caps [OF state_okD(6) [OF I(1)] O(2) I(5,6)] by simp
  moreover have "snapshot_ok E (app R')" if sy using step_snapshot inv step fine that by simp
  ultimately show "relay_inv W sy R'" "limits (app R') = limits (app R)"
    using S by (auto simp: relay_inv_def)
qed

lemma run_inv:
  assumes "relay_run W R es outs R'" "relay_inv W sy R" "list_all (event_fine sy) es"
  shows "relay_inv W sy R' \<and> limits (app R') = limits (app R)"
  using assms
proof (induction rule: relay_run.induct)
  case (more R e out R1 es outs R')
  have "relay_inv W sy R1" "limits (app R1) = limits (app R)"
    by (rule step_inv [OF more.prems(1) more.hyps(1)], use more.prems(2) in simp)+
  with more show ?case by auto
qed simp

end

text \<open>The store operations of a whole run, event by event.\<close>

inductive run_ops ::
    "('t, 'b, 'c) ws_env \<Rightarrow> ('t, 'c) relay \<Rightarrow> event list \<Rightarrow> queue_op list \<Rightarrow> file_op list \<Rightarrow> ('t, 'c) relay \<Rightarrow> bool"
  for W where
  none: "run_ops W R [] [] [] R"
| more: "relay_step W R e out R1 \<Longrightarrow> run_ops W R1 es qs fs R' \<Longrightarrow>
    run_ops W R (e # es) (event_queue_ops W e R @ qs) (event_file_ops W e R @ fs) R'"

lemma relay_run_ops: "relay_run W R es outs R' \<Longrightarrow> \<exists>qs fs. run_ops W R es qs fs R'"
  by (induction rule: relay_run.induct) (blast intro: run_ops.intros)+

context relay_backend
begin

lemma run_refines:
  assumes "run_ops W R es qs fs R'" "relay_inv W sy R" "list_all (event_fine sy) es"
  shows "queues (app R') = run (apply_op (a_queue E)) qs (queues (app R))
    \<and> files (app R') = run (file_step (a_files E)) fs (files (app R))
    \<and> run_ok (op_ok (a_queue E)) (apply_op (a_queue E)) qs (queues (app R)) \<and> list_all file_op_ok fs"
  using assms
proof (induction rule: run_ops.induct)
  case (more R e out R1 es qs fs R')
  have "relay_inv W sy R1" by (rule step_inv(1) [OF more.prems(1) more.hyps(1)]) (use more.prems(2) in simp)
  with more event_ops_ok [OF more.prems(1) more.hyps(1)]
    step_stores [OF more.hyps(1) state_okD(3,4) [OF relay_invD(1) [OF more.prems(1)]] relay_invD(6) [OF more.prems(1)]]
  show ?case by (simp add: run_append run_ok_append)
qed simp

end

end
