(* ===== verification/RefRelay.thy ===== *)
theory RefRelay
  imports RelayProofs RefTable FileTheorems
begin

text \<open>
  A reference instance of everything the relay relies on, on which the examples run: the
  reference tables, one type of stored values for the four codecs, a hash that is injective on
  tokens and passes the proof of work, an identity base64 and a reader of a few fixed frames.
  The interpretation shows that the laws of \<open>relay_backend\<close> can hold together.
\<close>

datatype ref_value = RQueue stored_value | RFile file_meta | RAuth mailbox_auth | RBundle hosted_bundle

definition ref_queue_codec :: "(stored_value, ref_value) codec" where
  "ref_queue_codec = \<lparr>enc = RQueue, dec = (\<lambda>v. case v of RQueue x \<Rightarrow> Some x | _ \<Rightarrow> None)\<rparr>"
definition ref_file_codec :: "(file_meta, ref_value) codec" where
  "ref_file_codec = \<lparr>enc = RFile, dec = (\<lambda>v. case v of RFile x \<Rightarrow> Some x | _ \<Rightarrow> None)\<rparr>"
definition ref_auth_codec :: "(mailbox_auth, ref_value) codec" where
  "ref_auth_codec = \<lparr>enc = RAuth, dec = (\<lambda>v. case v of RAuth x \<Rightarrow> Some x | _ \<Rightarrow> None)\<rparr>"
definition ref_bundle_codec :: "(hosted_bundle, ref_value) codec" where
  "ref_bundle_codec = \<lparr>enc = RBundle, dec = (\<lambda>v. case v of RBundle x \<Rightarrow> Some x | _ \<Rightarrow> None)\<rparr>"

type_synonym ref_tab = "(string \<times> ref_value) list"
type_synonym ref_chunks = "(string \<times> bytes) list"

definition ref_app :: "(ref_tab, ref_value, ref_chunks) app_env" where
  "ref_app =
     \<lparr>a_queue = \<lparr>q_table = ref_table, q_codec = ref_queue_codec, q_uuid = ref_uuid\<rparr>,
      a_files = \<lparr>f_meta = ref_table, f_chunks = ref_table, f_codec = ref_file_codec\<rparr>,
      a_auth = ref_table, a_auth_codec = ref_auth_codec,
      a_bundles = ref_table, a_bundle_codec = ref_bundle_codec\<rparr>"

lemma ref_app_simps [simp]:
  "q_table (a_queue ref_app) = ref_table" "q_codec (a_queue ref_app) = ref_queue_codec"
  "q_uuid (a_queue ref_app) = ref_uuid" "f_meta (a_files ref_app) = ref_table"
  "f_chunks (a_files ref_app) = ref_table" "f_codec (a_files ref_app) = ref_file_codec"
  "a_auth ref_app = ref_table" "a_auth_codec ref_app = ref_auth_codec"
  "a_bundles ref_app = ref_table" "a_bundle_codec ref_app = ref_bundle_codec"
  by (simp_all add: ref_app_def)

definition ref_hash :: hash_ops where
  "ref_hash = \<lparr>sha256 = (\<lambda>t. if CHR '':'' \<in> set t then replicate 32 0 else as_bytes t),
               hex_encode = map (char_of \<circ> unat)\<rparr>"

definition alice :: string where "alice = ''mbx_alice-0123456789abcdef0123456789''"
definition bundle1 :: string where "bundle1 = ''bundle-0123456789''"
definition auth_a :: string where "auth_a = ''auth-token-alice-1''"
definition send_a :: string where "send_a = ''send-token-alice-1''"

definition ref_json :: "string \<Rightarrow> string + client_frame" where
  "ref_json t =
     (if t = ''hello'' then Inr (Hello alice auth_a send_a None None (Some 7) (Some ''0:x'') False)
      else if t = ''wrong'' then Inr (Hello alice send_a send_a None None (Some 7) (Some ''0:x'') False)
      else if t = ''nopow'' then Inr (Hello alice auth_a send_a None None (Some 7) None False)
      else if t = ''send'' then Inr (SendEnvelope None alice send_a ''chat'' ''hi'')
      else if t = ''forge'' then Inr (SendEnvelope None alice auth_a ''chat'' ''hi'')
      else if t = ''ack'' then Inr (Ack [7])
      else if t = ''retire'' then Inr RetireMailbox
      else if t = ''upload'' then Inr (UploadBundle ''r'' bundle1 ''invite'' 0 (Some ''0:x''))
      else if t = ''other'' then Inr (UploadBundle ''r'' bundle1 ''forged'' 0 (Some ''0:x''))
      else if t = ''fetch'' then Inr (FetchBundle ''r'' bundle1)
      else if t = ''chunk'' then Inr (UploadFileChunk ''r'' bundle1 0 1 2 ''ab'' (Some ''0:x''))
      else if t = ''ping'' then Inr Ping
      else Inl ''expected value'')"

definition ref_ws :: "(ref_tab, ref_value, ref_chunks) ws_env" where
  "ref_ws =
     \<lparr>w_app = ref_app, w_hash = ref_hash, w_json = ref_json,
      b64_decode = (\<lambda>t. Some (as_bytes t)), b64_encode = map (char_of \<circ> unat),
      parse_key = Inr, sign_cert = (\<lambda>u k d t. Inr k)\<rparr>"

lemma ref_ws_simps [simp]:
  "w_app ref_ws = ref_app" "w_hash ref_ws = ref_hash" "w_json ref_ws = ref_json"
  "b64_decode ref_ws t = Some (as_bytes t)"
  by (simp_all add: ref_ws_def)

lemma ref_codecs:
  "serde_codec ref_queue_codec" "serde_codec ref_file_codec" "serde_codec ref_auth_codec"
  "serde_codec ref_bundle_codec"
  by (simp_all add: serde_codec_def ref_queue_codec_def ref_file_codec_def ref_auth_codec_def
      ref_bundle_codec_def)

interpretation ref_relay: relay_backend ref_ws
proof -
  have "length (payload f) \<le> length msg" if "ref_json msg = Inr f" for msg f
    using that by (auto simp: ref_json_def split: if_splits)
  moreover have "length raw \<le> length msg" if "b64_decode ref_ws msg = Some raw" for msg raw
    using that by (auto simp: as_bytes_def)
  ultimately show "relay_backend ref_ws"
    by (simp add: relay_backend_def app_backend_def queue_backend_def file_backend_def
        relay_backend_axioms_def ref_codecs ref.redb_table_axioms ref_uuid.uuid_text_axioms)
qed

lemmas ref_relay_backend [simp] = ref_relay.relay_backend_axioms



section \<open>Sample states\<close>

text \<open>A relay that has just started on empty tables, and one on which Alice has registered.\<close>

definition app0 :: "(ref_tab, ref_chunks) app_state" where
  "app0 =
     \<lparr>queues = \<lparr>envelopes = [], total_bytes = 0, next_seq = 1, index = []\<rparr>,
      auth_table = [], bundle_table = [],
      files = \<lparr>meta_table = [], chunk_table = [], config = small_config, meta_cache = [],
               reserved_bytes = 0, transfer_count = 0\<rparr>,
      limits = small_config, online = [], auths = [], mailbox_count = 0, bundles = [],
      total_bundle_bytes = 0, send_rate = [], trust_root_public_b64 = ''root'', dirty_auth = [],
      dirty_bundles = [], conn_count = 0, last_bundle_prune_ms = 0\<rparr>"

definition relay0 :: "(ref_tab, ref_chunks) relay" where
  "relay0 = \<lparr>app = app0, conns = []\<rparr>"

definition in1 :: frame_in where
  "in1 = \<lparr>i_clock = (\<lambda>_. 86400000), i_secs = 600, i_uuid = 7, i_qio = io_fine, i_cio = all_ok,
          i_fio = io_fine, i_live = True, i_alive = 500, i_rng = None\<rparr>"

lemma in1_simps [simp]:
  "i_clock in1 n = 86400000" "i_secs in1 = 600" "i_uuid in1 = 7" "i_qio in1 = io_fine"
  "i_cio in1 = all_ok" "i_fio in1 = io_fine" "i_live in1" "i_alive in1 = 500" "i_rng in1 = None"
  by (simp_all add: in1_def)

definition conn0 :: conn where
  "conn0 = \<lparr>tx = 1, recipient = None, window_start_ms = 86400000, frame_count = 0\<rparr>"

definition app1 :: "(ref_tab, ref_chunks) app_state" where
  "app1 = app0\<lparr>conn_count := 1\<rparr>"

text \<open>What the checks compute on the sample values.\<close>

lemma id_chars: "list_all id_char cs \<longleftrightarrow> (\<forall>c \<in> set cs. id_char c)"
  by (simp add: list_all_iff)

lemma sample_ids [simp]:
  "valid_recipient_id alice" "valid_token auth_a" "valid_token send_a" "valid_bundle_id bundle1"
  by (simp_all add: valid_recipient_id_def valid_token_def valid_bundle_id_def alice_def auth_a_def
      send_a_def bundle1_def starts_with_def id_char_def is_ascii_alphanumeric_def less_eq_char_def)

lemma as_bytes_back: "map (char_of \<circ> unat) (as_bytes t) = t"
  by (induction t) (simp_all add: as_bytes_def unat_of_nat take_bit_nat_eq_self nat_of_char_less_256)

lemma sample_hash [simp]: "token_hash ref_hash auth_a = auth_a" "token_hash ref_hash send_a = send_a"
  by (simp_all add: token_hash_def ref_hash_def as_bytes_back) (simp_all add: auth_a_def send_a_def)

lemma sample_tokens [simp]: "auth_a \<noteq> send_a" "send_a \<noteq> auth_a"
  by (simp_all add: auth_a_def send_a_def)

lemma sample_pow [simp]: "pow_valid ref_ws in1 k (Some ''0:x'')"
  by (simp add: pow_valid_def verify_pow_def in1_def parse_u64_def parse_uint_def digit_val_def Let_def
      ref_hash_def pow_hash_ok_zero pow_input_def sat_sub_def del: replicate.simps)

definition auth1 :: mailbox_auth where
  "auth1 = \<lparr>receive_auth_hash = auth_a, delivery_token_hash = send_a, delivery_token_hashes = [send_a],
     last_active_ms = 86400000\<rparr>"

definition app2 :: "(ref_tab, ref_chunks) app_state" where
  "app2 = app1\<lparr>auths := [(alice, auth1)], mailbox_count := 1, dirty_auth := [(alice, ())],
     online := [(alice, 1)]\<rparr>"

definition conn2 :: conn where
  "conn2 = \<lparr>tx = 1, recipient = Some alice, window_start_ms = 86400000, frame_count = 1\<rparr>"

lemma activity_day [simp]: "now_activity_ms 86400000 = 86400000"
  by (simp add: now_activity_ms_def config_defs)

lemmas state_defs = app0_def app1_def app2_def auth1_def conn0_def conn2_def io_fine_def

lemmas eval_defs = state_defs handle_text_def count_frame_def ref_json_def Let_def config_defs sat_add_def
  usize_add_def usize_sat_add_def usize_modulus_def usize_max_def mark_auth_dirty_def

lemma hello_reply: "handle_text ref_ws in1 ''hello'' conn0 app1
  = (conn2, app2, [(1, HelloOk 7 4 7 86400000 ''root'' 100), (1, Synced 0)], False)"
  by (simp add: eval_defs handle_hello_def hello_entry_def hello_flush_def reserve_mailbox_slot_def
      mailbox_auth_new_def flush_def read_mailbox_def mailbox_bounds_def List.map_filter_simps small_config_def)

lemma app0_built:
  "build ref_app io_fine io_fine now [] [] (queues app0) (files app0) small_config ''root'' = Some app0"
  by (simp add: build_def load_all_def app0_def build_auths_def build_bundles_def List.map_filter_simps)

lemma relay0_inv: "relay_inv ref_ws sy relay0"
proof -
  have "queue_new (a_queue ref_app) io_fine [] = Some (queues app0)"
    by (simp add: queue_new_def scan_totals_def app0_def sat_add_def)
  then have q: "queue_inv (a_queue ref_app) (queues app0)"
    using ref_relay.qb.open_empty(1) [of io_fine "queues app0"] by simp
  have "file_new (a_files ref_app) io_fine [] [] small_config = Some (files app0)"
    by (simp add: file_new_def app0_def)
  then have f: "file_inv (a_files ref_app) (files app0)"
    using ref_relay.fb.file_open_empty(1) [of io_fine small_config "files app0"] small_config_ok by simp
  have m: "auths_ok app0" "bundles_ok app0" "meta_synced ref_app app0"
    by (simp_all add: auths_ok_def bundles_ok_def meta_synced_def synced_def stored_at_def app0_def)
  then have "snapshot_ok ref_app app0" by (auto simp: snapshot_ok_def app0_def)
  with q f m show ?thesis
    by (simp add: relay_inv_def relay0_def state_ok_def app_inv_def conns_ok_def)
      (simp add: app0_def file_caps_def)
qed

text \<open>The socket that opens, the registration, and the state with Alice registered.\<close>

definition relay1 :: "(ref_tab, ref_chunks) relay" where
  "relay1 = \<lparr>app = app1, conns = [(1, conn0)]\<rparr>"

definition relay2 :: "(ref_tab, ref_chunks) relay" where
  "relay2 = \<lparr>app = app2, conns = [(1, conn2)]\<rparr>"

lemma sample_connect: "relay_step ref_ws relay0 (Connect 1 86400000) [] relay1"
proof -
  have "open_socket 86400000 1 (app relay0) = (app1, Some conn0)"
    by (simp add: open_socket_def eval_defs relay0_def)
  from relay_step.accept [OF _ this] show ?thesis by (simp add: relay0_def relay1_def)
qed

lemma sample_hello: "relay_step ref_ws relay1 (Text 1 in1 ''hello'')
  [(1, HelloOk 7 4 7 86400000 ''root'' 100), (1, Synced 0)] relay2"
proof -
  have "input_ok ref_ws in1 (app relay1)" by (simp add: input_ok_def relay1_def app1_def app0_def)
  then have "relay_step ref_ws relay1 (Text 1 in1 ''hello'')
      [(1, HelloOk 7 4 7 86400000 ''root'' 100), (1, Synced 0)] \<lparr>app = app2, conns = dm_insert 1 conn2 (conns relay1)\<rparr>"
    using hello_reply by (intro relay_step.frame [where c = conn0]) (simp_all add: relay1_def)
  then show ?thesis by (simp add: relay1_def relay2_def)
qed


text \<open>
  A message for Alice while her live route does not take it: it is queued. The state is the one
  the handler computes.
\<close>

lemma app2_simps [simp]:
  "auths app2 = [(alice, auth1)]" "online app2 = [(alice, 1)]" "send_rate app2 = []"
  "dirty_auth app2 = [(alice, ())]" "auth1\<lparr>last_active_ms := 86400000\<rparr> = auth1"
  by (simp_all add: app2_def auth1_def app1_def app0_def)

definition in2 :: frame_in where "in2 = in1\<lparr>i_live := False\<rparr>"

lemma in2_simps [simp]:
  "i_clock in2 n = 86400000" "i_uuid in2 = 7" "i_qio in2 = io_fine" "\<not> i_live in2"
  by (simp_all add: in2_def)

definition conn3 :: conn where
  "conn3 = \<lparr>tx = 1, recipient = Some alice, window_start_ms = 86400000, frame_count = 2\<rparr>"

definition queue3 :: "ref_tab queue_store" where
  "queue3 = fst (enqueue (a_queue ref_app) io_fine 86400000 alice
     \<lparr>env_id = 7, env_to = alice, envelope_type = ''chat'', ciphertext = ''hi''\<rparr> (queues app2))"

definition app3 :: "(ref_tab, ref_chunks) app_state" where
  "app3 = app2\<lparr>online := [], send_rate := [(alice, (86400000, 1))], queues := queue3\<rparr>"

definition relay3 :: "(ref_tab, ref_chunks) relay" where
  "relay3 = \<lparr>app = app3, conns = [(1, conn3)]\<rparr>"

lemma sample_enqueue: "enqueue (a_queue ref_app) io_fine 86400000 alice
    \<lparr>env_id = 7, env_to = alice, envelope_type = ''chat'', ciphertext = ''hi''\<rparr> (queues app2) = (queue3, Some 0)"
  by (simp add: queue3_def enqueue_def Let_def eval_defs index_of_def)

lemma sample_accepts [simp]: "accepts_delivery_hash auth1 send_a" "\<not> accepts_delivery_hash auth1 auth_a"
  by (simp_all add: accepts_delivery_hash_def auth1_def)

lemma send_reply: "handle_text ref_ws in2 ''send'' conn2 app2 = (conn3, app3, [(1, SendOk 7 True None)], False)"
proof -
  have rate: "allow_dest_send 86400000 alice app2 = (app2\<lparr>send_rate := [(alice, (86400000, 1))]\<rparr>, True)"
    by (simp add: allow_dest_send_def rate_step_def eval_defs sat_sub_def)
  have room: "\<not> would_exceed_global (queues app2) (length ''hi'')"
    by (simp add: would_exceed_global_def eval_defs)
  have lease: "app2\<lparr>auths := [(alice, auth1)]\<rparr> = app2" by (simp add: app2_def)
  have conn: "count_frame 86400000 conn2 = conn3"
    by (simp add: count_frame_def conn2_def conn3_def sat_add_def sat_sub_def Let_def config_defs)
  have "handle_send ref_ws in2 None alice send_a ''chat'' ''hi'' conn3 app2 = (app3, [(1, SendOk 7 True None)])"
    using sample_enqueue rate room lease
    by (simp add: handle_send_def deliver_live_def Let_def mark_auth_dirty_def)
      (simp add: app2_def app3_def conn3_def app1_def app0_def mark_auth_dirty_def)
  then show ?thesis
    by (simp add: handle_text_def conn ref_json_def Let_def) (simp add: conn3_def config_defs)
qed

lemma sample_send: "relay_step ref_ws relay2 (Text 1 in2 ''send'') [(1, SendOk 7 True None)] relay3"
proof -
  have "input_ok ref_ws in2 (app relay2)"
    by (simp add: input_ok_def relay2_def app2_def app1_def app0_def)
  then have "relay_step ref_ws relay2 (Text 1 in2 ''send'') [(1, SendOk 7 True None)]
      \<lparr>app = app3, conns = dm_insert 1 conn3 (conns relay2)\<rparr>"
    using send_reply by (intro relay_step.frame [where c = conn2]) (simp_all add: relay2_def)
  then show ?thesis by (simp add: relay2_def relay3_def)
qed

end
