(* ===== verification/RelayTheorems.thy ===== *)
theory RelayTheorems
  imports RefRelay
begin

text \<open>
  The properties of the relay as a whole: the caps, the refinement of the stores, restarts,
  end-to-end delivery, and who can change a mailbox. Each has an instance on the reference relay.
\<close>


section \<open>Starting\<close>

text \<open>A relay on its first start: the stores opened on empty tables, no socket.\<close>

definition fresh_relay :: "('t, 'b, 'c) ws_env \<Rightarrow> file_config \<Rightarrow> ('t, 'c) relay \<Rightarrow> bool" where
  "fresh_relay W cfg R \<longleftrightarrow>
     (let E = w_app W; Q = a_queue E; F = a_files E
      in conns R = [] \<and>
         (\<exists>ioq iof ioa iob now q f tr.
            queue_new Q ioq (t_empty (q_table Q)) = Some q \<and>
            file_new F iof (t_empty (f_meta F)) (t_empty (f_chunks F)) cfg = Some f \<and>
            build E ioa iob now (t_empty (a_auth E)) (t_empty (a_bundles E)) q f cfg tr = Some (app R)))"

context relay_backend
begin

lemma fresh_inv:
  assumes "config_ok cfg" "fresh_relay W cfg R"
  shows "relay_inv W sy R" "auths (app R) = []" "bundles (app R) = []"
proof -
  obtain ioq iof ioa iob now q f tr where c: "conns R = []"
    and q: "queue_new (a_queue E) ioq (t_empty (q_table (a_queue E))) = Some q"
    and f: "file_new (a_files E) iof (t_empty (f_meta (a_files E))) (t_empty (f_chunks (a_files E))) cfg = Some f"
    and b: "build E ioa iob now (t_empty (a_auth E)) (t_empty (a_bundles E)) q f cfg tr = Some (app R)"
    using assms(2) unfolding fresh_relay_def Let_def by blast
  have it: "t_iter (a_auth E) (t_empty (a_auth E)) = []" "t_iter (a_bundles E) (t_empty (a_bundles E)) = []"
    by (simp_all add: at.iter_Nil_iff bt.iter_Nil_iff at.get_empty bt.get_empty)
  then have s: "app R = \<lparr>queues = q, auth_table = t_empty (a_auth E), bundle_table = t_empty (a_bundles E),
      files = f, limits = cfg, online = [], auths = [], mailbox_count = 0, bundles = [],
      total_bundle_bytes = 0, send_rate = [], trust_root_public_b64 = tr, dirty_auth = [],
      dirty_bundles = [], conn_count = 0, last_bundle_prune_ms = 0\<rparr>"
    using b by (auto simp: build_def load_all_def build_auths_def build_bundles_def List.map_filter_simps
        split: if_splits)
  note Q = qb.open_empty [OF q] and F = fb.file_open_empty [OF f assms(1)]
  have m: "auths_ok (app R)" "bundles_ok (app R)" "meta_synced E (app R)"
    by (simp_all add: s auths_ok_def bundles_ok_def meta_synced_def synced_def stored_at_def at.get_empty bt.get_empty)
  then have "snapshot_ok E (app R)" unfolding snapshot_ok_def by (intro exI [of _ "app R"]) (simp add: s)
  with m c Q F show "relay_inv W sy R"
    by (simp add: relay_inv_def state_ok_def app_inv_def conns_ok_def s file_caps_def)
  show "auths (app R) = []" "bundles (app R) = []" by (simp_all add: s)
qed

end

lemma relay0_fresh: "fresh_relay ref_ws small_config relay0"
proof -
  have "queue_new (a_queue ref_app) io_fine [] = Some (queues app0)"
    "file_new (a_files ref_app) io_fine [] [] small_config = Some (files app0)"
    by (simp_all add: queue_new_def scan_totals_def file_new_def app0_def sat_add_def)
  with app0_built show ?thesis unfolding fresh_relay_def Let_def
    by (auto simp: relay0_def) blast
qed

definition sample_run2 :: "event list" where
  "sample_run2 = [Connect 1 86400000, Text 1 in1 ''hello'']"

lemma sample_run2: "relay_run ref_ws relay0 sample_run2
  [(1, HelloOk 7 4 7 86400000 ''root'' 100), (1, Synced 0)] relay2"
  using relay_run.more [OF sample_connect relay_run.more [OF sample_hello relay_run.none]]
  by (simp add: sample_run2_def)


section \<open>Caps\<close>

text \<open>
  C2: the resource caps, over every run of a relay from its first start in which the process does
  not restart or every metadata flush commits, whatever clients send and whichever other storage
  calls fail (without a restart, the metadata flushes too). The counters the admission checks
  read are exact, and there are never more than 16384 sockets,
  50000 mailboxes with 64 delivery tokens each, 50000 bundles of 64 MiB together, 4 GiB of queued
  messages with 500 messages and 8 MiB per mailbox, and the operator's limits on files.
\<close>

theorem relay_caps:
  assumes "relay_backend W" "config_ok cfg" "fresh_relay W cfg R" "relay_run W R es outs R'"
    "list_all (event_fine sy) es"
  defines "s \<equiv> app R'"
  shows "conn_count s = length (conns R') \<and> length (conns R') \<le> MAX_CONNECTIONS
    \<and> mailbox_count s = length (auths s) \<and> mailbox_count s \<le> MAX_MAILBOXES
    \<and> (\<forall>m a. dm_get (auths s) m = Some a \<longrightarrow> length (delivery_token_hashes a) \<le> MAX_DELIVERY_TOKENS_PER_MAILBOX)
    \<and> length (bundles s) \<le> MAX_BUNDLES
    \<and> total_bundle_bytes s = bundle_sum (bundles s) \<and> total_bundle_bytes s \<le> MAX_TOTAL_BUNDLE_BYTES
    \<and> total_bytes (queues s) \<le> GLOBAL_QUEUE_DISK_CAP_BYTES
    \<and> (\<forall>m. CHR '':'' \<notin> set m \<longrightarrow> length (mail (a_queue (w_app W)) (queues s) m) \<le> MAX_QUEUE_PER_RECIPIENT
         \<and> queue_bytes (mail (a_queue (w_app W)) (queues s) m) \<le> PER_MAILBOX_QUEUE_BYTES)
    \<and> reserved_bytes (files s) \<le> max_total_file_bytes (limits s)
    \<and> transfer_count (files s) \<le> max_transfers (limits s)"
proof -
  have "relay_inv W sy R'"
    using relay_backend.run_inv [OF assms(1,4) relay_backend.fresh_inv(1) [OF assms(1-3)] assms(5)] by simp
  note I = relay_invD [OF this]
  note A = state_okD(3) [OF I(1), unfolded auths_ok_def] and B = state_okD(4) [OF I(1), unfolded bundles_ok_def]
    and Q = state_okD(5) [OF I(1), unfolded queue_inv_def]
  show ?thesis
    unfolding s_def using I(2-6) A B Q by (simp add: conns_ok_def file_caps_def)
qed

theorem relay_caps_witness:
  "conn_count (app relay2) = length (conns relay2) \<and> mailbox_count (app relay2) \<le> MAX_MAILBOXES"
  using relay_caps [OF ref_relay_backend small_config_ok relay0_fresh sample_run2, of True]
  by (simp add: sample_run2_def)


section \<open>Refinement\<close>

text \<open>
  C6: the relay refines its stores. What any run of the relay does to the queue store and to
  the file store is the run of lists of their operations, each of which meets the condition the
  store asks of its caller; so what holds of every run of a store holds under the relay.
\<close>

theorem relay_refines_stores:
  assumes "relay_backend W" "relay_inv W sy R" "relay_run W R es outs R'" "list_all (event_fine sy) es"
  defines "Q \<equiv> a_queue (w_app W)" and "F \<equiv> a_files (w_app W)"
  shows "\<exists>qs fs. run_ops W R es qs fs R'
    \<and> queues (app R') = run (apply_op Q) qs (queues (app R)) \<and> run_ok (op_ok Q) (apply_op Q) qs (queues (app R))
    \<and> files (app R') = run (file_step F) fs (files (app R)) \<and> list_all file_op_ok fs"
proof -
  obtain qs fs where ops: "run_ops W R es qs fs R'" using relay_run_ops [OF assms(3)] by blast
  with relay_backend.run_refines [OF assms(1) ops assms(2,4)] show ?thesis
    unfolding Q_def F_def by blast
qed

theorem relay_refines_stores_witness:
  "\<exists>qs fs. run_ops ref_ws relay0 sample_run2 qs fs relay2
     \<and> queues (app relay2) = run (apply_op (a_queue ref_app)) qs (queues (app relay0))"
  using relay_refines_stores [OF ref_relay_backend relay0_inv sample_run2, of True]
  by (auto simp: sample_run2_def)


section \<open>Restarts\<close>

context relay_backend
begin

lemma restart_total:
  assumes "read_ok ioq" "write_ok ioq" "read_ok iof" "write_ok iof" "read_ok ioa" "read_ok iob"
  shows "\<exists>R'. relay_step W R (Restart ioq iof ioa iob now) [] R'"
proof -
  have "queue_new (a_queue E) ioq (envelopes (queues (app R))) \<noteq> None"
    using assms(1,2) by (auto simp: queue_new_def split: prod.splits)
  then obtain q where q: "queue_new (a_queue E) ioq (envelopes (queues (app R))) = Some q" by blast
  have "file_new (a_files E) iof (meta_table (files (app R))) (chunk_table (files (app R)))
      (limits (app R)) \<noteq> None"
    using assms(3,4) by (auto simp: file_new_def split: prod.splits)
  then obtain f where f: "file_new (a_files E) iof (meta_table (files (app R))) (chunk_table (files (app R)))
      (limits (app R)) = Some f" by blast
  have "build E ioa iob now (auth_table (app R)) (bundle_table (app R)) q f (limits (app R))
      (trust_root_public_b64 (app R)) \<noteq> None"
    using assms(5,6) by (auto simp: build_def load_all_def Let_def split: prod.splits)
  then obtain s where "build E ioa iob now (auth_table (app R)) (bundle_table (app R)) q f (limits (app R))
      (trust_root_public_b64 (app R)) = Some s" by blast
  with relay_step.restart [OF q f] show ?thesis by blast
qed

lemma restart_effect:
  assumes inv: "relay_inv W True R" and step: "relay_step W R (Restart ioq iof ioa iob now) out R'"
  shows "relay_inv W True R'" "conns R' = []"
    "mail (a_queue E) (queues (app R')) m = mail (a_queue E) (queues (app R)) m"
    "chunk_at (a_files E) (files (app R')) = chunk_at (a_files E) (files (app R))"
    "meta_at (a_files E) (files (app R')) = meta_at (a_files E) (files (app R))"
    "dirty_auth (app R) = [] \<Longrightarrow> dirty_bundles (app R) = [] \<Longrightarrow>
       dm_get (bundles (app R')) = dm_get (bundles (app R))
       \<and> (\<forall>m. rel_option same_auth (dm_get (auths (app R)) m) (dm_get (auths (app R')) m))"
proof -
  note I = relay_invD [OF inv]
  obtain q f s where q: "queue_new (a_queue E) ioq (envelopes (queues (app R))) = Some q"
    and f: "file_new (a_files E) iof (meta_table (files (app R))) (chunk_table (files (app R)))
      (limits (app R)) = Some f"
    and s: "build E ioa iob now (auth_table (app R)) (bundle_table (app R)) q f (limits (app R))
      (trust_root_public_b64 (app R)) = Some s" and R': "R' = \<lparr>app = s, conns = []\<rparr>"
    using step by (auto elim: relay_stepE)
  note B = build_stores [OF s]
  show "relay_inv W True R'" by (rule step_inv(1) [OF inv step]) simp
  show "conns R' = []" by (simp add: R')
  have cfg: "config_ok (limits (app R))" using file_invD(1) [OF state_okD(6) [OF I(1)]] I(6) by simp
  show "mail (a_queue E) (queues (app R')) m = mail (a_queue E) (queues (app R)) m"
    using qb.reopen_effect(2) [OF state_okD(5) [OF I(1)] q] by (simp add: R' B)
  show "chunk_at (a_files E) (files (app R')) = chunk_at (a_files E) (files (app R))"
    "meta_at (a_files E) (files (app R')) = meta_at (a_files E) (files (app R))"
    using fb.file_reopen_effect(2,3) [OF state_okD(6) [OF I(1)] cfg f] by (simp_all add: R' B)
  show "dm_get (bundles (app R')) = dm_get (bundles (app R))
       \<and> (\<forall>m. rel_option same_auth (dm_get (auths (app R)) m) (dm_get (auths (app R')) m))"
    if "dirty_auth (app R) = []" "dirty_bundles (app R) = []"
    using build_effect(4,5) [OF state_okD(3,4) [OF I(1)] state_okD(2) [OF I(1) TrueI] that s] by (simp add: R')
qed

end

text \<open>
  C14: a restart at any point of a run whose flushes committed. When the tables can be read it
  succeeds; every queued message and every file chunk is still there, byte for byte, no socket
  is left, the caps hold and the counters are exact again, and if nothing was waiting to be
  flushed every mailbox keeps its tokens and every bundle is as it was.
\<close>

theorem restart_restores_relay:
  assumes "relay_backend W" "relay_inv W True R" "read_ok ioq" "write_ok ioq" "read_ok iof" "write_ok iof"
    "read_ok ioa" "read_ok iob"
  shows "\<exists>R'. relay_step W R (Restart ioq iof ioa iob now) [] R' \<and> relay_inv W True R' \<and> conns R' = []
    \<and> (\<forall>m. mail (a_queue (w_app W)) (queues (app R')) m = mail (a_queue (w_app W)) (queues (app R)) m)
    \<and> chunk_at (a_files (w_app W)) (files (app R')) = chunk_at (a_files (w_app W)) (files (app R))
    \<and> meta_at (a_files (w_app W)) (files (app R')) = meta_at (a_files (w_app W)) (files (app R))
    \<and> (dirty_auth (app R) = [] \<and> dirty_bundles (app R) = [] \<longrightarrow>
        dm_get (bundles (app R')) = dm_get (bundles (app R))
        \<and> (\<forall>m. rel_option same_auth (dm_get (auths (app R)) m) (dm_get (auths (app R')) m)))"
proof -
  obtain R' where step: "relay_step W R (Restart ioq iof ioa iob now) [] R'"
    using relay_backend.restart_total [OF assms(1,3-8)] by blast
  with relay_backend.restart_effect [OF assms(1,2) step] show ?thesis by blast
qed

theorem restart_restores_relay_witness:
  "\<exists>R'. relay_step ref_ws relay0 (Restart io_fine io_fine io_fine io_fine 9) [] R' \<and> conns R' = []
     \<and> dm_get (bundles (app R')) = dm_get (bundles (app relay0))"
  using restart_restores_relay [OF ref_relay_backend relay0_inv, of io_fine io_fine io_fine io_fine 9]
  by (auto simp: relay0_def app0_def)


section \<open>Delivery\<close>

text \<open>A send that is answered with \<open>queued\<close> was admitted and written.\<close>

lemma send_queued:
  assumes "handle_send W i cref to tok ety ctext c s = (s', out)" "(ch, SendOk u True r) \<in> set out"
  shows "u = i_uuid i \<and> send_admitted W i to tok ety ctext s
    \<and> (\<exists>q' n. enqueue (a_queue (w_app W)) (i_qio i) (i_clock i 3) to
         \<lparr>env_id = i_uuid i, env_to = to, envelope_type = ety, ciphertext = ctext\<rparr> (queues s) = (q', Some n))"
proof (cases "dm_get (auths s) to")
  case None
  with assms show ?thesis by (auto simp: handle_send_def send_err_def split: if_splits)
next
  case (Some a)
  define env where "env = \<lparr>env_id = i_uuid i, env_to = to, envelope_type = ety, ciphertext = ctext\<rparr>"
  define s1 where "s1 = s\<lparr>auths := dm_insert to (a\<lparr>last_active_ms := now_activity_ms (i_clock i 1)\<rparr>) (auths s)\<rparr>"
  obtain e b where rt: "rate_step (i_clock i 2) (dm_get (send_rate s) to) = (e, b)"
    by (cases "rate_step (i_clock i 2) (dm_get (send_rate s) to)") simp
  obtain s2 allowed where r: "allow_dest_send (i_clock i 2) to s1 = (s2, allowed)" by force
  obtain s3 live lo where d: "deliver_live i to env s2 = (s3, live, lo)" using prod_cases3 by blast
  have s2: "queues s2 = queues s" "allowed = b" using r rt by (auto simp: allow_dest_send_def s1_def)
  have s3: "queues s3 = queues s" "(ch, SendOk u True r) \<notin> set lo"
    using d s2 by (auto simp: deliver_live_def split: option.splits if_splits)
  show ?thesis
    using assms Some r [unfolded s1_def] d s2 s3 rt
    unfolding handle_send_def env_def [symmetric] Let_def
    by (auto simp: send_admitted_def send_err_def env_def split: if_splits bool.splits prod.splits)
qed

text \<open>What a \<open>Hello\<close> that is accepted sends: the whole backlog of the mailbox.\<close>

lemma hello_backlog:
  assumes "handle_hello W i rid at dt pmin pmax pver pow False c s = (c', s', out)"
    "(ch, HelloOk v1 v2 v3 v4 v5 v6) \<in> set out"
    "flush (a_queue (w_app W)) (i_qio i) rid (queues s) = Some msgs" "length msgs \<le> i_alive i"
  shows "\<forall>m \<in> set msgs. (tx c, Envelope m) \<in> set out"
proof -
  obtain s1 r where e: "hello_entry W i rid (token_hash (w_hash W) at) (token_hash (w_hash W) dt) pow s = (s1, r)"
    by force
  then have q: "queues s1 = queues s" and r: "r = None \<or> (\<exists>a b. r = Some (Error a b))"
    by (auto simp: hello_entry_def reserve_mailbox_slot_def err_def Let_def
        split: option.splits if_splits prod.splits)
  from r show ?thesis
  proof
    assume "r = None"
    with assms e q show ?thesis
      by (auto simp: handle_hello_def hello_flush_def mark_auth_dirty_def Let_def err_def split: if_splits)
  next
    assume "\<exists>a b. r = Some (Error a b)"
    with assms(1,2) e show ?thesis by (auto simp: handle_hello_def err_def Let_def split: if_splits)
  qed
qed


lemma text_stepE:
  assumes "relay_step W R (Text ch i msg) out R'" "dm_get (conns R) ch = Some c"
    "frame_of W i msg c = Some f"
  obtains c1 c' s stop where "handle_frame W i f c1 (app R) = (c', s, out, stop)"
    "recipient c1 = recipient c" "tx c1 = tx c" "input_ok W i (app R)"
    "queues (app R') = queues s" "files (app R') = files s" "auths (app R') = auths s"
    "bundles (app R') = bundles s"
    "conns R' = (if stop then dm_remove ch (conns R) else dm_insert ch c' (conns R))"
  using assms(1)
proof (cases rule: relay_step.cases)
  case (frame c0 c' s)
  with assms show ?thesis
    by (intro that [of "count_frame (i_clock i 0) c" c' s False]) (auto simp: handle_text_frame)
next
  case (retire c0 c' s)
  with assms show ?thesis
    by (intro that [of "count_frame (i_clock i 0) c" c' s True]) (auto simp: handle_text_frame)
qed

text \<open>
  C1: end-to-end delivery. A message whose sender was told that it is queued is sent, as exactly
  that envelope, by every later \<open>Hello\<close> for the mailbox that is accepted, does not ask for a
  certificate only, can read the queue store, and whose socket takes up to 500 messages while it
  is served. This holds on any socket and after any events in between (other traffic, failed
  storage calls, flushes, collections, sweeps, restarts; if there is a restart, the metadata
  flushes of the run commit), provided nothing in between acknowledged the message, purged its
  mailbox or swept it by age, and the traffic to the mailbox in between left room for it: fewer
  than 500 messages, and no more than 8 MiB together with it.
\<close>

theorem sent_is_received:
  assumes "relay_backend W" "relay_inv W sy R"
    "relay_step W R (Text ch i msg) out R1" "dm_get (conns R) ch = Some c"
    "frame_of W i msg c = Some (SendEnvelope cref to tok ety ctext)" "(ch', SendOk u True r) \<in> set out"
    "run_ops W R1 es qs fs R2" "list_all (event_fine sy) es"
    "\<And>op. op \<in> set qs \<Longrightarrow> spares to (u, \<lparr>sv_t = ety, sv_c = ctext, sv_q = i_clock i 3,
       sv_s = next_seq (queues (app R))\<rparr>) op"
    "length (traffic to qs) < MAX_QUEUE_PER_RECIPIENT"
    "length ctext + sum_list (map (length \<circ> ciphertext) (traffic to qs)) \<le> PER_MAILBOX_QUEUE_BYTES"
    "relay_step W R2 (Text ch2 j msg2) out2 R3" "dm_get (conns R2) ch2 = Some c2"
    "frame_of W j msg2 c2 = Some (Hello to at dt pmin pmax pver pow False)"
    "(ch3, HelloOk v1 v2 v3 v4 v5 v6) \<in> set out2" "read_ok (i_qio j)" "MAX_QUEUE_PER_RECIPIENT \<le> i_alive j"
  shows "(tx c2, Envelope \<lparr>env_id = u, env_to = to, envelope_type = ety, ciphertext = ctext\<rparr>) \<in> set out2"
proof -
  let ?Q = "a_queue (w_app W)"
  define env where "env = \<lparr>env_id = u, env_to = to, envelope_type = ety, ciphertext = ctext\<rparr>"
  obtain c1 c1' s stop where "handle_frame W i (SendEnvelope cref to tok ety ctext) c1 (app R) = (c1', s, out, stop)"
    and i: "input_ok W i (app R)" and q1: "queues (app R1) = queues s"
    by (rule text_stepE [OF assms(3-5)])
  then have send: "handle_send W i cref to tok ety ctext c1 (app R) = (s, out)" by (auto split: prod.splits)
  from send_queued [OF send assms(6)] obtain q' n where u: "u = i_uuid i"
    and adm: "send_admitted W i to tok ety ctext (app R)"
    and enq: "enqueue ?Q (i_qio i) (i_clock i 3) to env (queues (app R)) = (q', Some n)"
    unfolding env_def by blast
  have q': "queues (app R1) = q'"
    using send_stores(1) [OF send] adm enq u by (simp add: q1 env_def)
  note I = relay_invD [OF assms(2)]
  have Q: "queue_backend ?Q"
    using assms(1) by (simp add: relay_backend_def app_backend_def)
  have pre: "enqueue_pre ?Q to env (queues (app R))"
    using adm i assms(11) valid_ids_no_colon(1)
    by (auto simp: enqueue_pre_def env_def u send_admitted_def input_ok_def)
  have inv1: "relay_inv W sy R1" by (rule relay_backend.step_inv(1) [OF assms(1-3)]) simp
  note ref = relay_backend.run_refines [OF assms(1,7) inv1 assms(8)]
  have val: "(env_id env, queued_value (i_clock i 3) env (queues (app R))) = (u, \<lparr>sv_t = ety, sv_c = ctext,
      sv_q = i_clock i 3, sv_s = next_seq (queues (app R))\<rparr>)" (is "_ = ?e")
    by (simp add: queued_value_def env_def)
  have "?e \<in> set (mail ?Q (queues (app R2)) to)"
    using enqueued_survives [OF Q state_okD(5) [OF I(1)] pre enq, of qs, unfolded val] ref assms(9-11)
    by (simp add: q' env_def)
  then have "env \<in> set (delivered to (mail ?Q (queues (app R2)) to))"
    by (force simp: delivered_def env_def)
  moreover have "length (mail ?Q (queues (app R2)) to) \<le> MAX_QUEUE_PER_RECIPIENT"
    using ref qf.run_inv [of ?Q "queues (app R1)" qs] Q inv1 state_okD(5) [OF relay_invD(1) [OF inv1]]
      adm valid_ids_no_colon(1) [of to]
    by (simp add: queue_inv_def send_admitted_def)
  moreover obtain c3 c3' s3 stop' where
    "handle_frame W j (Hello to at dt pmin pmax pver pow False) c3 (app R2) = (c3', s3, out2, stop')"
    and c3: "tx c3 = tx c2"
    by (rule text_stepE [OF assms(12-14)])
  then have "handle_hello W j to at dt pmin pmax pver pow False c3 (app R2) = (c3', s3, out2)"
    by (auto split: prod.splits)
  from hello_backlog [OF this assms(15) flush_delivered [OF assms(16)]] assms(17) calculation
  show ?thesis by (auto simp: c3 env_def delivered_def)
qed


lemma relay2_inv: "relay_inv ref_ws sy relay2"
  using ref_relay.run_inv [OF sample_run2 relay0_inv, of sy] by (simp add: sample_run2_def)

lemma relay3_inv: "relay_inv ref_ws sy relay3"
  by (rule ref_relay.step_inv(1) [OF relay2_inv sample_send]) simp

definition in3 :: frame_in where "in3 = in1\<lparr>i_uuid := 8\<rparr>"

lemma in3_simps [simp]:
  "i_clock in3 n = 86400000" "i_uuid in3 = 8" "i_qio in3 = io_fine" "i_alive in3 = 500"
  by (simp_all add: in3_def)

lemma queue3_fresh: "input_ok ref_ws in3 (app relay3)"
proof -
  have "envelopes queue3 = [(key_for (a_queue ref_app) alice 7,
      RQueue \<lparr>sv_t = ''chat'', sv_c = ''hi'', sv_q = 86400000, sv_s = 1\<rparr>)]" "next_seq queue3 = 2"
    by (simp_all add: queue3_def enqueue_def Let_def eval_defs index_of_def ref_queue_codec_def t_remove_all_def)
  moreover have "key_for (a_queue ref_app) m 8 \<noteq> key_for (a_queue ref_app) alice 7" for m
  proof
    assume "key_for (a_queue ref_app) m 8 = key_for (a_queue ref_app) alice 7"
    then have "last (key_for (a_queue ref_app) m 8) = last (key_for (a_queue ref_app) alice 7)" by simp
    then show False by (simp add: key_for_def ref_uuid_def show_dec.simps digit_char_def)
  qed
  ultimately show ?thesis by (simp add: input_ok_def relay3_def app3_def)
qed

lemma sample_collect:
  obtains out R where "relay_step ref_ws relay3 (Text 1 in3 ''hello'') out R"
    "(1, HelloOk 7 4 7 86400000 ''root'' 100) \<in> set out"
proof -
  obtain c s out stop where h: "handle_text ref_ws in3 ''hello'' conn3 app3 = (c, s, out, stop)"
    using prod_cases4 by blast
  have "auths app3 = [(alice, auth1)]" "limits app3 = small_config" "trust_root_public_b64 app3 = ''root''"
    by (simp_all add: app3_def app2_def app1_def app0_def)
  moreover have "ensure_delivery_hash send_a auth1 = (auth1, False)" "receive_auth_hash auth1 = auth_a"
    by (simp_all add: ensure_delivery_hash_def auth1_def send_a_def)
  ultimately have o: "\<not> stop" "(1, HelloOk 7 4 7 86400000 ''root'' 100) \<in> set out"
    using h by (auto simp: handle_text_def count_frame_def conn3_def ref_json_def handle_hello_def
        hello_entry_def mark_auth_dirty_def Let_def config_defs small_config_def sat_add_def sat_sub_def)
  then have "relay_step ref_ws relay3 (Text 1 in3 ''hello'') out \<lparr>app = s, conns = dm_insert 1 c (conns relay3)\<rparr>"
    using h queue3_fresh by (intro relay_step.frame [where c = conn3]) (simp_all add: relay3_def)
  with o show ?thesis by (rule_tac that)
qed

theorem sent_is_received_witness:
  "\<exists>out R. relay_step ref_ws relay3 (Text 1 in3 ''hello'') out R
     \<and> (1, Envelope \<lparr>env_id = 7, env_to = alice, envelope_type = ''chat'', ciphertext = ''hi''\<rparr>) \<in> set out"
proof -
  obtain out R where step: "relay_step ref_ws relay3 (Text 1 in3 ''hello'') out R"
    and ok: "(1, HelloOk 7 4 7 86400000 ''root'' 100) \<in> set out" by (rule sample_collect)
  have f2: "frame_of ref_ws in2 ''send'' conn2 = Some (SendEnvelope None alice send_a ''chat'' ''hi'')"
    and f3: "frame_of ref_ws in3 ''hello'' conn3
      = Some (Hello alice auth_a send_a None None (Some 7) (Some ''0:x'') False)"
    by (simp_all add: frame_of_def count_frame_def conn2_def conn3_def ref_json_def config_defs sat_add_def
        sat_sub_def Let_def)
  have "(tx conn3, Envelope \<lparr>env_id = 7, env_to = alice, envelope_type = ''chat'', ciphertext = ''hi''\<rparr>) \<in> set out"
    by (rule sent_is_received [OF ref_relay_backend relay2_inv [of True] sample_send _ f2 _
          run_ops.none _ _ _ _ step _ f3 ok])
      (simp_all add: relay2_def relay3_def config_defs)
  then show ?thesis using step by (auto simp: conn3_def)
qed

end
