(* ===== verification/RelaySafety.thy ===== *)
theory RelaySafety
  imports RelayTheorems
begin

text \<open>
  Who can do what: the changes of a mailbox and of its record, the collection of idle mailboxes
  and the creation of file transfers.
\<close>


section \<open>Operations that touch a mailbox\<close>

fun touches :: "string \<Rightarrow> queue_op \<Rightarrow> bool" where
  "touches m (QEnqueue io now m' env) \<longleftrightarrow> m' = m"
| "touches m (QAck io m' ids) \<longleftrightarrow> m' = m"
| "touches m (QPurge io m') \<longleftrightarrow> m' = m"
| "touches m (QSweep io now) \<longleftrightarrow> True"
| "touches m (QReopen io) \<longleftrightarrow> False"

lemma untouched_step: "box_step m op es es' \<Longrightarrow> \<not> touches m op \<Longrightarrow> es' = es"
proof (induction rule: box_step.induct)
  case (remove es op P)
  have "spares m e op" for e using remove.prems by (cases op) auto
  with remove.hyps show ?case by (simp add: filter_id_conv)
qed auto

lemma empty_step: "box_step m op [] es' \<Longrightarrow> (\<And>io now env. op \<noteq> QEnqueue io now m env) \<Longrightarrow> es' = []"
  by (erule box_stepE) auto

lemma untouched_run:
  assumes "queue_backend Q" "queue_inv Q q" "run_ok (op_ok Q) (apply_op Q) ops q" "CHR '':'' \<notin> set m"
    "\<And>op. op \<in> set ops \<Longrightarrow> \<not> touches m op \<or> mail Q q m = [] \<and> (\<forall>io now env. op \<noteq> QEnqueue io now m env)"
  shows "mail Q (run (apply_op Q) ops q) m = mail Q q m"
  using assms(2,3,5)
proof (induction ops arbitrary: q)
  case (Cons op ops)
  let ?q = "apply_op Q op q"
  have step: "box_step m op (mail Q q m) (mail Q ?q m)"
    using qf.step_box [of Q q op m] assms(1,4) Cons.prems(1,2) by simp
  then have same: "mail Q ?q m = mail Q q m"
    using Cons.prems(3) [of op] untouched_step empty_step by (metis list.set_intros(1))
  have "queue_inv Q ?q" using qf.step_inv [of Q q op] assms(1) Cons.prems(1,2) by simp
  then have "mail Q (run (apply_op Q) ops ?q) m = mail Q ?q m"
    by (rule Cons.IH) (use Cons.prems same in auto)
  with same show ?case by simp
qed simp

lemma who_changes:
  assumes "relay_backend W" "relay_inv W sy R" "event_fine sy e" "relay_step W R e out R'"
    "CHR '':'' \<notin> set m"
    "mail (a_queue (w_app W)) (queues (app R')) m \<noteq> mail (a_queue (w_app W)) (queues (app R)) m"
  shows "(\<exists>ch i msg c f. e = Text ch i msg \<and> dm_get (conns R) ch = Some c \<and> frame_of W i msg c = Some f \<and>
      ((\<exists>cref tok ety ctext a. f = SendEnvelope cref m tok ety ctext \<and> dm_get (auths (app R)) m = Some a
          \<and> accepts_delivery_hash a (token_hash (w_hash W) tok))
       \<or> recipient c = Some m \<and> (f = RetireMailbox \<or> (\<exists>ids. f = Ack ids))))
    \<or> (\<exists>io now. e = QueueSweep io now)
    \<or> (\<exists>gio now a. e = MailboxGc gio now \<and> \<not> read_ok (gio m) \<and> dm_get (auths (app R)) m = Some a
        \<and> idle now a \<and> dm_get (online (app R)) m = None)"
proof -
  let ?Q = "a_queue (w_app W)"
  note I = relay_invD [OF assms(2)]
  have Q: "queue_backend ?Q" using assms(1) by (simp add: relay_backend_def app_backend_def)
  note ops = relay_backend.event_ops_ok(1) [OF assms(1,2,4)]
    and st = step_stores [OF assms(4) state_okD(3,4) [OF I(1)] I(6)]
  obtain op where op: "op \<in> set (event_queue_ops W e R)" "touches m op"
    "mail ?Q (queues (app R)) m \<noteq> [] \<or> (\<exists>io now env. op = QEnqueue io now m env)"
    using untouched_run [OF Q state_okD(5) [OF I(1)] ops assms(5)] st assms(6) by auto
  show ?thesis
  proof (cases e)
    case (Text ch i msg)
    with op(1) obtain c f where c: "dm_get (conns R) ch = Some c" "frame_of W i msg c = Some f"
      and o: "op \<in> set (frame_queue_ops W i f c (app R))"
      by (cases "dm_get (conns R) ch"; cases "frame_of W i msg (the (dm_get (conns R) ch))") auto
    have "(\<exists>cref tok ety ctext a. f = SendEnvelope cref m tok ety ctext \<and> dm_get (auths (app R)) m = Some a
          \<and> accepts_delivery_hash a (token_hash (w_hash W) tok))
       \<or> recipient c = Some m \<and> (f = RetireMailbox \<or> (\<exists>ids. f = Ack ids))"
      using o op(2) by (cases f) (auto simp: send_admitted_def split: if_splits option.splits)
    with Text c show ?thesis by blast
  next
    case (MailboxGc gio now)
    with op have m: "m \<in> set (collected (w_app W) gio now (app R))"
      and ne: "mail ?Q (queues (app R)) m \<noteq> []" by auto
    then obtain a where a: "dm_get (auths (app R)) m = Some a" "idle now a" "\<not> dm_contains (online (app R)) m"
      "case is_empty ?Q (gio m) m (queues (app R)) of Some b \<Rightarrow> b | None \<Rightarrow> True"
      using dm_get_set state_okD(3) [OF I(1)] by (force simp: collected_def auths_ok_def)
    have "\<not> read_ok (gio m)"
      using queue_backend.is_empty_iff [OF Q state_okD(5) [OF I(1)] assms(5), of "gio m"] a(4) ne by auto
    with MailboxGc a show ?thesis by (auto simp: dm_contains_def)
  qed (use op in auto)
qed

text \<open>
  C5: who can change a mailbox's messages. In any step of the relay the stored messages of a
  mailbox change only by a send that carries a delivery token the mailbox accepts, by an
  acknowledgement or a retirement on a socket that authenticated as this mailbox, by the sweep
  of old messages, or by the collection of an idle, offline mailbox whose queue could not be
  read.
\<close>

theorem who_changes_a_mailbox:
  assumes "relay_backend W" "relay_inv W sy R" "event_fine sy e" "relay_step W R e out R'"
    "CHR '':'' \<notin> set m"
    "mail (a_queue (w_app W)) (queues (app R')) m \<noteq> mail (a_queue (w_app W)) (queues (app R)) m"
  shows "(\<exists>ch i msg c f. e = Text ch i msg \<and> dm_get (conns R) ch = Some c \<and> frame_of W i msg c = Some f \<and>
      ((\<exists>cref tok ety ctext a. f = SendEnvelope cref m tok ety ctext \<and> dm_get (auths (app R)) m = Some a
          \<and> accepts_delivery_hash a (token_hash (w_hash W) tok))
       \<or> recipient c = Some m \<and> (f = RetireMailbox \<or> (\<exists>ids. f = Ack ids))))
    \<or> (\<exists>io now. e = QueueSweep io now)
    \<or> (\<exists>gio now a. e = MailboxGc gio now \<and> \<not> read_ok (gio m) \<and> dm_get (auths (app R)) m = Some a
        \<and> idle now a \<and> dm_get (online (app R)) m = None)"
  by (rule who_changes [OF assms])

lemma sample_mail:
  "mail (a_queue ref_app) (queues app2) alice = []"
  "mail (a_queue ref_app) queue3 alice = [(7, \<lparr>sv_t = ''chat'', sv_c = ''hi'', sv_q = 86400000, sv_s = 1\<rparr>)]"
proof -
  have q: "queues app2 = queues app0" by (simp add: app2_def app1_def)
  show e: "mail (a_queue ref_app) (queues app2) alice = []"
    by (simp add: q app0_def read_mailbox_def mailbox_bounds_def List.map_filter_simps)
  have inv: "queue_inv (a_queue ref_app) (queues app2)"
    using state_okD(5) [OF relay_invD(1) [OF relay2_inv [of True]]] by (simp add: relay2_def)
  have "enqueue_pre (a_queue ref_app) alice
      \<lparr>env_id = 7, env_to = alice, envelope_type = ''chat'', ciphertext = ''hi''\<rparr> (queues app2)"
    by (simp add: enqueue_pre_def q app0_def would_exceed_global_def config_defs usize_sat_add_def
        usize_max_def valid_ids_no_colon(1))
  from ref_relay.qb.enqueue_effect(3) [of "queues app2" alice _ io_fine 86400000 queue3 0] this inv sample_enqueue e
  show "mail (a_queue ref_app) queue3 alice = [(7, \<lparr>sv_t = ''chat'', sv_c = ''hi'', sv_q = 86400000, sv_s = 1\<rparr>)]"
    by (simp add: queued_value_def) (simp add: q app0_def)
qed

theorem who_changes_a_mailbox_witness:
  "\<exists>a. dm_get (auths app2) alice = Some a \<and> accepts_delivery_hash a (token_hash ref_hash send_a)"
proof -
  have f: "frame_of ref_ws in2 ''send'' conn2 = Some (SendEnvelope None alice send_a ''chat'' ''hi'')"
    by (simp add: frame_of_def count_frame_def conn2_def ref_json_def config_defs sat_add_def sat_sub_def Let_def)
  have "mail (a_queue (w_app ref_ws)) (queues (app relay3)) alice
      \<noteq> mail (a_queue (w_app ref_ws)) (queues (app relay2)) alice"
    using sample_mail by (simp add: relay2_def relay3_def app3_def)
  from who_changes_a_mailbox [OF ref_relay_backend relay2_inv [of True] _ sample_send _ this] f
  show ?thesis by (auto simp: relay2_def valid_ids_no_colon(1))
qed


section \<open>Collection of idle mailboxes\<close>

lemma idle_age:
  assumes "idle now a" "last_active_ms a = now_activity_ms t"
  shows "unat t + 29 * 24 * 60 * 60 * 1000 < unat now"
proof -
  have "unat t mod 86400000 < 86400000" by simp
  then have "unat t - unat t mod 86400000 + 86400000 > unat t" by linarith
  moreover have "unat (now_activity_ms t) + 2592000000 < unat now"
    using assms by (simp add: idle_def word_less_nat_alt unat_sat_sub config_defs)
  ultimately show ?thesis by (simp add: unat_now_activity)
qed

text \<open>
  C34: collecting idle mailboxes loses nothing. While the queues can be read, a collection
  removes exactly the mailboxes that are idle, offline and empty; the messages of every mailbox
  stay as they are, and so do bundles, files and sockets. A mailbox that was active at a time
  \<open>t\<close> is kept for 29 days after it (its lease is rounded down to the day).
\<close>

theorem gc_loses_nothing:
  assumes "relay_backend W" "relay_inv W sy R" "relay_step W R (MailboxGc gio now) out R'" "\<And>m. read_ok (gio m)"
  shows "(\<forall>m. dm_get (auths (app R')) m =
        (case dm_get (auths (app R)) m of
           None \<Rightarrow> None
         | Some a \<Rightarrow> if idle now a \<and> dm_get (online (app R)) m = None
                       \<and> mail (a_queue (w_app W)) (queues (app R)) m = [] then None else Some a))
    \<and> (\<forall>m. CHR '':'' \<notin> set m \<longrightarrow>
        mail (a_queue (w_app W)) (queues (app R')) m = mail (a_queue (w_app W)) (queues (app R)) m)
    \<and> bundles (app R') = bundles (app R) \<and> files (app R') = files (app R)
    \<and> online (app R') = online (app R) \<and> conns R' = conns R
    \<and> (\<forall>m a t. dm_get (auths (app R)) m = Some a \<and> last_active_ms a = now_activity_ms t
        \<and> unat now \<le> unat t + 29 * 24 * 60 * 60 * 1000 \<longrightarrow> dm_get (auths (app R')) m = Some a)"
proof -
  note I = relay_invD [OF assms(2)]
  have b: "app_backend (w_app W)" using assms(1) by (simp add: relay_backend_def)
  have R': "app R' = gc_idle_mailboxes (w_app W) gio now (app R)" "conns R' = conns R"
    using assms(3) by (auto elim: relay_stepE simp: mailbox_gc_tick_def)
  note G = app_backend.gc_effect [OF b state_okD(1,2) [OF I(1)] R'(1)]
  have auths: "dm_get (auths (app R')) m =
        (case dm_get (auths (app R)) m of
           None \<Rightarrow> None
         | Some a \<Rightarrow> if idle now a \<and> dm_get (online (app R)) m = None
                       \<and> mail (a_queue (w_app W)) (queues (app R)) m = [] then None else Some a)" for m
    using G(4) assms(4) by (auto simp: dm_contains_def split: option.splits)
  moreover have "mail (a_queue (w_app W)) (queues (app R')) m = mail (a_queue (w_app W)) (queues (app R)) m"
    if "CHR '':'' \<notin> set m" for m
    using who_changes [OF assms(1,2) _ assms(3) that] assms(4) by auto
  moreover have "dm_get (auths (app R')) m = Some a"
    if "dm_get (auths (app R)) m = Some a" "last_active_ms a = now_activity_ms t"
      "unat now \<le> unat t + 29 * 24 * 60 * 60 * 1000" for m a t
    using idle_age [of now a t] that auths [of m] by auto
  ultimately show ?thesis
    using G(3) R'(2) by (auto simp: app_backend.same_rest_def [OF b])
qed

theorem gc_loses_nothing_witness:
  "dm_get (auths (app (relay2\<lparr>app := mailbox_gc_tick ref_app (\<lambda>_. io_fine) 86400001 app2\<rparr>))) alice = Some auth1"
proof -
  have "relay_step ref_ws relay2 (MailboxGc (\<lambda>_. io_fine) 86400001) []
      (relay2\<lparr>app := mailbox_gc_tick ref_app (\<lambda>_. io_fine) 86400001 app2\<rparr>)"
    using relay_step.mailbox_gc [of ref_ws relay2 "\<lambda>_. io_fine" 86400001] by (simp add: relay2_def)
  from gc_loses_nothing [OF ref_relay_backend relay2_inv [of True] this] show ?thesis
    by (simp add: relay2_def idle_def auth1_def sat_sub_def config_defs)
qed


section \<open>File transfers\<close>

context file_backend
begin

text \<open>A deletion or a sweep creates no transfer, and an upload only by its first chunk.\<close>

lemma delete_none:
  assumes "file_inv E s" "CHR '':'' \<notin> set t" "meta_at E s tid = None"
  shows "meta_at E (fst (delete_transfer E io t s)) tid = None"
proof (cases "delete_transfer E io t s")
  case (Pair s' r)
  show ?thesis
  proof (cases r)
    case None
    with Pair assms(3) delete_fail show ?thesis by fastforce
  next
    case (Some b)
    with Pair delete_effect(2) [OF assms(1,2), of io s' b] assms(3) show ?thesis by simp
  qed
qed

lemma delete_all_none:
  assumes "file_inv E s" "\<And>t. t \<in> set ids \<Longrightarrow> CHR '':'' \<notin> set t" "meta_at E s tid = None"
  shows "meta_at E (fst (delete_all E io ids n s)) tid = None"
  using assms
proof (induction ids arbitrary: n s)
  case (Cons t ids)
  have t: "CHR '':'' \<notin> set t" using Cons.prems(2) by simp
  from delete_none [OF Cons.prems(1) t Cons.prems(3), of "io t"] delete_inv [OF Cons.prems(1) t, of "io t"] Cons
  show ?case by (auto split: prod.splits option.splits)
qed simp

lemma new_transfer_op:
  assumes inv: "file_inv E s" and ok: "file_op_ok op"
    and new: "meta_at E s tid = None" "meta_at E (file_step E op s) tid \<noteq> None"
  obtains io t1 t2 tc tb data where "op = FStore io t1 t2 tid 0 tc tb data"
proof (cases op)
  case (FStore io t1 t2 t ci tc tb data)
  obtain s' r where st: "store_chunk E io t1 t2 t ci tc tb data s = (s', r)" by force
  show ?thesis
  proof (cases r)
    case (Inl e)
    with store_chunk_reject [OF inv st [unfolded Inl]] st FStore new show ?thesis by simp
  next
    case (Inr x)
    have "t = tid"
      by (rule store_effect [OF inv _ _ st [unfolded Inr]])
        (use ok new st FStore in \<open>auto split: if_splits\<close>)
    moreover have "dm_get (meta_cache s) tid = None"
      using file_invD(4) [OF inv, of tid] new(1) by simp
    ultimately have "ci = 0"
      using st Inr by (auto simp: store_chunk_def Let_def split: if_splits)
    with FStore \<open>t = tid\<close> show ?thesis using that by blast
  qed
next
  case (FDelete io t)
  with delete_none [OF inv _ new(1)] ok new(2) show ?thesis by simp
next
  case (FSweep io now)
  have "CHR '':'' \<notin> set t" if "t \<in> set (map fst (filter (\<lambda>(k, m). transfer_expired (config s) now m) (meta_cache s)))" for t
    using that cached_id_ok [OF inv] dm_get_set [OF file_invD(3) [OF inv]] by force
  then have "meta_at E (file_step E op s) tid = None"
    unfolding FSweep file_step.simps sweep_expired_files_def by (rule delete_all_none [OF inv _ new(1)])
  with new(2) show ?thesis by simp
next
  case (FReopen io)
  with new file_reopen_effect(2) [OF inv file_invD(1) [OF inv], of io] show ?thesis
    by (auto split: option.splits)
qed

end

text \<open>
  C35: a new file transfer costs a proof of work. In any step of the relay a transfer appears
  in the file store only by the upload of its first chunk in a frame that carries a valid proof
  of work for this very transfer id.
\<close>

theorem new_transfer_needs_pow:
  assumes "relay_backend W" "relay_inv W sy R" "relay_step W R e out R'"
    "meta_at (a_files (w_app W)) (files (app R)) tid = None"
    "meta_at (a_files (w_app W)) (files (app R')) tid \<noteq> None"
  shows "\<exists>ch i msg c rq tc tb ctext pow. e = Text ch i msg \<and> dm_get (conns R) ch = Some c
    \<and> frame_of W i msg c = Some (UploadFileChunk rq tid 0 tc tb ctext pow) \<and> pow_valid W i tid pow"
proof -
  let ?F = "a_files (w_app W)"
  note I = relay_invD [OF assms(2)]
  note st = step_stores [OF assms(3) state_okD(3,4) [OF I(1)] I(6)]
    and ok = relay_backend.event_ops_ok(2) [OF assms(1-3)]
  have F: "file_backend ?F" using assms(1) by (simp add: relay_backend_def app_backend_def)
  have "length (event_file_ops W e R) \<le> 1"
  proof (cases e)
    case (Text ch i msg)
    have "length (frame_file_ops W i f) \<le> 1" for f by (cases f) (simp_all split: option.splits)
    then show ?thesis using Text by (simp split: option.splits)
  qed simp_all
  then obtain op where op: "event_file_ops W e R = [op]"
    using st assms(4,5) by (cases "event_file_ops W e R") auto
  have new: "file_op_ok op" "meta_at ?F (file_step ?F op (files (app R))) tid \<noteq> None"
    using op ok st assms(5) by auto
  obtain io t1 t2 tc tb data where st0: "op = FStore io t1 t2 tid 0 tc tb data"
    by (rule file_backend.new_transfer_op [OF F state_okD(6) [OF I(1)] new(1) assms(4) new(2)])
  show ?thesis
  proof (cases e)
    case (Text ch i msg)
    with op obtain c f where c: "dm_get (conns R) ch = Some c" "frame_of W i msg c = Some f"
      "frame_file_ops W i f = [op]"
      by (cases "dm_get (conns R) ch"; cases "frame_of W i msg (the (dm_get (conns R) ch))") auto
    with st0 Text show ?thesis by (cases f) (auto split: option.splits if_splits)
  qed (use op st0 in auto)
qed

text \<open>A first chunk on the reference relay.\<close>

lemma sample_chunk:
  obtains out R where "relay_step ref_ws relay2 (Text 1 in1 ''chunk'') out R"
    "meta_at (a_files ref_app) (files (app R)) bundle1 \<noteq> None"
proof -
  define fs where "fs = fst (store_chunk (a_files ref_app) all_ok 86400000 86400000 bundle1 0 1 2 [97, 98] (files app2))"
  have st: "store_chunk (a_files ref_app) all_ok 86400000 86400000 bundle1 0 1 2 [97, 98] (files app2)
      = (fs, Inr \<lparr>sc_received_chunks = 1, sc_total_chunks = 1\<rparr>)"
    by (simp add: fs_def store_chunk_def app2_def app1_def app0_def small_config_def Let_def reserve_slot_def
        write_chunk_def write_txn_def all_ok_def try_reserve_bytes_def sat_add_def)
  have m: "meta_at (a_files ref_app) fs bundle1 \<noteq> None"
    by (simp add: fs_def store_chunk_def app2_def app1_def app0_def small_config_def Let_def reserve_slot_def
        write_chunk_def write_txn_def all_ok_def try_reserve_bytes_def sat_add_def usize_add_def
        usize_modulus_def meta_at_def ref_file_codec_def)
  have conn: "count_frame 86400000 conn2 = conn3"
    by (simp add: count_frame_def conn2_def conn3_def sat_add_def sat_sub_def Let_def config_defs)
  have raw: "as_bytes ''ab'' = [97, 98]" by (simp add: as_bytes_def)
  have "handle_text ref_ws in1 ''chunk'' conn2 app2 = (conn3, app2\<lparr>files := fs\<rparr>,
      [(1, FileChunkStored ''r'' bundle1 0 1 1)], False)"
    using st by (simp add: handle_text_def conn ref_json_def handle_upload_chunk_def raw Let_def)
      (simp add: conn3_def config_defs)
  moreover have "input_ok ref_ws in1 (app relay2)"
    by (simp add: input_ok_def relay2_def app2_def app1_def app0_def)
  ultimately have "relay_step ref_ws relay2 (Text 1 in1 ''chunk'') [(1, FileChunkStored ''r'' bundle1 0 1 1)]
      \<lparr>app = app2\<lparr>files := fs\<rparr>, conns = dm_insert 1 conn3 (conns relay2)\<rparr>"
    by (intro relay_step.frame [where c = conn2]) (simp_all add: relay2_def)
  from that [OF this] m show ?thesis by simp
qed

theorem new_transfer_needs_pow_witness:
  "\<exists>tc tb ctext pow. frame_of ref_ws in1 ''chunk'' conn2 = Some (UploadFileChunk ''r'' bundle1 0 tc tb ctext pow)
     \<and> pow_valid ref_ws in1 bundle1 pow"
proof -
  obtain out R where step: "relay_step ref_ws relay2 (Text 1 in1 ''chunk'') out R"
    and new: "meta_at (a_files ref_app) (files (app R)) bundle1 \<noteq> None" by (rule sample_chunk)
  have none: "meta_at (a_files (w_app ref_ws)) (files (app relay2)) bundle1 = None"
    by (simp add: relay2_def app2_def app1_def app0_def meta_at_def)
  from new_transfer_needs_pow [OF ref_relay_backend relay2_inv [of True] step none] new show ?thesis
    by (auto simp: relay2_def frame_of_def ref_json_def split: if_splits)
qed


text \<open>
  A flush that fails has taken the dirty marks already: the changed records are in no later flush
  until something else touches them.
\<close>

theorem failed_flush_forgets:
  assumes "dirty_auth s \<noteq> []" "\<not> write_ok io_auth"
  shows "flush_dirty_meta E io_auth io_bundles s = (s\<lparr>dirty_auth := []\<rparr>, None)"
  using assms by (simp add: flush_dirty_meta_def flush_items_def fold_remove_all Let_def)

text \<open>The mailbox records a start builds are those of its table, whatever the caches held before.\<close>

context app_backend
begin

lemma build_reads_table:
  assumes "build E ioa iob now at bt q f cfg tr = Some s"
  shows "dm_get (auths s) m
    = map_option (fresh_lease (now_activity_ms now)) (stored_at (a_auth E) (a_auth_codec E) at m)"
proof -
  obtain as where as: "load_all (a_auth E) (a_auth_codec E) ioa at = Some as"
    "auths s = build_auths (now_activity_ms now) as"
    using assms by (auto simp: build_def Let_def split: option.splits prod.splits)
  note load = aw.load_all_map [OF as(1)]
  show ?thesis
    using fold_insert_get(1) [OF load(2), of "fresh_lease (now_activity_ms now)" "[]" m] load(1) [of m]
    by (simp add: as(2) build_auths_fold split: option.splits)
qed

end

text \<open>
  So a record that was removed since the last flush, a retired mailbox with its tokens, is back
  after a flush that fails and a restart, beside all that was registered in its place: this is why
  the caps are claimed over restarts only when the flushes commit.
\<close>

theorem removed_record_returns:
  assumes "app_backend E" "dirty_auth s \<noteq> []" "\<not> write_ok io_auth"
    "stored_at (a_auth E) (a_auth_codec E) (auth_table s) m = Some a"
    "flush_dirty_meta E io_auth io_bundles s = (s1, r)"
    "build E ioa iob now (auth_table s1) (bundle_table s1) q f cfg tr = Some s2"
  shows "\<exists>a'. dm_get (auths s2) m = Some a' \<and> same_auth a a'"
proof -
  have "auth_table s1 = auth_table s" using assms(5) by (auto simp: failed_flush_forgets [OF assms(2,3)])
  with app_backend.build_reads_table [OF assms(1,6), of m] assms(4) show ?thesis by (simp add: same_auth_fresh)
qed

end
