(* ===== verification/Sessions.thy ===== *)
theory Sessions
  imports RelayTheorems
begin

text \<open>
  Sessions and authorization at the level of the handlers: who is accepted by a \<open>Hello\<close>, what a
  prober learns from a rejection, which tokens open a mailbox, and whom a certificate is issued for.
\<close>


section \<open>Hello\<close>

text \<open>The protocol version a \<open>Hello\<close> selects, and whether both sides support it.\<close>

definition hello_version :: "u16 option \<Rightarrow> u16 option \<Rightarrow> u16 option \<Rightarrow> u16 option" where
  "hello_version pmin pmax pver =
     (let dflt = (case pver of Some v \<Rightarrow> v | None \<Rightarrow> PROTOCOL_VERSION);
          selected = min PROTOCOL_VERSION (case pmax of Some v \<Rightarrow> v | None \<Rightarrow> dflt)
      in if selected < PROTOCOL_MIN_SUPPORTED \<or> selected < (case pmin of Some v \<Rightarrow> v | None \<Rightarrow> dflt)
         then None else Some selected)"

text \<open>What lets a \<open>Hello\<close> in: the mailbox's token, or a proof of work and a free slot.\<close>

definition hello_admits ::
    "('t, 'b, 'c) ws_env \<Rightarrow> frame_in \<Rightarrow> string \<Rightarrow> string \<Rightarrow> string option \<Rightarrow> ('t, 'c) app_state \<Rightarrow> bool" where
  "hello_admits W i rid auth_token pow s \<longleftrightarrow>
     (case dm_get (auths s) rid of
        Some a \<Rightarrow> receive_auth_hash a = token_hash (w_hash W) auth_token
      | None \<Rightarrow> pow_valid W i rid pow \<and> mailbox_count s < MAX_MAILBOXES)"

lemma hello_entry_cases:
  assumes "hello_entry W i rid (token_hash (w_hash W) at) dh pow s = (s1, r)"
  shows "r = None \<longleftrightarrow> hello_admits W i rid at pow s" "r \<noteq> None \<Longrightarrow> s1 = s \<and> (\<exists>a b. r = Some (Error a b))"
    "r = None \<Longrightarrow> \<exists>a. dm_get (auths s1) rid = Some a \<and> receive_auth_hash a = token_hash (w_hash W) at"
    "m \<noteq> rid \<Longrightarrow> dm_get (auths s1) m = dm_get (auths s) m"
    "bundles s1 = bundles s" "online s1 = online s" "trust_root_public_b64 s1 = trust_root_public_b64 s"
    "limits s1 = limits s"
  using assms
  by (auto simp: hello_entry_def hello_admits_def reserve_mailbox_slot_def err_def Let_def
      mailbox_auth_new_def ensure_delivery_hash_def split: option.splits if_splits prod.splits)

text \<open>
  C31: exactly when a \<open>Hello\<close> is accepted. The versions overlap, the identifiers are well formed,
  and the socket proves the mailbox's receive token, or, for an unregistered mailbox, a proof of
  work while slots are free. Then, and only then, the socket becomes a session of that mailbox
  and the mailbox is registered under that token; otherwise connection and state are unchanged
  and the reply is an error.
\<close>

theorem hello_accepts_exactly:
  assumes "handle_hello W i rid at dt pmin pmax pver pow co c s = (c', s', out)"
  shows "(if hello_version pmin pmax pver \<noteq> None \<and> valid_recipient_id rid \<and> valid_token at \<and> valid_token dt
            \<and> hello_admits W i rid at pow s
          then c' = c\<lparr>recipient := Some rid\<rparr>
            \<and> (tx c, HelloOk (the (hello_version pmin pmax pver)) PROTOCOL_MIN_SUPPORTED PROTOCOL_VERSION
                  (i_clock i 2) (trust_root_public_b64 s) (max_file_bytes (limits s))) \<in> set out
            \<and> (\<exists>a. dm_get (auths s') rid = Some a \<and> receive_auth_hash a = token_hash (w_hash W) at)
            \<and> (\<forall>m. m \<noteq> rid \<longrightarrow> dm_get (auths s') m = dm_get (auths s) m)
            \<and> dm_get (online s') rid = (if co then dm_get (online s) rid else Some (tx c))
          else c' = c \<and> s' = s \<and> (\<exists>code text. out = [(tx c, Error code text)]))"
proof -
  obtain s1 r where e: "hello_entry W i rid (token_hash (w_hash W) at) (token_hash (w_hash W) dt) pow s = (s1, r)"
    by force
  note H = hello_entry_cases [OF e]
  define v where "v = hello_version pmin pmax pver"
  show ?thesis
  proof (cases "v \<noteq> None \<and> valid_recipient_id rid \<and> valid_token at \<and> valid_token dt")
    case False
    with assms show ?thesis
      by (auto simp: v_def handle_hello_def hello_version_def err_def Let_def split: if_splits option.splits)
  next
    case True
    then obtain sel where sel: "v = Some sel" by blast
    have "handle_hello W i rid at dt pmin pmax pver pow co c s =
        (case r of Some rejection \<Rightarrow> (c, s1, [(tx c, rejection)])
         | None \<Rightarrow>
           (let s2 = mark_auth_dirty rid s1; c2 = c\<lparr>recipient := Some rid\<rparr>;
                ok = (tx c, HelloOk sel PROTOCOL_MIN_SUPPORTED PROTOCOL_VERSION
                       (i_clock i 2) (trust_root_public_b64 s2) (max_file_bytes (limits s2)))
            in if co then (c2, s2, [ok])
               else (let s3 = s2\<lparr>online := dm_insert rid (tx c) (online s2)\<rparr>
                     in (c2, s3, ok # hello_flush W i (tx c) rid sel s3))))"
      using True sel e
      by (auto simp: v_def handle_hello_def hello_version_def Let_def split: if_splits option.splits)
    with assms True sel H show ?thesis
      by (cases r) (auto simp: v_def [symmetric] Let_def mark_auth_dirty_def split: if_splits)
  qed
qed

lemma hello_call:
  "handle_hello ref_ws in1 alice auth_a send_a None None (Some 7) (Some ''0:x'') False
     (conn0\<lparr>frame_count := 1\<rparr>) app1
   = (conn2, app2, [(1, HelloOk 7 4 7 86400000 ''root'' 100), (1, Synced 0)])"
  using hello_reply
  by (auto simp: handle_text_def count_frame_def conn0_def ref_json_def config_defs sat_add_def sat_sub_def Let_def
      split: prod.splits)

lemma sample_version [simp]: "hello_version None None (Some 7) = Some 7"
  by (simp add: hello_version_def config_defs)

theorem hello_accepts_exactly_witness:
  "\<exists>a. dm_get (auths app2) alice = Some a \<and> receive_auth_hash a = token_hash (w_hash ref_ws) auth_a"
  using hello_accepts_exactly [OF hello_call]
  by (simp add: hello_admits_def app1_def app0_def config_defs)

text \<open>
  C36: a rejected \<open>Hello\<close> does not tell whether a mailbox exists. A wrong receive token for a
  registered mailbox and a missing proof of work for an unregistered one get the same single
  frame, and neither changes anything.
\<close>

theorem hello_no_oracle:
  assumes "hello_version pmin pmax pver \<noteq> None" "valid_recipient_id rid" "valid_token at" "valid_token dt"
    "dm_get (auths s1) rid = Some a" "receive_auth_hash a \<noteq> token_hash (w_hash W) at"
    "dm_get (auths s2) rid = None" "\<not> pow_valid W i rid pow"
  shows "\<exists>out. handle_hello W i rid at dt pmin pmax pver pow co c s1 = (c, s1, out)
    \<and> handle_hello W i rid at dt pmin pmax pver pow co c s2 = (c, s2, out)"
  using assms
  by (auto simp: handle_hello_def hello_entry_def hello_version_def Let_def split: if_splits option.splits)

theorem hello_no_oracle_witness:
  "\<exists>out. handle_hello ref_ws in1 alice send_a send_a None None (Some 7) None False conn0 app2 = (conn0, app2, out)
     \<and> handle_hello ref_ws in1 alice send_a send_a None None (Some 7) None False conn0 app1 = (conn0, app1, out)"
  by (rule hello_no_oracle [where a = auth1])
    (simp_all add: auth1_def app1_def app0_def pow_valid_def)


section \<open>Delivery tokens\<close>

text \<open>
  C37: a send without an accepted token is refused, and the refusal is the same frame whether
  the mailbox does not exist or the token is wrong; nothing changes, not even the rate budget of
  the mailbox.
\<close>

theorem send_denied:
  assumes "valid_recipient_id to" "valid_token tok" "length ety \<le> 32"
    "case dm_get (auths s) to of None \<Rightarrow> True
       | Some a \<Rightarrow> \<not> accepts_delivery_hash a (token_hash (w_hash W) tok)"
  shows "handle_send W i cref to tok ety ctext c s
    = (s, [(tx c, SendError cref ''delivery_denied'' ''delivery token rejected'')])"
  using assms by (auto simp: handle_send_def send_err_def split: option.splits)

theorem send_denied_witness:
  "handle_send ref_ws in1 None alice auth_a ''chat'' ''hi'' conn2 app2
    = (app2, [(1, SendError None ''delivery_denied'' ''delivery token rejected'')])"
  using send_denied [where to = alice and tok = auth_a and ety = "''chat''" and s = app2 and W = ref_ws
      and i = in1 and cref = None and ctext = "''hi''" and c = conn2]
  by (simp add: conn2_def)

text \<open>
  A mailbox's allowlist is exactly what its owner last set: after \<open>SetDeliveryTokens\<close> is
  confirmed the mailbox accepts precisely the listed tokens' hashes (every other token is
  revoked, the primary one included), and no other mailbox's record changes.
\<close>

theorem set_tokens_exact:
  assumes "handle_set_delivery_tokens W rq toks c s = (s', out)" "(ch, DeliveryTokensSet rq' n) \<in> set out"
  shows "\<exists>rid a. recipient c = Some rid \<and> dm_get (auths s') rid = Some a \<and> n = length (delivery_token_hashes a)
    \<and> (\<forall>h. accepts_delivery_hash a h \<longleftrightarrow> h \<in> token_hash (w_hash W) ` set toks)
    \<and> (\<forall>m. m \<noteq> rid \<longrightarrow> dm_get (auths s') m = dm_get (auths s) m)"
  using assms replace_delivery_hashes_ok(2) [of "map (token_hash (w_hash W)) toks"]
  by (auto simp: handle_set_delivery_tokens_def err_def mark_auth_dirty_def Let_def split: if_splits option.splits)

lemma sample_set_tokens:
  "handle_set_delivery_tokens ref_ws ''r'' [auth_a] conn2 app2
   = (mark_auth_dirty alice (app2\<lparr>auths := [(alice, auth1\<lparr>delivery_token_hash := auth_a,
        delivery_token_hashes := [auth_a]\<rparr>)]\<rparr>), [(1, DeliveryTokensSet ''r'' 1)])"
  by (simp add: handle_set_delivery_tokens_def conn2_def config_defs replace_delivery_hashes_def Let_def)

theorem set_tokens_exact_witness:
  "\<exists>a. dm_get (auths (fst (handle_set_delivery_tokens ref_ws ''r'' [auth_a] conn2 app2))) alice = Some a
     \<and> \<not> accepts_delivery_hash a send_a \<and> accepts_delivery_hash a auth_a"
proof -
  have "recipient conn2 = Some alice" by (simp add: conn2_def)
  with set_tokens_exact [OF sample_set_tokens, of 1 "''r''" 1] show ?thesis
    unfolding sample_set_tokens by auto
qed


section \<open>Certificates\<close>

text \<open>
  C38: a sender certificate is issued only on a socket that authenticated as the mailbox it
  names, for a device number from 1 to 127 and the key the client sent, and it is valid for at
  most 24 hours from the clock reading.
\<close>

theorem certificate_own_mailbox:
  assumes "(ch, SenderCertificate rq' cert tr expires) \<in> set (handle_issue_certificate W i rq sender dev key c s)"
  shows "ch = tx c \<and> recipient c = Some sender \<and> 1 \<le> dev \<and> dev \<le> 127 \<and> tr = trust_root_public_b64 s
    \<and> unat expires \<le> unat (i_clock i 1) + 24 * 60 * 60 * 1000
    \<and> (\<exists>kb pk sig. b64_decode W key = Some kb \<and> parse_key W kb = Inr pk
        \<and> sign_cert W sender pk dev expires = Inr sig \<and> cert = b64_encode W sig)"
proof -
  have dev: "dev \<noteq> 0 \<Longrightarrow> 1 \<le> dev"
    by (simp add: word_le_nat_alt Suc_le_eq unat_gt_0)
  have "unat (sat_add t SENDER_CERT_TTL_MS) \<le> unat t + 24 * 60 * 60 * 1000" for t :: u64
    by (simp add: unat_sat_add SENDER_CERT_TTL_MS_def)
  with dev assms show ?thesis
    by (auto simp: handle_issue_certificate_def issue_sender_certificate_def err_def Let_def not_less
        split: if_splits option.splits sum.splits)
qed

theorem certificate_own_mailbox_witness:
  "recipient conn2 = Some alice \<and> unat (172800000 :: u64) \<le> unat (i_clock in1 1) + 24 * 60 * 60 * 1000"
proof -
  have "(1, SenderCertificate ''r'' (b64_encode ref_ws (as_bytes ''key'')) ''root'' 172800000)
      \<in> set (handle_issue_certificate ref_ws in1 ''r'' alice 1 ''key'' conn2 app2)"
    by (simp add: handle_issue_certificate_def issue_sender_certificate_def conn2_def ref_ws_def Let_def
        config_defs sat_add_def app2_def app1_def app0_def)
  from certificate_own_mailbox [OF this] show ?thesis by blast
qed

end
