(* ===== verification/SendBudget.thy ===== *)
theory SendBudget
  imports RelaySafety
begin

text \<open>
  The budget of sends to one mailbox, over whole runs of the relay: how many of them a minute can
  see accepted, whatever sockets send, register, retire, are collected or restart meanwhile. The
  proof is a potential argument: \<open>room\<close> is what the entry of the mailbox can still let through
  before the minute is over, each accepted send takes one from it, and only a step that drops the
  entry adds to it.
\<close>


section \<open>The entry of a mailbox\<close>





section \<open>What a step does to it\<close>

fun is_send_ok :: "server_frame \<Rightarrow> bool" where
  "is_send_ok (SendOk u q r) \<longleftrightarrow> True"
| "is_send_ok _ \<longleftrightarrow> False"

text \<open>A send to the mailbox that was accepted: its sender was answered \<open>SendOk\<close>.\<close>

fun sends_to :: "string \<Rightarrow> client_frame \<Rightarrow> bool" where
  "sends_to to (SendEnvelope cref dest tok ety ctext) \<longleftrightarrow> dest = to"
| "sends_to to _ \<longleftrightarrow> False"

fun accepted_send :: "('t, 'b, 'c) ws_env \<Rightarrow> string \<Rightarrow> ('t, 'c) relay \<Rightarrow> event \<Rightarrow> outputs \<Rightarrow> bool" where
  "accepted_send W to R (Text ch i msg) out \<longleftrightarrow>
     (case dm_get (conns R) ch of
        None \<Rightarrow> False
      | Some c \<Rightarrow> (case frame_of W i msg c of None \<Rightarrow> False | Some f \<Rightarrow> sends_to to f))
     \<and> list_ex (\<lambda>(_, f). is_send_ok f) out"
| "accepted_send W to R _ out \<longleftrightarrow> False"

text \<open>The steps that forget the entry: retirement or collection of the mailbox, and a restart.\<close>

fun forgets :: "('t, 'b, 'c) ws_env \<Rightarrow> string \<Rightarrow> ('t, 'c) relay \<Rightarrow> event \<Rightarrow> bool" where
  "forgets W to R (Text ch i msg) \<longleftrightarrow>
     (case dm_get (conns R) ch of
        None \<Rightarrow> False
      | Some c \<Rightarrow> frame_of W i msg c = Some RetireMailbox \<and> recipient c = Some to)"
| "forgets W to R (MailboxGc gio now) \<longleftrightarrow> to \<in> set (collected (w_app W) gio now (app R))"
| "forgets W to R (Restart ioq iof ioa iob now) \<longleftrightarrow> True"
| "forgets W to R _ \<longleftrightarrow> False"


text \<open>A run with the number of accepted sends to a mailbox and of the steps that forget its entry.\<close>

inductive budget_run ::
    "('t, 'b, 'c) ws_env \<Rightarrow> string \<Rightarrow> ('t, 'c) relay \<Rightarrow> event list \<Rightarrow> nat \<Rightarrow> nat \<Rightarrow> ('t, 'c) relay \<Rightarrow> bool"
  for W to where
  none: "budget_run W to R [] 0 0 R"
| more: "relay_step W R e out R1 \<Longrightarrow> budget_run W to R1 es n k R' \<Longrightarrow>
    budget_run W to R (e # es) ((if accepted_send W to R e out then 1 else 0) + n)
      ((if forgets W to R e then 1 else 0) + k) R'"

lemma budget_run_exists: "relay_run W R es outs R' \<Longrightarrow> \<exists>n k. budget_run W to R es n k R'"
  by (induction rule: relay_run.induct) (blast intro: budget_run.intros)+

abbreviation entry :: "string \<Rightarrow> ('t, 'c) app_state \<Rightarrow> (u64 \<times> u32) option" where
  "entry to s \<equiv> dm_get (send_rate s) to"

lemma entry_marks [simp]: "entry to (mark_auth_dirty r s) = entry to s" "entry to (mark_bundle_dirty r s) = entry to s"
  by (simp_all add: mark_auth_dirty_def mark_bundle_dirty_def)












section \<open>The budget\<close>



end
