(* ===== verification/HostedBundles.thy ===== *)
theory HostedBundles
  imports RelaySafety
begin

text \<open>
  Hosted invite bundles over whole runs of the relay: no upload replaces one and no step removes
  one before it expires, and from the next flush on a restart brings it back.
\<close>


section \<open>Invite bundles\<close>

fun bundle_spares :: "hosted_bundle \<Rightarrow> event \<Rightarrow> bool" where
  "bundle_spares b (Text ch i msg) \<longleftrightarrow> (\<forall>n \<le> 3. i_clock i n < b_expires_at_ms b)"
| "bundle_spares b _ \<longleftrightarrow> True"

text \<open>Every restart of the run comes after a flush.\<close>

fun flushed_first :: "event list \<Rightarrow> bool" where
  "flushed_first [] \<longleftrightarrow> True"
| "flushed_first (MetaFlush io1 io2 # es) \<longleftrightarrow> True"
| "flushed_first (Restart ioq iof ioa iob now # es) \<longleftrightarrow> False"
| "flushed_first (_ # es) \<longleftrightarrow> flushed_first es"

lemma flushed_first_step:
  "flushed_first (e # es) \<Longrightarrow> (\<exists>io1 io2. e = MetaFlush io1 io2) \<or> flushed_first es"
  by (cases e) simp_all

lemma no_restart_flushed: "list_all (event_fine False) es \<Longrightarrow> flushed_first es"
  by (induction es rule: flushed_first.induct) simp_all

text \<open>A bundle that is hosted, and whether it waits for a flush.\<close>

definition hosted :: "string \<Rightarrow> hosted_bundle \<Rightarrow> bool \<Rightarrow> ('t, 'c) app_state \<Rightarrow> bool" where
  "hosted bid b waits s \<longleftrightarrow> dm_get (bundles s) bid = Some b \<and> (dm_contains (dirty_bundles s) bid \<longrightarrow> waits)"

lemma hosted_other [simp]:
  "hosted bid b w (s\<lparr>auths := x1\<rparr>) = hosted bid b w s" "hosted bid b w (s\<lparr>send_rate := x2\<rparr>) = hosted bid b w s"
  "hosted bid b w (s\<lparr>online := x3\<rparr>) = hosted bid b w s" "hosted bid b w (s\<lparr>queues := x4\<rparr>) = hosted bid b w s"
  "hosted bid b w (s\<lparr>files := x5\<rparr>) = hosted bid b w s" "hosted bid b w (s\<lparr>dirty_auth := x6\<rparr>) = hosted bid b w s"
  "hosted bid b w (s\<lparr>mailbox_count := x7\<rparr>) = hosted bid b w s" "hosted bid b w (s\<lparr>conn_count := x8\<rparr>) = hosted bid b w s"
  "hosted bid b w (s\<lparr>last_bundle_prune_ms := x9\<rparr>) = hosted bid b w s"
  "hosted bid b w (s\<lparr>total_bundle_bytes := x10\<rparr>) = hosted bid b w s"
  by (simp_all add: hosted_def)

lemma hosted_marks [simp]: "hosted bid b w (mark_auth_dirty rid s) = hosted bid b w s"
  by (simp add: mark_auth_dirty_def)

lemma hosted_prune:
  assumes "bundles_ok s" "hosted bid b w s" "now < b_expires_at_ms b"
  shows "hosted bid b w (prune_expired_bundles now s)"
proof -
  define es where "es = map (\<lambda>(k, x). (k, length (b_ciphertext x))) (filter (\<lambda>(k, x). b_expires_at_ms x \<le> now) (bundles s))"
  have fold: "hosted bid b w (fst (fold prune_one es (s', n)))" if "bid \<notin> fst ` set es" "hosted bid b w s'" for es s' n
    using that
  proof (induction es arbitrary: s' n)
    case (Cons e es)
    have "hosted bid b w (fst (prune_one e (s', n)))"
      using Cons.prems by (cases e) (auto simp: prune_one_def hosted_def mark_bundle_dirty_def)
    with Cons show ?case by (cases "prune_one e (s', n)") simp
  qed simp
  have "dm_wf (bundles s)" using assms(1) by (simp add: bundles_ok_def)
  then have "bid \<notin> fst ` set es"
    using assms(2,3) dm_get_set [of "bundles s" bid] by (force simp: es_def hosted_def not_le [symmetric])
  from fold [OF this, of "s\<lparr>last_bundle_prune_ms := now\<rparr>" 0] assms(2) show ?thesis
    by (auto simp: prune_expired_bundles_def es_def [symmetric] Let_def split: prod.splits)
qed

lemma hello_entry_hosted: "hosted bid b w (fst (hello_entry W i rid ah dh pow s)) = hosted bid b w s"
  by (auto simp: hello_entry_def reserve_mailbox_slot_def Let_def split: option.splits if_splits prod.splits)

lemma hello_hosted:
  assumes "handle_hello W i rid at dt pmin pmax pver pow co c s = (c', s', out)"
  shows "hosted bid b w s' = hosted bid b w s"
proof -
  obtain s1 r where "hello_entry W i rid (token_hash (w_hash W) at) (token_hash (w_hash W) dt) pow s = (s1, r)"
    by force
  with hello_entry_hosted [of bid b w W i rid _ _ pow s] assms show ?thesis
    by (auto simp: handle_hello_def Let_def split: if_splits option.splits dest: fstI)
qed

lemma send_hosted:
  "hosted bid b w (fst (handle_send W i cref to tok ety ctext c s)) = hosted bid b w s"
  by (auto simp: handle_send_def allow_dest_send_def deliver_live_def Let_def
      split: option.splits prod.splits bool.splits)

lemma frame_keeps_bundle:
  assumes "handle_frame W i f c s = (c', s', out, stop)" "bundles_ok s" "hosted bid b w s"
    "\<forall>n \<le> 3. i_clock i n < b_expires_at_ms b"
  shows "hosted bid b w s'"
proof (cases f)
  case Hello
  with assms show ?thesis by (auto split: prod.splits simp: hello_hosted)
next
  case (SendEnvelope cref to tok ety ctext)
  with assms send_hosted [of bid b w W i cref to tok ety ctext c s] show ?thesis by (auto split: prod.splits)
next
  case (UploadBundle rq bid' ctext exp pow)
  let ?s = "prune_expired_bundles (i_clock i 1) s"
  have h: "hosted bid b w ?s" using hosted_prune [OF assms(2,3)] assms(4) by simp
  then have "dm_get (bundles ?s) bid = Some b" by (simp add: hosted_def)
  moreover have "\<not> b_expires_at_ms b \<le> i_clock i 2" using assms(4) by (simp add: not_le)
  ultimately show ?thesis
    using assms(1,3) UploadBundle h
    by (auto simp: handle_upload_bundle_def hosted_def mark_bundle_dirty_def Let_def split: if_splits option.splits)
next
  case FetchBundle
  with assms hosted_prune [OF assms(2,3)] show ?thesis
    by (auto simp: handle_fetch_bundle_def Let_def split: if_splits option.splits)
qed (use assms in \<open>auto simp: handle_set_delivery_tokens_def handle_upload_chunk_def handle_delete_transfer_def
    handle_ack_def handle_retire_def Let_def
    split: if_splits option.splits prod.splits sum.splits\<close>)

lemma text_keeps_bundle:
  assumes "handle_text W i msg c s = (c', s', out, stop)" "bundles_ok s" "hosted bid b w s"
    "\<forall>n \<le> 3. i_clock i n < b_expires_at_ms b"
  shows "hosted bid b w s'"
  using assms frame_keeps_bundle [OF _ assms(2-4)]
  by (auto simp: handle_text_frame Let_def split: option.splits)

lemma flush_bundles_same: "bundles (meta_flush_tick E io1 io2 s) = bundles s"
  by (auto simp: meta_flush_tick_def flush_dirty_meta_def Let_def split: prod.splits option.splits)

lemma flush_hosted:
  assumes "relay_backend W" "state_ok W True s" "hosted bid b w s" "write_ok io1" "write_ok io2"
  shows "hosted bid b False (meta_flush_tick (w_app W) io1 io2 s)"
proof (cases "dirty_auth s = [] \<and> dirty_bundles s = []")
  case True
  with assms(3) show ?thesis by (simp add: meta_flush_tick_def hosted_def dm_contains_def)
next
  case False
  have b: "app_backend (w_app W)" using assms(1) by (simp add: relay_backend_def)
  let ?s = "fst (flush_dirty_meta (w_app W) io1 io2 s)"
  have "snd (flush_dirty_meta (w_app W) io1 io2 s) = Some ()"
    using assms(4,5) by (auto simp: flush_dirty_meta_def flush_items_def Let_def split: if_splits)
  then have "flush_dirty_meta (w_app W) io1 io2 s = (?s, Some ())" by (metis prod.collapse)
  from app_backend.flush_effect(3) [OF b state_okD(2) [OF assms(2) TrueI] this]
  have "dirty_bundles (meta_flush_tick (w_app W) io1 io2 s) = []"
    using False unfolding meta_flush_tick_def by (simp only: if_False)
  with assms(3) show ?thesis by (simp add: hosted_def flush_bundles_same dm_contains_def)
qed

text \<open>A restart finds in its table what no flush is owed for.\<close>

lemma restart_hosted:
  assumes "relay_backend W" "relay_inv W True R" "hosted bid b False (app R)"
    "build (w_app W) ioa iob now (auth_table (app R)) (bundle_table (app R)) q f cfg tr = Some s"
  shows "hosted bid b w s"
proof -
  note I = relay_invD [OF assms(2)]
  have E: "app_backend (w_app W)" using assms(1) by (simp add: relay_backend_def)
  obtain s0 where s0: "auths_ok s0" "bundles_ok s0" "meta_synced (w_app W) s0" "dirty_auth s0 = []"
    "dirty_bundles s0 = []" "auth_table s0 = auth_table (app R)" "bundle_table s0 = bundle_table (app R)"
    using I(7) by (auto simp: snapshot_ok_def)
  have "dm_get (bundles s0) bid = stored_at (a_bundles (w_app W)) (a_bundle_codec (w_app W)) (bundle_table (app R)) bid"
    using s0(3,5,7) by (simp add: meta_synced_def synced_def dm_contains_def option.rel_eq)
  also have "\<dots> = Some b"
    using state_okD(2) [OF I(1) TrueI] assms(3)
    by (auto simp: meta_synced_def synced_def hosted_def option.rel_eq)
  finally show ?thesis
    using app_backend.build_effect(5) [OF E s0(1-5) assms(4) [folded s0(6,7)]] build_stores(8) [OF assms(4)]
    by (simp add: hosted_def dm_contains_def)
qed

lemma step_keeps_bundle:
  assumes "relay_backend W" "relay_inv W sy R" "relay_step W R e out R'" "list_all (event_fine sy) (e # es)"
    "hosted bid b (flushed_first (e # es)) (app R)" "bundle_spares b e"
  shows "hosted bid b (flushed_first es) (app R')"
proof -
  note I = relay_invD [OF assms(2)]
  note B = state_okD(4) [OF I(1)]
  have E: "app_backend (w_app W)" using assms(1) by (simp add: relay_backend_def)
  have gc: "hosted bid b w (gc_idle_mailboxes (w_app W) gio now (app R)) = hosted bid b w (app R)" for gio now w
    using app_backend.gc_effect(3) [OF E state_okD(1,2) [OF I(1)] refl, where io = gio and now = now]
    by (simp add: app_backend.same_rest_def [OF E] hosted_def)
  have close: "hosted bid b w (close_socket c s) = hosted bid b w s" for w c and s :: "('a, 'c) app_state"
    by (auto simp: close_socket_def Let_def split: option.splits)
  have flush: "hosted bid b (flushed_first es) (meta_flush_tick (w_app W) io1 io2 (app R))" if "e = MetaFlush io1 io2" for io1 io2
  proof (cases sy)
    case True
    with flush_hosted [OF assms(1) _ assms(5), of io1 io2] I(1) assms(4) that show ?thesis by (simp add: hosted_def)
  next
    case False
    with no_restart_flushed [of es] assms(4,5) show ?thesis by (simp add: hosted_def flush_bundles_same)
  qed
  from assms(3) show ?thesis
  proof (cases rule: relay_step.cases)
    case (restart ioq q iof f ioa iob now s)
    with assms(4) have sy by simp
    with restart_hosted [OF assms(1) _ _ restart(6)] assms(2,5) restart show ?thesis by simp
  qed (use assms(5,6) text_keeps_bundle [OF _ B] gc flush in
    \<open>auto simp: open_socket_def Let_def mailbox_gc_tick_def queue_sweep_tick_def file_sweep_tick_def close
      split: if_splits\<close>)
qed

lemma run_keeps_bundle:
  assumes "relay_run W R es outs R'" "relay_backend W" "relay_inv W sy R" "list_all (event_fine sy) es"
    "hosted bid b (flushed_first es) (app R)" "list_all (bundle_spares b) es"
  shows "dm_get (bundles (app R')) bid = Some b"
  using assms
proof (induction rule: relay_run.induct)
  case (more R e out R1 es outs R')
  have "relay_inv W sy R1"
    by (rule relay_backend.step_inv(1) [OF more.prems(1,2) more.hyps(1)]) (use more.prems(3) in simp)
  moreover have "hosted bid b (flushed_first es) (app R1)"
    by (rule step_keeps_bundle [OF more.prems(1,2) more.hyps(1) more.prems(3,4)]) (use more.prems(5) in simp)
  ultimately show ?case using more.IH more.prems by simp
qed (simp add: hosted_def)

text \<open>
  C33: a hosted invite cannot be replaced or destroyed before it expires. Once a bundle is
  stored under an id, every fetch of the id returns exactly its ciphertext and expiry, after any
  run of the relay whose frames read the clock before the expiry: uploads under the same id,
  collections, sweeps, failed storage calls of the queue and the files, failed metadata flushes
  if the run has no restart, and restarts too, if the metadata flushes of the run commit and the
  bundle has no mark waiting for a flush at the start or the first restart comes after a flush. A
  fetch at or after the expiry never returns it.
\<close>

theorem hosted_bundle_kept:
  assumes "relay_backend W" "relay_inv W sy R" "relay_run W R es outs R'" "list_all (event_fine sy) es"
    "dm_get (bundles (app R)) bid = Some b" "list_all (bundle_spares b) es"
    "dm_contains (dirty_bundles (app R)) bid \<Longrightarrow> flushed_first es"
    "handle_fetch_bundle i rq bid c (app R') = (s, out)"
  shows "((\<forall>n \<le> 3. i_clock i n < b_expires_at_ms b) \<longrightarrow>
        out = [(tx c, Bundle rq bid (b_ciphertext b) (b_expires_at_ms b))])
    \<and> (b_expires_at_ms b \<le> i_clock i 2 \<longrightarrow>
        out = [(tx c, Error ''bundle_not_found'' ''invite bundle was not found or has expired'')])"
proof -
  have "relay_inv W sy R'" using relay_backend.run_inv [OF assms(1,3,2,4)] by simp
  note B = state_okD(4) [OF relay_invD(1) [OF this]]
  have g: "dm_get (bundles (app R')) bid = Some b"
    by (rule run_keeps_bundle [OF assms(3,1,2,4) _ assms(6)]) (use assms(5,7) in \<open>simp add: hosted_def\<close>)
  then have id: "b_id b = bid" using B by (simp add: bundles_ok_def)
  note P = prune_effect [OF B refl, where now = "i_clock i 1"]
  show ?thesis
  proof (intro conjI impI)
    assume t: "\<forall>n \<le> 3. i_clock i n < b_expires_at_ms b"
    then have "dm_get (bundles (prune_expired_bundles (i_clock i 1) (app R'))) bid = Some b"
      using P(3) [OF g] by simp
    with assms(8) t id show "out = [(tx c, Bundle rq bid (b_ciphertext b) (b_expires_at_ms b))]"
      by (auto simp: handle_fetch_bundle_def Let_def)
  next
    assume "b_expires_at_ms b \<le> i_clock i 2"
    moreover have "dm_get (bundles (prune_expired_bundles (i_clock i 1) (app R'))) bid \<in> {None, Some b}"
      using P(2) [of bid] g by (cases "dm_get (bundles (prune_expired_bundles (i_clock i 1) (app R'))) bid") auto
    ultimately show "out = [(tx c, Error ''bundle_not_found'' ''invite bundle was not found or has expired'')]"
      using assms(8) by (auto simp: handle_fetch_bundle_def err_def Let_def not_less split: if_splits)
  qed
qed


definition sample_bundle :: hosted_bundle where
  "sample_bundle = \<lparr>b_id = bundle1, b_ciphertext = ''invite'', b_created_at_ms = 86400000, b_expires_at_ms = 86460000\<rparr>"

definition app4 :: "(ref_tab, ref_chunks) app_state" where
  "app4 = app2\<lparr>bundles := [(bundle1, sample_bundle)], total_bundle_bytes := 6,
     dirty_bundles := [(bundle1, ())], last_bundle_prune_ms := 86400000\<rparr>"

definition relay4 :: "(ref_tab, ref_chunks) relay" where
  "relay4 = \<lparr>app = app4, conns = [(1, conn3)]\<rparr>"

lemma sample_upload: "relay_step ref_ws relay2 (Text 1 in1 ''upload'')
  [(1, BundleUploaded ''r'' bundle1 86460000)] relay4"
proof -
  have p: "prune_expired_bundles 86400000 app2 = app2\<lparr>last_bundle_prune_ms := 86400000\<rparr>"
    by (simp add: prune_expired_bundles_def app2_def app1_def app0_def Let_def)
  have b: "bundles app2 = []" "total_bundle_bytes app2 = 0" "dirty_bundles app2 = []"
    by (simp_all add: app2_def app1_def app0_def)
  have conn: "count_frame 86400000 conn2 = conn3"
    by (simp add: count_frame_def conn2_def conn3_def sat_add_def sat_sub_def Let_def config_defs)
  have "handle_upload_bundle ref_ws in1 ''r'' bundle1 ''invite'' 0 (Some ''0:x'') conn3 app2
      = (app4, [(1, BundleUploaded ''r'' bundle1 86460000)])"
    by (simp add: handle_upload_bundle_def Let_def p b config_defs usize_sat_add_def usize_add_def usize_max_def
        usize_modulus_def mark_bundle_dirty_def sat_add_def sample_bundle_def conn3_def app4_def)
  then have "handle_text ref_ws in1 ''upload'' conn2 app2
      = (conn3, app4, [(1, BundleUploaded ''r'' bundle1 86460000)], False)"
    by (simp add: handle_text_def conn ref_json_def Let_def) (simp add: conn3_def config_defs)
  moreover have "input_ok ref_ws in1 (app relay2)"
    by (simp add: input_ok_def relay2_def app2_def app1_def app0_def)
  ultimately have "relay_step ref_ws relay2 (Text 1 in1 ''upload'') [(1, BundleUploaded ''r'' bundle1 86460000)]
      \<lparr>app = app4, conns = dm_insert 1 conn3 (conns relay2)\<rparr>"
    by (intro relay_step.frame [where c = conn2]) (simp_all add: relay2_def)
  then show ?thesis by (simp add: relay2_def relay4_def)
qed

lemma relay4_inv: "relay_inv ref_ws sy relay4"
  by (rule ref_relay.step_inv(1) [OF relay2_inv sample_upload]) simp

theorem hosted_bundle_kept_witness:
  "\<exists>R'. relay_run ref_ws relay4 [MetaFlush io_fine io_fine, Restart io_fine io_fine io_fine io_fine 86400001] [] R'
     \<and> snd (handle_fetch_bundle in1 ''q'' bundle1 conn3 (app R')) = [(1, Bundle ''q'' bundle1 ''invite'' 86460000)]"
proof -
  let ?flush = "MetaFlush io_fine io_fine" and ?restart = "Restart io_fine io_fine io_fine io_fine 86400001"
  obtain R1 where flush: "relay_step ref_ws relay4 ?flush [] R1" using relay_step.meta_flush by blast
  obtain R' where restart: "relay_step ref_ws R1 ?restart [] R'"
    using relay_backend.restart_total [OF ref_relay_backend, of io_fine io_fine io_fine io_fine] by auto
  have run: "relay_run ref_ws relay4 [?flush, ?restart] ([] @ [] @ []) R'"
    by (rule relay_run.more [OF flush relay_run.more [OF restart relay_run.none]])
  obtain s out where f: "handle_fetch_bundle in1 ''q'' bundle1 conn3 (app R') = (s, out)" by force
  have "dm_get (bundles (app relay4)) bundle1 = Some sample_bundle" by (simp add: relay4_def app4_def)
  from hosted_bundle_kept [OF ref_relay_backend relay4_inv [of True] run _ this _ _ f] f run
  show ?thesis by (auto simp: sample_bundle_def conn3_def)
qed

end
