(* ===== verification/Atomics.thy ===== *)
theory Atomics
  imports State
begin

text \<open>
  The lock-free counters: threads that run the compare-and-exchange loops of \<open>src/util.rs\<close>,
  \<open>src/state.rs\<close> and \<open>src/file_store.rs\<close> on one atomic, interleaved at every load and exchange.

  The rest of the development runs these operations in one step. Here each thread is at a point
  of its loop, and the steps of all threads interleave in any order; the lemmas show that this
  is the same as running the operations one after the other, in some order, so the one-step
  definitions are justified, and that the loops end.
\<close>


section \<open>The loop\<close>

text \<open>
  What one operation wants to store for a value (\<open>None\<close>: it gives up), whether a failed exchange
  goes back to the load or goes on with the value the exchange observed, and whether the
  exchange is the weak one, which can fail for no reason.
\<close>

record 'a cas_op =
  nxt :: "'a \<Rightarrow> 'a option"
  reload :: bool
  weak :: bool

datatype 'a pc = Idle | Loaded 'a | Done bool

text \<open>One step of one thread: the atomic and where each thread is.\<close>

inductive cas_step ::
    "'a cas_op list \<Rightarrow> 'a \<times> 'a pc list \<Rightarrow> 'a \<times> 'a pc list \<Rightarrow> bool"
  for ops where
  load: "t < length pcs \<Longrightarrow> pcs ! t = Idle \<Longrightarrow>
    cas_step ops (v, pcs) (v, pcs[t := (case nxt (ops ! t) v of None \<Rightarrow> Done False | Some _ \<Rightarrow> Loaded v)])"
| exchange: "t < length pcs \<Longrightarrow> pcs ! t = Loaded v \<Longrightarrow> nxt (ops ! t) v = Some w \<Longrightarrow>
    cas_step ops (v, pcs) (w, pcs[t := Done True])"
| retry: "t < length pcs \<Longrightarrow> pcs ! t = Loaded u \<Longrightarrow> u \<noteq> v \<or> weak (ops ! t) \<Longrightarrow>
    cas_step ops (v, pcs) (v, pcs[t := (if reload (ops ! t) then Idle else Loaded v)])"

text \<open>The first \<open>n\<close> steps of a run.\<close>

inductive cas_run :: "'a cas_op list \<Rightarrow> nat \<Rightarrow> 'a \<times> 'a pc list \<Rightarrow> 'a \<times> 'a pc list \<Rightarrow> bool" for ops where
  stop: "cas_run ops 0 c c"
| more: "cas_run ops n c c1 \<Longrightarrow> cas_step ops c1 c2 \<Longrightarrow> cas_run ops (Suc n) c c2"

definition threads :: "'a cas_op list \<Rightarrow> 'a pc list" where
  "threads ops = replicate (length ops) Idle"

definition finished :: "'a pc list \<Rightarrow> bool \<Rightarrow> nat set" where
  "finished pcs ok = {t. t < length pcs \<and> pcs ! t = Done ok}"


section \<open>One after the other\<close>

text \<open>The operations of a list of threads, each on what the one before left.\<close>

fun in_turn :: "'a cas_op list \<Rightarrow> nat list \<Rightarrow> 'a \<Rightarrow> 'a option" where
  "in_turn ops [] v = Some v"
| "in_turn ops (t # ts) v = (case nxt (ops ! t) v of None \<Rightarrow> None | Some w \<Rightarrow> in_turn ops ts w)"

lemma in_turn_append:
  "in_turn ops (xs @ ys) v = (case in_turn ops xs v of None \<Rightarrow> None | Some w \<Rightarrow> in_turn ops ys w)"
  by (induction xs arbitrary: v) (auto split: option.splits)

lemma finished_update:
  assumes "t < length pcs" "pcs ! t \<noteq> Done ok"
  shows "finished (pcs[t := Done ok]) ok = insert t (finished pcs ok)"
    "x \<noteq> Done ok \<Longrightarrow> finished (pcs[t := x]) ok = finished pcs ok"
  using assms by (auto simp: finished_def nth_list_update)

text \<open>
  What a run keeps: some order of the successful operations gives the atomic's value, and every
  operation that gave up met a value, between two of them, at which it had to.
\<close>

definition linearized :: "'a cas_op list \<Rightarrow> 'a \<Rightarrow> 'a \<times> 'a pc list \<Rightarrow> bool" where
  "linearized ops v0 c \<longleftrightarrow>
     (\<exists>ts. distinct ts \<and> set ts = finished (snd c) True \<and> in_turn ops ts v0 = Some (fst c)
        \<and> (\<forall>t \<in> finished (snd c) False. \<exists>us u. prefix us ts \<and> in_turn ops us v0 = Some u \<and> nxt (ops ! t) u = None))"

lemma linearized_start: "linearized ops v (v, threads ops)"
  by (auto simp: linearized_def finished_def threads_def intro!: exI [of _ "[]"])

lemma linearized_step:
  assumes "linearized ops v0 (v, pcs)" "cas_step ops (v, pcs) c"
  shows "linearized ops v0 c"
proof -
  obtain ts where ts: "distinct ts" "set ts = finished pcs True" "in_turn ops ts v0 = Some v"
    "\<forall>t \<in> finished pcs False. \<exists>us u. prefix us ts \<and> in_turn ops us v0 = Some u \<and> nxt (ops ! t) u = None"
    using assms(1) by (auto simp: linearized_def)
  show ?thesis
    using assms(2)
  proof (cases rule: cas_step.cases)
    case (load t)
    show ?thesis
    proof (cases "nxt (ops ! t) v")
      case None
      have "\<exists>us u. prefix us ts \<and> in_turn ops us v0 = Some u \<and> nxt (ops ! t) u = None"
        using ts(3) None by blast
      with load ts None finished_update [of t pcs False] finished_update(2) [of t pcs True "Done False"] show ?thesis
        by (auto simp: linearized_def)
    next
      case (Some w)
      with load ts finished_update(2) [of t pcs _ "Loaded v"] show ?thesis
        by (auto simp: linearized_def)
    qed
  next
    case (exchange t w)
    have new: "t \<notin> set ts" using exchange ts(2) by (simp add: finished_def)
    have turn: "in_turn ops (ts @ [t]) v0 = Some w" using ts(3) exchange by (simp add: in_turn_append)
    have fin: "finished (pcs[t := Done True]) True = insert t (finished pcs True)"
      "finished (pcs[t := Done True]) False = finished pcs False"
      using exchange finished_update(1) [of t pcs True] finished_update(2) [of t pcs False "Done True"] by auto
    have old: "\<exists>us u. prefix us (ts @ [t]) \<and> in_turn ops us v0 = Some u \<and> nxt (ops ! j) u = None"
      if "j \<in> finished pcs False" for j
      using ts(4) that by (meson prefix_prefix)
    show ?thesis
      unfolding linearized_def using exchange(1) fin ts(1,2) new turn old
      by (intro exI [of _ "ts @ [t]"]) auto
  next
    case (retry t u)
    then have "finished (snd c) ok = finished pcs ok" for ok
      using finished_update(2) [of t pcs ok] by (auto split: if_splits)
    with retry ts show ?thesis by (auto simp: linearized_def)
  qed
qed

lemma linearized_run:
  "cas_run ops n (v0, threads ops) c \<Longrightarrow> linearized ops v0 c"
proof (induction n "(v0, threads ops)" c rule: cas_run.induct)
  case (more n c1 c2)
  then show ?case using linearized_step [of ops v0 "fst c1" "snd c1" c2] by simp
qed (rule linearized_start)


section \<open>Termination\<close>

text \<open>
  A potential for strong exchanges: a thread has further to go at a stale value than before its
  load, and furthest from a fresh one; a successful exchange can make all other threads stale,
  but there is one thread less that is not done.
\<close>

definition weight :: "'a \<Rightarrow> 'a pc \<Rightarrow> nat" where
  "weight v p = (case p of Idle \<Rightarrow> 2 | Loaded u \<Rightarrow> if u = v then 1 else 3 | Done _ \<Rightarrow> 0)"

definition busy :: "'a pc \<Rightarrow> nat" where
  "busy p = (case p of Done _ \<Rightarrow> 0 | _ \<Rightarrow> 1)"

definition potential :: "'a \<times> 'a pc list \<Rightarrow> nat" where
  "potential c = sum_list (map busy (snd c)) * (3 * length (snd c) + 1) + sum_list (map (weight (fst c)) (snd c))"

lemma weight_le: "sum_list (map (weight v) pcs) \<le> 3 * length pcs"
  by (induction pcs) (auto simp: weight_def split: pc.split)

lemma potential_decreases:
  assumes "cas_step ops (v, pcs) c" "\<And>t. t < length pcs \<Longrightarrow> \<not> weak (ops ! t)"
  shows "potential c < potential (v, pcs)"
  using assms(1)
proof (cases rule: cas_step.cases)
  case (load t)
  define x where "x = (case nxt (ops ! t) v of None \<Rightarrow> Done False | Some _ \<Rightarrow> Loaded v)"
  have x: "busy x \<le> 1" "weight v x < 2" by (auto simp: x_def busy_def weight_def split: option.split)
  have c: "c = (v, pcs[t := x])" using load by (simp add: x_def)
  have "sum_list (map busy (pcs[t := x])) \<le> sum_list (map busy pcs)"
    "sum_list (map (weight v) (pcs[t := x])) < sum_list (map (weight v) pcs)"
    using sum_list_map_update [of t pcs busy x] sum_list_map_update [of t pcs "weight v" x] load x
    by (simp_all add: busy_def weight_def)
  then show ?thesis unfolding potential_def c by (simp del: mult_Suc_right add: add_le_less_mono mult_le_mono)
next
  case (exchange t w)
  have b: "sum_list (map busy pcs) = Suc (sum_list (map busy (pcs[t := Done True])))"
    using sum_list_map_update [of t pcs busy "Done True"] exchange by (simp add: busy_def)
  have "sum_list (map (weight w) (pcs[t := Done True])) \<le> 3 * length pcs"
    using weight_le [of w "pcs[t := Done True]"] by simp
  then show ?thesis unfolding potential_def using exchange(1) b by simp
next
  case (retry t u)
  define x where "x = (if reload (ops ! t) then Idle else Loaded v)"
  have x: "busy x = 1" "weight v x < 3" by (auto simp: x_def busy_def weight_def)
  have c: "c = (v, pcs[t := x])" using retry by (simp add: x_def)
  have "sum_list (map busy (pcs[t := x])) = sum_list (map busy pcs)"
    "sum_list (map (weight v) (pcs[t := x])) < sum_list (map (weight v) pcs)"
    using sum_list_map_update [of t pcs busy x] sum_list_map_update [of t pcs "weight v" x] retry x assms(2)
    by (auto simp: busy_def weight_def)
  then show ?thesis unfolding potential_def c by simp
qed

lemma cas_step_length: "cas_step ops c c' \<Longrightarrow> length (snd c') = length (snd c)"
  by (induction rule: cas_step.induct) auto

lemma cas_run_length: "cas_run ops n c c' \<Longrightarrow> length (snd c') = length (snd c)"
  by (induction rule: cas_run.induct) (simp_all add: cas_step_length)

lemma run_bounded:
  assumes "cas_run ops n c c'" "\<And>t. t < length (snd c) \<Longrightarrow> \<not> weak (ops ! t)"
  shows "n + potential c' \<le> potential c \<and> length (snd c') = length (snd c)"
  using assms
proof (induction rule: cas_run.induct)
  case (more n c c1 c2)
  then show ?case
    using potential_decreases [of ops "fst c1" "snd c1" c2] cas_step_length [of ops c1 c2] by simp
qed simp

lemma potential_start: "potential (v, threads ops) = 3 * length ops * Suc (length ops)"
  by (simp add: potential_def threads_def busy_def weight_def sum_list_replicate algebra_simps)

text \<open>A thread that has loaded a value has something to store for it, so a run only stops when all are done.\<close>

definition loads_ok :: "'a cas_op list \<Rightarrow> 'a pc list \<Rightarrow> bool" where
  "loads_ok ops pcs \<longleftrightarrow> (\<forall>t u. t < length pcs \<longrightarrow> pcs ! t = Loaded u \<longrightarrow> nxt (ops ! t) u \<noteq> None)"

lemma loads_ok_run:
  assumes "cas_run ops n (v, threads ops) c" "\<And>t. t < length ops \<Longrightarrow> reload (ops ! t)"
  shows "loads_ok ops (snd c) \<and> length (snd c) = length ops"
  using assms
proof (induction n "(v, threads ops)" c rule: cas_run.induct)
  case stop
  show ?case by (simp add: loads_ok_def threads_def)
next
  case (more n c1 c2)
  then have i: "loads_ok ops (snd c1)" "length (snd c1) = length ops" by simp_all
  from more(3) i show ?case
    by cases (use more.prems in \<open>auto simp: loads_ok_def nth_list_update split: if_splits option.splits\<close>)
qed

lemma stuck_done:
  assumes "loads_ok ops pcs" "\<And>c. \<not> cas_step ops (v, pcs) c" "t < length pcs"
  shows "pcs ! t = Done True \<or> pcs ! t = Done False"
proof (cases "pcs ! t")
  case Idle
  with assms(2) cas_step.load [OF assms(3) Idle] show ?thesis by blast
next
  case (Loaded u)
  then obtain w where "nxt (ops ! t) u = Some w" using assms(1,3) by (auto simp: loads_ok_def)
  with assms(2) cas_step.exchange [of t pcs u ops w] cas_step.retry [OF assms(3) Loaded, of v ops] assms(3) Loaded
  show ?thesis by (cases "u = v") auto
next
  case (Done b)
  then show ?thesis by (cases b) auto
qed


section \<open>The counters of the relay\<close>

text \<open>The loops of \<open>reserve_slot\<close> and \<open>reserve_mailbox_slot\<close>, \<open>try_reserve_bytes\<close> and \<open>release_bytes\<close>.\<close>

definition slot_op :: "usize \<Rightarrow> usize cas_op" where
  "slot_op cap = \<lparr>nxt = (\<lambda>cur. if cur \<ge> cap then None else Some (usize_add cur 1)), reload = True, weak = False\<rparr>"

datatype budget_request = Reserve u64 | Release u64

definition reserve_op :: "u64 \<Rightarrow> u64 \<Rightarrow> u64 cas_op" where
  "reserve_op cap amount =
     \<lparr>nxt = (\<lambda>cur. let next = sat_add cur amount in if next > cap then None else Some next),
      reload = True, weak = False\<rparr>"

definition release_op :: "u64 \<Rightarrow> u64 cas_op" where
  "release_op amount = \<lparr>nxt = (\<lambda>cur. Some (sat_sub cur amount)), reload = False, weak = True\<rparr>"

definition budget_op :: "u64 \<Rightarrow> budget_request \<Rightarrow> u64 cas_op" where
  "budget_op cap r =
     (case r of Reserve amount \<Rightarrow> reserve_op cap amount | Release amount \<Rightarrow> release_op amount)"

text \<open>The one-step operations of the stores make the same step on the same value.\<close>

lemma slot_op_reserves:
  "reserve_slot s = (case nxt (slot_op (max_transfers (config s))) (transfer_count s) of
     None \<Rightarrow> (s, Inl Full) | Some n \<Rightarrow> (s\<lparr>transfer_count := n\<rparr>, Inr ()))"
  "reserve_mailbox_slot a = (case nxt (slot_op MAX_MAILBOXES) (mailbox_count a) of
     None \<Rightarrow> (a, False) | Some n \<Rightarrow> (a\<lparr>mailbox_count := n\<rparr>, True))"
  by (simp_all add: reserve_slot_def reserve_mailbox_slot_def slot_op_def)

lemma budget_op_nxt [simp]:
  "nxt (budget_op cap (Reserve a)) v = (if sat_add v a > cap then None else Some (sat_add v a))"
  "nxt (budget_op cap (Release a)) v = Some (sat_sub v a)"
  by (simp_all add: budget_op_def reserve_op_def release_op_def Let_def)

text \<open>The requests of a list of threads, served by the one-step operations one after the other.\<close>

fun serve :: "budget_request list \<Rightarrow> nat list \<Rightarrow> ('m, 'c) file_store \<Rightarrow> ('m, 'c) file_store option" where
  "serve rs [] s = Some s"
| "serve rs (t # ts) s =
     (case rs ! t of
        Reserve amount \<Rightarrow>
          (case try_reserve_bytes amount s of (s, Inr _) \<Rightarrow> serve rs ts s | (s, Inl _) \<Rightarrow> None)
      | Release amount \<Rightarrow> serve rs ts (release_bytes amount s))"

lemma serve_in_turn:
  fixes s :: "('m, 'c) file_store"
  assumes "\<And>t. t \<in> set ts \<Longrightarrow> t < length rs"
  shows "serve rs ts s = map_option (\<lambda>v. s\<lparr>reserved_bytes := v\<rparr>)
    (in_turn (map (budget_op (max_total_file_bytes (config s))) rs) ts (reserved_bytes s))"
  using assms
proof (induction ts arbitrary: s)
  case (Cons t ts)
  have t: "t < length rs" using Cons.prems by simp
  have IH: "serve rs ts s = map_option (\<lambda>v. s\<lparr>reserved_bytes := v\<rparr>)
    (in_turn (map (budget_op (max_total_file_bytes (config s))) rs) ts (reserved_bytes s))" for s :: "('m, 'c) file_store"
    using Cons by simp
  show ?case using t
    by (cases "rs ! t") (simp_all add: IH try_reserve_bytes_def release_bytes_def Let_def)
qed simp

lemma in_turn_cap:
  assumes "in_turn (map (budget_op cap) rs) ts v = Some w" "v \<le> cap" "\<And>t. t \<in> set ts \<Longrightarrow> t < length rs"
  shows "w \<le> cap"
  using assms
proof (induction ts arbitrary: v)
  case (Cons t ts)
  then have "t < length rs" by simp
  with Cons.prems(1) obtain u where u: "nxt (budget_op cap (rs ! t)) v = Some u"
    "in_turn (map (budget_op cap) rs) ts u = Some w" by (auto split: option.splits)
  then have "u \<le> cap" using Cons.prems(2) sat_sub_le [of v]
    by (cases "rs ! t") (auto simp: not_less split: if_splits intro: order.trans)
  with Cons u show ?case by auto
qed simp

text \<open>
  C28: the byte budget under concurrency. Uploads and deletions that reserve and release bytes at
  the same time, their loops interleaved in any way, leave the counter as if their requests had
  been served one after the other by the operations of the store; a reservation is refused only
  at a value where the store refuses it; and the cap on the bytes of all files is never exceeded.
\<close>

theorem concurrent_budget:
  fixes s :: "('m, 'c) file_store"
  defines "cap \<equiv> max_total_file_bytes (config s)"
  assumes "cas_run (map (budget_op cap) rs) n (reserved_bytes s, threads (map (budget_op cap) rs)) (v, pcs)"
  shows "(\<exists>ts. distinct ts \<and> set ts = finished pcs True \<and> serve rs ts s = Some (s\<lparr>reserved_bytes := v\<rparr>)
      \<and> (\<forall>t \<in> finished pcs False. \<exists>us s' amount. prefix us ts \<and> serve rs us s = Some s'
          \<and> rs ! t = Reserve amount \<and> try_reserve_bytes amount s' = (s', Inl Full)))
    \<and> (reserved_bytes s \<le> cap \<longrightarrow> v \<le> cap)"
proof -
  let ?ops = "map (budget_op cap) rs"
  obtain ts where ts: "distinct ts" "set ts = finished pcs True" "in_turn ?ops ts (reserved_bytes s) = Some v"
    "\<forall>t \<in> finished pcs False. \<exists>us u. prefix us ts \<and> in_turn ?ops us (reserved_bytes s) = Some u \<and> nxt (?ops ! t) u = None"
    using linearized_run [OF assms(2)] by (auto simp: linearized_def)
  have len: "length pcs = length rs" using cas_run_length [OF assms(2)] by (simp add: threads_def)
  then have in_range: "t < length rs" if "t \<in> set ts \<or> t \<in> finished pcs b" for t b
    using that ts(2) by (auto simp: finished_def)
  have "serve rs ts s = Some (s\<lparr>reserved_bytes := v\<rparr>)"
    using serve_in_turn [of ts rs s] ts(3) in_range by (auto simp: cap_def)
  moreover have "\<exists>us s' amount. prefix us ts \<and> serve rs us s = Some s'
      \<and> rs ! t = Reserve amount \<and> try_reserve_bytes amount s' = (s', Inl Full)" if fin: "t \<in> finished pcs False" for t
  proof -
    obtain us u where us: "prefix us ts" "in_turn ?ops us (reserved_bytes s) = Some u" "nxt (?ops ! t) u = None"
      using ts(4) fin by blast
    obtain amount where a: "rs ! t = Reserve amount" "sat_add u amount > cap"
      using us(3) in_range [of t False] fin
      by (cases "rs ! t") (auto split: if_splits)
    have "serve rs us s = Some (s\<lparr>reserved_bytes := u\<rparr>)"
      using serve_in_turn [of us rs s] us(2) in_range set_mono_prefix [OF us(1)] by (auto simp: cap_def)
    moreover have "try_reserve_bytes amount (s\<lparr>reserved_bytes := u\<rparr>) = (s\<lparr>reserved_bytes := u\<rparr>, Inl Full)"
      using a(2) by (simp add: try_reserve_bytes_def cap_def)
    ultimately show ?thesis using us(1) a(1) by blast
  qed
  moreover have "v \<le> cap" if "reserved_bytes s \<le> cap"
    using in_turn_cap [OF ts(3) that] in_range by blast
  ultimately show ?thesis using ts(1,2) by blast
qed

text \<open>Two uploads race for the last three bytes: both load 7, one wins, the other finds no room.\<close>

definition race_store :: "(unit, unit) file_store" where
  "race_store = \<lparr>meta_table = (), chunk_table = (),
     config = \<lparr>max_file_bytes = 10, max_total_file_bytes = 10, file_ttl_ms = 1, max_transfers = 2, max_chunks = 1\<rparr>,
     meta_cache = [], reserved_bytes = 7, transfer_count = 1\<rparr>"

definition race :: "budget_request list" where
  "race = [Reserve 2, Reserve 2]"

lemma race_run: "cas_run (map (budget_op 10) race) 5 (7, threads (map (budget_op 10) race)) (9, [Done True, Done False])"
proof -
  let ?ops = "map (budget_op 10) race"
  have start: "threads ?ops = [Idle, Idle]" by (simp add: threads_def race_def numeral_2_eq_2)
  have "cas_step ?ops (7, [Idle, Idle]) (7, [Loaded 7, Idle])"
    using cas_step.load [of 0 "[Idle, Idle]" ?ops 7] by (simp add: race_def sat_add_def)
  moreover have "cas_step ?ops (7, [Loaded 7, Idle]) (7, [Loaded 7, Loaded 7])"
    using cas_step.load [of 1 "[Loaded 7, Idle]" ?ops 7] by (simp add: race_def sat_add_def)
  moreover have "cas_step ?ops (7, [Loaded 7, Loaded 7]) (9, [Done True, Loaded 7])"
    using cas_step.exchange [of 0 "[Loaded 7, Loaded 7]" 7 ?ops 9] by (simp add: race_def sat_add_def)
  moreover have "cas_step ?ops (9, [Done True, Loaded 7]) (9, [Done True, Idle])"
    using cas_step.retry [of 1 "[Done True, Loaded 7]" 7 9 ?ops] by (simp add: race_def budget_op_def reserve_op_def)
  moreover have "cas_step ?ops (9, [Done True, Idle]) (9, [Done True, Done False])"
    using cas_step.load [of 1 "[Done True, Idle]" ?ops 9] by (simp add: race_def sat_add_def)
  ultimately have "cas_run ?ops (Suc (Suc (Suc (Suc (Suc 0))))) (7, [Idle, Idle]) (9, [Done True, Done False])"
    by (meson cas_run.intros)
  then show ?thesis by (simp only: start numeral_eq_Suc) (simp add: numeral_eq_Suc)
qed

theorem concurrent_budget_witness:
  "\<exists>ts. set ts = {0} \<and> serve race ts race_store = Some (race_store\<lparr>reserved_bytes := 9\<rparr>) \<and> (9 :: u64) \<le> 10"
proof -
  have c: "max_total_file_bytes (config race_store) = 10" "reserved_bytes race_store = 7" by (simp_all add: race_store_def)
  have "finished [Done True, Done False] True = {0 :: nat}"
    by (auto simp: finished_def less_Suc_eq nth_Cons')
  with concurrent_budget [of race_store race 5 9 "[Done True, Done False]"] race_run show ?thesis
    unfolding c by auto
qed

text \<open>Reservations served one after the other count the slots up by one each, never past the cap.\<close>

lemma slots_in_turn:
  assumes "in_turn (replicate N (slot_op cap)) us c0 = Some u" "c0 \<le> cap" "cap < usize_modulus" "set us \<subseteq> {..<N}"
  shows "u = c0 + length us \<and> u \<le> cap"
  using assms(1,2,4)
proof (induction us arbitrary: u rule: rev_induct)
  case (snoc t us)
  then obtain w where w: "in_turn (replicate N (slot_op cap)) us c0 = Some w" "nxt (replicate N (slot_op cap) ! t) w = Some u"
    by (auto simp: in_turn_append split: option.splits)
  with snoc have "w = c0 + length us" "w < cap" "u = usize_add w 1"
    by (auto simp: slot_op_def split: if_splits)
  with assms(3) show ?case by (simp add: usize_add_exact)
qed simp

text \<open>
  C29: slots under concurrency. When \<open>N\<close> threads reserve slots at once from a count within the cap,
  their loops interleaved in any way, the count is always the initial one plus the reservations
  that succeeded, never over the cap; there are at most \<open>3 N (N + 1)\<close> steps, so all the loops
  end; and when no step is left every thread has its answer, and exactly as many succeeded as fit.
\<close>

theorem concurrent_slots:
  assumes "c0 \<le> cap" "cap < usize_modulus"
    "cas_run (replicate N (slot_op cap)) n (c0, threads (replicate N (slot_op cap))) (v, pcs)"
  shows "v = c0 + card (finished pcs True) \<and> v \<le> cap \<and> n \<le> 3 * N * (N + 1)
    \<and> ((\<forall>c. \<not> cas_step (replicate N (slot_op cap)) (v, pcs) c) \<longrightarrow>
        finished pcs True \<union> finished pcs False = {..<N} \<and> card (finished pcs True) = min N (cap - c0))"
proof -
  let ?ops = "replicate N (slot_op cap)"
  have len: "length pcs = N" using cas_run_length [OF assms(3)] by (simp add: threads_def)
  note turn = slots_in_turn [OF _ assms(1,2)]
  obtain ts where ts: "distinct ts" "set ts = finished pcs True" "in_turn ?ops ts c0 = Some v"
    "\<forall>t \<in> finished pcs False. \<exists>us u. prefix us ts \<and> in_turn ?ops us c0 = Some u \<and> nxt (?ops ! t) u = None"
    using linearized_run [OF assms(3)] by (auto simp: linearized_def)
  have fin: "finished pcs b \<subseteq> {..<N}" for b by (auto simp: finished_def len)
  have v: "v = c0 + length ts" "v \<le> cap" using turn [OF ts(3)] fin ts(2) by auto
  have card: "card (finished pcs True) = length ts" using ts(1,2) distinct_card by fastforce
  have strong: "\<not> weak (?ops ! t)" if "t < length (snd (c0, threads ?ops))" for t
    using that by (simp add: threads_def slot_op_def)
  have bound: "n \<le> 3 * N * (N + 1)"
    using run_bounded [OF assms(3) strong] potential_start [of c0 ?ops] by simp
  have "finished pcs True \<union> finished pcs False = {..<N} \<and> card (finished pcs True) = min N (cap - c0)"
    if stuck: "\<forall>c. \<not> cas_step ?ops (v, pcs) c"
  proof
    have "loads_ok ?ops pcs" using loads_ok_run [OF assms(3)] by (simp add: slot_op_def)
    with stuck_done [of ?ops pcs v] stuck show all: "finished pcs True \<union> finished pcs False = {..<N}"
      by (auto simp: finished_def len)
    show "card (finished pcs True) = min N (cap - c0)"
    proof (cases "finished pcs False = {}")
      case True
      with all have "length ts = N" using card by simp
      with v show ?thesis using card by simp
    next
      case False
      then obtain t us u where t: "t \<in> finished pcs False" "prefix us ts" "in_turn ?ops us c0 = Some u"
        "nxt (?ops ! t) u = None" using ts(4) by blast
      then have "cap \<le> u" using fin by (force simp: slot_op_def split: if_splits)
      moreover have "u = c0 + length us" using turn [OF t(3)] set_mono_prefix [OF t(2)] ts(2) fin by blast
      ultimately have "cap = v" using v prefix_length_le [OF t(2)] by simp
      moreover have "length ts \<le> N" using card card_mono [OF _ fin [of True]] by simp
      ultimately show ?thesis using v card by simp
    qed
  qed
  with v card bound show ?thesis by simp
qed

lemma slots_run: "cas_run (replicate 2 (slot_op 5)) 3 (4, threads (replicate 2 (slot_op 5))) (5, [Done True, Done False])"
proof -
  let ?ops = "replicate 2 (slot_op 5)"
  have start: "threads ?ops = [Idle, Idle]" by (simp add: threads_def numeral_2_eq_2)
  have "cas_step ?ops (4, [Idle, Idle]) (4, [Loaded 4, Idle])"
    using cas_step.load [of 0 "[Idle, Idle]" ?ops 4] by (simp add: slot_op_def)
  moreover have "cas_step ?ops (4, [Loaded 4, Idle]) (5, [Done True, Idle])"
    using cas_step.exchange [of 0 "[Loaded 4, Idle]" 4 ?ops 5] by (simp add: slot_op_def usize_add_def usize_modulus_def)
  moreover have "cas_step ?ops (5, [Done True, Idle]) (5, [Done True, Done False])"
    using cas_step.load [of 1 "[Done True, Idle]" ?ops 5] by (simp add: slot_op_def)
  ultimately have "cas_run ?ops (Suc (Suc (Suc 0))) (4, [Idle, Idle]) (5, [Done True, Done False])"
    by (meson cas_run.intros)
  moreover have "(3 :: nat) = Suc (Suc (Suc 0))" by simp
  ultimately show ?thesis by (simp only: start)
qed

theorem concurrent_slots_witness:
  "card (finished [Done True, Done False :: nat pc] True) = min 2 (5 - 4)"
proof -
  have "\<not> cas_step (replicate 2 (slot_op 5)) (5, [Done True, Done False]) c" for c
    by (auto elim!: cas_step.cases simp: less_Suc_eq nth_Cons')
  with concurrent_slots [OF _ _ slots_run] show ?thesis by (simp add: usize_modulus_def)
qed

end
