(* ===== verification/HostEnv.thy ===== *)
theory HostEnv
  imports Util
begin

text \<open>
  What the start of the process uses of the operating system: the files of the data directory
  (\<open>std::fs\<close>), the process environment (\<open>std::env\<close>), and the string functions that read them.

  The file system is the map from paths to the contents of regular files. A call that can fail
  takes its outcome: a file that is written in steps is created, filled and synced, and each of
  the steps can be the last, so that the file system an error leaves behind is also the one a
  process that dies at that point leaves behind. Two paths name the same file only if they are
  equal.
\<close>


section \<open>UTF-8\<close>

text \<open>
  The length of the UTF-8 sequence a byte string starts with, 0 if it starts with none: the
  table of well-formed sequences of the Unicode standard, which \<open>str::from_utf8\<close> implements.
\<close>

definition byte_in :: "nat \<Rightarrow> nat \<Rightarrow> nat list \<Rightarrow> nat \<Rightarrow> bool" where
  "byte_in lo hi bs i \<longleftrightarrow> i < length bs \<and> lo \<le> bs ! i \<and> bs ! i \<le> hi"

definition utf8_head :: "nat list \<Rightarrow> nat" where
  "utf8_head bs =
     (let cont = byte_in 0x80 0xBF bs
      in if byte_in 0 0x7F bs 0 then 1
         else if byte_in 0xC2 0xDF bs 0 \<and> cont 1 then 2
         else if (byte_in 0xE0 0xE0 bs 0 \<and> byte_in 0xA0 0xBF bs 1
                  \<or> (byte_in 0xE1 0xEC bs 0 \<or> byte_in 0xEE 0xEF bs 0) \<and> cont 1
                  \<or> byte_in 0xED 0xED bs 0 \<and> byte_in 0x80 0x9F bs 1) \<and> cont 2 then 3
         else if (byte_in 0xF0 0xF0 bs 0 \<and> byte_in 0x90 0xBF bs 1
                  \<or> byte_in 0xF1 0xF3 bs 0 \<and> cont 1
                  \<or> byte_in 0xF4 0xF4 bs 0 \<and> byte_in 0x80 0x8F bs 1) \<and> cont 2 \<and> cont 3 then 4
         else 0)"

function utf8_valid :: "nat list \<Rightarrow> bool" where
  "utf8_valid bs =
     (if bs = [] then True
      else if utf8_head bs = 0 then False else utf8_valid (drop (utf8_head bs) bs))"
  by pat_completeness auto
termination
  by (relation "measure length") auto

declare utf8_valid.simps [simp del]

definition is_utf8 :: "string \<Rightarrow> bool" where
  "is_utf8 s = utf8_valid (map of_char s)"

text \<open>ASCII text is UTF-8.\<close>

lemma ascii_is_utf8:
  assumes "\<And>c. c \<in> set s \<Longrightarrow> of_char c < (128::nat)"
  shows "is_utf8 s"
  using assms
proof (induction s)
  case (Cons c s)
  have "utf8_head (map of_char (c # s)) = 1" using Cons.prems [of c] by (simp add: utf8_head_def byte_in_def)
  with Cons show ?case by (simp add: is_utf8_def utf8_valid.simps [of "map of_char (c # s)"] utf8_valid.simps [of "_ # _"])
qed (simp add: is_utf8_def utf8_valid.simps)


section \<open>Strings\<close>

text \<open>\<open>str::lines\<close>: what each line feed ends, less one carriage return before it.\<close>

definition strip_cr :: "string \<Rightarrow> string" where
  "strip_cr l = (if l \<noteq> [] \<and> last l = CHR 0x0D then butlast l else l)"

function str_lines :: "string \<Rightarrow> string list" where
  "str_lines s =
     (case split_once CHR 0x0A s of
        Some (l, rest) \<Rightarrow> strip_cr l # str_lines rest
      | None \<Rightarrow> if s = [] then [] else [s])"
  by pat_completeness auto
termination
  by (relation "measure length") (auto dest!: sym [where s = "split_once _ _"] split_once_Some)

declare str_lines.simps [simp del]

text \<open>\<open>str::to_ascii_lowercase\<close>.\<close>

definition lower_char :: "char \<Rightarrow> char" where
  "lower_char c = (if CHR ''A'' \<le> c \<and> c \<le> CHR ''Z'' then char_of (of_char c + (32::nat)) else c)"

definition to_ascii_lowercase :: "string \<Rightarrow> string" where
  "to_ascii_lowercase = map lower_char"

definition ends_with_char :: "string \<Rightarrow> char \<Rightarrow> bool" where
  "ends_with_char s c \<longleftrightarrow> s \<noteq> [] \<and> last s = c"

text \<open>Trimming leaves text without white space at its ends as it is.\<close>

lemma leading_none:
  assumes "\<And>w. w \<in> set ws \<Longrightarrow> w \<noteq> [] \<Longrightarrow> hd w \<noteq> c"
  shows "leading ws (c # s) = 0"
proof -
  have "w = [] \<or> \<not> starts_with (c # s) w" if "w \<in> set ws" for w
    using assms [OF that] by (cases w) (auto simp: starts_with_def)
  then show ?thesis by (induction ws) auto
qed

lemma trim_ascii:
  assumes "\<And>c. c \<in> set s \<Longrightarrow> CHR ''!'' \<le> c \<and> c \<le> CHR ''~''"
  shows "trim s = s"
proof -
  have heads: "hd w < CHR ''!'' \<or> CHR ''~'' < hd w" "hd (rev w) < CHR ''!'' \<or> CHR ''~'' < hd (rev w)"
    if "w \<in> set whitespace" for w
    using that by (auto simp: whitespace_def less_char_def)
  have strip: "strip_all ws t = t"
    if "\<And>w. w \<in> set ws \<Longrightarrow> hd w < CHR ''!'' \<or> CHR ''~'' < hd w" "set t \<subseteq> set s" for ws t
  proof (cases t)
    case (Cons c r)
    with that(2) have c: "CHR ''!'' \<le> c \<and> c \<le> CHR ''~''" by (intro assms) auto
    have "hd w \<noteq> c" if "w \<in> set ws" for w using \<open>\<And>w. w \<in> set ws \<Longrightarrow> _\<close> [OF that] c by auto
    then have "leading ws t = 0" unfolding Cons by (intro leading_none)
    then show ?thesis by (simp add: strip_all.simps [of ws t])
  next
    case Nil
    moreover have "leading us [] = 0" for us by (induction us) (auto simp: starts_with_def)
    ultimately show ?thesis by (simp add: strip_all.simps [of ws "[]"])
  qed
  have "strip_all whitespace s = s" using heads by (intro strip) auto
  moreover have "strip_all (map rev whitespace) (rev s) = rev s" using heads by (intro strip) auto
  ultimately show ?thesis by (simp add: trim_def)
qed


section \<open>The environment\<close>

text \<open>
  The variables of the process as the system holds them; \<open>std::env::var\<close> sees the ones that are
  UTF-8 (the \<open>environ\<close> that the rest of the code reads), \<open>std::env::var_os\<close> sees them all.
\<close>

type_synonym os_environ = "string \<Rightarrow> string option"

definition env_vars :: "os_environ \<Rightarrow> environ" where
  "env_vars e key = (case e key of Some v \<Rightarrow> if is_utf8 v then Some v else None | None \<Rightarrow> None)"

text \<open>A variable that is set to something.\<close>

definition env_nonempty :: "environ \<Rightarrow> string \<Rightarrow> string option" where
  "env_nonempty env key = (case env key of Some v \<Rightarrow> if v = [] then None else Some v | None \<Rightarrow> None)"


section \<open>Files\<close>

type_synonym path = string
type_synonym disk = "path \<Rightarrow> string option"

text \<open>\<open>Path::join\<close> with a relative name.\<close>

definition path_join :: "path \<Rightarrow> string \<Rightarrow> path" where
  "path_join dir name =
     (if dir = [] \<or> last dir = CHR ''/'' then dir @ name else dir @ ''/'' @ name)"

lemma path_join_inj [simp]: "path_join dir a = path_join dir b \<longleftrightarrow> a = b"
  by (simp add: path_join_def)

text \<open>\<open>fs::read\<close> and \<open>fs::read_to_string\<close>; the first argument says whether the system's calls succeed.\<close>

definition fs_read :: "bool \<Rightarrow> disk \<Rightarrow> path \<Rightarrow> string option" where
  "fs_read ok d p = (if ok then d p else None)"

definition fs_read_to_string :: "bool \<Rightarrow> disk \<Rightarrow> path \<Rightarrow> string option" where
  "fs_read_to_string ok d p =
     (case fs_read ok d p of Some s \<Rightarrow> if is_utf8 s then Some s else None | None \<Rightarrow> None)"

text \<open>The outcome of writing a file: opened, how much of it written, all of it, synced.\<close>

record write_io =
  open_ok :: bool
  written :: nat
  write_all_ok :: bool
  sync_ok :: bool

definition fill_file :: "write_io \<Rightarrow> path \<Rightarrow> string \<Rightarrow> disk \<Rightarrow> disk \<times> bool" where
  "fill_file io p raw d =
     (if \<not> write_all_ok io then (d(p \<mapsto> take (written io) raw), False)
      else (d(p \<mapsto> raw), sync_ok io))"

text \<open>With \<open>create(true).truncate(true)\<close>, and with \<open>create_new(true)\<close>.\<close>

definition write_truncate :: "write_io \<Rightarrow> path \<Rightarrow> string \<Rightarrow> disk \<Rightarrow> disk \<times> bool" where
  "write_truncate io p raw d = (if \<not> open_ok io then (d, False) else fill_file io p raw d)"

definition write_new :: "write_io \<Rightarrow> path \<Rightarrow> string \<Rightarrow> disk \<Rightarrow> disk \<times> bool" where
  "write_new io p raw d = (if \<not> open_ok io \<or> d p \<noteq> None then (d, False) else fill_file io p raw d)"

definition fs_rename :: "path \<Rightarrow> path \<Rightarrow> disk \<Rightarrow> disk" where
  "fs_rename a b d = d(b := d a, a := None)"

text \<open>Every outcome of filling a file leaves a prefix of the contents there and nothing else changed.\<close>

lemma fill_file_result:
  "fill_file io p raw d = (d', ok) \<Longrightarrow> \<exists>n. d' = d(p \<mapsto> take n raw) \<and> (ok \<longrightarrow> length raw \<le> n)"
  unfolding fill_file_def
  by (cases "write_all_ok io") (auto intro: exI [of _ "length raw"])

lemma write_result:
  assumes "write_truncate io p raw d = (d', ok) \<or> write_new io p raw d = (d', ok)"
  shows "d' = d \<and> \<not> ok \<or> (\<exists>n. d' = d(p \<mapsto> take n raw) \<and> (ok \<longrightarrow> length raw \<le> n))"
  using assms fill_file_result [of io p raw d d' ok]
  by (auto simp: write_truncate_def write_new_def split: if_splits)

definition write_fine :: write_io where
  "write_fine = \<lparr>open_ok = True, written = 0, write_all_ok = True, sync_ok = True\<rparr>"

lemma write_fine_simps [simp]:
  "write_truncate write_fine p raw d = (d(p \<mapsto> raw), True)"
  "d p = None \<Longrightarrow> write_new write_fine p raw d = (d(p \<mapsto> raw), True)"
  by (simp_all add: write_truncate_def write_new_def fill_file_def write_fine_def)

end
