(* ===== verification/Persistence.thy ===== *)
theory Persistence
  imports MetaStore HostEnv
begin

text \<open>
  The on-disk identity of the relay, \<open>src/persistence.rs\<close>: the snapshot \<open>relay-state.json\<close>, the
  encryption of the private keys in it, and the secret they are encrypted under.

  Argon2id, ChaCha20-Poly1305, hex, serde\_json, uuid and libsignal's keys are parameters
  (\<open>vault_ops\<close>); what is drawn from the system's random source is an argument, \<open>None\<close> when the
  draw fails, and a generator seeded with it is deterministic. Operations return the file system
  with the result.
\<close>


section \<open>Data\<close>

record disk_crypto =
  trust_root_public :: bytes
  trust_root_private :: bytes
  server_signing_public :: bytes
  server_signing_private :: bytes

record encrypted_crypto_blob =
  salt :: string
  nonce :: string
  blob_ciphertext :: string

record disk_state =
  crypto :: "disk_crypto option"
  encrypted_crypto :: "encrypted_crypto_blob option"
  disk_auth :: "(recipient_id \<times> mailbox_auth) list"
  disk_queues :: "(recipient_id \<times> stored_envelope list) list"
  disk_bundles :: "hosted_bundle list"

definition disk_default :: disk_state where
  "disk_default =
     \<lparr>crypto = None, encrypted_crypto = None, disk_auth = [], disk_queues = [], disk_bundles = []\<rparr>"

text \<open>A key pair of libsignal, by the serialized forms of its halves.\<close>

record keypair =
  public_key :: bytes
  private_key :: bytes

record server_crypto =
  sc_trust_root_b64 :: string
  sc_certificate :: bytes
  sc_signing_private :: bytes

datatype persist_error =
    IoError | JsonError | HexError | RandomError | Argon2Error | CipherError | NonceLength
  | KeyFileUnreadable path | KeyFileEmpty path | Undecryptable persist_error
  | BadKeyPair | CertificateError | StoreError | Panic

type_synonym 'a result = "persist_error + 'a"

record vault_ops =
  v_hex :: "bytes \<Rightarrow> string"
  v_unhex :: "string \<Rightarrow> bytes option"
  v_argon2 :: "bytes \<Rightarrow> bytes \<Rightarrow> bytes option"
  v_seal :: "bytes \<Rightarrow> bytes \<Rightarrow> bytes \<Rightarrow> bytes option"
  v_open :: "bytes \<Rightarrow> bytes \<Rightarrow> bytes \<Rightarrow> bytes option"
  v_keys :: "(disk_crypto, bytes) codec"
  v_state :: "(disk_state, string) codec"
  v_uuid :: uuid_ops
  v_pair :: "bytes \<Rightarrow> bytes \<Rightarrow> keypair option"
  v_generate :: "bytes \<Rightarrow> nat \<Rightarrow> keypair"
  v_certify :: "bytes \<Rightarrow> nat \<Rightarrow> bytes \<Rightarrow> bytes \<Rightarrow> bytes option"
  v_b64 :: "bytes \<Rightarrow> string"


section \<open>The server's keys\<close>

text \<open>
  \<open>init_server_crypto\<close>: the saved pairs, or two pairs generated from the fresh seed; the
  certificate is signed with what the generator gives next.
\<close>

definition init_server_crypto ::
    "vault_ops \<Rightarrow> bytes option \<Rightarrow> disk_state \<Rightarrow> (disk_state \<times> server_crypto) result" where
  "init_server_crypto V rng disk =
     (case rng of
        None \<Rightarrow> Inl RandomError
      | Some seed \<Rightarrow>
          (case (case crypto disk of
                   Some saved \<Rightarrow>
                     (case v_pair V (trust_root_public saved) (trust_root_private saved) of
                        None \<Rightarrow> Inl BadKeyPair
                      | Some trust_root \<Rightarrow>
                          (case v_pair V (server_signing_public saved) (server_signing_private saved) of
                             None \<Rightarrow> Inl BadKeyPair
                           | Some server_signing \<Rightarrow> Inr (disk, 0, trust_root, server_signing)))
                 | None \<Rightarrow>
                     (let trust_root = v_generate V seed 0; server_signing = v_generate V seed 1
                      in Inr (disk\<lparr>crypto := Some
                           \<lparr>trust_root_public = public_key trust_root,
                            trust_root_private = private_key trust_root,
                            server_signing_public = public_key server_signing,
                            server_signing_private = private_key server_signing\<rparr>\<rparr>,
                          2, trust_root, server_signing))) of
             Inl e \<Rightarrow> Inl e
           | Inr (disk, drawn, trust_root, server_signing) \<Rightarrow>
               (case v_certify V seed drawn (public_key server_signing) (private_key trust_root) of
                  None \<Rightarrow> Inl CertificateError
                | Some cert \<Rightarrow>
                    Inr (disk, \<lparr>sc_trust_root_b64 = v_b64 V (public_key trust_root),
                                sc_certificate = cert,
                                sc_signing_private = private_key server_signing\<rparr>))))"


section \<open>Encryption at rest\<close>

definition derive_key_from_env :: "vault_ops \<Rightarrow> string \<Rightarrow> bytes \<Rightarrow> bytes result" where
  "derive_key_from_env V env_key slt =
     (case v_argon2 V (as_bytes env_key) slt of Some key \<Rightarrow> Inr key | None \<Rightarrow> Inl Argon2Error)"

text \<open>The salt and the nonce drawn for one encryption.\<close>

record blob_in =
  in_salt :: "bytes option"
  in_nonce :: "bytes option"

definition encrypt_disk_crypto ::
    "vault_ops \<Rightarrow> blob_in \<Rightarrow> disk_crypto \<Rightarrow> string \<Rightarrow> encrypted_crypto_blob result" where
  "encrypt_disk_crypto V r keys env_key =
     (case in_salt r of
        None \<Rightarrow> Inl RandomError
      | Some slt \<Rightarrow>
          (case derive_key_from_env V env_key slt of
             Inl e \<Rightarrow> Inl e
           | Inr key \<Rightarrow>
               (case in_nonce r of
                  None \<Rightarrow> Inl RandomError
                | Some nonce_bytes \<Rightarrow>
                    (case v_seal V key nonce_bytes (enc (v_keys V) keys) of
                       None \<Rightarrow> Inl CipherError
                     | Some ctext \<Rightarrow>
                         Inr \<lparr>salt = v_hex V slt, nonce = v_hex V nonce_bytes,
                              blob_ciphertext = v_hex V ctext\<rparr>))))"

definition decrypt_disk_crypto ::
    "vault_ops \<Rightarrow> encrypted_crypto_blob \<Rightarrow> string \<Rightarrow> disk_crypto result" where
  "decrypt_disk_crypto V blob env_key =
     (case v_unhex V (salt blob) of
        None \<Rightarrow> Inl HexError
      | Some slt \<Rightarrow>
          (case derive_key_from_env V env_key slt of
             Inl e \<Rightarrow> Inl e
           | Inr key \<Rightarrow>
               (case v_unhex V (nonce blob) of
                  None \<Rightarrow> Inl HexError
                | Some nonce_bytes \<Rightarrow>
                    if length nonce_bytes \<noteq> 12 then Inl NonceLength
                    else
                      (case v_unhex V (blob_ciphertext blob) of
                         None \<Rightarrow> Inl HexError
                       | Some ctext \<Rightarrow>
                           (case v_open V key nonce_bytes ctext of
                              None \<Rightarrow> Inl CipherError
                            | Some plaintext \<Rightarrow>
                                (case dec (v_keys V) plaintext of
                                   Some keys \<Rightarrow> Inr keys | None \<Rightarrow> Inl JsonError))))))"

text \<open>
  What resolving the secret meets: which files can be read, the random bytes and how writing
  the key file goes.
\<close>

record key_in =
  key_readable :: "path \<Rightarrow> bool"
  key_random :: "bytes option"
  key_write :: write_io

definition relay_encryption_key ::
    "vault_ops \<Rightarrow> environ \<Rightarrow> key_in \<Rightarrow> path \<Rightarrow> disk \<Rightarrow> disk \<times> string result" where
  "relay_encryption_key V env r data_dir d =
     (case env_nonempty env ''AXENO_KEY'' of
        Some k \<Rightarrow> (d, Inr k)
      | None \<Rightarrow>
          (case env_nonempty env ''AXENO_KEY_FILE'' of
             Some p \<Rightarrow>
               (case fs_read_to_string (key_readable r p) d p of
                  None \<Rightarrow> (d, Inl (KeyFileUnreadable p))
                | Some contents \<Rightarrow>
                    (let secret = trim contents
                     in if secret = [] then (d, Inl (KeyFileEmpty p)) else (d, Inr secret)))
           | None \<Rightarrow>
               (let key_path = path_join data_dir ''relay-key'';
                    existing = (case fs_read_to_string (key_readable r key_path) d key_path of
                                  Some contents \<Rightarrow> trim contents | None \<Rightarrow> [])
                in if existing \<noteq> [] then (d, Inr existing)
                   else
                     (case key_random r of
                        None \<Rightarrow> (d, Inl RandomError)
                      | Some raw \<Rightarrow>
                          (let secret = v_hex V raw
                           in case write_truncate (key_write r) key_path secret d of
                                (d, False) \<Rightarrow> (d, Inl IoError)
                              | (d, True) \<Rightarrow> (d, Inr secret))))))"


section \<open>The snapshot\<close>

definition disk_state_path :: "path \<Rightarrow> path" where
  "disk_state_path data_dir = path_join data_dir ''relay-state.json''"

record load_in =
  state_stat :: bool
  state_readable :: bool
  load_key :: key_in

definition load_disk_state ::
    "vault_ops \<Rightarrow> environ \<Rightarrow> load_in \<Rightarrow> path \<Rightarrow> disk \<Rightarrow> disk \<times> disk_state result" where
  "load_disk_state V env r data_dir d =
     (let p = disk_state_path data_dir
      in if \<not> (state_stat r \<and> d p \<noteq> None) then (d, Inr disk_default)
         else
           (case fs_read (state_readable r) d p of
              None \<Rightarrow> (d, Inl IoError)
            | Some raw \<Rightarrow>
                (case dec (v_state V) raw of
                   None \<Rightarrow> (d, Inl JsonError)
                 | Some st \<Rightarrow>
                     (case encrypted_crypto st of
                        None \<Rightarrow> (d, Inr st)
                      | Some blob \<Rightarrow>
                          (case relay_encryption_key V env (load_key r) data_dir d of
                             (d, Inl e) \<Rightarrow> (d, Inl e)
                           | (d, Inr env_key) \<Rightarrow>
                               (case decrypt_disk_crypto V blob env_key of
                                  Inl e \<Rightarrow> (d, Inl (Undecryptable e))
                                | Inr keys \<Rightarrow> (d, Inr (st\<lparr>crypto := Some keys\<rparr>))))))))"

record save_in =
  save_uuid :: uuid
  save_write :: write_io
  rename_ok :: bool
  remove_ok :: bool

definition tmp_path :: "vault_ops \<Rightarrow> save_in \<Rightarrow> path \<Rightarrow> path" where
  "tmp_path V r data_dir =
     path_join data_dir (''relay-state.json.'' @ show_uuid (v_uuid V) (save_uuid r) @ ''.tmp'')"

definition save_disk_state ::
    "vault_ops \<Rightarrow> save_in \<Rightarrow> path \<Rightarrow> disk_state \<Rightarrow> disk \<Rightarrow> disk \<times> unit result" where
  "save_disk_state V r data_dir st d =
     (let p = disk_state_path data_dir; tmp = tmp_path V r data_dir; raw = enc (v_state V) st
      in case write_new (save_write r) tmp raw d of
           (d, False) \<Rightarrow> (d, Inl IoError)
         | (d, True) \<Rightarrow>
             if \<not> rename_ok r then (if remove_ok r then d(tmp := None) else d, Inl IoError)
             else (fs_rename tmp p d, Inr ()))"

definition prune_auth :: "mailbox_auth \<Rightarrow> mailbox_auth" where
  "prune_auth auth =
     (if delivery_token_hashes auth = [] \<and> delivery_token_hash auth \<noteq> []
      then auth\<lparr>delivery_token_hashes := delivery_token_hashes auth @ [delivery_token_hash auth]\<rparr>
      else auth)"

definition prune_disk_state :: "u64 \<Rightarrow> disk_state \<Rightarrow> disk_state" where
  "prune_disk_state now disk =
     disk\<lparr>disk_bundles := filter (\<lambda>b. b_expires_at_ms b > now) (disk_bundles disk),
          disk_auth := map (\<lambda>(k, auth). (k, prune_auth auth)) (disk_auth disk)\<rparr>"

record persist_in =
  persist_key :: key_in
  persist_blob :: blob_in
  persist_save :: save_in

text \<open>The snapshot that is written: the encrypted keys and nothing else.\<close>

definition sealed_state :: "encrypted_crypto_blob \<Rightarrow> disk_state" where
  "sealed_state blob =
     \<lparr>crypto = None, encrypted_crypto = Some blob, disk_auth = [], disk_queues = [], disk_bundles = []\<rparr>"

definition persist_crypto ::
    "vault_ops \<Rightarrow> environ \<Rightarrow> persist_in \<Rightarrow> path \<Rightarrow> disk_crypto \<Rightarrow> disk \<Rightarrow> disk \<times> unit result" where
  "persist_crypto V env r data_dir keys d =
     (case relay_encryption_key V env (persist_key r) data_dir d of
        (d, Inl e) \<Rightarrow> (d, Inl e)
      | (d, Inr env_key) \<Rightarrow>
          (case encrypt_disk_crypto V (persist_blob r) keys env_key of
             Inl e \<Rightarrow> (d, Inl e)
           | Inr blob \<Rightarrow> save_disk_state V (persist_save r) data_dir (sealed_state blob) d))"

end
