(* ===== verification/Startup.thy ===== *)
theory Startup
  imports State Persistence
begin

text \<open>
  The start of the process, \<open>src/main.rs\<close>: the \<open>.env\<close> file, and the path from the data directory
  to a served state, with the migration of a snapshot of earlier releases into the stores. The
  redb database is the record of its tables; every operation of the start that can fail takes
  its outcome, and an error ends the process with the files and tables as they are then.
\<close>


section \<open>The environment file\<close>

definition unquote :: "string \<Rightarrow> string" where
  "unquote value =
     (if length value \<ge> 2
         \<and> (starts_with value [CHR 0x22] \<and> ends_with_char value CHR 0x22
            \<or> starts_with value [CHR 0x27] \<and> ends_with_char value CHR 0x27)
      then take (length value - 2) (drop 1 value) else value)"

text \<open>One line: the variable and the value it gives.\<close>

definition dotenv_line :: "string \<Rightarrow> (string \<times> string) option" where
  "dotenv_line raw =
     (let line = trim raw
      in if line = [] \<or> starts_with line ''#'' then None
         else
           (let line = (case strip_prefix line ''export '' of Some l \<Rightarrow> l | None \<Rightarrow> line)
            in case split_once CHR ''='' line of
                 None \<Rightarrow> None
               | Some (key, value) \<Rightarrow>
                   (let key = trim key
                    in if key = [] then None else Some (key, unquote (trim value)))))"

text \<open>
  \<open>std::env::var_os\<close> does not find a name with a NUL byte; \<open>std::env::set_var\<close> panics (\<open>None\<close>)
  on an empty name, a name with \<open>=\<close>, or a NUL byte.
\<close>

definition var_os :: "os_environ \<Rightarrow> string \<Rightarrow> string option" where
  "var_os env key = (if CHR 0x00 \<in> set key then None else env key)"

definition set_var :: "string \<Rightarrow> string \<Rightarrow> os_environ \<Rightarrow> os_environ option" where
  "set_var key value env =
     (if key = [] \<or> CHR ''='' \<in> set key \<or> CHR 0x00 \<in> set key \<or> CHR 0x00 \<in> set value then None
      else Some (env(key \<mapsto> value)))"

fun dotenv_lines :: "string list \<Rightarrow> os_environ \<Rightarrow> os_environ option" where
  "dotenv_lines [] env = Some env"
| "dotenv_lines (l # ls) env =
     (case dotenv_line l of
        None \<Rightarrow> dotenv_lines ls env
      | Some (key, value) \<Rightarrow>
          if var_os env key = None
          then (case set_var key value env of None \<Rightarrow> None | Some env \<Rightarrow> dotenv_lines ls env)
          else dotenv_lines ls env)"

definition load_dotenv :: "bool \<Rightarrow> disk \<Rightarrow> os_environ \<Rightarrow> os_environ option" where
  "load_dotenv readable d env =
     (case fs_read_to_string readable d ''.env'' of
        None \<Rightarrow> Some env
      | Some contents \<Rightarrow> dotenv_lines (str_lines contents) env)"

definition data_dir_of :: "environ \<Rightarrow> path" where
  "data_dir_of env = (case env ''AXENO_DATA_DIR'' of Some v \<Rightarrow> v | None \<Rightarrow> ''axeno-relay-data'')"


section \<open>Migration\<close>

record ('t, 'c) database =
  db_envelopes :: 't
  db_auth :: 't
  db_bundles :: 't
  db_files :: 't
  db_chunks :: 'c

text \<open>
  The offline queues of the snapshot, envelope by envelope: the result of each enqueue is
  dropped (\<open>let _ =\<close>). The outcome and the clock of the call are by its position.
\<close>

definition legacy_envelopes :: "disk_state \<Rightarrow> (recipient_id \<times> stored_envelope) list" where
  "legacy_envelopes disk = concat (map (\<lambda>(rid, envs). map (Pair rid) envs) (disk_queues disk))"

definition migrate_queues ::
    "('t, 'b) queue_env \<Rightarrow> (nat \<Rightarrow> io) \<Rightarrow> (nat \<Rightarrow> u64) \<Rightarrow> disk_state \<Rightarrow> 't queue_store \<Rightarrow> 't queue_store" where
  "migrate_queues Q io now disk q =
     (let legacy_queued = sum_list (map (\<lambda>(_, v). length v) (disk_queues disk))
      in if legacy_queued > 0
         then fold (\<lambda>(i, rid, env) q. fst (enqueue Q (io i) (now i) rid env q))
                (enumerate 0 (legacy_envelopes disk)) q
         else q)"

text \<open>The records and the bundles: only into an empty table, in one batch.\<close>

definition migrate_items ::
    "('t, 'b) table_ops \<Rightarrow> ('v, 'b) codec \<Rightarrow> io \<Rightarrow> (string \<times> 'v) list \<Rightarrow> 't \<Rightarrow> 't \<times> unit option" where
  "migrate_items T C io items tbl =
     (case table_is_empty T io tbl of
        None \<Rightarrow> (tbl, None)
      | Some none_yet \<Rightarrow>
          if none_yet \<and> items \<noteq> []
          then flush_items T C io (map (\<lambda>(k, v). (k, Some v)) items) tbl
          else (tbl, Some ()))"


section \<open>The start\<close>

record start_in =
  st_dir_ok :: bool
  st_load :: load_in
  st_rng :: "bytes option"
  st_prune_now :: u64
  st_db_ok :: bool
  st_queue_io :: io
  st_meta_ok :: bool
  st_file_io :: io
  st_enqueue_io :: "nat \<Rightarrow> io"
  st_enqueue_now :: "nat \<Rightarrow> u64"
  st_auth_io :: io
  st_bundle_io :: io
  st_persist :: persist_in
  st_load_auth :: io
  st_load_bundles :: io
  st_build_now :: u64

text \<open>The stores on the database's tables.\<close>

definition open_stores ::
    "('t, 'b, 'c) app_env \<Rightarrow> start_in \<Rightarrow> file_config \<Rightarrow> ('t, 'c) database
     \<Rightarrow> ('t queue_store \<times> ('t, 'c) file_store) option" where
  "open_stores E r cfg db =
     (if \<not> st_db_ok r then None
      else
        (case queue_new (a_queue E) (st_queue_io r) (db_envelopes db) of
           None \<Rightarrow> None
         | Some q \<Rightarrow>
             if \<not> st_meta_ok r then None
             else
               (case file_new (a_files E) (st_file_io r) (db_files db) (db_chunks db) cfg of
                  None \<Rightarrow> None | Some f \<Rightarrow> Some (q, f))))"

text \<open>The three migrations; an error of the last two ends the start.\<close>

definition migrate ::
    "('t, 'b, 'c) app_env \<Rightarrow> start_in \<Rightarrow> disk_state \<Rightarrow> 't queue_store \<Rightarrow> ('t, 'c) database
     \<Rightarrow> 't queue_store \<times> ('t, 'c) database \<times> unit option" where
  "migrate E r disk q db =
     (let q = migrate_queues (a_queue E) (st_enqueue_io r) (st_enqueue_now r) disk q;
          db = db\<lparr>db_envelopes := envelopes q\<rparr>
      in case migrate_items (a_auth E) (a_auth_codec E) (st_auth_io r) (disk_auth disk) (db_auth db) of
           (_, None) \<Rightarrow> (q, db, None)
         | (at, Some _) \<Rightarrow>
             (let db = db\<lparr>db_auth := at\<rparr>
              in case migrate_items (a_bundles E) (a_bundle_codec E) (st_bundle_io r)
                        (map (\<lambda>b. (b_id b, b)) (disk_bundles disk)) (db_bundles db) of
                   (_, None) \<Rightarrow> (q, db, None)
                 | (bt, Some _) \<Rightarrow> (q, db\<lparr>db_bundles := bt\<rparr>, Some ())))"

definition startup ::
    "('t, 'b, 'c) app_env \<Rightarrow> vault_ops \<Rightarrow> environ \<Rightarrow> start_in \<Rightarrow> path \<Rightarrow> disk \<Rightarrow> ('t, 'c) database
     \<Rightarrow> disk \<times> ('t, 'c) database \<times> ('t, 'c) app_state result" where
  "startup E V env r data_dir d db =
     (if \<not> st_dir_ok r then (d, db, Inl IoError)
      else
        (case load_disk_state V env (st_load r) data_dir d of
           (d, Inl e) \<Rightarrow> (d, db, Inl e)
         | (d, Inr disk) \<Rightarrow>
             (case init_server_crypto V (st_rng r) disk of
                Inl e \<Rightarrow> (d, db, Inl e)
              | Inr (disk, server) \<Rightarrow>
                  (let disk = prune_disk_state (st_prune_now r) disk;
                       cfg = from_env env
                   in case open_stores E r cfg db of
                        None \<Rightarrow> (d, db, Inl StoreError)
                      | Some (q, f) \<Rightarrow>
                          (case migrate E r disk q db of
                             (_, db, None) \<Rightarrow> (d, db, Inl StoreError)
                           | (q, db, Some _) \<Rightarrow>
                               (case crypto disk of
                                  None \<Rightarrow> (d, db, Inl Panic)
                                | Some keys \<Rightarrow>
                                    (case persist_crypto V env (st_persist r) data_dir keys d of
                                       (d, Inl e) \<Rightarrow> (d, db, Inl e)
                                     | (d, Inr _) \<Rightarrow>
                                         (case build E (st_load_auth r) (st_load_bundles r)
                                                 (st_build_now r) (db_auth db) (db_bundles db) q f cfg
                                                 (sc_trust_root_b64 server) of
                                            None \<Rightarrow> (d, db, Inl StoreError)
                                          | Some s \<Rightarrow> (d, db, Inr s)))))))))"

end
