(* ===== verification/PersistProofs.thy ===== *)
theory PersistProofs
  imports Persistence
begin

text \<open>
  The laws of the third-party operations the identity rests on (locale \<open>vault\<close>), and what follows
  from them: decryption inverts encryption, the secret that was resolved once is resolved again,
  and saving replaces the snapshot in one step or not at all.
\<close>

locale vault = keys: serde_codec "v_keys V" for V :: vault_ops +
  assumes state_dec_enc: "dec (v_state V) (enc (v_state V) (sealed_state blob)) = Some (sealed_state blob)"
    and unhex_hex: "v_unhex V (v_hex V b) = Some b"
    and hex_digits: "c \<in> set (v_hex V b) \<Longrightarrow> c \<in> set ''0123456789abcdef''"
    and hex_length: "length (v_hex V b) = 2 * length b"
    and open_seal: "v_seal V k n p = Some x \<Longrightarrow> v_open V k n x = Some p"
    and pair_generate: "v_pair V (public_key (v_generate V seed i)) (private_key (v_generate V seed i))
      = Some (v_generate V seed i)"


section \<open>The secret\<close>

text \<open>Where the secret comes from when every file can be read, without drawing a new one.\<close>

definition trimmed_file :: "disk \<Rightarrow> path \<Rightarrow> string option" where
  "trimmed_file d p =
     (case fs_read_to_string True d p of
        Some contents \<Rightarrow> if trim contents = [] then None else Some (trim contents)
      | None \<Rightarrow> None)"

definition key_file :: "environ \<Rightarrow> path \<Rightarrow> path" where
  "key_file env data_dir =
     (case env_nonempty env ''AXENO_KEY_FILE'' of Some p \<Rightarrow> p | None \<Rightarrow> path_join data_dir ''relay-key'')"

definition secret_at :: "environ \<Rightarrow> path \<Rightarrow> disk \<Rightarrow> string option" where
  "secret_at env data_dir d =
     (case env_nonempty env ''AXENO_KEY'' of
        Some k \<Rightarrow> Some k | None \<Rightarrow> trimmed_file d (key_file env data_dir))"

lemma secret_frame:
  "d' (key_file env data_dir) = d (key_file env data_dir) \<Longrightarrow> secret_at env data_dir d' = secret_at env data_dir d"
  by (auto simp: secret_at_def trimmed_file_def fs_read_to_string_def fs_read_def split: option.splits)

text \<open>A secret that is there is found, and nothing is written.\<close>

lemma key_found:
  assumes "secret_at env data_dir d = Some s" "key_readable r (key_file env data_dir)"
  shows "relay_encryption_key V env r data_dir d = (d, Inr s)"
  using assms
  by (auto simp: relay_encryption_key_def secret_at_def key_file_def trimmed_file_def fs_read_to_string_def Let_def
      split: option.splits if_splits)

text \<open>Only the key file of the data directory is ever written.\<close>

lemma key_frame:
  assumes "relay_encryption_key V env r data_dir d = (d', res)" "p \<noteq> path_join data_dir ''relay-key''"
  shows "d' p = d p"
proof -
  have "d'' p = d p" if "write_truncate io (path_join data_dir ''relay-key'') raw d = (d'', ok)" for io raw d'' ok
    using write_result [OF disjI1 [OF that]] assms(2) by auto
  with assms show ?thesis
    by (auto simp: relay_encryption_key_def Let_def split: option.splits if_splits prod.splits bool.splits)
qed

context vault
begin

lemma hex_plain: "trim (v_hex V b) = v_hex V b" "is_utf8 (v_hex V b)"
proof -
  have r: "CHR ''0'' \<le> c \<and> c \<le> CHR ''f''" if "c \<in> set (v_hex V b)" for c
    using hex_digits [OF that] by (auto simp: less_eq_char_def)
  show "trim (v_hex V b) = v_hex V b"
    by (rule trim_ascii) (use r in \<open>fastforce simp: less_eq_char_def\<close>)
  show "is_utf8 (v_hex V b)"
    by (rule ascii_is_utf8) (use r in \<open>fastforce simp: less_eq_char_def\<close>)
qed

text \<open>The secret that is returned is the one every later start finds.\<close>

lemma key_lasts:
  assumes "relay_encryption_key V env r data_dir d = (d', Inr s)" "key_random r \<noteq> Some []"
  shows "secret_at env data_dir d' = Some s"
proof (cases "env_nonempty env ''AXENO_KEY'' = None \<and> env_nonempty env ''AXENO_KEY_FILE'' = None")
  case False
  with assms show ?thesis
    by (auto simp: relay_encryption_key_def secret_at_def key_file_def trimmed_file_def fs_read_to_string_def
        fs_read_def Let_def split: option.splits if_splits)
next
  case True
  define p where "p = path_join data_dir ''relay-key''"
  have p: "key_file env data_dir = p" using True by (simp add: key_file_def p_def)
  define ex where "ex = (case fs_read_to_string (key_readable r p) d p of Some c \<Rightarrow> trim c | None \<Rightarrow> [])"
  show ?thesis
  proof (cases "ex = []")
    case False
    then have "d' = d" "s = ex" using assms(1) True
      by (auto simp: relay_encryption_key_def p_def ex_def Let_def)
    moreover have "trimmed_file d p = Some ex" using False
      by (auto simp: ex_def trimmed_file_def fs_read_to_string_def fs_read_def split: option.splits if_splits)
    ultimately show ?thesis using True p by (simp add: secret_at_def)
  next
    case none: True
    then obtain raw d1 where raw: "key_random r = Some raw"
      and w: "write_truncate (key_write r) p (v_hex V raw) d = (d1, True)" "d' = d1" "s = v_hex V raw"
      using assms(1) True
      by (auto simp: relay_encryption_key_def p_def [symmetric] ex_def Let_def
          split: option.splits if_splits prod.splits bool.splits)
    have "d' p = Some s" using write_result [OF disjI1 [OF w(1)]] w(2,3) by auto
    moreover have "s \<noteq> []" using hex_length [of raw] raw assms(2) w(3) by auto
    ultimately show ?thesis using True p hex_plain [of raw] w(3)
      by (simp add: secret_at_def trimmed_file_def fs_read_to_string_def fs_read_def)
  qed
qed


section \<open>Encryption\<close>

lemma decrypt_encrypt:
  assumes "encrypt_disk_crypto V r keys s = Inr blob" "\<And>n. in_nonce r = Some n \<Longrightarrow> length n = 12"
  shows "decrypt_disk_crypto V blob s = Inr keys"
proof -
  obtain slt k n c where "in_salt r = Some slt" "derive_key_from_env V s slt = Inr k" "in_nonce r = Some n"
    "v_seal V k n (enc (v_keys V) keys) = Some c"
    and "blob = \<lparr>salt = v_hex V slt, nonce = v_hex V n, blob_ciphertext = v_hex V c\<rparr>"
    using assms(1) by (auto simp: encrypt_disk_crypto_def split: option.splits sum.splits)
  with assms(2) show ?thesis
    by (simp add: decrypt_disk_crypto_def unhex_hex open_seal keys.dec_enc)
qed

end


section \<open>Saving\<close>

lemma tmp_path_apart: "tmp_path V r data_dir \<noteq> disk_state_path data_dir"
  "tmp_path V r data_dir \<noteq> path_join data_dir ''relay-key''"
  "disk_state_path data_dir \<noteq> path_join data_dir ''relay-key''"
  by (simp_all add: tmp_path_def disk_state_path_def)

text \<open>
  Every outcome of a save: the snapshot is the old one or, when it succeeds, the new one; the
  temporary file is gone, untouched, or the beginning of the new snapshot.
\<close>

lemma save_result:
  assumes "save_disk_state V r data_dir st d = (d', res)"
  defines "p \<equiv> disk_state_path data_dir" and "tmp \<equiv> tmp_path V r data_dir"
  shows "\<And>q. q \<noteq> p \<Longrightarrow> q \<noteq> tmp \<Longrightarrow> d' q = d q"
    "d' p = (if res = Inr () then Some (enc (v_state V) st) else d p)"
    "d' tmp = d tmp \<or> d' tmp = None \<or> (\<exists>x. d' tmp = Some x \<and> prefix x (enc (v_state V) st))"
proof -
  obtain d1 ok where w: "write_new (save_write r) tmp (enc (v_state V) st) d = (d1, ok)" by force
  note W = write_result [OF disjI2 [OF w]]
  have "p \<noteq> tmp" unfolding p_def tmp_def by (rule tmp_path_apart(1) [symmetric])
  with W assms(1) w
  show "\<And>q. q \<noteq> p \<Longrightarrow> q \<noteq> tmp \<Longrightarrow> d' q = d q"
    "d' p = (if res = Inr () then Some (enc (v_state V) st) else d p)"
    "d' tmp = d tmp \<or> d' tmp = None \<or> (\<exists>x. d' tmp = Some x \<and> prefix x (enc (v_state V) st))"
    by (auto simp: save_disk_state_def p_def [symmetric] tmp_def [symmetric] fs_rename_def Let_def
        take_is_prefix split: bool.splits if_splits)
qed

lemma save_succeeds:
  assumes "save_write r = write_fine" "rename_ok r" "d (tmp_path V r data_dir) = None"
  shows "\<exists>d'. save_disk_state V r data_dir st d = (d', Inr ())"
  using assms by (simp add: save_disk_state_def Let_def)


section \<open>The stored identity\<close>

text \<open>The snapshot holds the keys, encrypted under the secret that the next start resolves.\<close>

definition identity_stored :: "vault_ops \<Rightarrow> environ \<Rightarrow> path \<Rightarrow> disk \<Rightarrow> disk_crypto \<Rightarrow> bool" where
  "identity_stored V env data_dir d keys \<longleftrightarrow>
     (\<exists>blob s. d (disk_state_path data_dir) = Some (enc (v_state V) (sealed_state blob))
        \<and> secret_at env data_dir d = Some s \<and> decrypt_disk_crypto V blob s = Inr keys)"

text \<open>
  The operator's key file is not one of the files of the snapshot, and what is drawn fills the
  arrays it is drawn into.
\<close>

definition persist_in_ok :: "vault_ops \<Rightarrow> environ \<Rightarrow> path \<Rightarrow> persist_in \<Rightarrow> bool" where
  "persist_in_ok V env data_dir r \<longleftrightarrow>
     key_file env data_dir \<noteq> disk_state_path data_dir
     \<and> key_file env data_dir \<noteq> tmp_path V (persist_save r) data_dir
     \<and> (\<forall>x. key_random (persist_key r) = Some x \<longrightarrow> length x = 32)
     \<and> (\<forall>x. in_salt (persist_blob r) = Some x \<longrightarrow> length x = 16)
     \<and> (\<forall>x. in_nonce (persist_blob r) = Some x \<longrightarrow> length x = 12)"

context vault
begin

text \<open>
  Every outcome of \<open>persist_crypto\<close>: it stops before the snapshot is touched, or it saves the keys
  sealed under the secret that the next start resolves.
\<close>

lemma persist_cases:
  assumes run: "persist_crypto V env r data_dir keys d = (d', res)" and ok: "persist_in_ok V env data_dir r"
  obtains k where "relay_encryption_key V env (persist_key r) data_dir d = (d', k)" "res \<noteq> Inr ()"
  | d1 s blob where "relay_encryption_key V env (persist_key r) data_dir d = (d1, Inr s)"
    "save_disk_state V (persist_save r) data_dir (sealed_state blob) d1 = (d', res)"
    "d' (key_file env data_dir) = d1 (key_file env data_dir)"
    "secret_at env data_dir d' = Some s" "decrypt_disk_crypto V blob s = Inr keys"
proof -
  obtain d1 k where key: "relay_encryption_key V env (persist_key r) data_dir d = (d1, k)" by force
  show thesis
  proof (cases "\<exists>s blob. k = Inr s \<and> encrypt_disk_crypto V (persist_blob r) keys s = Inr blob")
    case False
    then have "d' = d1" "res \<noteq> Inr ()" using run key by (auto simp: persist_crypto_def split: sum.splits)
    with key that(1) show thesis by simp
  next
    case True
    then obtain s blob where k: "k = Inr s" "encrypt_disk_crypto V (persist_blob r) keys s = Inr blob" by blast
    then have sv: "save_disk_state V (persist_save r) data_dir (sealed_state blob) d1 = (d', res)"
      using run key by (simp add: persist_crypto_def)
    have kf: "d' (key_file env data_dir) = d1 (key_file env data_dir)"
      using ok by (intro save_result(1) [OF sv]) (simp_all add: persist_in_ok_def)
    have "key_random (persist_key r) \<noteq> Some []" using ok by (auto simp: persist_in_ok_def)
    with key k(1) have "secret_at env data_dir d1 = Some s" by (auto intro: key_lasts)
    then have "secret_at env data_dir d' = Some s" using secret_frame [of d' env data_dir d1, OF kf] by simp
    moreover have "decrypt_disk_crypto V blob s = Inr keys"
      using decrypt_encrypt [OF k(2)] ok by (simp add: persist_in_ok_def)
    ultimately show thesis using that(2) key k(1) sv kf by simp
  qed
qed

lemma persist_result:
  assumes "persist_crypto V env r data_dir keys d = (d', res)" "persist_in_ok V env data_dir r"
  defines "p \<equiv> disk_state_path data_dir" and "tmp \<equiv> tmp_path V (persist_save r) data_dir"
    and "k \<equiv> path_join data_dir ''relay-key''"
  shows "res = Inr () \<Longrightarrow> identity_stored V env data_dir d' keys"
    and "res \<noteq> Inr () \<Longrightarrow> d' p = d p"
    and "q \<notin> {p, tmp, k} \<Longrightarrow> d' q = d q"
    and "q \<in> {p, tmp} \<Longrightarrow> d' q = d q \<or> d' q = None
       \<or> (\<exists>blob x. d' q = Some x \<and> prefix x (enc (v_state V) (sealed_state blob)))"
    and "secret_at env data_dir d = Some s \<Longrightarrow> key_readable (persist_key r) (key_file env data_dir) \<Longrightarrow>
       d' (key_file env data_dir) = d (key_file env data_dir)"
proof -
  have apart: "tmp \<noteq> p" "tmp \<noteq> k" "p \<noteq> k" unfolding p_def tmp_def k_def by (rule tmp_path_apart)+
  show "identity_stored V env data_dir d' keys" if "res = Inr ()"
    using assms(1,2)
  proof (rule persist_cases)
    fix d1 s blob
    assume a: "save_disk_state V (persist_save r) data_dir (sealed_state blob) d1 = (d', res)"
      "secret_at env data_dir d' = Some s" "decrypt_disk_crypto V blob s = Inr keys"
    show ?thesis using save_result(2) [OF a(1)] a(2,3) that by (auto simp: identity_stored_def)
  qed (use that in simp)
  show "d' p = d p" if "res \<noteq> Inr ()"
    using assms(1,2) by (rule persist_cases)
      (use that apart key_frame save_result(2) in \<open>fastforce simp: p_def k_def\<close>)+
  show "d' q = d q" if "q \<notin> {p, tmp, k}"
    using assms(1,2) by (rule persist_cases)
      (use that key_frame save_result(1) in \<open>fastforce simp: p_def k_def tmp_def\<close>)+
  show "d' q = d q \<or> d' q = None \<or> (\<exists>blob x. d' q = Some x \<and> prefix x (enc (v_state V) (sealed_state blob)))"
    if "q \<in> {p, tmp}"
    using assms(1,2)
  proof (rule persist_cases)
    fix d1 s blob
    assume a: "relay_encryption_key V env (persist_key r) data_dir d = (d1, Inr s)"
      "save_disk_state V (persist_save r) data_dir (sealed_state blob) d1 = (d', res)"
    note S = save_result(2,3) [OF a(2), folded p_def tmp_def]
    have "d1 q = d q" using key_frame [OF a(1), of q] that apart by (auto simp: k_def)
    then show ?thesis using S that by (auto split: if_splits)
  qed (use that apart key_frame in \<open>fastforce simp: k_def\<close>)
  show "d' (key_file env data_dir) = d (key_file env data_dir)"
    if "secret_at env data_dir d = Some s" "key_readable (persist_key r) (key_file env data_dir)"
    using assms(1,2) by (rule persist_cases) (use key_found [OF that] in auto)
qed

text \<open>A start after that loads the keys, and drawing nothing it leaves the files alone.\<close>

lemma load_identity:
  assumes "identity_stored V env data_dir d keys" "state_stat r" "state_readable r"
    "key_readable (load_key r) (key_file env data_dir)"
  shows "\<exists>blob. load_disk_state V env r data_dir d = (d, Inr ((sealed_state blob)\<lparr>crypto := Some keys\<rparr>))"
proof -
  obtain blob s where b: "d (disk_state_path data_dir) = Some (enc (v_state V) (sealed_state blob))"
    "secret_at env data_dir d = Some s" "decrypt_disk_crypto V blob s = Inr keys"
    using assms(1) by (auto simp: identity_stored_def)
  moreover have "encrypted_crypto (sealed_state blob) = Some blob" by (simp add: sealed_state_def)
  ultimately have "load_disk_state V env r data_dir d = (d, Inr ((sealed_state blob)\<lparr>crypto := Some keys\<rparr>))"
    using key_found [OF b(2) assms(4), of V] assms(2,3)
    by (simp add: load_disk_state_def fs_read_def Let_def state_dec_enc)
  then show ?thesis ..
qed

end

end
