(* ===== verification/StartProofs.thy ===== *)
theory StartProofs
  imports Startup PersistProofs RelayTheorems
begin

text \<open>
  The start of the process in terms of the relay: the keys it ends with, that a snapshot without
  legacy contents leaves the tables alone, and that what is then built is the state a \<open>Restart\<close>
  of the relay's step relation gives.
\<close>


section \<open>Keys\<close>

definition trust_root_of :: "vault_ops \<Rightarrow> disk_crypto \<Rightarrow> string option" where
  "trust_root_of V keys =
     map_option (v_b64 V \<circ> public_key) (v_pair V (trust_root_public keys) (trust_root_private keys))"

text \<open>The data directory holds the identity whose trust root is the given one.\<close>

definition relay_identity :: "vault_ops \<Rightarrow> environ \<Rightarrow> path \<Rightarrow> disk \<Rightarrow> string \<Rightarrow> bool" where
  "relay_identity V env data_dir d root \<longleftrightarrow>
     (\<exists>keys. identity_stored V env data_dir d keys \<and> trust_root_of V keys = Some root
        \<and> v_pair V (server_signing_public keys) (server_signing_private keys) \<noteq> None)"

context vault
begin

text \<open>The keys after \<open>init_server_crypto\<close>: the saved ones if there were any.\<close>

lemma init_result:
  assumes "init_server_crypto V rng disk = Inr (disk', server)"
  obtains keys where "disk' = disk\<lparr>crypto := Some keys\<rparr>" "\<And>k. crypto disk = Some k \<Longrightarrow> keys = k"
    "trust_root_of V keys = Some (sc_trust_root_b64 server)"
    "v_pair V (server_signing_public keys) (server_signing_private keys) \<noteq> None"
proof (cases "crypto disk")
  case None
  then obtain seed where "disk' = disk\<lparr>crypto := Some
      \<lparr>trust_root_public = public_key (v_generate V seed 0), trust_root_private = private_key (v_generate V seed 0),
       server_signing_public = public_key (v_generate V seed 1), server_signing_private = private_key (v_generate V seed 1)\<rparr>\<rparr>"
    "sc_trust_root_b64 server = v_b64 V (public_key (v_generate V seed 0))"
    using assms by (auto simp: init_server_crypto_def Let_def split: option.splits)
  with None that show thesis by (simp add: trust_root_of_def pair_generate)
next
  case (Some k)
  then have "disk' = disk" "trust_root_of V k = Some (sc_trust_root_b64 server)"
    "v_pair V (server_signing_public k) (server_signing_private k) \<noteq> None"
    using assms by (auto simp: init_server_crypto_def trust_root_of_def split: option.splits)
  moreover have "disk\<lparr>crypto := Some k\<rparr> = disk" using Some by (cases disk) simp
  ultimately show thesis using that Some by simp
qed

lemma init_succeeds:
  assumes "rng = Some seed" "\<And>s n a b. v_certify V s n a b \<noteq> None"
    "\<And>k. crypto disk = Some k \<Longrightarrow> trust_root_of V k \<noteq> None
       \<and> v_pair V (server_signing_public k) (server_signing_private k) \<noteq> None"
  shows "\<exists>disk' server. init_server_crypto V rng disk = Inr (disk', server)"
proof (cases "crypto disk")
  case None
  then show ?thesis using assms(1,2) by (auto simp: init_server_crypto_def Let_def split: option.split)
next
  case (Some k)
  then obtain a b where "v_pair V (trust_root_public k) (trust_root_private k) = Some a"
    "v_pair V (server_signing_public k) (server_signing_private k) = Some b"
    using assms(3) by (auto simp: trust_root_of_def)
  with Some show ?thesis using assms(1,2) by (auto simp: init_server_crypto_def split: option.split)
qed

end


section \<open>Nothing to migrate\<close>

definition no_legacy :: "disk_state \<Rightarrow> bool" where
  "no_legacy disk \<longleftrightarrow> disk_queues disk = [] \<and> disk_auth disk = [] \<and> disk_bundles disk = []"

lemma no_legacy_simps [simp]:
  "no_legacy disk_default" "no_legacy (sealed_state blob)"
  "no_legacy (disk\<lparr>crypto := x\<rparr>) = no_legacy disk"
  "no_legacy disk \<Longrightarrow> no_legacy (prune_disk_state now disk)"
  "crypto (prune_disk_state now disk) = crypto disk"
  by (simp_all add: no_legacy_def disk_default_def sealed_state_def prune_disk_state_def)

lemma migrate_nothing:
  assumes "no_legacy disk" "envelopes q = db_envelopes db"
  shows "\<exists>x. migrate E r disk q db = (q, db, x)
    \<and> (read_ok (st_auth_io r) \<and> read_ok (st_bundle_io r) \<longrightarrow> x = Some ())"
proof -
  have db: "db\<lparr>db_envelopes := envelopes q\<rparr> = db" using assms(2) by (cases db) simp
  have q: "migrate_queues (a_queue E) (st_enqueue_io r) (st_enqueue_now r) disk q = q"
    using assms(1) by (simp add: migrate_queues_def no_legacy_def)
  have items: "migrate_items T C io [] tbl = (tbl, if read_ok io then Some () else None)" for T C io tbl
    by (simp add: migrate_items_def table_is_empty_def)
  have upd: "db\<lparr>db_auth := db_auth db\<rparr> = db" "db\<lparr>db_bundles := db_bundles db\<rparr> = db" by (cases db; simp)+
  show ?thesis using assms(1)
    by (auto simp: migrate_def q db items upd no_legacy_def Let_def)
qed

lemma migrate_items_succeeds:
  "read_ok io \<Longrightarrow> write_ok io \<Longrightarrow> \<exists>tbl'. migrate_items T C io xs tbl = (tbl', Some ())"
  by (auto simp: migrate_items_def table_is_empty_def flush_items_def)

lemma migrate_succeeds:
  assumes "read_ok (st_auth_io r)" "read_ok (st_bundle_io r)" "write_ok (st_auth_io r)" "write_ok (st_bundle_io r)"
  shows "\<exists>q' db'. migrate E r disk q db = (q', db', Some ())"
proof -
  obtain at where at: "migrate_items (a_auth E) (a_auth_codec E) (st_auth_io r) (disk_auth disk) (db_auth db) = (at, Some ())"
    using migrate_items_succeeds [OF assms(1,3), of "a_auth E" "a_auth_codec E"] by blast
  obtain bt where "migrate_items (a_bundles E) (a_bundle_codec E) (st_bundle_io r)
      (map (\<lambda>b. (b_id b, b)) (disk_bundles disk)) (db_bundles db) = (bt, Some ())"
    using migrate_items_succeeds [OF assms(2,4), of "a_bundles E" "a_bundle_codec E"] by blast
  with at show ?thesis by (simp add: migrate_def Let_def)
qed

lemma open_stores_cases:
  assumes "open_stores E r cfg db = Some (q, f)"
  shows "queue_new (a_queue E) (st_queue_io r) (db_envelopes db) = Some q" "envelopes q = db_envelopes db"
    "file_new (a_files E) (st_file_io r) (db_files db) (db_chunks db) cfg = Some f"
  using assms by (auto simp: open_stores_def queue_new_def split: option.splits if_splits prod.splits)


section \<open>The start as a whole\<close>

text \<open>
  From a snapshot without legacy contents: the tables stay, only \<open>persist_crypto\<close> touches the
  files, and a served state is what the stores and \<open>build\<close> give for the keys that were stored.
\<close>

definition built_on ::
    "('t, 'b, 'c) app_env \<Rightarrow> start_in \<Rightarrow> file_config \<Rightarrow> ('t, 'c) database \<Rightarrow> string \<Rightarrow> ('t, 'c) app_state \<Rightarrow> bool" where
  "built_on E r cfg db root s \<longleftrightarrow>
     (\<exists>q f. queue_new (a_queue E) (st_queue_io r) (db_envelopes db) = Some q
        \<and> file_new (a_files E) (st_file_io r) (db_files db) (db_chunks db) cfg = Some f
        \<and> build E (st_load_auth r) (st_load_bundles r) (st_build_now r) (db_auth db) (db_bundles db) q f cfg root
            = Some s)"

context vault
begin

lemma startup_clean:
  assumes load: "load_disk_state V env (st_load r) data_dir d = (d, Inr disk)" and none: "no_legacy disk"
    and run: "startup E V env r data_dir d db = (d', db', res)"
  shows "db' = db \<and> (d' = d \<and> (\<forall>s. res \<noteq> Inr s) \<or>
     (\<exists>keys root x. persist_crypto V env (st_persist r) data_dir keys d = (d', x)
        \<and> (\<forall>k. crypto disk = Some k \<longrightarrow> keys = k) \<and> trust_root_of V keys = Some root
        \<and> v_pair V (server_signing_public keys) (server_signing_private keys) \<noteq> None
        \<and> (\<forall>s. res = Inr s \<longrightarrow> x = Inr () \<and> built_on E r (from_env env) db root s)))"
proof (cases "st_dir_ok r \<and> (\<exists>disk' server q f. init_server_crypto V (st_rng r) disk = Inr (disk', server)
    \<and> open_stores E r (from_env env) db = Some (q, f))")
  case False
  then have "db' = db \<and> d' = d \<and> (\<forall>s. res \<noteq> Inr s)"
    using run load by (auto simp: startup_def Let_def split: if_splits sum.splits prod.splits option.splits)
  then show ?thesis by simp
next
  case True
  then obtain disk' server q f where i: "st_dir_ok r" "init_server_crypto V (st_rng r) disk = Inr (disk', server)"
    "open_stores E r (from_env env) db = Some (q, f)" by blast
  obtain keys where k: "disk' = disk\<lparr>crypto := Some keys\<rparr>" "\<And>k. crypto disk = Some k \<Longrightarrow> keys = k"
    "trust_root_of V keys = Some (sc_trust_root_b64 server)"
    "v_pair V (server_signing_public keys) (server_signing_private keys) \<noteq> None"
    using init_result [OF i(2)] by blast
  note st = open_stores_cases [OF i(3)]
  have nl: "no_legacy (prune_disk_state (st_prune_now r) disk')" using none k(1) by simp
  obtain y where m: "migrate E r (prune_disk_state (st_prune_now r) disk') q db = (q, db, y)"
    using migrate_nothing [OF nl st(2)] by blast
  obtain d1 x where p: "persist_crypto V env (st_persist r) data_dir keys d = (d1, x)" by force
  show ?thesis
  proof (cases y)
    case None
    then show ?thesis using run load i m by (auto simp: startup_def)
  next
    case (Some u)
    then have "db' = db" "d' = d1"
      "\<forall>s. res = Inr s \<longrightarrow> x = Inr () \<and> built_on E r (from_env env) db (sc_trust_root_b64 server) s"
      using run load i m p k(1) st
      by (auto simp: startup_def built_on_def split: option.splits sum.splits)
    with p k(2-4) show ?thesis by blast
  qed
qed

end


section \<open>A start that succeeds\<close>

text \<open>Every system call and every third-party operation of the start succeeds.\<close>

definition start_fine :: "vault_ops \<Rightarrow> environ \<Rightarrow> start_in \<Rightarrow> path \<Rightarrow> disk \<Rightarrow> bool" where
  "start_fine V env r data_dir d \<longleftrightarrow>
     (\<forall>a b. v_argon2 V a b \<noteq> None) \<and> (\<forall>a b c. v_seal V a b c \<noteq> None) \<and> (\<forall>a b c e. v_certify V a b c e \<noteq> None)
     \<and> st_dir_ok r \<and> state_readable (st_load r) \<and> st_rng r \<noteq> None
     \<and> st_db_ok r \<and> st_meta_ok r \<and> read_ok (st_queue_io r) \<and> write_ok (st_queue_io r)
     \<and> read_ok (st_file_io r) \<and> write_ok (st_file_io r) \<and> read_ok (st_auth_io r) \<and> read_ok (st_bundle_io r)
     \<and> write_ok (st_auth_io r) \<and> write_ok (st_bundle_io r) \<and> read_ok (st_load_auth r) \<and> read_ok (st_load_bundles r)
     \<and> in_salt (persist_blob (st_persist r)) \<noteq> None \<and> in_nonce (persist_blob (st_persist r)) \<noteq> None
     \<and> save_write (persist_save (st_persist r)) = write_fine \<and> rename_ok (persist_save (st_persist r))
     \<and> d (tmp_path V (persist_save (st_persist r)) data_dir) = None
     \<and> (secret_at env data_dir d \<noteq> None
        \<or> env_nonempty env ''AXENO_KEY'' = None \<and> env_nonempty env ''AXENO_KEY_FILE'' = None
          \<and> key_random (persist_key (st_persist r)) \<noteq> None \<and> key_write (persist_key (st_persist r)) = write_fine)"

lemma start_fineD:
  assumes "start_fine V env r data_dir d"
  shows "v_argon2 V a b \<noteq> None" "v_seal V a b c \<noteq> None" "v_certify V a n b c \<noteq> None"
    "st_dir_ok r" "st_rng r \<noteq> None" "read_ok (st_auth_io r)" "read_ok (st_bundle_io r)"
    "read_ok (st_load_auth r)" "read_ok (st_load_bundles r)"
    "in_salt (persist_blob (st_persist r)) \<noteq> None" "in_nonce (persist_blob (st_persist r)) \<noteq> None"
    "save_write (persist_save (st_persist r)) = write_fine" "rename_ok (persist_save (st_persist r))"
    "write_ok (st_auth_io r)" "write_ok (st_bundle_io r)"
  using assms by (simp_all add: start_fine_def)

lemma start_stores:
  assumes "start_fine V env r data_dir d"
  obtains q f where "open_stores E r cfg db = Some (q, f)"
proof -
  have "queue_new (a_queue E) (st_queue_io r) (db_envelopes db) \<noteq> None"
    "file_new (a_files E) (st_file_io r) (db_files db) (db_chunks db) cfg \<noteq> None"
    using assms by (auto simp: start_fine_def queue_new_def file_new_def split: prod.splits)
  with assms that show thesis by (auto simp: open_stores_def start_fine_def)
qed

lemma start_key:
  assumes "start_fine V env r data_dir d" "key_readable (persist_key (st_persist r)) (key_file env data_dir)"
  obtains d1 s where "relay_encryption_key V env (persist_key (st_persist r)) data_dir d = (d1, Inr s)"
    "d1 (tmp_path V (persist_save (st_persist r)) data_dir) = None"
proof (cases "secret_at env data_dir d")
  case (Some s)
  with key_found [OF this assms(2)] that assms(1) show thesis by (simp add: start_fine_def)
next
  case None
  with assms(1) obtain raw where raw: "env_nonempty env ''AXENO_KEY'' = None" "env_nonempty env ''AXENO_KEY_FILE'' = None"
    "key_random (persist_key (st_persist r)) = Some raw" "key_write (persist_key (st_persist r)) = write_fine"
    by (auto simp: start_fine_def)
  obtain d1 s where k: "relay_encryption_key V env (persist_key (st_persist r)) data_dir d = (d1, Inr s)"
    using raw by (cases "relay_encryption_key V env (persist_key (st_persist r)) data_dir d")
      (auto simp: relay_encryption_key_def Let_def split: if_splits)
  show thesis
    using that [OF k] key_frame [OF k tmp_path_apart(2)] assms(1) by (simp add: start_fine_def)
qed

lemma start_persists:
  assumes "start_fine V env r data_dir d" "key_readable (persist_key (st_persist r)) (key_file env data_dir)"
  shows "\<exists>d'. persist_crypto V env (st_persist r) data_dir keys d = (d', Inr ())"
proof -
  obtain d1 s where k: "relay_encryption_key V env (persist_key (st_persist r)) data_dir d = (d1, Inr s)"
    "d1 (tmp_path V (persist_save (st_persist r)) data_dir) = None" by (rule start_key [OF assms])
  obtain slt n key where "in_salt (persist_blob (st_persist r)) = Some slt"
    "in_nonce (persist_blob (st_persist r)) = Some n" "v_argon2 V (as_bytes s) slt = Some key"
    using start_fineD(1,10,11) [OF assms(1)] by (meson not_None_eq)
  moreover obtain c where "v_seal V key n (enc (v_keys V) keys) = Some c"
    using start_fineD(2) [OF assms(1)] by (meson not_None_eq)
  ultimately obtain blob where b: "encrypt_disk_crypto V (persist_blob (st_persist r)) keys s = Inr blob"
    by (simp add: encrypt_disk_crypto_def derive_key_from_env_def)
  obtain d' where "save_disk_state V (persist_save (st_persist r)) data_dir (sealed_state blob) d1 = (d', Inr ())"
    using save_succeeds [where d = d1, OF start_fineD(12,13) [OF assms(1)] k(2)] by blast
  with k(1) b show ?thesis by (auto simp: persist_crypto_def)
qed

context vault
begin

lemma startup_succeeds:
  assumes load: "load_disk_state V env (st_load r) data_dir d = (d, Inr disk)"
    and fine: "start_fine V env r data_dir d" "key_readable (persist_key (st_persist r)) (key_file env data_dir)"
    and keys: "\<And>k. crypto disk = Some k \<Longrightarrow> trust_root_of V k \<noteq> None
       \<and> v_pair V (server_signing_public k) (server_signing_private k) \<noteq> None"
  shows "\<exists>d' db' s. startup E V env r data_dir d db = (d', db', Inr s)"
proof -
  obtain disk' server where i: "init_server_crypto V (st_rng r) disk = Inr (disk', server)"
    using init_succeeds [OF _ start_fineD(3) [OF fine(1)] keys] start_fineD(5) [OF fine(1)] by blast
  then obtain k where k: "disk' = disk\<lparr>crypto := Some k\<rparr>" by (rule init_result)
  obtain q f where st: "open_stores E r (from_env env) db = Some (q, f)" by (rule start_stores [OF fine(1)])
  obtain q' db' where m: "migrate E r (prune_disk_state (st_prune_now r) disk') q db = (q', db', Some ())"
    using migrate_succeeds [OF start_fineD(6,7,14,15) [OF fine(1)]] by blast
  obtain d' where p: "persist_crypto V env (st_persist r) data_dir k d = (d', Inr ())"
    using start_persists [OF fine] by blast
  have "build E (st_load_auth r) (st_load_bundles r) (st_build_now r) (db_auth db') (db_bundles db') q' f (from_env env)
      (sc_trust_root_b64 server) \<noteq> None"
    using start_fineD(8,9) [OF fine(1)] by (simp add: build_def load_all_def Let_def split: prod.splits)
  with load i k st m p start_fineD(4) [OF fine(1)] show ?thesis by (auto simp: startup_def)
qed

end

end
