(* ===== verification/RefVault.thy ===== *)
theory RefVault
  imports StartProofs
begin

text \<open>
  A reference instance of the third-party operations of the identity, on which the examples of
  the start run: hex as it is, and for the rest stand-ins that satisfy the laws of \<open>vault\<close>
  together (fields are written with their length in unary before them, the cipher puts key and
  nonce in front of the text).
\<close>


section \<open>Hex\<close>

definition hex_digit :: "nat \<Rightarrow> char" where
  "hex_digit n = ''0123456789abcdef'' ! n"

definition hex_value :: "char \<Rightarrow> nat option" where
  "hex_value c = map_of (zip ''0123456789abcdef'' [0..<16]) c"

definition ref_hex :: "bytes \<Rightarrow> string" where
  "ref_hex bs = concat (map (\<lambda>w. [hex_digit (unat w div 16), hex_digit (unat w mod 16)]) bs)"

fun ref_unhex :: "string \<Rightarrow> bytes option" where
  "ref_unhex [] = Some []"
| "ref_unhex [c] = None"
| "ref_unhex (a # b # s) =
     (case (hex_value a, hex_value b, ref_unhex s) of
        (Some x, Some y, Some r) \<Rightarrow> Some (of_nat (16 * x + y) # r)
      | _ \<Rightarrow> None)"

lemma hex_value_digit: "n < 16 \<Longrightarrow> hex_value (hex_digit n) = Some n"
proof -
  assume "n < 16"
  then have "n \<in> set [0..<16]" by simp
  then show ?thesis by (auto simp: upt_rec hex_value_def hex_digit_def)
qed

lemma ref_hex_laws:
  "ref_unhex (ref_hex b) = Some b" "length (ref_hex b) = 2 * length b"
  "c \<in> set (ref_hex b) \<Longrightarrow> c \<in> set ''0123456789abcdef''"
proof -
  have lt: "unat w div 16 < 16" "unat w mod 16 < 16" for w :: u8
    using unsigned_less [of w, where 'a = nat] by (simp_all add: less_mult_imp_div_less)
  show "ref_unhex (ref_hex b) = Some b"
    by (induction b) (simp_all add: ref_hex_def hex_value_digit lt)
  show "length (ref_hex b) = 2 * length b" by (induction b) (simp_all add: ref_hex_def)
  define digits where "digits = ''0123456789abcdef''"
  have "hex_digit n \<in> set digits" if "n < 16" for n
    unfolding hex_digit_def digits_def using that by (intro nth_mem) simp
  then have "c \<in> set (ref_hex b) \<Longrightarrow> c \<in> set digits" by (auto simp: ref_hex_def lt)
  then show "c \<in> set (ref_hex b) \<Longrightarrow> c \<in> set ''0123456789abcdef''" unfolding digits_def .
qed


section \<open>Records as text\<close>

definition pack :: "'a \<Rightarrow> 'a \<Rightarrow> 'a list \<Rightarrow> 'a list" where
  "pack one zero xs = replicate (length xs) one @ zero # xs"

definition unpack :: "'a \<Rightarrow> 'a list \<Rightarrow> 'a list \<times> 'a list" where
  "unpack one s =
     (let n = length (takeWhile (\<lambda>x. x = one) s); r = drop (Suc n) s in (take n r, drop n r))"

lemma unpack_pack [simp]:
  "one \<noteq> zero \<Longrightarrow> unpack one (pack one zero xs @ rest) = (xs, rest)"
  "one \<noteq> zero \<Longrightarrow> unpack one (pack one zero xs) = (xs, [])"
  by (simp_all add: pack_def unpack_def takeWhile_append)

definition ref_keys_codec :: "(disk_crypto, bytes) codec" where
  "ref_keys_codec =
     \<lparr>enc = (\<lambda>k. pack 1 0 (trust_root_public k) @ pack 1 0 (trust_root_private k)
                @ pack 1 0 (server_signing_public k) @ pack 1 0 (server_signing_private k) @ []),
      dec = (\<lambda>b. let (a, b) = unpack 1 b; (c, b) = unpack 1 b; (d, b) = unpack 1 b; (e, b) = unpack 1 b
                in Some \<lparr>trust_root_public = a, trust_root_private = c, server_signing_public = d,
                         server_signing_private = e\<rparr>)\<rparr>"

text \<open>A snapshot of an earlier release with one message for Alice, and the sealed snapshots.\<close>

definition old_envelope :: stored_envelope where
  "old_envelope = \<lparr>env_id = 7, env_to = alice, envelope_type = ''chat'', ciphertext = ''hi''\<rparr>"

definition old_state :: disk_state where
  "old_state = disk_default\<lparr>disk_queues := [(alice, [old_envelope])]\<rparr>"

definition ref_state_codec :: "(disk_state, string) codec" where
  "ref_state_codec =
     \<lparr>enc = (\<lambda>st. case encrypted_crypto st of
                    None \<Rightarrow> ''old''
                  | Some b \<Rightarrow> pack CHR ''1'' CHR ''0'' (salt b) @ pack CHR ''1'' CHR ''0'' (nonce b)
                             @ pack CHR ''1'' CHR ''0'' (blob_ciphertext b) @ []),
      dec = (\<lambda>s. if s = ''old'' then Some old_state
                else (let (a, s) = unpack CHR ''1'' s; (b, s) = unpack CHR ''1'' s; (c, s) = unpack CHR ''1'' s
                      in Some (sealed_state \<lparr>salt = a, nonce = b, blob_ciphertext = c\<rparr>)))\<rparr>"

definition ref_vault :: vault_ops where
  "ref_vault =
     \<lparr>v_hex = ref_hex, v_unhex = ref_unhex, v_argon2 = (\<lambda>p s. Some (p @ s)),
      v_seal = (\<lambda>k n p. Some (k @ n @ p)),
      v_open = (\<lambda>k n c. if take (length (k @ n)) c = k @ n then Some (drop (length (k @ n)) c) else None),
      v_keys = ref_keys_codec, v_state = ref_state_codec, v_uuid = ref_uuid,
      v_pair = (\<lambda>a b. Some \<lparr>public_key = a, private_key = b\<rparr>),
      v_generate = (\<lambda>seed i. \<lparr>public_key = of_nat i # seed, private_key = of_nat (i + 128) # seed\<rparr>),
      v_certify = (\<lambda>seed i a b. Some (a @ b)), v_b64 = map (char_of \<circ> unat)\<rparr>"

lemma ref_vault_simps [simp]:
  "v_hex ref_vault = ref_hex" "v_unhex ref_vault = ref_unhex" "v_argon2 ref_vault p s = Some (p @ s)"
  "v_seal ref_vault k n x = Some (k @ n @ x)" "v_keys ref_vault = ref_keys_codec"
  "v_state ref_vault = ref_state_codec" "v_uuid ref_vault = ref_uuid"
  "v_pair ref_vault a b = Some \<lparr>public_key = a, private_key = b\<rparr>"
  "v_certify ref_vault seed i a b = Some (a @ b)"
  by (simp_all add: ref_vault_def)

interpretation ref_vault: vault ref_vault
proof
  show "dec (v_keys ref_vault) (enc (v_keys ref_vault) k) = Some k" for k
    by (simp add: ref_keys_codec_def)
  show "dec (v_state ref_vault) (enc (v_state ref_vault) (sealed_state b)) = Some (sealed_state b)" for b
  proof -
    have "pack CHR ''1'' CHR ''0'' x @ y \<noteq> ''old''" for x y by (cases x) (simp_all add: pack_def)
    then show ?thesis by (simp add: ref_state_codec_def) (simp add: sealed_state_def)
  qed
  show "c \<in> set (v_hex ref_vault b) \<Longrightarrow> c \<in> set ''0123456789abcdef''" for c b
    unfolding ref_vault_simps by (rule ref_hex_laws(3))
qed (simp_all add: ref_hex_laws(1,2) ref_vault_def)

lemmas ref_vault_axioms [simp] = ref_vault.vault_axioms


section \<open>A sample start\<close>

text \<open>Nothing configured: the key file of the data directory is generated.\<close>

definition bare_env :: environ where
  "bare_env = (\<lambda>_. None)"

lemma bare_env_simps [simp]:
  "env_nonempty bare_env k = None" "key_file bare_env dir = path_join dir ''relay-key''"
  by (simp_all add: bare_env_def env_nonempty_def key_file_def)

definition sample_key :: key_in where
  "sample_key = \<lparr>key_readable = (\<lambda>_. True), key_random = Some (replicate 32 5), key_write = write_fine\<rparr>"

definition sample_start :: "uuid \<Rightarrow> start_in" where
  "sample_start u =
     \<lparr>st_dir_ok = True, st_load = \<lparr>state_stat = True, state_readable = True, load_key = sample_key\<rparr>,
      st_rng = Some (replicate 32 9), st_prune_now = 86400000, st_db_ok = True, st_queue_io = io_fine,
      st_meta_ok = True, st_file_io = io_fine, st_enqueue_io = (\<lambda>_. io_fine),
      st_enqueue_now = (\<lambda>_. 86400000), st_auth_io = io_fine, st_bundle_io = io_fine,
      st_persist = \<lparr>persist_key = sample_key,
        persist_blob = \<lparr>in_salt = Some (replicate 16 1), in_nonce = Some (replicate 12 2)\<rparr>,
        persist_save = \<lparr>save_uuid = u, save_write = write_fine, rename_ok = True, remove_ok = True\<rparr>\<rparr>,
      st_load_auth = io_fine, st_load_bundles = io_fine, st_build_now = 86400000\<rparr>"

lemma sample_start_ok [simp]: "persist_in_ok ref_vault bare_env dir (st_persist (sample_start u))"
  using tmp_path_apart [where data_dir = dir]
  by (auto simp: persist_in_ok_def sample_start_def sample_key_def eq_commute [of "path_join dir _"])

lemma sample_start_fine:
  "d (tmp_path ref_vault (persist_save (st_persist (sample_start u))) dir) = None \<Longrightarrow>
   start_fine ref_vault bare_env (sample_start u) dir d"
  by (simp add: start_fine_def) (simp add: sample_start_def sample_key_def)

lemma sample_start_simps [simp]:
  "st_load (sample_start u) = \<lparr>state_stat = True, state_readable = True, load_key = sample_key\<rparr>"
  "persist_key (st_persist (sample_start u)) = sample_key" "key_readable sample_key p"
  by (simp_all add: sample_start_def sample_key_def)

end
