(* ===== verification/StartTheorems.thy ===== *)
theory StartTheorems
  imports RefVault
begin

text \<open>
  The properties of the start: what the first one on an empty data directory gives, that every
  later one is a restart of the relay under the same identity, that the keys are replaced
  atomically and only ever written encrypted, and what the migration of an old snapshot keeps.
\<close>


section \<open>Starting and starting again\<close>

definition tables_of :: "('t, 'c) app_state \<Rightarrow> ('t, 'c) database" where
  "tables_of s =
     \<lparr>db_envelopes = envelopes (queues s), db_auth = auth_table s, db_bundles = bundle_table s,
      db_files = meta_table (files s), db_chunks = chunk_table (files s)\<rparr>"

definition empty_tables :: "('t, 'b, 'c) app_env \<Rightarrow> ('t, 'c) database" where
  "empty_tables E =
     \<lparr>db_envelopes = t_empty (q_table (a_queue E)), db_auth = t_empty (a_auth E),
      db_bundles = t_empty (a_bundles E), db_files = t_empty (f_meta (a_files E)),
      db_chunks = t_empty (f_chunks (a_files E))\<rparr>"

lemma built_on_tables:
  assumes "built_on E r cfg db root s"
  shows "tables_of s = db" "trust_root_public_b64 s = root" "limits s = cfg"
proof -
  obtain q f where b: "queue_new (a_queue E) (st_queue_io r) (db_envelopes db) = Some q"
    "file_new (a_files E) (st_file_io r) (db_files db) (db_chunks db) cfg = Some f"
    "build E (st_load_auth r) (st_load_bundles r) (st_build_now r) (db_auth db) (db_bundles db) q f cfg root = Some s"
    using assms by (auto simp: built_on_def)
  have "envelopes q = db_envelopes db" "meta_table f = db_files db" "chunk_table f = db_chunks db"
    using b(1,2) by (auto simp: queue_new_def file_new_def split: if_splits prod.splits)
  with b(3) show "tables_of s = db" "trust_root_public_b64 s = root" "limits s = cfg"
    by (auto simp: build_def tables_of_def Let_def split: option.splits prod.splits)
qed

lemma load_nothing:
  "d (disk_state_path data_dir) = None \<Longrightarrow> load_disk_state V env r data_dir d = (d, Inr disk_default)"
  by (simp add: load_disk_state_def Let_def)

lemma crypto_default [simp]: "crypto disk_default = None"
  by (simp add: disk_default_def)

lemma first_start_result:
  assumes "vault V" "d (disk_state_path data_dir) = None" "persist_in_ok V env data_dir (st_persist r)"
    "startup (w_app W) V env r data_dir d (empty_tables (w_app W)) = (d', db', res)"
  shows "(\<forall>s. res = Inr s \<longrightarrow>
      fresh_relay W (from_env env) \<lparr>app = s, conns = []\<rparr> \<and> limits s = from_env env \<and> db' = tables_of s
      \<and> relay_identity V env data_dir d' (trust_root_public_b64 s))
    \<and> (start_fine V env r data_dir d \<and> key_readable (persist_key (st_persist r)) (key_file env data_dir)
       \<longrightarrow> (\<exists>s. res = Inr s))"
proof -
  note C = vault.startup_clean [OF assms(1) load_nothing [where d = d, OF assms(2)] no_legacy_simps(1) assms(4)]
  have "fresh_relay W (from_env env) \<lparr>app = s, conns = []\<rparr> \<and> limits s = from_env env \<and> db' = tables_of s
      \<and> relay_identity V env data_dir d' (trust_root_public_b64 s)" if s: "res = Inr s" for s
  proof -
    obtain keys root where k: "persist_crypto V env (st_persist r) data_dir keys d = (d', Inr ())"
      "trust_root_of V keys = Some root" "v_pair V (server_signing_public keys) (server_signing_private keys) \<noteq> None"
      "built_on (w_app W) r (from_env env) (empty_tables (w_app W)) root s"
      using C s by auto
    have "identity_stored V env data_dir d' keys"
      using vault.persist_result(1) [OF assms(1) k(1) assms(3)] by simp
    moreover have "fresh_relay W (from_env env) \<lparr>app = s, conns = []\<rparr>"
      using k(4) unfolding built_on_def fresh_relay_def empty_tables_def Let_def by (auto; blast)
    ultimately show ?thesis using C k(2,3) built_on_tables [OF k(4)] by (auto simp: relay_identity_def)
  qed
  moreover have "\<exists>s. res = Inr s"
    if "start_fine V env r data_dir d" "key_readable (persist_key (st_persist r)) (key_file env data_dir)"
    using vault.startup_succeeds [OF assms(1) load_nothing [where d = d, OF assms(2)] that,
        of "w_app W" "empty_tables (w_app W)"] assms(4) by auto
  ultimately show ?thesis by blast
qed

text \<open>
  C20: the first start. On a data directory without a snapshot and on empty tables, a start that
  succeeds gives a relay that has just started, with the limits of the environment; the identity
  whose trust root it announces to clients is in the data directory, encrypted under the secret
  that the next start resolves. If every call succeeds, so does the start.
\<close>

theorem first_start:
  assumes "vault V" "d (disk_state_path data_dir) = None" "persist_in_ok V env data_dir (st_persist r)"
    "startup (w_app W) V env r data_dir d (empty_tables (w_app W)) = (d', db', res)"
  shows "(\<forall>s. res = Inr s \<longrightarrow>
      fresh_relay W (from_env env) \<lparr>app = s, conns = []\<rparr> \<and> limits s = from_env env \<and> db' = tables_of s
      \<and> relay_identity V env data_dir d' (trust_root_public_b64 s))
    \<and> (start_fine V env r data_dir d \<and> key_readable (persist_key (st_persist r)) (key_file env data_dir)
       \<longrightarrow> (\<exists>s. res = Inr s))"
  by (rule first_start_result [OF assms])

text \<open>A first start of the reference relay.\<close>

definition disk1 :: disk where
  "disk1 = fst (startup ref_app ref_vault bare_env (sample_start 1) ''data'' Map.empty (empty_tables ref_app))"

definition first_result :: "(ref_tab, ref_chunks) app_state result" where
  "first_result = snd (snd (startup ref_app ref_vault bare_env (sample_start 1) ''data'' Map.empty (empty_tables ref_app)))"

lemma first_run:
  "startup (w_app ref_ws) ref_vault bare_env (sample_start 1) ''data'' Map.empty (empty_tables (w_app ref_ws))
     = (disk1, fst (snd (startup ref_app ref_vault bare_env (sample_start 1) ''data'' Map.empty (empty_tables ref_app))),
        first_result)"
  by (simp add: disk1_def first_result_def)

theorem first_start_witness:
  "\<exists>s. first_result = Inr s \<and> fresh_relay ref_ws (from_env bare_env) \<lparr>app = s, conns = []\<rparr>
     \<and> relay_identity ref_vault bare_env ''data'' disk1 (trust_root_public_b64 s)"
  using first_start [OF ref_vault_axioms _ sample_start_ok first_run] sample_start_fine [where d = Map.empty] by auto

text \<open>
  C15: every later start. On the tables and the identity that a relay left behind, and if the
  snapshot can be stat'ed and the key file, where there is one, read both when the snapshot is
  loaded and when it is saved, under the same file limits and with a key file of the operator's
  that is not one of the snapshot's own files, a start leaves the tables as they are and the identity in place,
  whichever other call fails and also when it fails half-way; if it succeeds, the state it serves
  is the one a restart of the relay gives, trust root included, and if every call succeeds, so
  does the start. Without these conditions the identity can be lost
  (\<open>unreadable_key_is_overwritten\<close>).
\<close>

theorem startup_is_restart:
  assumes "vault V" "relay_identity V env data_dir d (trust_root_public_b64 (app R))" "limits (app R) = from_env env"
    "persist_in_ok V env data_dir (st_persist r)" "state_stat (st_load r)"
    "key_readable (load_key (st_load r)) (key_file env data_dir)"
    "key_readable (persist_key (st_persist r)) (key_file env data_dir)"
    "startup (w_app W) V env r data_dir d (tables_of (app R)) = (d', db', res)"
  shows "db' = tables_of (app R) \<and> relay_identity V env data_dir d' (trust_root_public_b64 (app R))
    \<and> (\<forall>s. res = Inr s \<longrightarrow> relay_step W R (Restart (st_queue_io r) (st_file_io r) (st_load_auth r)
         (st_load_bundles r) (st_build_now r)) [] \<lparr>app = s, conns = []\<rparr>)
    \<and> (start_fine V env r data_dir d \<longrightarrow> (\<exists>s. res = Inr s))"
proof (cases "state_readable (st_load r)")
  case False
  then have "startup (w_app W) V env r data_dir d (tables_of (app R)) = (d, tables_of (app R), Inl IoError)"
    using assms(2,5) by (auto simp: startup_def load_disk_state_def fs_read_def relay_identity_def identity_stored_def Let_def)
  with False show ?thesis using assms(2,8) by (simp add: start_fine_def)
next
  case True
  obtain keys where k: "identity_stored V env data_dir d keys" "trust_root_of V keys = Some (trust_root_public_b64 (app R))"
    "v_pair V (server_signing_public keys) (server_signing_private keys) \<noteq> None"
    using assms(2) by (auto simp: relay_identity_def)
  obtain blob where load: "load_disk_state V env (st_load r) data_dir d = (d, Inr ((sealed_state blob)\<lparr>crypto := Some keys\<rparr>))"
    using vault.load_identity [OF assms(1) k(1) assms(5) True assms(6)] by blast
  have nl: "no_legacy ((sealed_state blob)\<lparr>crypto := Some keys\<rparr>)" by simp
  note C = vault.startup_clean [OF assms(1) load nl assms(8)]
  have same: "identity_stored V env data_dir d' keys"
    if "persist_crypto V env (st_persist r) data_dir keys d = (d', x)" for x
  proof (cases "x = Inr ()")
    case True
    with vault.persist_result(1) [OF assms(1) that assms(4)] show ?thesis by simp
  next
    case False
    obtain s where "secret_at env data_dir d = Some s" using k(1) by (auto simp: identity_stored_def)
    note P = vault.persist_result(2) [OF assms(1) that assms(4) False]
      vault.persist_result(5) [OF assms(1) that assms(4) this assms(7)]
    then show ?thesis using k(1) secret_frame [of d' env data_dir d, OF P(2)] by (simp add: identity_stored_def)
  qed
  have "\<exists>s. res = Inr s" if "start_fine V env r data_dir d"
    using vault.startup_succeeds [OF assms(1) load that assms(7), of "w_app W" "tables_of (app R)"] k(2,3) assms(8)
    by auto
  moreover have "relay_step W R (Restart (st_queue_io r) (st_file_io r) (st_load_auth r)
         (st_load_bundles r) (st_build_now r)) [] \<lparr>app = s, conns = []\<rparr>" if "res = Inr s" for s
    using C that k(2) assms(3) by (auto simp: built_on_def tables_of_def intro: relay_step.restart)
  moreover have "identity_stored V env data_dir d' keys" using C k(1) same by auto
  ultimately show ?thesis using C k(2,3) by (auto simp: relay_identity_def)
qed

text \<open>The same relay, started again.\<close>

theorem startup_is_restart_witness:
  "\<exists>s d' db' res. first_result = Inr s
     \<and> startup ref_app ref_vault bare_env (sample_start 2) ''data'' disk1 (tables_of s) = (d', db', res)
     \<and> db' = tables_of s \<and> relay_identity ref_vault bare_env ''data'' d' (trust_root_public_b64 s)"
proof -
  obtain s where s: "first_result = Inr s" "limits s = from_env bare_env"
    "relay_identity ref_vault bare_env ''data'' disk1 (trust_root_public_b64 s)"
    using first_start_result [OF ref_vault_axioms _ sample_start_ok first_run] sample_start_fine [where d = Map.empty]
    by auto
  obtain d' db' res where run: "startup (w_app ref_ws) ref_vault bare_env (sample_start 2) ''data'' disk1 (tables_of s)
      = (d', db', res)" using prod_cases3 by blast
  show ?thesis
    using startup_is_restart [of ref_vault bare_env "''data''" disk1 "\<lparr>app = s, conns = []\<rparr>" "sample_start 2" ref_ws,
        OF _ _ _ sample_start_ok] run s
    by auto
qed


section \<open>The keys on disk\<close>

text \<open>
  C16: the keys are replaced atomically and never written in the clear. Whichever call fails, and so
  at whichever point the process dies, the snapshot is the old one, or the save succeeded and it
  holds the keys, sealed under the secret that the next start resolves. Beside it only the
  temporary file and the generated key file change; what is in the snapshot and the temporary
  file is gone, as before, or a beginning of a snapshot without plaintext keys; and a secret that
  was there and readable is still there.
\<close>

theorem keys_saved_atomically:
  assumes "vault V" "persist_in_ok V env data_dir r" "persist_crypto V env r data_dir keys d = (d', res)"
  shows "(if res = Inr () then identity_stored V env data_dir d' keys
          else d' (disk_state_path data_dir) = d (disk_state_path data_dir))
    \<and> (\<forall>p. d' p \<noteq> d p \<longrightarrow> p = path_join data_dir ''relay-key''
        \<or> p \<in> {disk_state_path data_dir, tmp_path V (persist_save r) data_dir}
          \<and> (d' p = None \<or> (\<exists>blob x. d' p = Some x \<and> prefix x (enc (v_state V) (sealed_state blob)))))
    \<and> (\<forall>s. secret_at env data_dir d = Some s \<and> key_readable (persist_key r) (key_file env data_dir)
        \<longrightarrow> secret_at env data_dir d' = Some s)"
proof -
  note P = vault.persist_result [OF assms(1,3,2)]
  have "secret_at env data_dir d' = Some s"
    if "secret_at env data_dir d = Some s" "key_readable (persist_key r) (key_file env data_dir)" for s
    using P(5) [OF that] secret_frame [of d' env data_dir d] that(1) by simp
  moreover have "p = path_join data_dir ''relay-key'' \<or> p \<in> {disk_state_path data_dir, tmp_path V (persist_save r) data_dir}
      \<and> (d' p = None \<or> (\<exists>blob x. d' p = Some x \<and> prefix x (enc (v_state V) (sealed_state blob))))"
    if "d' p \<noteq> d p" for p
    proof (cases "p \<in> {disk_state_path data_dir, tmp_path V (persist_save r) data_dir}")
    case True
    with P(4) [OF True] that show ?thesis by simp
  qed (use P(3) [of p] that in auto)
  ultimately show ?thesis using P(1,2) by simp
qed

definition sample_keys :: disk_crypto where
  "sample_keys = \<lparr>trust_root_public = [1], trust_root_private = [2], server_signing_public = [3],
     server_signing_private = [4]\<rparr>"

theorem keys_saved_atomically_witness:
  "\<exists>d'. persist_crypto ref_vault bare_env (st_persist (sample_start 1)) ''data'' sample_keys Map.empty = (d', Inr ())
     \<and> identity_stored ref_vault bare_env ''data'' d' sample_keys"
proof -
  have "start_fine ref_vault bare_env (sample_start 1) ''data'' Map.empty" by (rule sample_start_fine) simp
  then obtain d' where p: "persist_crypto ref_vault bare_env (st_persist (sample_start 1)) ''data'' sample_keys Map.empty
      = (d', Inr ())" using start_persists [of ref_vault bare_env "sample_start 1" "''data''"] by auto
  from keys_saved_atomically [OF ref_vault_axioms sample_start_ok p] p show ?thesis by auto
qed

text \<open>
  A generated key file that is there but cannot be read (an I/O error, or bytes that are not
  UTF-8) is not an error: the start that would decrypt the snapshot with it overwrites it with a
  fresh secret, and the old one is gone.
\<close>

theorem unreadable_key_is_overwritten:
  fixes data_dir :: path
  defines "key_path \<equiv> path_join data_dir ''relay-key''"
  assumes "env_nonempty env ''AXENO_KEY'' = None" "env_nonempty env ''AXENO_KEY_FILE'' = None"
    "fs_read_to_string (key_readable (load_key r) key_path) d key_path = None"
    "key_random (load_key r) = Some raw" "key_write (load_key r) = write_fine"
    "state_stat r" "fs_read (state_readable r) d (disk_state_path data_dir) = Some contents"
    "dec (v_state V) contents = Some st" "encrypted_crypto st = Some blob"
  shows "fst (load_disk_state V env r data_dir d) key_path = Some (v_hex V raw)"
proof -
  have "relay_encryption_key V env (load_key r) data_dir d = (d(key_path \<mapsto> v_hex V raw), Inr (v_hex V raw))"
    using assms(2-6) by (simp add: relay_encryption_key_def key_path_def [symmetric] Let_def)
  moreover have "d (disk_state_path data_dir) \<noteq> None" using assms(8) by (auto simp: fs_read_def split: if_splits)
  ultimately show ?thesis using assms(7-10)
    by (auto simp: load_disk_state_def Let_def split: sum.splits)
qed

end
