(* ===== verification/Migration.thy ===== *)
theory Migration
  imports StartTheorems
begin

text \<open>
  The upgrade from a release that kept its offline queues in the snapshot: the migration is a run
  of enqueues on the queue store, so the store's delivery property applies to it; and what
  happens to the messages whose enqueue fails.
\<close>


section \<open>The migration as a run\<close>

definition legacy_ops :: "(nat \<Rightarrow> io) \<Rightarrow> (nat \<Rightarrow> u64) \<Rightarrow> disk_state \<Rightarrow> queue_op list" where
  "legacy_ops io now disk =
     map (\<lambda>(i, rid, env). QEnqueue (io i) (now i) rid env) (enumerate 0 (legacy_envelopes disk))"

text \<open>The old messages of one mailbox.\<close>

definition legacy_for :: "recipient_id \<Rightarrow> disk_state \<Rightarrow> stored_envelope list" where
  "legacy_for m disk = concat (map snd (filter (\<lambda>(rid, _). rid = m) (disk_queues disk)))"

lemma run_enqueues:
  "fold (\<lambda>(i, rid, env) q. fst (enqueue Q (io i) (now i) rid env q)) xs q
     = run (apply_op Q) (map (\<lambda>(i, rid, env). QEnqueue (io i) (now i) rid env) xs) q"
  by (induction xs arbitrary: q) auto

lemma migrate_queues_run: "migrate_queues Q io now disk q = run (apply_op Q) (legacy_ops io now disk) q"
proof (cases "sum_list (map (\<lambda>(_, v). length v) (disk_queues disk)) > 0")
  case True
  then show ?thesis by (simp add: migrate_queues_def legacy_ops_def run_enqueues)
next
  case False
  then have "legacy_envelopes disk = []" by (auto simp: legacy_envelopes_def)
  with False show ?thesis by (simp add: migrate_queues_def legacy_ops_def)
qed

lemma traffic_enqueues:
  "traffic m (map (\<lambda>(i, rid, env). QEnqueue (io i) (now i) rid env) xs)
     = map (snd \<circ> snd) (filter (\<lambda>(i, rid, env). rid = m) xs)"
  by (induction xs) auto

lemma enumerate_for: "map (snd \<circ> snd) (filter (\<lambda>(i, rid, env). rid = m) (enumerate n xs))
    = map snd (filter (\<lambda>(rid, env). rid = m) xs)"
  by (induction xs arbitrary: n) auto

lemma traffic_legacy: "traffic m (legacy_ops io now disk) = legacy_for m disk"
proof -
  have "map snd (filter (\<lambda>(rid, env). rid = m) (concat (map (\<lambda>(rid, envs). map (Pair rid) envs) qs)))
      = concat (map snd (filter (\<lambda>(rid, _). rid = m) qs))" for qs :: "(recipient_id \<times> stored_envelope list) list"
    by (induction qs) (auto simp: filter_map o_def)
  then show ?thesis
    by (simp add: legacy_ops_def traffic_enqueues enumerate_for legacy_for_def legacy_envelopes_def)
qed

lemma traffic_append: "traffic m (xs @ ys) = traffic m xs @ traffic m ys"
  by (induction m xs rule: traffic.induct) auto

text \<open>Every message of a snapshot that fits the caps is in its mailbox afterwards.\<close>

lemma legacy_kept:
  assumes B: "queue_backend Q" "queue_inv Q q" "run_ok (op_ok Q) (apply_op Q) (legacy_ops io now disk) q"
    and io: "\<And>i. read_ok (io i) \<and> write_ok (io i)"
    and fit: "length (legacy_for m disk) \<le> MAX_QUEUE_PER_RECIPIENT"
      "sum_list (map (length \<circ> ciphertext) (legacy_for m disk)) \<le> PER_MAILBOX_QUEUE_BYTES"
    and e: "(m, env) \<in> set (legacy_envelopes disk)"
  shows "\<exists>v. (env_id env, v) \<in> set (mail Q (migrate_queues Q io now disk q) m)
    \<and> sv_t v = envelope_type env \<and> sv_c v = ciphertext env"
proof -
  obtain i where "i < length (legacy_envelopes disk)" "legacy_envelopes disk ! i = (m, env)"
    using e by (auto simp: in_set_conv_nth)
  then have "(i, m, env) \<in> set (enumerate 0 (legacy_envelopes disk))"
    by (auto simp: in_set_conv_nth nth_enumerate_eq)
  then have "QEnqueue (io i) (now i) m env \<in> set (legacy_ops io now disk)" by (force simp: legacy_ops_def)
  then obtain xs ys where ops: "legacy_ops io now disk = xs @ QEnqueue (io i) (now i) m env # ys"
    using split_list by metis
  define q1 where "q1 = run (apply_op Q) xs q"
  have ok: "run_ok (op_ok Q) (apply_op Q) xs q" "enqueue_pre Q m env q1"
    "run_ok (op_ok Q) (apply_op Q) ys (fst (enqueue Q (io i) (now i) m env q1))"
    using B(3) by (simp_all add: ops run_ok_append q1_def)
  have inv: "queue_inv Q q1" using qf.run_inv [OF conjI [OF B(1,2)] ok(1)] by (simp add: q1_def)
  obtain q2 n where enq: "enqueue Q (io i) (now i) m env q1 = (q2, Some n)"
    using operations_return(1) [of "io i" Q "now i" m env q1] io [of i]
    by (cases "enqueue Q (io i) (now i) m env q1") auto
  have t: "legacy_for m disk = traffic m xs @ env # traffic m ys"
    using traffic_legacy [of m io now disk] by (simp add: ops traffic_append)
  have sp: "spares m e op" if "op \<in> set ys" for e op
  proof -
    have "op \<in> set (legacy_ops io now disk)" using that ops by simp
    then show ?thesis by (auto simp: legacy_ops_def)
  qed
  have "(env_id env, queued_value (now i) env q1) \<in> set (mail Q (run (apply_op Q) ys q2) m)"
    using enqueued_survives [OF B(1) inv ok(2) enq _ sp] ok(3) fit t enq by simp
  moreover have "run (apply_op Q) ys q2 = migrate_queues Q io now disk q"
    using enq by (simp add: migrate_queues_run ops run_append q1_def)
  ultimately show ?thesis by (auto simp: queued_value_def)
qed


section \<open>A start that serves\<close>

text \<open>What a start that succeeds has been through.\<close>

lemma served_start:
  assumes "startup E V env r data_dir d db = (d', db', Inr s)"
    "load_disk_state V env (st_load r) data_dir d = (d1, Inr disk)"
  obtains q f keys where "queue_new (a_queue E) (st_queue_io r) (db_envelopes db) = Some q"
    "queues s = migrate_queues (a_queue E) (st_enqueue_io r) (st_enqueue_now r) disk q"
    "persist_crypto V env (st_persist r) data_dir keys d1 = (d', Inr ())"
proof -
  obtain disk' server where i: "init_server_crypto V (st_rng r) disk = Inr (disk', server)"
    using assms by (auto simp: startup_def split: if_splits sum.splits)
  define disk2 where "disk2 = prune_disk_state (st_prune_now r) disk'"
  obtain q f where o: "open_stores E r (from_env env) db = Some (q, f)"
    using assms i by (auto simp: startup_def Let_def split: if_splits option.splits)
  obtain q1 db1 u where m: "migrate E r disk2 q db = (q1, db1, Some u)"
    using assms i o by (auto simp: startup_def Let_def disk2_def split: if_splits prod.splits option.splits)
  obtain keys where k: "crypto disk2 = Some keys"
    using assms i o m by (auto simp: startup_def Let_def disk2_def split: if_splits option.splits)
  have p: "persist_crypto V env (st_persist r) data_dir keys d1 = (d', Inr ())" "queues s = q1"
    using assms i o m k
    by (auto simp: startup_def Let_def disk2_def build_def split: if_splits option.splits sum.splits prod.splits)
  have "disk_queues disk' = disk_queues disk"
    using i by (auto simp: init_server_crypto_def Let_def split: option.splits)
  then have "disk_queues disk2 = disk_queues disk" by (simp add: disk2_def prune_disk_state_def)
  then have "migrate_queues (a_queue E) io now disk2 q = migrate_queues (a_queue E) io now disk q" for io now
    by (simp only: migrate_queues_def legacy_envelopes_def)
  then have "q1 = migrate_queues (a_queue E) (st_enqueue_io r) (st_enqueue_now r) disk q"
    using m by (auto simp: migrate_def Let_def split: option.splits prod.splits)
  with that open_stores_cases(1) [OF o] p show thesis by simp
qed

text \<open>
  C21: the upgrade keeps the messages when the queue store takes them. If a start from a snapshot
  with offline queues succeeds, every queue-store call of its migration does, and its messages are
  what the store asks of a caller (mailbox names without a colon, ids that are new to the store, at
  most 8 MiB each, room under the global cap), then every message of the snapshot for a mailbox is
  in a successful read of that mailbox after the start, when the snapshot's messages for the
  mailbox are at most 500 and 8 MiB. The code checks none of this, and
  without it the start succeeds and the messages can be lost (\<open>failed_migration_drops_messages\<close>).
\<close>

theorem legacy_messages_kept:
  assumes "queue_backend (a_queue E)"
    "startup E V env r data_dir d db = (d', db', Inr s)"
    "load_disk_state V env (st_load r) data_dir d = (d1, Inr disk)"
    "queue_new (a_queue E) (st_queue_io r) (db_envelopes db) = Some q" "queue_inv (a_queue E) q"
    "run_ok (op_ok (a_queue E)) (apply_op (a_queue E)) (legacy_ops (st_enqueue_io r) (st_enqueue_now r) disk) q"
    "\<And>i. read_ok (st_enqueue_io r i) \<and> write_ok (st_enqueue_io r i)"
    "length (legacy_for m disk) \<le> MAX_QUEUE_PER_RECIPIENT"
    "sum_list (map (length \<circ> ciphertext) (legacy_for m disk)) \<le> PER_MAILBOX_QUEUE_BYTES"
    "(m, envs) \<in> set (disk_queues disk)" "e \<in> set envs" "read_ok io"
  shows "\<exists>msgs. flush (a_queue E) io m (queues s) = Some msgs \<and> e\<lparr>env_to := m\<rparr> \<in> set msgs"
proof -
  have s: "queues s = migrate_queues (a_queue E) (st_enqueue_io r) (st_enqueue_now r) disk q"
    using served_start [OF assms(2,3)] assms(4) by (metis option.inject)
  have "(m, e) \<in> set (legacy_envelopes disk)" using assms(10,11) by (force simp: legacy_envelopes_def)
  then obtain v where "(env_id e, v) \<in> set (mail (a_queue E) (queues s) m)" "sv_t v = envelope_type e"
    "sv_c v = ciphertext e"
    using legacy_kept [OF assms(1,5-9)] s by auto
  then show ?thesis using flush_delivered [OF assms(12), of "a_queue E" m "queues s"]
    by (force simp: delivered_def)
qed

text \<open>
  When the queue store refuses the writes the start succeeds all the same: the messages of the
  snapshot are not in the store, and the snapshot has been replaced by one without them.
\<close>

lemma enqueue_refused: "\<not> write_ok io \<Longrightarrow> envelopes (fst (enqueue Q io now m env q)) = envelopes q"
  by (simp add: enqueue_def Let_def split: prod.splits)

theorem failed_migration_drops_messages:
  assumes "vault V" "startup E V env r data_dir d db = (d', db', Inr s)"
    "load_disk_state V env (st_load r) data_dir d = (d1, Inr disk)" "persist_in_ok V env data_dir (st_persist r)"
    "\<And>i. \<not> write_ok (st_enqueue_io r i)"
  shows "envelopes (queues s) = db_envelopes db
    \<and> (\<exists>blob. d' (disk_state_path data_dir) = Some (enc (v_state V) (sealed_state blob)))"
proof -
  obtain q keys where o: "queue_new (a_queue E) (st_queue_io r) (db_envelopes db) = Some q"
    "queues s = migrate_queues (a_queue E) (st_enqueue_io r) (st_enqueue_now r) disk q"
    "persist_crypto V env (st_persist r) data_dir keys d1 = (d', Inr ())"
    by (rule served_start [OF assms(2,3)])
  have "envelopes (run (apply_op (a_queue E)) (map (\<lambda>(i, rid, e). QEnqueue (st_enqueue_io r i) (st_enqueue_now r i) rid e) xs) q)
      = envelopes q" for xs q
    by (induction xs arbitrary: q) (auto simp: enqueue_refused assms(5))
  then have "envelopes (queues s) = envelopes q" by (simp add: o(2) migrate_queues_run legacy_ops_def)
  moreover have "envelopes q = db_envelopes db"
    using o(1) by (auto simp: queue_new_def split: if_splits prod.splits)
  ultimately show ?thesis
    using vault.persist_result(1) [OF assms(1) o(3) assms(4)] by (auto simp: identity_stored_def)
qed


section \<open>An upgrade of the reference relay\<close>

definition old_disk :: disk where
  "old_disk = [''data/relay-state.json'' \<mapsto> ''old'']"

lemma old_load: "load_disk_state ref_vault bare_env (st_load (sample_start 1)) ''data'' old_disk = (old_disk, Inr old_state)"
proof -
  have "disk_state_path ''data'' = ''data/relay-state.json''" by (simp add: disk_state_path_def path_join_def)
  then show ?thesis
    by (simp add: load_disk_state_def old_disk_def fs_read_def ref_state_codec_def Let_def)
      (simp add: old_state_def disk_default_def)
qed

lemma old_legacy [simp]: "legacy_envelopes old_state = [(alice, old_envelope)]"
  by (simp add: legacy_envelopes_def old_state_def)

definition old_queue :: "ref_tab queue_store" where
  "old_queue = \<lparr>envelopes = [], total_bytes = 0, next_seq = 1, index = []\<rparr>"

lemma old_queue:
  "queue_new (a_queue ref_app) io_fine (db_envelopes (empty_tables ref_app)) = Some old_queue"
  "queue_inv (a_queue ref_app) old_queue"
proof -
  show q: "queue_new (a_queue ref_app) io_fine (db_envelopes (empty_tables ref_app)) = Some old_queue"
    by (simp add: queue_new_def scan_totals_def old_queue_def empty_tables_def sat_add_def)
  then show "queue_inv (a_queue ref_app) old_queue"
    using ref_relay.qb.open_empty(1) [of io_fine old_queue] by (simp add: empty_tables_def)
qed

lemma old_run_ok: "run_ok (op_ok (a_queue ref_app)) (apply_op (a_queue ref_app))
    (legacy_ops (st_enqueue_io (sample_start 1)) (st_enqueue_now (sample_start 1)) old_state) old_queue"
  by (simp add: legacy_ops_def enqueue_pre_def old_queue_def old_envelope_def would_exceed_global_def config_defs
      usize_sat_add_def usize_max_def) (simp add: alice_def)


lemma old_start: "\<exists>d' db' s. startup ref_app ref_vault bare_env (sample_start 1) ''data'' old_disk (empty_tables ref_app)
    = (d', db', Inr s)"
proof (rule ref_vault.startup_succeeds [OF old_load])
  show "start_fine ref_vault bare_env (sample_start 1) ''data'' old_disk"
    by (rule sample_start_fine) (simp add: old_disk_def tmp_path_def path_join_def)
qed (simp_all add: old_state_def)

theorem legacy_messages_kept_witness:
  "\<exists>d' db' s msgs. startup ref_app ref_vault bare_env (sample_start 1) ''data'' old_disk (empty_tables ref_app)
       = (d', db', Inr s)
     \<and> flush (a_queue ref_app) io_fine alice (queues s) = Some msgs \<and> old_envelope \<in> set msgs"
proof -
  obtain d' db' s where s: "startup ref_app ref_vault bare_env (sample_start 1) ''data'' old_disk (empty_tables ref_app)
    = (d', db', Inr s)" using old_start by blast
  have q: "queue_new (a_queue ref_app) (st_queue_io (sample_start 1)) (db_envelopes (empty_tables ref_app)) = Some old_queue"
    using old_queue(1) by (simp add: sample_start_def)
  have io: "read_ok (st_enqueue_io (sample_start 1) i) \<and> write_ok (st_enqueue_io (sample_start 1) i)" for i
    by (simp add: sample_start_def)
  have "old_envelope\<lparr>env_to := alice\<rparr> = old_envelope" by (simp add: old_envelope_def)
  then show ?thesis
    using legacy_messages_kept [OF ref_relay.qb.queue_backend_axioms [simplified] s old_load q old_queue(2) old_run_ok io,
        of alice "[old_envelope]" old_envelope io_fine] s
    by (auto simp: legacy_for_def config_defs old_envelope_def old_state_def)
qed

end
