(* ===== verification/DotEnv.thy ===== *)
theory DotEnv
  imports Startup
begin

text \<open>
  What \<open>load_dotenv\<close> of \<open>src/main.rs\<close> does to the environment, against a declarative reading of
  the file: the list of the assignments its lines make.
\<close>

definition assignments :: "string \<Rightarrow> (string \<times> string) list" where
  "assignments contents = List.map_filter dotenv_line (str_lines contents)"

text \<open>An assignment takes effect where the variable is not set yet, the first one of each name.\<close>

lemma dotenv_line_key: "dotenv_line l = Some (k, v) \<Longrightarrow> k \<noteq> []"
  by (auto simp: dotenv_line_def Let_def split: if_splits option.splits)

lemma dotenv_lines_exact:
  assumes "dotenv_lines ls env = Some env'" "\<And>k. CHR 0x00 \<in> set k \<Longrightarrow> env k = None"
  shows "env' k = (case env k of Some v \<Rightarrow> Some v | None \<Rightarrow> map_of (List.map_filter dotenv_line ls) k)"
  using assms
proof (induction ls arbitrary: env)
  case (Cons l ls)
  show ?case
  proof (cases "dotenv_line l")
    case None
    with Cons show ?thesis by (simp add: List.map_filter_simps cong: option.case_cong)
  next
    case (Some a)
    obtain key val where a: "a = (key, val)" by force
    show ?thesis
    proof (cases "var_os env key")
      case None
      then obtain env1 where e: "set_var key val env = Some env1" "dotenv_lines ls env1 = Some env'"
        using Cons.prems(1) Some a by (auto split: option.splits)
      from e(1) have env1: "env1 = env(key \<mapsto> val)" "CHR 0x00 \<notin> set key"
        by (auto simp: set_var_def split: if_splits)
      then have "env key = None" using None by (simp add: var_os_def)
      moreover have "env1 j = None" if "CHR 0x00 \<in> set j" for j using Cons.prems(2) [OF that] env1 that by auto
      note Cons.IH [OF e(2) this]
      ultimately show ?thesis using Some a env1(1)
        by (cases "k = key") (simp_all add: List.map_filter_simps cong: option.case_cong)
    next
      case (Some w)
      then have "env key = Some w" by (simp add: var_os_def split: if_splits)
      then show ?thesis using Cons.IH [of env] Cons.prems \<open>dotenv_line l = _\<close> a Some
        by (auto simp: List.map_filter_simps split: option.splits)
    qed
  qed
qed (simp add: List.map_filter_simps split: option.split)

text \<open>It fails only on a NUL byte in the file.\<close>

lemma strip_all_set: "set (strip_all ws s) \<subseteq> set s"
proof (induction ws s rule: strip_all.induct)
  case (1 ws s)
  then show ?case by (subst strip_all.simps) (auto dest: in_set_dropD)
qed

lemma trim_set: "set (trim s) \<subseteq> set s"
  using strip_all_set [of whitespace s] strip_all_set [of "map rev whitespace" "rev (strip_all whitespace s)"]
  by (auto simp: trim_def)

lemma dotenv_line_set:
  assumes "dotenv_line l = Some (k, v)"
  shows "set k \<subseteq> set l" "set v \<subseteq> set l" "CHR ''='' \<notin> set k" "k \<noteq> []"
proof -
  define line where "line = (case strip_prefix (trim l) ''export '' of Some l \<Rightarrow> l | None \<Rightarrow> trim l)"
  obtain a b where s: "split_once CHR ''='' line = Some (a, b)" "k = trim a" "v = unquote (trim b)" "k \<noteq> []"
    using assms by (auto simp: dotenv_line_def Let_def line_def split: if_splits option.splits)
  have "set line \<subseteq> set l"
    using trim_set [of l] by (auto simp: line_def strip_prefix_def split: if_splits dest!: in_set_dropD)
  moreover have "set (unquote x) \<subseteq> set x" for x
    by (auto simp: unquote_def dest!: in_set_takeD in_set_dropD)
  moreover note split_once_Some [OF s(1)] trim_set [of a] trim_set [of b]
  ultimately have "set a \<subseteq> set l" "set b \<subseteq> set l" "CHR ''='' \<notin> set a" "set k \<subseteq> set a" "set v \<subseteq> set b"
    using s(2,3) by auto
  then show "set k \<subseteq> set l" "set v \<subseteq> set l" "CHR ''='' \<notin> set k" "k \<noteq> []"
    using s(4) by auto
qed

lemma dotenv_lines_total:
  "(\<And>l. l \<in> set ls \<Longrightarrow> CHR 0x00 \<notin> set l) \<Longrightarrow> \<exists>env'. dotenv_lines ls env = Some env'"
proof (induction ls arbitrary: env)
  case (Cons l ls)
  have ok: "set_var k v env = Some (env(k \<mapsto> v))" if "dotenv_line l = Some (k, v)" for k v
    using dotenv_line_set [OF that] Cons.prems [of l] by (auto simp: set_var_def)
  show ?case
  proof (cases "dotenv_line l")
    case None
    with Cons show ?thesis by simp
  next
    case (Some a)
    then obtain k v where "a = (k, v)" by force
    moreover have "\<exists>env'. dotenv_lines ls e = Some env'" for e using Cons.IH Cons.prems by simp
    ultimately show ?thesis using Some ok [of k v] by (simp del: fun_upd_apply)
  qed
qed simp

lemma str_lines_set: "l \<in> set (str_lines s) \<Longrightarrow> set l \<subseteq> set s"
proof (induction s rule: str_lines.induct)
  case (1 s)
  show ?case
  proof (cases "split_once CHR 0x0A s")
    case None
    with 1(2) show ?thesis by (subst (asm) str_lines.simps) (auto split: if_splits)
  next
    case (Some a)
    then obtain x y where a: "split_once CHR 0x0A s = Some (x, y)" by (cases a) auto
    have "l = strip_cr x \<or> l \<in> set (str_lines y)" using 1(2) a by (subst (asm) str_lines.simps) auto
    moreover have "set (strip_cr x) \<subseteq> set x" by (auto simp: strip_cr_def dest: in_set_butlastD)
    moreover note split_once_Some [OF a] 1(1) [OF a]
    ultimately show ?thesis by fastforce
  qed
qed

text \<open>
  C40: the environment file. Every variable that the real environment has keeps its value; one that
  it does not have takes the value of its first assignment in \<open>.env\<close>, if there is one and the
  file can be read; and a file without NUL bytes is always accepted.
\<close>

theorem dotenv_exact:
  fixes env :: os_environ
  assumes "\<And>k. CHR 0x00 \<in> set k \<Longrightarrow> env k = None"
  shows "(\<forall>env'. load_dotenv readable d env = Some env' \<longrightarrow>
      (\<forall>k. env' k = (case env k of
                       Some v \<Rightarrow> Some v
                     | None \<Rightarrow> (case fs_read_to_string readable d ''.env'' of
                                 Some contents \<Rightarrow> map_of (assignments contents) k
                               | None \<Rightarrow> None))))
    \<and> ((\<forall>contents. fs_read_to_string readable d ''.env'' = Some contents \<longrightarrow> CHR 0x00 \<notin> set contents)
       \<longrightarrow> load_dotenv readable d env \<noteq> None)"
proof (cases "fs_read_to_string readable d ''.env''")
  case None
  then show ?thesis by (auto simp: load_dotenv_def split: option.splits)
next
  case (Some contents)
  have "load_dotenv readable d env \<noteq> None" if "CHR 0x00 \<notin> set contents"
    using dotenv_lines_total [of "str_lines contents" env] str_lines_set [of _ contents] that Some
    by (fastforce simp: load_dotenv_def)
  moreover have "env' k = (case env k of Some v \<Rightarrow> Some v | None \<Rightarrow> map_of (assignments contents) k)"
    if "load_dotenv readable d env = Some env'" for env' k
    using dotenv_lines_exact [of "str_lines contents" env env' k] assms that Some
    by (simp add: load_dotenv_def assignments_def cong: option.case_cong)
  ultimately show ?thesis using Some by (simp cong: option.case_cong)
qed

text \<open>A file with a comment, an exported and quoted value, a second assignment and a set variable.\<close>

definition sample_dotenv :: string where
  "sample_dotenv = ''# relay'' @ [CHR 0x0A] @ ''export AXENO_KEY='' @ [CHR 0x22] @ ''s e'' @ [CHR 0x22, CHR 0x0D, CHR 0x0A]
     @ ''AXENO_KEY=other'' @ [CHR 0x0A] @ ''AXENO_BIND = x''"

lemma sample_assignments:
  "assignments sample_dotenv = [(''AXENO_KEY'', ''s e''), (''AXENO_KEY'', ''other''), (''AXENO_BIND'', ''x'')]"
  by code_simp

lemma sample_utf8: "is_utf8 sample_dotenv"
  by (rule ascii_is_utf8) (auto simp: sample_dotenv_def)

theorem dotenv_exact_witness:
  "\<exists>env'. load_dotenv True [''.env'' \<mapsto> sample_dotenv] [''AXENO_BIND'' \<mapsto> ''real''] = Some env'
     \<and> env' ''AXENO_KEY'' = Some ''s e'' \<and> env' ''AXENO_BIND'' = Some ''real'' \<and> env' ''AXENO_DATA_DIR'' = None"
proof -
  have r: "fs_read_to_string True [''.env'' \<mapsto> sample_dotenv] ''.env'' = Some sample_dotenv"
    by (simp add: fs_read_to_string_def fs_read_def sample_utf8)
  have "CHR 0x00 \<notin> set sample_dotenv" by (simp add: sample_dotenv_def)
  moreover have names: "[''AXENO_BIND'' \<mapsto> ''real''] k = None" if "CHR 0x00 \<in> set k" for k using that by auto
  note dotenv_exact [where env = "[''AXENO_BIND'' \<mapsto> ''real'']" and readable = True and d = "[''.env'' \<mapsto> sample_dotenv]", OF names]
  ultimately obtain env' where "load_dotenv True [''.env'' \<mapsto> sample_dotenv] [''AXENO_BIND'' \<mapsto> ''real''] = Some env'"
    "\<And>k. env' k = (case [''AXENO_BIND'' \<mapsto> ''real''] k of
        Some v \<Rightarrow> Some v | None \<Rightarrow> map_of (assignments sample_dotenv) k)"
    by (auto simp: r cong: option.case_cong)
  then show ?thesis by (simp add: sample_assignments)
qed

end
