(* ===== verification/UpdateCheck.thy ===== *)
theory UpdateCheck
  imports HostEnv
begin

text \<open>
  The release notification of \<open>src/update_check.rs\<close> and the tor daemon of \<open>src/tor.rs\<close> whose
  SOCKS port it rides. The HTTP client, the JSON of the answer and semantic versions are
  parameters; what matters here is which requests leave the host, when, and through what.
\<close>


section \<open>The tor daemon\<close>

text \<open>What starting the daemon meets: whether tor is installed, a free port, the calls' outcomes.\<close>

record tor_in =
  tor_installed :: bool
  tor_dirs_ok :: bool
  tor_free_port :: "u16 option"
  tor_write :: write_io
  tor_spawn_ok :: bool

record tor_child =
  child_args :: "string list"
  child_env :: os_environ

definition nl :: string where
  "nl = [CHR 0x0A]"

definition torrc_content :: "path \<Rightarrow> path \<Rightarrow> u16 \<Rightarrow> u16 \<Rightarrow> string" where
  "torrc_content tor_dir hs_dir port socks_port =
     ''DataDirectory '' @ tor_dir @ nl @
     ''HiddenServiceDir '' @ hs_dir @ nl @
     ''HiddenServiceVersion 3'' @ nl @
     ''HiddenServicePort 80 127.0.0.1:'' @ show_dec (unat port) @ nl @
     ''SocksPort 127.0.0.1:'' @ show_dec (unat socks_port) @ nl @
     ''Log notice stdout'' @ nl"

text \<open>\<open>fs::write\<close>: as a truncating open and write, without a sync.\<close>

definition fs_write :: "write_io \<Rightarrow> path \<Rightarrow> string \<Rightarrow> disk \<Rightarrow> disk \<times> bool" where
  "fs_write io p raw d = write_truncate (io\<lparr>sync_ok := True\<rparr>) p raw d"

text \<open>
  \<open>Err\<close> is \<open>None\<close>; \<open>Ok\<close> is the SOCKS port and the child that was spawned, or nothing when tor is not
  installed.
\<close>

definition start_tor_hidden_service ::
    "tor_in \<Rightarrow> nat \<Rightarrow> os_environ \<Rightarrow> u16 \<Rightarrow> path \<Rightarrow> disk \<Rightarrow> disk \<times> (u16 \<times> tor_child) option option" where
  "start_tor_hidden_service r pid env port data_dir d =
     (if \<not> tor_installed r then (d, Some None)
      else
        (let tor_dir = path_join data_dir ''tor'';
             hs_dir = path_join tor_dir ''hs'';
             torrc_path = path_join tor_dir ''torrc''
         in if \<not> tor_dirs_ok r then (d, None)
            else
              (case tor_free_port r of
                 None \<Rightarrow> (d, None)
               | Some socks_port \<Rightarrow>
                   (case fs_write (tor_write r) torrc_path (torrc_content tor_dir hs_dir port socks_port) d of
                      (d, False) \<Rightarrow> (d, None)
                    | (d, True) \<Rightarrow>
                        if \<not> tor_spawn_ok r then (d, None)
                        else
                          (d, Some (Some (socks_port,
                             \<lparr>child_args = [''-f'', torrc_path, ''__OwningControllerProcess'', show_dec pid],
                              child_env = env(''AXENO_KEY'' := None, ''AXENO_KEY_FILE'' := None)\<rparr>)))))))"

text \<open>
  The reader of tor's output: at the first line that says so the host name is looked for up to 30
  times, a second apart (\<open>tries\<close> says what each look finds), and written as the onion address;
  once written, later lines are only logged. The result is what is written, in order.
\<close>

fun first_found :: "nat \<Rightarrow> (nat \<Rightarrow> string option) \<Rightarrow> string option" where
  "first_found 0 tries = None"
| "first_found (Suc n) tries =
     (case tries 0 of Some h \<Rightarrow> Some h | None \<Rightarrow> first_found n (\<lambda>i. tries (Suc i)))"

fun tor_output :: "(string \<times> (nat \<Rightarrow> string option)) list \<Rightarrow> bool \<Rightarrow> string list" where
  "tor_output [] announced = []"
| "tor_output ((line, tries) # rest) announced =
     (if announced \<or> \<not> sublist ''Bootstrapped 100%'' line then tor_output rest announced
      else
        (case first_found 30 tries of
           Some hostname \<Rightarrow> (''ws://'' @ trim hostname @ ''/ws'') # tor_output rest True
         | None \<Rightarrow> tor_output rest announced))"

text \<open>The port that main passes on: of a relay bound to a loopback address whose tor came up.\<close>

definition tor_socks_port :: "bool \<Rightarrow> (u16 \<times> tor_child) option option \<Rightarrow> u16 option" where
  "tor_socks_port is_loopback started =
     (if is_loopback then (case started of Some (Some (port, _)) \<Rightarrow> Some port | _ \<Rightarrow> None) else None)"


section \<open>The check\<close>

datatype mode = ModeDefault | ModeEnabled | ModeDisabled

definition update_mode :: "environ \<Rightarrow> mode" where
  "update_mode env =
     (case env ''AXENO_UPDATE_CHECK'' of
        None \<Rightarrow> ModeDefault
      | Some v \<Rightarrow>
          (let w = to_ascii_lowercase (trim v)
           in if w \<in> set [''1'', ''true'', ''yes'', ''on''] then ModeEnabled
              else if w \<in> set [''0'', ''false'', ''no'', ''off'', ''''] then ModeDisabled
              else ModeDisabled))"

text \<open>The decision of \<open>spawn\<close>: no task, or a task with the proxy port it uses.\<close>

definition spawn_port :: "environ \<Rightarrow> u16 option \<Rightarrow> u16 option option" where
  "spawn_port env socks_port =
     (case update_mode env of
        ModeDisabled \<Rightarrow> None
      | ModeDefault \<Rightarrow> (case socks_port of None \<Rightarrow> None | Some port \<Rightarrow> Some (Some port))
      | ModeEnabled \<Rightarrow> Some socks_port)"

record request =
  req_url :: string
  req_proxy :: "string option"

record response =
  resp_success :: bool
  resp_body :: string

record release =
  tag_name :: string
  html_url :: string

text \<open>What one check meets: the client and the proxy build, the answer, and the versions.\<close>

record 'v check_in =
  client_ok :: bool
  fetch :: "request \<Rightarrow> response option"
  release_json :: "string \<Rightarrow> release option"
  parse_version :: "string \<Rightarrow> 'v option"
  newer :: "'v \<Rightarrow> 'v \<Rightarrow> bool"

definition REPO :: string where "REPO = ''axenochat/axeno-relay''"
definition CHECK_INTERVAL :: nat where "CHECK_INTERVAL = 24 * 60 * 60"
definition INITIAL_DELAY :: nat where "INITIAL_DELAY = 2 * 60"
definition RETRY_INTERVAL :: nat where "RETRY_INTERVAL = 30 * 60"

text \<open>The requests it makes, and \<open>Err\<close> (\<open>None\<close>) or the release to announce.\<close>

definition check_once ::
    "'v check_in \<Rightarrow> string \<Rightarrow> u16 option \<Rightarrow> request list \<times> release option option" where
  "check_once N current socks_port =
     (let req = \<lparr>req_url = ''https://api.github.com/repos/'' @ REPO @ ''/releases/latest'',
                 req_proxy = map_option (\<lambda>p. ''socks5h://127.0.0.1:'' @ show_dec (unat p)) socks_port\<rparr>
      in if \<not> client_ok N then ([], None)
         else
           ([req],
            case fetch N req of
              None \<Rightarrow> None
            | Some resp \<Rightarrow>
                if \<not> resp_success resp then None
                else
                  (case release_json N (resp_body resp) of
                     None \<Rightarrow> None
                   | Some rel \<Rightarrow>
                       (case parse_version N current of
                          None \<Rightarrow> None
                        | Some cur \<Rightarrow>
                            (case parse_version N (dropWhile (\<lambda>c. c = CHR ''v'') (tag_name rel)) of
                               Some latest \<Rightarrow> if newer N latest cur then Some (Some rel) else Some None
                             | None \<Rightarrow> Some None)))))"

text \<open>The first rounds of the task's loop: the time of each, its requests and what it announces.\<close>

fun check_loop ::
    "nat \<Rightarrow> (nat \<Rightarrow> 'v check_in) \<Rightarrow> string \<Rightarrow> u16 option \<Rightarrow> nat \<Rightarrow> (nat \<times> request list \<times> release option) list" where
  "check_loop 0 N current port t = []"
| "check_loop (Suc n) N current port t =
     (case check_once (N 0) current port of
        (reqs, Some found) \<Rightarrow>
          (t, reqs, found) # check_loop n (\<lambda>i. N (Suc i)) current port (t + CHECK_INTERVAL)
      | (reqs, None) \<Rightarrow>
          (t, reqs, None) # check_loop n (\<lambda>i. N (Suc i)) current port (t + RETRY_INTERVAL))"

definition update_task ::
    "environ \<Rightarrow> u16 option \<Rightarrow> nat \<Rightarrow> (nat \<Rightarrow> 'v check_in) \<Rightarrow> string \<Rightarrow> (nat \<times> request list \<times> release option) list" where
  "update_task env socks_port n N current =
     (case spawn_port env socks_port of
        None \<Rightarrow> []
      | Some proxy_port \<Rightarrow> check_loop n N current proxy_port INITIAL_DELAY)"


section \<open>Properties\<close>

text \<open>
  A daemon that is started gets a configuration with loopback ports only, none of the relay's
  secrets in its environment, and no other file is written.
\<close>

lemma tor_started:
  assumes "start_tor_hidden_service r pid env port data_dir d = (d', Some (Some (p, child)))"
  defines "tor_dir \<equiv> path_join data_dir ''tor''"
  shows "d' = d(path_join tor_dir ''torrc'' \<mapsto> torrc_content tor_dir (path_join tor_dir ''hs'') port p)"
    "child_env child ''AXENO_KEY'' = None" "child_env child ''AXENO_KEY_FILE'' = None"
    "tor_free_port r = Some p"
  using assms(1)
  by (auto simp: start_tor_hidden_service_def Let_def fs_write_def write_truncate_def fill_file_def tor_dir_def
      split: if_splits option.splits prod.splits bool.splits)

text \<open>The onion address is written at most once.\<close>

lemma tor_output_once: "tor_output lines True = []" "length (tor_output lines announced) \<le> 1"
proof -
  show a: "tor_output lines True = []" for lines by (induction lines) auto
  show "length (tor_output lines announced) \<le> 1"
    by (induction lines announced rule: tor_output.induct) (auto simp: a split: option.splits)
qed

lemma check_once_request:
  "req \<in> set (fst (check_once N current port)) \<Longrightarrow>
   req_proxy req = map_option (\<lambda>p. ''socks5h://127.0.0.1:'' @ show_dec (unat p)) port"
  by (auto simp: check_once_def Let_def split: if_splits)

lemma check_loop_round:
  assumes "(t, reqs, found) \<in> set (check_loop n N current port t0)"
  shows "t0 \<le> t \<and> (\<exists>i. reqs = fst (check_once (N i) current port)
    \<and> found = Option.bind (snd (check_once (N i) current port)) (\<lambda>x. x))"
  using assms
proof (induction n arbitrary: N t0)
  case (Suc n)
  obtain rq fo where c: "check_once (N 0) current port = (rq, fo)" by force
  show ?case
  proof (cases "(t, reqs, found) = (t0, rq, Option.bind fo (\<lambda>x. x))")
    case True
    with c show ?thesis by (intro conjI exI [of _ 0]) auto
  next
    case False
    then obtain t1 where "t0 \<le> t1" "(t, reqs, found) \<in> set (check_loop n (\<lambda>i. N (Suc i)) current port t1)"
      using Suc.prems c by (cases fo) (auto intro: le_add1)
    with Suc.IH [OF this(2)] obtain i where "t0 \<le> t" "reqs = fst (check_once (N (Suc i)) current port)"
      "found = Option.bind (snd (check_once (N (Suc i)) current port)) (\<lambda>x. x)" by auto
    then show ?thesis by blast
  qed
qed simp

lemma check_loop_spacing:
  "sorted_wrt (\<lambda>a b. fst a + RETRY_INTERVAL \<le> fst b) (check_loop n N current port t)"
proof (induction n arbitrary: N t)
  case (Suc n)
  have later: "\<forall>b \<in> set (check_loop n M current port (t + k)). t + RETRY_INTERVAL \<le> fst b"
    if "RETRY_INTERVAL \<le> k" for M k
  proof
    fix b assume b: "b \<in> set (check_loop n M current port (t + k))"
    obtain u rq fo where "b = (u, rq, fo)" using prod_cases3 by blast
    with check_loop_round [of u rq fo n M current port "t + k"] b that show "t + RETRY_INTERVAL \<le> fst b" by simp
  qed
  have "RETRY_INTERVAL \<le> CHECK_INTERVAL" by (simp add: CHECK_INTERVAL_def RETRY_INTERVAL_def)
  then have "\<forall>b \<in> set (check_loop n M current port (t + CHECK_INTERVAL)). t + RETRY_INTERVAL \<le> fst b"
    "\<forall>b \<in> set (check_loop n M current port (t + RETRY_INTERVAL)). t + RETRY_INTERVAL \<le> fst b" for M
    using later by blast+
  then show ?case using Suc.IH
    by (cases "check_once (N 0) current port"; cases "snd (check_once (N 0) current port)") simp_all
qed simp

text \<open>
  C39: the release check stays private. Every request of the update task goes through the SOCKS port
  of the tor that the relay itself started, unless the operator opted in explicitly and there is
  no such tor; the first one waits for tor to bootstrap and the rounds are at least half an hour
  apart; and a release is announced only if its version parses and is newer than the running one.
\<close>

theorem update_check_private:
  assumes "(t, reqs, found) \<in> set (update_task env (tor_socks_port is_loopback started) n N current)"
  shows "(\<forall>req \<in> set reqs.
      case req_proxy req of
        Some x \<Rightarrow> is_loopback \<and> (\<exists>p child. started = Some (Some (p, child))
                   \<and> x = ''socks5h://127.0.0.1:'' @ show_dec (unat p))
      | None \<Rightarrow> (\<not> is_loopback \<or> started = None \<or> started = Some None)
          \<and> (\<exists>v. env ''AXENO_UPDATE_CHECK'' = Some v
                \<and> to_ascii_lowercase (trim v) \<in> {''1'', ''true'', ''yes'', ''on''}))
    \<and> 120 \<le> t
    \<and> sorted_wrt (\<lambda>a b. fst a + 1800 \<le> fst b) (update_task env (tor_socks_port is_loopback started) n N current)
    \<and> (\<forall>rel. found = Some rel \<longrightarrow> (\<exists>i cur latest. parse_version (N i) current = Some cur
          \<and> parse_version (N i) (dropWhile (\<lambda>c. c = CHR ''v'') (tag_name rel)) = Some latest \<and> newer (N i) latest cur))"
proof -
  let ?port = "tor_socks_port is_loopback started"
  obtain port where sp: "spawn_port env ?port = Some port" using assms
    by (cases "spawn_port env ?port") (auto simp: update_task_def)
  then have loop: "update_task env ?port n N current = check_loop n N current port INITIAL_DELAY"
    by (simp add: update_task_def)
  have port: "port = ?port" and opt: "?port = None \<Longrightarrow> update_mode env = ModeEnabled"
    using sp by (auto simp: spawn_port_def split: mode.splits option.splits)
  have en: "update_mode env = ModeEnabled \<Longrightarrow> \<exists>v. env ''AXENO_UPDATE_CHECK'' = Some v
      \<and> to_ascii_lowercase (trim v) \<in> {''1'', ''true'', ''yes'', ''on''}"
    by (auto simp: update_mode_def Let_def split: option.splits if_splits)
  obtain i where t: "INITIAL_DELAY \<le> t" and i: "reqs = fst (check_once (N i) current port)"
    "found = Option.bind (snd (check_once (N i) current port)) (\<lambda>x. x)"
    using check_loop_round [OF assms [unfolded loop]] by blast
  have "(case req_proxy req of
        Some x \<Rightarrow> is_loopback \<and> (\<exists>p child. started = Some (Some (p, child))
                   \<and> x = ''socks5h://127.0.0.1:'' @ show_dec (unat p))
      | None \<Rightarrow> (\<not> is_loopback \<or> started = None \<or> started = Some None)
          \<and> (\<exists>v. env ''AXENO_UPDATE_CHECK'' = Some v
                \<and> to_ascii_lowercase (trim v) \<in> {''1'', ''true'', ''yes'', ''on''}))" if "req \<in> set reqs" for req
    using check_once_request [of req "N i" current port] that i(1) port opt en
    by (cases ?port) (auto simp: tor_socks_port_def split: if_splits option.splits)
  moreover have "\<exists>i cur latest. parse_version (N i) current = Some cur
      \<and> parse_version (N i) (dropWhile (\<lambda>c. c = CHR ''v'') (tag_name rel)) = Some latest \<and> newer (N i) latest cur"
    if "found = Some rel" for rel
    using i(2) that by (auto simp: check_once_def Let_def split: if_splits option.splits)
  ultimately show ?thesis
    using t check_loop_spacing [of n N current port INITIAL_DELAY]
    by (simp add: loop INITIAL_DELAY_def RETRY_INTERVAL_def)
qed

definition sample_check :: "nat check_in" where
  "sample_check = \<lparr>client_ok = True, fetch = (\<lambda>_. Some \<lparr>resp_success = True, resp_body = ''b''\<rparr>),
     release_json = (\<lambda>_. Some \<lparr>tag_name = ''v2'', html_url = ''u''\<rparr>),
     parse_version = (\<lambda>s. if s = ''1'' then Some 1 else if s = ''2'' then Some 2 else None),
     newer = (>)\<rparr>"

theorem update_check_private_witness:
  "\<exists>t reqs. update_task (\<lambda>_. None)
       (tor_socks_port True (Some (Some (9050, \<lparr>child_args = [], child_env = Map.empty\<rparr>)))) 1 (\<lambda>_. sample_check) ''1''
       = [(t, reqs, Some \<lparr>tag_name = ''v2'', html_url = ''u''\<rparr>)]
     \<and> reqs \<noteq> [] \<and> 120 \<le> t \<and> (\<forall>req \<in> set reqs. req_proxy req = Some ''socks5h://127.0.0.1:9050'')"
proof -
  let ?started = "Some (Some (9050, \<lparr>child_args = [], child_env = Map.empty\<rparr>))"
  obtain t reqs where run: "update_task (\<lambda>_. None) (tor_socks_port True ?started) 1 (\<lambda>_. sample_check) ''1''
      = [(t, reqs, Some \<lparr>tag_name = ''v2'', html_url = ''u''\<rparr>)]" "reqs \<noteq> []"
    by (simp add: update_task_def spawn_port_def update_mode_def tor_socks_port_def check_once_def sample_check_def Let_def)
  have chars: "char_of (57 :: nat) = CHR ''9'' \<and> char_of (48 :: nat) = CHR ''0'' \<and> char_of (53 :: nat) = CHR ''5''"
    by code_simp
  have nine: "show_dec 9050 = ''9050''"
    by (simp add: show_dec.simps [of 9050] show_dec.simps [of 905] show_dec.simps [of 90] show_dec.simps [of 9] digit_char_def chars)
  have "(t, reqs, Some \<lparr>tag_name = ''v2'', html_url = ''u''\<rparr>)
      \<in> set (update_task (\<lambda>_. None) (tor_socks_port True ?started) 1 (\<lambda>_. sample_check) ''1'')" using run(1) by simp
  note P = update_check_private [OF this]
  then have "120 \<le> t" by blast
  moreover have "req_proxy req = Some ''socks5h://127.0.0.1:9050''" if "req \<in> set reqs" for req
    using bspec [OF conjunct1 [OF P] that] by (cases "req_proxy req") (simp_all add: nine)
  ultimately have "120 \<le> t" "\<forall>req \<in> set reqs. req_proxy req = Some ''socks5h://127.0.0.1:9050''" by blast+
  with run show ?thesis by blast
qed

end
