(* ===== verification/Steps.thy ===== *)
theory Steps
  imports Prelude
begin

text \<open>
  Tasks that share a state. A task is a tree of atomic steps: it has ended with an answer, or its
  next step takes the shared state to a new one and says how the task goes on. A task can be run
  without interruption (\<open>alone\<close>), after another (\<open>bind\<close>), or on one component of the state
  (\<open>on_part\<close>); several tasks run under a schedule, the list of the numbers of the tasks whose turn
  it is. Every interleaving of the steps is such a schedule.

  The rule \<open>upholds\<close> proves invariants of all interleavings task by task: each task has a debt,
  what the others have to know of where it is, and every step of it keeps the invariant of the state and
  the debts of all tasks.
\<close>


section \<open>Tasks\<close>

datatype ('s, 'o) prog = Return 'o | Step "'s \<Rightarrow> 's \<times> ('s, 'o) prog"

primrec alone :: "('s, 'o) prog \<Rightarrow> 's \<Rightarrow> 's \<times> 'o" where
  "alone (Return x) = (\<lambda>s. (s, x))"
| "alone (Step f) = (\<lambda>s. case map_prod id alone (f s) of (s', run) \<Rightarrow> run s')"

primrec bind :: "('s, 'o) prog \<Rightarrow> ('o \<Rightarrow> ('s, 'p) prog) \<Rightarrow> ('s, 'p) prog" where
  "bind (Return x) k = k x"
| "bind (Step f) k = Step (\<lambda>s. map_prod id (\<lambda>p. bind p k) (f s))"

primrec on_part ::
    "('s \<Rightarrow> 't) \<Rightarrow> ('t \<Rightarrow> 's \<Rightarrow> 's) \<Rightarrow> ('t, 'o) prog \<Rightarrow> ('s, 'o) prog" where
  "on_part part put (Return x) = Return x"
| "on_part part put (Step f) =
     Step (\<lambda>s. map_prod (\<lambda>t. put t s) (on_part part put) (f (part s)))"

text \<open>An operation that is one step.\<close>

definition atomic :: "('s \<Rightarrow> 's \<times> 'o) \<Rightarrow> ('s, 'o) prog" where
  "atomic f = Step (\<lambda>s. map_prod id Return (f s))"

definition update :: "('s \<Rightarrow> 's) \<Rightarrow> ('s, unit) prog" where
  "update f = Step (\<lambda>s. (f s, Return ()))"

lemma prog_induct [case_names Return Step]:
  assumes "\<And>x. P (Return x)" "\<And>f. (\<And>s. P (snd (f s))) \<Longrightarrow> P (Step f)"
  shows "P p"
proof (induction p)
  case (Step f)
  have "P (snd (f s))" for s by (rule Step [of "f s"]) (auto simp: snds.simps intro: prod.collapse [symmetric])
  then show ?case by (rule assms(2))
qed (rule assms(1))

lemma alone_Step [simp]: "alone (Step f) s = (case f s of (s', p) \<Rightarrow> alone p s')"
  by (simp add: map_prod_def split: prod.split)

declare alone.simps(2) [simp del]

lemma alone_bind [simp]: "alone (bind p k) s = (case alone p s of (s', x) \<Rightarrow> alone (k x) s')"
proof (induction p arbitrary: s rule: prog_induct)
  case (Step f)
  from Step [of s] show ?case by (cases "f s") simp
qed simp

lemma bind_assoc: "bind (bind p k) j = bind p (\<lambda>x. bind (k x) j)"
proof (induction p rule: prog_induct)
  case (Step f)
  then show ?case by (simp add: map_prod_def case_prod_unfold)
qed simp

lemma bind_split:
  "bind (if b then p else q) k = (if b then bind p k else bind q k)"
  "bind (case r of None \<Rightarrow> p | Some x \<Rightarrow> q' x) k = (case r of None \<Rightarrow> bind p k | Some x \<Rightarrow> bind (q' x) k)"
  by (auto split: option.split)

lemma alone_part:
  assumes "\<And>s t. part (put t s) = t" "\<And>s t t'. put t' (put t s) = put t' s" "\<And>s. put (part s) s = s"
  shows "alone (on_part part put p) s = (case alone p (part s) of (t, x) \<Rightarrow> (put t s, x))"
proof (induction p arbitrary: s rule: prog_induct)
  case (Step f)
  show ?case using Step [of "part s"]
    by (cases "f (part s)") (simp add: assms split: prod.split)
qed (simp add: assms)

lemma alone_atomic [simp]: "alone (atomic f) s = f s"
  by (simp add: atomic_def map_prod_def split: prod.split)

lemma alone_update [simp]: "alone (update f) s = (f s, ())"
  by (simp add: update_def)


section \<open>Schedules\<close>

definition turn :: "nat \<Rightarrow> 's \<times> ('s, 'o) prog list \<Rightarrow> 's \<times> ('s, 'o) prog list" where
  "turn t = (\<lambda>(s, ps).
     (if t < length ps
      then (case ps ! t of
              Return x \<Rightarrow> (s, ps)
            | Step f \<Rightarrow> (case f s of (s', p) \<Rightarrow> (s', ps[t := p])))
      else (s, ps)))"

definition interleave :: "nat list \<Rightarrow> 's \<times> ('s, 'o) prog list \<Rightarrow> 's \<times> ('s, 'o) prog list" where
  "interleave sched c = fold turn sched c"

lemma interleave_simps [simp]:
  "interleave [] c = c" "interleave (t # sched) c = interleave sched (turn t c)"
  by (simp_all add: interleave_def)

lemma interleave_append: "interleave (xs @ ys) c = interleave ys (interleave xs c)"
  by (simp add: interleave_def)

lemma turn_length [simp]: "length (snd (turn t c)) = length (snd c)"
  by (auto simp: turn_def split: prod.split prog.split)

lemma interleave_length [simp]: "length (snd (interleave sched c)) = length (snd c)"
  by (induction sched arbitrary: c) simp_all

text \<open>One task after the other is one of the schedules.\<close>

lemma alone_interleaved:
  assumes "t < length ps"
  shows "\<exists>sched. set sched \<subseteq> {t} \<and> interleave sched (s, ps)
    = (fst (alone (ps ! t) s), ps[t := Return (snd (alone (ps ! t) s))])"
  using assms
proof (induction "ps ! t" arbitrary: s ps rule: prog_induct)
  case (Return x)
  then have "ps[t := Return x] = ps" by (metis list_update_id)
  then show ?case by (intro exI [of _ "[]"]) (simp flip: Return.hyps)
next
  case (Step f)
  obtain s' p where f: "f s = (s', p)" by force
  let ?ps = "ps[t := p]"
  have "\<exists>sched. set sched \<subseteq> {t} \<and> interleave sched (s', ?ps)
      = (fst (alone (?ps ! t) s'), ?ps[t := Return (snd (alone (?ps ! t) s'))])"
    using Step.hyps(1) [of s ?ps s'] f Step.prems by simp
  then obtain sched where "set sched \<subseteq> {t}" "interleave sched (s', ?ps)
      = (fst (alone p s'), ps[t := Return (snd (alone p s'))])" using Step.prems by auto
  then show ?case using Step.hyps(2) f Step.prems
    by (intro exI [of _ "t # sched"]) (auto simp: turn_def simp flip: Step.hyps(2))
qed


section \<open>Invariants of all interleavings\<close>

inductive upholds ::
    "('s \<Rightarrow> 'd list \<Rightarrow> bool) \<Rightarrow> ('d \<Rightarrow> 'o \<Rightarrow> bool) \<Rightarrow> 'd \<Rightarrow> ('s, 'o) prog \<Rightarrow> bool"
  for Inv Fin where
  return: "Fin d x \<Longrightarrow> upholds Inv Fin d (Return x)"
| step: "(\<And>s ds t. t < length ds \<Longrightarrow> ds ! t = d \<Longrightarrow> Inv s ds \<Longrightarrow>
      \<exists>d'. upholds Inv Fin d' (snd (f s)) \<and> Inv (fst (f s)) (ds[t := d'])) \<Longrightarrow>
    upholds Inv Fin d (Step f)"

inductive_cases upholds_ReturnE: "upholds Inv Fin d (Return x)"
inductive_cases upholds_StepE: "upholds Inv Fin d (Step f)"

lemma upholds_bind:
  assumes "upholds Inv FinP d p" "\<And>d x. FinP d x \<Longrightarrow> upholds Inv Fin d (k x)"
  shows "upholds Inv Fin d (bind p k)"
  using assms(1)
proof induction
  case (return d x)
  then show ?case by (simp add: assms(2))
next
  case (step d f)
  then show ?case by (auto intro!: upholds.step dest!: step split: prod.split simp: map_prod_def case_prod_unfold)
qed

lemma upholds_Fin:
  "upholds Inv Fin d p \<Longrightarrow> (\<And>d x. Fin d x \<Longrightarrow> Fin' d x) \<Longrightarrow> upholds Inv Fin' d p"
  by (induction rule: upholds.induct) (auto intro!: upholds.intros, blast)

lemma upholds_turn:
  assumes "Inv s ds" "list_all2 (upholds Inv Fin) ds ps" "turn t (s, ps) = (s', ps')"
  shows "\<exists>ds'. Inv s' ds' \<and> list_all2 (upholds Inv Fin) ds' ps'"
proof (cases "t < length ps \<and> (\<exists>f. ps ! t = Step f)")
  case False
  with assms show ?thesis by (auto simp: turn_def split: prog.splits if_splits)
next
  case True
  then obtain f where f: "t < length ps" "ps ! t = Step f" by blast
  have len: "length ds = length ps" using assms(2) by (rule list_all2_lengthD)
  have "upholds Inv Fin (ds ! t) (Step f)" using assms(2) f len by (auto dest: list_all2_nthD2)
  then obtain d' where "upholds Inv Fin d' (snd (f s))" "Inv (fst (f s)) (ds[t := d'])"
    using assms(1) f(1) len upholds_StepE [of Inv Fin "ds ! t" f] by metis
  then show ?thesis using assms(2,3) f
    by (auto simp: turn_def split: prod.splits intro!: exI [of _ "ds[t := d']"] list_all2_update_cong)
qed

theorem upholds_interleave:
  assumes "Inv s ds" "list_all2 (upholds Inv Fin) ds ps" "interleave sched (s, ps) = (s', ps')"
  shows "\<exists>ds'. Inv s' ds' \<and> list_all2 (upholds Inv Fin) ds' ps'"
  using assms
proof (induction sched arbitrary: s ds ps)
  case (Cons t sched)
  obtain s1 ps1 where t: "turn t (s, ps) = (s1, ps1)" by force
  with upholds_turn [OF Cons.prems(1,2) t] Cons show ?case by fastforce
qed auto

text \<open>Steps that leave the debt of their task as it is.\<close>

lemma upholds_same:
  assumes "\<And>s ds. Inv s ds \<Longrightarrow> d \<in> set ds \<Longrightarrow> Inv (fst (f s)) ds"
    "\<And>s ds. Inv s ds \<Longrightarrow> d \<in> set ds \<Longrightarrow> upholds Inv Fin d (snd (f s))"
  shows "upholds Inv Fin d (Step f)"
proof (rule upholds.step)
  fix s ds t
  assume "t < length ds" "ds ! t = d" "Inv s ds"
  then show "\<exists>d'. upholds Inv Fin d' (snd (f s)) \<and> Inv (fst (f s)) (ds[t := d'])"
    using assms [of s ds] by (intro exI [of _ d]) (auto simp: list_update_same_conv)
qed

text \<open>
  A task settles if it ends with the debt it began with. The rules follow the shape of the task.
\<close>

named_theorems settle_rules \<open>tasks that end with the debt they began with\<close>

definition settles :: "('s \<Rightarrow> 'd list \<Rightarrow> bool) \<Rightarrow> 'd \<Rightarrow> ('s, 'o) prog \<Rightarrow> bool" where
  "settles Inv d p \<longleftrightarrow> upholds Inv (\<lambda>d' x. d' = d) d p"

lemma settles_return [simp, settle_rules]: "settles Inv d (Return x)"
  by (simp add: settles_def upholds.return)

lemma settles_bind [settle_rules]:
  "settles Inv d p \<Longrightarrow> (\<And>x. settles Inv d (k x)) \<Longrightarrow> settles Inv d (bind p k)"
  unfolding settles_def by (rule upholds_bind [where FinP = "\<lambda>d' x. d' = d"]) auto

lemma settles_step:
  "(\<And>s ds. Inv s ds \<Longrightarrow> d \<in> set ds \<Longrightarrow> Inv (fst (f s)) ds \<and> settles Inv d (snd (f s))) \<Longrightarrow> settles Inv d (Step f)"
  unfolding settles_def by (rule upholds_same) auto

lemma settles_atomic:
  "(\<And>s ds. Inv s ds \<Longrightarrow> d \<in> set ds \<Longrightarrow> Inv (fst (f s)) ds) \<Longrightarrow> settles Inv d (atomic f)"
  unfolding atomic_def by (rule settles_step) simp

lemma settles_atomic_bind:
  assumes "\<And>s ds. Inv s ds \<Longrightarrow> d \<in> set ds \<Longrightarrow> Inv (fst (f s)) ds \<and> settles Inv d (k (snd (f s)))"
  shows "settles Inv d (bind (atomic f) k)"
  unfolding atomic_def
  by (simp, rule settles_step) (use assms in \<open>simp add: map_prod_def case_prod_unfold\<close>)

lemma settles_read [simp, settle_rules]: "settles Inv d (atomic (\<lambda>s. (s, g s)))"
  by (rule settles_atomic) simp

lemma settles_update:
  "(\<And>s ds. Inv s ds \<Longrightarrow> d \<in> set ds \<Longrightarrow> Inv (f s) ds) \<Longrightarrow> settles Inv d (update f)"
  unfolding update_def by (rule settles_step) simp

lemma settles_part [settle_rules]:
  assumes "\<And>s t ds. Inv s ds \<Longrightarrow> Inv (put t s) ds"
  shows "settles Inv d (on_part part put p)"
proof (induction p rule: prog_induct)
  case (Step f)
  show ?case by (simp, rule settles_step) (use Step assms in auto)
qed simp

lemma settles_if [settle_rules]: "(b \<Longrightarrow> settles Inv d p) \<Longrightarrow> (\<not> b \<Longrightarrow> settles Inv d q) \<Longrightarrow> settles Inv d (if b then p else q)"
  by simp

lemma settles_option [settle_rules]:
  "settles Inv d p \<Longrightarrow> (\<And>x. settles Inv d (q x)) \<Longrightarrow> settles Inv d (case r of None \<Rightarrow> p | Some x \<Rightarrow> q x)"
  by (cases r) simp_all

lemma settles_prod [settle_rules]: "(\<And>x y. settles Inv d (q x y)) \<Longrightarrow> settles Inv d (case r of (x, y) \<Rightarrow> q x y)"
  by (cases r) simp

lemma settles_sum [settle_rules]:
  "(\<And>x. settles Inv d (p x)) \<Longrightarrow> (\<And>x. settles Inv d (q x)) \<Longrightarrow> settles Inv d (case r of Inl x \<Rightarrow> p x | Inr x \<Rightarrow> q x)"
  by (cases r) simp_all

text \<open>A beginning that settles, and one step that changes the debt.\<close>

lemma upholds_settled: "settles Inv d p \<Longrightarrow> (\<And>x. Fin d x) \<Longrightarrow> upholds Inv Fin d p"
  unfolding settles_def by (erule upholds_Fin) simp

lemma upholds_after:
  "settles Inv d p \<Longrightarrow> (\<And>x. upholds Inv Fin d (k x)) \<Longrightarrow> upholds Inv Fin d (bind p k)"
  unfolding settles_def by (rule upholds_bind [where FinP = "\<lambda>d' x. d' = d"]) auto

lemma upholds_if:
  "(b \<Longrightarrow> upholds Inv Fin d p) \<Longrightarrow> (\<not> b \<Longrightarrow> upholds Inv Fin d q) \<Longrightarrow> upholds Inv Fin d (if b then p else q)"
  by simp

lemma upholds_atomic_bind:
  assumes "\<And>s ds t. t < length ds \<Longrightarrow> ds ! t = d \<Longrightarrow> Inv s ds \<Longrightarrow>
    \<exists>d'. upholds Inv Fin d' (k (snd (f s))) \<and> Inv (fst (f s)) (ds[t := d'])"
  shows "upholds Inv Fin d (bind (atomic f) k)"
  unfolding atomic_def by (simp, rule upholds.step) (use assms in \<open>simp add: map_prod_def case_prod_unfold\<close>)

lemma upholds_atomic_keep:
  assumes "\<And>s ds. Inv s ds \<Longrightarrow> d \<in> set ds \<Longrightarrow> Inv (fst (f s)) ds \<and> upholds Inv Fin d (k (snd (f s)))"
  shows "upholds Inv Fin d (bind (atomic f) k)"
proof (rule upholds_atomic_bind)
  fix s ds t
  assume "t < length ds" "ds ! t = d" "Inv s ds"
  then show "\<exists>d'. upholds Inv Fin d' (k (snd (f s))) \<and> Inv (fst (f s)) (ds[t := d'])"
    using assms [of s ds] by (intro exI [of _ d]) (auto simp: list_update_same_conv)
qed

lemma upholds_update_bind:
  assumes "\<And>s ds t. t < length ds \<Longrightarrow> ds ! t = d \<Longrightarrow> Inv s ds \<Longrightarrow> Inv (f s) (ds[t := d'])"
    "upholds Inv Fin d' (k ())"
  shows "upholds Inv Fin d (bind (update f) k)"
  unfolding update_def by (simp, rule upholds.step) (use assms in auto)


text \<open>A number summed over the debts of all tasks.\<close>

definition owed :: "('d \<Rightarrow> nat) \<Rightarrow> 'd list \<Rightarrow> nat" where
  "owed f ds = sum_list (map f ds)"

lemma owed_update: "t < length ds \<Longrightarrow> owed f (ds[t := d]) + f (ds ! t) = owed f ds + f d"
  unfolding owed_def by (rule sum_list_map_update)

lemma owed_ge: "t < length ds \<Longrightarrow> f (ds ! t) \<le> owed f ds"
  unfolding owed_def by (rule member_le_sum_list) auto

lemma owed_le: "(\<And>d. d \<in> set ds \<Longrightarrow> f d \<le> 1) \<Longrightarrow> owed f ds \<le> length ds"
  unfolding owed_def by (induction ds) (auto simp: add_le_mono [of _ 1, simplified])


section \<open>Answers\<close>

text \<open>What a task can answer, whatever the other tasks do to the state between its steps.\<close>

inductive answers :: "('o \<Rightarrow> bool) \<Rightarrow> ('s, 'o) prog \<Rightarrow> bool" for P where
  return: "P x \<Longrightarrow> answers P (Return x)"
| step: "(\<And>s. answers P (snd (f s))) \<Longrightarrow> answers P (Step f)"

inductive_simps answers_simps [simp]: "answers P (Return x)" "answers P (Step f)"

named_theorems answer_rules \<open>what a task can answer, by the shape of the task\<close>

lemma answers_bind_with:
  "answers Q p \<Longrightarrow> (\<And>x. Q x \<Longrightarrow> answers P (k x)) \<Longrightarrow> answers P (bind p k)"
  by (induction rule: answers.induct) (simp_all add: map_prod_def case_prod_unfold)

lemma answers_True: "answers (\<lambda>_. True) p"
  by (induction p rule: prog_induct) simp_all

lemma answers_atomic_bind [answer_rules]:
  "(\<And>s. answers P (k (snd (f s)))) \<Longrightarrow> answers P (bind (atomic f) k)"
  by (simp add: atomic_def map_prod_def case_prod_unfold)

lemma answers_update_bind [answer_rules]: "answers P (k ()) \<Longrightarrow> answers P (bind (update f) k)"
  by (simp add: update_def)

lemma answers_bind: "(\<And>x. answers P (k x)) \<Longrightarrow> answers P (bind p k)"
  by (rule answers_bind_with [OF answers_True])

lemma answers_atomic: "(\<And>s. P (snd (f s))) \<Longrightarrow> answers P (atomic f)"
  by (simp add: atomic_def)

lemma answers_if [answer_rules]: "(b \<Longrightarrow> answers P p) \<Longrightarrow> (\<not> b \<Longrightarrow> answers P q) \<Longrightarrow> answers P (if b then p else q)"
  by simp

lemma answers_option [answer_rules]:
  "(r = None \<Longrightarrow> answers P p) \<Longrightarrow> (\<And>x. r = Some x \<Longrightarrow> answers P (q x)) \<Longrightarrow> answers P (case r of None \<Rightarrow> p | Some x \<Rightarrow> q x)"
  by (cases r) simp_all

lemma answers_prod [answer_rules]: "(\<And>x y. answers P (q x y)) \<Longrightarrow> answers P (case r of (x, y) \<Rightarrow> q x y)"
  by (cases r) simp

lemma answers_part [simp]: "answers P p \<Longrightarrow> answers P (on_part part put p)"
  by (induction rule: answers.induct) simp_all

lemma answers_mono: "answers P p \<Longrightarrow> (\<And>x. P x \<Longrightarrow> Q x) \<Longrightarrow> answers Q p"
  by (induction rule: answers.induct) simp_all

lemma answers_alone: "answers P p \<Longrightarrow> P (snd (alone p s))"
  by (induction arbitrary: s rule: answers.induct) (simp_all add: case_prod_unfold)

lemma answers_turn:
  assumes "list_all2 answers Ps ps" "turn t (s, ps) = (s', ps')"
  shows "list_all2 answers Ps ps'"
proof (cases "t < length ps \<and> (\<exists>f. ps ! t = Step f)")
  case True
  then obtain f where f: "t < length ps" "ps ! t = Step f" by blast
  then have "answers (Ps ! t) (Step f)" using assms(1) by (metis list_all2_conv_all_nth)
  then have "answers (Ps ! t) (snd (f s))" by simp
  with assms f show ?thesis
    by (auto simp: turn_def list_all2_conv_all_nth nth_list_update split: prod.splits)
qed (use assms in \<open>auto simp: turn_def split: prog.splits if_splits\<close>)

lemma answers_interleave:
  assumes "list_all2 answers Ps ps" "interleave sched (s, ps) = (s', ps')"
  shows "list_all2 answers Ps ps'"
  using assms
proof (induction sched arbitrary: s ps)
  case (Cons t sched)
  obtain s1 ps1 where "turn t (s, ps) = (s1, ps1)" by force
  with Cons answers_turn [OF Cons.prems(1), of t s s1 ps1] show ?case by simp
qed simp

lemma upholds_answers:
  "upholds Inv Fin d p \<Longrightarrow> answers P p \<Longrightarrow> upholds Inv (\<lambda>d x. Fin d x \<and> P x) d p"
proof (induction rule: upholds.induct)
  case (step d f)
  show ?case
  proof (rule upholds.step)
    fix s ds t
    assume "t < length ds" "ds ! t = d" "Inv s ds"
    from step.IH [OF this] step.prems
    show "\<exists>d'. upholds Inv (\<lambda>d x. Fin d x \<and> P x) d' (snd (f s)) \<and> Inv (fst (f s)) (ds[t := d'])"
      by auto
  qed
qed (simp add: upholds.return)


section \<open>Frames\<close>

text \<open>A task that leaves a part of the state as it is keeps every invariant of that part.\<close>

inductive leaves :: "('s \<Rightarrow> 'r) \<Rightarrow> ('s, 'o) prog \<Rightarrow> bool" for part where
  return: "leaves part (Return x)"
| step: "(\<And>s. part (fst (f s)) = part s) \<Longrightarrow> (\<And>s. leaves part (snd (f s))) \<Longrightarrow> leaves part (Step f)"

inductive_simps leaves_simps [simp]: "leaves part (Return x)" "leaves part (Step f)"

named_theorems leave_rules \<open>tasks that leave a part of the state as it is, by their shape\<close>

lemma leaves_bind [leave_rules]: "leaves part p \<Longrightarrow> (\<And>x. leaves part (k x)) \<Longrightarrow> leaves part (bind p k)"
  by (induction rule: leaves.induct) (simp_all add: map_prod_def case_prod_unfold)

lemma leaves_return [leave_rules]: "leaves part (Return x)"
  by simp

lemma leaves_atomic: "(\<And>s. part (fst (f s)) = part s) \<Longrightarrow> leaves part (atomic f)"
  by (simp add: atomic_def)

lemma leaves_read [leave_rules]: "leaves part (atomic (\<lambda>s. (s, g s)))"
  by (simp add: leaves_atomic)

lemma leaves_update: "(\<And>s. part (f s) = part s) \<Longrightarrow> leaves part (update f)"
  by (simp add: update_def)

lemma leaves_part [leave_rules]:
  "(\<And>t s. part (put t s) = part s) \<Longrightarrow> leaves part (on_part get put p)"
  by (induction p rule: prog_induct) simp_all

lemma leaves_if [leave_rules]: "(b \<Longrightarrow> leaves part p) \<Longrightarrow> (\<not> b \<Longrightarrow> leaves part q) \<Longrightarrow> leaves part (if b then p else q)"
  by simp

lemma leaves_option [leave_rules]:
  "leaves part p \<Longrightarrow> (\<And>x. leaves part (q x)) \<Longrightarrow> leaves part (case r of None \<Rightarrow> p | Some x \<Rightarrow> q x)"
  by (cases r) simp_all

lemma leaves_prod [leave_rules]: "(\<And>x y. leaves part (q x y)) \<Longrightarrow> leaves part (case r of (x, y) \<Rightarrow> q x y)"
  by (cases r) simp

lemma leaves_sum [leave_rules]:
  "(\<And>x. leaves part (p x)) \<Longrightarrow> (\<And>x. leaves part (q x)) \<Longrightarrow> leaves part (case r of Inl x \<Rightarrow> p x | Inr x \<Rightarrow> q x)"
  by (cases r) simp_all

lemma leaves_settles: "leaves part p \<Longrightarrow> settles (\<lambda>s. Inv (part s)) d p"
proof (induction rule: leaves.induct)
  case (step f)
  show ?case by (rule settles_step) (use step in \<open>simp add: step.hyps\<close>)
qed simp

text \<open>A task on a part of the state keeps on the whole what it keeps on the part.\<close>

lemma upholds_part:
  assumes "upholds Inv Fin d p" "\<And>s t. part (put t s) = t"
  shows "upholds (\<lambda>s. Inv (part s)) Fin d (on_part part put p)"
  using assms(1)
proof (induction rule: upholds.induct)
  case (step d f)
  show ?case
    by (simp, rule upholds.step) (use step assms(2) in \<open>fastforce\<close>)
qed (simp add: upholds.return)

lemma settles_on_part:
  "settles Inv d p \<Longrightarrow> (\<And>s t. part (put t s) = t) \<Longrightarrow> settles (\<lambda>s. Inv (part s)) d (on_part part put p)"
  unfolding settles_def by (rule upholds_part)

end
