(* ===== verification/QueueSteps.thy ===== *)
theory QueueSteps
  imports QueueTheorems Steps
begin

text \<open>
  The operations of \<open>src/queue_store.rs\<close> as tasks: one step for every access to what the
  handlers share, which are the sequence counter, the index, the byte total and the redb transactions.
  Run without interruption each is the operation of \<open>QueueStore\<close>.
\<close>


section \<open>Enqueue\<close>

text \<open>The transaction of \<open>enqueue\<close> and what follows it, with the evictions chosen.\<close>

definition enqueue_txn ::
    "('t, 'b) queue_env \<Rightarrow> string \<Rightarrow> uuid \<Rightarrow> stored_value \<Rightarrow> uuid list \<Rightarrow> 't queue_store \<Rightarrow> 't queue_store" where
  "enqueue_txn E mailbox i val evict_ids q =
     q\<lparr>envelopes := t_insert (q_table E) (key_for E mailbox i) (enc (q_codec E) val)
                      (t_remove_all (q_table E) (map (key_for E mailbox) evict_ids) (envelopes q))\<rparr>"

definition enqueue_index ::
    "string \<Rightarrow> usize \<Rightarrow> usize \<Rightarrow> usize \<Rightarrow> 't queue_store \<Rightarrow> 't queue_store" where
  "enqueue_index mailbox evicted evict_bytes incoming_len q =
     (let e = index_of (index q) mailbox;
          e' = (usize_sat_add (usize_sat_sub (fst e) evicted) 1,
                usize_sat_add (usize_sat_sub (snd e) evict_bytes) incoming_len)
      in q\<lparr>index := dm_insert mailbox e' (index q)\<rparr>)"

definition enqueue_write ::
    "('t, 'b) queue_env \<Rightarrow> io \<Rightarrow> string \<Rightarrow> uuid \<Rightarrow> stored_value \<Rightarrow> uuid list \<times> usize
     \<Rightarrow> ('t queue_store, usize option) prog" where
  "enqueue_write E io mailbox i val = (\<lambda>(evict_ids, evict_bytes).
     (if \<not> write_ok io then Return None
      else
        bind (update (enqueue_txn E mailbox i val evict_ids)) (\<lambda>_.
        bind (update (\<lambda>q. q\<lparr>total_bytes := usize_add (total_bytes q) (length (sv_c val))\<rparr>)) (\<lambda>_.
        bind (update (\<lambda>q. q\<lparr>total_bytes := atomic_sub_saturating (total_bytes q) evict_bytes\<rparr>)) (\<lambda>_.
        bind (update (enqueue_index mailbox (length evict_ids) evict_bytes (length (sv_c val)))) (\<lambda>_.
        Return (Some (length evict_ids))))))))"

definition needs_eviction :: "string \<Rightarrow> usize \<Rightarrow> 't queue_store \<Rightarrow> bool" where
  "needs_eviction mailbox incoming_len q =
     (let (cur_count, cur_bytes) = index_of (index q) mailbox
      in usize_add cur_count 1 > MAX_QUEUE_PER_RECIPIENT
         \<or> usize_add cur_bytes incoming_len > PER_MAILBOX_QUEUE_BYTES)"

text \<open>What a full mailbox loses, chosen on the mailbox as it is read.\<close>

definition choose_evictions ::
    "('t, 'b) queue_env \<Rightarrow> string \<Rightarrow> usize \<Rightarrow> 't queue_store \<Rightarrow> uuid list \<times> usize" where
  "choose_evictions E mailbox incoming_len q =
     (let existing = read_mailbox E (envelopes q) mailbox
      in evict_loop existing (length existing) (queue_bytes existing) incoming_len [] 0)"

definition enqueue_prog ::
    "('t, 'b) queue_env \<Rightarrow> io \<Rightarrow> u64 \<Rightarrow> string \<Rightarrow> stored_envelope
     \<Rightarrow> ('t queue_store, usize option) prog" where
  "enqueue_prog E io now mailbox env =
     bind (atomic (\<lambda>q. (q\<lparr>next_seq := next_seq q + 1\<rparr>, next_seq q))) (\<lambda>seq.
     let val = \<lparr>sv_t = envelope_type env, sv_c = ciphertext env, sv_q = now, sv_s = seq\<rparr>;
         incoming_len = length (ciphertext env)
     in bind (atomic (\<lambda>q. (q, needs_eviction mailbox incoming_len q))) (\<lambda>needs.
        if \<not> needs then enqueue_write E io mailbox (env_id env) val ([], 0)
        else if \<not> read_ok io then Return None
        else bind (atomic (\<lambda>q. (q, choose_evictions E mailbox incoming_len q)))
               (enqueue_write E io mailbox (env_id env) val)))"

lemma enqueue_alone: "alone (enqueue_prog E io now m env) q = enqueue E io now m env q"
  by (simp add: enqueue_prog_def enqueue_def enqueue_write_def enqueue_txn_def enqueue_index_def
      needs_eviction_def choose_evictions_def Let_def split: prod.split)


section \<open>The other operations\<close>

definition flush_prog ::
    "('t, 'b) queue_env \<Rightarrow> io \<Rightarrow> string \<Rightarrow> ('t queue_store, stored_envelope list option) prog" where
  "flush_prog E io mailbox = atomic (\<lambda>q. (q, flush E io mailbox q))"

definition is_empty_prog ::
    "('t, 'b) queue_env \<Rightarrow> io \<Rightarrow> string \<Rightarrow> ('t queue_store, bool option) prog" where
  "is_empty_prog E io mailbox = atomic (\<lambda>q. (q, is_empty E io mailbox q))"

definition ack_txn ::
    "('t, 'b) queue_env \<Rightarrow> string \<Rightarrow> uuid list \<Rightarrow> 't queue_store \<Rightarrow> 't queue_store \<times> usize \<times> usize" where
  "ack_txn E mailbox ids q =
     (let (db, freed, removed) = fold (ack_step E mailbox) ids (envelopes q, 0, 0)
      in (q\<lparr>envelopes := db\<rparr>, freed, removed))"

definition ack_prog ::
    "('t, 'b) queue_env \<Rightarrow> io \<Rightarrow> string \<Rightarrow> uuid list \<Rightarrow> ('t queue_store, usize option) prog" where
  "ack_prog E io mailbox ids =
     (if ids = [] then Return (Some 0)
      else if \<not> write_ok io then Return None
      else
        bind (atomic (ack_txn E mailbox ids)) (\<lambda>(freed, removed).
        bind (update (\<lambda>q. q\<lparr>total_bytes := atomic_sub_saturating (total_bytes q) freed\<rparr>)) (\<lambda>_.
        if removed > 0
        then bind (update (\<lambda>q. q\<lparr>index := index_sub mailbox removed freed (index q)\<rparr>))
               (\<lambda>_. Return (Some removed))
        else Return (Some removed))))"

lemma ack_alone: "alone (ack_prog E io m ids) q = ack E io m ids q"
  by (simp add: ack_prog_def ack_txn_def ack_def Let_def split: prod.split)

definition purge_txn ::
    "('t, 'b) queue_env \<Rightarrow> string \<Rightarrow> 't queue_store \<Rightarrow> 't queue_store \<times> usize \<times> usize" where
  "purge_txn E mailbox q =
     (let (lo, hi) = mailbox_bounds mailbox;
          entries = t_range (q_table E) lo hi (envelopes q)
      in (q\<lparr>envelopes := t_remove_all (q_table E) (map fst entries) (envelopes q)\<rparr>,
          freed_bytes E entries, length entries))"

definition purge_prog ::
    "('t, 'b) queue_env \<Rightarrow> io \<Rightarrow> string \<Rightarrow> ('t queue_store, usize option) prog" where
  "purge_prog E io mailbox =
     (if \<not> write_ok io then Return None
      else
        bind (atomic (purge_txn E mailbox)) (\<lambda>(freed, n).
        bind (update (\<lambda>q. q\<lparr>total_bytes := atomic_sub_saturating (total_bytes q) freed\<rparr>)) (\<lambda>_.
        bind (update (\<lambda>q. q\<lparr>index := dm_remove mailbox (index q)\<rparr>)) (\<lambda>_.
        Return (Some n)))))"

lemma purge_alone: "alone (purge_prog E io m) q = purge_mailbox E io m q"
  by (simp add: purge_prog_def purge_txn_def purge_mailbox_def Let_def split: prod.split)

definition sweep_txn ::
    "('t, 'b) queue_env \<Rightarrow> u64 \<Rightarrow> 't queue_store
     \<Rightarrow> 't queue_store \<times> usize \<times> (string, usize \<times> usize) dashmap \<times> usize" where
  "sweep_txn E now q =
     (let entries = filter (expired_entry E (sat_sub now QUEUE_TTL_MS))
                      (t_iter (q_table E) (envelopes q))
      in (q\<lparr>envelopes := t_remove_all (q_table E) (map fst entries) (envelopes q)\<rparr>,
          freed_bytes E entries, fold (tally_entry E) entries [], length entries))"

text \<open>The index is corrected mailbox by mailbox.\<close>

fun sweep_index ::
    "(string, usize \<times> usize) dashmap \<Rightarrow> 'o \<Rightarrow> ('t queue_store, 'o) prog" where
  "sweep_index [] x = Return x"
| "sweep_index ((mailbox, n, nbytes) # per_mailbox) x =
     bind (update (\<lambda>q. q\<lparr>index := index_sub mailbox n nbytes (index q)\<rparr>))
       (\<lambda>_. sweep_index per_mailbox x)"

definition sweep_prog ::
    "('t, 'b) queue_env \<Rightarrow> io \<Rightarrow> u64 \<Rightarrow> ('t queue_store, usize option) prog" where
  "sweep_prog E io now =
     (if \<not> write_ok io then Return None
      else
        bind (atomic (sweep_txn E now)) (\<lambda>(freed, per_mailbox, n).
        bind (update (\<lambda>q. q\<lparr>total_bytes := atomic_sub_saturating (total_bytes q) freed\<rparr>)) (\<lambda>_.
        sweep_index per_mailbox (Some n))))"

lemma sweep_index_alone:
  "alone (sweep_index pm x) q =
     (q\<lparr>index := fold (\<lambda>(mailbox, count, nbytes). index_sub mailbox count nbytes) pm (index q)\<rparr>, x)"
  by (induction pm x arbitrary: q rule: sweep_index.induct) simp_all

lemma sweep_alone: "alone (sweep_prog E io now) q = sweep_expired E io now q"
  by (simp add: sweep_prog_def sweep_txn_def sweep_expired_def Let_def sweep_index_alone)

lemmas queue_alone = enqueue_alone ack_alone purge_alone sweep_alone

end
