(* ===== verification/FileSteps.thy ===== *)
theory FileSteps
  imports FileOps Steps
begin

text \<open>
  The operations of \<open>src/file_store.rs\<close> as tasks: one step for every access to what the handlers
  share, which are the entries of the metadata cache, the two counters and the redb transactions.
  redb runs one write transaction at a time, so a transaction is one step, with the byte
  reservation made inside it; what the code does to the counters and the cache before and after it
  are steps of their own. Run without interruption each is the operation of \<open>FileStore\<close>.
\<close>


section \<open>Storing a chunk\<close>

text \<open>The transaction of \<open>write_chunk\<close>: what it reserved, what is to be released, and the outcome.\<close>

definition write_commit ::
    "('m, 'b, 'c) file_env \<Rightarrow> chunk_io \<Rightarrow> u64 \<Rightarrow> string \<Rightarrow> u32 \<Rightarrow> u32 \<Rightarrow> u64 \<Rightarrow> bytes \<Rightarrow> u64 \<Rightarrow> bool
     \<Rightarrow> ('m, 'c) file_store \<Rightarrow> ('m, 'c) file_store \<times> u64 \<times> u64 \<times> (file_reject + file_meta)" where
  "write_commit E io now transfer_id chunk_index total_chunks total_bytes data data_len creating s =
     (if \<not> begin_ok io then (s, 0, 0, Inl Full)
      else
        (case write_txn E io now transfer_id chunk_index total_chunks total_bytes data data_len
                creating s of
           (s, reserved_add, release_after_commit, Inl e) \<Rightarrow> (s, reserved_add, 0, Inl e)
         | (s, reserved_add, release_after_commit, Inr (mt, ct, meta)) \<Rightarrow>
             if \<not> commit_ok io then (s, reserved_add, 0, Inl Full)
             else (s\<lparr>meta_table := mt, chunk_table := ct\<rparr>, reserved_add, release_after_commit, Inr meta)))"

text \<open>The cached metadata after a commit, under the guard of its entry.\<close>

definition cache_entry :: "u32 \<Rightarrow> u64 \<Rightarrow> file_meta \<Rightarrow> file_meta option \<Rightarrow> file_meta" where
  "cache_entry total_chunks total_bytes meta old =
     (let e = (case old of
                 Some e \<Rightarrow> e
               | None \<Rightarrow> \<lparr>m_total_chunks = total_chunks, m_total_bytes = total_bytes,
                           m_stored_bytes = m_stored_bytes meta,
                           m_received_chunks = m_received_chunks meta,
                           m_created_at_ms = m_created_at_ms meta\<rparr>)
      in if m_received_chunks meta \<ge> m_received_chunks e
         then e\<lparr>m_stored_bytes := m_stored_bytes meta, m_received_chunks := m_received_chunks meta\<rparr>
         else e)"

definition mirror_meta ::
    "string \<Rightarrow> u32 \<Rightarrow> u64 \<Rightarrow> file_meta \<Rightarrow> ('m, 'c) file_store \<Rightarrow> ('m, 'c) file_store" where
  "mirror_meta transfer_id total_chunks total_bytes meta s =
     s\<lparr>meta_cache := dm_insert transfer_id
         (cache_entry total_chunks total_bytes meta (dm_get (meta_cache s) transfer_id)) (meta_cache s)\<rparr>"

definition release_if :: "u64 \<Rightarrow> (('m, 'c) file_store, unit) prog" where
  "release_if amount = (if amount > 0 then update (release_bytes amount) else Return ())"

definition write_chunk_prog ::
    "('m, 'b, 'c) file_env \<Rightarrow> chunk_io \<Rightarrow> u64 \<Rightarrow> string \<Rightarrow> u32 \<Rightarrow> u32 \<Rightarrow> u64 \<Rightarrow> bytes \<Rightarrow> u64 \<Rightarrow> bool
     \<Rightarrow> (('m, 'c) file_store, file_reject + stored_chunk) prog" where
  "write_chunk_prog E io now transfer_id chunk_index total_chunks total_bytes data data_len creating =
     bind (atomic (write_commit E io now transfer_id chunk_index total_chunks total_bytes data
             data_len creating)) (\<lambda>(reserved_add, release_after_commit, written).
     case written of
       Inl e \<Rightarrow> bind (release_if reserved_add) (\<lambda>_. Return (Inl e))
     | Inr meta \<Rightarrow>
         bind (release_if release_after_commit) (\<lambda>_.
         bind (update (mirror_meta transfer_id total_chunks total_bytes meta)) (\<lambda>_.
         Return (Inr \<lparr>sc_received_chunks = m_received_chunks meta, sc_total_chunks = total_chunks\<rparr>))))"

text \<open>The claim of a transfer id, under the guard of its cache entry: whether it is new.\<close>

definition claim_transfer ::
    "u64 \<Rightarrow> string \<Rightarrow> u32 \<Rightarrow> u32 \<Rightarrow> u64 \<Rightarrow> ('m, 'c) file_store
     \<Rightarrow> ('m, 'c) file_store \<times> (file_reject + bool)" where
  "claim_transfer now transfer_id chunk_index total_chunks total_bytes s =
     (case dm_get (meta_cache s) transfer_id of
        Some m \<Rightarrow>
          if m_total_chunks m \<noteq> total_chunks \<or> m_total_bytes m \<noteq> total_bytes
          then (s, Inl BadRequest) else (s, Inr False)
      | None \<Rightarrow>
          if chunk_index \<noteq> 0 then (s, Inl NotFound)
          else (s\<lparr>meta_cache := dm_insert transfer_id
                  \<lparr>m_total_chunks = total_chunks, m_total_bytes = total_bytes, m_stored_bytes = 0,
                   m_received_chunks = 0, m_created_at_ms = now\<rparr> (meta_cache s)\<rparr>, Inr True))"

definition uncache :: "string \<Rightarrow> ('m, 'c) file_store \<Rightarrow> ('m, 'c) file_store" where
  "uncache transfer_id s = s\<lparr>meta_cache := dm_remove transfer_id (meta_cache s)\<rparr>"

text \<open>A first chunk, once its id is claimed.\<close>

definition create_prog ::
    "('m, 'b, 'c) file_env \<Rightarrow> chunk_io \<Rightarrow> u64 \<Rightarrow> string \<Rightarrow> u32 \<Rightarrow> u32 \<Rightarrow> u64 \<Rightarrow> bytes \<Rightarrow> u64
     \<Rightarrow> (('m, 'c) file_store, file_reject + stored_chunk) prog" where
  "create_prog E io now_write transfer_id chunk_index total_chunks total_bytes data data_len =
     bind (atomic reserve_slot) (\<lambda>slot.
     case slot of
       Inl e \<Rightarrow> bind (update (uncache transfer_id)) (\<lambda>_. Return (Inl e))
     | Inr _ \<Rightarrow>
         bind (write_chunk_prog E io now_write transfer_id chunk_index total_chunks total_bytes data
                 data_len True) (\<lambda>result.
         case result of
           Inl e \<Rightarrow>
             bind (update release_slot) (\<lambda>_.
             bind (update (uncache transfer_id)) (\<lambda>_. Return (Inl e)))
         | Inr r \<Rightarrow> Return (Inr r)))"

definition store_chunk_prog ::
    "('m, 'b, 'c) file_env \<Rightarrow> chunk_io \<Rightarrow> u64 \<Rightarrow> u64 \<Rightarrow> string \<Rightarrow> u32 \<Rightarrow> u32 \<Rightarrow> u64 \<Rightarrow> bytes
     \<Rightarrow> (('m, 'c) file_store, file_reject + stored_chunk) prog" where
  "store_chunk_prog E io now_claim now_write transfer_id chunk_index total_chunks total_bytes data =
     bind (atomic (\<lambda>s. (s, config s))) (\<lambda>cfg.
     if data = [] \<or> total_chunks = 0 \<or> total_chunks > max_chunks cfg \<or> chunk_index \<ge> total_chunks
     then Return (Inl BadRequest)
     else if total_bytes = 0 \<or> total_bytes > max_file_bytes cfg then Return (Inl TooLarge)
     else
       let data_len = of_nat (length data) :: u64
       in bind (atomic (claim_transfer now_claim transfer_id chunk_index total_chunks total_bytes)) (\<lambda>claim.
          case claim of
            Inl e \<Rightarrow> Return (Inl e)
          | Inr creating \<Rightarrow>
              if creating
              then create_prog E io now_write transfer_id chunk_index total_chunks total_bytes data data_len
              else write_chunk_prog E io now_write transfer_id chunk_index total_chunks total_bytes
                     data data_len False))"


section \<open>Fetching, deleting, sweeping\<close>

definition fetch_chunk_prog ::
    "('m, 'b, 'c) file_env \<Rightarrow> io \<Rightarrow> string \<Rightarrow> u32 \<Rightarrow> (('m, 'c) file_store, file_reject + fetched_chunk) prog"
where
  "fetch_chunk_prog E io transfer_id chunk_index =
     bind (atomic (\<lambda>s. (s, dm_get (meta_cache s) transfer_id))) (\<lambda>cached_meta.
     case cached_meta of
       None \<Rightarrow> Return (Inl NotFound)
     | Some meta \<Rightarrow>
         if chunk_index \<ge> m_total_chunks meta then Return (Inl BadRequest)
         else if \<not> read_ok io then Return (Inl NotFound)
         else
           atomic (\<lambda>s. (s,
             case t_get (f_chunks E) (chunk_table s) (chunk_key transfer_id chunk_index) of
               Some v \<Rightarrow> Inr \<lparr>fc_data = v, fc_total_chunks = m_total_chunks meta,
                              fc_total_bytes = m_total_bytes meta\<rparr>
             | None \<Rightarrow> Inl NotFound)))"

text \<open>The transaction of \<open>delete_transfer\<close>: whether there was a transfer, and the bytes it held.\<close>

definition delete_txn ::
    "('m, 'b, 'c) file_env \<Rightarrow> string \<Rightarrow> ('m, 'c) file_store \<Rightarrow> ('m, 'c) file_store \<times> bool \<times> u64" where
  "delete_txn E transfer_id s =
     (let (lo, hi) = chunk_bounds transfer_id;
          entry = t_get (f_meta E) (meta_table s) transfer_id;
          stored = (case entry of
                      Some v \<Rightarrow> (case dec (f_codec E) v of
                                   Some meta \<Rightarrow> m_stored_bytes meta | None \<Rightarrow> 0)
                    | None \<Rightarrow> 0);
          keys = map fst (t_range (f_chunks E) lo hi (chunk_table s))
      in (s\<lparr>meta_table := t_remove (f_meta E) transfer_id (meta_table s),
            chunk_table := t_remove_all (f_chunks E) keys (chunk_table s)\<rparr>, entry \<noteq> None, stored))"

definition delete_prog ::
    "('m, 'b, 'c) file_env \<Rightarrow> io \<Rightarrow> string \<Rightarrow> (('m, 'c) file_store, bool option) prog" where
  "delete_prog E io transfer_id =
     (if \<not> write_ok io then Return None
      else
        bind (atomic (delete_txn E transfer_id)) (\<lambda>(existed, stored).
        if existed
        then
          bind (update (uncache transfer_id)) (\<lambda>_.
          bind (update release_slot) (\<lambda>_.
          bind (update (release_bytes stored)) (\<lambda>_. Return (Some True))))
        else Return (Some False)))"

fun delete_all_prog ::
    "('m, 'b, 'c) file_env \<Rightarrow> (string \<Rightarrow> io) \<Rightarrow> string list \<Rightarrow> usize
     \<Rightarrow> (('m, 'c) file_store, usize option) prog" where
  "delete_all_prog E io [] removed = Return (Some removed)"
| "delete_all_prog E io (i # ids) removed =
     bind (delete_prog E (io i) i) (\<lambda>r.
     case r of
       None \<Rightarrow> Return None
     | Some existed \<Rightarrow> delete_all_prog E io ids (if existed then usize_add removed 1 else removed))"

definition sweep_files_prog ::
    "('m, 'b, 'c) file_env \<Rightarrow> (string \<Rightarrow> io) \<Rightarrow> u64 \<Rightarrow> (('m, 'c) file_store, usize option) prog" where
  "sweep_files_prog E io now =
     bind (atomic (\<lambda>s. (s, map fst (filter (\<lambda>(k, m). transfer_expired (config s) now m) (meta_cache s)))))
       (\<lambda>expired. delete_all_prog E io expired 0)"


section \<open>Without interruption\<close>

lemma release_if_alone: "alone (release_if n) s = (if n > 0 then release_bytes n s else s, ())"
  by (simp add: release_if_def)

lemma write_chunk_alone:
  "alone (write_chunk_prog E io now tid ci tc tb data len creating) s
     = write_chunk E io now tid ci tc tb data len creating s"
  by (simp add: write_chunk_prog_def write_chunk_def write_commit_def release_if_alone mirror_meta_def
      cache_entry_def Let_def split: prod.split sum.split)

lemma create_alone:
  "alone (create_prog E io t2 tid ci tc tb data len) s =
     (case reserve_slot s of
        (s, Inl e) \<Rightarrow> (s\<lparr>meta_cache := dm_remove tid (meta_cache s)\<rparr>, Inl e)
      | (s, Inr _) \<Rightarrow>
          (case write_chunk E io t2 tid ci tc tb data len True s of
             (s, Inl e) \<Rightarrow>
               (release_slot s\<lparr>meta_cache := dm_remove tid (meta_cache (release_slot s))\<rparr>, Inl e)
           | (s, Inr r) \<Rightarrow> (s, Inr r)))"
  by (simp add: create_prog_def write_chunk_alone uncache_def Let_def split: prod.split sum.split)

lemma store_chunk_alone:
  "alone (store_chunk_prog E io t1 t2 tid ci tc tb data) s = store_chunk E io t1 t2 tid ci tc tb data s"
  by (cases "dm_get (meta_cache s) tid")
    (simp_all add: store_chunk_prog_def store_chunk_def claim_transfer_def create_alone write_chunk_alone Let_def)

lemma fetch_chunk_alone: "alone (fetch_chunk_prog E io tid ci) s = (s, fetch_chunk E io tid ci s)"
  by (simp add: fetch_chunk_prog_def fetch_chunk_def split: option.split)

lemma delete_alone: "alone (delete_prog E io tid) s = delete_transfer E io tid s"
  by (simp add: delete_prog_def delete_txn_def delete_transfer_def uncache_def Let_def split: prod.split)

lemma delete_all_alone: "alone (delete_all_prog E io ids n) s = delete_all E io ids n s"
  by (induction ids arbitrary: n s) (simp_all add: delete_alone split: prod.split option.split)

lemma sweep_files_alone: "alone (sweep_files_prog E io now) s = sweep_expired_files E io now s"
  by (simp add: sweep_files_prog_def sweep_expired_files_def delete_all_alone)

lemmas files_alone = store_chunk_alone fetch_chunk_alone delete_alone sweep_files_alone

end
