(* ===== verification/WsSteps.thy ===== *)
theory WsSteps
  imports Relay QueueSteps FileSteps
begin

text \<open>
  The handlers of \<open>src/ws.rs\<close> and the operations of \<open>src/state.rs\<close> as tasks on the shared state: one
  step for every access to a shared map, counter or table. A guard of a map's entry is held over
  one step, as in the code; what the code does after it has dropped the guard is another step.
  The operations of the stores are those of \<open>QueueSteps\<close> and \<open>FileSteps\<close>.

  A socket is one task, from its slot to its end, and so is each tick of the background tasks. Run
  without interruption, each is the operation of \<open>Ws\<close>, \<open>State\<close> or \<open>Relay\<close> (\<open>frame_alone\<close>,
  \<open>text_alone\<close>, \<open>open_alone\<close>, \<open>close_alone\<close>, \<open>gc_alone\<close>, \<open>flush_meta_alone\<close> in \<open>Tasks\<close>).
\<close>

definition on_queue :: "('t queue_store, 'o) prog \<Rightarrow> (('t, 'c) app_state, 'o) prog" where
  "on_queue = on_part queues (\<lambda>q s. s\<lparr>queues := q\<rparr>)"

lemma alone_on_queue [simp]:
  "alone (on_queue p) s = (case alone p (queues s) of (q, x) \<Rightarrow> (s\<lparr>queues := q\<rparr>, x))"
  unfolding on_queue_def by (rule alone_part) simp_all

definition on_files :: "(('t, 'c) file_store, 'o) prog \<Rightarrow> (('t, 'c) app_state, 'o) prog" where
  "on_files = on_part files (\<lambda>fs s. s\<lparr>files := fs\<rparr>)"

lemma alone_on_files [simp]:
  "alone (on_files p) s = (case alone p (files s) of (fs, x) \<Rightarrow> (s\<lparr>files := fs\<rparr>, x))"
  unfolding on_files_def by (rule alone_part) simp_all


section \<open>Mailboxes\<close>

definition hello_prog ::
    "('t, 'b, 'c) ws_env \<Rightarrow> frame_in \<Rightarrow> string \<Rightarrow> string \<Rightarrow> string \<Rightarrow> u16 option \<Rightarrow> u16 option
     \<Rightarrow> u16 option \<Rightarrow> string option \<Rightarrow> bool \<Rightarrow> conn \<Rightarrow> (('t, 'c) app_state, conn \<times> outputs) prog" where
  "hello_prog W i rid auth_token delivery_token protocol_min protocol_max protocol_version pow
       cert_only c =
     (let dflt = (case protocol_version of Some v \<Rightarrow> v | None \<Rightarrow> PROTOCOL_VERSION);
          client_min = (case protocol_min of Some v \<Rightarrow> v | None \<Rightarrow> dflt);
          client_max = (case protocol_max of Some v \<Rightarrow> v | None \<Rightarrow> dflt);
          selected = min PROTOCOL_VERSION client_max
      in if selected < PROTOCOL_MIN_SUPPORTED \<or> selected < client_min
         then Return (c, [(tx c, err ''protocol_mismatch'' ''no common relay protocol version'')])
         else if \<not> valid_recipient_id rid \<or> \<not> valid_token auth_token \<or> \<not> valid_token delivery_token
         then Return (c, [(tx c, err ''bad_hello'' ''invalid mailbox or token'')])
         else
           bind (atomic (hello_entry W i rid (token_hash (w_hash W) auth_token)
                   (token_hash (w_hash W) delivery_token) pow)) (\<lambda>r.
           case r of
             Some rejection \<Rightarrow> Return (c, [(tx c, rejection)])
           | None \<Rightarrow>
               bind (update (mark_auth_dirty rid)) (\<lambda>_.
               let c = c\<lparr>recipient := Some rid\<rparr>
               in bind (atomic (\<lambda>s. (s, (tx c, HelloOk selected PROTOCOL_MIN_SUPPORTED PROTOCOL_VERSION
                         (i_clock i 2) (trust_root_public_b64 s) (max_file_bytes (limits s)))))) (\<lambda>ok.
               if cert_only then Return (c, [ok])
               else
                 bind (update (\<lambda>s. s\<lparr>online := dm_insert rid (tx c) (online s)\<rparr>)) (\<lambda>_.
                 bind (atomic (\<lambda>s. (s, hello_flush W i (tx c) rid selected s))) (\<lambda>backlog.
                 Return (c, ok # backlog)))))))"

definition set_delivery_tokens_prog ::
    "('t, 'b, 'c) ws_env \<Rightarrow> string \<Rightarrow> string list \<Rightarrow> conn \<Rightarrow> (('t, 'c) app_state, outputs) prog" where
  "set_delivery_tokens_prog W request_id tokens c =
     (case recipient c of
        None \<Rightarrow> Return [(tx c, err ''not_registered'' ''send hello first'')]
      | Some rid \<Rightarrow>
          if tokens = [] \<or> length tokens > MAX_DELIVERY_TOKENS_PER_MAILBOX
             \<or> \<not> list_all valid_token tokens
          then Return [(tx c, err ''bad_tokens'' ''invalid delivery-token allowlist'')]
          else
            bind (atomic (\<lambda>s.
              case dm_get (auths s) rid of
                Some auth \<Rightarrow>
                  (let auth = replace_delivery_hashes (map (token_hash (w_hash W)) tokens) auth
                   in (s\<lparr>auths := dm_insert rid auth (auths s)\<rparr>,
                       Some (length (delivery_token_hashes auth))))
              | None \<Rightarrow> (s, None))) (\<lambda>r.
            case r of
              Some active_count \<Rightarrow>
                bind (update (mark_auth_dirty rid)) (\<lambda>_.
                Return [(tx c, DeliveryTokensSet request_id active_count)])
            | None \<Rightarrow> Return [(tx c, err ''not_registered'' ''mailbox auth missing'')]))"

definition ack_frame_prog ::
    "('t, 'b, 'c) ws_env \<Rightarrow> frame_in \<Rightarrow> uuid list \<Rightarrow> conn \<Rightarrow> (('t, 'c) app_state, outputs) prog" where
  "ack_frame_prog W i ids c =
     (case recipient c of
        None \<Rightarrow> Return [(tx c, err ''not_registered'' ''send hello first'')]
      | Some rid \<Rightarrow>
          bind (on_queue (ack_prog (a_queue (w_app W)) (i_qio i) rid ids)) (\<lambda>r.
          Return [(tx c, AckOk (case r of Some n \<Rightarrow> n | None \<Rightarrow> 0))]))"

text \<open>Removing a registration: whether there was one.\<close>

definition remove_auth :: "string \<Rightarrow> ('t, 'c) app_state \<Rightarrow> ('t, 'c) app_state \<times> bool" where
  "remove_auth rid s =
     (if dm_contains (auths s) rid then (s\<lparr>auths := dm_remove rid (auths s)\<rparr>, True) else (s, False))"

definition release_mailbox :: "('t, 'c) app_state \<Rightarrow> ('t, 'c) app_state" where
  "release_mailbox s = s\<lparr>mailbox_count := usize_sub (mailbox_count s) 1\<rparr>"

definition retire_prog ::
    "('t, 'b, 'c) ws_env \<Rightarrow> frame_in \<Rightarrow> conn \<Rightarrow> (('t, 'c) app_state, outputs \<times> bool) prog" where
  "retire_prog W i c =
     (case recipient c of
        None \<Rightarrow> Return ([(tx c, err ''not_registered'' ''send hello first'')], False)
      | Some rid \<Rightarrow>
          bind (atomic (remove_auth rid)) (\<lambda>removed.
          bind (if removed then update release_mailbox else Return ()) (\<lambda>_.
          bind (on_queue (purge_prog (a_queue (w_app W)) (i_qio i) rid)) (\<lambda>_.
          bind (update (\<lambda>s. s\<lparr>send_rate := dm_remove rid (send_rate s)\<rparr>)) (\<lambda>_.
          bind (update (\<lambda>s. s\<lparr>online := dm_remove rid (online s)\<rparr>)) (\<lambda>_.
          bind (update (mark_auth_dirty rid)) (\<lambda>_.
          Return ([(tx c, AckOk 0)], True))))))))"


section \<open>Messages\<close>

text \<open>The authorization of \<open>SendEnvelope\<close>, under the guard of the mailbox's record.\<close>

definition authorize_send ::
    "('t, 'b, 'c) ws_env \<Rightarrow> frame_in \<Rightarrow> string \<Rightarrow> string \<Rightarrow> ('t, 'c) app_state \<Rightarrow> ('t, 'c) app_state \<times> bool" where
  "authorize_send W i to delivery_token s =
     (case dm_get (auths s) to of
        None \<Rightarrow> (s, False)
      | Some auth \<Rightarrow>
          if \<not> accepts_delivery_hash auth (token_hash (w_hash W) delivery_token) then (s, False)
          else (s\<lparr>auths := dm_insert to (auth\<lparr>last_active_ms := now_activity_ms (i_clock i 1)\<rparr>)
                             (auths s)\<rparr>, True))"

text \<open>
  The live delivery: the route is read and tried under its guard; one that does not take the
  frame is removed after the guard is dropped, whatever it is then.
\<close>

definition deliver_prog ::
    "frame_in \<Rightarrow> string \<Rightarrow> stored_envelope \<Rightarrow> (('t, 'c) app_state, bool \<times> outputs) prog" where
  "deliver_prog i to env =
     bind (atomic (\<lambda>s. (s, dm_get (online s) to))) (\<lambda>route.
     case route of
       None \<Rightarrow> Return (False, [])
     | Some live \<Rightarrow>
         if i_live i then Return (True, [(live, Envelope env)])
         else bind (update (\<lambda>s. s\<lparr>online := dm_remove to (online s)\<rparr>)) (\<lambda>_. Return (False, [])))"

definition send_prog ::
    "('t, 'b, 'c) ws_env \<Rightarrow> frame_in \<Rightarrow> string option \<Rightarrow> string \<Rightarrow> string \<Rightarrow> string \<Rightarrow> string
     \<Rightarrow> conn \<Rightarrow> (('t, 'c) app_state, outputs) prog" where
  "send_prog W i client_ref to delivery_token etype ctext c =
     (if \<not> valid_recipient_id to \<or> \<not> valid_token delivery_token
      then Return [(tx c, send_err client_ref ''bad_send'' ''invalid destination or delivery token'')]
      else if length etype > 32
      then Return [(tx c, send_err client_ref ''bad_envelope'' ''envelope type too long'')]
      else
        bind (atomic (authorize_send W i to delivery_token)) (\<lambda>authorized.
        if \<not> authorized
        then Return [(tx c, send_err client_ref ''delivery_denied'' ''delivery token rejected'')]
        else
          bind (atomic (allow_dest_send (i_clock i 2) to)) (\<lambda>allowed.
          if \<not> allowed
          then Return [(tx c, send_err client_ref ''rate_limited'' ''too many sends to this destination'')]
          else
            let env = \<lparr>env_id = i_uuid i, env_to = to, envelope_type = etype, ciphertext = ctext\<rparr>
            in bind (deliver_prog i to env) (\<lambda>(delivered_live, live_out).
               bind (atomic (\<lambda>s. (s, would_exceed_global (queues s) (length ctext)))) (\<lambda>full.
               if full
               then Return (live_out @
                      [(tx c, if delivered_live then SendOk (i_uuid i) False client_ref
                              else send_err client_ref ''relay_full''
                                     ''relay queue storage limit reached'')])
               else
                 bind (on_queue (enqueue_prog (a_queue (w_app W)) (i_qio i) (i_clock i 3) to env)) (\<lambda>r.
                 bind (update (mark_auth_dirty to)) (\<lambda>_.
                 Return (live_out @
                   [(tx c, if r \<noteq> None \<or> delivered_live
                           then SendOk (i_uuid i) (\<not> delivered_live) client_ref
                           else send_err client_ref ''relay_error''
                                  ''could not persist message for offline delivery'')]))))))))"


section \<open>Invite bundles\<close>

fun prune_loop :: "(string \<times> usize) list \<Rightarrow> usize \<Rightarrow> (('t, 'c) app_state, usize) prog" where
  "prune_loop [] freed = Return freed"
| "prune_loop ((i, len) # expired) freed =
     bind (atomic (\<lambda>s. (s\<lparr>bundles := dm_remove i (bundles s)\<rparr>, dm_contains (bundles s) i))) (\<lambda>removed.
     if removed
     then bind (update (mark_bundle_dirty i)) (\<lambda>_. prune_loop expired (usize_sat_add freed len))
     else prune_loop expired freed)"

definition prune_prog :: "u64 \<Rightarrow> (('t, 'c) app_state, unit) prog" where
  "prune_prog now =
     bind (atomic (\<lambda>s. (s, last_bundle_prune_ms s))) (\<lambda>last.
     if sat_sub now last < BUNDLE_PRUNE_MIN_INTERVAL_MS \<and> last \<noteq> 0 then Return ()
     else
       bind (update (\<lambda>s. s\<lparr>last_bundle_prune_ms := now\<rparr>)) (\<lambda>_.
       bind (atomic (\<lambda>s. (s, map (\<lambda>(k, b). (k, length (b_ciphertext b)))
                               (filter (\<lambda>(k, b). b_expires_at_ms b \<le> now) (bundles s))))) (\<lambda>expired.
       if expired = [] then Return ()
       else
         bind (prune_loop expired 0) (\<lambda>freed.
         update (\<lambda>s. s\<lparr>total_bundle_bytes := atomic_sub_saturating (total_bundle_bytes s) freed\<rparr>)))))"

definition existing_bundle ::
    "frame_in \<Rightarrow> string \<Rightarrow> string \<Rightarrow> string \<Rightarrow> ('t, 'c) app_state \<Rightarrow> server_frame option" where
  "existing_bundle i request_id bundle_id ctext s =
     (case dm_get (bundles s) bundle_id of
        None \<Rightarrow> None
      | Some existing \<Rightarrow>
          if b_expires_at_ms existing \<le> i_clock i 2 then None
          else if b_ciphertext existing = ctext
          then Some (BundleUploaded request_id bundle_id (b_expires_at_ms existing))
          else Some (err ''bundle_exists'' ''an invite bundle with this id already exists''))"

definition upload_bundle_prog ::
    "('t, 'b, 'c) ws_env \<Rightarrow> frame_in \<Rightarrow> string \<Rightarrow> string \<Rightarrow> string \<Rightarrow> u64 \<Rightarrow> string option \<Rightarrow> conn
     \<Rightarrow> (('t, 'c) app_state, outputs) prog" where
  "upload_bundle_prog W i request_id bundle_id ctext expires_at_ms pow c =
     (if \<not> valid_bundle_id bundle_id \<or> length ctext > MAX_BUNDLE_BYTES
      then Return [(tx c, err ''bad_bundle'' ''invalid invite bundle'')]
      else if \<not> pow_valid W i bundle_id pow
      then Return [(tx c, err ''bad_pow'' ''invalid proof of work for invite bundle upload'')]
      else
        bind (prune_prog (i_clock i 1)) (\<lambda>_.
        bind (atomic (\<lambda>s. (s, existing_bundle i request_id bundle_id ctext s))) (\<lambda>existing_reply.
        case existing_reply of
          Some reply \<Rightarrow> Return [(tx c, reply)]
        | None \<Rightarrow>
            bind (atomic (\<lambda>s. (s, length (bundles s)))) (\<lambda>n.
            if n \<ge> MAX_BUNDLES
            then Return [(tx c, err ''relay_full'' ''relay invite bundle limit reached'')]
            else
              bind (atomic (\<lambda>s. (s, total_bundle_bytes s))) (\<lambda>total.
              if usize_sat_add total (length ctext) > MAX_TOTAL_BUNDLE_BYTES
              then Return [(tx c, err ''relay_full'' ''relay invite bundle storage limit reached'')]
              else
                let now = i_clock i 3;
                    max_expires = sat_add now MAX_BUNDLE_TTL_MS;
                    expires = max (min expires_at_ms max_expires) (sat_add now 60000);
                    bundle = \<lparr>b_id = bundle_id, b_ciphertext = ctext, b_created_at_ms = now,
                              b_expires_at_ms = expires\<rparr>
                in bind (atomic (\<lambda>s. (s\<lparr>bundles := dm_insert bundle_id bundle (bundles s)\<rparr>,
                                      dm_get (bundles s) bundle_id))) (\<lambda>old.
                   bind (case old of
                           Some b \<Rightarrow> update (\<lambda>s. s\<lparr>total_bundle_bytes :=
                              atomic_sub_saturating (total_bundle_bytes s) (length (b_ciphertext b))\<rparr>)
                         | None \<Rightarrow> Return ()) (\<lambda>_.
                   bind (update (\<lambda>s. s\<lparr>total_bundle_bytes :=
                           usize_add (total_bundle_bytes s) (length ctext)\<rparr>)) (\<lambda>_.
                   bind (update (mark_bundle_dirty bundle_id)) (\<lambda>_.
                   Return [(tx c, BundleUploaded request_id bundle_id expires)])))))))))"

definition fetch_bundle_prog ::
    "frame_in \<Rightarrow> string \<Rightarrow> string \<Rightarrow> conn \<Rightarrow> (('t, 'c) app_state, outputs) prog" where
  "fetch_bundle_prog i request_id bundle_id c =
     bind (prune_prog (i_clock i 1)) (\<lambda>_.
     bind (atomic (\<lambda>s. (s, dm_get (bundles s) bundle_id))) (\<lambda>found.
     Return (case found of
         Some bundle \<Rightarrow>
           if b_expires_at_ms bundle > i_clock i 2
           then [(tx c, Bundle request_id (b_id bundle) (b_ciphertext bundle) (b_expires_at_ms bundle))]
           else [(tx c, err ''bundle_not_found'' ''invite bundle was not found or has expired'')]
       | None \<Rightarrow> [(tx c, err ''bundle_not_found'' ''invite bundle was not found or has expired'')])))"


section \<open>Files\<close>

definition upload_chunk_prog ::
    "('t, 'b, 'c) ws_env \<Rightarrow> frame_in \<Rightarrow> string \<Rightarrow> string \<Rightarrow> u32 \<Rightarrow> u32 \<Rightarrow> u64 \<Rightarrow> string \<Rightarrow> string option
     \<Rightarrow> conn \<Rightarrow> (('t, 'c) app_state, outputs) prog" where
  "upload_chunk_prog W i request_id transfer_id chunk_index total_chunks declared_bytes ctext pow c =
     (if \<not> valid_bundle_id transfer_id
      then Return [(tx c, file_err request_id transfer_id ''bad_request'' ''invalid transfer id'')]
      else
        (case b64_decode W ctext of
           None \<Rightarrow> Return [(tx c, file_err request_id transfer_id ''bad_request'' ''invalid chunk encoding'')]
         | Some raw \<Rightarrow>
             if chunk_index = 0 \<and> \<not> pow_valid W i transfer_id pow
             then Return [(tx c, file_err request_id transfer_id ''pow_required''
                                   ''invalid proof of work for new file transfer'')]
             else
               bind (on_files (store_chunk_prog (a_files (w_app W)) (i_cio i) (i_clock i 1) (i_clock i 2)
                       transfer_id chunk_index total_chunks declared_bytes raw)) (\<lambda>r.
               Return (case r of
                   Inr stored \<Rightarrow>
                     [(tx c, FileChunkStored request_id transfer_id chunk_index
                               (sc_received_chunks stored) (sc_total_chunks stored))]
                 | Inl reject \<Rightarrow>
                     [(tx c, file_err request_id transfer_id (reject_code reject)
                               (reject_message reject))]))))"

definition fetch_file_prog ::
    "('t, 'b, 'c) ws_env \<Rightarrow> frame_in \<Rightarrow> string \<Rightarrow> string \<Rightarrow> u32 \<Rightarrow> conn \<Rightarrow> (('t, 'c) app_state, outputs) prog"
where
  "fetch_file_prog W i request_id transfer_id chunk_index c =
     (if \<not> valid_bundle_id transfer_id
      then Return [(tx c, file_err request_id transfer_id ''bad_request'' ''invalid transfer id'')]
      else
        bind (on_files (fetch_chunk_prog (a_files (w_app W)) (i_fio i) transfer_id chunk_index)) (\<lambda>r.
        Return (case r of
            Inr chunk \<Rightarrow>
              [(tx c, FileChunk request_id transfer_id chunk_index (fc_total_chunks chunk)
                        (fc_total_bytes chunk) (b64_encode W (fc_data chunk)))]
          | Inl reject \<Rightarrow>
              [(tx c, file_err request_id transfer_id (reject_code reject) (reject_message reject))])))"

definition delete_transfer_prog ::
    "('t, 'b, 'c) ws_env \<Rightarrow> frame_in \<Rightarrow> string \<Rightarrow> string \<Rightarrow> conn \<Rightarrow> (('t, 'c) app_state, outputs) prog" where
  "delete_transfer_prog W i request_id transfer_id c =
     (if \<not> valid_bundle_id transfer_id
      then Return [(tx c, file_err request_id transfer_id ''bad_request'' ''invalid transfer id'')]
      else
        bind (on_files (delete_prog (a_files (w_app W)) (i_fio i) transfer_id)) (\<lambda>_.
        Return [(tx c, TransferDeleted request_id transfer_id)]))"

lemmas file_prog_defs = upload_chunk_prog_def fetch_file_prog_def delete_transfer_prog_def

end
