(* ===== verification/Tasks.thy ===== *)
theory Tasks
  imports WsSteps
begin

text \<open>
  The tasks the relay runs at the same time: a socket from its slot to its end, over the text
  frames it reads, and one tick of each background task of \<open>src/main.rs\<close>. Each run without
  interruption is the definition the other theories use.
\<close>


section \<open>Sockets\<close>

text \<open>One parsed frame: the connection, what is sent, and whether the loop ends.\<close>

definition goes_on :: "conn \<Rightarrow> ('s, outputs) prog \<Rightarrow> ('s, conn \<times> outputs \<times> bool) prog" where
  "goes_on c p = bind p (\<lambda>out. Return (c, out, False))"

fun frame_prog ::
    "('t, 'b, 'c) ws_env \<Rightarrow> frame_in \<Rightarrow> client_frame \<Rightarrow> conn
     \<Rightarrow> (('t, 'c) app_state, conn \<times> outputs \<times> bool) prog" where
  "frame_prog W i (Hello rid auth_token delivery_token pmin pmax pver pow cert_only) c =
     bind (hello_prog W i rid auth_token delivery_token pmin pmax pver pow cert_only c)
       (\<lambda>(c, out). Return (c, out, False))"
| "frame_prog W i (SetDeliveryTokens request_id tokens) c =
     goes_on c (set_delivery_tokens_prog W request_id tokens c)"
| "frame_prog W i (IssueSenderCertificate request_id sender dev key) c =
     goes_on c (atomic (\<lambda>s. (s, handle_issue_certificate W i request_id sender dev key c s)))"
| "frame_prog W i (SendEnvelope client_ref to token etype ctext) c =
     goes_on c (send_prog W i client_ref to token etype ctext c)"
| "frame_prog W i (UploadBundle request_id bid ctext expires pow) c =
     goes_on c (upload_bundle_prog W i request_id bid ctext expires pow c)"
| "frame_prog W i (FetchBundle request_id bid) c = goes_on c (fetch_bundle_prog i request_id bid c)"
| "frame_prog W i (UploadFileChunk request_id tid ci tc tb ctext pow) c =
     goes_on c (upload_chunk_prog W i request_id tid ci tc tb ctext pow c)"
| "frame_prog W i (FetchFileChunk request_id tid ci) c =
     goes_on c (fetch_file_prog W i request_id tid ci c)"
| "frame_prog W i (DeleteTransfer request_id tid) c =
     goes_on c (delete_transfer_prog W i request_id tid c)"
| "frame_prog W i (Ack ids) c = goes_on c (ack_frame_prog W i ids c)"
| "frame_prog W i RetireMailbox c =
     bind (retire_prog W i c) (\<lambda>(out, stop). Return (c, out, stop))"
| "frame_prog W i Ping c = Return (c, [(tx c, Pong (i_clock i 1))], False)"

definition text_prog ::
    "('t, 'b, 'c) ws_env \<Rightarrow> frame_in \<Rightarrow> string \<Rightarrow> conn
     \<Rightarrow> (('t, 'c) app_state, conn \<times> outputs \<times> bool) prog" where
  "text_prog W i text c =
     (let c = count_frame (i_clock i 0) c
      in if frame_count c > MAX_FRAMES_PER_WINDOW
         then Return (c, [(tx c, err ''rate_limited'' ''too many frames on this socket'')], False)
         else if length text > MAX_FRAME_BYTES
         then Return (c, [(tx c, err ''too_large'' ''frame too large'')], False)
         else
           (case w_json W text of
              Inl e \<Rightarrow> Return (c, [(tx c, err ''bad_json'' e)], False)
            | Inr frame \<Rightarrow> frame_prog W i frame c))"

definition open_prog :: "u64 \<Rightarrow> chan \<Rightarrow> (('t, 'c) app_state, conn option) prog" where
  "open_prog now ch =
     bind (atomic (\<lambda>s. (s\<lparr>conn_count := usize_add (conn_count s) 1\<rparr>, conn_count s))) (\<lambda>before.
     if before \<ge> MAX_CONNECTIONS
     then bind (update (\<lambda>s. s\<lparr>conn_count := usize_sub (conn_count s) 1\<rparr>)) (\<lambda>_. Return None)
     else Return (Some \<lparr>tx = ch, recipient = None, window_start_ms = now, frame_count = 0\<rparr>))"

text \<open>The end of a socket: the route is compared under its guard, and removed after it.\<close>

definition close_prog :: "conn \<Rightarrow> (('t, 'c) app_state, unit) prog" where
  "close_prog c =
     bind (case recipient c of
             None \<Rightarrow> Return ()
           | Some rid \<Rightarrow>
               bind (atomic (\<lambda>s. (s, dm_get (online s) rid = Some (tx c)))) (\<lambda>remove_this_socket.
               if remove_this_socket
               then update (\<lambda>s. s\<lparr>online := dm_remove rid (online s)\<rparr>) else Return ())) (\<lambda>_.
     update (\<lambda>s. s\<lparr>conn_count := usize_sub (conn_count s) 1\<rparr>))"

fun serve_prog ::
    "('t, 'b, 'c) ws_env \<Rightarrow> (frame_in \<times> string) list \<Rightarrow> conn \<Rightarrow> (('t, 'c) app_state, conn \<times> outputs) prog"
where
  "serve_prog W [] c = Return (c, [])"
| "serve_prog W ((i, text) # texts) c =
     bind (text_prog W i text c) (\<lambda>(c, out, stop).
     if stop then Return (c, out)
     else bind (serve_prog W texts c) (\<lambda>(c, outs). Return (c, out @ outs)))"

definition socket_prog ::
    "('t, 'b, 'c) ws_env \<Rightarrow> u64 \<Rightarrow> chan \<Rightarrow> (frame_in \<times> string) list \<Rightarrow> (('t, 'c) app_state, outputs) prog" where
  "socket_prog W now ch texts =
     bind (open_prog now ch) (\<lambda>opened.
     case opened of
       None \<Rightarrow> Return []
     | Some c \<Rightarrow>
         bind (serve_prog W texts c) (\<lambda>(c, outs). bind (close_prog c) (\<lambda>_. Return outs)))"


section \<open>Background tasks\<close>

text \<open>\<open>flush_dirty_meta\<close>: a mark is taken off before the value is read.\<close>

fun take_auths ::
    "string list \<Rightarrow> (string \<times> mailbox_auth option) list
     \<Rightarrow> (('t, 'c) app_state, (string \<times> mailbox_auth option) list) prog" where
  "take_auths [] batch = Return batch"
| "take_auths (k # ks) batch =
     bind (update (\<lambda>s. s\<lparr>dirty_auth := dm_remove k (dirty_auth s)\<rparr>)) (\<lambda>_.
     bind (atomic (\<lambda>s. (s, dm_get (auths s) k))) (\<lambda>v. take_auths ks (batch @ [(k, v)])))"

fun take_bundles ::
    "string list \<Rightarrow> (string \<times> hosted_bundle option) list
     \<Rightarrow> (('t, 'c) app_state, (string \<times> hosted_bundle option) list) prog" where
  "take_bundles [] batch = Return batch"
| "take_bundles (k # ks) batch =
     bind (update (\<lambda>s. s\<lparr>dirty_bundles := dm_remove k (dirty_bundles s)\<rparr>)) (\<lambda>_.
     bind (atomic (\<lambda>s. (s, dm_get (bundles s) k))) (\<lambda>v. take_bundles ks (batch @ [(k, v)])))"

definition write_auths ::
    "('t, 'b, 'c) app_env \<Rightarrow> io \<Rightarrow> (string \<times> mailbox_auth option) list
     \<Rightarrow> ('t, 'c) app_state \<Rightarrow> ('t, 'c) app_state \<times> unit option" where
  "write_auths E io batch s =
     (case flush_items (a_auth E) (a_auth_codec E) io batch (auth_table s) of
        (_, None) \<Rightarrow> (s, None) | (tbl, Some _) \<Rightarrow> (s\<lparr>auth_table := tbl\<rparr>, Some ()))"

definition write_bundles ::
    "('t, 'b, 'c) app_env \<Rightarrow> io \<Rightarrow> (string \<times> hosted_bundle option) list
     \<Rightarrow> ('t, 'c) app_state \<Rightarrow> ('t, 'c) app_state \<times> unit option" where
  "write_bundles E io batch s =
     (case flush_items (a_bundles E) (a_bundle_codec E) io batch (bundle_table s) of
        (_, None) \<Rightarrow> (s, None) | (tbl, Some _) \<Rightarrow> (s\<lparr>bundle_table := tbl\<rparr>, Some ()))"

definition flush_meta_prog ::
    "('t, 'b, 'c) app_env \<Rightarrow> io \<Rightarrow> io \<Rightarrow> (('t, 'c) app_state, unit option) prog" where
  "flush_meta_prog E io_auth io_bundles =
     bind (atomic (\<lambda>s. (s, map fst (dirty_auth s)))) (\<lambda>auth_keys.
     bind (take_auths auth_keys []) (\<lambda>auth_batch.
     bind (atomic (write_auths E io_auth auth_batch)) (\<lambda>r.
     if r = None then Return None
     else
       bind (atomic (\<lambda>s. (s, map fst (dirty_bundles s)))) (\<lambda>bundle_keys.
       bind (take_bundles bundle_keys []) (\<lambda>bundle_batch.
       atomic (write_bundles E io_bundles bundle_batch))))))"

definition flush_tick_prog ::
    "('t, 'b, 'c) app_env \<Rightarrow> io \<Rightarrow> io \<Rightarrow> (('t, 'c) app_state, outputs) prog" where
  "flush_tick_prog E io_auth io_bundles =
     bind (atomic (\<lambda>s. (s, dirty_auth s = []))) (\<lambda>no_auth.
     bind (if no_auth then atomic (\<lambda>s. (s, dirty_bundles s = [])) else Return False) (\<lambda>skip.
     if skip then Return []
     else bind (flush_meta_prog E io_auth io_bundles) (\<lambda>_. Return [])))"

text \<open>\<open>gc_idle_mailboxes\<close>: the candidates, those of them with nothing queued and no socket, and the
  removal, which looks again under the lock of the entry.\<close>

fun stale_prog ::
    "('t, 'b, 'c) app_env \<Rightarrow> (string \<Rightarrow> io) \<Rightarrow> string list \<Rightarrow> string list \<Rightarrow> (('t, 'c) app_state, string list) prog"
where
  "stale_prog E io [] stale = Return stale"
| "stale_prog E io (rid # rids) stale =
     bind (on_queue (is_empty_prog (a_queue E) (io rid) rid)) (\<lambda>e.
     bind (atomic (\<lambda>s. (s, \<not> dm_contains (online s) rid))) (\<lambda>offline.
     stale_prog E io rids
       (if (case e of Some b \<Rightarrow> b | None \<Rightarrow> True) \<and> offline then stale @ [rid] else stale)))"

definition remove_idle :: "u64 \<Rightarrow> string \<Rightarrow> ('t, 'c) app_state \<Rightarrow> ('t, 'c) app_state \<times> bool" where
  "remove_idle now rid s =
     (case dm_get (auths s) rid of
        None \<Rightarrow> (s, False)
      | Some auth \<Rightarrow>
          if idle now auth \<and> \<not> dm_contains (online s) rid
          then (s\<lparr>auths := dm_remove rid (auths s)\<rparr>, True) else (s, False))"

fun collect_prog ::
    "('t, 'b, 'c) app_env \<Rightarrow> (string \<Rightarrow> io) \<Rightarrow> u64 \<Rightarrow> string list \<Rightarrow> (('t, 'c) app_state, outputs) prog" where
  "collect_prog E io now [] = Return []"
| "collect_prog E io now (rid # stale) =
     bind (atomic (remove_idle now rid)) (\<lambda>collected.
     if \<not> collected then collect_prog E io now stale
     else
       bind (update release_mailbox) (\<lambda>_.
       bind (update (mark_auth_dirty rid)) (\<lambda>_.
       bind (on_queue (purge_prog (a_queue E) (io rid) rid)) (\<lambda>_.
       bind (update (\<lambda>s. s\<lparr>send_rate := dm_remove rid (send_rate s)\<rparr>)) (\<lambda>_.
       collect_prog E io now stale)))))"

definition gc_prog ::
    "('t, 'b, 'c) app_env \<Rightarrow> (string \<Rightarrow> io) \<Rightarrow> u64 \<Rightarrow> (('t, 'c) app_state, outputs) prog" where
  "gc_prog E io now =
     bind (atomic (\<lambda>s. (s, map fst (filter (\<lambda>(k, auth). idle now auth) (auths s))))) (\<lambda>candidates.
     bind (stale_prog E io candidates []) (collect_prog E io now))"

definition queue_sweep_prog ::
    "('t, 'b, 'c) app_env \<Rightarrow> io \<Rightarrow> u64 \<Rightarrow> (('t, 'c) app_state, outputs) prog" where
  "queue_sweep_prog E io now = bind (on_queue (sweep_prog (a_queue E) io now)) (\<lambda>_. Return [])"

definition file_sweep_prog ::
    "('t, 'b, 'c) app_env \<Rightarrow> (string \<Rightarrow> io) \<Rightarrow> u64 \<Rightarrow> (('t, 'c) app_state, outputs) prog" where
  "file_sweep_prog E io now = bind (on_files (sweep_files_prog (a_files E) io now)) (\<lambda>_. Return [])"


section \<open>What runs\<close>

text \<open>
  The meta flush task runs its ticks one after the other. The ticks of the other background
  tasks are separate tasks, which leaves their order free.
\<close>

fun flusher_prog ::
    "('t, 'b, 'c) app_env \<Rightarrow> (io \<times> io) list \<Rightarrow> (('t, 'c) app_state, outputs) prog" where
  "flusher_prog E [] = Return []"
| "flusher_prog E ((io_auth, io_bundles) # ticks) =
     bind (flush_tick_prog E io_auth io_bundles) (\<lambda>_. flusher_prog E ticks)"

datatype task =
    Socket u64 chan "(frame_in \<times> string) list"
  | Flusher "(io \<times> io) list"
  | Collection "string \<Rightarrow> io" u64
  | QueueAging io u64
  | FileAging "string \<Rightarrow> io" u64

fun task_prog :: "('t, 'b, 'c) ws_env \<Rightarrow> task \<Rightarrow> (('t, 'c) app_state, outputs) prog" where
  "task_prog W (Socket now ch texts) = socket_prog W now ch texts"
| "task_prog W (Flusher ticks) = flusher_prog (w_app W) ticks"
| "task_prog W (Collection io now) = gc_prog (w_app W) io now"
| "task_prog W (QueueAging io now) = queue_sweep_prog (w_app W) io now"
| "task_prog W (FileAging io now) = file_sweep_prog (w_app W) io now"

definition all_done :: "('s, 'o) prog list \<Rightarrow> bool" where
  "all_done ps \<longleftrightarrow> list_all (\<lambda>p. case p of Return _ \<Rightarrow> True | Step _ \<Rightarrow> False) ps"


section \<open>Without interruption\<close>

lemma hello_alone:
  "alone (hello_prog W i rid at dt pmin pmax pver pow co c) s =
     (case handle_hello W i rid at dt pmin pmax pver pow co c s of (c, s, out) \<Rightarrow> (s, c, out))"
  by (simp add: hello_prog_def handle_hello_def Let_def split: prod.split option.split)

lemma set_delivery_tokens_alone:
  "alone (set_delivery_tokens_prog W r toks c) s = handle_set_delivery_tokens W r toks c s"
  by (simp add: set_delivery_tokens_prog_def handle_set_delivery_tokens_def Let_def
      split: prod.split option.split)

lemma ack_frame_alone: "alone (ack_frame_prog W i ids c) s = handle_ack W i ids c s"
  by (simp add: ack_frame_prog_def handle_ack_def queue_alone split: prod.split option.split)

lemma retire_alone:
  "alone (retire_prog W i c) s = (case handle_retire W i c s of (s, out, stop) \<Rightarrow> (s, out, stop))"
  by (simp add: retire_prog_def handle_retire_def remove_auth_def release_mailbox_def queue_alone Let_def
      split: prod.split option.split)

lemma deliver_alone:
  "alone (deliver_prog i to env) s = (case deliver_live i to env s of (s, d, out) \<Rightarrow> (s, d, out))"
  by (simp add: deliver_prog_def deliver_live_def split: option.split)

lemma send_alone: "alone (send_prog W i cref to tok ety ctext c) s = handle_send W i cref to tok ety ctext c s"
proof (cases "dm_get (auths s) to")
  case None
  then show ?thesis by (simp add: send_prog_def handle_send_def authorize_send_def)
next
  case (Some auth)
  define s1 where "s1 = s\<lparr>auths := dm_insert to (auth\<lparr>last_active_ms := now_activity_ms (i_clock i 1)\<rparr>) (auths s)\<rparr>"
  obtain s2 allowed where r: "allow_dest_send (i_clock i 2) to s1 = (s2, allowed)" by force
  show ?thesis
    using Some r unfolding s1_def
    by (cases allowed) (simp_all add: send_prog_def handle_send_def authorize_send_def deliver_alone queue_alone
      Let_def split: prod.split)
qed

lemma prune_loop_alone:
  "alone (prune_loop expired freed) s = fold prune_one expired (s, freed)"
proof (induction expired freed arbitrary: s rule: prune_loop.induct)
  case (2 i len expired freed)
  have "dm_remove i (bundles s) = bundles s" if "\<not> dm_contains (bundles s) i"
    using that by (simp add: dm_contains_def dm_remove_absent)
  with 2 show ?case by (simp add: prune_one_def)
qed simp

lemma prune_alone: "alone (prune_prog now) s = (prune_expired_bundles now s, ())"
  by (simp add: prune_prog_def prune_expired_bundles_def prune_loop_alone Let_def split: prod.split)

lemma upload_bundle_alone:
  "alone (upload_bundle_prog W i r bid ctext ex pow c) s = handle_upload_bundle W i r bid ctext ex pow c s"
  by (simp add: upload_bundle_prog_def handle_upload_bundle_def prune_alone existing_bundle_def Let_def
      split: prod.split option.split)

lemma fetch_bundle_alone: "alone (fetch_bundle_prog i r bid c) s = handle_fetch_bundle i r bid c s"
  by (simp add: fetch_bundle_prog_def handle_fetch_bundle_def prune_alone Let_def split: option.split)

lemma upload_chunk_alone:
  "alone (upload_chunk_prog W i r tid ci tc tb ctext pow c) s = handle_upload_chunk W i r tid ci tc tb ctext pow c s"
proof (cases "b64_decode W ctext")
  case (Some raw)
  obtain fs r where "store_chunk (a_files (w_app W)) (i_cio i) (i_clock i 1) (i_clock i 2) tid ci tc tb raw (files s) = (fs, r)"
    by force
  with Some show ?thesis by (cases r) (simp_all add: upload_chunk_prog_def handle_upload_chunk_def files_alone)
qed (simp add: upload_chunk_prog_def handle_upload_chunk_def)

lemma fetch_file_alone:
  "alone (fetch_file_prog W i r tid ci c) s = (s, handle_fetch_chunk W i r tid ci c s)"
  by (simp add: fetch_file_prog_def handle_fetch_chunk_def files_alone)

lemma delete_transfer_alone:
  "alone (delete_transfer_prog W i r tid c) s = handle_delete_transfer W i r tid c s"
  by (simp add: delete_transfer_prog_def handle_delete_transfer_def files_alone split: prod.split)

lemmas handler_alone = hello_alone set_delivery_tokens_alone ack_frame_alone retire_alone send_alone
  upload_bundle_alone fetch_bundle_alone upload_chunk_alone fetch_file_alone delete_transfer_alone

lemma frame_alone:
  "alone (frame_prog W i f c) s = (case handle_frame W i f c s of (c, s, out, stop) \<Rightarrow> (s, c, out, stop))"
  by (cases f) (simp_all add: handler_alone goes_on_def split: prod.split)

lemma text_alone:
  "alone (text_prog W i msg c) s = (case handle_text W i msg c s of (c, s, out, stop) \<Rightarrow> (s, c, out, stop))"
  by (simp add: text_prog_def handle_text_def frame_alone Let_def split: sum.split)

lemma open_alone:
  "alone (open_prog now ch) s = open_socket now ch s"
  by (simp add: open_prog_def open_socket_def Let_def)

lemma close_alone: "alone (close_prog c) s = (close_socket c s, ())"
  by (simp add: close_prog_def close_socket_def Let_def split: option.split)

lemma take_auths_alone:
  "alone (take_auths ks batch) s =
     (s\<lparr>dirty_auth := fold dm_remove ks (dirty_auth s)\<rparr>, batch @ map (\<lambda>k. (k, dm_get (auths s) k)) ks)"
  by (induction ks batch arbitrary: s rule: take_auths.induct) simp_all

lemma take_bundles_alone:
  "alone (take_bundles ks batch) s =
     (s\<lparr>dirty_bundles := fold dm_remove ks (dirty_bundles s)\<rparr>, batch @ map (\<lambda>k. (k, dm_get (bundles s) k)) ks)"
  by (induction ks batch arbitrary: s rule: take_bundles.induct) simp_all

lemma flush_meta_alone: "alone (flush_meta_prog E io1 io2) s = flush_dirty_meta E io1 io2 s"
  by (simp add: flush_meta_prog_def flush_dirty_meta_def take_auths_alone take_bundles_alone
      write_auths_def write_bundles_def Let_def comp_def case_prod_unfold split: prod.split option.split)

lemma flush_tick_alone: "alone (flush_tick_prog E io1 io2) s = (meta_flush_tick E io1 io2 s, [])"
  by (simp add: flush_tick_prog_def meta_flush_tick_def flush_meta_alone split: prod.split)

lemma stale_alone:
  "alone (stale_prog E io rids stale) s = (s, stale @ filter (\<lambda>rid.
     (case is_empty (a_queue E) (io rid) rid (queues s) of Some b \<Rightarrow> b | None \<Rightarrow> True)
      \<and> \<not> dm_contains (online s) rid) rids)"
  by (induction E io rids stale arbitrary: s rule: stale_prog.induct) (simp_all add: is_empty_prog_def)

lemma collect_alone: "alone (collect_prog E io now stale) s = (fold (gc_one E io now) stale s, [])"
  by (induction E io now stale arbitrary: s rule: collect_prog.induct)
    (simp_all add: gc_one_def remove_idle_def release_mailbox_def queue_alone mark_auth_dirty_def Let_def
      split: option.split prod.split)

lemma gc_alone: "alone (gc_prog E io now) s = (mailbox_gc_tick E io now s, [])"
  by (simp add: gc_prog_def mailbox_gc_tick_def gc_idle_mailboxes_def stale_alone collect_alone Let_def)

lemma sweeps_alone:
  "alone (queue_sweep_prog E qio now) s = (queue_sweep_tick E qio now s, [])"
  "alone (file_sweep_prog E fio now) s = (file_sweep_tick E fio now s, [])"
  by (simp_all add: queue_sweep_prog_def queue_sweep_tick_def file_sweep_prog_def file_sweep_tick_def queue_alone files_alone
      split: prod.split)

lemma flusher_alone:
  "alone (flusher_prog E ticks) s = (fold (\<lambda>(io1, io2). meta_flush_tick E io1 io2) ticks s, [])"
  by (induction E ticks arbitrary: s rule: flusher_prog.induct) (simp_all add: flush_tick_alone)

end
