(* ===== verification/TaskCaps.thy ===== *)
theory TaskCaps
  imports Tasks
begin

text \<open>
  The caps of the relay when its tasks interleave. The invariant counts what tasks have taken and
  not yet put in, or taken out and not yet given back: a socket that has counted itself, a
  mailbox that is removed and still counted, a bundle that has passed the check and is not
  inserted.
\<close>


section \<open>Debts\<close>

record debt =
  d_try :: nat
  d_open :: nat
  d_mail :: nat
  d_bundle :: nat

definition no_debt :: debt where
  "no_debt = \<lparr>d_try = 0, d_open = 0, d_mail = 0, d_bundle = 0\<rparr>"

definition small :: "debt \<Rightarrow> bool" where
  "small d \<longleftrightarrow> d_try d + d_open d \<le> 1 \<and> d_mail d \<le> 1 \<and> d_bundle d \<le> 1"

definition caps_inv :: "nat \<Rightarrow> ('t, 'c) app_state \<Rightarrow> debt list \<Rightarrow> bool" where
  "caps_inv N s ds \<longleftrightarrow> length ds = N \<and> N < usize_modulus \<and> list_all small ds
     \<and> conn_count s = owed d_try ds + owed d_open ds \<and> owed d_open ds \<le> MAX_CONNECTIONS
     \<and> dm_wf (auths s) \<and> mailbox_count s = length (auths s) + owed d_mail ds
     \<and> mailbox_count s \<le> MAX_MAILBOXES
     \<and> length (bundles s) + owed d_bundle ds < MAX_BUNDLES + N"

lemma caps_inv_other [simp]:
  "caps_inv N (s\<lparr>queues := x1\<rparr>) = caps_inv N s" "caps_inv N (s\<lparr>files := x2\<rparr>) = caps_inv N s"
  "caps_inv N (s\<lparr>online := x3\<rparr>) = caps_inv N s" "caps_inv N (s\<lparr>send_rate := x4\<rparr>) = caps_inv N s"
  "caps_inv N (s\<lparr>dirty_auth := x5\<rparr>) = caps_inv N s" "caps_inv N (s\<lparr>dirty_bundles := x6\<rparr>) = caps_inv N s"
  "caps_inv N (s\<lparr>total_bundle_bytes := x7\<rparr>) = caps_inv N s"
  "caps_inv N (s\<lparr>last_bundle_prune_ms := x8\<rparr>) = caps_inv N s"
  "caps_inv N (s\<lparr>auth_table := x9\<rparr>) = caps_inv N s" "caps_inv N (s\<lparr>bundle_table := x10\<rparr>) = caps_inv N s"
  "caps_inv N (mark_auth_dirty r s) = caps_inv N s" "caps_inv N (mark_bundle_dirty r s) = caps_inv N s"
  by (auto simp: caps_inv_def fun_eq_iff mark_auth_dirty_def mark_bundle_dirty_def)

lemma caps_inv_auth_old:
  "caps_inv N s ds \<Longrightarrow> dm_get (auths s) k = Some a \<Longrightarrow> caps_inv N (s\<lparr>auths := dm_insert k b (auths s)\<rparr>) ds"
  by (auto simp: caps_inv_def dm_length_insert_old)

lemma caps_inv_bundle_gone: "caps_inv N s ds \<Longrightarrow> caps_inv N (s\<lparr>bundles := dm_remove k (bundles s)\<rparr>) ds"
  using length_delete_le [of k "bundles s"] by (auto simp: caps_inv_def)

text \<open>A step that also changes the debt of its task.\<close>

lemma caps_inv_update:
  assumes "caps_inv N s ds" "t < length ds" "ds ! t = d" "small d'" "dm_wf (auths s')"
    "conn_count s' + d_try d + d_open d = conn_count s + d_try d' + d_open d'"
    "d_open d' \<le> d_open d \<or> owed d_open ds < MAX_CONNECTIONS"
    "mailbox_count s' + length (auths s) + d_mail d = mailbox_count s + length (auths s') + d_mail d'"
    "mailbox_count s' \<le> MAX_MAILBOXES"
    "length (bundles s') + d_bundle d' \<le> length (bundles s) + d_bundle d \<or> length (bundles s') < MAX_BUNDLES"
  shows "caps_inv N s' (ds[t := d'])"
proof -
  have all: "small e" if "e \<in> set (ds[t := d'])" for e
    using that assms(1,4) set_update_subset_insert [of ds t d'] by (auto simp: caps_inv_def list_all_iff)
  have "owed d_bundle (ds[t := d']) \<le> N"
    using owed_le [of "ds[t := d']" d_bundle] all assms(1) by (auto simp: small_def caps_inv_def)
  moreover have "d_open d' \<le> 1" using assms(4) by (simp add: small_def)
  ultimately show ?thesis
    using assms all owed_update [OF assms(2), of d_try d'] owed_update [OF assms(2), of d_open d']
      owed_update [OF assms(2), of d_mail d'] owed_update [OF assms(2), of d_bundle d']
    unfolding caps_inv_def list_all_iff by auto
qed


section \<open>Every task keeps the counts\<close>

lemma caps_on_queue [settle_rules]: "settles (caps_inv N) d (on_queue p)"
  unfolding on_queue_def by (rule settles_part) simp

lemma caps_on_files [settle_rules]: "settles (caps_inv N) d (on_files p)"
  unfolding on_files_def by (rule settles_part) simp

lemma caps_updates [settle_rules]:
  "settles (caps_inv N) d (update (mark_auth_dirty r))"
  "settles (caps_inv N) d (update (mark_bundle_dirty r))"
  "settles (caps_inv N) d (update (\<lambda>s. s\<lparr>online := h1 s\<rparr>))"
  "settles (caps_inv N) d (update (\<lambda>s. s\<lparr>send_rate := h2 s\<rparr>))"
  "settles (caps_inv N) d (update (\<lambda>s. s\<lparr>last_bundle_prune_ms := h3 s\<rparr>))"
  "settles (caps_inv N) d (update (\<lambda>s. s\<lparr>total_bundle_bytes := h4 s\<rparr>))"
  "settles (caps_inv N) d (update (\<lambda>s. s\<lparr>dirty_auth := h5 s\<rparr>))"
  "settles (caps_inv N) d (update (\<lambda>s. s\<lparr>dirty_bundles := h6 s\<rparr>))"
  by (auto intro: settles_update)

text \<open>A task that is at rest has no part in the counts of mailboxes and bundles.\<close>

definition at_rest :: "debt \<Rightarrow> bool" where
  "at_rest d \<longleftrightarrow> small d \<and> d_mail d = 0 \<and> d_bundle d = 0"

lemma caps_hello_entry:
  "at_rest d \<Longrightarrow> settles (caps_inv N) d (atomic (hello_entry W i rid ah dh pow))"
proof (rule settles_atomic)
  fix s :: "('a, 'b) app_state" and ds
  assume "at_rest d" and inv: "caps_inv N s ds"
  show "caps_inv N (fst (hello_entry W i rid ah dh pow s)) ds"
  proof (cases "dm_get (auths s) rid")
    case None
    show ?thesis
    proof (cases "pow_valid W i rid pow \<and> mailbox_count s < MAX_MAILBOXES")
      case True
      then have "usize_add (mailbox_count s) 1 = Suc (mailbox_count s)"
        by (simp add: usize_add_exact config_defs usize_modulus_def)
      with True None inv show ?thesis
        by (auto simp: hello_entry_def reserve_mailbox_slot_def caps_inv_def dm_length_insert_new)
    next
      case False
      with None inv show ?thesis by (auto simp: hello_entry_def reserve_mailbox_slot_def)
    qed
  next
    case (Some a)
    with inv show ?thesis
      by (auto simp: hello_entry_def caps_inv_auth_old split: prod.split)
  qed
qed

lemma caps_hello:
  "at_rest d \<Longrightarrow> settles (caps_inv N) d (hello_prog W i rid at dt pmin pmax pver pow co c)"
  unfolding hello_prog_def Let_def by (intro settle_rules caps_hello_entry)

lemma caps_set_tokens: "settles (caps_inv N) d (set_delivery_tokens_prog W r toks c)"
  unfolding set_delivery_tokens_prog_def
  by (intro settle_rules settles_atomic) (auto simp: Let_def caps_inv_auth_old split: option.split)

lemma caps_send: "settles (caps_inv N) d (send_prog W i cref to tok ety ctext c)"
  unfolding send_prog_def deliver_prog_def Let_def
  by (intro settle_rules settles_atomic)
    (auto simp: authorize_send_def allow_dest_send_def caps_inv_auth_old split: option.split prod.split)

lemma caps_ack: "settles (caps_inv N) d (ack_frame_prog W i ids c)"
  unfolding ack_frame_prog_def by (intro settle_rules)

text \<open>A registration is removed, and its slot given back.\<close>

lemma caps_give_back:
  fixes k :: "unit \<Rightarrow> (('t, 'c) app_state, 'o) prog"
  assumes "at_rest d" "settles (caps_inv N) d (k ())"
  shows "upholds (caps_inv N) (\<lambda>d' x. d' = d) (d\<lparr>d_mail := Suc 0\<rparr>) (bind (update release_mailbox) k)"
proof (rule upholds_update_bind [where d' = d])
  fix s :: "('t, 'c) app_state" and ds t
  assume t: "t < length ds" "ds ! t = d\<lparr>d_mail := Suc 0\<rparr>" "caps_inv N s ds"
  have d: "d_mail d = 0" "small d" using assms(1) by (auto simp: at_rest_def)
  show "caps_inv N (release_mailbox s) (ds[t := d])"
  proof (rule caps_inv_update [OF t(3,1,2) d(2)])
    have "1 \<le> mailbox_count s" using t owed_ge [OF t(1), of d_mail] by (simp add: caps_inv_def)
    moreover have "mailbox_count s < usize_modulus"
      using t(3) by (simp add: caps_inv_def config_defs usize_modulus_def)
    ultimately have "mailbox_count (release_mailbox s) = mailbox_count s - 1" "1 \<le> mailbox_count s"
      by (simp_all add: release_mailbox_def usize_sub_exact)
    then show "mailbox_count (release_mailbox s) + length (auths s) + d_mail (d\<lparr>d_mail := Suc 0\<rparr>)
        = mailbox_count s + length (auths (release_mailbox s)) + d_mail d"
      "mailbox_count (release_mailbox s) \<le> MAX_MAILBOXES"
      using d(1) t(3) by (auto simp: release_mailbox_def caps_inv_def)
  qed (use d t(3) in \<open>auto simp: release_mailbox_def caps_inv_def\<close>)
qed (use assms(2) in \<open>simp add: settles_def\<close>)

lemma caps_release:
  fixes f :: "('t, 'c) app_state \<Rightarrow> ('t, 'c) app_state \<times> bool"
  assumes "at_rest d" "\<And>s b s'. f s = (s', b) \<Longrightarrow>
      (b \<longrightarrow> (\<exists>a. dm_get (auths s) rid = Some a) \<and> s' = s\<lparr>auths := dm_remove rid (auths s)\<rparr>) \<and> (\<not> b \<longrightarrow> s' = s)"
    "settles (caps_inv N) d p" "settles (caps_inv N) d (k ())"
  shows "settles (caps_inv N) d (bind (atomic f) (\<lambda>b. if \<not> b then p else bind (update release_mailbox) k))"
  unfolding settles_def
proof (rule upholds_atomic_bind)
  fix s :: "('t, 'c) app_state" and ds t
  assume t: "t < length ds" "ds ! t = d" "caps_inv N s ds"
  obtain s' b where f: "f s = (s', b)" by force
  let ?d = "if b then d\<lparr>d_mail := Suc 0\<rparr> else d"
  have d: "d_mail d = 0" "small (d\<lparr>d_mail := Suc 0\<rparr>)" using assms(1) by (auto simp: at_rest_def small_def)
  have "caps_inv N s' (ds[t := ?d])"
  proof (cases b)
    case True
    then obtain a where a: "dm_get (auths s) rid = Some a" and s': "s' = s\<lparr>auths := dm_remove rid (auths s)\<rparr>"
      using assms(2) [OF f] by blast
    have wf: "dm_wf (auths s)" using t(3) by (simp add: caps_inv_def)
    have "caps_inv N s' (ds[t := d\<lparr>d_mail := Suc 0\<rparr>])"
      by (rule caps_inv_update [OF t(3,1,2) d(2)])
        (use t(3) d wf s' dm_length_remove [OF wf a] in \<open>auto simp: caps_inv_def\<close>)
    with True show ?thesis by simp
  next
    case False
    then have "ds[t := d] = ds" "s' = s" using t(2) assms(2) [OF f] by (auto simp: list_update_same_conv t(1))
    with False t(3) show ?thesis by simp
  qed
  then show "\<exists>d'. upholds (caps_inv N) (\<lambda>d' x. d' = d) d'
      (if \<not> snd (f s) then p else bind (update release_mailbox) k)
    \<and> caps_inv N (fst (f s)) (ds[t := d'])"
    using f assms(3) [unfolded settles_def] caps_give_back [where k = k, OF assms(1,4)] by (intro exI [of _ ?d]) auto
qed

lemma bind_unless: "bind (if b then p else Return ()) k = (if \<not> b then k () else bind p k)"
  by simp

lemma caps_retire: "at_rest d \<Longrightarrow> settles (caps_inv N) d (retire_prog W i c)"
  unfolding retire_prog_def bind_unless
  by (cases "recipient c", simp, simp only: option.case,
      intro caps_release [where rid = "the (recipient c)"] settle_rules)
    (auto simp: remove_auth_def dm_contains_def split: if_splits)

lemma caps_collect: "at_rest d \<Longrightarrow> settles (caps_inv N) d (collect_prog E io now stale)"
proof (induction E io now stale rule: collect_prog.induct)
  case (2 E io now rid stale)
  show ?case unfolding collect_prog.simps
    by (intro caps_release [where rid = rid] settle_rules 2)
      (use 2 in \<open>auto simp: remove_idle_def split: if_splits option.splits\<close>)
qed simp

lemma caps_stale: "settles (caps_inv N) d (stale_prog E io rids stale)"
  by (induction E io rids stale rule: stale_prog.induct) (auto intro!: settle_rules)

lemma caps_gc: "at_rest d \<Longrightarrow> settles (caps_inv N) d (gc_prog E io now)"
  unfolding gc_prog_def by (intro settle_rules caps_stale caps_collect)

lemma caps_prune_loop: "settles (caps_inv N) d (prune_loop expired freed)"
  by (induction expired freed rule: prune_loop.induct)
    (auto intro!: settle_rules settles_atomic simp: caps_inv_bundle_gone)

lemma caps_prune: "settles (caps_inv N) d (prune_prog now)"
  unfolding prune_prog_def by (intro settle_rules caps_prune_loop)

lemma caps_fetch_bundle: "settles (caps_inv N) d (fetch_bundle_prog i r bid c)"
  unfolding fetch_bundle_prog_def by (intro settle_rules caps_prune)

text \<open>The check of the number of bundles, and the insertion some steps later.\<close>

lemma caps_claim:
  fixes k :: "nat \<Rightarrow> (('t, 'c) app_state, 'o) prog"
  assumes "at_rest d" "\<And>n. n \<ge> MAX_BUNDLES \<Longrightarrow> settles (caps_inv N) d (k n)"
    "\<And>n. n < MAX_BUNDLES \<Longrightarrow> upholds (caps_inv N) (\<lambda>d' x. d' = d) (d\<lparr>d_bundle := Suc 0\<rparr>) (k n)"
  shows "settles (caps_inv N) d (bind (atomic (\<lambda>s. (s, length (bundles s)))) k)"
  unfolding settles_def
proof (rule upholds_atomic_bind)
  fix s :: "('t, 'c) app_state" and ds t
  assume t: "t < length ds" "ds ! t = d" "caps_inv N s ds"
  show "\<exists>d'. upholds (caps_inv N) (\<lambda>d' x. d' = d) d' (k (snd (s, length (bundles s))))
      \<and> caps_inv N (fst (s, length (bundles s))) (ds[t := d'])"
  proof (cases "length (bundles s) < MAX_BUNDLES")
    case True
    have "caps_inv N s (ds[t := d\<lparr>d_bundle := Suc 0\<rparr>])"
      by (rule caps_inv_update [OF t(3,1,2)])
        (use True t(3) assms(1) in \<open>auto simp: caps_inv_def at_rest_def small_def\<close>)
    with True assms(3) show ?thesis by auto
  next
    case False
    then show ?thesis using assms(2) [unfolded settles_def] t
      by (intro exI [of _ d]) (auto simp: list_update_same_conv)
  qed
qed

lemma caps_keep_claim:
  fixes g :: "('t, 'c) app_state \<Rightarrow> 'o"
  assumes "at_rest d" "\<And>y. bad y \<Longrightarrow> settles (caps_inv N) d (k y)"
    "\<And>y. \<not> bad y \<Longrightarrow> upholds (caps_inv N) (\<lambda>d' x. d' = d) (d\<lparr>d_bundle := Suc 0\<rparr>) (k y)"
  shows "upholds (caps_inv N) (\<lambda>d' x. d' = d) (d\<lparr>d_bundle := Suc 0\<rparr>) (bind (atomic (\<lambda>s. (s, g s))) k)"
proof (rule upholds_atomic_bind)
  fix s :: "('t, 'c) app_state" and ds t
  assume t: "t < length ds" "ds ! t = d\<lparr>d_bundle := Suc 0\<rparr>" "caps_inv N s ds"
  have "caps_inv N s (ds[t := d])"
    by (rule caps_inv_update [OF t(3,1,2)]) (use t(3) assms(1) in \<open>auto simp: caps_inv_def at_rest_def\<close>)
  moreover have "ds[t := d\<lparr>d_bundle := Suc 0\<rparr>] = ds" using t(1,2) by (simp add: list_update_same_conv)
  ultimately show "\<exists>d'. upholds (caps_inv N) (\<lambda>d' x. d' = d) d' (k (snd (s, g s)))
      \<and> caps_inv N (fst (s, g s)) (ds[t := d'])"
    using assms(2) [of "g s", unfolded settles_def] assms(3) [of "g s"] t(3) by (cases "bad (g s)") auto
qed

lemma caps_insert_claim:
  fixes g :: "('t, 'c) app_state \<Rightarrow> 'o"
  assumes "at_rest d" "\<And>y. settles (caps_inv N) d (k y)"
  shows "upholds (caps_inv N) (\<lambda>d' x. d' = d) (d\<lparr>d_bundle := Suc 0\<rparr>)
    (bind (atomic (\<lambda>s. (s\<lparr>bundles := dm_insert b v (bundles s)\<rparr>, g s))) k)"
proof (rule upholds_atomic_bind)
  fix s :: "('t, 'c) app_state" and ds t
  assume t: "t < length ds" "ds ! t = d\<lparr>d_bundle := Suc 0\<rparr>" "caps_inv N s ds"
  have "length (dm_insert b v (bundles s)) \<le> Suc (length (bundles s))"
    by (cases "dm_get (bundles s) b") (simp_all add: dm_length_insert_new dm_length_insert_old)
  then have "caps_inv N (s\<lparr>bundles := dm_insert b v (bundles s)\<rparr>) (ds[t := d])"
    by (intro caps_inv_update [OF t(3,1,2)]) (use t(3) assms(1) in \<open>auto simp: caps_inv_def at_rest_def\<close>)
  then show "\<exists>d'. upholds (caps_inv N) (\<lambda>d' x. d' = d) d'
      (k (snd (s\<lparr>bundles := dm_insert b v (bundles s)\<rparr>, g s)))
      \<and> caps_inv N (fst (s\<lparr>bundles := dm_insert b v (bundles s)\<rparr>, g s)) (ds[t := d'])"
    using assms(2) [unfolded settles_def] by auto
qed

lemma caps_upload_bundle:
  "at_rest d \<Longrightarrow> settles (caps_inv N) d (upload_bundle_prog W i r bid ctext ex pow c)"
  unfolding upload_bundle_prog_def Let_def
  apply (intro settles_if settles_return)
  apply (rule settles_bind [OF caps_prune], rule settles_bind [OF settles_read])
  apply (rule settles_option, rule caps_claim)
    apply simp_all
  apply (rule caps_keep_claim [where bad = "\<lambda>total. MAX_TOTAL_BUNDLE_BYTES < usize_sat_add total (length ctext)"])
    apply simp_all
  by (intro caps_insert_claim settle_rules)

text \<open>Every frame leaves an open socket at rest.\<close>

lemma caps_frame:
  assumes "at_rest d"
  shows "settles (caps_inv N) d (frame_prog W i f c)"
proof (cases f)
  case (Hello rid at dt pmin pmax pver pow co)
  then show ?thesis using assms by (auto intro!: settle_rules caps_hello)
qed (use assms in \<open>auto simp: goes_on_def file_prog_defs intro!: settle_rules caps_set_tokens caps_send
      caps_ack caps_retire caps_upload_bundle caps_fetch_bundle\<close>)

lemma caps_serve: "at_rest d \<Longrightarrow> settles (caps_inv N) d (serve_prog W texts c)"
proof (induction W texts c rule: serve_prog.induct)
  case (2 W i msg texts c)
  then show ?case
    by (auto simp: text_prog_def Let_def intro!: settle_rules caps_frame)
qed simp

text \<open>Sockets: counted first, admitted if there was room.\<close>

definition try_debt :: debt where "try_debt = no_debt\<lparr>d_try := Suc 0\<rparr>"
definition open_debt :: debt where "open_debt = no_debt\<lparr>d_open := Suc 0\<rparr>"

lemma debts_at_rest [simp]: "at_rest no_debt" "at_rest try_debt" "at_rest open_debt"
  by (simp_all add: at_rest_def small_def try_debt_def open_debt_def no_debt_def)

lemma caps_count_out:
  assumes "d = try_debt \<or> d = open_debt"
  shows "upholds (caps_inv N) (\<lambda>d' x. d' = no_debt) d
    (bind (update (\<lambda>s. s\<lparr>conn_count := usize_sub (conn_count s) 1\<rparr>)) (\<lambda>_. Return x))"
proof (rule upholds_update_bind [where d' = no_debt])
  fix s :: "('a, 'b) app_state" and ds t
  assume t: "t < length ds" "ds ! t = d" "caps_inv N s ds"
  have "1 \<le> conn_count s" using assms t owed_ge [OF t(1), of d_try] owed_ge [OF t(1), of d_open]
    by (auto simp: caps_inv_def try_debt_def open_debt_def)
  moreover have "conn_count s \<le> N" "N < usize_modulus"
    using t(3) owed_le [of ds "\<lambda>d. d_try d + d_open d"]
    by (auto simp: caps_inv_def owed_def sum_list_addf list_all_iff small_def)
  ultimately have "usize_sub (conn_count s) 1 = conn_count s - 1" "1 \<le> conn_count s"
    by (simp_all add: usize_sub_exact)
  then show "caps_inv N (s\<lparr>conn_count := usize_sub (conn_count s) 1\<rparr>) (ds[t := no_debt])"
    by (intro caps_inv_update [OF t(3,1,2)])
      (use assms t(3) in \<open>auto simp: caps_inv_def try_debt_def open_debt_def no_debt_def small_def\<close>)
qed (simp add: upholds.return)

lemma caps_close:
  "upholds (caps_inv N) (\<lambda>d' x. d' = no_debt) open_debt (bind (close_prog c) (\<lambda>_. Return x))"
  unfolding close_prog_def bind_assoc
  by (rule upholds_after) (auto intro!: caps_count_out settle_rules simp del: One_nat_def)

lemma caps_socket: "settles (caps_inv N) no_debt (socket_prog W now ch texts)"
  unfolding settles_def socket_prog_def open_prog_def bind_assoc
proof (rule upholds_atomic_bind)
  fix s :: "('a, 'b) app_state" and ds t
  assume t: "t < length ds" "ds ! t = no_debt" "caps_inv N s ds"
  let ?d = "if conn_count s \<ge> MAX_CONNECTIONS then try_debt else open_debt"
  have "owed (\<lambda>d. d_try d + d_open d) (ds[t := open_debt]) \<le> N"
    using t(3) owed_le [of "ds[t := open_debt]" "\<lambda>d. d_try d + d_open d"] set_update_subset_insert [of ds t open_debt]
    by (fastforce simp: caps_inv_def list_all_iff small_def open_debt_def no_debt_def)
  then have "Suc (conn_count s) \<le> N"
    using t owed_update [OF t(1), of "\<lambda>d. d_try d + d_open d" open_debt]
    by (auto simp: caps_inv_def owed_def sum_list_addf open_debt_def no_debt_def)
  then have "usize_add (conn_count s) 1 = Suc (conn_count s)"
    using t(3) by (simp add: caps_inv_def usize_add_exact)
  then have "caps_inv N (s\<lparr>conn_count := usize_add (conn_count s) 1\<rparr>) (ds[t := ?d])"
    by (intro caps_inv_update [OF t(3,1,2)])
      (use t(3) in \<open>auto simp: caps_inv_def try_debt_def open_debt_def no_debt_def small_def\<close>)
  moreover have "upholds (caps_inv N) (\<lambda>d' x. d' = no_debt) open_debt
      (bind (serve_prog W texts c) (\<lambda>(c, outs). bind (close_prog c) (\<lambda>_. Return outs)))" for c
    by (rule upholds_after [OF caps_serve]) (auto intro: caps_close)
  ultimately show "\<exists>d'. upholds (caps_inv N) (\<lambda>d' x. d' = no_debt) d'
     (bind (if MAX_CONNECTIONS \<le> snd (s\<lparr>conn_count := usize_add (conn_count s) 1\<rparr>, conn_count s)
        then bind (update (\<lambda>s. s\<lparr>conn_count := usize_sub (conn_count s) 1\<rparr>)) (\<lambda>_. Return None)
        else Return (Some \<lparr>tx = ch, recipient = None, window_start_ms = now, frame_count = 0\<rparr>))
       (\<lambda>opened. case opened of None \<Rightarrow> Return []
         | Some c \<Rightarrow> bind (serve_prog W texts c) (\<lambda>(c, outs). bind (close_prog c) (\<lambda>_. Return outs)))) \<and>
     caps_inv N (fst (s\<lparr>conn_count := usize_add (conn_count s) 1\<rparr>, conn_count s)) (ds[t := d'])"
    using caps_count_out [of try_debt N "[]"] by (intro exI [of _ ?d]) (auto simp: bind_assoc simp del: One_nat_def)
qed


section \<open>Background tasks\<close>

lemma caps_flush_tick: "settles (caps_inv N) d (flush_tick_prog E io1 io2)"
proof -
  have "settles (caps_inv N) d (take_auths ks batch)" "settles (caps_inv N) d (take_bundles ks batch')" for ks batch batch'
    by (induction ks batch rule: take_auths.induct; auto intro!: settle_rules)
      (induction ks batch' rule: take_bundles.induct; auto intro!: settle_rules)
  then show ?thesis
    unfolding flush_tick_prog_def flush_meta_prog_def
    by (intro settle_rules settles_atomic)
      (auto simp: write_auths_def write_bundles_def split: option.split prod.split)
qed

lemma caps_task:
  fixes W :: "('t, 'b, 'c) ws_env"
  shows "settles (caps_inv N) no_debt (task_prog W task)"
proof (cases task)
  case (Flusher ticks)
  have "settles (caps_inv N) d (flusher_prog E ticks)" for d and E :: "('t, 'b, 'c) app_env"
    by (induction E ticks rule: flusher_prog.induct) (auto intro!: settle_rules caps_flush_tick)
  with Flusher show ?thesis by simp
qed (auto simp: queue_sweep_prog_def file_sweep_prog_def intro!: settle_rules caps_socket caps_gc)

end
