(* ===== verification/MailWatch.thy ===== *)
theory MailWatch
  imports QueueSteps
begin

text \<open>
  What the transactions of the queue store do to one mailbox and to one message in it, on any
  table: when operations interleave, the index and the byte total lag behind the table, and the
  exactness of \<open>queue_inv\<close> is not available.
\<close>

definition box_count :: "('t, 'b) queue_env \<Rightarrow> string \<Rightarrow> 't \<Rightarrow> nat" where
  "box_count E m db = t_wsum (q_table E) (\<lambda>k b. if prefix (m @ '':'') k then 1 else 0) db"

definition box_bytes :: "('t, 'b) queue_env \<Rightarrow> string \<Rightarrow> 't \<Rightarrow> nat" where
  "box_bytes E m db = t_wsum (q_table E) (\<lambda>k b. if prefix (m @ '':'') k then entry_len E k b else 0) db"

text \<open>A change of the table that adds nothing to the mailbox and leaves the message alone.\<close>

definition eases :: "('t, 'b) queue_env \<Rightarrow> string \<Rightarrow> uuid \<Rightarrow> 't \<Rightarrow> 't \<Rightarrow> bool" where
  "eases E m i db db' \<longleftrightarrow> box_count E m db' \<le> box_count E m db \<and> box_bytes E m db' \<le> box_bytes E m db
     \<and> t_get (q_table E) db' (key_for E m i) = t_get (q_table E) db (key_for E m i)"

lemma eases_refl [simp]: "eases E m i db db"
  by (simp add: eases_def)

lemma eases_trans: "eases E m i db1 db2 \<Longrightarrow> eases E m i db2 db3 \<Longrightarrow> eases E m i db1 db3"
  by (auto simp: eases_def)

lemma sum_list_filter_le:
  "sum_list (map f (List.map_filter g xs)) \<le> sum_list (map h xs)"
  if "\<And>x y. x \<in> set xs \<Longrightarrow> g x = Some y \<Longrightarrow> f y \<le> h x" for f :: "'a \<Rightarrow> nat"
  using that by (induction xs) (auto simp: List.map_filter_simps split: option.split intro: add_mono le_SucI trans_le_add2)

context queue_backend
begin

lemma box_range:
  "box_count E m db = length (t_range (q_table E) (m @ '':'') (m @ '';'') db)"
  "box_bytes E m db = sum_list (map (\<lambda>(k, b). entry_len E k b) (t_range (q_table E) (m @ '':'') (m @ '';'') db))"
proof -
  have "sum_list (map (\<lambda>(k, b). if prefix (m @ '':'') k then f k b else 0) xs)
      = sum_list (map (\<lambda>(k, b). f k b) (filter (\<lambda>(k, _). prefix (m @ '':'') k) xs))"
    for f :: "string \<Rightarrow> 'b \<Rightarrow> nat" and xs by (induction xs) auto
  note S = this
  have C: "sum_list (map (\<lambda>(k, b). if prefix (m @ '':'') k then 1 else 0) xs)
      = length (filter (\<lambda>(k, _). prefix (m @ '':'') k) xs)" for xs :: "(string \<times> 'b) list" by (induction xs) auto
  show "box_count E m db = length (t_range (q_table E) (m @ '':'') (m @ '';'') db)"
    by (simp add: box_count_def t_wsum_def tab.range_prefix C)
  show "box_bytes E m db = sum_list (map (\<lambda>(k, b). entry_len E k b) (t_range (q_table E) (m @ '':'') (m @ '';'') db))"
    by (simp add: box_bytes_def t_wsum_def tab.range_prefix S)
qed

lemma read_mailbox_box:
  "length (read_mailbox E db m) \<le> box_count E m db" "queue_bytes (read_mailbox E db m) \<le> box_bytes E m db"
proof -
  let ?R = "t_range (q_table E) (m @ '':'') (m @ '';'') db"
  have len: "decode_entry E (k, b) = Some (i, v) \<Longrightarrow> entry_len E k b = length (sv_c v)" for k b i v
    by (auto simp: decode_entry_def entry_len_def split: option.splits)
  have "sum_list (map (\<lambda>_. 1 :: nat) (unsorted_mailbox db m)) \<le> sum_list (map (\<lambda>_. 1) ?R)"
    unfolding unsorted_mailbox_def by (rule sum_list_filter_le) simp
  then show "length (read_mailbox E db m) \<le> box_count E m db"
    by (simp add: read_mailbox_unsorted box_range sum_list_triv)
  have "sum_list (map (length \<circ> sv_c \<circ> snd) (unsorted_mailbox db m)) \<le> sum_list (map (\<lambda>(k, b). entry_len E k b) ?R)"
    unfolding unsorted_mailbox_def by (rule sum_list_filter_le) (auto simp: len)
  moreover have "queue_bytes (read_mailbox E db m) = sum_list (map (length \<circ> sv_c \<circ> snd) (unsorted_mailbox db m))"
    unfolding queue_bytes_def read_mailbox_unsorted
    by (metis mset_map mset_sort sum_mset_sum_list)
  ultimately show "queue_bytes (read_mailbox E db m) \<le> box_bytes E m db"
    by (simp add: box_range)
qed

text \<open>In a well-formed table the counts are those of the mailbox's list.\<close>

lemma box_mail:
  assumes "well_keyed E db" "CHR '':'' \<notin> set m"
  shows "box_count E m db = length (read_mailbox E db m)" "box_bytes E m db = queue_bytes (read_mailbox E db m)"
proof -
  let ?R = "t_range (q_table E) (m @ '':'') (m @ '';'') db"
  have u: "unsorted_mailbox db m = map (the \<circ> decode_entry E) ?R" by (rule unsorted_mailbox_map [OF assms])
  show "box_count E m db = length (read_mailbox E db m)"
    by (simp add: read_mailbox_unsorted box_range u)
  have "sum_list (map (length \<circ> sv_c \<circ> snd) (unsorted_mailbox db m)) = sum_list (map (\<lambda>(k, b). entry_len E k b) ?R)"
    unfolding u map_map using assms
    by (intro arg_cong [where f = sum_list] map_cong refl) (auto simp: entry_len_def elim!: in_mailbox_range)
  moreover have "queue_bytes (read_mailbox E db m) = sum_list (map (length \<circ> sv_c \<circ> snd) (unsorted_mailbox db m))"
    unfolding queue_bytes_def read_mailbox_unsorted
    by (metis mset_map mset_sort sum_mset_sum_list)
  ultimately show "box_bytes E m db = queue_bytes (read_mailbox E db m)" by (simp add: box_range)
qed

lemma box_remove_all:
  "box_count E m (t_remove_all (q_table E) ks db) \<le> box_count E m db"
  "box_bytes E m (t_remove_all (q_table E) ks db) \<le> box_bytes E m db"
proof -
  have "t_wsum (q_table E) f (t_remove_all (q_table E) ks db) \<le> t_wsum (q_table E) f db" for f
  proof (induction ks arbitrary: db)
    case (Cons k ks)
    show ?case using Cons [of "t_remove (q_table E) k db"] tab.wsum_remove [of f k db]
      by (simp add: t_remove_all_def)
  qed (simp add: t_remove_all_def)
  then show "box_count E m (t_remove_all (q_table E) ks db) \<le> box_count E m db"
    "box_bytes E m (t_remove_all (q_table E) ks db) \<le> box_bytes E m db"
    by (simp_all add: box_count_def box_bytes_def)
qed

lemma eases_remove_all:
  "key_for E m i \<notin> set ks \<Longrightarrow> eases E m i db (t_remove_all (q_table E) ks db)"
  using box_remove_all by (simp add: eases_def tab.get_remove_all)

lemma eases_remove: "key_for E m i \<noteq> k \<Longrightarrow> eases E m i db (t_remove (q_table E) k db)"
  using eases_remove_all [of m i "[k]" db] by (simp add: t_remove_all_def)

text \<open>The transactions of other mailboxes, and those that spare the message.\<close>

lemma eases_ack:
  assumes "CHR '':'' \<notin> set m" "CHR '':'' \<notin> set r" "r \<noteq> m \<or> i \<notin> set ids"
  shows "eases E m i (envelopes q) (envelopes (fst (ack_txn E r ids q)))"
proof -
  have "eases E m i db (fst (fold (ack_step E r) ids (db, x)))" for db x
    using assms(3)
  proof (induction ids arbitrary: db x)
    case (Cons j ids)
    obtain fr rm where x: "x = (fr, rm)" by force
    obtain db' y where s: "ack_step E r j (db, x) = (db', y)" by (cases "ack_step E r j (db, x)")
    then have "db' = t_remove (q_table E) (key_for E r j) db"
      by (auto simp: x ack_step_def Let_def split: option.splits)
    then have "eases E m i db db'"
      using assms(1,2) Cons.prems by (auto intro!: eases_remove simp: key_for_inject)
    moreover have "eases E m i db' (fst (fold (ack_step E r) ids (db', y)))" using Cons by auto
    ultimately show ?case using s eases_trans by auto
  qed simp
  from this [of "envelopes q" "(0, 0)"] show ?thesis
    by (simp add: ack_txn_def case_prod_unfold Let_def)
qed

lemma eases_purge:
  assumes "CHR '':'' \<notin> set m" "CHR '':'' \<notin> set r" "r \<noteq> m"
  shows "eases E m i (envelopes q) (envelopes (fst (purge_txn E r q)))"
  using assms by (auto simp: purge_txn_def mailbox_bounds_def Let_def tab.in_range_iff prefix_key_iff
      intro!: eases_remove_all)

lemma eases_sweep:
  assumes "\<And>v. entry_at E (envelopes q) m i v \<Longrightarrow> \<not> sv_q v < sat_sub now QUEUE_TTL_MS"
  shows "eases E m i (envelopes q) (envelopes (fst (sweep_txn E now q)))"
  using assms by (auto simp: sweep_txn_def Let_def expired_entry_def tab.in_iter_iff entry_at_def
      intro!: eases_remove_all split: option.splits)

lemma eases_enqueue_other:
  assumes "CHR '':'' \<notin> set m" "CHR '':'' \<notin> set r" "r \<noteq> m"
  shows "eases E m i (envelopes q) (envelopes (enqueue_txn E r j val ids q))"
proof -
  let ?db = "t_remove_all (q_table E) (map (key_for E r) ids) (envelopes q)"
  have "eases E m i (envelopes q) ?db"
    using assms by (intro eases_remove_all) (auto simp: key_for_inject)
  moreover have "eases E m i ?db (t_insert (q_table E) (key_for E r j) (enc (q_codec E) val) ?db)"
    using assms by (auto simp: eases_def tab.get_insert key_for_inject box_count_def box_bytes_def
        tab.wsum_insert_key prefix_key_iff)
  ultimately show ?thesis unfolding enqueue_txn_def using eases_trans by simp
qed

text \<open>A transaction of the mailbox that evicts nothing adds one message.\<close>

lemma enqueue_grows:
  assumes "CHR '':'' \<notin> set m"
  shows "box_count E m (envelopes (enqueue_txn E m j val [] q)) \<le> box_count E m (envelopes q) + 1"
    "box_bytes E m (envelopes (enqueue_txn E m j val [] q)) \<le> box_bytes E m (envelopes q) + length (sv_c val)"
    "entry_at E (envelopes (enqueue_txn E m j val [] q)) m i v \<longleftrightarrow>
       (if i = j then v = val else entry_at E (envelopes q) m i v)"
proof -
  note I = tab.wsum_insert [where k = "key_for E m j" and v = "enc (q_codec E) val" and t = "envelopes q"]
  show "box_count E m (envelopes (enqueue_txn E m j val [] q)) \<le> box_count E m (envelopes q) + 1"
    using I [of "\<lambda>k b. if prefix (m @ '':'') k then 1 else 0"]
    by (auto simp: enqueue_txn_def t_remove_all_def box_count_def split: if_splits)
  show "box_bytes E m (envelopes (enqueue_txn E m j val [] q)) \<le> box_bytes E m (envelopes q) + length (sv_c val)"
    using I [of "\<lambda>k b. if prefix (m @ '':'') k then entry_len E k b else 0"]
    by (auto simp: enqueue_txn_def t_remove_all_def box_bytes_def entry_len_def cod.dec_enc split: if_splits)
  show "entry_at E (envelopes (enqueue_txn E m j val [] q)) m i v \<longleftrightarrow>
       (if i = j then v = val else entry_at E (envelopes q) m i v)"
    using assms by (auto simp: enqueue_txn_def t_remove_all_def entry_at_def tab.get_insert key_for_inject cod.dec_enc)
qed

text \<open>With room for one more, nothing is chosen for eviction.\<close>

lemma no_eviction:
  assumes "box_count E m (envelopes q) + 1 \<le> MAX_QUEUE_PER_RECIPIENT"
    "box_bytes E m (envelopes q) + n \<le> PER_MAILBOX_QUEUE_BYTES"
  shows "choose_evictions E m n q = ([], 0)"
proof -
  let ?es = "read_mailbox E (envelopes q) m"
  have fit: "fits ?es n" using assms read_mailbox_box [of "envelopes q" m] by (simp add: fits_def)
  then have "length ?es + 1 < usize_modulus" "queue_bytes ?es + n < usize_modulus"
    by (simp_all add: fits_def config_defs usize_modulus_def)
  then show ?thesis
    using evict_loop_eq [of "length ?es" ?es "queue_bytes ?es" n 0 "[]"] evict_count_zero [OF fit]
    by (simp add: choose_evictions_def Let_def)
qed

text \<open>A stored message is in the answer of a flush.\<close>

lemma entry_flushed:
  assumes "entry_at E (envelopes q) m i v" "CHR '':'' \<notin> set m" "read_ok io"
  shows "\<exists>msgs. flush E io m q = Some msgs \<and>
    \<lparr>env_id = i, env_to = m, envelope_type = sv_t v, ciphertext = sv_c v\<rparr> \<in> set msgs"
proof -
  obtain b where b: "t_get (q_table E) (envelopes q) (key_for E m i) = Some b" "dec (q_codec E) b = Some v"
    using assms(1) by (auto simp: entry_at_def)
  with assms(2) have "(key_for E m i, b) \<in> set (t_range (q_table E) (m @ '':'') (m @ '';'') (envelopes q))"
    "decode_entry E (key_for E m i, b) = Some (i, v)"
    by (auto simp: tab.in_range_iff prefix_key_iff decode_entry_def)
  then have "(i, v) \<in> set (unsorted_mailbox (envelopes q) m)"
    unfolding unsorted_mailbox_def by (force simp: List.map_filter_def)
  then have "(i, v) \<in> set (read_mailbox E (envelopes q) m)" by (simp add: read_mailbox_unsorted)
  then show ?thesis using assms(3) by (force simp: flush_def)
qed

end

end
