(* ===== verification/TaskMail.thy ===== *)
theory TaskMail
  imports Tasks MailWatch
begin

text \<open>
  What becomes of one message when the relay's tasks interleave. The debts are the messages that a
  task may still put into the mailbox, and whether it has put in the one that is followed.
\<close>


section \<open>Steps on the queue store\<close>

lemma on_queue_simps [simp]:
  "on_queue (Return x) = Return x"
  "on_queue (bind p k) = bind (on_queue p) (\<lambda>x. on_queue (k x))"
  "on_queue (atomic f) = atomic (\<lambda>s. case f (queues s) of (q, x) \<Rightarrow> (s\<lparr>queues := q\<rparr>, x))"
  "on_queue (update g) = update (\<lambda>s. s\<lparr>queues := g (queues s)\<rparr>)"
proof -
  show "on_queue (bind p k) = bind (on_queue p) (\<lambda>x. on_queue (k x))"
    by (induction p rule: prog_induct) (simp_all add: on_queue_def map_prod_def case_prod_unfold)
qed (simp_all add: on_queue_def atomic_def update_def map_prod_def case_prod_unfold)

lemma on_queue_if [simp]: "on_queue (if b then p else q) = (if b then on_queue p else on_queue q)"
  by simp


section \<open>Frames that spare the message\<close>

text \<open>
  The message is \<open>env\<close>, put into the store at the clock reading \<open>at\<close>; \<open>nows\<close> are the readings of the
  collections that run.
\<close>

definition fresh_lease :: "u64 list \<Rightarrow> frame_in \<Rightarrow> bool" where
  "fresh_lease nows i \<longleftrightarrow>
     list_all (\<lambda>now. \<not> sat_sub now (now_activity_ms (i_clock i 1)) > MAILBOX_IDLE_TTL_MS) nows"

fun frame_spares ::
    "stored_envelope \<Rightarrow> u64 \<Rightarrow> u64 list \<Rightarrow> frame_in \<times> client_frame \<Rightarrow> bool" where
  "frame_spares env at nows (i, SendEnvelope cref to tok ety ct) \<longleftrightarrow>
     (to = env_to env \<longrightarrow> fresh_lease nows i) \<and>
     (i_uuid i = env_id env \<longrightarrow> to = env_to env \<and> ety = envelope_type env \<and> ct = ciphertext env
        \<and> i_clock i 3 = at)"
| "frame_spares env at nows (i, Hello rid at' dt pmin pmax pver pow co) \<longleftrightarrow>
     (rid = env_to env \<longrightarrow> fresh_lease nows i)"
| "frame_spares env at nows (i, f) \<longleftrightarrow> True"

fun hello_rid :: "client_frame \<Rightarrow> string option" where
  "hello_rid (Hello rid at dt pmin pmax pver pow co) = Some rid"
| "hello_rid f = None"

definition registers :: "stored_envelope \<Rightarrow> client_frame \<Rightarrow> bool" where
  "registers env f \<longleftrightarrow> hello_rid f = Some (env_to env)"

fun takes_away :: "stored_envelope \<Rightarrow> client_frame \<Rightarrow> bool" where
  "takes_away env (Ack ids) \<longleftrightarrow> env_id env \<in> set ids"
| "takes_away env RetireMailbox \<longleftrightarrow> True"
| "takes_away env f \<longleftrightarrow> False"

fun sends_to :: "string \<Rightarrow> client_frame \<Rightarrow> usize option" where
  "sends_to m (SendEnvelope cref to tok ety ct) = (if to = m then Some (length ct) else None)"
| "sends_to m f = None"

definition frames_of :: "('t, 'b, 'c) ws_env \<Rightarrow> (frame_in \<times> string) list \<Rightarrow> (frame_in \<times> client_frame) list" where
  "frames_of W texts = List.map_filter (\<lambda>(i, msg).
     case w_json W msg of Inr f \<Rightarrow> Some (i, f) | Inl _ \<Rightarrow> None) texts"

definition sent_sizes :: "string \<Rightarrow> (frame_in \<times> client_frame) list \<Rightarrow> usize list" where
  "sent_sizes m fs = List.map_filter (sends_to m \<circ> snd) fs"

lemma frames_of_simps [simp]:
  "frames_of W [] = []"
  "frames_of W ((i, msg) # texts) = (case w_json W msg of Inr f \<Rightarrow> (i, f) # frames_of W texts | Inl _ \<Rightarrow> frames_of W texts)"
  by (auto simp: frames_of_def List.map_filter_simps split: sum.split)

lemma sent_sizes_simps [simp]:
  "sent_sizes m [] = []"
  "sent_sizes m (x # fs) = (case sends_to m (snd x) of Some n \<Rightarrow> n # sent_sizes m fs | None \<Rightarrow> sent_sizes m fs)"
  "sent_sizes m (fs @ gs) = sent_sizes m fs @ sent_sizes m gs"
  by (auto simp: sent_sizes_def List.map_filter_def split: option.split)

text \<open>A socket does not take the message away if it never speaks for its mailbox.\<close>

definition socket_spares ::
    "stored_envelope \<Rightarrow> u64 \<Rightarrow> u64 list \<Rightarrow> (frame_in \<times> client_frame) list \<Rightarrow> bool" where
  "socket_spares env at nows fs \<longleftrightarrow> list_all (frame_spares env at nows) fs \<and>
     (list_all (\<lambda>(i, f). \<not> registers env f) fs \<or> list_all (\<lambda>(i, f). \<not> takes_away env f) fs)"

fun task_spares :: "('t, 'b, 'c) ws_env \<Rightarrow> stored_envelope \<Rightarrow> u64 \<Rightarrow> u64 list \<Rightarrow> task \<Rightarrow> bool" where
  "task_spares W env at nows (Socket now ch texts) \<longleftrightarrow> socket_spares env at nows (frames_of W texts)"
| "task_spares W env at nows (QueueAging io now) \<longleftrightarrow> \<not> at < sat_sub now QUEUE_TTL_MS"
| "task_spares W env at nows (Collection io now) \<longleftrightarrow> now \<in> set nows"
| "task_spares W env at nows task \<longleftrightarrow> True"

fun task_sizes :: "('t, 'b, 'c) ws_env \<Rightarrow> string \<Rightarrow> task \<Rightarrow> usize list" where
  "task_sizes W m (Socket now ch texts) = sent_sizes m (frames_of W texts)"
| "task_sizes W m task = []"


section \<open>The invariant\<close>

record load =
  l_sends :: nat
  l_bytes :: nat
  l_kept :: bool

definition load_of :: "usize list \<Rightarrow> load" where
  "load_of ns = \<lparr>l_sends = length ns, l_bytes = sum_list ns, l_kept = False\<rparr>"

definition held :: "('t, 'b) queue_env \<Rightarrow> stored_envelope \<Rightarrow> u64 \<Rightarrow> 't \<Rightarrow> bool" where
  "held E env at db \<longleftrightarrow> (\<exists>v. entry_at E db (env_to env) (env_id env) v \<and> sv_t v = envelope_type env
     \<and> sv_c v = ciphertext env \<and> sv_q v = at)"

definition leased :: "u64 list \<Rightarrow> string \<Rightarrow> (string, mailbox_auth) dashmap \<Rightarrow> bool" where
  "leased nows m as \<longleftrightarrow> (\<exists>a. dm_get as m = Some a \<and> list_all (\<lambda>now. \<not> idle now a) nows)"

definition mail_inv ::
    "('t, 'b, 'c) ws_env \<Rightarrow> stored_envelope \<Rightarrow> u64 \<Rightarrow> u64 list \<Rightarrow> ('t, 'c) app_state \<Rightarrow> load list \<Rightarrow> bool" where
  "mail_inv W env at nows s ds \<longleftrightarrow>
     (let E = a_queue (w_app W); db = envelopes (queues s); m = env_to env
      in box_count E m db + sum_list (map l_sends ds) \<le> MAX_QUEUE_PER_RECIPIENT
       \<and> box_bytes E m db + sum_list (map l_bytes ds) \<le> PER_MAILBOX_QUEUE_BYTES
       \<and> ((\<exists>d \<in> set ds. l_kept d) \<longrightarrow> held E env at db)
       \<and> list_all (\<lambda>(k, _). CHR '':'' \<notin> set k) (auths s)
       \<and> (nows = [] \<or> leased nows m (auths s)))"

lemma mail_inv_other [simp]:
  "mail_inv W env at nows (s\<lparr>files := x2\<rparr>) = mail_inv W env at nows s"
  "mail_inv W env at nows (s\<lparr>online := x3\<rparr>) = mail_inv W env at nows s"
  "mail_inv W env at nows (s\<lparr>send_rate := x4\<rparr>) = mail_inv W env at nows s"
  "mail_inv W env at nows (s\<lparr>dirty_auth := x5\<rparr>) = mail_inv W env at nows s"
  "mail_inv W env at nows (s\<lparr>dirty_bundles := x6\<rparr>) = mail_inv W env at nows s"
  "mail_inv W env at nows (s\<lparr>total_bundle_bytes := x7\<rparr>) = mail_inv W env at nows s"
  "mail_inv W env at nows (s\<lparr>last_bundle_prune_ms := x8\<rparr>) = mail_inv W env at nows s"
  "mail_inv W env at nows (s\<lparr>auth_table := x9\<rparr>) = mail_inv W env at nows s"
  "mail_inv W env at nows (s\<lparr>bundle_table := x10\<rparr>) = mail_inv W env at nows s"
  "mail_inv W env at nows (s\<lparr>bundles := x11\<rparr>) = mail_inv W env at nows s"
  "mail_inv W env at nows (s\<lparr>mailbox_count := x12\<rparr>) = mail_inv W env at nows s"
  "mail_inv W env at nows (s\<lparr>conn_count := x13\<rparr>) = mail_inv W env at nows s"
  "mail_inv W env at nows (mark_auth_dirty r s) = mail_inv W env at nows s"
  "mail_inv W env at nows (mark_bundle_dirty r s) = mail_inv W env at nows s"
  "mail_inv W env at nows (release_mailbox s) = mail_inv W env at nows s"
  by (auto simp: mail_inv_def fun_eq_iff mark_auth_dirty_def mark_bundle_dirty_def release_mailbox_def)

text \<open>Changes of the store that leave the table alone, and those that ease it.\<close>

lemma mail_inv_same_table:
  "envelopes q = envelopes (queues s) \<Longrightarrow> mail_inv W env at nows (s\<lparr>queues := q\<rparr>) = mail_inv W env at nows s"
  by (auto simp: mail_inv_def fun_eq_iff)

lemma mail_inv_table:
  assumes "mail_inv W env at nows s ds"
    "box_count (a_queue (w_app W)) (env_to env) (envelopes q) \<le> box_count (a_queue (w_app W)) (env_to env) (envelopes (queues s))"
    "box_bytes (a_queue (w_app W)) (env_to env) (envelopes q) \<le> box_bytes (a_queue (w_app W)) (env_to env) (envelopes (queues s))"
    "held (a_queue (w_app W)) env at (envelopes (queues s)) \<Longrightarrow> held (a_queue (w_app W)) env at (envelopes q)"
  shows "mail_inv W env at nows (s\<lparr>queues := q\<rparr>) ds"
  using assms by (auto simp: mail_inv_def Let_def)

lemma mail_inv_eases:
  assumes "mail_inv W env at nows s ds"
    "eases (a_queue (w_app W)) (env_to env) (env_id env) (envelopes (queues s)) (envelopes q)"
  shows "mail_inv W env at nows (s\<lparr>queues := q\<rparr>) ds"
  by (rule mail_inv_table [OF assms(1)]) (use assms(2) in \<open>auto simp: eases_def held_def entry_at_def\<close>)

text \<open>Changes of the records that keep the mailbox's lease.\<close>

lemma list_all_dm:
  "list_all P m \<Longrightarrow> P (k, v) \<Longrightarrow> list_all P (dm_insert k v m)"
  "list_all P m \<Longrightarrow> list_all P (dm_remove k m)"
  by (induction m) auto

lemma mail_inv_auth_insert:
  assumes "mail_inv W env at nows s ds" "CHR '':'' \<notin> set k"
    "k = env_to env \<Longrightarrow> list_all (\<lambda>now. \<not> idle now a) nows"
  shows "mail_inv W env at nows (s\<lparr>auths := dm_insert k a (auths s)\<rparr>) ds"
  using assms list_all_dm(1) [where P = "\<lambda>(k, _). CHR '':'' \<notin> set k" and m = "auths s" and k = k and v = a]
  by (auto simp: mail_inv_def leased_def Let_def)

lemma mail_inv_auth_remove:
  assumes "mail_inv W env at nows s ds" "k = env_to env \<Longrightarrow> nows = []"
  shows "mail_inv W env at nows (s\<lparr>auths := dm_remove k (auths s)\<rparr>) ds"
  using assms list_all_dm(2) [where P = "\<lambda>(k, _). CHR '':'' \<notin> set k" and m = "auths s" and k = k]
  by (auto simp: mail_inv_def leased_def Let_def)

lemma mail_inv_colon:
  "mail_inv W env at nows s ds \<Longrightarrow> dm_get (auths s) k = Some a \<Longrightarrow> CHR '':'' \<notin> set k"
  using map_of_SomeD [of "auths s" k a] by (auto simp: mail_inv_def Let_def list_all_iff)

lemma mail_updates [settle_rules]:
  "settles (mail_inv W env at nows) d (update (mark_auth_dirty r))"
  "settles (mail_inv W env at nows) d (update (mark_bundle_dirty r))"
  "settles (mail_inv W env at nows) d (update release_mailbox)"
  "settles (mail_inv W env at nows) d (update (\<lambda>s. s\<lparr>online := h1 s\<rparr>))"
  "settles (mail_inv W env at nows) d (update (\<lambda>s. s\<lparr>send_rate := h2 s\<rparr>))"
  "settles (mail_inv W env at nows) d (update (\<lambda>s. s\<lparr>last_bundle_prune_ms := h3 s\<rparr>))"
  "settles (mail_inv W env at nows) d (update (\<lambda>s. s\<lparr>total_bundle_bytes := h4 s\<rparr>))"
  "settles (mail_inv W env at nows) d (update (\<lambda>s. s\<lparr>dirty_auth := h5 s\<rparr>))"
  "settles (mail_inv W env at nows) d (update (\<lambda>s. s\<lparr>dirty_bundles := h6 s\<rparr>))"
  "settles (mail_inv W env at nows) d (update (\<lambda>s. s\<lparr>conn_count := h7 s\<rparr>))"
  by (auto intro: settles_update)


section \<open>Tasks that do not send to the mailbox\<close>

lemma mail_on_files [settle_rules]: "settles (mail_inv W env at nows) d (on_files p)"
  unfolding on_files_def by (rule settles_part) simp

lemma mail_counters [settle_rules]:
  "settles (mail_inv W env at nows) d (update (\<lambda>s. s\<lparr>queues := (queues s)\<lparr>total_bytes := h1 s\<rparr>\<rparr>))"
  "settles (mail_inv W env at nows) d (update (\<lambda>s. s\<lparr>queues := (queues s)\<lparr>index := h2 s\<rparr>\<rparr>))"
  by (auto intro!: settles_update simp: mail_inv_same_table)

lemma on_queue_option [simp]:
  "on_queue (case r of None \<Rightarrow> p | Some x \<Rightarrow> q x) = (case r of None \<Rightarrow> on_queue p | Some x \<Rightarrow> on_queue (q x))"
  by (cases r) simp_all

lemma on_queue_prod [simp]:
  "on_queue (case r of (x, y) \<Rightarrow> q x y) = (case r of (x, y) \<Rightarrow> on_queue (q x y))"
  by (cases r) simp

lemma mail_ack:
  assumes "queue_backend (a_queue (w_app W))" "CHR '':'' \<notin> set (env_to env)" "CHR '':'' \<notin> set rid"
    "rid \<noteq> env_to env \<or> env_id env \<notin> set ids"
  shows "settles (mail_inv W env at nows) d (on_queue (ack_prog (a_queue (w_app W)) io rid ids))"
  unfolding ack_prog_def
  by (auto intro!: settle_rules settles_atomic mail_inv_eases queue_backend.eases_ack assms split: prod.split
      simp: case_prod_unfold)

lemma mail_purge:
  assumes "queue_backend (a_queue (w_app W))" "CHR '':'' \<notin> set (env_to env)" "CHR '':'' \<notin> set rid" "rid \<noteq> env_to env"
  shows "settles (mail_inv W env at nows) d (on_queue (purge_prog (a_queue (w_app W)) io rid))"
  unfolding purge_prog_def
  by (auto intro!: settle_rules settles_atomic mail_inv_eases queue_backend.eases_purge assms split: prod.split
      simp: case_prod_unfold)

lemma mail_sweep:
  assumes "queue_backend (a_queue (w_app W))" "\<not> at < sat_sub now QUEUE_TTL_MS"
  shows "settles (mail_inv W env at nows) d (on_queue (sweep_prog (a_queue (w_app W)) io now))"
proof -
  let ?E = "a_queue (w_app W)"
  have idx: "settles (mail_inv W env at nows) d (on_queue (sweep_index pm x))" for pm x
    by (induction pm x rule: sweep_index.induct) (auto intro!: settle_rules)
  have txn: "mail_inv W env at nows (s\<lparr>queues := fst (sweep_txn ?E now (queues s))\<rparr>) ds"
    if "mail_inv W env at nows s ds" for s ds
  proof (rule mail_inv_table [OF that])
    let ?q = "fst (sweep_txn ?E now (queues s))"
    show "box_count ?E (env_to env) (envelopes ?q) \<le> box_count ?E (env_to env) (envelopes (queues s))"
      "box_bytes ?E (env_to env) (envelopes ?q) \<le> box_bytes ?E (env_to env) (envelopes (queues s))"
      using queue_backend.box_remove_all [OF assms(1)] by (simp_all add: sweep_txn_def Let_def)
    assume "held ?E env at (envelopes (queues s))"
    then show "held ?E env at (envelopes ?q)"
      using queue_backend.eases_sweep [OF assms(1), of "queues s" "env_to env" "env_id env" now] assms(2)
      by (auto simp: held_def entry_at_def eases_def)
  qed
  show ?thesis unfolding sweep_prog_def
    by (auto intro!: settle_rules settles_atomic txn idx simp: case_prod_unfold)
qed

lemma mail_collect:
  assumes "queue_backend (a_queue (w_app W))" "CHR '':'' \<notin> set (env_to env)" "now \<in> set nows"
  shows "settles (mail_inv W env at nows) d (collect_prog (w_app W) io now stale)"
proof (induction stale)
  case (Cons rid stale)
  show ?case unfolding collect_prog.simps
  proof (rule settles_atomic_bind)
    fix s :: "('a, 'c) app_state" and ds
    assume inv: "mail_inv W env at nows s ds"
    show "mail_inv W env at nows (fst (remove_idle now rid s)) ds \<and>
      settles (mail_inv W env at nows) d (if \<not> snd (remove_idle now rid s) then collect_prog (w_app W) io now stale
        else bind (update release_mailbox) (\<lambda>_. bind (update (mark_auth_dirty rid)) (\<lambda>_.
          bind (on_queue (purge_prog (a_queue (w_app W)) (io rid) rid)) (\<lambda>_.
          bind (update (\<lambda>s. s\<lparr>send_rate := dm_remove rid (send_rate s)\<rparr>)) (\<lambda>_.
          collect_prog (w_app W) io now stale)))))"
    proof (cases "snd (remove_idle now rid s)")
      case False
      then show ?thesis using inv Cons by (auto simp: remove_idle_def split: option.splits if_splits)
    next
      case True
      then obtain a where a: "dm_get (auths s) rid = Some a" "idle now a"
        "fst (remove_idle now rid s) = s\<lparr>auths := dm_remove rid (auths s)\<rparr>"
        by (auto simp: remove_idle_def split: option.splits if_splits)
      have "leased nows (env_to env) (auths s)" using inv assms(3) by (auto simp: mail_inv_def Let_def)
      then have ne: "rid \<noteq> env_to env" using a assms(3) by (auto simp: leased_def list_all_iff)
      show ?thesis using True ne
        by (auto intro!: settle_rules mail_purge assms(1,2) mail_inv_colon [OF inv a(1)] Cons
            mail_inv_auth_remove [OF inv] simp: a(3))
    qed
  qed
qed simp

lemma mail_queue_read: "settles (mail_inv W env at nows) d (on_queue (is_empty_prog E io rid))"
  by (simp add: is_empty_prog_def)

lemma mail_gc:
  assumes "queue_backend (a_queue (w_app W))" "CHR '':'' \<notin> set (env_to env)" "now \<in> set nows"
  shows "settles (mail_inv W env at nows) d (gc_prog (w_app W) io now)"
proof -
  have "settles (mail_inv W env at nows) d (stale_prog (w_app W) io rids stale)" for rids stale
    by (induction rids arbitrary: stale) (auto intro!: settle_rules mail_queue_read simp del: on_queue_simps)
  then show ?thesis unfolding gc_prog_def by (intro settle_rules mail_collect assms)
qed

lemma mail_flusher: "settles (mail_inv W env at nows) d (flusher_prog E ticks)"
proof -
  have "settles (mail_inv W env at nows) d (take_auths ks batch)"
    "settles (mail_inv W env at nows) d (take_bundles ks batch')" for ks batch batch'
    by (induction ks batch rule: take_auths.induct; auto intro!: settle_rules)
      (induction ks batch' rule: take_bundles.induct; auto intro!: settle_rules)
  then have "settles (mail_inv W env at nows) d (flush_tick_prog E io1 io2)" for io1 io2
    unfolding flush_tick_prog_def flush_meta_prog_def
    by (intro settle_rules settles_atomic)
      (auto simp: write_auths_def write_bundles_def split: option.split prod.split)
  then show ?thesis by (induction E ticks rule: flusher_prog.induct) (auto intro!: settle_rules)
qed



section \<open>A send to the mailbox\<close>

definition said :: "uuid \<Rightarrow> outputs \<Rightarrow> bool" where
  "said u out \<longleftrightarrow> (\<exists>ch cref. (ch, SendOk u True cref) \<in> set out)"

lemma said_simps [simp]:
  "\<not> said u []" "said u (xs @ ys) \<longleftrightarrow> said u xs \<or> said u ys"
  "said u (x # xs) \<longleftrightarrow> (\<exists>ch cref. x = (ch, SendOk u True cref)) \<or> said u xs"
  "err code1 msg1 \<noteq> SendOk u q cref1" "send_err cref code2 msg2 \<noteq> SendOk u q cref1"
  "file_err rq tid code3 msg3 \<noteq> SendOk u q cref1"
  by (auto simp: said_def err_def send_err_def file_err_def)

text \<open>The transaction puts the message in, and nothing has to go for it.\<close>

lemma mail_inv_put:
  assumes "queue_backend (a_queue (w_app W))" "CHR '':'' \<notin> set (env_to env)"
    "mail_inv W env at nows s ds" "t < length ds" "ds ! t = d" "0 < l_sends d" "length (sv_c val) \<le> l_bytes d"
    "j = env_id env \<Longrightarrow> sv_t val = envelope_type env \<and> sv_c val = ciphertext env \<and> sv_q val = at"
  shows "mail_inv W env at nows (s\<lparr>queues := enqueue_txn (a_queue (w_app W)) (env_to env) j val [] (queues s)\<rparr>)
    (ds[t := \<lparr>l_sends = l_sends d - 1, l_bytes = l_bytes d - length (sv_c val), l_kept = l_kept d \<or> j = env_id env\<rparr>])"
    (is "mail_inv W env at nows (s\<lparr>queues := ?q\<rparr>) (ds[t := ?d])")
proof -
  let ?E = "a_queue (w_app W)"
  note G = queue_backend.enqueue_grows [OF assms(1,2), of j val "queues s"]
  have sums: "sum_list (map l_sends (ds[t := ?d])) + l_sends d = sum_list (map l_sends ds) + l_sends ?d"
    "sum_list (map l_bytes (ds[t := ?d])) + l_bytes d = sum_list (map l_bytes ds) + l_bytes ?d"
    using sum_list_map_update [OF assms(4), of l_sends ?d] sum_list_map_update [OF assms(4), of l_bytes ?d] assms(5)
    by simp_all
  have "held ?E env at (envelopes ?q)" if "\<exists>e \<in> set (ds[t := ?d]). l_kept e"
  proof (cases "j = env_id env")
    case True
    then show ?thesis using assms(8) G(3) [where i = "env_id env"] by (auto simp: held_def)
  next
    case False
    from that obtain e where e: "e \<in> set (ds[t := ?d])" "l_kept e" by blast
    then have "\<exists>e \<in> set ds. l_kept e"
      using set_update_subset_insert [of ds t ?d] False assms(4,5) nth_mem [OF assms(4)] by force
    with assms(3) False G(3) [where i = "env_id env"] show ?thesis
      by (auto simp: mail_inv_def held_def Let_def)
  qed
  then show ?thesis
    using assms(3,6,7) sums G(1,2) unfolding mail_inv_def Let_def by auto
qed

lemma mail_write:
  assumes "queue_backend (a_queue (w_app W))" "CHR '':'' \<notin> set (env_to env)"
    "0 < l_sends d" "length (sv_c val) \<le> l_bytes d"
    "j = env_id env \<Longrightarrow> sv_t val = envelope_type env \<and> sv_c val = ciphertext env \<and> sv_q val = at"
    "upholds (mail_inv W env at nows) Fin d (k None)"
    "upholds (mail_inv W env at nows) Fin
       \<lparr>l_sends = l_sends d - 1, l_bytes = l_bytes d - length (sv_c val), l_kept = l_kept d \<or> j = env_id env\<rparr>
       (k (Some 0))"
  shows "upholds (mail_inv W env at nows) Fin d
    (bind (on_queue (enqueue_write (a_queue (w_app W)) io (env_to env) j val ([], 0))) k)"
proof (cases "write_ok io")
  case True
  let ?d = "\<lparr>l_sends = l_sends d - 1, l_bytes = l_bytes d - length (sv_c val), l_kept = l_kept d \<or> j = env_id env\<rparr>"
  have idx: "settles (mail_inv W env at nows) ?d
      (update (\<lambda>s. s\<lparr>queues := enqueue_index (env_to env) 0 0 (length (sv_c val)) (queues s)\<rparr>))"
    by (rule settles_update) (simp add: mail_inv_same_table enqueue_index_def Let_def)
  show ?thesis unfolding enqueue_write_def using True
    apply (simp add: bind_assoc)
    apply (rule upholds_update_bind [where d' = ?d])
     apply (rule mail_inv_put [OF assms(1,2)]; use assms(3-5) in simp)
    by (intro upholds_after [OF mail_counters(1)] upholds_after [OF idx] assms(7))
qed (simp add: enqueue_write_def assms(6))

lemma mail_enqueue:
  assumes "queue_backend (a_queue (w_app W))" "CHR '':'' \<notin> set (env_to env)"
    "0 < l_sends d" "length (ciphertext e) \<le> l_bytes d"
    "env_id e = env_id env \<Longrightarrow> envelope_type e = envelope_type env \<and> ciphertext e = ciphertext env \<and> now = at"
    "upholds (mail_inv W env at nows) Fin d (k None)"
    "upholds (mail_inv W env at nows) Fin
       \<lparr>l_sends = l_sends d - 1, l_bytes = l_bytes d - length (ciphertext e), l_kept = l_kept d \<or> env_id e = env_id env\<rparr>
       (k (Some 0))"
  shows "upholds (mail_inv W env at nows) Fin d
    (bind (on_queue (enqueue_prog (a_queue (w_app W)) io now (env_to env) e)) k)"
proof -
  let ?E = "a_queue (w_app W)"
  have put: "upholds (mail_inv W env at nows) Fin d
      (bind (on_queue (enqueue_write ?E io (env_to env) (env_id e)
        \<lparr>sv_t = envelope_type e, sv_c = ciphertext e, sv_q = now, sv_s = seq\<rparr> ([], 0))) k)" for seq
    by (rule mail_write) (use assms in simp_all)
  show ?thesis unfolding enqueue_prog_def Let_def
    apply (simp add: bind_assoc)
    apply (rule upholds_atomic_keep, rule conjI, simp add: mail_inv_same_table)
    apply (rule upholds_atomic_keep, rule conjI, simp)
    apply (simp add: put bind_assoc assms(6))
    apply (intro impI)
    apply (rule upholds_atomic_keep, rule conjI, simp)
    subgoal for s ds s' ds' s'' ds''
    proof -
      assume i: "mail_inv W env at nows s'' ds''" "d \<in> set ds''"
      have "l_sends d \<le> sum_list (map l_sends ds'')" "l_bytes d \<le> sum_list (map l_bytes ds'')"
        using i(2) by (auto intro: member_le_sum_list)
      then have "choose_evictions ?E (env_to env) (length (ciphertext e)) (queues s'') = ([], 0)"
        using i(1) assms(3,4) by (intro queue_backend.no_eviction [OF assms(1)]) (auto simp: mail_inv_def Let_def)
      then show ?thesis using put by simp
    qed
    done
qed

lemma mail_deliver:
  assumes "\<And>live out. \<not> said (env_id env) out \<Longrightarrow> upholds (mail_inv W env at nows) Fin d (k (live, out))"
  shows "upholds (mail_inv W env at nows) Fin d (bind (deliver_prog i to e) k)"
  unfolding deliver_prog_def bind_assoc
  by (rule upholds_atomic_keep)
    (auto split: option.split intro!: assms upholds_after [OF mail_updates(4)] simp: bind_assoc)

lemma mail_authorize:
  assumes "frame_spares env at nows (i, SendEnvelope cref to tok ety ct)" "mail_inv W env at nows s ds"
  shows "mail_inv W env at nows (fst (authorize_send W i to tok s)) ds"
  using assms mail_inv_colon [OF assms(2), of to]
  by (auto simp: authorize_send_def fresh_lease_def idle_def list_all_iff split: option.split
      intro!: mail_inv_auth_insert)

text \<open>After the send: what the task may still send, and that it has kept its word.\<close>

definition send_fin :: "uuid \<Rightarrow> nat \<Rightarrow> nat \<Rightarrow> bool \<Rightarrow> load \<Rightarrow> outputs \<Rightarrow> bool" where
  "send_fin u n b kept d out \<longleftrightarrow> n \<le> l_sends d \<and> b \<le> l_bytes d \<and> (kept \<or> said u out \<longrightarrow> l_kept d)"

lemma mail_send_here:
  assumes "queue_backend (a_queue (w_app W))" "CHR '':'' \<notin> set (env_to env)"
    "frame_spares env at nows (i, SendEnvelope cref (env_to env) tok ety ct)"
    "n < l_sends d" "b + length ct \<le> l_bytes d"
  shows "upholds (mail_inv W env at nows) (send_fin (env_id env) n b (l_kept d)) d
    (send_prog W i cref (env_to env) tok ety ct c)"
  (is "upholds ?I ?F d _")
proof -
  have refused: "upholds ?I ?F d (Return out)" if "\<not> said (env_id env) out" for out
    using assms(4,5) that by (intro upholds.return) (auto simp: send_fin_def)
  have ended: "upholds ?I ?F e (bind (update (mark_auth_dirty r)) (\<lambda>_. Return out))"
    if "n \<le> l_sends e" "b \<le> l_bytes e" "l_kept d \<or> said (env_id env) out \<Longrightarrow> l_kept e" for e r out
    using that by (intro upholds_after [OF mail_updates(1)] upholds.return) (auto simp: send_fin_def)
  show ?thesis
    unfolding send_prog_def Let_def
    apply (rule upholds_if, rule refused, simp)
    apply (rule upholds_if, rule refused, simp)
    apply (rule upholds_atomic_keep, rule conjI, erule mail_authorize [OF assms(3)])
    apply (rule upholds_if, rule refused, simp)
    apply (rule upholds_atomic_keep, rule conjI, simp add: allow_dest_send_def split: prod.split)
    apply (rule upholds_if, rule refused, simp)
    apply (rule mail_deliver, simp only: prod.case)
    apply (rule upholds_atomic_keep, rule conjI, simp)
    apply (rule upholds_if, rule refused, simp)
    apply (rule mail_enqueue [OF assms(1,2)])
        apply (use assms(4) in simp)
       apply (use assms(5) in simp)
      apply (use assms(3) in simp)
     apply (rule ended; use assms(4,5) in \<open>auto split: if_splits\<close>)
    apply (rule ended; use assms(4,5) in \<open>auto split: if_splits\<close>)
    done
qed



section \<open>The other frames\<close>

lemma mail_enqueue_other:
  assumes "queue_backend (a_queue (w_app W))" "CHR '':'' \<notin> set (env_to env)" "CHR '':'' \<notin> set m" "m \<noteq> env_to env"
  shows "settles (mail_inv W env at nows) d (on_queue (enqueue_prog (a_queue (w_app W)) io now m e))"
proof -
  have txn: "settles (mail_inv W env at nows) d
      (update (\<lambda>s. s\<lparr>queues := enqueue_txn (a_queue (w_app W)) m j val ids (queues s)\<rparr>))" for j val ids
    by (rule settles_update) (auto intro!: mail_inv_eases queue_backend.eases_enqueue_other assms)
  have idx: "settles (mail_inv W env at nows) d (update (\<lambda>s. s\<lparr>queues := enqueue_index m x y z (queues s)\<rparr>))" for x y z
    by (rule settles_update) (simp add: mail_inv_same_table enqueue_index_def Let_def)
  have "settles (mail_inv W env at nows) d (atomic (\<lambda>s. (s\<lparr>queues := (queues s)\<lparr>next_seq := h s\<rparr>\<rparr>, x s)))" for h x
    by (rule settles_atomic) (simp add: mail_inv_same_table)
  then show ?thesis
    unfolding enqueue_prog_def enqueue_write_def Let_def
    by (auto intro!: settle_rules txn idx)
qed

lemma mail_send_other:
  assumes "queue_backend (a_queue (w_app W))" "CHR '':'' \<notin> set (env_to env)" "to \<noteq> env_to env"
  shows "settles (mail_inv W env at nows) d (send_prog W i cref to tok ety ct c)"
proof -
  have auth: "mail_inv W env at nows (fst (authorize_send W i to tok s)) ds" if "mail_inv W env at nows s ds" for s ds
    using that mail_inv_colon [OF that, of to] assms(3)
    by (auto simp: authorize_send_def split: option.split intro!: mail_inv_auth_insert)
  have rate: "mail_inv W env at nows (fst (allow_dest_send now to s)) = mail_inv W env at nows s" for now s
    by (simp add: allow_dest_send_def split: prod.split)
  show ?thesis unfolding send_prog_def deliver_prog_def Let_def
    by (intro settle_rules settles_atomic mail_enqueue_other [OF assms(1,2) _ assms(3)])
      (auto simp: auth rate dest: valid_ids_no_colon(1))
qed

lemma mail_hello:
  assumes "frame_spares env at nows (i, Hello rid at' dt pmin pmax pver pow co)"
  shows "settles (mail_inv W env at nows) d (hello_prog W i rid at' dt pmin pmax pver pow co c)"
proof -
  have entry: "mail_inv W env at nows (fst (hello_entry W i rid ah dh pow s)) ds"
    if "mail_inv W env at nows s ds" "valid_recipient_id rid" for s ds ah dh
  proof -
    have "CHR '':'' \<notin> set rid" by (rule valid_ids_no_colon(1) [OF that(2)])
    moreover have "mail_inv W env at nows (fst (reserve_mailbox_slot s)) ds" "auths (fst (reserve_mailbox_slot s)) = auths s"
      using that(1) by (simp_all add: reserve_mailbox_slot_def)
    moreover have "list_all (\<lambda>now. \<not> idle now (fst (ensure_delivery_hash dh (a\<lparr>last_active_ms := now_activity_ms (i_clock i 1)\<rparr>)))) nows"
      "list_all (\<lambda>now. \<not> idle now (mailbox_auth_new (i_clock i 1) ah dh)) nows" if "rid = env_to env" for a
      using assms that by (auto simp: fresh_lease_def list_all_iff idle_def ensure_delivery_hash_def Let_def mailbox_auth_new_def)
    ultimately show ?thesis using that(1)
      by (auto simp: hello_entry_def Let_def split: option.split prod.split bool.split intro!: mail_inv_auth_insert)
        (metis fst_conv)+
  qed
  show ?thesis unfolding hello_prog_def Let_def
    by (intro settle_rules settles_atomic) (auto simp: entry)
qed

lemma mail_set_tokens: "settles (mail_inv W env at nows) d (set_delivery_tokens_prog W r toks c)"
proof -
  have same: "list_all (\<lambda>now. \<not> idle now (replace_delivery_hashes hs a)) nows = list_all (\<lambda>now. \<not> idle now a) nows" for hs a
    by (simp add: idle_def replace_delivery_hashes_def Let_def)
  have "mail_inv W env at nows (s\<lparr>auths := dm_insert rid (replace_delivery_hashes hs a) (auths s)\<rparr>) ds"
    if "mail_inv W env at nows s ds" "dm_get (auths s) rid = Some a" for s ds rid a hs
  proof (cases "nows = []")
    case True
    then show ?thesis using that mail_inv_colon [OF that] by (auto intro!: mail_inv_auth_insert)
  next
    case False
    then have "leased nows (env_to env) (auths s)" using that(1) by (auto simp: mail_inv_def Let_def)
    then show ?thesis using that mail_inv_colon [OF that]
      by (intro mail_inv_auth_insert) (auto simp: same leased_def)
  qed
  then show ?thesis unfolding set_delivery_tokens_prog_def
    by (intro settle_rules settles_atomic) (auto simp: Let_def split: option.split)
qed

lemma mail_prune: "settles (mail_inv W env at nows) d (prune_prog now)"
proof -
  have "settles (mail_inv W env at nows) d (prune_loop expired freed)" for expired freed
    by (induction expired freed rule: prune_loop.induct) (auto intro!: settle_rules settles_atomic)
  then show ?thesis unfolding prune_prog_def by (intro settle_rules)
qed

text \<open>Which mailbox a socket may speak for while it serves frames that spare the message.\<close>

definition speaks :: "stored_envelope \<Rightarrow> (frame_in \<times> client_frame) list \<Rightarrow> conn \<Rightarrow> bool" where
  "speaks env fs c \<longleftrightarrow> (\<forall>rid. recipient c = Some rid \<longrightarrow> CHR '':'' \<notin> set rid
     \<and> (rid \<noteq> env_to env \<and> list_all (\<lambda>(i, f). \<not> registers env f) fs \<or> list_all (\<lambda>(i, f). \<not> takes_away env f) fs))"

lemma mail_frame:
  assumes "queue_backend (a_queue (w_app W))" "CHR '':'' \<notin> set (env_to env)" "frame_spares env at nows (i, f)"
    "sends_to (env_to env) f = None" "speaks env ((i, f) # fs) c"
  shows "settles (mail_inv W env at nows) d (frame_prog W i f c)"
proof (cases f)
  case (Ack ids)
  then show ?thesis using assms
    by (auto simp: goes_on_def ack_frame_prog_def speaks_def split: option.split
        intro!: settle_rules mail_ack)
next
  case RetireMailbox
  have "settles (mail_inv W env at nows) d (atomic (remove_auth rid))" if "rid \<noteq> env_to env" for rid
    using that by (intro settles_atomic) (auto simp: remove_auth_def intro!: mail_inv_auth_remove)
  then show ?thesis using RetireMailbox assms
    by (auto simp: retire_prog_def speaks_def split: option.split intro!: settle_rules mail_purge)
next
  case (SendEnvelope cref to tok ety ct)
  then show ?thesis using assms by (auto simp: goes_on_def split: if_splits intro!: settle_rules mail_send_other)
next
  case (Hello rid at' dt pmin pmax pver pow co)
  then show ?thesis using assms(3) by (auto intro!: settle_rules mail_hello)
next
  case (UploadBundle r bid ct ex pow)
  then show ?thesis
    by (auto simp: goes_on_def upload_bundle_prog_def Let_def intro!: settle_rules mail_prune settles_atomic)
qed (auto simp: goes_on_def file_prog_defs fetch_bundle_prog_def intro!: settle_rules mail_set_tokens mail_prune)

text \<open>What frames answer: the connection they leave, and no word of a message they did not send.\<close>

fun replies_ok :: "frame_in \<Rightarrow> client_frame \<Rightarrow> conn \<Rightarrow> conn \<times> outputs \<times> bool \<Rightarrow> bool" where
  "replies_ok i f c (c', out, stop) \<longleftrightarrow>
     (recipient c' = recipient c \<or>
        (\<exists>rid. hello_rid f = Some rid \<and> recipient c' = Some rid \<and> CHR '':'' \<notin> set rid)) \<and>
     (\<forall>u. said u out \<longrightarrow> (\<exists>cref to tok ety ct. f = SendEnvelope cref to tok ety ct \<and> u = i_uuid i))"

lemma hello_flush_quiet: "\<not> said u (hello_flush W i ch rid sel s)"
  by (auto simp: said_def hello_flush_def Let_def)

lemma certificate_quiet: "\<not> said u (handle_issue_certificate W i r sender dev key c s)"
  by (auto simp: handle_issue_certificate_def issue_sender_certificate_def Let_def said_def err_def
      split: option.splits sum.splits if_splits)

lemma files_quiet:
  "answers (\<lambda>out. \<forall>u. \<not> said u out) (upload_chunk_prog W i r tid ci tc tb ct pow c)"
  "answers (\<lambda>out. \<forall>u. \<not> said u out) (fetch_file_prog W i r tid ci c)"
  "answers (\<lambda>out. \<forall>u. \<not> said u out) (delete_transfer_prog W i r tid c)"
  unfolding file_prog_defs
  by (auto simp: said_def file_err_def intro!: answer_rules answers_bind split: option.split sum.split)

lemma answers_queue_bind: "(\<And>x. answers P (k x)) \<Longrightarrow> answers P (bind (on_queue p) k)"
  by (rule answers_bind)

lemma answers_prune_bind: "answers P (k ()) \<Longrightarrow> answers P (bind (prune_prog now) k)"
  by (rule answers_bind) simp

lemma goes_on_answers:
  assumes "answers (\<lambda>out. \<forall>u. said u out \<longrightarrow> (\<exists>cref to tok ety ct. f = SendEnvelope cref to tok ety ct \<and> u = i_uuid i)) p"
  shows "answers (replies_ok i f c) (goes_on c p)"
  unfolding goes_on_def by (rule answers_bind_with [OF assms]) simp

lemma hello_entry_quiet: "snd (hello_entry W i rid ah dh pow s) \<noteq> Some (SendOk u q cref)"
  by (auto simp: hello_entry_def Let_def err_def split: option.splits if_splits prod.splits bool.splits)

lemma existing_quiet: "existing_bundle i r bid ct s \<noteq> Some (SendOk u q cref)"
  by (auto simp: existing_bundle_def err_def split: option.splits if_splits)

lemma frame_answers: "answers (replies_ok i f c) (frame_prog W i f c)"
proof (cases f)
  case (Hello rid at dt pmin pmax pver pow co)
  show ?thesis unfolding Hello frame_prog.simps hello_prog_def Let_def
    by (auto simp: bind_assoc bind_split hello_flush_quiet hello_entry_quiet valid_ids_no_colon(1) intro!: answer_rules)
next
  case RetireMailbox
  show ?thesis unfolding RetireMailbox frame_prog.simps retire_prog_def
    by (auto simp: bind_assoc intro!: answer_rules answers_bind split: option.split)
next
  case (SendEnvelope cref to tok ety ct)
  show ?thesis unfolding SendEnvelope frame_prog.simps
    by (rule goes_on_answers, unfold send_prog_def deliver_prog_def Let_def)
      (auto simp: bind_assoc bind_split intro!: answer_rules answers_queue_bind)
next
  case (UploadBundle r bid ct ex pow)
  show ?thesis unfolding UploadBundle frame_prog.simps
    by (rule goes_on_answers, unfold upload_bundle_prog_def Let_def)
      (auto simp: bind_assoc bind_split existing_quiet intro!: answer_rules answers_prune_bind)
qed (auto simp: certificate_quiet files_quiet set_delivery_tokens_prog_def ack_frame_prog_def
    fetch_bundle_prog_def intro!: goes_on_answers answers_atomic answer_rules answers_bind split: option.split)



section \<open>Sockets and tasks\<close>

text \<open>What a socket owes before the frames \<open>fs\<close>, and what it has said so far.\<close>

definition covers :: "stored_envelope \<Rightarrow> (frame_in \<times> client_frame) list \<Rightarrow> load \<Rightarrow> bool" where
  "covers env fs d \<longleftrightarrow> length (sent_sizes (env_to env) fs) \<le> l_sends d \<and> sum_list (sent_sizes (env_to env) fs) \<le> l_bytes d"

lemma speaks_next:
  assumes "speaks env ((i, f) # fs) c" "replies_ok i f c (c', out, stop)"
    "list_all (\<lambda>(i, f). \<not> registers env f) ((i, f) # fs) \<or> list_all (\<lambda>(i, f). \<not> takes_away env f) ((i, f) # fs)"
  shows "speaks env fs c'"
  using assms by (auto simp: speaks_def registers_def)

lemma mail_frame_step:
  assumes "queue_backend (a_queue (w_app W))" "CHR '':'' \<notin> set (env_to env)" "frame_spares env at nows (i, f)"
    "speaks env ((i, f) # fs) c" "covers env ((i, f) # fs) d"
  shows "upholds (mail_inv W env at nows)
    (\<lambda>d' (c', out, stop). covers env fs d' \<and> (l_kept d \<or> said (env_id env) out \<longrightarrow> l_kept d') \<and> replies_ok i f c (c', out, stop))
    d (frame_prog W i f c)"
proof (cases "sends_to (env_to env) f")
  case None
  have A: "\<not> said (env_id env) out" if "replies_ok i f c (c', out, stop)" for c' out stop
    using that None assms(3) by (cases f) (auto split: if_splits)
  have B: "upholds (mail_inv W env at nows) (\<lambda>d' x. d' = d \<and> replies_ok i f c x) d (frame_prog W i f c)"
    using mail_frame [OF assms(1-3) None assms(4)] unfolding settles_def
    by (rule upholds_answers) (rule frame_answers)
  have C: "covers env fs d" using assms(5) None by (simp add: covers_def)
  show ?thesis by (rule upholds_Fin [OF B]) (use A C in \<open>auto simp del: replies_ok.simps\<close>)
next
  case (Some k)
  then obtain cref tok ety ct where f: "f = SendEnvelope cref (env_to env) tok ety ct" "k = length ct"
    by (cases f) (auto split: if_splits)
  have "upholds (mail_inv W env at nows)
      (send_fin (env_id env) (length (sent_sizes (env_to env) fs)) (sum_list (sent_sizes (env_to env) fs)) (l_kept d)) d
      (send_prog W i cref (env_to env) tok ety ct c)"
    using assms(3,5) f by (intro mail_send_here [OF assms(1,2)]) (auto simp: covers_def)
  then have "upholds (mail_inv W env at nows)
      (\<lambda>d' (c', out, stop). covers env fs d' \<and> (l_kept d \<or> said (env_id env) out \<longrightarrow> l_kept d')) d (frame_prog W i f c)"
    unfolding f(1) frame_prog.simps goes_on_def
    by (rule upholds_bind) (auto intro!: upholds.return simp: send_fin_def covers_def)
  from upholds_answers [OF this frame_answers] show ?thesis by (rule upholds_Fin) auto
qed

lemma text_prog_cases:
  obtains "text_prog W i msg c = Return (count_frame (i_clock i 0) c, [(tx c, err ''rate_limited'' ''too many frames on this socket'')], False)"
  | "text_prog W i msg c = Return (count_frame (i_clock i 0) c, [(tx c, err ''too_large'' ''frame too large'')], False)"
  | e where "text_prog W i msg c = Return (count_frame (i_clock i 0) c, [(tx c, err ''bad_json'' e)], False)"
  | f where "w_json W msg = Inr f" "text_prog W i msg c = frame_prog W i f (count_frame (i_clock i 0) c)"
proof -
  have "tx (count_frame now c) = tx c" for now by (simp add: count_frame_def Let_def)
  then show thesis using that
    by (cases "frame_count (count_frame (i_clock i 0) c) > MAX_FRAMES_PER_WINDOW"; cases "length msg > MAX_FRAME_BYTES";
        cases "w_json W msg") (auto simp: text_prog_def Let_def)
qed

lemma recipient_count_frame [simp]: "recipient (count_frame now c) = recipient c"
  by (simp add: count_frame_def Let_def)

lemma mail_serve:
  assumes "queue_backend (a_queue (w_app W))" "CHR '':'' \<notin> set (env_to env)"
    "socket_spares env at nows (frames_of W texts)" "speaks env (frames_of W texts) c" "covers env (frames_of W texts) d"
  shows "upholds (mail_inv W env at nows) (\<lambda>d' (c', out). l_kept d \<or> said (env_id env) out \<longrightarrow> l_kept d') d (serve_prog W texts c)"
  using assms(3-5)
proof (induction texts arbitrary: c d)
  case Nil
  show ?case by (simp add: upholds.return)
next
  case (Cons x texts)
  obtain i msg where x: "x = (i, msg)" by force
  let ?fs = "frames_of W texts"
  let ?k = "\<lambda>(c, out, stop). if stop then Return (c, out)
     else bind (serve_prog W texts c) (\<lambda>(c, outs). Return (c, out @ outs))"
  let ?F = "\<lambda>d' (c', out). l_kept d \<or> said (env_id env) out \<longrightarrow> l_kept d'"
  have spares: "socket_spares env at nows ?fs"
    using Cons.prems(1) by (auto simp: x socket_spares_def split: sum.splits)
  have rest: "upholds (mail_inv W env at nows) ?F e (?k (c', out, stop))"
    if "speaks env ?fs c'" "covers env ?fs e" "l_kept d \<or> said (env_id env) out \<longrightarrow> l_kept e" for c' out stop e
  proof (cases stop)
    case True
    with that(3) show ?thesis by (simp add: upholds.return)
  next
    case False
    have "upholds (mail_inv W env at nows) ?F e (bind (serve_prog W texts c') (\<lambda>(c, outs). Return (c, out @ outs)))"
      by (rule upholds_bind [OF Cons.IH [OF spares that(1,2)]]) (use that(3) in \<open>auto intro!: upholds.return\<close>)
    with False show ?thesis by simp
  qed
  have less: "speaks env ?fs (count_frame (i_clock i 0) c)" "covers env ?fs d"
    using Cons.prems(2,3) by (auto simp: x speaks_def covers_def split: sum.splits option.splits)
  have other: "upholds (mail_inv W env at nows) ?F d
      (bind (Return (count_frame (i_clock i 0) c, [(tx c, err code why)], False)) ?k)" for code why
    using rest [OF less, of "[(tx c, err code why)]" False] by simp
  have step: "upholds (mail_inv W env at nows) ?F d (bind (text_prog W i msg c) ?k)"
  proof (cases rule: text_prog_cases [where W = W and i = i and msg = msg and c = c])
    case (4 f)
    then have fr: "frames_of W (x # texts) = (i, f) # ?fs" by (simp add: x)
    have sp: "speaks env ((i, f) # ?fs) (count_frame (i_clock i 0) c)"
      using Cons.prems(2) by (simp add: fr speaks_def)
    have kinds: "list_all (\<lambda>(i, f). \<not> registers env f) ((i, f) # ?fs) \<or> list_all (\<lambda>(i, f). \<not> takes_away env f) ((i, f) # ?fs)"
      using Cons.prems(1) unfolding fr socket_spares_def by (rule conjunct2)
    have "frame_spares env at nows (i, f)" using Cons.prems(1) by (simp add: fr socket_spares_def)
    then have "upholds (mail_inv W env at nows)
      (\<lambda>d' (c', out, stop). covers env ?fs d' \<and> (l_kept d \<or> said (env_id env) out \<longrightarrow> l_kept d')
        \<and> replies_ok i f (count_frame (i_clock i 0) c) (c', out, stop)) d (text_prog W i msg c)"
      using mail_frame_step [OF assms(1,2) _ sp] Cons.prems(3) unfolding 4(2) fr by blast
    then show ?thesis
    proof (rule upholds_bind)
      fix e and y :: "conn \<times> outputs \<times> bool"
      assume y: "case y of (c', out, stop) \<Rightarrow> covers env ?fs e \<and> (l_kept d \<or> said (env_id env) out \<longrightarrow> l_kept e)
        \<and> replies_ok i f (count_frame (i_clock i 0) c) (c', out, stop)"
      obtain c' out stop where y': "y = (c', out, stop)" using prod_cases3 by blast
      have "speaks env ?fs c'"
        using y unfolding y' prod.case by (intro speaks_next [OF sp _ kinds]) blast
      then show "upholds (mail_inv W env at nows) ?F e (?k y)" using rest y by (simp add: y')
    qed
  qed (use other in simp_all)
  then show ?case by (simp add: x)
qed

lemma mail_close: "settles (mail_inv W env at nows) d (close_prog c)"
  unfolding close_prog_def by (intro settle_rules)

lemma mail_socket:
  assumes "queue_backend (a_queue (w_app W))" "CHR '':'' \<notin> set (env_to env)"
    "socket_spares env at nows (frames_of W texts)" "covers env (frames_of W texts) d"
  shows "upholds (mail_inv W env at nows) (\<lambda>d' out. said (env_id env) out \<longrightarrow> l_kept d') d (socket_prog W now ch texts)"
proof -
  have "upholds (mail_inv W env at nows) (\<lambda>d' out. said (env_id env) out \<longrightarrow> l_kept d') d
      (bind (serve_prog W texts c) (\<lambda>(c, outs). bind (close_prog c) (\<lambda>_. Return outs)))" if "recipient c = None" for c
    by (rule upholds_bind [OF mail_serve [OF assms(1-3) _ assms(4)]])
      (auto simp: speaks_def that intro!: upholds_after [OF mail_close] upholds.return)
  then show ?thesis unfolding socket_prog_def open_prog_def
    by (simp add: bind_assoc, intro upholds_atomic_keep conjI)
      (auto simp: bind_assoc intro!: upholds_after [OF mail_updates(10)] upholds.return)
qed

lemma silent_tasks:
  "answers (\<lambda>out. out = []) (collect_prog E io now stale)" "answers (\<lambda>out. out = []) (gc_prog E io now)"
  "answers (\<lambda>out. out = []) (flusher_prog E ticks)" "answers (\<lambda>out. out = []) (queue_sweep_prog E qio now)"
  "answers (\<lambda>out. out = []) (file_sweep_prog E fio now)"
proof -
  show c: "answers (\<lambda>out. out = []) (collect_prog E io now stale)" for stale
    by (induction E io now stale rule: collect_prog.induct) (auto intro!: answers_bind)
  show "answers (\<lambda>out. out = []) (gc_prog E io now)" unfolding gc_prog_def by (intro answers_bind c)
  show "answers (\<lambda>out. out = []) (flusher_prog E ticks)"
    by (induction E ticks rule: flusher_prog.induct) (auto intro!: answers_bind)
qed (auto simp: queue_sweep_prog_def file_sweep_prog_def intro!: answers_bind)

lemma mail_task:
  assumes "queue_backend (a_queue (w_app W))" "CHR '':'' \<notin> set (env_to env)" "task_spares W env at nows task"
  shows "upholds (mail_inv W env at nows) (\<lambda>d' out. said (env_id env) out \<longrightarrow> l_kept d')
    (load_of (task_sizes W (env_to env) task)) (task_prog W task)"
proof -
  have quiet: "upholds (mail_inv W env at nows) (\<lambda>d' out. said (env_id env) out \<longrightarrow> l_kept d') d p"
    if "settles (mail_inv W env at nows) d p" "answers (\<lambda>out. out = []) p" for d p
    using upholds_answers [OF that(1) [unfolded settles_def] that(2)] by (rule upholds_Fin) simp
  show ?thesis
  proof (cases task)
    case (Socket now ch texts)
    then show ?thesis using assms(3)
      by (auto intro!: mail_socket [OF assms(1,2)] simp: covers_def load_of_def)
  next
    case (Flusher ticks)
    then show ?thesis by (simp add: quiet mail_flusher silent_tasks)
  next
    case (Collection io now)
    then show ?thesis using assms(3) by (simp add: quiet mail_gc [OF assms(1,2)] silent_tasks)
  next
    case (QueueAging io now)
    then show ?thesis using assms(3)
      by (auto simp: queue_sweep_prog_def intro!: quiet settle_rules mail_sweep assms(1) answers_bind)
  next
    case (FileAging io now)
    then show ?thesis
      by (auto simp: file_sweep_prog_def intro!: quiet settle_rules answers_bind)
  qed
qed

text \<open>The message of a task that has said it is queued is in the store, and stays there.\<close>

lemma sent_kept:
  assumes backend: "queue_backend (a_queue (w_app W))"
    and start: "queue_inv (a_queue (w_app W)) (queues s)" "auths_ok s" "CHR '':'' \<notin> set (env_to env)"
    and room: "length (mail (a_queue (w_app W)) (queues s) (env_to env))
        + length (concat (map (task_sizes W (env_to env)) tasks)) \<le> MAX_QUEUE_PER_RECIPIENT"
      "queue_bytes (mail (a_queue (w_app W)) (queues s) (env_to env))
        + sum_list (concat (map (task_sizes W (env_to env)) tasks)) \<le> PER_MAILBOX_QUEUE_BYTES"
    and lease: "nows = [] \<or> leased nows (env_to env) (auths s)"
    and spared: "list_all (task_spares W env at nows) tasks"
    and run: "interleave sched (s, map (task_prog W) tasks) = (s', ps)"
    and told: "Return out \<in> set ps" "said (env_id env) out"
  shows "held (a_queue (w_app W)) env at (envelopes (queues s'))"
proof -
  let ?E = "a_queue (w_app W)"
  let ?ds = "map (\<lambda>t. load_of (task_sizes W (env_to env) t)) tasks"
  let ?F = "\<lambda>d' out. said (env_id env) out \<longrightarrow> l_kept d'"
  have key: "well_keyed ?E (envelopes (queues s))" using start(1) by (simp add: queue_inv_def)
  have sums: "sum_list (map l_sends (map (\<lambda>t. load_of (f t)) ts)) = length (concat (map f ts))"
    "sum_list (map l_bytes (map (\<lambda>t. load_of (f t)) ts)) = sum_list (concat (map f ts))" for f and ts :: "task list"
    by (induction ts) (simp_all add: load_of_def)
  have "list_all (\<lambda>(k, _). CHR '':'' \<notin> set k) (auths s)"
    using start(2) by (auto simp: auths_ok_def list_all_iff dm_get_set)
  then have "mail_inv W env at nows s ?ds"
    using room lease queue_backend.box_mail [OF backend key start(3)] sums [of "task_sizes W (env_to env)" tasks]
    by (auto simp: mail_inv_def Let_def load_of_def)
  moreover have "list_all2 (upholds (mail_inv W env at nows) ?F) ?ds (map (task_prog W) tasks)"
    using spared mail_task [OF backend start(3)] by (auto simp: list_all2_conv_all_nth list_all_length)
  ultimately obtain ds' where ds': "mail_inv W env at nows s' ds'" "list_all2 (upholds (mail_inv W env at nows) ?F) ds' ps"
    using upholds_interleave [OF _ _ run] by blast
  from told(1) obtain j where "j < length ps" "ps ! j = Return out" by (auto simp: in_set_conv_nth)
  with ds'(2) have "j < length ds'" "upholds (mail_inv W env at nows) ?F (ds' ! j) (Return out)"
    by (auto simp: list_all2_conv_all_nth)
  then have "\<exists>d \<in> set ds'. l_kept d" using told(2) by (auto elim!: upholds_ReturnE)
  with ds'(1) show ?thesis by (auto simp: mail_inv_def Let_def)
qed

end
