(* ===== verification/TaskSync.thy ===== *)
theory TaskSync
  imports Tasks
begin

text \<open>
  The write-back of mailbox records and invite bundles when the relay's tasks interleave with the
  task that flushes them: the rule of \<open>src/state.rs\<close> that a key is marked after its value has
  changed, and its mark taken off before the value is read. The debts are the keys that are changed and
  not marked yet, or no longer marked and not read yet, and the batch that is read and not written.
\<close>


section \<open>The invariant\<close>

text \<open>The table agrees with the cache at every key that is neither marked nor due, once the batch is written.\<close>

definition lags ::
    "('t, 'b) table_ops \<Rightarrow> ('v, 'b) codec \<Rightarrow> ('v \<Rightarrow> 'v \<Rightarrow> bool) \<Rightarrow> (string, 'v) dashmap \<Rightarrow> (string, unit) dashmap
     \<Rightarrow> 't \<Rightarrow> string set \<Rightarrow> (string \<times> 'v option) list \<Rightarrow> bool" where
  "lags T C same cache dirty tbl due batch \<longleftrightarrow>
     (\<forall>k. dm_contains dirty k \<or> k \<in> due \<or>
        rel_option same (case map_of (rev batch) k of Some x \<Rightarrow> x | None \<Rightarrow> stored_at T C tbl k) (dm_get cache k))"

lemma lags_synced: "lags T C same cache dirty tbl {} [] \<longleftrightarrow> synced T C same cache dirty tbl"
  by (simp add: lags_def synced_def)

lemma lags_owe:
  assumes "lags T C same cache dirty tbl due batch" "\<And>j. j \<notin> ks \<Longrightarrow> dm_get cache' j = dm_get cache j"
    "due \<union> ks \<subseteq> due'"
  shows "lags T C same cache' dirty tbl due' batch"
  unfolding lags_def
proof
  fix k
  show "dm_contains dirty k \<or> k \<in> due' \<or>
      rel_option same (case map_of (rev batch) k of Some x \<Rightarrow> x | None \<Rightarrow> stored_at T C tbl k) (dm_get cache' k)"
  proof (cases "k \<in> due'")
    case False
    then have "dm_get cache' k = dm_get cache k" using assms(2,3) by blast
    with False assms(1,3) show ?thesis by (auto simp: lags_def)
  qed simp
qed

lemma lags_mark:
  assumes "lags T C same cache dirty tbl due batch" "due \<subseteq> insert k due'"
  shows "lags T C same cache (dm_insert k () dirty) tbl due' batch"
  using assms by (auto simp: lags_def dm_contains_def)

lemma lags_unmark:
  assumes "lags T C same cache dirty tbl due batch" "insert k due \<subseteq> due'"
  shows "lags T C same cache (dm_remove k dirty) tbl due' batch"
  using assms by (auto simp: lags_def dm_contains_def)

lemma lags_read:
  assumes "lags T C same cache dirty tbl due batch" "\<And>v. same v v" "due \<subseteq> insert k due'"
  shows "lags T C same cache dirty tbl due' (batch @ [(k, dm_get cache k)])"
  using assms by (auto simp: lags_def option.rel_refl)

context write_back
begin

lemma lags_write:
  assumes "lags T C same cache dirty tbl due batch" "flush_items T C io batch tbl = (tbl', r)" "write_ok io"
  shows "lags T C same cache dirty tbl' due [] \<and> r = Some ()"
  using assms stored_fold [of batch tbl] by (auto simp: lags_def flush_items_def split: if_splits)

end

record sync_debt =
  y_auths :: "string set"
  y_bundles :: "string set"
  y_auth_batch :: "(string \<times> mailbox_auth option) list"
  y_bundle_batch :: "(string \<times> hosted_bundle option) list"
  y_flusher :: bool

definition no_sync :: "bool \<Rightarrow> sync_debt" where
  "no_sync fl = \<lparr>y_auths = {}, y_bundles = {}, y_auth_batch = [], y_bundle_batch = [], y_flusher = fl\<rparr>"

definition one_flusher :: "sync_debt list \<Rightarrow> bool" where
  "one_flusher ds \<longleftrightarrow> (\<forall>i < length ds. \<forall>j < length ds. y_flusher (ds ! i) \<and> y_flusher (ds ! j) \<longrightarrow> i = j)
     \<and> (\<forall>d \<in> set ds. \<not> y_flusher d \<longrightarrow> y_auth_batch d = [] \<and> y_bundle_batch d = [])"

definition sync_inv :: "('t, 'b, 'c) app_env \<Rightarrow> ('t, 'c) app_state \<Rightarrow> sync_debt list \<Rightarrow> bool" where
  "sync_inv E s ds \<longleftrightarrow> one_flusher ds
     \<and> lags (a_auth E) (a_auth_codec E) same_auth (auths s) (dirty_auth s) (auth_table s)
         (\<Union> (y_auths ` set ds)) (concat (map y_auth_batch ds))
     \<and> lags (a_bundles E) (a_bundle_codec E) (=) (bundles s) (dirty_bundles s) (bundle_table s)
         (\<Union> (y_bundles ` set ds)) (concat (map y_bundle_batch ds))"

lemma sync_inv_other [simp]:
  "sync_inv E (s\<lparr>queues := x1\<rparr>) = sync_inv E s" "sync_inv E (s\<lparr>files := x2\<rparr>) = sync_inv E s"
  "sync_inv E (s\<lparr>online := x3\<rparr>) = sync_inv E s" "sync_inv E (s\<lparr>send_rate := x4\<rparr>) = sync_inv E s"
  "sync_inv E (s\<lparr>total_bundle_bytes := x7\<rparr>) = sync_inv E s"
  "sync_inv E (s\<lparr>last_bundle_prune_ms := x8\<rparr>) = sync_inv E s"
  "sync_inv E (s\<lparr>mailbox_count := x9\<rparr>) = sync_inv E s" "sync_inv E (s\<lparr>conn_count := x10\<rparr>) = sync_inv E s"
  "sync_inv E (release_mailbox s) = sync_inv E s"
  by (auto simp: sync_inv_def fun_eq_iff release_mailbox_def)

text \<open>What one task's debt contributes.\<close>

lemma pend_update:
  assumes "t < length ds" "ds ! t = d"
  shows "\<Union> (f ` set ds) \<subseteq> f d \<union> \<Union> (f ` set (ds[t := d']))" "f d' \<subseteq> \<Union> (f ` set (ds[t := d']))"
    "f d \<subseteq> f d' \<union> A \<Longrightarrow> \<Union> (f ` set ds) \<subseteq> \<Union> (f ` set (ds[t := d'])) \<union> A"
proof -
  have upd: "e \<in> set ds \<Longrightarrow> e = d \<or> e \<in> set (ds[t := d'])" for e
    using assms in_set_conv_nth [of e ds] in_set_conv_nth [of e "ds[t := d']"]
    by (metis length_list_update nth_list_update_neq)
  have new: "d' \<in> set (ds[t := d'])" using assms(1) by (rule set_update_memI)
  show "\<Union> (f ` set ds) \<subseteq> f d \<union> \<Union> (f ` set (ds[t := d']))" using upd by blast
  show "f d' \<subseteq> \<Union> (f ` set (ds[t := d']))" using new by blast
  show "f d \<subseteq> f d' \<union> A \<Longrightarrow> \<Union> (f ` set ds) \<subseteq> \<Union> (f ` set (ds[t := d'])) \<union> A" using upd new by blast
qed

lemma one_flusher_update:
  assumes "one_flusher ds" "t < length ds" "ds ! t = d" "y_flusher d' = y_flusher d"
    "\<not> y_flusher d \<Longrightarrow> y_auth_batch d' = [] \<and> y_bundle_batch d' = []"
  shows "one_flusher (ds[t := d'])"
proof -
  have "y_flusher (ds[t := d'] ! i) = y_flusher (ds ! i)" if "i < length ds" for i
    using assms that by (cases "i = t") auto
  moreover have "\<not> y_flusher e \<Longrightarrow> y_auth_batch e = [] \<and> y_bundle_batch e = []" if "e \<in> set (ds[t := d'])" for e
    using assms set_update_subset_insert [of ds t d'] that by (auto simp: one_flusher_def)
  ultimately show ?thesis using assms(1) by (auto simp: one_flusher_def)
qed

text \<open>All that is read and not written is the flusher's.\<close>

lemma concat_map_one:
  "t < length xs \<Longrightarrow> (\<And>j. j < length xs \<Longrightarrow> j \<noteq> t \<Longrightarrow> f (xs ! j) = []) \<Longrightarrow> concat (map f xs) = f (xs ! t)"
proof (induction xs arbitrary: t)
  case (Cons x xs)
  show ?case
  proof (cases t)
    case 0
    have "f y = []" if "y \<in> set xs" for y
      using that Cons.prems(2) [of "Suc i" for i] 0 by (metis Suc_less_eq in_set_conv_nth length_Cons nat.distinct(1) nth_Cons_Suc)
    then have "concat (map f xs) = []" by simp
    with 0 show ?thesis by simp
  next
    case (Suc u)
    have "f x = []" using Cons.prems(2) [of 0] Suc by simp
    moreover have "concat (map f xs) = f (xs ! u)"
      using Cons.IH [of u] Cons.prems Suc by (metis Suc_inject Suc_less_eq length_Cons nth_Cons_Suc)
    ultimately show ?thesis using Suc by simp
  qed
qed simp

lemma flusher_batch:
  assumes "one_flusher ds" "t < length ds" "y_flusher (ds ! t)"
  shows "concat (map y_auth_batch ds) = y_auth_batch (ds ! t)" "concat (map y_bundle_batch ds) = y_bundle_batch (ds ! t)"
proof -
  have quiet: "y_auth_batch (ds ! j) = [] \<and> y_bundle_batch (ds ! j) = []" if "j < length ds" "j \<noteq> t" for j
  proof -
    have "\<not> y_flusher (ds ! j)" using assms that by (auto simp: one_flusher_def)
    then show ?thesis using assms(1) nth_mem [OF that(1)] by (simp add: one_flusher_def)
  qed
  show "concat (map y_auth_batch ds) = y_auth_batch (ds ! t)"
    "concat (map y_bundle_batch ds) = y_bundle_batch (ds ! t)"
    by (rule concat_map_one [OF assms(2)], simp add: quiet)+
qed



section \<open>Steps\<close>

text \<open>A step that changes what its task owes and not what it has read.\<close>

lemma sync_owe:
  assumes "sync_inv E s ds" "t < length ds" "ds ! t = d" "d' = d\<lparr>y_auths := ks, y_bundles := bs\<rparr>"
    "\<And>O1 O2 B. lags (a_auth E) (a_auth_codec E) same_auth (auths s) (dirty_auth s) (auth_table s) O1 B \<Longrightarrow>
       O1 \<subseteq> y_auths d \<union> O2 \<Longrightarrow> ks \<subseteq> O2 \<Longrightarrow>
       lags (a_auth E) (a_auth_codec E) same_auth (auths s') (dirty_auth s') (auth_table s') O2 B"
    "\<And>O1 O2 B. lags (a_bundles E) (a_bundle_codec E) (=) (bundles s) (dirty_bundles s) (bundle_table s) O1 B \<Longrightarrow>
       O1 \<subseteq> y_bundles d \<union> O2 \<Longrightarrow> bs \<subseteq> O2 \<Longrightarrow>
       lags (a_bundles E) (a_bundle_codec E) (=) (bundles s') (dirty_bundles s') (bundle_table s') O2 B"
  shows "sync_inv E s' (ds[t := d'])"
proof -
  have batch: "map y_auth_batch (ds[t := d']) = map y_auth_batch ds" "map y_bundle_batch (ds[t := d']) = map y_bundle_batch ds"
    using assms(2-4) by (simp_all add: map_update list_update_same_conv)
  have "one_flusher (ds[t := d'])"
    using assms(1-4) nth_mem [OF assms(2)] by (intro one_flusher_update) (auto simp: sync_inv_def one_flusher_def)
  then show ?thesis
    using assms(1) assms(5) [of "\<Union> (y_auths ` set ds)" "concat (map y_auth_batch ds)" "\<Union> (y_auths ` set (ds[t := d']))"]
      assms(6) [of "\<Union> (y_bundles ` set ds)" "concat (map y_bundle_batch ds)" "\<Union> (y_bundles ` set (ds[t := d']))"]
      pend_update(1,2) [OF assms(2,3), of y_auths d'] pend_update(1,2) [OF assms(2,3), of y_bundles d']
    unfolding sync_inv_def batch by (simp add: assms(4))
qed

lemma lags_mono: "lags T C same cache dirty tbl due batch \<Longrightarrow> due \<subseteq> due' \<Longrightarrow> lags T C same cache dirty tbl due' batch"
  by (auto simp: lags_def)

text \<open>The debts of a handler: none, a record or a bundle it has changed and not marked.\<close>

definition owes_auth :: "string \<Rightarrow> sync_debt" where
  "owes_auth k = (no_sync False)\<lparr>y_auths := {k}\<rparr>"

definition owes_bundle :: "string \<Rightarrow> sync_debt" where
  "owes_bundle k = (no_sync False)\<lparr>y_bundles := {k}\<rparr>"

lemma sync_changed_auth:
  assumes "sync_inv E s ds" "t < length ds" "ds ! t = no_sync False"
    "\<And>j. j \<noteq> rid \<Longrightarrow> dm_get as j = dm_get (auths s) j"
  shows "sync_inv E (s\<lparr>auths := as\<rparr>) (ds[t := owes_auth rid])"
proof (rule sync_owe [OF assms(1-3), where ks = "{rid}" and bs = "{}"])
  fix O1 O2 B
  assume a: "lags (a_auth E) (a_auth_codec E) same_auth (auths s) (dirty_auth s) (auth_table s) O1 B"
    "O1 \<subseteq> y_auths (no_sync False) \<union> O2" "{rid} \<subseteq> O2"
  from a(2,3) have "O1 \<union> {rid} \<subseteq> O2" by (simp add: no_sync_def)
  then show "lags (a_auth E) (a_auth_codec E) same_auth (auths (s\<lparr>auths := as\<rparr>)) (dirty_auth (s\<lparr>auths := as\<rparr>))
      (auth_table (s\<lparr>auths := as\<rparr>)) O2 B"
    using lags_owe [OF a(1), where ks = "{rid}" and cache' = as and due' = O2] assms(4) by simp
qed (auto simp: owes_auth_def no_sync_def intro: lags_mono)

lemma sync_marked_auth:
  assumes "sync_inv E s ds" "t < length ds" "ds ! t = owes_auth rid"
  shows "sync_inv E (mark_auth_dirty rid s) (ds[t := no_sync False])"
proof (rule sync_owe [OF assms(1-3), where ks = "{}" and bs = "{}"])
  fix O1 O2 B
  assume "lags (a_auth E) (a_auth_codec E) same_auth (auths s) (dirty_auth s) (auth_table s) O1 B"
    "O1 \<subseteq> y_auths (owes_auth rid) \<union> O2"
  then show "lags (a_auth E) (a_auth_codec E) same_auth (auths (mark_auth_dirty rid s)) (dirty_auth (mark_auth_dirty rid s))
      (auth_table (mark_auth_dirty rid s)) O2 B"
    using lags_mark by (simp add: mark_auth_dirty_def owes_auth_def)
qed (auto simp: owes_auth_def no_sync_def mark_auth_dirty_def intro: lags_mono)

lemma sync_changed_bundle:
  assumes "sync_inv E s ds" "t < length ds" "ds ! t = no_sync False"
    "\<And>j. j \<noteq> bid \<Longrightarrow> dm_get bs j = dm_get (bundles s) j"
  shows "sync_inv E (s\<lparr>bundles := bs\<rparr>) (ds[t := owes_bundle bid])"
proof (rule sync_owe [OF assms(1-3), where ks = "{}" and bs = "{bid}"])
  fix O1 O2 B
  assume a: "lags (a_bundles E) (a_bundle_codec E) (=) (bundles s) (dirty_bundles s) (bundle_table s) O1 B"
    "O1 \<subseteq> y_bundles (no_sync False) \<union> O2" "{bid} \<subseteq> O2"
  from a(2,3) have "O1 \<union> {bid} \<subseteq> O2" by (simp add: no_sync_def)
  then show "lags (a_bundles E) (a_bundle_codec E) (=) (bundles (s\<lparr>bundles := bs\<rparr>)) (dirty_bundles (s\<lparr>bundles := bs\<rparr>))
      (bundle_table (s\<lparr>bundles := bs\<rparr>)) O2 B"
    using lags_owe [OF a(1), where ks = "{bid}" and cache' = bs and due' = O2] assms(4) by simp
qed (auto simp: owes_bundle_def no_sync_def intro: lags_mono)

lemma sync_marked_bundle:
  assumes "sync_inv E s ds" "t < length ds" "ds ! t = owes_bundle bid"
  shows "sync_inv E (mark_bundle_dirty bid s) (ds[t := no_sync False])"
proof (rule sync_owe [OF assms(1-3), where ks = "{}" and bs = "{}"])
  fix O1 O2 B
  assume "lags (a_bundles E) (a_bundle_codec E) (=) (bundles s) (dirty_bundles s) (bundle_table s) O1 B"
    "O1 \<subseteq> y_bundles (owes_bundle bid) \<union> O2"
  then show "lags (a_bundles E) (a_bundle_codec E) (=) (bundles (mark_bundle_dirty bid s)) (dirty_bundles (mark_bundle_dirty bid s))
      (bundle_table (mark_bundle_dirty bid s)) O2 B"
    using lags_mark by (simp add: mark_bundle_dirty_def owes_bundle_def)
qed (auto simp: owes_bundle_def no_sync_def mark_bundle_dirty_def intro: lags_mono)

text \<open>Marking a key again does no harm.\<close>

lemma sync_updates [settle_rules]:
  "settles (sync_inv E) d (update (mark_auth_dirty r))"
  "settles (sync_inv E) d (update (mark_bundle_dirty r))"
  "settles (sync_inv E) d (update release_mailbox)"
  "settles (sync_inv E) d (update (\<lambda>s. s\<lparr>online := h1 s\<rparr>))"
  "settles (sync_inv E) d (update (\<lambda>s. s\<lparr>send_rate := h2 s\<rparr>))"
  "settles (sync_inv E) d (update (\<lambda>s. s\<lparr>last_bundle_prune_ms := h3 s\<rparr>))"
  "settles (sync_inv E) d (update (\<lambda>s. s\<lparr>total_bundle_bytes := h4 s\<rparr>))"
  "settles (sync_inv E) d (update (\<lambda>s. s\<lparr>conn_count := h7 s\<rparr>))"
  "settles (sync_inv E) d (on_queue p)" "settles (sync_inv E) d (on_files p')"
proof -
  show "settles (sync_inv E) d (on_queue p)" unfolding on_queue_def by (rule settles_part) simp
  show "settles (sync_inv E) d (on_files p')" unfolding on_files_def by (rule settles_part) simp
qed (auto intro!: settles_update, auto simp: sync_inv_def mark_auth_dirty_def mark_bundle_dirty_def intro: lags_mark)



section \<open>Handlers\<close>

lemma settles_then: "settles Inv d p \<Longrightarrow> settles Inv d (bind p (\<lambda>_. Return x))"
  by (intro settle_rules)

text \<open>A record is changed, and later marked.\<close>

lemma sync_marks_auth:
  assumes "settles (sync_inv E) (no_sync False) (k ())"
  shows "upholds (sync_inv E) (\<lambda>d' x. d' = no_sync False) (owes_auth rid) (bind (update (mark_auth_dirty rid)) k)"
  using assms by (intro upholds_update_bind [where d' = "no_sync False"] sync_marked_auth) (simp_all add: settles_def)

lemma sync_marks_bundle:
  assumes "settles (sync_inv E) (no_sync False) (k ())"
  shows "upholds (sync_inv E) (\<lambda>d' x. d' = no_sync False) (owes_bundle bid) (bind (update (mark_bundle_dirty bid)) k)"
  using assms by (intro upholds_update_bind [where d' = "no_sync False"] sync_marked_bundle) (simp_all add: settles_def)

definition changes_auth ::
    "string \<Rightarrow> (('t, 'c) app_state \<Rightarrow> ('t, 'c) app_state \<times> 'x) \<Rightarrow> ('x \<Rightarrow> bool) \<Rightarrow> bool" where
  "changes_auth rid f P \<longleftrightarrow> (\<forall>s. if P (snd (f s))
     then fst (f s) = s\<lparr>auths := auths (fst (f s)), mailbox_count := mailbox_count (fst (f s))\<rparr>
       \<and> (\<forall>j. j \<noteq> rid \<longrightarrow> dm_get (auths (fst (f s))) j = dm_get (auths s) j)
     else fst (f s) = s)"

lemma sync_change_auth:
  fixes k :: "'x \<Rightarrow> (('t, 'c) app_state, 'o) prog"
  assumes "changes_auth rid f P" "\<And>x. \<not> P x \<Longrightarrow> settles (sync_inv E) (no_sync False) (k x)"
    "\<And>x. P x \<Longrightarrow> upholds (sync_inv E) (\<lambda>d' x. d' = no_sync False) (owes_auth rid) (k x)"
  shows "settles (sync_inv E) (no_sync False) (bind (atomic f) k)"
  unfolding settles_def
proof (rule upholds_atomic_bind)
  fix s :: "('t, 'c) app_state" and ds t
  assume t: "t < length ds" "ds ! t = no_sync False" "sync_inv E s ds"
  from t(1,2) have kept: "ds[t := no_sync False] = ds" by (simp add: list_update_same_conv)
  show "\<exists>d'. upholds (sync_inv E) (\<lambda>d' x. d' = no_sync False) d' (k (snd (f s))) \<and> sync_inv E (fst (f s)) (ds[t := d'])"
  proof (cases "P (snd (f s))")
    case True
    let ?as = "auths (fst (f s))" and ?n = "mailbox_count (fst (f s))"
    from True assms(1) have s': "fst (f s) = s\<lparr>auths := ?as\<rparr>\<lparr>mailbox_count := ?n\<rparr>"
        "\<forall>j. j \<noteq> rid \<longrightarrow> dm_get ?as j = dm_get (auths s) j"
      unfolding changes_auth_def by metis+
    then have "sync_inv E (fst (f s)) (ds[t := owes_auth rid])"
      using sync_changed_auth [OF t(3,1,2), of rid ?as] by (subst s'(1), unfold sync_inv_other) blast
    with True assms(3) show ?thesis by blast
  next
    case False
    then have "fst (f s) = s" using assms(1) by (simp add: changes_auth_def)
    with False assms(2) t show ?thesis
      by (intro exI [of _ "no_sync False"]) (use kept in \<open>simp add: settles_def\<close>)
  qed
qed

lemma sync_change_bundle:
  fixes k :: "'x \<Rightarrow> (('t, 'c) app_state, 'o) prog"
  assumes "\<And>s. fst (f s) = s\<lparr>bundles := h s\<rparr>" "\<And>s j. j \<noteq> bid \<Longrightarrow> dm_get (h s) j = dm_get (bundles s) j"
    "\<And>s. \<not> P (snd (f s)) \<Longrightarrow> h s = bundles s"
    "\<And>x. \<not> P x \<Longrightarrow> settles (sync_inv E) (no_sync False) (k x)"
    "\<And>x. P x \<Longrightarrow> upholds (sync_inv E) (\<lambda>d' x. d' = no_sync False) (owes_bundle bid) (k x)"
  shows "settles (sync_inv E) (no_sync False) (bind (atomic f) k)"
  unfolding settles_def
proof (rule upholds_atomic_bind)
  fix s :: "('t, 'c) app_state" and ds t
  assume t: "t < length ds" "ds ! t = no_sync False" "sync_inv E s ds"
  from t(1,2) have kept: "ds[t := no_sync False] = ds" by (simp add: list_update_same_conv)
  show "\<exists>d'. upholds (sync_inv E) (\<lambda>d' x. d' = no_sync False) d' (k (snd (f s))) \<and> sync_inv E (fst (f s)) (ds[t := d'])"
  proof (cases "P (snd (f s))")
    case True
    then show ?thesis using sync_changed_bundle [OF t(3,1,2) assms(2)] assms(1,5) by auto
  next
    case False
    then have "fst (f s) = s" using assms(1) [of s] assms(3) [of s] by simp
    with False assms(4) t show ?thesis
      by (intro exI [of _ "no_sync False"]) (use kept in \<open>simp add: settles_def\<close>)
  qed
qed

lemma sync_hello: "settles (sync_inv E) (no_sync False) (hello_prog W i rid at dt pmin pmax pver pow co c)"
proof -
  have "changes_auth rid (hello_entry W i rid ah dh pow :: ('a, 'b) app_state \<Rightarrow> _) (\<lambda>r. r = None)" for ah dh
    by (auto simp: changes_auth_def hello_entry_def reserve_mailbox_slot_def Let_def fun_eq_iff
        split: option.split prod.split intro!: app_state.equality)
  then show ?thesis
    unfolding hello_prog_def Let_def
    by (intro settles_if settles_return sync_change_auth [where P = "\<lambda>r. r = None"])
      (auto intro!: sync_marks_auth settle_rules)
qed

lemma sync_set_tokens: "settles (sync_inv E) (no_sync False) (set_delivery_tokens_prog W r toks c)"
proof (cases "recipient c")
  case (Some rid)
  show ?thesis
    unfolding set_delivery_tokens_prog_def Some option.case
    by (intro settles_if settles_return sync_change_auth [where P = "\<lambda>r. r \<noteq> None" and rid = rid])
      (auto intro!: settle_rules sync_marks_auth app_state.equality simp: changes_auth_def Let_def split: option.split)
qed (simp add: set_delivery_tokens_prog_def)

text \<open>The lease of a mailbox is renewed without a mark: the table may lag behind in it.\<close>

lemma lags_related:
  assumes "lags T C same_auth cache dirty tbl due batch" "\<And>j. rel_option same_auth (dm_get cache j) (dm_get cache' j)"
  shows "lags T C same_auth cache' dirty tbl due batch"
proof -
  have "rel_option same_auth x (dm_get cache' k)" if "rel_option same_auth x (dm_get cache k)" for x k
    using that assms(2) [of k] by (auto simp: option.rel_sel same_auth_iff)
  with assms(1) show ?thesis unfolding lags_def by metis
qed

lemma sync_authorize: "sync_inv E s ds \<Longrightarrow> sync_inv E (fst (authorize_send W i to tok s)) ds"
  by (auto simp: authorize_send_def sync_inv_def same_auth_iff option.rel_refl elim!: lags_related split: option.split)

lemma sync_allow: "sync_inv E (fst (allow_dest_send now to s)) = sync_inv E s"
  by (auto simp: allow_dest_send_def Let_def split: prod.split)

lemma sync_send: "settles (sync_inv E) (no_sync False) (send_prog W i cref to tok ety ctext c)"
  unfolding send_prog_def deliver_prog_def Let_def
  by (intro settle_rules settles_atomic) (simp_all add: sync_authorize sync_allow)

lemma changes_remove:
  "changes_auth rid (remove_auth rid) (\<lambda>b. b)" "changes_auth rid (remove_idle now rid) (\<lambda>b. b)"
  by (auto simp: changes_auth_def remove_auth_def remove_idle_def split: option.split intro!: app_state.equality)

lemma sync_retire: "settles (sync_inv E) (no_sync False) (retire_prog W i c)"
proof (cases "recipient c")
  case (Some rid)
  show ?thesis unfolding retire_prog_def Some option.case
    by (rule sync_change_auth [OF changes_remove(1)]) (auto intro!: settle_rules upholds_after sync_marks_auth)
qed (simp add: retire_prog_def)

lemma sync_prune_loop: "settles (sync_inv E) (no_sync False) (prune_loop expired freed)"
proof (induction expired freed rule: prune_loop.induct)
  case (2 k n expired freed)
  show ?case unfolding prune_loop.simps
    by (rule sync_change_bundle [where P = "\<lambda>b. b" and bid = k and h = "\<lambda>s. dm_remove k (bundles s)"])
      (use 2 in \<open>auto intro!: sync_marks_bundle simp: dm_contains_def dm_remove_absent\<close>)
qed simp

lemma sync_prune: "settles (sync_inv E) (no_sync False) (prune_prog now)"
  unfolding prune_prog_def by (intro settle_rules sync_prune_loop)

lemma sync_upload_bundle: "settles (sync_inv E) (no_sync False) (upload_bundle_prog W i r bid ctext ex pow c)"
  unfolding upload_bundle_prog_def Let_def
  apply (intro settles_if settles_return settles_bind [OF sync_prune] settles_bind [OF settles_read] settles_option)
  apply (rule sync_change_bundle [where P = "\<lambda>_. True" and bid = bid and
        h = "\<lambda>s. dm_insert bid \<lparr>b_id = bid, b_ciphertext = ctext, b_created_at_ms = i_clock i 3,
          b_expires_at_ms = max (min ex (sat_add (i_clock i 3) MAX_BUNDLE_TTL_MS)) (sat_add (i_clock i 3) 60000)\<rparr> (bundles s)"])
  by (auto intro!: settle_rules upholds_after sync_marks_bundle)

lemma sync_fetch_bundle: "settles (sync_inv E) (no_sync False) (fetch_bundle_prog i r bid c)"
  unfolding fetch_bundle_prog_def by (intro settle_rules sync_prune)

lemma sync_frame: "settles (sync_inv E) (no_sync False) (frame_prog W i f c)"
  by (cases f) (auto simp: goes_on_def file_prog_defs ack_frame_prog_def intro!: settle_rules sync_hello
      sync_set_tokens sync_send sync_retire sync_upload_bundle sync_fetch_bundle)

lemma sync_serve: "settles (sync_inv E) (no_sync False) (serve_prog W texts c)"
proof (induction W texts c rule: serve_prog.induct)
  case (2 W i msg texts c)
  then show ?case by (auto simp: text_prog_def Let_def intro!: settle_rules sync_frame)
qed simp

lemma sync_ends:
  "settles (sync_inv E) (no_sync False) (open_prog now ch)"
  "settles (sync_inv E) (no_sync False) (close_prog c)"
  unfolding open_prog_def close_prog_def
  by (intro settles_atomic_bind, auto intro!: settle_rules simp del: One_nat_def)

lemma sync_socket: "settles (sync_inv E) (no_sync False) (socket_prog W now ch texts)"
  unfolding socket_prog_def by (intro settle_rules sync_serve sync_ends)


section \<open>Background tasks\<close>

lemma sync_collect: "settles (sync_inv E) (no_sync False) (collect_prog E' io now stale)"
proof (induction E' io now stale rule: collect_prog.induct)
  case (2 E' io now rid stale)
  show ?case unfolding collect_prog.simps
    by (rule sync_change_auth [OF changes_remove(2)]) (use 2 in \<open>auto intro!: settle_rules upholds_after sync_marks_auth\<close>)
qed simp

lemma sync_gc: "settles (sync_inv E) (no_sync False) (gc_prog E' io now)"
proof -
  have "settles (sync_inv E) (no_sync False) (stale_prog E' io rids stale)" for rids stale
    by (induction E' io rids stale rule: stale_prog.induct) (auto intro!: settle_rules)
  then show ?thesis unfolding gc_prog_def by (intro settle_rules sync_collect)
qed

text \<open>The flusher: a key that is taken is due until it is read, and the batch until it is written.\<close>

definition flushing ::
    "string set \<Rightarrow> string set \<Rightarrow> (string \<times> mailbox_auth option) list \<Rightarrow> (string \<times> hosted_bundle option) list \<Rightarrow> sync_debt" where
  "flushing ks bs ba bb = \<lparr>y_auths = ks, y_bundles = bs, y_auth_batch = ba, y_bundle_batch = bb, y_flusher = True\<rparr>"

lemma no_sync_flushing: "no_sync True = flushing {} {} [] []"
  by (simp add: no_sync_def flushing_def)

lemma sync_flush_step:
  assumes "sync_inv E s ds" "t < length ds" "ds ! t = flushing ks bs ba bb"
    "\<And>O1 O2. lags (a_auth E) (a_auth_codec E) same_auth (auths s) (dirty_auth s) (auth_table s) O1 ba \<Longrightarrow>
       O1 \<subseteq> ks \<union> O2 \<Longrightarrow> ks' \<subseteq> O2 \<Longrightarrow>
       lags (a_auth E) (a_auth_codec E) same_auth (auths s') (dirty_auth s') (auth_table s') O2 ba'"
    "\<And>O1 O2. lags (a_bundles E) (a_bundle_codec E) (=) (bundles s) (dirty_bundles s) (bundle_table s) O1 bb \<Longrightarrow>
       O1 \<subseteq> bs \<union> O2 \<Longrightarrow> bs' \<subseteq> O2 \<Longrightarrow>
       lags (a_bundles E) (a_bundle_codec E) (=) (bundles s') (dirty_bundles s') (bundle_table s') O2 bb'"
  shows "sync_inv E s' (ds[t := flushing ks' bs' ba' bb'])"
proof -
  let ?ds = "ds[t := flushing ks' bs' ba' bb']"
  have one: "one_flusher ds" "one_flusher ?ds"
    using assms(1-3) by (auto simp: sync_inv_def flushing_def intro!: one_flusher_update)
  have batch: "concat (map y_auth_batch ds) = ba" "concat (map y_bundle_batch ds) = bb"
    "concat (map y_auth_batch ?ds) = ba'" "concat (map y_bundle_batch ?ds) = bb'"
    using flusher_batch [OF one(1) assms(2)] flusher_batch [OF one(2), of t] assms(2,3) by (simp_all add: flushing_def)
  show ?thesis
    using assms(1) one(2) assms(4) [of "\<Union> (y_auths ` set ds)" "\<Union> (y_auths ` set ?ds)"]
      assms(5) [of "\<Union> (y_bundles ` set ds)" "\<Union> (y_bundles ` set ?ds)"]
      pend_update(1,2) [OF assms(2,3), of y_auths "flushing ks' bs' ba' bb'"]
      pend_update(1,2) [OF assms(2,3), of y_bundles "flushing ks' bs' ba' bb'"]
    unfolding sync_inv_def batch by (simp add: flushing_def)
qed

lemma sync_take_auths:
  "upholds (sync_inv E) (\<lambda>d b. d = flushing {} {} b []) (flushing {} {} ba []) (take_auths ks ba)"
proof (induction ks ba rule: take_auths.induct)
  case (2 k ks ba)
  show ?case unfolding take_auths.simps
  proof (rule upholds_update_bind [where d' = "flushing {k} {} ba []"])
    fix s :: "('a, 'b) app_state" and ds t
    assume t: "t < length ds" "ds ! t = flushing {} {} ba []" "sync_inv E s ds"
    show "sync_inv E (s\<lparr>dirty_auth := dm_remove k (dirty_auth s)\<rparr>) (ds[t := flushing {k} {} ba []])"
      by (rule sync_flush_step [OF t(3,1,2)]) (auto intro: lags_unmark lags_mono)
  next
    show "upholds (sync_inv E) (\<lambda>d b. d = flushing {} {} b []) (flushing {k} {} ba [])
        (bind (atomic (\<lambda>s. (s, dm_get (auths s) k))) (\<lambda>v. take_auths ks (ba @ [(k, v)])))"
    proof (rule upholds_atomic_bind, intro exI conjI)
      fix s :: "('a, 'b) app_state" and ds t
      assume t: "t < length ds" "ds ! t = flushing {k} {} ba []" "sync_inv E s ds"
      show "sync_inv E (fst (s, dm_get (auths s) k)) (ds[t := flushing {} {} (ba @ [(k, dm_get (auths s) k)]) []])"
        by (rule sync_flush_step [OF t(3,1,2)]) (auto intro: lags_read lags_mono simp: same_auth_iff)
    qed (use 2 in simp)
  qed
qed (simp add: upholds.return)

lemma sync_take_bundles:
  "upholds (sync_inv E) (\<lambda>d b. d = flushing {} {} [] b) (flushing {} {} [] bb) (take_bundles ks bb)"
proof (induction ks bb rule: take_bundles.induct)
  case (2 k ks bb)
  show ?case unfolding take_bundles.simps
  proof (rule upholds_update_bind [where d' = "flushing {} {k} [] bb"])
    fix s :: "('a, 'b) app_state" and ds t
    assume t: "t < length ds" "ds ! t = flushing {} {} [] bb" "sync_inv E s ds"
    show "sync_inv E (s\<lparr>dirty_bundles := dm_remove k (dirty_bundles s)\<rparr>) (ds[t := flushing {} {k} [] bb])"
      by (rule sync_flush_step [OF t(3,1,2)]) (auto intro: lags_unmark lags_mono)
  next
    show "upholds (sync_inv E) (\<lambda>d b. d = flushing {} {} [] b) (flushing {} {k} [] bb)
        (bind (atomic (\<lambda>s. (s, dm_get (bundles s) k))) (\<lambda>v. take_bundles ks (bb @ [(k, v)])))"
    proof (rule upholds_atomic_bind, intro exI conjI)
      fix s :: "('a, 'b) app_state" and ds t
      assume t: "t < length ds" "ds ! t = flushing {} {k} [] bb" "sync_inv E s ds"
      show "sync_inv E (fst (s, dm_get (bundles s) k)) (ds[t := flushing {} {} [] (bb @ [(k, dm_get (bundles s) k)])])"
        by (rule sync_flush_step [OF t(3,1,2)]) (auto intro: lags_read lags_mono)
    qed (use 2 in simp)
  qed
qed (simp add: upholds.return)

context app_backend
begin

lemma sync_write:
  fixes s :: "('t, 'c) app_state"
  assumes "sync_inv E s ds" "t < length ds" "write_ok io"
  shows "ds ! t = flushing {} {} ba [] \<Longrightarrow>
      sync_inv E (fst (write_auths E io ba s)) (ds[t := no_sync True]) \<and> snd (write_auths E io ba s) = Some ()"
    "ds ! t = flushing {} {} [] bb \<Longrightarrow>
      sync_inv E (fst (write_bundles E io bb s)) (ds[t := no_sync True]) \<and> snd (write_bundles E io bb s) = Some ()"
proof -
  assume d: "ds ! t = flushing {} {} ba []"
  obtain tbl r where f: "flush_items (a_auth E) (a_auth_codec E) io ba (auth_table s) = (tbl, r)" by force
  note W = aw.lags_write [OF _ f assms(3)]
  have r: "r = Some ()" using f assms(3) by (simp add: flush_items_def split: if_splits)
  have "sync_inv E (s\<lparr>auth_table := tbl\<rparr>) (ds[t := flushing {} {} [] []])"
    by (rule sync_flush_step [OF assms(1,2) d]) (auto dest!: W intro: lags_mono)
  then show "sync_inv E (fst (write_auths E io ba s)) (ds[t := no_sync True]) \<and> snd (write_auths E io ba s) = Some ()"
    using f r by (simp add: write_auths_def no_sync_flushing)
next
  assume d: "ds ! t = flushing {} {} [] bb"
  obtain tbl r where f: "flush_items (a_bundles E) (a_bundle_codec E) io bb (bundle_table s) = (tbl, r)" by force
  note W = bw.lags_write [OF _ f assms(3)]
  have r: "r = Some ()" using f assms(3) by (simp add: flush_items_def split: if_splits)
  have "sync_inv E (s\<lparr>bundle_table := tbl\<rparr>) (ds[t := flushing {} {} [] []])"
    by (rule sync_flush_step [OF assms(1,2) d]) (auto dest!: W intro: lags_mono)
  then show "sync_inv E (fst (write_bundles E io bb s)) (ds[t := no_sync True]) \<and> snd (write_bundles E io bb s) = Some ()"
    using f r by (simp add: write_bundles_def no_sync_flushing)
qed

lemma sync_write_bind:
  fixes k :: "unit option \<Rightarrow> (('t, 'c) app_state, 'o) prog"
  assumes "write_ok io" "settles (sync_inv E) (no_sync True) (k (Some ()))"
  shows "upholds (sync_inv E) (\<lambda>d x. d = no_sync True) (flushing {} {} ba []) (bind (atomic (write_auths E io ba)) k)"
    "upholds (sync_inv E) (\<lambda>d x. d = no_sync True) (flushing {} {} [] bb) (bind (atomic (write_bundles E io bb)) k)"
  using sync_write [OF _ _ assms(1)] assms(2)
  by (intro upholds_atomic_bind exI [of _ "no_sync True"]; simp add: settles_def)+

lemma sync_flush_meta:
  assumes "write_ok io1" "write_ok io2"
  shows "settles (sync_inv E) (no_sync True) (flush_meta_prog E io1 io2 :: (('t, 'c) app_state, unit option) prog)"
proof -
  have one: "atomic f = bind (atomic f) Return" for f :: "('t, 'c) app_state \<Rightarrow> ('t, 'c) app_state \<times> unit option"
    by (simp add: atomic_def map_prod_def case_prod_unfold)
  have bundles: "settles (sync_inv E) (no_sync True) (bind (take_bundles ks [])
      (\<lambda>batch. atomic (write_bundles E io2 batch)) :: (('t, 'c) app_state, unit option) prog)" for ks
    unfolding settles_def
    by (rule upholds_bind [OF sync_take_bundles [where bb = "[]", folded no_sync_flushing]])
      (subst one, simp add: sync_write_bind(2) [OF assms(2)])
  show ?thesis unfolding flush_meta_prog_def settles_def
    by (intro upholds_after [OF settles_read] upholds_bind [OF sync_take_auths [where ba = "[]", folded no_sync_flushing]],
        elim ssubst, intro sync_write_bind(1) [OF assms(1)])
      (simp add: settles_bind [OF settles_read] bundles)
qed

lemma sync_flusher:
  "\<forall>(io1, io2) \<in> set ticks. write_ok io1 \<and> write_ok io2 \<Longrightarrow>
    settles (sync_inv E) (no_sync True) (flusher_prog E ticks :: (('t, 'c) app_state, outputs) prog)"
proof (induction ticks)
  case (Cons tick ticks)
  then show ?case
    by (cases tick) (auto simp: flush_tick_prog_def intro!: settle_rules sync_flush_meta)
qed simp

end


section \<open>All tasks\<close>

definition writes_go_through :: "task \<Rightarrow> bool" where
  "writes_go_through task =
     (case task of Flusher ticks \<Rightarrow> list_all (\<lambda>(io1, io2). write_ok io1 \<and> write_ok io2) ticks | _ \<Rightarrow> True)"

definition is_flusher :: "task \<Rightarrow> bool" where
  "is_flusher task = (case task of Flusher ticks \<Rightarrow> True | _ \<Rightarrow> False)"

lemma sync_task:
  fixes W :: "('t, 'b, 'c) ws_env"
  assumes "app_backend (w_app W)" "writes_go_through task"
  shows "settles (sync_inv (w_app W)) (no_sync (is_flusher task)) (task_prog W task)"
proof (cases task)
  case (Flusher ticks)
  then show ?thesis using assms app_backend.sync_flusher [OF assms(1), of ticks]
    by (auto simp: writes_go_through_def is_flusher_def list_all_iff)
qed (auto simp: queue_sweep_prog_def file_sweep_prog_def is_flusher_def intro!: settle_rules sync_socket sync_gc)

text \<open>Before the tasks have begun, and at any later time.\<close>

lemma one_flusher_tasks:
  "length (filter is_flusher tasks) \<le> 1 \<Longrightarrow> one_flusher (map (\<lambda>task. no_sync (is_flusher task)) tasks)"
proof -
  assume "length (filter is_flusher tasks) \<le> 1"
  then have "i = j" if "i < length tasks" "j < length tasks" "is_flusher (tasks ! i)" "is_flusher (tasks ! j)" for i j
    using that
  proof (induction tasks arbitrary: i j)
    case (Cons x tasks)
    have none: "is_flusher x \<Longrightarrow> k < length tasks \<Longrightarrow> \<not> is_flusher (tasks ! k)" for k
      using Cons.prems(1) by (auto simp: filter_empty_conv)
    show ?case using Cons none by (cases i; cases j) (auto split: if_splits)
  qed simp
  then show ?thesis by (auto simp: one_flusher_def no_sync_def)
qed

lemma concat_map_Nil: "concat (map (\<lambda>_. []) xs) = []"
  by (induction xs) simp_all

lemma sync_begins:
  assumes "meta_synced E s" "length (filter is_flusher tasks) \<le> 1"
  shows "sync_inv E s (map (\<lambda>task. no_sync (is_flusher task)) tasks)"
  using assms(1) one_flusher_tasks [OF assms(2)]
  by (simp add: sync_inv_def meta_synced_def comp_def no_sync_def lags_synced [symmetric] image_image concat_map_Nil)

lemma sync_ends_synced:
  assumes "sync_inv E s ds" "list_all2 (upholds Inv (\<lambda>d x. \<exists>b. d = no_sync b)) ds ps" "all_done ps"
  shows "meta_synced E s"
proof -
  have "\<exists>b. ds ! t = no_sync b" if "t < length ds" for t
  proof -
    have up: "upholds Inv (\<lambda>d x. \<exists>b. d = no_sync b) (ds ! t) (ps ! t)" and t: "t < length ps"
      using assms(2) that by (simp_all add: list_all2_conv_all_nth)
    obtain x where "ps ! t = Return x"
      using assms(3) t by (cases "ps ! t") (auto simp: all_done_def list_all_length split: prog.splits)
    with up show ?thesis by (auto elim: upholds_ReturnE)
  qed
  then have "d \<in> set ds \<Longrightarrow> \<exists>b. d = no_sync b" for d by (auto simp: in_set_conv_nth)
  then have quiet: "d \<in> set ds \<Longrightarrow> y_auths d = {} \<and> y_bundles d = {} \<and> y_auth_batch d = [] \<and> y_bundle_batch d = []" for d
    by (fastforce simp: no_sync_def)
  then have "\<Union> (y_auths ` set ds) = {}" "\<Union> (y_bundles ` set ds) = {}"
    "concat (map y_auth_batch ds) = []" "concat (map y_bundle_batch ds) = []" by auto
  with assms(1) show ?thesis by (simp add: sync_inv_def meta_synced_def lags_synced)
qed

lemma sync_kept:
  fixes W :: "('t, 'b, 'c) ws_env"
  assumes "app_backend (w_app W)" "meta_synced (w_app W) s" "length (filter is_flusher tasks) \<le> 1"
    "list_all writes_go_through tasks" "interleave sched (s, map (task_prog W) tasks) = (s', ps)" "all_done ps"
  shows "meta_synced (w_app W) s'"
proof -
  let ?Fin = "\<lambda>d (x :: outputs). \<exists>b. d = no_sync b"
  have "upholds (sync_inv (w_app W)) ?Fin (no_sync (is_flusher task)) (task_prog W task)"
    if "writes_go_through task" for task
    by (rule upholds_settled [OF sync_task [OF assms(1) that]]) blast
  then have "list_all2 (upholds (sync_inv (w_app W)) ?Fin) (map (\<lambda>task. no_sync (is_flusher task)) tasks) (map (task_prog W) tasks)"
    using assms(4) by (simp add: list_all2_conv_all_nth list_all_length)
  from upholds_interleave [OF sync_begins [OF assms(2,3)] this assms(5)]
  show ?thesis using sync_ends_synced [OF _ _ assms(6)] by blast
qed

end
