(* ===== verification/Concurrency.thy ===== *)
theory Concurrency
  imports TaskCaps TaskMail TaskSync RelayTheorems
begin

text \<open>
  The properties of the relay when its tasks interleave: every order in which the sockets and the
  background tasks can take their steps is a schedule of \<open>interleave\<close>. Each has an instance on
  the reference relay.
\<close>


section \<open>Samples\<close>

text \<open>
  A socket on which Alice registers and writes to herself, while the metadata is flushed and old
  messages are swept.
\<close>

definition sample_tasks :: "task list" where
  "sample_tasks = [Socket 86400000 1 [(in1, ''hello''), (in2, ''send'')], Flusher [(io_fine, io_fine)],
     QueueAging io_fine 86400000]"

definition app4 :: "(ref_tab, ref_chunks) app_state" where
  "app4 = app3\<lparr>conn_count := 0\<rparr>"

lemma sample_socket: "alone (task_prog ref_ws (sample_tasks ! 0)) app0
  = (app4, [(1, HelloOk 7 4 7 86400000 ''root'' 100), (1, Synced 0), (1, SendOk 7 True None)])"
proof -
  have "open_socket 86400000 1 app0 = (app1, Some conn0)"
    by (simp add: open_socket_def eval_defs)
  moreover have "close_socket conn3 app3 = app4"
    by (simp add: close_socket_def conn3_def app3_def app4_def app2_def app1_def app0_def usize_sub_def usize_modulus_def)
  ultimately show ?thesis
    by (simp add: sample_tasks_def socket_prog_def open_alone text_alone hello_reply send_reply close_alone)
qed

lemma sample_interleaving:
  obtains sched where "interleave sched (app0, map (task_prog ref_ws) sample_tasks)
    = (app4, (map (task_prog ref_ws) sample_tasks)
        [0 := Return [(1, HelloOk 7 4 7 86400000 ''root'' 100), (1, Synced 0), (1, SendOk 7 True None)]])"
  using alone_interleaved [of 0 "map (task_prog ref_ws) sample_tasks" app0] sample_socket
  by (auto simp: sample_tasks_def)


section \<open>Tasks end\<close>

definition ended :: "('s, 'o) prog \<Rightarrow> bool" where
  "ended p = (case p of Return _ \<Rightarrow> True | Step _ \<Rightarrow> False)"

lemma all_done_ended: "all_done ps \<longleftrightarrow> list_all ended ps"
  by (simp add: all_done_def ended_def [abs_def])

lemma ended_Return [simp]: "ended (Return x)"
  by (simp add: ended_def)

lemma count_update: "t < length xs \<Longrightarrow> length (filter P (xs[t := x])) + (if P (xs ! t) then 1 else 0)
    = length (filter P xs) + (if P x then 1 else 0)"
proof (induction xs arbitrary: t)
  case (Cons y ys)
  then show ?case by (cases t) fastforce+
qed simp

text \<open>Whatever the tasks have done so far, they can all still come to their end.\<close>

lemma tasks_can_end: "\<exists>sched s' ps'. interleave sched (s, ps) = (s', ps') \<and> all_done ps'"
proof (induction "length (filter (\<lambda>p. \<not> ended p) ps)" arbitrary: s ps)
  case 0
  then have "all_done ps" by (simp add: all_done_ended filter_empty_conv list_all_iff)
  then show ?case by (metis interleave_simps(1))
next
  case (Suc n)
  then obtain t where t: "t < length ps" "\<not> ended (ps ! t)"
    by (metis (no_types, lifting) Zero_not_Suc filter_empty_conv in_set_conv_nth length_0_conv)
  let ?ps = "ps[t := Return (snd (alone (ps ! t) s))]"
  obtain sched where sched: "interleave sched (s, ps) = (fst (alone (ps ! t) s), ?ps)"
    using alone_interleaved [OF t(1)] by blast
  have "length (filter (\<lambda>p. \<not> ended p) ?ps) = n"
    using Suc.hyps(2) t count_update [OF t(1), of "\<lambda>p. \<not> ended p" "Return (snd (alone (ps ! t) s))"] by simp
  with Suc.hyps(1) obtain more s' ps' where "interleave more (fst (alone (ps ! t) s), ?ps) = (s', ps')" "all_done ps'"
    by metis
  with sched show ?case by (metis interleave_append)
qed


section \<open>Caps\<close>

lemma caps_of_tasks:
  fixes W :: "('t, 'b, 'c) ws_env"
  assumes "0 < length tasks" "length tasks < usize_modulus" "auths_ok s" "conn_count s = 0" "length (bundles s) \<le> MAX_BUNDLES"
    "interleave sched (s, map (task_prog W) tasks) = (s', ps)"
  shows "length (auths s') \<le> mailbox_count s' \<and> mailbox_count s' \<le> MAX_MAILBOXES
    \<and> length (bundles s') < MAX_BUNDLES + length tasks
    \<and> conn_count s' \<le> length (filter (\<lambda>p. \<not> ended p) ps)
    \<and> (all_done ps \<longrightarrow> mailbox_count s' = length (auths s'))"
proof -
  let ?N = "length tasks" and ?ds = "replicate (length tasks) no_debt" and ?Fin = "\<lambda>d (x :: outputs). d = no_debt"
  have "owed f ?ds = length tasks * f no_debt" for f by (simp add: owed_def sum_list_replicate)
  then have "caps_inv ?N s ?ds"
    using assms(1-5) add_less_le_mono [of 0 "length tasks" "length (bundles s)" MAX_BUNDLES]
    by (simp add: caps_inv_def auths_ok_def no_debt_def small_def list_all_iff add.commute)
  moreover have "list_all2 (upholds (caps_inv ?N) ?Fin) ?ds (map (task_prog W) tasks)"
    using caps_task [of ?N W] by (simp add: list_all2_conv_all_nth settles_def)
  ultimately obtain ds where ds: "caps_inv ?N s' ds" "list_all2 (upholds (caps_inv ?N) ?Fin) ds ps"
    using upholds_interleave [OF _ _ assms(6)] by blast
  have ended: "d = no_debt" if "upholds (caps_inv ?N) ?Fin d p" "ended p" for d and p :: "(('t, 'c) app_state, outputs) prog"
    using that by (cases p) (auto simp: ended_def elim: upholds_ReturnE)
  have small: "list_all small ds" using ds(1) by (simp add: caps_inv_def)
  from ds(2) small have "owed d_try ds + owed d_open ds \<le> length (filter (\<lambda>p. \<not> ended p) ps)"
  proof (induction rule: list_all2_induct)
    case (Cons d ds p ps)
    then show ?case using ended [OF Cons(1)] by (auto simp: owed_def small_def no_debt_def)
  qed (simp add: owed_def)
  moreover have "owed d_mail ds = 0" if "all_done ps"
    using ds(2) that
  proof (induction rule: list_all2_induct)
    case (Cons d ds p ps)
    then have "d = no_debt" using ended [OF Cons(1)] by (simp add: all_done_ended)
    with Cons show ?case by (simp add: owed_def all_done_ended no_debt_def)
  qed (simp add: owed_def)
  ultimately show ?thesis using ds(1) by (auto simp: caps_inv_def)
qed

text \<open>
  C7: the caps hold when the tasks of the relay interleave in any way. At every moment there are
  at most 50000 registered mailboxes, and the counter the admission check reads is not below their
  number; the number of bundles is over its cap of 50000 by less than the number of tasks (the check
  and the insertion are two steps, so the cap itself can be passed); every counted socket is one
  that has not ended. When all tasks have ended the counters are exact again, and no order of
  steps can keep them from ending.
\<close>

theorem concurrent_caps:
  fixes W :: "('t, 'b, 'c) ws_env"
  assumes "0 < length tasks" "length tasks < usize_modulus" "auths_ok s" "conn_count s = 0" "length (bundles s) \<le> MAX_BUNDLES"
    "interleave sched (s, map (task_prog W) tasks) = (s', ps)"
  shows "length (auths s') \<le> mailbox_count s' \<and> mailbox_count s' \<le> MAX_MAILBOXES
    \<and> length (bundles s') < MAX_BUNDLES + length tasks
    \<and> conn_count s' \<le> length (filter (\<lambda>p. \<not> ended p) ps)
    \<and> (\<exists>more s'' ps''. interleave more (s', ps) = (s'', ps'') \<and> all_done ps''
         \<and> conn_count s'' = 0 \<and> mailbox_count s'' = length (auths s''))"
proof -
  obtain more s'' ps'' where more: "interleave more (s', ps) = (s'', ps'')" "all_done ps''"
    using tasks_can_end [of s' ps] by metis
  then have "interleave (sched @ more) (s, map (task_prog W) tasks) = (s'', ps'')"
    using assms(6) by (simp add: interleave_append)
  from caps_of_tasks [OF assms(1-5) this] have "conn_count s'' = 0" "mailbox_count s'' = length (auths s'')"
    using more(2) by (auto simp: all_done_ended list_all_iff filter_empty_conv)
  with caps_of_tasks [OF assms] more show ?thesis by blast
qed

theorem concurrent_caps_witness:
  "mailbox_count (fst (interleave [0, 1, 0, 2, 0, 0, 1] (app0, map (task_prog ref_ws) sample_tasks))) \<le> MAX_MAILBOXES"
proof -
  obtain s' ps where run: "interleave [0, 1, 0, 2, 0, 0, 1] (app0, map (task_prog ref_ws) sample_tasks) = (s', ps)"
    using prod.exhaust by blast
  have "auths_ok app0" "conn_count app0 = 0" "bundles app0 = []" by (simp_all add: auths_ok_def app0_def)
  moreover have "0 < length sample_tasks" "length sample_tasks < usize_modulus"
    by (simp_all add: sample_tasks_def usize_modulus_def)
  ultimately show ?thesis unfolding run using concurrent_caps [OF _ _ _ _ _ run] by simp
qed


section \<open>Messages\<close>

text \<open>
  C3: a message is not lost between the tasks. Once a socket's task has told a sender that its
  message is queued, the message is in the next collection of its mailbox that can read the
  store, whatever the order in which the sockets, the metadata flushes, the collection of idle
  mailboxes and the sweeps take their steps: a sweep that reads the table before the message is
  written and the index after, an eviction that was decided before it came, or another send that
  runs at the same time do not take it away. The conditions are on what the tasks do: no socket
  acknowledges it or retires its mailbox after a \<open>Hello\<close> for it, no other message has its id, its
  14 days and the idle period of its mailbox are not over at the readings of the clock, and what
  the tasks send to the mailbox fits under its caps.
\<close>

theorem concurrent_send_kept:
  fixes W :: "('t, 'b, 'c) ws_env"
  assumes "relay_backend W" "queue_inv (a_queue (w_app W)) (queues s)" "auths_ok s" "CHR '':'' \<notin> set (env_to env)"
    "length (mail (a_queue (w_app W)) (queues s) (env_to env))
      + length (concat (map (task_sizes W (env_to env)) tasks)) \<le> MAX_QUEUE_PER_RECIPIENT"
    "queue_bytes (mail (a_queue (w_app W)) (queues s) (env_to env))
      + sum_list (concat (map (task_sizes W (env_to env)) tasks)) \<le> PER_MAILBOX_QUEUE_BYTES"
    "nows = [] \<or> leased nows (env_to env) (auths s)" "list_all (task_spares W env at nows) tasks"
    "interleave sched (s, map (task_prog W) tasks) = (s', ps)"
    "Return out \<in> set ps" "said (env_id env) out" "read_ok io"
  shows "\<exists>msgs. flush (a_queue (w_app W)) io (env_to env) (queues s') = Some msgs \<and> env \<in> set msgs"
proof -
  have Q: "queue_backend (a_queue (w_app W))" using assms(1) by (simp add: relay_backend_def app_backend_def)
  obtain v where "entry_at (a_queue (w_app W)) (envelopes (queues s')) (env_to env) (env_id env) v"
    and v: "sv_t v = envelope_type env" "sv_c v = ciphertext env"
    using sent_kept [OF Q assms(2-11)] by (auto simp: held_def)
  from queue_backend.entry_flushed [OF Q this(1) assms(4,12)] show ?thesis by (cases env) (auto simp: v)
qed

definition sample_env :: stored_envelope where
  "sample_env = \<lparr>env_id = 7, env_to = alice, envelope_type = ''chat'', ciphertext = ''hi''\<rparr>"

theorem concurrent_send_kept_witness:
  "\<exists>sched s' ps msgs. interleave sched (app0, map (task_prog ref_ws) sample_tasks) = (s', ps)
     \<and> flush (a_queue ref_app) io_fine alice (queues s') = Some msgs \<and> sample_env \<in> set msgs"
proof -
  obtain sched where run: "interleave sched (app0, map (task_prog ref_ws) sample_tasks)
    = (app4, (map (task_prog ref_ws) sample_tasks)
        [0 := Return [(1, HelloOk 7 4 7 86400000 ''root'' 100), (1, Synced 0), (1, SendOk 7 True None)]])"
    by (rule sample_interleaving)
  have inv: "queue_inv (a_queue ref_app) (queues app0)" "auths_ok app0"
    using state_okD(3,5) [OF relay_invD(1) [OF relay0_inv]] by (simp_all add: relay0_def)
  have empty: "mail (a_queue ref_app) (queues app0) alice = []"
    by (simp add: read_mailbox_def app0_def mailbox_bounds_def List.map_filter_simps)
  have colon: "CHR '':'' \<notin> set alice" by (simp add: alice_def)
  have "\<exists>msgs. flush (a_queue (w_app ref_ws)) io_fine (env_to sample_env) (queues app4) = Some msgs \<and> sample_env \<in> set msgs"
    by (rule concurrent_send_kept [OF ref_relay_backend _ _ _ _ _ _ _ run, where nows = "[]" and at = 86400000])
      (auto simp: inv empty sample_env_def sample_tasks_def said_def socket_spares_def registers_def ref_json_def
        fresh_lease_def config_defs in1_def in2_def io_fine_def queue_bytes_def sat_sub_def colon)
  with run show ?thesis by (auto simp: sample_env_def)
qed


section \<open>Write-back\<close>

text \<open>
  C9: the metadata write-back loses no change to an interleaving. Whatever the tasks did to the
  registrations and the invite bundles while the flush task was unmarking, reading and writing
  them, once they have ended and their flushes have been written, the next flush leaves in the
  tables exactly the bundles of the cache and its registrations up to the time of their last use.
  It rests on the order of the steps: a change is marked after it is made, and a mark is taken off
  before the value is read.
\<close>

theorem concurrent_flush_complete:
  fixes W :: "('t, 'b, 'c) ws_env"
  assumes "relay_backend W" "meta_synced (w_app W) s" "length (filter is_flusher tasks) \<le> 1"
    "list_all writes_go_through tasks" "interleave sched (s, map (task_prog W) tasks) = (s', ps)" "all_done ps"
    "flush_dirty_meta (w_app W) io1 io2 s' = (s'', Some ())"
  shows "rel_option same_auth (stored_at (a_auth (w_app W)) (a_auth_codec (w_app W)) (auth_table s'') m) (dm_get (auths s') m)
    \<and> stored_at (a_bundles (w_app W)) (a_bundle_codec (w_app W)) (bundle_table s'') b = dm_get (bundles s') b"
proof -
  have A: "app_backend (w_app W)" using assms(1) by (simp add: relay_backend_def)
  note S = sync_kept [OF A assms(2-6)]
  show ?thesis using app_backend.flush_effect(5,7) [OF A S assms(7)] by blast
qed

lemma flush_items_fine: "flush_items T C io_fine items tbl = (fold (apply_item T C) items tbl, Some ())"
  by (simp add: flush_items_def io_fine_def)

theorem concurrent_flush_complete_witness:
  "\<exists>sched s' ps s''. interleave sched (app0, map (task_prog ref_ws) sample_tasks) = (s', ps) \<and> all_done ps
     \<and> flush_dirty_meta ref_app io_fine io_fine s' = (s'', Some ())
     \<and> rel_option same_auth (stored_at ref_table ref_auth_codec (auth_table s'') alice) (dm_get (auths s') alice)"
proof -
  obtain sched s' ps where run: "interleave sched (app0, map (task_prog ref_ws) sample_tasks) = (s', ps)" "all_done ps"
    using tasks_can_end [of app0 "map (task_prog ref_ws) sample_tasks"] by metis
  have "snd (flush_dirty_meta ref_app io_fine io_fine s') = Some ()"
    by (simp add: flush_dirty_meta_def Let_def flush_items_fine)
  then obtain s'' where fl: "flush_dirty_meta ref_app io_fine io_fine s' = (s'', Some ())" by (metis prod.collapse)
  have "meta_synced (w_app ref_ws) app0"
    using state_okD(2) [OF relay_invD(1) [OF relay0_inv [of True]]] by (simp add: relay0_def)
  moreover have "length (filter is_flusher sample_tasks) \<le> 1" "list_all writes_go_through sample_tasks"
    by (simp_all add: sample_tasks_def is_flusher_def writes_go_through_def io_fine_def)
  ultimately have "rel_option same_auth (stored_at ref_table ref_auth_codec (auth_table s'') alice) (dm_get (auths s') alice)"
    using concurrent_flush_complete [OF ref_relay_backend _ _ _ run, of io_fine io_fine s'' alice] fl by simp
  with run fl show ?thesis by blast
qed


section \<open>Without interleaving\<close>

fun serve_texts ::
    "('t, 'b, 'c) ws_env \<Rightarrow> (frame_in \<times> string) list \<Rightarrow> conn \<Rightarrow> ('t, 'c) app_state
     \<Rightarrow> conn \<times> ('t, 'c) app_state \<times> outputs" where
  "serve_texts W [] c s = (c, s, [])"
| "serve_texts W ((i, msg) # texts) c s =
     (case handle_text W i msg c s of (c, s, out, stop) \<Rightarrow>
        if stop then (c, s, out)
        else (case serve_texts W texts c s of (c, s, outs) \<Rightarrow> (c, s, out @ outs)))"

definition run_socket ::
    "('t, 'b, 'c) ws_env \<Rightarrow> u64 \<Rightarrow> chan \<Rightarrow> (frame_in \<times> string) list \<Rightarrow> ('t, 'c) app_state
     \<Rightarrow> ('t, 'c) app_state \<times> outputs" where
  "run_socket W now ch texts s =
     (case open_socket now ch s of
        (s, None) \<Rightarrow> (s, [])
      | (s, Some c) \<Rightarrow> (case serve_texts W texts c s of (c, s, outs) \<Rightarrow> (close_socket c s, outs)))"

fun task_effect :: "('t, 'b, 'c) ws_env \<Rightarrow> task \<Rightarrow> ('t, 'c) app_state \<Rightarrow> ('t, 'c) app_state \<times> outputs" where
  "task_effect W (Socket now ch texts) s = run_socket W now ch texts s"
| "task_effect W (Flusher ticks) s = (fold (\<lambda>(io1, io2). meta_flush_tick (w_app W) io1 io2) ticks s, [])"
| "task_effect W (Collection io now) s = (mailbox_gc_tick (w_app W) io now s, [])"
| "task_effect W (QueueAging io now) s = (queue_sweep_tick (w_app W) io now s, [])"
| "task_effect W (FileAging io now) s = (file_sweep_tick (w_app W) io now s, [])"

lemma serve_alone:
  "alone (serve_prog W texts c) s = (case serve_texts W texts c s of (c, s, outs) \<Rightarrow> (s, c, outs))"
  by (induction W texts c s rule: serve_texts.induct) (auto simp: text_alone split: prod.split)

lemma task_alone: "alone (task_prog W task) s = task_effect W task s"
  by (cases task)
    (simp_all add: socket_prog_def run_socket_def open_alone serve_alone close_alone flusher_alone gc_alone sweeps_alone
      split: prod.split option.split)

text \<open>
  The tasks refine the handlers. A task whose steps are not interrupted does exactly what the
  handlers of the sequential model do, one call after the other: the step-wise definitions of the
  tasks and the definitions of the sequential model describe the same program.
\<close>

theorem task_runs_its_handlers:
  assumes "t < length tasks"
  shows "\<exists>sched. set sched \<subseteq> {t} \<and> interleave sched (s, map (task_prog W) tasks)
    = (fst (task_effect W (tasks ! t) s), (map (task_prog W) tasks)[t := Return (snd (task_effect W (tasks ! t) s))])"
  using alone_interleaved [of t "map (task_prog W) tasks" s] assms by (simp add: task_alone)

theorem task_runs_its_handlers_witness:
  "\<exists>sched. set sched \<subseteq> {0} \<and> interleave sched (app0, map (task_prog ref_ws) sample_tasks)
    = (fst (task_effect ref_ws (sample_tasks ! 0) app0),
       (map (task_prog ref_ws) sample_tasks)[0 := Return (snd (task_effect ref_ws (sample_tasks ! 0) app0))])"
  by (rule task_runs_its_handlers) (simp add: sample_tasks_def)

end
