(* ===== verification/Replies.thy ===== *)
theory Replies
  imports Tasks RefRelay
begin

text \<open>
  What a client is sent for each frame, whatever the other tasks of the relay do between the steps
  of its handler: the kind of the reply and the identifiers it echoes, as \<open>ServerFrame\<close> in
  \<open>src/protocol.rs\<close> and the arms of the loop in \<open>src/ws.rs\<close> have them.
\<close>


section \<open>The type of a reply\<close>

fun is_error :: "server_frame \<Rightarrow> bool" where
  "is_error (Error code msg) \<longleftrightarrow> True"
| "is_error r \<longleftrightarrow> False"

definition replies_to :: "client_frame \<Rightarrow> server_frame \<Rightarrow> bool" where
  "replies_to f r \<longleftrightarrow>
     (case f of
        Hello rid at dt pmin pmax pver pow co \<Rightarrow> is_error r
      | SetDeliveryTokens req toks \<Rightarrow> is_error r \<or> (\<exists>n. r = DeliveryTokensSet req n)
      | IssueSenderCertificate req u d k \<Rightarrow> is_error r \<or> (\<exists>cert root t. r = SenderCertificate req cert root t)
      | SendEnvelope cref to tok ety ct \<Rightarrow>
          (\<exists>u queued. r = SendOk u queued cref) \<or> (\<exists>code msg. r = SendError cref code msg)
      | UploadBundle req bid ct ex pow \<Rightarrow> is_error r \<or> (\<exists>t. r = BundleUploaded req bid t)
      | FetchBundle req bid \<Rightarrow> is_error r \<or> (\<exists>bid' ct t. r = Bundle req bid' ct t)
      | UploadFileChunk req tid ci tc tb ct pow \<Rightarrow>
          (\<exists>n m. r = FileChunkStored req tid ci n m) \<or> (\<exists>code msg. r = FileError req tid code msg)
      | FetchFileChunk req tid ci \<Rightarrow>
          (\<exists>n m d. r = FileChunk req tid ci n m d) \<or> (\<exists>code msg. r = FileError req tid code msg)
      | DeleteTransfer req tid \<Rightarrow> r = TransferDeleted req tid \<or> (\<exists>code msg. r = FileError req tid code msg)
      | Ack ids \<Rightarrow> is_error r \<or> (\<exists>n. r = AckOk n)
      | RetireMailbox \<Rightarrow> is_error r \<or> r = AckOk 0
      | Ping \<Rightarrow> (\<exists>t. r = Pong t))"

text \<open>What a \<open>Hello\<close> for a mailbox is answered with: an error, or its acceptance and the backlog.\<close>

definition hello_answered :: "string \<Rightarrow> chan \<Rightarrow> outputs \<Rightarrow> bool" where
  "hello_answered rid ch out \<longleftrightarrow>
     (\<exists>e. out = [(ch, e)] \<and> is_error e) \<or>
     (\<exists>sel t root n envs end. out = (ch, HelloOk sel PROTOCOL_MIN_SUPPORTED PROTOCOL_VERSION t root n)
          # map (\<lambda>env. (ch, Envelope env)) envs @ end
        \<and> PROTOCOL_MIN_SUPPORTED \<le> sel \<and> sel \<le> PROTOCOL_VERSION
        \<and> (\<forall>env \<in> set envs. env_to env = rid) \<and> (end = [] \<or> end = [(ch, Synced (of_nat (length envs)))]))"

fun well_answered :: "client_frame \<Rightarrow> chan \<Rightarrow> outputs \<Rightarrow> bool" where
  "well_answered (Hello rid at dt pmin pmax pver pow co) ch out \<longleftrightarrow> hello_answered rid ch out"
| "well_answered (SendEnvelope cref to tok ety ct) ch out \<longleftrightarrow>
     (\<exists>live r. out = live @ [(ch, r)] \<and> replies_to (SendEnvelope cref to tok ety ct) r
        \<and> (live = [] \<or> (\<exists>dest u. live = [(dest, Envelope \<lparr>env_id = u, env_to = to, envelope_type = ety,
             ciphertext = ct\<rparr>)])))"
| "well_answered f ch out \<longleftrightarrow> (\<exists>r. out = [(ch, r)] \<and> replies_to f r)"

text \<open>The connection: its channel stays, its mailbox changes only by a \<open>Hello\<close>, and only a retirement ends it.\<close>

definition frame_typed :: "client_frame \<Rightarrow> conn \<Rightarrow> conn \<times> outputs \<times> bool \<Rightarrow> bool" where
  "frame_typed f c = (\<lambda>(c', out, stop). well_answered f (tx c) out \<and> tx c' = tx c
     \<and> (recipient c' = recipient c \<or> (\<exists>rid at dt pmin pmax pver pow co.
          f = Hello rid at dt pmin pmax pver pow co \<and> recipient c' = Some rid))
     \<and> (stop \<longrightarrow> f = RetireMailbox))"


section \<open>Every handler\<close>

lemma typed_error [simp]: "is_error (err code msg)" "\<not> is_error (send_err cref code msg)"
  by (simp_all add: err_def send_err_def)

lemma reply_errors [simp]:
  "replies_to (SetDeliveryTokens req toks) (err code msg)"
  "replies_to (IssueSenderCertificate req u d k) (err code msg)"
  "replies_to (UploadBundle req bid ct ex pow) (err code msg)"
  "replies_to (FetchBundle req bid) (err code msg)"
  "replies_to (Ack ids) (err code msg)" "replies_to RetireMailbox (err code msg)"
  "replies_to (SendEnvelope cref to tok ety ct) (send_err cref code msg)"
  "replies_to (UploadFileChunk req tid ci tc tb ct pow) (file_err req tid code msg)"
  "replies_to (FetchFileChunk req tid ci) (file_err req tid code msg)"
  "replies_to (DeleteTransfer req tid) (file_err req tid code msg)"
  by (simp_all add: replies_to_def err_def send_err_def file_err_def)

lemma flush_env_to: "flush E io m q = Some envs \<Longrightarrow> env \<in> set envs \<Longrightarrow> env_to env = m"
  by (auto simp: flush_def split: if_splits)

lemma hello_entry_reply: "snd (hello_entry W i rid ah dh pow s) = Some r \<Longrightarrow> is_error r"
  by (auto simp: hello_entry_def reserve_mailbox_slot_def Let_def split: option.splits if_splits prod.splits)

lemma backlog_form: "\<exists>envs end. hello_flush W i ch rid sel s = map (\<lambda>env. (ch, Envelope env)) envs @ end
    \<and> (\<forall>env \<in> set envs. env_to env = rid) \<and> (end = [] \<or> end = [(ch, Synced (of_nat (length envs)))])"
proof -
  let ?envs = "case flush (a_queue (w_app W)) (i_qio i) rid (queues s) of Some envs \<Rightarrow> take (i_alive i) envs | None \<Rightarrow> []"
  have "\<forall>env \<in> set ?envs. env_to env = rid"
    by (auto split: option.split dest: in_set_takeD flush_env_to [OF sym])
  then show ?thesis
    by (intro exI [of _ ?envs] exI [of _ "if sel \<ge> 6 then [(ch, Synced (of_nat (length ?envs)))] else []"])
      (simp add: hello_flush_def Let_def)
qed

definition hello_typed :: "string \<Rightarrow> conn \<Rightarrow> conn \<times> outputs \<Rightarrow> bool" where
  "hello_typed rid c = (\<lambda>(c', out). hello_answered rid (tx c) out \<and> tx c' = tx c
     \<and> (recipient c' = recipient c \<or> recipient c' = Some rid))"

lemma hello_typed_error: "is_error e \<Longrightarrow> hello_typed rid c (c, [(tx c, e)])"
  by (simp add: hello_typed_def hello_answered_def)

lemma hello_typed_ok:
  assumes "\<not> min PROTOCOL_VERSION v < PROTOCOL_MIN_SUPPORTED"
    "backlog = [] \<or> (\<exists>s. backlog = hello_flush W i (tx c) rid (min PROTOCOL_VERSION v) s)"
  shows "hello_typed rid c (c\<lparr>recipient := Some rid\<rparr>,
    (tx c, HelloOk (min PROTOCOL_VERSION v) PROTOCOL_MIN_SUPPORTED PROTOCOL_VERSION t root n) # backlog)"
proof -
  have "\<exists>envs end. backlog = map (\<lambda>env. (tx c, Envelope env)) envs @ end
      \<and> (\<forall>env \<in> set envs. env_to env = rid) \<and> (end = [] \<or> end = [(tx c, Synced (of_nat (length envs)))])"
    using assms(2) backlog_form [of W i "tx c" rid "min PROTOCOL_VERSION v"] by (auto intro: exI [of _ "[]"])
  moreover have "PROTOCOL_MIN_SUPPORTED \<le> min PROTOCOL_VERSION v" "min PROTOCOL_VERSION v \<le> PROTOCOL_VERSION"
    using assms(1) by (simp_all only: not_less min.cobounded1)
  ultimately show ?thesis unfolding hello_typed_def hello_answered_def by simp
qed

lemma hello_replies: "answers (hello_typed rid c) (hello_prog W i rid at dt pmin pmax pver pow co c)"
  unfolding hello_prog_def Let_def
  by (intro answer_rules; auto intro: hello_typed_error hello_typed_ok hello_entry_reply)

text \<open>The other handlers answer with one frame.\<close>

definition one_reply :: "client_frame \<Rightarrow> chan \<Rightarrow> outputs \<Rightarrow> bool" where
  "one_reply f ch out \<longleftrightarrow> (\<exists>r. out = [(ch, r)] \<and> replies_to f r)"

lemma one_reply_single [simp]: "one_reply f ch [(ch, r)] \<longleftrightarrow> replies_to f r"
  by (simp add: one_reply_def)

lemma set_tokens_replies:
  "answers (one_reply (SetDeliveryTokens req toks) (tx c)) (set_delivery_tokens_prog W req toks c)"
  unfolding set_delivery_tokens_prog_def by (intro answer_rules) (simp_all, simp_all add: replies_to_def)

lemma certificate_replies:
  "one_reply (IssueSenderCertificate req u d k) (tx c) (handle_issue_certificate W i req u d k c s)"
proof -
  have "\<exists>cert root t. r = SenderCertificate req cert root t" if "issue_sender_certificate W i req u d k s = Inr r" for r
    using that by (auto simp: issue_sender_certificate_def Let_def split: if_splits option.splits sum.splits)
  then show ?thesis
    by (auto simp: handle_issue_certificate_def split: option.split sum.split) (auto simp: replies_to_def)
qed

lemma ack_replies: "answers (one_reply (Ack ids) (tx c)) (ack_frame_prog W i ids c)"
  unfolding ack_frame_prog_def by (intro answer_rules answers_bind) (simp_all, simp_all add: replies_to_def)

lemma retire_replies:
  "answers (\<lambda>(out, stop). one_reply RetireMailbox (tx c) out) (retire_prog W i c)"
  unfolding retire_prog_def by (intro answer_rules answers_bind) (simp_all, simp_all add: replies_to_def)

lemma prune_then: "answers P (k ()) \<Longrightarrow> answers P (bind (prune_prog now) k)"
  by (rule answers_bind) simp

lemma existing_reply:
  "existing_bundle i req bid ct s = Some r \<Longrightarrow> replies_to (UploadBundle req bid ct ex pow) r"
  by (auto simp: existing_bundle_def replies_to_def split: option.splits if_splits)

lemma upload_bundle_replies:
  "answers (one_reply (UploadBundle req bid ct ex pow) (tx c)) (upload_bundle_prog W i req bid ct ex pow c)"
  unfolding upload_bundle_prog_def Let_def
  by (intro answer_rules prune_then answers_bind)
    (simp_all, auto simp: existing_reply, simp_all add: replies_to_def)

lemma fetch_bundle_replies:
  "answers (one_reply (FetchBundle req bid) (tx c)) (fetch_bundle_prog i req bid c)"
  unfolding fetch_bundle_prog_def
  by (intro answer_rules prune_then) (auto simp: replies_to_def split: option.split)

lemma file_replies:
  "answers (one_reply (UploadFileChunk req tid ci tc tb ct pow) (tx c)) (upload_chunk_prog W i req tid ci tc tb ct pow c)"
  "answers (one_reply (FetchFileChunk req tid ci) (tx c)) (fetch_file_prog W i req tid ci c)"
  "answers (one_reply (DeleteTransfer req tid) (tx c)) (delete_transfer_prog W i req tid c)"
  unfolding file_prog_defs
  by (auto simp: replies_to_def file_err_def intro!: answer_rules answers_bind split: option.split sum.split)

lemma answers_bind_pair:
  "answers (\<lambda>(x, y). Q x y) p \<Longrightarrow> (\<And>x y. Q x y \<Longrightarrow> answers P (k x y)) \<Longrightarrow> answers P (bind p (\<lambda>(x, y). k x y))"
  by (erule answers_bind_with) auto

text \<open>A send may also put its envelope on the route of its destination, and on nothing else.\<close>

lemma send_replies:
  "answers (well_answered (SendEnvelope cref to tok ety ct) (tx c)) (send_prog W i cref to tok ety ct c)"
proof -
  have deliver: "answers (\<lambda>(d, live). live = [] \<or> (\<exists>dest. live = [(dest, Envelope env)])) (deliver_prog i to env)" for env
    unfolding deliver_prog_def by (intro answer_rules) auto
  have r: "replies_to (SendEnvelope cref to tok ety ct) (SendOk u q cref)" for u q by (simp add: replies_to_def)
  show ?thesis
    unfolding send_prog_def Let_def
    by (intro answer_rules answers_bind_pair [OF deliver]) (auto simp: r intro!: answers_bind answer_rules)
qed

lemma frame_replies: "answers (frame_typed f c) (frame_prog W i f c)"
proof -
  have one: "answers (frame_typed g c) (goes_on c p)"
    if "answers (one_reply g (tx c)) p" "\<And>out. one_reply g (tx c) out \<Longrightarrow> well_answered g (tx c) out"
    for g and p :: "(('a, 'b) app_state, outputs) prog"
    unfolding goes_on_def by (rule answers_bind_with [OF that(1)]) (simp add: frame_typed_def that(2))
  show ?thesis
  proof (cases f)
    case (Hello rid at dt pmin pmax pver pow co)
    show ?thesis unfolding Hello frame_prog.simps
      by (rule answers_bind_with [OF hello_replies]) (auto simp: hello_typed_def frame_typed_def)
  next
    case (SendEnvelope cref to tok ety ct)
    show ?thesis unfolding SendEnvelope frame_prog.simps goes_on_def
      by (rule answers_bind_with [OF send_replies]) (simp add: frame_typed_def)
  next
    case RetireMailbox
    show ?thesis unfolding RetireMailbox frame_prog.simps
      by (rule answers_bind_with [OF retire_replies]) (auto simp: frame_typed_def one_reply_def)
  next
    case Ping
    then show ?thesis by (simp add: frame_typed_def replies_to_def)
  qed (auto intro!: one answers_atomic set_tokens_replies ack_replies upload_bundle_replies fetch_bundle_replies
      file_replies simp: certificate_replies one_reply_def [symmetric])
qed


section \<open>In every interleaving\<close>

text \<open>
  C10: the wire protocol is typed. Whatever the other tasks of the relay do between the steps of a
  frame's handler, a handler that has ended has sent its own socket exactly one reply, of a kind that
  belongs to the frame and with the request id, transfer id, chunk index or client reference of the
  frame in it (for a \<open>Hello\<close> that is accepted also the backlog, envelopes of that mailbox and
  their number), and nothing to any other socket, except the envelope of a \<open>SendEnvelope\<close> on one
  route. Only a \<open>Hello\<close> binds the socket to a mailbox, the one it names, and only \<open>RetireMailbox\<close> ends it.
\<close>

theorem replies_are_typed:
  fixes ps :: "(('t, 'c) app_state, conn \<times> outputs \<times> bool) prog list"
  assumes "t < length ps" "ps ! t = frame_prog W i f c" "interleave sched (s, ps) = (s', ps')"
    "ps' ! t = Return (c', out, stop)"
  shows "well_answered f (tx c) out \<and> tx c' = tx c
    \<and> (recipient c' = recipient c \<or> (\<exists>rid at dt pmin pmax pver pow co.
         f = Hello rid at dt pmin pmax pver pow co \<and> recipient c' = Some rid))
    \<and> (stop \<longrightarrow> f = RetireMailbox)"
proof -
  let ?Ps = "map (\<lambda>j. if j = t then frame_typed f c else (\<lambda>_. True)) [0..<length ps]"
  have "list_all2 answers ?Ps ps"
    using assms(1,2) frame_replies [of f c W i] by (auto simp: list_all2_conv_all_nth answers_True)
  from answers_interleave [OF this assms(3)] have "answers (?Ps ! t) (ps' ! t)"
    using assms(1) by (auto dest: list_all2_nthD)
  then show ?thesis using assms(1,4) by (simp add: frame_typed_def)
qed

theorem replies_are_typed_witness:
  "\<exists>sched s' ps' c' out stop. interleave sched (app2, [frame_prog ref_ws in1 (FetchBundle ''r'' bundle1) conn2,
       frame_prog ref_ws in1 RetireMailbox conn2]) = (s', ps')
     \<and> ps' ! 0 = Return (c', out, stop) \<and> well_answered (FetchBundle ''r'' bundle1) 1 out"
proof -
  let ?ps = "[frame_prog ref_ws in1 (FetchBundle ''r'' bundle1) conn2, frame_prog ref_ws in1 RetireMailbox conn2]"
  obtain sched s' c' out stop where run: "interleave sched (app2, ?ps) = (s', ?ps[0 := Return (c', out, stop)])"
    using alone_interleaved [of 0 ?ps app2] by (metis length_greater_0_conv list.distinct(1) prod_cases3)
  have "well_answered (FetchBundle ''r'' bundle1) (tx conn2) out"
    using replies_are_typed [OF _ _ run, of 0 ref_ws in1 "FetchBundle ''r'' bundle1" conn2 c' out stop] by simp
  with run show ?thesis by (fastforce simp: conn2_def)
qed

end
