(* ===== verification/Socket.thy ===== *)
theory Socket
  imports RefRelay
begin

text \<open>
  The two halves of a socket of \<open>src/ws.rs\<close>. The reading half: \<open>handle_socket\<close> over what arrives on the
  socket, from its slot to its end. The writing half: the bounded channel of outgoing frames, the
  writer task that drains it, the sends that give up when it is full and the awaited sends of a
  backlog. The channel is tokio's \<open>mpsc\<close> and the JSON writer is serde's: both are parameters, the channel
  with the laws of a bounded queue.
\<close>


section \<open>The reading half\<close>

text \<open>
  What \<open>receiver.next()\<close> gives within the idle timeout: a text message, with what its processing
  meets outside, another message, an error, or the timeout. The end of the list is the end of the stream.
\<close>

datatype incoming = TextMsg frame_in string | OtherMsg | RecvError | IdleTimeout

fun read_loop ::
    "('t, 'b, 'c) ws_env \<Rightarrow> incoming list \<Rightarrow> conn \<Rightarrow> ('t, 'c) app_state \<Rightarrow> conn \<times> ('t, 'c) app_state \<times> outputs"
where
  "read_loop W [] c s = (c, s, [])"
| "read_loop W (IdleTimeout # ins) c s = (c, s, [])"
| "read_loop W (RecvError # ins) c s = (c, s, [])"
| "read_loop W (OtherMsg # ins) c s = read_loop W ins c s"
| "read_loop W (TextMsg i msg # ins) c s =
     (case handle_text W i msg c s of (c, s, out, stop) \<Rightarrow>
        if stop then (c, s, out)
        else (case read_loop W ins c s of (c, s, outs) \<Rightarrow> (c, s, out @ outs)))"

definition handle_socket ::
    "('t, 'b, 'c) ws_env \<Rightarrow> u64 \<Rightarrow> chan \<Rightarrow> incoming list \<Rightarrow> ('t, 'c) app_state \<Rightarrow> ('t, 'c) app_state \<times> outputs" where
  "handle_socket W now ch ins s =
     (case open_socket now ch s of
        (s, None) \<Rightarrow> (s, [])
      | (s, Some c) \<Rightarrow> (case read_loop W ins c s of (c, s, outs) \<Rightarrow> (close_socket c s, outs)))"

text \<open>The conditions on the inputs of the frames, along the loop.\<close>

fun reads_ok :: "('t, 'b, 'c) ws_env \<Rightarrow> incoming list \<Rightarrow> conn \<Rightarrow> ('t, 'c) app_state \<Rightarrow> bool" where
  "reads_ok W [] c s \<longleftrightarrow> True"
| "reads_ok W (TextMsg i msg # ins) c s \<longleftrightarrow> input_ok W i s \<and>
     (case handle_text W i msg c s of (c, s, out, stop) \<Rightarrow> stop \<or> reads_ok W ins c s)"
| "reads_ok W (OtherMsg # ins) c s \<longleftrightarrow> reads_ok W ins c s"
| "reads_ok W (_ # ins) c s \<longleftrightarrow> True"

definition socket_reads_ok ::
    "('t, 'b, 'c) ws_env \<Rightarrow> u64 \<Rightarrow> chan \<Rightarrow> incoming list \<Rightarrow> ('t, 'c) app_state \<Rightarrow> bool" where
  "socket_reads_ok W now ch ins s \<longleftrightarrow>
     (case open_socket now ch s of (s, None) \<Rightarrow> True | (s, Some c) \<Rightarrow> reads_ok W ins c s)"

text \<open>The events of the relay that a socket is: it opens, reads texts, and ends.\<close>

fun read_events :: "('t, 'b, 'c) ws_env \<Rightarrow> chan \<Rightarrow> incoming list \<Rightarrow> conn \<Rightarrow> ('t, 'c) app_state \<Rightarrow> event list" where
  "read_events W ch (TextMsg i msg # ins) c s = Text ch i msg #
     (case handle_text W i msg c s of (c, s, out, stop) \<Rightarrow> if stop then [] else read_events W ch ins c s)"
| "read_events W ch (OtherMsg # ins) c s = read_events W ch ins c s"
| "read_events W ch _ c s = [Disconnect ch]"

definition socket_events ::
    "('t, 'b, 'c) ws_env \<Rightarrow> u64 \<Rightarrow> chan \<Rightarrow> incoming list \<Rightarrow> ('t, 'c) app_state \<Rightarrow> event list" where
  "socket_events W now ch ins s = Connect ch now #
     (case open_socket now ch s of (s, None) \<Rightarrow> [] | (s, Some c) \<Rightarrow> read_events W ch ins c s)"

lemma dm_remove_new: "dm_get m k = None \<Longrightarrow> dm_remove k (dm_insert k a m) = m"
  by (induction m) (auto split: if_splits)

lemma disconnect_run:
  "dm_get cs ch = None \<Longrightarrow> relay_run W \<lparr>app = s, conns = dm_insert ch c cs\<rparr> [Disconnect ch] []
    \<lparr>app = close_socket c s, conns = cs\<rparr>"
  using relay_run.more [OF relay_step.disconnect [of "\<lparr>app = s, conns = dm_insert ch c cs\<rparr>" ch c W] relay_run.none]
  by (simp add: dm_remove_new)

lemma read_loop_run:
  assumes "dm_get cs ch = None" "reads_ok W ins c s" "read_loop W ins c s = (c', s', outs)"
  shows "relay_run W \<lparr>app = s, conns = dm_insert ch c cs\<rparr> (read_events W ch ins c s) outs
    \<lparr>app = close_socket c' s', conns = cs\<rparr>"
  using assms(2,3)
proof (induction W ins c s arbitrary: outs rule: read_loop.induct)
  case (5 W i msg ins c s)
  let ?R = "\<lparr>app = s, conns = dm_insert ch c cs\<rparr>"
  obtain c1 s1 out stop where h: "handle_text W i msg c s = (c1, s1, out, stop)" using prod_cases4 by blast
  have i: "input_ok W i s" using 5(2) by simp
  show ?case
  proof (cases stop)
    case True
    with 5(3) h have e: "c' = c1" "s' = s1" "outs = out" by simp_all
    have "relay_step W ?R (Text ch i msg) out \<lparr>app = close_socket c1 s1, conns = dm_remove ch (conns ?R)\<rparr>"
      using h True i by (intro relay_step.retire [where c = c]) simp_all
    from relay_run.more [OF this relay_run.none] show ?thesis using h True e by (simp add: dm_remove_new assms(1))
  next
    case False
    obtain outs' where rest: "read_loop W ins c1 s1 = (c', s', outs')" "outs = out @ outs'"
      using 5(3) h False by (auto split: prod.splits)
    have step: "relay_step W ?R (Text ch i msg) out \<lparr>app = s1, conns = dm_insert ch c1 (conns ?R)\<rparr>"
      using h False i by (intro relay_step.frame [where c = c]) simp_all
    have "relay_run W \<lparr>app = s1, conns = dm_insert ch c1 cs\<rparr> (read_events W ch ins c1 s1) outs'
        \<lparr>app = close_socket c' s', conns = cs\<rparr>"
      using 5(1) [OF h [symmetric] refl refl False _ rest(1)] 5(2) h False by simp
    with step show ?thesis using rest(2) h False by (auto intro: relay_run.more)
  qed
qed (auto simp: disconnect_run assms(1))

text \<open>
  C17: a socket is a run of the relay. All that \<open>handle_socket\<close> does with what arrives on it, to the
  first message that ends the loop (a read error, the idle timeout, the end of the stream or a
  retirement), is the run of the relay in which it opens, has its texts handled in their order
  and ends; messages that are no text are passed over. So what holds of runs holds of it. Afterwards no
  socket is left behind, and the slot it took is free.
\<close>

theorem handle_socket_runs:
  fixes R :: "('t, 'c) relay"
  assumes "relay_backend W" "relay_inv W sy R" "dm_get (conns R) ch = None" "socket_reads_ok W now ch ins (app R)"
    "handle_socket W now ch ins (app R) = (s', outs)"
  shows "relay_run W R (socket_events W now ch ins (app R)) outs \<lparr>app = s', conns = conns R\<rparr>
    \<and> conn_count s' = conn_count (app R)"
proof -
  have run: "relay_run W R (socket_events W now ch ins (app R)) outs \<lparr>app = s', conns = conns R\<rparr>"
  proof (cases "snd (open_socket now ch (app R))")
    case None
    then obtain s where o: "open_socket now ch (app R) = (s, None)" by (metis prod.collapse)
    with assms(5) have "s' = s" "outs = []" by (simp_all add: handle_socket_def)
    with relay_run.more [OF relay_step.refuse [OF o] relay_run.none] o show ?thesis by (simp add: socket_events_def)
  next
    case (Some c)
    then obtain s where o: "open_socket now ch (app R) = (s, Some c)" by (metis prod.collapse)
    obtain c2 s2 where l: "read_loop W ins c s = (c2, s2, outs)" "s' = close_socket c2 s2"
      using assms(5) o by (auto simp: handle_socket_def split: prod.splits)
    have ok: "reads_ok W ins c s" using assms(4) o by (simp add: socket_reads_ok_def)
    from relay_run.more [OF relay_step.accept [OF assms(3) o] read_loop_run [OF assms(3) ok l(1)]] o l(2)
    show ?thesis by (simp add: socket_events_def)
  qed
  have "list_all (event_fine sy) (read_events W ch ins c s)" for c s
    by (induction W ch ins c s rule: read_events.induct) (auto split: prod.split)
  then have "list_all (event_fine sy) (socket_events W now ch ins (app R))"
    by (simp add: socket_events_def split: prod.split option.split)
  with relay_backend.run_inv [OF assms(1) run assms(2)] have "relay_inv W sy \<lparr>app = s', conns = conns R\<rparr>" by blast
  from relay_invD(3) [OF this] relay_invD(3) [OF assms(2)] run show ?thesis by simp
qed

theorem handle_socket_runs_witness:
  "relay_run ref_ws relay0 (socket_events ref_ws 86400000 1 [TextMsg in1 ''hello'', OtherMsg, IdleTimeout] app0)
     [(1, HelloOk 7 4 7 86400000 ''root'' 100), (1, Synced 0)] \<lparr>app = close_socket conn2 app2, conns = []\<rparr>"
proof -
  let ?ins = "[TextMsg in1 ''hello'', OtherMsg, IdleTimeout]"
  have o: "open_socket 86400000 1 app0 = (app1, Some conn0)"
    by (simp add: open_socket_def eval_defs)
  have h: "handle_socket ref_ws 86400000 1 ?ins (app relay0)
      = (close_socket conn2 app2, [(1, HelloOk 7 4 7 86400000 ''root'' 100), (1, Synced 0)])"
    by (simp add: handle_socket_def relay0_def o hello_reply del: One_nat_def)
  have "input_ok ref_ws in1 app1" by (simp add: input_ok_def app1_def app0_def)
  then have "socket_reads_ok ref_ws 86400000 1 ?ins (app relay0)"
    by (simp add: socket_reads_ok_def relay0_def o hello_reply del: One_nat_def)
  from handle_socket_runs [OF ref_relay_backend relay0_inv [of True] _ this h] show ?thesis by (simp add: relay0_def)
qed

end
