(* ===== verification/Outbox.thy ===== *)
theory Outbox
  imports RelayTheorems
begin

text \<open>
  The writing half of a socket of \<open>src/ws.rs\<close>: the bounded channel of outgoing frames, the writer task
  that drains it, the sends that give up when it is full (\<open>try_send\<close>) and the awaited sends of
  the backlog of a \<open>Hello\<close>. The channel is tokio's \<open>mpsc\<close>, a parameter with the laws of a bounded queue
  (the locale \<open>bounded_channel\<close>, interpreted below on lists); the JSON text of a frame is serde's.
\<close>


section \<open>The channel\<close>

record 'q channel_ops =
  q_new :: "nat \<Rightarrow> 'q"
  q_try_send :: "server_frame \<Rightarrow> 'q \<Rightarrow> 'q \<times> bool"
  q_recv :: "'q \<Rightarrow> 'q \<times> server_frame option"
  q_close :: "'q \<Rightarrow> 'q"
  q_pending :: "'q \<Rightarrow> server_frame list"
  q_closed :: "'q \<Rightarrow> bool"
  q_capacity :: "'q \<Rightarrow> nat"

locale bounded_channel =
  fixes Q :: "'q channel_ops"
  assumes new: "q_pending Q (q_new Q n) = []" "\<not> q_closed Q (q_new Q n)" "q_capacity Q (q_new Q n) = n"
    and try_send_full: "q_closed Q q \<or> length (q_pending Q q) \<ge> q_capacity Q q \<Longrightarrow> q_try_send Q f q = (q, False)"
    and try_send_room: "\<not> q_closed Q q \<Longrightarrow> length (q_pending Q q) < q_capacity Q q \<Longrightarrow>
      snd (q_try_send Q f q) \<and> q_pending Q (fst (q_try_send Q f q)) = q_pending Q q @ [f]
      \<and> \<not> q_closed Q (fst (q_try_send Q f q)) \<and> q_capacity Q (fst (q_try_send Q f q)) = q_capacity Q q"
    and recv_empty: "q_pending Q q = [] \<Longrightarrow> q_recv Q q = (q, None)"
    and recv_first: "q_pending Q q = f # fs \<Longrightarrow>
      snd (q_recv Q q) = Some f \<and> q_pending Q (fst (q_recv Q q)) = fs
      \<and> q_closed Q (fst (q_recv Q q)) = q_closed Q q \<and> q_capacity Q (fst (q_recv Q q)) = q_capacity Q q"
    and close: "q_pending Q (q_close Q q) = []" "q_closed Q (q_close Q q)" "q_capacity Q (q_close Q q) = q_capacity Q q"


section \<open>The writer\<close>

text \<open>How a write on the socket ends: within the timeout, with an error, or not in time.\<close>

datatype write_result = Written | WriteError | WriteTimeout

record 'q outbox =
  channel :: 'q
  wire :: "string list"
  writing :: bool

definition open_outbox :: "'q channel_ops \<Rightarrow> 'q outbox" where
  "open_outbox Q = \<lparr>channel = q_new Q OUTBOUND_QUEUE_CAPACITY, wire = [], writing = True\<rparr>"

text \<open>
  One turn of the writer: it takes the next frame, if there is one, and writes its text; a frame that
  cannot be serialized is logged and passed over; a write that fails or takes too long ends the
  task, which drops the receiving end.
\<close>

definition writer_turn ::
    "'q channel_ops \<Rightarrow> (server_frame \<Rightarrow> string option) \<Rightarrow> write_result \<Rightarrow> 'q outbox \<Rightarrow> 'q outbox" where
  "writer_turn Q ser r bx =
     (if \<not> writing bx then bx
      else
        (case q_recv Q (channel bx) of
           (q, None) \<Rightarrow> bx\<lparr>channel := q\<rparr>
         | (q, Some frame) \<Rightarrow>
             (case ser frame of
                Some msg \<Rightarrow>
                  (case r of
                     Written \<Rightarrow> bx\<lparr>channel := q, wire := wire bx @ [msg]\<rparr>
                   | _ \<Rightarrow> bx\<lparr>channel := q_close Q q, writing := False\<rparr>)
              | None \<Rightarrow> bx\<lparr>channel := q\<rparr>)))"

text \<open>\<open>writer.abort()\<close>, at the end of the socket.\<close>

definition abort_writer :: "'q channel_ops \<Rightarrow> 'q outbox \<Rightarrow> 'q outbox" where
  "abort_writer Q bx = bx\<lparr>channel := q_close Q (channel bx), writing := False\<rparr>"


section \<open>Sends\<close>

definition try_push :: "'q channel_ops \<Rightarrow> server_frame \<Rightarrow> 'q outbox \<Rightarrow> 'q outbox \<times> bool" where
  "try_push Q f bx = (case q_try_send Q f (channel bx) of (q, sent) \<Rightarrow> (bx\<lparr>channel := q\<rparr>, sent))"

text \<open>
  \<open>tx.send(f).await\<close>: sent when there is room, an error when the writer is gone, and otherwise it waits while
  the writer takes its turns. \<open>turns\<close> are the results of the turns that are taken; \<open>None\<close> is a
  send that still waits after them.
\<close>

fun await_push ::
    "'q channel_ops \<Rightarrow> (server_frame \<Rightarrow> string option) \<Rightarrow> server_frame \<Rightarrow> write_result list \<Rightarrow> 'q outbox
     \<Rightarrow> ('q outbox \<times> write_result list \<times> bool) option" where
  "await_push Q ser f [] bx =
     (if q_closed Q (channel bx) then Some (bx, [], False)
      else case try_push Q f bx of (bx', True) \<Rightarrow> Some (bx', [], True) | (bx', False) \<Rightarrow> None)"
| "await_push Q ser f (r # turns) bx =
     (if q_closed Q (channel bx) then Some (bx, r # turns, False)
      else case try_push Q f bx of
             (bx', True) \<Rightarrow> Some (bx', r # turns, True)
           | (bx', False) \<Rightarrow> await_push Q ser f turns (writer_turn Q ser r bx'))"

text \<open>The backlog, up to the first send that fails, and the number that was sent.\<close>

fun push_backlog ::
    "'q channel_ops \<Rightarrow> (server_frame \<Rightarrow> string option) \<Rightarrow> stored_envelope list \<Rightarrow> write_result list \<Rightarrow> 'q outbox
     \<Rightarrow> ('q outbox \<times> write_result list \<times> nat) option" where
  "push_backlog Q ser [] turns bx = Some (bx, turns, 0)"
| "push_backlog Q ser (env # envs) turns bx =
     (case await_push Q ser (Envelope env) turns bx of
        None \<Rightarrow> None
      | Some (bx, turns, False) \<Rightarrow> Some (bx, turns, 0)
      | Some (bx, turns, True) \<Rightarrow>
          (case push_backlog Q ser envs turns bx of
             None \<Rightarrow> None | Some (bx, turns, n) \<Rightarrow> Some (bx, turns, Suc n)))"

definition push_hello ::
    "'q channel_ops \<Rightarrow> (server_frame \<Rightarrow> string option) \<Rightarrow> server_frame \<Rightarrow> stored_envelope list \<Rightarrow> u16
     \<Rightarrow> write_result list \<Rightarrow> 'q outbox \<Rightarrow> ('q outbox \<times> write_result list \<times> nat) option" where
  "push_hello Q ser ok envs selected turns bx =
     (case push_backlog Q ser envs turns (fst (try_push Q ok bx)) of
        None \<Rightarrow> None
      | Some (bx, turns, n) \<Rightarrow>
          if selected \<ge> 6
          then (case await_push Q ser (Synced (of_nat n)) turns bx of
                  None \<Rightarrow> None | Some (bx, turns, sent) \<Rightarrow> Some (bx, turns, n))
          else Some (bx, turns, n))"


section \<open>What is written\<close>

text \<open>The texts of frames, and all that has been accepted: on the wire, or still in the channel.\<close>

definition texts :: "(server_frame \<Rightarrow> string option) \<Rightarrow> server_frame list \<Rightarrow> string list" where
  "texts ser fs = List.map_filter ser fs"

lemma texts_simps [simp]:
  "texts ser [] = []" "texts ser (f # fs) = (case ser f of Some m \<Rightarrow> m # texts ser fs | None \<Rightarrow> texts ser fs)"
  "texts ser (fs @ gs) = texts ser fs @ texts ser gs"
  by (auto simp: texts_def List.map_filter_def split: option.split)

definition outbox_inv ::
    "'q channel_ops \<Rightarrow> (server_frame \<Rightarrow> string option) \<Rightarrow> server_frame list \<Rightarrow> 'q outbox \<Rightarrow> bool" where
  "outbox_inv Q ser accepted bx \<longleftrightarrow>
     length (q_pending Q (channel bx)) \<le> q_capacity Q (channel bx) \<and> q_capacity Q (channel bx) = OUTBOUND_QUEUE_CAPACITY
     \<and> q_closed Q (channel bx) = (\<not> writing bx)
     \<and> (if writing bx then texts ser accepted = wire bx @ texts ser (q_pending Q (channel bx))
        else q_pending Q (channel bx) = [] \<and> (\<exists>lost. texts ser accepted = wire bx @ lost))"

datatype box_event = TryPush server_frame | Turn write_result | Abort

fun box_step ::
    "'q channel_ops \<Rightarrow> (server_frame \<Rightarrow> string option) \<Rightarrow> box_event \<Rightarrow> 'q outbox \<times> server_frame list
     \<Rightarrow> 'q outbox \<times> server_frame list" where
  "box_step Q ser (TryPush f) (bx, accepted) =
     (case try_push Q f bx of (bx, sent) \<Rightarrow> (bx, if sent then accepted @ [f] else accepted))"
| "box_step Q ser (Turn r) (bx, accepted) = (writer_turn Q ser r bx, accepted)"
| "box_step Q ser Abort (bx, accepted) = (abort_writer Q bx, accepted)"

context bounded_channel
begin

lemma open_inv: "outbox_inv Q ser [] (open_outbox Q)"
  by (simp add: outbox_inv_def open_outbox_def new)

lemma try_push_inv:
  assumes "outbox_inv Q ser acc bx" "try_push Q f bx = (bx', sent)"
  shows "outbox_inv Q ser (if sent then acc @ [f] else acc) bx' \<and> (sent \<longleftrightarrow> writing bx
    \<and> length (q_pending Q (channel bx)) < OUTBOUND_QUEUE_CAPACITY) \<and> writing bx' = writing bx \<and> (\<not> sent \<longrightarrow> bx' = bx)"
proof (cases "q_closed Q (channel bx) \<or> length (q_pending Q (channel bx)) \<ge> q_capacity Q (channel bx)")
  case True
  with assms try_send_full [OF True] show ?thesis by (auto simp: try_push_def outbox_inv_def)
next
  case False
  then have "q_try_send Q f (channel bx) = (channel bx', sent)" "sent" "bx' = bx\<lparr>channel := channel bx'\<rparr>"
    "q_pending Q (channel bx') = q_pending Q (channel bx) @ [f]" "\<not> q_closed Q (channel bx')"
    "q_capacity Q (channel bx') = q_capacity Q (channel bx)"
    using assms(2) try_send_room [of "channel bx" f] by (auto simp: try_push_def split: prod.splits)
  with False assms(1) show ?thesis
    by (cases bx') (auto simp: outbox_inv_def split: option.split)
qed

lemma writer_turn_inv:
  assumes "outbox_inv Q ser acc bx"
  shows "outbox_inv Q ser acc (writer_turn Q ser r bx)"
proof (cases "writing bx")
  case w: True
  show ?thesis
  proof (cases "q_pending Q (channel bx)")
    case Nil
    with assms w show ?thesis by (simp add: writer_turn_def recv_empty)
  next
    case (Cons f fs)
    note R = recv_first [OF Cons]
    show ?thesis using assms w Cons R
      by (cases r) (auto simp: writer_turn_def outbox_inv_def close case_prod_unfold split: option.split)
  qed
qed (use assms in \<open>simp add: writer_turn_def\<close>)

lemma abort_inv: "outbox_inv Q ser acc bx \<Longrightarrow> outbox_inv Q ser acc (abort_writer Q bx)"
  by (auto simp: outbox_inv_def abort_writer_def close split: if_splits)

lemma outbox_run_inv:
  "outbox_inv Q ser (snd c) (fst c) \<Longrightarrow> outbox_inv Q ser (snd (fold (box_step Q ser) ops c)) (fst (fold (box_step Q ser) ops c))"
proof (induction ops arbitrary: c)
  case (Cons op ops)
  obtain bx acc where c: "c = (bx, acc)" by force
  have "outbox_inv Q ser (snd (box_step Q ser op c)) (fst (box_step Q ser op c))"
    using Cons.prems c try_push_inv [of ser acc bx] writer_turn_inv [of ser acc bx] abort_inv [of ser acc bx]
    by (cases op) (auto split: prod.split)
  from Cons.IH [OF this] show ?case by simp
qed simp

text \<open>A turn on a full channel frees a place or ends the writer, so one turn is enough for a send.\<close>

lemma turn_frees:
  assumes "outbox_inv Q ser acc bx" "writing bx" "\<not> length (q_pending Q (channel bx)) < OUTBOUND_QUEUE_CAPACITY"
  shows "writing (writer_turn Q ser r bx) \<longrightarrow>
    length (q_pending Q (channel (writer_turn Q ser r bx))) < OUTBOUND_QUEUE_CAPACITY"
proof -
  have "q_pending Q (channel bx) \<noteq> []" using assms(3) by (auto simp: config_defs)
  then obtain f fs where p: "q_pending Q (channel bx) = f # fs" by (cases "q_pending Q (channel bx)") auto
  have "length fs < OUTBOUND_QUEUE_CAPACITY" using assms(1) p by (simp add: outbox_inv_def)
  with recv_first [OF p] assms(2) show ?thesis
    by (cases r) (auto simp: writer_turn_def case_prod_unfold split: option.split)
qed

lemma written_writes: "writing bx \<Longrightarrow> writing (writer_turn Q ser Written bx)"
  by (auto simp: writer_turn_def split: prod.split option.split)

lemma await_one:
  assumes "outbox_inv Q ser acc bx" "writing bx \<longrightarrow> length (q_pending Q (channel bx)) < OUTBOUND_QUEUE_CAPACITY"
  shows "\<exists>bx' sent. await_push Q ser f turns bx = Some (bx', turns, sent)
    \<and> outbox_inv Q ser (if sent then acc @ [f] else acc) bx' \<and> sent = writing bx \<and> writing bx' = writing bx"
proof -
  obtain bx' sent where p: "try_push Q f bx = (bx', sent)" by force
  have c: "q_closed Q (channel bx) = (\<not> writing bx)" using assms(1) by (simp add: outbox_inv_def)
  show ?thesis
  proof (cases "writing bx")
    case True
    with assms(2) try_push_inv [OF assms(1) p] have s: "sent" "writing bx'" by simp_all
    then have "outbox_inv Q ser (acc @ [f]) bx'" using try_push_inv [OF assms(1) p] by metis
    note s = s(1) this s(2)
    have "await_push Q ser f turns bx = Some (bx', turns, True)" using True c p s(1) by (cases turns) simp_all
    with s True show ?thesis by (intro exI [of _ bx'] exI [of _ True]) simp
  next
    case False
    then have "await_push Q ser f turns bx = Some (bx, turns, False)" using c by (cases turns) simp_all
    with False assms(1) show ?thesis by (intro exI [of _ bx] exI [of _ False]) simp
  qed
qed

lemma await_ends:
  assumes "outbox_inv Q ser acc bx" "turns \<noteq> []"
  shows "\<exists>bx' turns' sent. await_push Q ser f turns bx = Some (bx', turns', sent)
    \<and> (turns' = turns \<or> turns' = tl turns) \<and> outbox_inv Q ser (if sent then acc @ [f] else acc) bx'
    \<and> sent = writing bx' \<and> (writing bx \<and> list_all ((=) Written) turns \<longrightarrow> sent)"
proof (cases "writing bx \<longrightarrow> length (q_pending Q (channel bx)) < OUTBOUND_QUEUE_CAPACITY")
  case True
  from await_one [OF assms(1) this, of f turns] show ?thesis by auto
next
  case False
  obtain r rs where t: "turns = r # rs" using assms(2) by (cases turns) auto
  obtain bx1 sent1 where p: "try_push Q f bx = (bx1, sent1)" by force
  with False try_push_inv [OF assms(1) p] have p: "try_push Q f bx = (bx, False)" by auto
  have c: "\<not> q_closed Q (channel bx)" using assms(1) False by (simp add: outbox_inv_def)
  have inv: "outbox_inv Q ser acc (writer_turn Q ser r bx)" by (rule writer_turn_inv [OF assms(1)])
  from await_one [OF inv, of f rs] turn_frees [OF assms(1), of r] False
  obtain bx' sent where "await_push Q ser f rs (writer_turn Q ser r bx) = Some (bx', rs, sent)"
    "outbox_inv Q ser (if sent then acc @ [f] else acc) bx'" "sent = writing (writer_turn Q ser r bx)"
    "writing bx' = writing (writer_turn Q ser r bx)" by blast
  with t p c False show ?thesis by (auto simp: written_writes)
qed

lemma backlog_ends:
  assumes "outbox_inv Q ser acc bx" "length envs \<le> length turns"
  shows "\<exists>bx' turns' n. push_backlog Q ser envs turns bx = Some (bx', turns', n)
    \<and> n \<le> length envs \<and> length turns \<le> length turns' + length envs \<and> set turns' \<subseteq> set turns
    \<and> outbox_inv Q ser (acc @ map Envelope (take n envs)) bx' \<and> (n < length envs \<longrightarrow> \<not> writing bx')
    \<and> (writing bx \<and> list_all ((=) Written) turns \<longrightarrow> n = length envs \<and> writing bx')"
  using assms
proof (induction envs arbitrary: acc bx turns)
  case (Cons env envs)
  then have "turns \<noteq> []" by auto
  from await_ends [OF Cons.prems(1) this, of "Envelope env"] obtain bx1 turns1 sent where
    a: "await_push Q ser (Envelope env) turns bx = Some (bx1, turns1, sent)" "turns1 = turns \<or> turns1 = tl turns"
      "outbox_inv Q ser (if sent then acc @ [Envelope env] else acc) bx1" "sent = writing bx1"
      "writing bx \<and> list_all ((=) Written) turns \<longrightarrow> sent" by blast
  have sub: "set turns1 \<subseteq> set turns" using a(2) by (cases turns) auto
  have len: "length turns \<le> Suc (length turns1)" using a(2) by auto
  show ?case
  proof (cases sent)
    case True
    have "length envs \<le> length turns1" using Cons.prems(2) a(2) by auto
    from Cons.IH [OF _ this, of "acc @ [Envelope env]" bx1] a(3) True
    obtain bx' turns' n where "push_backlog Q ser envs turns1 bx1 = Some (bx', turns', n)" "n \<le> length envs"
      "length turns1 \<le> length turns' + length envs" "set turns' \<subseteq> set turns1"
      "outbox_inv Q ser (acc @ [Envelope env] @ map Envelope (take n envs)) bx'" "n < length envs \<longrightarrow> \<not> writing bx'"
      "writing bx1 \<and> list_all ((=) Written) turns1 \<longrightarrow> n = length envs \<and> writing bx'" by auto
    with a True sub len show ?thesis by (auto simp: list_all_iff)
  next
    case False
    with a sub len show ?thesis by auto
  qed
qed auto

lemma hello_ends:
  assumes "outbox_inv Q ser acc bx" "length envs < length turns"
  shows "\<exists>bx' turns' n. push_hello Q ser ok envs selected turns bx = Some (bx', turns', n)
    \<and> n \<le> length envs \<and> outbox_inv Q ser (acc @ (if snd (try_push Q ok bx) then [ok] else [])
         @ map Envelope (take n envs) @ (if selected \<ge> 6 \<and> writing bx' then [Synced (of_nat n)] else [])) bx'
    \<and> (n < length envs \<longrightarrow> \<not> writing bx')
    \<and> (writing bx \<and> list_all ((=) Written) turns \<longrightarrow> n = length envs \<and> writing bx')"
proof -
  obtain bx0 sent0 where p: "try_push Q ok bx = (bx0, sent0)" by force
  note P = try_push_inv [OF assms(1) p]
  let ?acc = "acc @ (if sent0 then [ok] else [])"
  have "?acc = (if sent0 then acc @ [ok] else acc)" by simp
  with P have inv0: "outbox_inv Q ser ?acc bx0" by metis
  from backlog_ends [OF inv0, of envs turns] assms(2)
  obtain bx1 turns1 n where b: "push_backlog Q ser envs turns bx0 = Some (bx1, turns1, n)" "n \<le> length envs"
    "length turns \<le> length turns1 + length envs" "set turns1 \<subseteq> set turns"
    "outbox_inv Q ser (?acc @ map Envelope (take n envs)) bx1" "n < length envs \<longrightarrow> \<not> writing bx1"
    "writing bx0 \<and> list_all ((=) Written) turns \<longrightarrow> n = length envs \<and> writing bx1" by auto
  have "turns1 \<noteq> []" using b(3) assms(2) by auto
  from await_ends [OF b(5) this, of "Synced (of_nat n)"] obtain bx2 turns2 sent where
    s: "await_push Q ser (Synced (of_nat n)) turns1 bx1 = Some (bx2, turns2, sent)" "turns2 = turns1 \<or> turns2 = tl turns1"
      "outbox_inv Q ser (if sent then (?acc @ map Envelope (take n envs)) @ [Synced (of_nat n)]
         else ?acc @ map Envelope (take n envs)) bx2"
      "sent = writing bx2" "writing bx1 \<and> list_all ((=) Written) turns1 \<longrightarrow> sent" by blast
  have w: "\<not> writing bx1 \<Longrightarrow> \<not> writing bx2" using s(1) b(5) s(4) by (cases turns1) (auto simp: outbox_inv_def)
  show ?thesis
  proof (cases "selected \<ge> 6")
    case True
    with p P b s w show ?thesis by (auto simp: push_hello_def list_all_iff)
  next
    case False
    with p P b show ?thesis by (auto simp: push_hello_def)
  qed
qed

end


section \<open>A channel on lists\<close>

record list_channel =
  lc_pending :: "server_frame list"
  lc_closed :: bool
  lc_capacity :: nat

definition list_channel_ops :: "list_channel channel_ops" where
  "list_channel_ops =
     \<lparr>q_new = (\<lambda>n. \<lparr>lc_pending = [], lc_closed = False, lc_capacity = n\<rparr>),
      q_try_send = (\<lambda>f q. if lc_closed q \<or> length (lc_pending q) \<ge> lc_capacity q then (q, False)
                          else (q\<lparr>lc_pending := lc_pending q @ [f]\<rparr>, True)),
      q_recv = (\<lambda>q. case lc_pending q of [] \<Rightarrow> (q, None) | f # fs \<Rightarrow> (q\<lparr>lc_pending := fs\<rparr>, Some f)),
      q_close = (\<lambda>q. q\<lparr>lc_pending := [], lc_closed := True\<rparr>),
      q_pending = lc_pending, q_closed = lc_closed, q_capacity = lc_capacity\<rparr>"

interpretation list_channel: bounded_channel list_channel_ops
  by unfold_locales (auto simp: list_channel_ops_def)


section \<open>Properties\<close>

text \<open>
  C19: what a client reads is a prefix of what was accepted for it. Through any sequence of sends, turns of
  the writer (with writes that succeed, fail or time out) and the abort, the channel never holds more
  than 256 frames; while the writer runs, the texts on the wire followed by those of the frames in the
  channel are exactly the texts of the accepted frames, in their order, with none lost, doubled or
  reordered; after it has ended, what was written is a prefix of them, and nothing is accepted any more.
\<close>

theorem outbox_is_fifo:
  assumes "bounded_channel Q" "fold (box_step Q ser) events (open_outbox Q, []) = (bx, accepted)"
  shows "length (q_pending Q (channel bx)) \<le> 256
    \<and> (writing bx \<longrightarrow> texts ser accepted = wire bx @ texts ser (q_pending Q (channel bx)))
    \<and> (\<exists>rest. texts ser accepted = wire bx @ rest)
    \<and> (\<not> writing bx \<longrightarrow> try_push Q f bx = (bx, False))"
proof -
  have inv: "outbox_inv Q ser accepted bx"
    using bounded_channel.outbox_run_inv [OF assms(1), where c = "(open_outbox Q, [])" and ops = events and ser = ser]
      bounded_channel.open_inv [OF assms(1), of ser] assms(2) by simp
  obtain bx' sent where p: "try_push Q f bx = (bx', sent)" by force
  from bounded_channel.try_push_inv [OF assms(1) inv p] inv p show ?thesis
    by (auto simp: outbox_inv_def config_defs split: if_splits)
qed

definition sample_ser :: "server_frame \<Rightarrow> string option" where
  "sample_ser f = (case f of AckOk n \<Rightarrow> Some ''ack'' | Pong t \<Rightarrow> Some ''pong'' | _ \<Rightarrow> None)"

theorem outbox_is_fifo_witness:
  "\<exists>bx accepted. fold (box_step list_channel_ops sample_ser)
       [TryPush (AckOk 1), TryPush (Synced 0), TryPush (Pong 5), Turn Written, Turn Written, Turn WriteTimeout]
       (open_outbox list_channel_ops, []) = (bx, accepted)
     \<and> wire bx = [''ack''] \<and> (\<exists>rest. texts sample_ser accepted = wire bx @ rest)"
proof -
  let ?evs = "[TryPush (AckOk 1), TryPush (Synced 0), TryPush (Pong 5), Turn Written, Turn Written, Turn WriteTimeout]"
  obtain bx accepted where run: "fold (box_step list_channel_ops sample_ser) ?evs (open_outbox list_channel_ops, []) = (bx, accepted)"
    by force
  then have "wire bx = [''ack'']"
    by (auto simp: open_outbox_def list_channel_ops_def try_push_def writer_turn_def sample_ser_def config_defs)
  with run outbox_is_fifo [OF list_channel.bounded_channel_axioms run] show ?thesis by blast
qed

text \<open>
  C13: a backlog cannot wedge its socket. The sends of a \<open>Hello\<close> end as soon as the writer has had one
  turn more than there are messages, however slow or dead the peer is; a write that fails ends
  them. What was then accepted for the client, in order, is the acceptance (if there was room for
  it), the messages of the mailbox up to the first that could not be sent and, from protocol
  version 6 on and if the writer is still there, their number: exactly the frames the handler
  \<open>hello_flush\<close> has when its input \<open>i_alive\<close> is that number. With a peer that reads, the whole
  backlog is sent, also one that is longer than the channel.
\<close>

theorem hello_over_socket:
  fixes W :: "('t, 'b, 'c) ws_env"
  assumes "bounded_channel Q" "outbox_inv Q ser accepted bx"
    "flush (a_queue (w_app W)) (i_qio i) rid (queues s) = Some envs" "length envs < length turns"
  shows "\<exists>bx' turns' n. push_hello Q ser ok envs selected turns bx = Some (bx', turns', n) \<and> n \<le> length envs
    \<and> (\<exists>frames. outbox_inv Q ser (accepted @ (if snd (try_push Q ok bx) then [ok] else []) @ frames) bx'
         \<and> map snd (hello_flush W (i\<lparr>i_alive := n\<rparr>) ch rid selected s)
             = frames @ (if selected \<ge> 6 \<and> \<not> writing bx' then [Synced (of_nat n)] else []))
    \<and> (n < length envs \<longrightarrow> \<not> writing bx')
    \<and> (writing bx \<and> list_all ((=) Written) turns \<longrightarrow> n = length envs \<and> writing bx')"
proof -
  from bounded_channel.hello_ends [OF assms(1,2,4)] obtain bx' turns' n where
    h: "push_hello Q ser ok envs selected turns bx = Some (bx', turns', n)" "n \<le> length envs"
      "outbox_inv Q ser (accepted @ (if snd (try_push Q ok bx) then [ok] else []) @ (map Envelope (take n envs)
         @ (if selected \<ge> 6 \<and> writing bx' then [Synced (of_nat n)] else []))) bx'"
      "n < length envs \<longrightarrow> \<not> writing bx'"
      "writing bx \<and> list_all ((=) Written) turns \<longrightarrow> n = length envs \<and> writing bx'" by metis
  have "map snd (hello_flush W (i\<lparr>i_alive := n\<rparr>) ch rid selected s)
      = (map Envelope (take n envs) @ (if selected \<ge> 6 \<and> writing bx' then [Synced (of_nat n)] else []))
        @ (if selected \<ge> 6 \<and> \<not> writing bx' then [Synced (of_nat n)] else [])"
    using assms(3) h(2) by (simp add: hello_flush_def Let_def comp_def min_absorb2)
  with h show ?thesis by blast
qed

theorem hello_over_socket_witness:
  "\<exists>envs bx' turns' n. flush (a_queue ref_app) io_fine alice (queues app3) = Some envs
     \<and> push_hello list_channel_ops sample_ser (Pong 1) envs 7 (replicate 501 Written) (open_outbox list_channel_ops)
         = Some (bx', turns', n) \<and> n = length envs"
proof -
  let ?Q = "a_queue (w_app ref_ws)"
  have "queue_inv ?Q (queues app3)"
    using state_okD(5) [OF relay_invD(1) [OF relay3_inv]] by (simp add: relay3_def)
  then have len: "length (mail ?Q (queues app3) alice) \<le> 500"
    by (simp add: queue_inv_def config_defs alice_def)
  have fl: "flush ?Q (i_qio in1) alice (queues app3) = Some (delivered alice (mail ?Q (queues app3) alice))"
    by (rule flush_delivered) (simp add: io_fine_def)
  have "length (delivered alice (mail ?Q (queues app3) alice)) < length (replicate 501 Written)"
    using len by (simp add: delivered_def)
  moreover have "writing (open_outbox list_channel_ops)" by (simp add: open_outbox_def)
  moreover have "list_all ((=) Written) (replicate 501 Written)" by (simp add: list_all_iff)
  ultimately show ?thesis
    using hello_over_socket [OF list_channel.bounded_channel_axioms list_channel.open_inv fl,
        where turns = "replicate 501 Written" and ser = sample_ser and ok = "Pong 1" and selected = 7] fl
    by (simp only: ref_ws_simps in1_simps) blast
qed

end
