(* ===== verification/Races.thy ===== *)
theory Races
  imports Concurrency
begin

text \<open>
  What the interleaving of the tasks can do to the relay that no order of whole handlers can: schedules
  on the reference relay that the code allows, each between two steps it does not protect together.
\<close>


section \<open>Evictions\<close>

text \<open>A mailbox that is full: one message of 8 MiB.\<close>

definition full_queue :: "string \<Rightarrow> ref_tab queue_store" where
  "full_queue c =
     \<lparr>envelopes = [(key_for (a_queue ref_app) ''m'' 1, RQueue \<lparr>sv_t = '''', sv_c = c, sv_q = 0, sv_s = 1\<rparr>)],
      total_bytes = length c, next_seq = 2, index = [(''m'', (1, length c))]\<rparr>"

definition small_message :: "uuid \<Rightarrow> stored_envelope" where
  "small_message u = \<lparr>env_id = u, env_to = ''m'', envelope_type = '''', ciphertext = ''x''\<rparr>"

definition two_enqueues :: "(ref_tab queue_store, usize option) prog list" where
  "two_enqueues = [enqueue_prog (a_queue ref_app) io_fine 0 ''m'' (small_message 2),
                   enqueue_prog (a_queue ref_app) io_fine 0 ''m'' (small_message 3)]"

lemma turn_now:
  "t < length ps \<Longrightarrow> ps ! t = Step f \<Longrightarrow> turn t (s, ps) = (fst (f s), ps[t := snd (f s)])"
  by (simp add: turn_def case_prod_unfold)

lemma step_forms:
  "bind (atomic f) k = Step (\<lambda>s. case f s of (s, x) \<Rightarrow> (s, k x))"
  "bind (update g) k' = Step (\<lambda>s. (g s, k' ()))"
  "atomic f = Step (\<lambda>s. case f s of (s, x) \<Rightarrow> (s, Return x))"
  "bind (Step h) j = Step (\<lambda>s. case h s of (s, p) \<Rightarrow> (s, bind p j))"
  by (auto simp: atomic_def update_def map_prod_def case_prod_unfold)

lemma on_queue_step: "on_queue (Step f) = Step (\<lambda>s. case f (queues s) of (q, p) \<Rightarrow> (s\<lparr>queues := q\<rparr>, on_queue p))"
  by (simp add: on_queue_def map_prod_def)

lemma keys_differ [simp]: "key_for (a_queue ref_app) m i = key_for (a_queue ref_app) m j \<longleftrightarrow> i = j"
  by (simp add: key_for_def ref_uuid.show_inject)

lemma first_key: "key_for (a_queue ref_app) ''m'' 1 = ''m:1''"
proof -
  have "char_of (49 :: nat) = CHR ''1''" by code_simp
  then show ?thesis by (simp add: key_for_def ref_uuid_def show_dec.simps digit_char_def)
qed

lemma single_mail: "read_mailbox (a_queue ref_app) [(key_for (a_queue ref_app) ''m'' 1, RQueue v)] ''m'' = [(1, v)]"
proof -
  have "parse_id (a_queue ref_app) (key_for (a_queue ref_app) ''m'' 1) = Some 1"
    using ref_relay.qb.parse_key(1) [of "''m''" 1] by simp
  then show ?thesis unfolding first_key
    by (simp add: read_mailbox_def mailbox_bounds_def List.map_filter_simps decode_entry_def ref_queue_codec_def)
qed

text \<open>
  Two sends to a full mailbox choose the same message for eviction: it is taken off the index and the
  total twice, and the mailbox holds two messages of which the index knows one and the total none.
\<close>

theorem concurrent_evictions_drift:
  assumes "length c = PER_MAILBOX_QUEUE_BYTES"
  shows "\<exists>q. interleave [0, 0, 0, 1, 1, 1, 0, 0, 0, 0, 1, 1, 1, 1] (full_queue c, two_enqueues)
      = (q, [Return (Some 1), Return (Some 1)])
    \<and> length (envelopes q) = 2 \<and> index_of (index q) ''m'' = (1, 1) \<and> total_bytes q = 0"
proof -
  have pick: "choose_evictions (a_queue ref_app) ''m'' (Suc 0) q = ([1], length c)"
    if "envelopes q = [(key_for (a_queue ref_app) ''m'' 1, RQueue \<lparr>sv_t = '''', sv_c = c, sv_q = 0, sv_s = 1\<rparr>)]" for q
    using that assms by (simp add: choose_evictions_def single_mail queue_bytes_def config_defs usize_add_def usize_sat_add_def usize_max_def usize_modulus_def)
  have full: "needs_eviction ''m'' (Suc 0) q" if "index q = [(''m'', Suc 0, length c)]" for q
    using that assms by (simp add: needs_eviction_def index_of_def config_defs usize_add_def usize_modulus_def)
  show ?thesis
    using assms
    by (simp add: two_enqueues_def enqueue_prog_def enqueue_write_def Let_def step_forms turn_now full_queue_def small_message_def pick full)
      (simp add: enqueue_txn_def enqueue_index_def index_of_def t_remove_all_def config_defs Let_def usize_add_def usize_sat_add_def usize_sat_sub_def usize_max_def usize_modulus_def atomic_sub_saturating_def)
qed


section \<open>Routes\<close>

text \<open>Alice is registered; another client writes to her while she connects.\<close>

definition hello_task :: "((ref_tab, ref_chunks) app_state, conn \<times> outputs \<times> bool) prog" where
  "hello_task = frame_prog ref_ws in1 (Hello alice auth_a send_a None None (Some 7) (Some ''0:x'') False) conn0"

definition conn9 :: conn where
  "conn9 = \<lparr>tx = 9, recipient = None, window_start_ms = 86400000, frame_count = 0\<rparr>"

definition send_task :: "((ref_tab, ref_chunks) app_state, conn \<times> outputs \<times> bool) prog" where
  "send_task = frame_prog ref_ws in2 (SendEnvelope None alice send_a ''chat'' ''hi'') conn9"

lemmas race_defs = hello_task_def send_task_def hello_prog_def send_prog_def deliver_prog_def goes_on_def
  enqueue_prog_def enqueue_write_def step_forms on_queue_step turn_now Let_def bind_split

definition offline2 :: "(ref_tab, ref_chunks) app_state" where
  "offline2 = app2\<lparr>online := []\<rparr>"

lemmas race_state = offline2_def app2_def app1_def app0_def conn0_def conn9_def mark_auth_dirty_def enqueue_txn_def
  enqueue_index_def index_of_def t_remove_all_def PROTOCOL_VERSION_def PROTOCOL_MIN_SUPPORTED_def case_prod_unfold
  usize_add_def usize_sat_add_def usize_sat_sub_def usize_max_def usize_modulus_def atomic_sub_saturating_def
  small_config_def ref_queue_codec_def io_fine_def

text \<open>What the steps compute on states in which Alice is registered.\<close>

lemma race_steps:
  "dm_get (auths s) alice = Some auth1 \<Longrightarrow>
     hello_entry ref_ws in1 alice auth_a send_a pow s = (s\<lparr>auths := dm_insert alice auth1 (auths s)\<rparr>, None)"
  "dm_get (auths s) alice = Some auth1 \<Longrightarrow>
     authorize_send ref_ws in2 alice send_a s = (s\<lparr>auths := dm_insert alice auth1 (auths s)\<rparr>, True)"
  "send_rate s = [] \<Longrightarrow> allow_dest_send 86400000 alice s = (s\<lparr>send_rate := [(alice, 86400000, 1)]\<rparr>, True)"
  "total_bytes q = 0 \<Longrightarrow> \<not> would_exceed_global q (Suc (Suc 0))"
  "index q = [] \<Longrightarrow> \<not> needs_eviction alice (Suc (Suc 0)) q"
  "envelopes (queues s) = [] \<Longrightarrow> hello_flush ref_ws in1 ch alice 7 s = [(ch, Synced 0)]"
proof -
  show "hello_entry ref_ws in1 alice auth_a send_a pow s = (s\<lparr>auths := dm_insert alice auth1 (auths s)\<rparr>, None)"
    if "dm_get (auths s) alice = Some auth1"
    using that by (simp add: hello_entry_def Let_def ensure_delivery_hash_def) (simp add: auth1_def)
  show "authorize_send ref_ws in2 alice send_a s = (s\<lparr>auths := dm_insert alice auth1 (auths s)\<rparr>, True)"
    if "dm_get (auths s) alice = Some auth1"
    using that by (simp add: authorize_send_def)
qed (simp_all add: allow_dest_send_def rate_step_def would_exceed_global_def needs_eviction_def index_of_def
    hello_flush_def flush_def read_mailbox_def mailbox_bounds_def List.map_filter_simps eval_defs sat_sub_def)

text \<open>
  A send that finds no route, and a \<open>Hello\<close> that puts its route and reads the queue before the send has
  written: the message is queued under a connected socket that has been told it is up to date.
\<close>

theorem lost_wakeup:
  "\<exists>s. interleave [0, 0, 0, 1, 1, 1, 1, 1, 0, 0, 0, 0, 0, 0, 0, 0] (offline2, [send_task, hello_task])
      = (s, [Return (conn9, [(9, SendOk 7 True None)], False),
             Return (conn0\<lparr>recipient := Some alice\<rparr>, [(1, HelloOk 7 4 7 86400000 ''root'' 100), (1, Synced 0)], False)])
    \<and> dm_get (online s) alice = Some 1 \<and> length (envelopes (queues s)) = 1"
  by (simp add: race_defs race_steps race_state del: bind.simps(2))

text \<open>
  A send whose frame a dead route does not take, and a \<open>Hello\<close> that replaces the route before the send
  removes it: the new route is removed, under a socket that stays open.
\<close>

definition dead_route :: "(ref_tab, ref_chunks) app_state" where
  "dead_route = app2\<lparr>online := [(alice, 5)]\<rparr>"

theorem fresh_route_removed:
  "\<exists>s. interleave [0, 0, 0, 1, 1, 1, 1, 1, 0, 0, 0, 0, 0, 0, 0, 0, 0] (dead_route, [send_task, hello_task])
      = (s, [Return (conn9, [(9, SendOk 7 True None)], False),
             Return (conn0\<lparr>recipient := Some alice\<rparr>, [(1, HelloOk 7 4 7 86400000 ''root'' 100), (1, Synced 0)], False)])
    \<and> online s = [] \<and> length (envelopes (queues s)) = 1"
  by (simp add: race_defs race_steps dead_route_def race_state del: bind.simps(2))


section \<open>Retirement\<close>

definition retire_task :: "((ref_tab, ref_chunks) app_state, conn \<times> outputs \<times> bool) prog" where
  "retire_task = frame_prog ref_ws in1 RetireMailbox conn2"

text \<open>
  A send that was authorized before the mailbox was retired and writes after its queue was purged: the
  message is queued, and told to be, in a mailbox that does not exist.
\<close>

theorem orphan_after_retire:
  "\<exists>s. interleave [0, 0, 1, 1, 1, 1, 1, 1, 1, 1, 0, 0, 0, 0, 0, 0, 0, 0, 0] (app2, [send_task, retire_task])
      = (s, [Return (conn9, [(9, SendOk 7 True None)], False), Return (conn2, [(1, AckOk 0)], True)])
    \<and> auths s = [] \<and> length (envelopes (queues s)) = 1"
  by (simp add: race_defs retire_task_def retire_prog_def remove_auth_def release_mailbox_def purge_prog_def
      purge_txn_def mailbox_bounds_def freed_bytes_def usize_sub_def conn2_def dm_contains_def race_steps race_state del: bind.simps(2))

section \<open>Collections\<close>

text \<open>A collection a month later, and Alice who comes back while it runs.\<close>

definition in5 :: frame_in where "in5 = in1\<lparr>i_clock := (\<lambda>_. 33 * 86400000)\<rparr>"
definition in6 :: frame_in where "in6 = in2\<lparr>i_clock := (\<lambda>_. 33 * 86400000)\<rparr>"

lemma later_simps [simp]:
  "i_clock in5 n = 2851200000" "i_clock in6 n = 2851200000" "i_uuid in6 = 7" "i_qio in6 = io_fine" "\<not> i_live in6"
  by (simp_all add: in5_def in6_def)

definition auth5 :: mailbox_auth where
  "auth5 = auth1\<lparr>last_active_ms := 2851200000\<rparr>"

definition gc_task :: "((ref_tab, ref_chunks) app_state, conn \<times> outputs \<times> bool) prog" where
  "gc_task = bind (gc_prog ref_app (\<lambda>_. io_fine) 2851200000) (\<lambda>out. Return (conn0, out, False))"

definition return_task :: "((ref_tab, ref_chunks) app_state, conn \<times> outputs \<times> bool) prog" where
  "return_task = frame_prog ref_ws in5 (Hello alice auth_a send_a None None (Some 7) (Some ''0:x'') True) conn0"

definition late_send_task :: "((ref_tab, ref_chunks) app_state, conn \<times> outputs \<times> bool) prog" where
  "late_send_task = frame_prog ref_ws in6 (SendEnvelope None alice send_a ''chat'' ''hi'') conn9"

lemma late_steps:
  "auths s = [] \<Longrightarrow> mailbox_count s = 0 \<Longrightarrow> hello_entry ref_ws in5 alice auth_a send_a (Some ''0:x'') s
     = (s\<lparr>mailbox_count := 1, auths := [(alice, auth5)]\<rparr>, None)"
  "auths s = [(alice, auth5)] \<Longrightarrow> authorize_send ref_ws in6 alice send_a s = (s, True)"
  "send_rate s = [] \<Longrightarrow> allow_dest_send 2851200000 alice s = (s\<lparr>send_rate := [(alice, 2851200000, 1)]\<rparr>, True)"
  "idle 2851200000 auth1"
  "read_ok io \<Longrightarrow> envelopes q = [] \<Longrightarrow> is_empty (a_queue ref_app) io alice q = Some True"
  "envelopes q = [(key_for (a_queue ref_app) alice 7, RQueue v)] \<Longrightarrow>
     purge_txn (a_queue ref_app) alice q = (q\<lparr>envelopes := []\<rparr>, usize_sat_add 0 (length (sv_c v)), 1)"
proof -
  have day: "now_activity_ms 2851200000 = 2851200000" by (simp add: now_activity_ms_def config_defs)
  have pow: "pow_valid ref_ws in5 alice (Some ''0:x'')"
    using sample_pow [of alice] by (simp add: pow_valid_def in5_def)
  show "hello_entry ref_ws in5 alice auth_a send_a (Some ''0:x'') s
     = (s\<lparr>mailbox_count := 1, auths := [(alice, auth5)]\<rparr>, None)" if "auths s = []" "mailbox_count s = 0"
    using that pow by (simp add: hello_entry_def reserve_mailbox_slot_def mailbox_auth_new_def day auth5_def auth1_def
        MAX_MAILBOXES_def usize_add_def usize_modulus_def)
  have acc: "accepts_delivery_hash auth5 send_a" by (simp add: accepts_delivery_hash_def auth5_def auth1_def)
  show "authorize_send ref_ws in6 alice send_a s = (s, True)" if "auths s = [(alice, auth5)]"
    using that acc by (simp add: authorize_send_def day) (simp add: auth5_def auth1_def)
  show "idle 2851200000 auth1" by (simp add: idle_def auth1_def config_defs sat_sub_def)
  show "is_empty (a_queue ref_app) io alice q = Some True" if "read_ok io" "envelopes q = []"
    using that by (simp add: is_empty_def mailbox_bounds_def)
  have colon: "CHR '':'' \<notin> set alice" by (simp add: alice_def)
  have "alice @ '':'' \<le> key_for (a_queue ref_app) alice 7 \<and> key_for (a_queue ref_app) alice 7 < alice @ '';''"
    using ref_relay.qb.prefix_key_iff [OF colon colon, of 7] by (simp add: key_range_prefix)
  then show "purge_txn (a_queue ref_app) alice q = (q\<lparr>envelopes := []\<rparr>, usize_sat_add 0 (length (sv_c v)), 1)"
    if "envelopes q = [(key_for (a_queue ref_app) alice 7, RQueue v)]"
    using that by (simp add: purge_txn_def mailbox_bounds_def freed_bytes_def t_remove_all_def ref_queue_codec_def)
qed (simp_all add: allow_dest_send_def rate_step_def eval_defs sat_sub_def)

text \<open>
  A collection that has removed the mailbox and not yet purged its queue: Alice registers again, a
  message for her is queued and told to be, and the purge then deletes it. Her new registration stays.
\<close>

theorem collected_message_lost:
  "\<exists>s. interleave [0, 0, 0, 0, 0, 0, 1, 1, 1, 2, 2, 2, 2, 2, 2, 2, 2, 2, 2, 2, 0, 0, 0, 0]
        (offline2, [gc_task, return_task, late_send_task])
      = (s, [Return (conn0, [], False),
             Return (conn0\<lparr>recipient := Some alice\<rparr>, [(1, HelloOk 7 4 7 2851200000 ''root'' 100)], False),
             Return (conn9, [(9, SendOk 7 True None)], False)])
    \<and> auths s = [(alice, auth5)] \<and> envelopes (queues s) = []"
  by (simp add: race_defs gc_task_def return_task_def late_send_task_def gc_prog_def is_empty_prog_def remove_idle_def
      release_mailbox_def purge_prog_def usize_sub_def dm_contains_def race_steps late_steps race_state del: bind.simps(2))

end
