(* ===== verification/FileCaps.thy ===== *)
theory FileCaps
  imports FileSteps
begin

text \<open>
  The file store when its operations interleave. The invariant counts, beside what the tables hold,
  what tasks have reserved and not yet written, or deleted and not yet given back, and who owns a
  transfer id: an upload that has claimed it and not yet written its first chunk, or a deletion
  that has taken it out of the tables and not yet out of the cache.
\<close>


section \<open>Debts\<close>

record file_debt =
  fd_bytes :: nat
  fd_slots :: nat
  fd_id :: "string option"

definition no_file_debt :: file_debt where
  "no_file_debt = \<lparr>fd_bytes = 0, fd_slots = 0, fd_id = None\<rparr>"

definition holds :: "string \<Rightarrow> file_debt \<Rightarrow> nat" where
  "holds i d = (if fd_id d = Some i then 1 else 0)"

definition in_table :: "('m, 'b, 'c) file_env \<Rightarrow> ('m, 'c) file_store \<Rightarrow> string \<Rightarrow> nat" where
  "in_table E s i = (if meta_at E s i = None then 0 else 1)"

definition in_cache :: "('m, 'c) file_store \<Rightarrow> string \<Rightarrow> nat" where
  "in_cache s i = (if dm_contains (meta_cache s) i then 1 else 0)"

text \<open>
  With \<open>B\<close> and \<open>M\<close> the caps on bytes and transfers. An id has at most one owner, and none while
  it is in the tables; whoever has it, it is in the cache.
\<close>

definition files_inv ::
    "('m, 'b, 'c) file_env \<Rightarrow> u64 \<Rightarrow> usize \<Rightarrow> ('m, 'c) file_store \<Rightarrow> file_debt list \<Rightarrow> bool" where
  "files_inv E B M s ds \<longleftrightarrow> disk_inv E s \<and> config_ok (config s)
     \<and> unat (reserved_bytes s) = disk_bytes E s + owed fd_bytes ds
     \<and> reserved_bytes s \<le> B \<and> max_total_file_bytes (config s) \<le> B
     \<and> transfer_count s = disk_rows E s + owed fd_slots ds
     \<and> transfer_count s \<le> M \<and> max_transfers (config s) \<le> M \<and> M < usize_modulus
     \<and> (\<forall>i. owed (holds i) ds + in_table E s i \<le> in_cache s i)
     \<and> (\<forall>i. dm_contains (meta_cache s) i \<longrightarrow> CHR '':'' \<notin> set i)"

lemma files_invD:
  assumes "files_inv E B M s ds"
  shows "disk_inv E s" "config_ok (config s)" "unat (reserved_bytes s) = disk_bytes E s + owed fd_bytes ds"
    "reserved_bytes s \<le> B" "max_total_file_bytes (config s) \<le> B"
    "transfer_count s = disk_rows E s + owed fd_slots ds" "transfer_count s \<le> M"
    "max_transfers (config s) \<le> M" "M < usize_modulus"
    "\<And>i. owed (holds i) ds + in_table E s i \<le> in_cache s i"
    "\<And>i. dm_contains (meta_cache s) i \<Longrightarrow> CHR '':'' \<notin> set i"
  using assms unfolding files_inv_def by blast+

text \<open>A step that changes the state and the debt of its task.\<close>

lemma files_inv_update:
  assumes inv: "files_inv E B M s ds" and t: "t < length ds" "ds ! t = d"
    and "disk_inv E s'" "config s' = config s"
    and bytes: "unat (reserved_bytes s') + disk_bytes E s + fd_bytes d
          = unat (reserved_bytes s) + disk_bytes E s' + fd_bytes d'"
      "reserved_bytes s' \<le> reserved_bytes s \<or> reserved_bytes s' \<le> max_total_file_bytes (config s)"
    and slots: "transfer_count s' + disk_rows E s + fd_slots d = transfer_count s + disk_rows E s' + fd_slots d'"
      "transfer_count s' \<le> transfer_count s \<or> transfer_count s' \<le> max_transfers (config s)"
    and ids: "\<And>i. owed (holds i) ds + in_table E s i \<le> in_cache s i \<Longrightarrow>
        owed (holds i) ds + holds i d' + in_table E s' i \<le> in_cache s' i + holds i d"
    and cache: "\<And>i. dm_contains (meta_cache s') i \<Longrightarrow> dm_contains (meta_cache s) i \<or> CHR '':'' \<notin> set i"
  shows "files_inv E B M s' (ds[t := d'])"
proof -
  note I = files_invD [OF inv]
  note U = owed_update [OF t(1), unfolded t(2)]
  have "owed (holds i) (ds[t := d']) + in_table E s' i \<le> in_cache s' i" for i
    using ids [of i, OF I(10)] U [of "holds i" d'] by simp
  moreover have "reserved_bytes s' \<le> B" using bytes(2) I(4,5) by (meson order_trans)
  moreover have "unat (reserved_bytes s') = disk_bytes E s' + owed fd_bytes (ds[t := d'])"
    using bytes(1) I(3) U [of fd_bytes d'] by simp
  moreover have "transfer_count s' = disk_rows E s' + owed fd_slots (ds[t := d'])"
    using slots(1) I(6) U [of fd_slots d'] by simp
  ultimately show ?thesis
    using assms(4,5) I slots(2) cache unfolding files_inv_def by auto
qed

text \<open>One that leaves the tables alone.\<close>

lemma files_inv_ram:
  assumes inv: "files_inv E B M s ds" and t: "t < length ds" "ds ! t = d"
    and same: "meta_table s' = meta_table s" "chunk_table s' = chunk_table s" "config s' = config s"
    and bytes: "unat (reserved_bytes s') + fd_bytes d = unat (reserved_bytes s) + fd_bytes d'"
      "reserved_bytes s' \<le> reserved_bytes s \<or> reserved_bytes s' \<le> max_total_file_bytes (config s)"
    and slots: "transfer_count s' + fd_slots d = transfer_count s + fd_slots d'"
      "transfer_count s' \<le> transfer_count s \<or> transfer_count s' \<le> max_transfers (config s)"
    and ids: "\<And>i. owed (holds i) ds + in_table E s i \<le> in_cache s i \<Longrightarrow>
        owed (holds i) ds + holds i d' + in_table E s i \<le> in_cache s' i + holds i d"
    and cache: "\<And>i. dm_contains (meta_cache s') i \<Longrightarrow> dm_contains (meta_cache s) i \<or> CHR '':'' \<notin> set i"
  shows "files_inv E B M s' (ds[t := d'])"
proof (rule files_inv_update [OF inv t])
  show "disk_inv E s'" using files_invD(1) [OF inv] by (simp add: disk_same [OF same(1,2)])
  show "unat (reserved_bytes s') + disk_bytes E s + fd_bytes d = unat (reserved_bytes s) + disk_bytes E s' + fd_bytes d'"
    "transfer_count s' + disk_rows E s + fd_slots d = transfer_count s + disk_rows E s' + fd_slots d'"
    using bytes(1) slots(1) by (simp_all add: disk_same [OF same(1,2)])
  show "owed (holds i) ds + holds i d' + in_table E s' i \<le> in_cache s' i + holds i d"
    if "owed (holds i) ds + in_table E s i \<le> in_cache s i" for i
    using ids [OF that] by (simp add: in_table_def disk_same [OF same(1,2)])
qed (use same bytes slots cache in auto)


section \<open>Counters and cache\<close>

lemma files_release_bytes:
  fixes E :: "('m, 'b, 'c) file_env"
  assumes "fd_bytes d = unat n" "upholds (files_inv E B M) Fin (d\<lparr>fd_bytes := 0\<rparr>) (k ())"
  shows "upholds (files_inv E B M) Fin d (bind (update (release_bytes n)) k)"
proof (rule upholds_update_bind [where d' = "d\<lparr>fd_bytes := 0\<rparr>"])
  fix s :: "('m, 'c) file_store" and ds t
  assume t: "t < length ds" "ds ! t = d" "files_inv E B M s ds"
  have "unat n \<le> unat (reserved_bytes s)"
    using owed_ge [OF t(1), of fd_bytes] t(2) files_invD(3) [OF t(3)] assms(1) by simp
  then show "files_inv E B M (release_bytes n s) (ds[t := d\<lparr>fd_bytes := 0\<rparr>])"
    by (intro files_inv_ram [OF t(3,1,2)])
      (simp_all add: release_bytes_def unat_sat_sub assms(1) sat_sub_le holds_def in_cache_def)
qed (rule assms(2))

lemma files_release_if:
  assumes "fd_bytes d = unat n" "upholds (files_inv E B M) Fin (d\<lparr>fd_bytes := 0\<rparr>) (k ())"
  shows "upholds (files_inv E B M) Fin d (bind (release_if n) k)"
proof (cases "n > 0")
  case False
  with assms have "d\<lparr>fd_bytes := 0\<rparr> = d" by (cases d) (simp add: word_gt_0)
  with False assms(2) show ?thesis by (simp add: release_if_def)
qed (use assms files_release_bytes in \<open>auto simp: release_if_def\<close>)

lemma files_release_slot:
  fixes E :: "('m, 'b, 'c) file_env"
  assumes "fd_slots d = 1" "upholds (files_inv E B M) Fin (d\<lparr>fd_slots := 0\<rparr>) (k ())"
  shows "upholds (files_inv E B M) Fin d (bind (update release_slot) k)"
proof (rule upholds_update_bind [where d' = "d\<lparr>fd_slots := 0\<rparr>"])
  fix s :: "('m, 'c) file_store" and ds t
  assume t: "t < length ds" "ds ! t = d" "files_inv E B M s ds"
  note I = files_invD [OF t(3)]
  have "1 \<le> transfer_count s"
    using owed_ge [OF t(1), of fd_slots] t(2) I(6) assms(1) by simp
  then have "usize_sub (transfer_count s) 1 = transfer_count s - 1" "1 \<le> transfer_count s"
    using I(7,9) by (simp_all add: usize_sub_exact)
  then show "files_inv E B M (release_slot s) (ds[t := d\<lparr>fd_slots := 0\<rparr>])"
    by (intro files_inv_ram [OF t(3,1,2)])
      (simp_all add: release_slot_def assms(1) holds_def in_cache_def)
qed (rule assms(2))

lemma files_uncache:
  fixes E :: "('m, 'b, 'c) file_env"
  assumes "fd_id d = Some i" "upholds (files_inv E B M) Fin (d\<lparr>fd_id := None\<rparr>) (k ())"
  shows "upholds (files_inv E B M) Fin d (bind (update (uncache i)) k)"
proof (rule upholds_update_bind [where d' = "d\<lparr>fd_id := None\<rparr>"])
  fix s :: "('m, 'c) file_store" and ds t
  assume t: "t < length ds" "ds ! t = d" "files_inv E B M s ds"
  show "files_inv E B M (uncache i s) (ds[t := d\<lparr>fd_id := None\<rparr>])"
    by (rule files_inv_ram [OF t(3,1,2)])
      (auto simp: uncache_def in_cache_def holds_def assms(1) dm_contains_def split: if_splits)
qed (rule assms(2))

lemma in_cache_insert: "in_cache (s\<lparr>meta_cache := dm_insert i e (meta_cache s)\<rparr>) j = (if j = i then 1 else in_cache s j)"
  by (simp add: in_cache_def dm_contains_def)

lemma files_mirror:
  fixes E :: "('m, 'b, 'c) file_env"
  assumes i: "CHR '':'' \<notin> set i"
  shows "settles (files_inv E B M) d (update (mirror_meta i tc tb m))"
proof (rule settles_update)
  fix s :: "('m, 'c) file_store" and ds
  assume inv: "files_inv E B M s ds" and d: "d \<in> set ds"
  then obtain t where t: "t < length ds" "ds ! t = d" by (auto simp: in_set_conv_nth)
  have "in_cache s j \<le> in_cache (mirror_meta i tc tb m s) j" for j
    by (simp add: mirror_meta_def in_cache_def dm_contains_def)
  moreover have "dm_contains (meta_cache (mirror_meta i tc tb m s)) j \<Longrightarrow> dm_contains (meta_cache s) j \<or> CHR '':'' \<notin> set j" for j
    using i by (auto simp: mirror_meta_def dm_contains_def split: if_splits)
  ultimately have "files_inv E B M (mirror_meta i tc tb m s) (ds[t := d])"
    by (intro files_inv_ram [OF inv t]) (fastforce simp: mirror_meta_def intro: order_trans)+
  then show "files_inv E B M (mirror_meta i tc tb m s) ds" using t(2) by (metis list_update_id)
qed


lemma files_reserve_slot:
  fixes E :: "('m, 'b, 'c) file_env"
  assumes "fd_slots d = 0" "\<And>e. upholds (files_inv E B M) Fin d (k (Inl e))"
    "upholds (files_inv E B M) Fin (d\<lparr>fd_slots := 1\<rparr>) (k (Inr ()))"
  shows "upholds (files_inv E B M) Fin d (bind (atomic reserve_slot) k)"
proof (rule upholds_atomic_bind)
  fix s :: "('m, 'c) file_store" and ds t
  assume t: "t < length ds" "ds ! t = d" "files_inv E B M s ds"
  note I = files_invD [OF t(3)]
  show "\<exists>d'. upholds (files_inv E B M) Fin d' (k (snd (reserve_slot s)))
      \<and> files_inv E B M (fst (reserve_slot s)) (ds[t := d'])"
  proof (cases "transfer_count s \<ge> max_transfers (config s)")
    case True
    with assms(2) t show ?thesis
      by (intro exI [of _ d]) (auto simp: reserve_slot_def list_update_same_conv)
  next
    case False
    then have u: "usize_add (transfer_count s) 1 = Suc (transfer_count s)"
      using I(8,9) by (simp add: usize_add_exact)
    have "files_inv E B M (s\<lparr>transfer_count := usize_add (transfer_count s) 1\<rparr>) (ds[t := d\<lparr>fd_slots := 1\<rparr>])"
      using False u by (intro files_inv_ram [OF t(3,1,2)]) (simp_all add: assms(1) holds_def in_cache_def)
    with False assms(3) show ?thesis
      by (intro exI [of _ "d\<lparr>fd_slots := 1\<rparr>"]) (simp add: reserve_slot_def)
  qed
qed


section \<open>A chunk\<close>

lemma try_reserve_ok:
  assumes "config_ok (config s)" "try_reserve_bytes n s = (s', Inr u)"
  shows "s' = s\<lparr>reserved_bytes := reserved_bytes s'\<rparr>" "unat (reserved_bytes s') = unat (reserved_bytes s) + unat n"
    "reserved_bytes s' \<le> max_total_file_bytes (config s)"
proof -
  have s': "s' = s\<lparr>reserved_bytes := sat_add (reserved_bytes s) n\<rparr>"
    "sat_add (reserved_bytes s) n \<le> max_total_file_bytes (config s)"
    using assms(2) by (auto simp: try_reserve_bytes_def Let_def not_less split: if_splits)
  then show "s' = s\<lparr>reserved_bytes := reserved_bytes s'\<rparr>" "reserved_bytes s' \<le> max_total_file_bytes (config s)"
    by simp_all
  have "sat_add (reserved_bytes s) n < - 1"
    using s'(2) assms(1) by (simp add: config_ok_def) (meson le_less_trans)
  then have "unat (sat_add (reserved_bytes s) n) < 2 ^ 64 - 1"
    by (simp add: word_less_nat_alt unsigned_minus_1_eq_mask mask_eq_exp_minus_1)
  then show "unat (reserved_bytes s') = unat (reserved_bytes s) + unat n"
    by (simp add: s'(1) unat_sat_add)
qed

lemma write_txn_reserved:
  "write_txn E io now tid ci tc tb data len creating s = (s', add, rel, r) \<Longrightarrow>
   add = 0 \<and> s' = s \<or> try_reserve_bytes add s = (s', Inr ())"
  unfolding write_txn_def Let_def
  by (auto split: if_splits option.splits sum.splits prod.splits dest: try_reserve_Inl)

lemma write_txn_add:
  "write_txn E io now tid ci tc tb data len creating s = (s', add, rel, Inr x) \<Longrightarrow> rel \<noteq> 0 \<Longrightarrow> add = 0"
  unfolding write_txn_def Let_def
  by (auto split: if_splits option.splits sum.splits prod.splits)

lemma commit_failed:
  assumes cfg: "config_ok (config s)"
    and w: "write_commit E io now tid ci tc tb data len creating s = (s', add, rel, Inl e)"
  shows "s' = s\<lparr>reserved_bytes := reserved_bytes s'\<rparr>"
    "unat (reserved_bytes s') = unat (reserved_bytes s) + unat add"
    "reserved_bytes s' \<le> reserved_bytes s \<or> reserved_bytes s' \<le> max_total_file_bytes (config s)"
proof -
  have "add = 0 \<and> s' = s \<or> try_reserve_bytes add s = (s', Inr ())"
    using w write_txn_reserved [of E io now tid ci tc tb data len creating s]
    by (auto simp: write_commit_def split: if_splits prod.splits sum.splits)
  then show "s' = s\<lparr>reserved_bytes := reserved_bytes s'\<rparr>"
    "unat (reserved_bytes s') = unat (reserved_bytes s) + unat add"
    "reserved_bytes s' \<le> reserved_bytes s \<or> reserved_bytes s' \<le> max_total_file_bytes (config s)"
    using try_reserve_ok [OF cfg] by auto
qed

context file_backend
begin

lemma commit_done:
  assumes inv: "disk_inv E s" and cfg: "config_ok (config s)" and disk: "disk_bytes E s \<le> unat (reserved_bytes s)"
    and tid: "CHR '':'' \<notin> set tid" and data: "data \<noteq> []" "length data < usize_modulus" and ci: "ci \<noteq> - 1"
    and w: "write_commit E io now tid ci tc tb data (of_nat (length data)) creating s = (s', add, rel, Inr m')"
    and new: "creating \<Longrightarrow> meta_at E s tid = None"
  shows "disk_inv E s'" "meta_at E s' = (meta_at E s)(tid \<mapsto> m')"
    "chunk_at E s' = (chunk_at E s)(tid := (chunk_at E s tid)(ci \<mapsto> data))"
    "s' = s\<lparr>meta_table := meta_table s', chunk_table := chunk_table s', reserved_bytes := reserved_bytes s'\<rparr>"
    "disk_rows E s' = disk_rows E s + (if creating then 1 else 0)"
    "unat (reserved_bytes s') + disk_bytes E s = unat (reserved_bytes s) + disk_bytes E s' + unat rel"
    "reserved_bytes s' \<le> reserved_bytes s \<or> reserved_bytes s' \<le> max_total_file_bytes (config s)"
    "creating \<Longrightarrow> m_total_chunks m' = tc \<and> m_total_bytes m' = tb \<and> m_created_at_ms m' = now"
    "\<not> creating \<Longrightarrow> \<exists>m. meta_at E s tid = Some m \<and> m_total_chunks m' = m_total_chunks m
       \<and> m_total_bytes m' = m_total_bytes m \<and> m_created_at_ms m' = m_created_at_ms m
       \<and> m_received_chunks m \<le> m_received_chunks m'"
proof -
  define p where "p = old_len E s tid ci"
  let ?l = "length data"
  obtain s1 mt ct where t: "write_txn E io now tid ci tc tb data (of_nat ?l) creating s = (s1, add, rel, Inr (mt, ct, m'))"
    and s': "s' = s1\<lparr>meta_table := mt, chunk_table := ct\<rparr>"
    using w by (auto simp: write_commit_def split: if_splits prod.splits sum.splits)
  obtain m where m: "start_meta E now tid tc tb creating s = Some m"
    "m' = updated_meta (of_nat p) (of_nat ?l) m"
    "mt = t_insert (f_meta E) tid (enc (f_codec E) m') (meta_table s)"
    "ct = t_insert (f_chunks E) (chunk_key tid ci) data (chunk_table s)"
    "m_stored_bytes m' \<le> m_total_bytes m"
    and c: "if (of_nat p :: u64) < of_nat ?l
      then try_reserve_bytes (of_nat ?l - of_nat p) s = (s1, Inr ()) \<and> rel = 0
      else s1 = s \<and> rel = of_nat p - of_nat ?l"
    using write_txn_Inr [OF t] unfolding p_def by metis
  have start: "meta_at E s tid = Some m \<or> meta_at E s tid = None \<and> m_stored_bytes m = 0 \<and> m_received_chunks m = 0"
    using m(1) new by (auto simp: start_meta_def split: if_splits)
  have none: "meta_at E s tid = None \<Longrightarrow> p = 0"
    using no_chunk_without_meta [OF inv tid] by (simp add: p_def old_len_def)
  have p: "p \<le> unat (m_stored_bytes m)"
    using start old_len_le_stored [OF inv, of tid m ci] none by (auto simp: p_def)
  have le: "unat (m_stored_bytes m) \<le> unat (reserved_bytes s)"
    using start stored_le_disk [of s tid m] disk by auto
  have s1: "(of_nat p :: u64) < of_nat ?l \<Longrightarrow> sat_add (reserved_bytes s) (of_nat ?l - of_nat p) \<le> max_total_file_bytes (config s)
      \<and> s1 = s\<lparr>reserved_bytes := sat_add (reserved_bytes s) (of_nat ?l - of_nat p)\<rparr>"
    using c by (auto simp: try_reserve_bytes_def Let_def not_less split: if_splits)
  have cap: "max_total_file_bytes (config s) < - 1" using cfg by (simp add: config_ok_def)
  note arith = write_arith [OF p le data(2) cap, OF conjunct1 [OF s1]]
  have same: "meta_table s1 = meta_table s" "chunk_table s1 = chunk_table s" "config s1 = config s"
    "meta_cache s1 = meta_cache s" "transfer_count s1 = transfer_count s"
    using c s1 by (auto split: if_splits)
  have "unat (m_stored_bytes m') = unat (m_stored_bytes m) - old_len E s tid ci + ?l"
    using arith(1) by (simp add: m(2) updated_meta_def p_def)
  note P = disk_put [OF inv tid data(1) ci start m(2) [unfolded p_def] m(5) this, of s']
  have tabs: "meta_table s' = t_insert (f_meta E) tid (enc (f_codec E) m') (meta_table s)"
    "chunk_table s' = t_insert (f_chunks E) (chunk_key tid ci) data (chunk_table s)"
    by (simp_all add: s' m(3,4))
  show "disk_inv E s'" "meta_at E s' = (meta_at E s)(tid \<mapsto> m')"
    "chunk_at E s' = (chunk_at E s)(tid := (chunk_at E s tid)(ci \<mapsto> data))"
    by (rule P(1-3) [OF tabs])+
  show "s' = s\<lparr>meta_table := meta_table s', chunk_table := chunk_table s', reserved_bytes := reserved_bytes s'\<rparr>"
    using same by (simp add: s')
  show "disk_rows E s' = disk_rows E s + (if creating then 1 else 0)"
    using P(5) [OF tabs] m(1) new by (auto simp: start_meta_def split: if_splits)
  have "unat (of_nat p - of_nat ?l :: u64) = p - ?l" if "\<not> (of_nat p :: u64) < of_nat ?l"
  proof -
    have "p < 2 ^ 64" "?l < 2 ^ 64"
      using p le unsigned_less [of "reserved_bytes s", where 'a = nat] data(2) by (auto simp: usize_modulus_def)
    then have "unat (of_nat p :: u64) = p" "unat (of_nat ?l :: u64) = ?l" by (simp_all add: unat_of_nat)
    with that show ?thesis by (simp add: unat_sub not_less)
  qed
  moreover have "(of_nat p :: u64) < of_nat ?l \<Longrightarrow> p < ?l"
  proof -
    have "p < 2 ^ 64" "?l < 2 ^ 64"
      using p le unsigned_less [of "reserved_bytes s", where 'a = nat] data(2) by (auto simp: usize_modulus_def)
    then show "(of_nat p :: u64) < of_nat ?l \<Longrightarrow> p < ?l" by (simp add: word_less_nat_alt unat_of_nat)
  qed
  ultimately show "unat (reserved_bytes s') + disk_bytes E s = unat (reserved_bytes s) + disk_bytes E s' + unat rel"
    using P(4) [OF tabs] arith(2) s1 c p le
    by (cases "(of_nat p :: u64) < of_nat ?l") (auto simp: s' p_def [symmetric] charged_def unat_sat_sub)
  show "reserved_bytes s' \<le> reserved_bytes s \<or> reserved_bytes s' \<le> max_total_file_bytes (config s)"
    using s1 c by (auto simp: s' split: if_splits)
  show "creating \<Longrightarrow> m_total_chunks m' = tc \<and> m_total_bytes m' = tb \<and> m_created_at_ms m' = now"
    using m(1) by (auto simp: m(2) updated_meta_def start_meta_def)
  show "\<not> creating \<Longrightarrow> \<exists>m. meta_at E s tid = Some m \<and> m_total_chunks m' = m_total_chunks m
       \<and> m_total_bytes m' = m_total_bytes m \<and> m_created_at_ms m' = m_created_at_ms m
       \<and> m_received_chunks m \<le> m_received_chunks m'"
    using m(1) P(6) [OF tabs] by (auto simp: start_meta_def m(2) updated_meta_def)
qed

lemma files_write_commit:
  assumes tid: "CHR '':'' \<notin> set tid" and data: "data \<noteq> []" "length data < usize_modulus" and ci: "ci \<noteq> - 1"
    and d: "fd_bytes d = 0" "creating \<Longrightarrow> fd_id d = Some tid \<and> fd_slots d = 1"
    and fail: "\<And>add rel e. upholds (files_inv E B M) Fin (d\<lparr>fd_bytes := unat add\<rparr>) (k (add, rel, Inl e))"
    and fine: "\<And>add rel m. upholds (files_inv E B M) Fin
      ((if creating then d\<lparr>fd_slots := 0, fd_id := None\<rparr> else d)\<lparr>fd_bytes := unat rel\<rparr>) (k (add, rel, Inr m))"
  shows "upholds (files_inv E B M) Fin d
    (bind (atomic (write_commit E io now tid ci tc tb data (of_nat (length data)) creating)) k)"
proof (rule upholds_atomic_bind)
  fix s :: "('m, 'c) file_store" and ds t
  assume t: "t < length ds" "ds ! t = d" "files_inv E B M s ds"
  note I = files_invD [OF t(3)]
  let ?W = "write_commit E io now tid ci tc tb data (of_nat (length data)) creating s"
  obtain s' add rel r where W: "?W = (s', add, rel, r)" using prod_cases4 by blast
  show "\<exists>d'. upholds (files_inv E B M) Fin d' (k (snd ?W)) \<and> files_inv E B M (fst ?W) (ds[t := d'])"
  proof (cases r)
    case (Inl e)
    note F = commit_failed [OF I(2) W [unfolded Inl]]
    have same: "meta_table s' = meta_table s" "chunk_table s' = chunk_table s" "config s' = config s"
      "meta_cache s' = meta_cache s" "transfer_count s' = transfer_count s"
      by (subst F(1), simp)+
    have "files_inv E B M s' (ds[t := d\<lparr>fd_bytes := unat add\<rparr>])"
      by (rule files_inv_ram [OF t(3,1,2)]) (use same F(2,3) d(1) in \<open>simp_all add: holds_def in_cache_def\<close>)
    with fail show ?thesis by (auto simp: W Inl)
  next
    case (Inr m)
    let ?d = "(if creating then d\<lparr>fd_slots := 0, fd_id := None\<rparr> else d)\<lparr>fd_bytes := unat rel\<rparr>"
    have new: "meta_at E s tid = None" if creating
    proof -
      have "1 \<le> owed (holds tid) ds"
        using owed_ge [OF t(1), of "holds tid"] t(2) d(2) [OF that] by (simp add: holds_def)
      with I(10) [of tid] show ?thesis by (auto simp: in_cache_def in_table_def split: if_splits)
    qed
    have disk: "disk_bytes E s \<le> unat (reserved_bytes s)" using I(3) by simp
    note C = commit_done [OF I(1,2) disk tid data ci W [unfolded Inr] new]
    have same: "config s' = config s" "meta_cache s' = meta_cache s" "transfer_count s' = transfer_count s"
      using arg_cong [OF C(4), of config] arg_cong [OF C(4), of meta_cache] arg_cong [OF C(4), of transfer_count]
      by simp_all
    have "files_inv E B M s' (ds[t := ?d])"
    proof (rule files_inv_update [OF t(3,1,2) C(1) same(1)])
      show "unat (reserved_bytes s') + disk_bytes E s + fd_bytes d = unat (reserved_bytes s) + disk_bytes E s' + fd_bytes ?d"
        using C(6) d(1) by simp
      show "transfer_count s' + disk_rows E s + fd_slots d = transfer_count s + disk_rows E s' + fd_slots ?d"
        using C(5) d(2) same by auto
      show "owed (holds i) ds + holds i ?d + in_table E s' i \<le> in_cache s' i + holds i d"
        if "owed (holds i) ds + in_table E s i \<le> in_cache s i" for i
      proof (cases creating)
        case True
        with that new d(2) show ?thesis
          by (cases "i = tid") (simp_all add: C(2) in_table_def in_cache_def same holds_def)
      next
        case False
        then have "meta_at E s tid \<noteq> None" using C(9) by auto
        then have "in_table E s' i = in_table E s i" by (auto simp: fun_cong [OF C(2)] in_table_def)
        with that False show ?thesis by (simp add: in_cache_def same holds_def)
      qed
    qed (use C(7) same in auto)
    with fine show ?thesis by (auto simp: W Inr)
  qed
qed

lemma files_write_chunk:
  assumes "CHR '':'' \<notin> set tid" "data \<noteq> []" "length data < usize_modulus" "ci \<noteq> - 1"
    "fd_bytes d = 0" "creating \<Longrightarrow> fd_id d = Some tid \<and> fd_slots d = 1"
  shows "upholds (files_inv E B M)
    (\<lambda>d' r. d' = (if creating \<and> (\<exists>x. r = Inr x) then d\<lparr>fd_slots := 0, fd_id := None\<rparr> else d)) d
    (write_chunk_prog E io now tid ci tc tb data (of_nat (length data)) creating)"
  (is "upholds _ ?Fin d _")
  unfolding write_chunk_prog_def
proof (rule files_write_commit [OF assms])
  have z: "d\<lparr>fd_bytes := 0\<rparr> = d" using assms(5) by (cases d) simp
  show "upholds (files_inv E B M) ?Fin (d\<lparr>fd_bytes := unat add\<rparr>)
      (case (add, rel, Inl e) of (add, rel, Inl e) \<Rightarrow> bind (release_if add) (\<lambda>_. Return (Inl e))
       | (add, rel, Inr m) \<Rightarrow> bind (release_if rel) (\<lambda>_. bind (update (mirror_meta tid tc tb m)) (\<lambda>_.
           Return (Inr \<lparr>sc_received_chunks = m_received_chunks m, sc_total_chunks = tc\<rparr>))))" for add rel e
    by (simp, rule files_release_if) (simp_all add: z upholds.return)
  show "upholds (files_inv E B M) ?Fin
      ((if creating then d\<lparr>fd_slots := 0, fd_id := None\<rparr> else d)\<lparr>fd_bytes := unat rel\<rparr>)
      (case (add, rel, Inr m) of (add, rel, Inl e) \<Rightarrow> bind (release_if add) (\<lambda>_. Return (Inl e))
       | (add, rel, Inr m) \<Rightarrow> bind (release_if rel) (\<lambda>_. bind (update (mirror_meta tid tc tb m)) (\<lambda>_.
           Return (Inr \<lparr>sc_received_chunks = m_received_chunks m, sc_total_chunks = tc\<rparr>))))" for add rel m
    by (simp, intro conjI impI; rule files_release_if, simp, rule upholds_after [OF files_mirror [OF assms(1)]])
      (use assms(5) in \<open>auto intro!: upholds.return simp: z\<close>)
qed

lemma files_create:
  assumes "CHR '':'' \<notin> set tid" "data \<noteq> []" "length data < usize_modulus" "ci \<noteq> - 1"
  shows "upholds (files_inv E B M) (\<lambda>d' r. d' = no_file_debt) (no_file_debt\<lparr>fd_id := Some tid\<rparr>)
    (create_prog E io now tid ci tc tb data (of_nat (length data)))"
  unfolding create_prog_def
proof (rule files_reserve_slot)
  let ?d = "no_file_debt\<lparr>fd_id := Some tid\<rparr>"
  let ?W = "write_chunk_prog E io now tid ci tc tb data (of_nat (length data)) True"
  have z: "?d\<lparr>fd_id := None\<rparr> = no_file_debt" "?d\<lparr>fd_slots := 1, fd_slots := 0\<rparr> = ?d" by (simp_all add: no_file_debt_def)
  show "upholds (files_inv E B M) (\<lambda>d' r. d' = no_file_debt) ?d
    (case Inl e of Inl e \<Rightarrow> bind (update (uncache tid)) (\<lambda>_. Return (Inl e)) | Inr x \<Rightarrow> q x)" for e q
    by (simp, rule files_uncache) (simp_all add: z upholds.return)
  have "upholds (files_inv E B M) (\<lambda>d' r. d' = no_file_debt) (?d\<lparr>fd_slots := 1\<rparr>)
    (bind ?W (\<lambda>result. case result of
        Inl e \<Rightarrow> bind (update release_slot) (\<lambda>_. bind (update (uncache tid)) (\<lambda>_. Return (Inl e)))
      | Inr r \<Rightarrow> Return (Inr r)))"
  proof (rule upholds_bind [OF files_write_chunk [OF assms]])
    fix d' and r :: "file_reject + stored_chunk"
    assume d': "d' = (if True \<and> (\<exists>x. r = Inr x) then ?d\<lparr>fd_slots := 1, fd_slots := 0, fd_id := None\<rparr> else ?d\<lparr>fd_slots := 1\<rparr>)"
    show "upholds (files_inv E B M) (\<lambda>d' r. d' = no_file_debt) d' (case r of
        Inl e \<Rightarrow> bind (update release_slot) (\<lambda>_. bind (update (uncache tid)) (\<lambda>_. Return (Inl e)))
      | Inr r \<Rightarrow> Return (Inr r))"
    proof (cases r)
      case (Inl e)
      with d' show ?thesis
        by (simp, intro files_release_slot files_uncache) (simp_all add: no_file_debt_def upholds.return)
    qed (use d' in \<open>simp add: no_file_debt_def upholds.return\<close>)
  qed (simp_all add: no_file_debt_def)
  then show "upholds (files_inv E B M) (\<lambda>d' r. d' = no_file_debt) (?d\<lparr>fd_slots := 1\<rparr>)
    (case Inr () of Inl e \<Rightarrow> bind (update (uncache tid)) (\<lambda>_. Return (Inl e))
     | Inr _ \<Rightarrow> bind ?W (\<lambda>result. case result of
        Inl e \<Rightarrow> bind (update release_slot) (\<lambda>_. bind (update (uncache tid)) (\<lambda>_. Return (Inl e)))
      | Inr r \<Rightarrow> Return (Inr r)))" by simp
qed (simp add: no_file_debt_def)

text \<open>The claim of an id that is not in the cache makes its task the owner.\<close>

lemma files_claim:
  assumes tid: "CHR '':'' \<notin> set tid"
    and "\<And>e. upholds (files_inv E B M) Fin no_file_debt (k (Inl e))"
    "upholds (files_inv E B M) Fin no_file_debt (k (Inr False))"
    "ci = 0 \<Longrightarrow> upholds (files_inv E B M) Fin (no_file_debt\<lparr>fd_id := Some tid\<rparr>) (k (Inr True))"
  shows "upholds (files_inv E B M) Fin no_file_debt (bind (atomic (claim_transfer now tid ci tc tb)) k)"
proof (rule upholds_atomic_bind)
  fix s :: "('m, 'c) file_store" and ds t
  assume t: "t < length ds" "ds ! t = no_file_debt" "files_inv E B M s ds"
  let ?C = "claim_transfer now tid ci tc tb s"
  show "\<exists>d'. upholds (files_inv E B M) Fin d' (k (snd ?C)) \<and> files_inv E B M (fst ?C) (ds[t := d'])"
  proof (cases "dm_get (meta_cache s) tid = None \<and> ci = 0")
    case True
    let ?s = "fst ?C" and ?d = "no_file_debt\<lparr>fd_id := Some tid\<rparr>"
    have s: "?s = s\<lparr>meta_cache := meta_cache ?s\<rparr>" "snd ?C = Inr True"
      "in_cache ?s i = (if i = tid then 1 else in_cache s i)" "in_cache s tid = 0"
      "dm_contains (meta_cache ?s) i = (i = tid \<or> dm_contains (meta_cache s) i)" for i
      using True by (auto simp: claim_transfer_def in_cache_def dm_contains_def)
    have same: "meta_table ?s = meta_table s" "chunk_table ?s = chunk_table s" "config ?s = config s"
      "reserved_bytes ?s = reserved_bytes s" "transfer_count ?s = transfer_count s"
      by (subst s(1), simp)+
    have "files_inv E B M ?s (ds[t := ?d])"
    proof (rule files_inv_ram [OF t(3,1,2) same(1-3)])
      show "owed (holds i) ds + holds i ?d + in_table E s i \<le> in_cache ?s i + holds i no_file_debt"
        if "owed (holds i) ds + in_table E s i \<le> in_cache s i" for i
        using that s(4) by (cases "i = tid") (auto simp: s(3) holds_def no_file_debt_def)
    qed (use same tid s(5) in \<open>auto simp: no_file_debt_def\<close>)
    with assms(4) True s(2) show ?thesis by auto
  next
    case False
    then have "fst ?C = s" "snd ?C = Inr False \<or> (\<exists>e. snd ?C = Inl e)"
      by (auto simp: claim_transfer_def split: option.split)
    moreover have "ds[t := no_file_debt] = ds" using t(2) by (metis list_update_id)
    ultimately show ?thesis using assms(2,3) t(3) by (intro exI [of _ no_file_debt]) auto
  qed
qed

lemma files_store_chunk:
  assumes tid: "CHR '':'' \<notin> set tid" and len: "length data < usize_modulus"
  shows "settles (files_inv E B M) no_file_debt (store_chunk_prog E io t1 t2 tid ci tc tb data)"
  unfolding store_chunk_prog_def Let_def
proof (intro settles_bind [OF settles_read] settles_if settles_return)
  fix cfg
  assume ok: "\<not> (data = [] \<or> tc = 0 \<or> max_chunks cfg < tc \<or> tc \<le> ci)"
  then have ci: "ci \<noteq> - 1" by (metis word_order.extremum)
  have data: "data \<noteq> []" using ok by simp
  show "settles (files_inv E B M) no_file_debt
    (bind (atomic (claim_transfer t1 tid ci tc tb)) (\<lambda>claim. case claim of Inl e \<Rightarrow> Return (Inl e)
       | Inr creating \<Rightarrow>
           if creating then create_prog E io t2 tid ci tc tb data (of_nat (length data))
           else write_chunk_prog E io t2 tid ci tc tb data (of_nat (length data)) False))"
    unfolding settles_def
  proof (rule files_claim [OF tid])
    have "upholds (files_inv E B M) (\<lambda>d' x. d' = no_file_debt) no_file_debt
      (write_chunk_prog E io t2 tid ci tc tb data (of_nat (length data)) False)"
      by (rule upholds_Fin [OF files_write_chunk [OF tid data len ci]]) (simp_all add: no_file_debt_def)
    then show "upholds (files_inv E B M) (\<lambda>d' x. d' = no_file_debt) no_file_debt (case Inr False of Inl e \<Rightarrow> Return (Inl e)
       | Inr creating \<Rightarrow>
           if creating then create_prog E io t2 tid ci tc tb data (of_nat (length data))
           else write_chunk_prog E io t2 tid ci tc tb data (of_nat (length data)) False)" by simp
  qed (use ci in \<open>auto intro: upholds.return files_create [OF tid data len]\<close>)
qed


section \<open>Deletions\<close>

lemma files_delete:
  assumes tid: "CHR '':'' \<notin> set tid"
  shows "settles (files_inv E B M) no_file_debt (delete_prog E io tid)"
  unfolding delete_prog_def
proof (rule settles_if)
  show "settles (files_inv E B M) no_file_debt
    (bind (atomic (delete_txn E tid)) (\<lambda>(existed, stored).
        if existed
        then bind (update (uncache tid)) (\<lambda>_. bind (update release_slot) (\<lambda>_.
          bind (update (release_bytes stored)) (\<lambda>_. Return (Some True))))
        else Return (Some False)))" (is "settles _ _ (bind _ ?k)")
    unfolding settles_def
  proof (rule upholds_atomic_bind)
    fix s :: "('m, 'c) file_store" and ds t
    assume t: "t < length ds" "ds ! t = no_file_debt" "files_inv E B M s ds"
    note I = files_invD [OF t(3)]
    obtain s' existed stored where D: "delete_txn E tid s = (s', existed, stored)" using prod_cases3 by blast
    let ?d = "if existed then \<lparr>fd_bytes = unat stored, fd_slots = 1, fd_id = Some tid\<rparr> else no_file_debt"
    have tabs: "meta_table s' = t_remove (f_meta E) tid (meta_table s)"
      "chunk_table s' = t_remove_all (f_chunks E)
         (map fst (t_range (f_chunks E) (tid @ '':'') (tid @ '';'') (chunk_table s))) (chunk_table s)"
      and same: "config s' = config s" "meta_cache s' = meta_cache s" "reserved_bytes s' = reserved_bytes s"
        "transfer_count s' = transfer_count s"
      and ex: "existed \<longleftrightarrow> meta_at E s tid \<noteq> None"
        "stored = (case meta_at E s tid of Some m \<Rightarrow> m_stored_bytes m | None \<Rightarrow> 0)"
      using D stored_row [OF I(1), of tid]
      by (auto simp: delete_txn_def chunk_bounds_def Let_def meta_at_def split: option.splits)
    note P = disk_delete [OF I(1) tid tabs]
    have "files_inv E B M s' (ds[t := ?d])"
    proof (rule files_inv_update [OF t(3,1,2) P(1) same(1)])
      show "unat (reserved_bytes s') + disk_bytes E s + fd_bytes no_file_debt
          = unat (reserved_bytes s) + disk_bytes E s' + fd_bytes ?d"
        using P(4) ex by (auto simp: same no_file_debt_def split: option.splits)
      show "transfer_count s' + disk_rows E s + fd_slots no_file_debt
          = transfer_count s + disk_rows E s' + fd_slots ?d"
        using P(5) ex(1) by (auto simp: same no_file_debt_def)
      show "owed (holds i) ds + holds i ?d + in_table E s' i \<le> in_cache s' i + holds i no_file_debt"
        if "owed (holds i) ds + in_table E s i \<le> in_cache s i" for i
        using that ex(1) by (auto simp: P(2) in_table_def in_cache_def same holds_def no_file_debt_def split: if_splits)
    qed (use same in auto)
    moreover have "upholds (files_inv E B M) (\<lambda>d' x. d' = no_file_debt) ?d (?k (existed, stored))"
    proof (cases existed)
      case True
      then show ?thesis
        by (simp, intro files_uncache files_release_slot files_release_bytes)
          (simp_all add: no_file_debt_def upholds.return)
    qed (simp add: upholds.return)
    ultimately show "\<exists>d'. upholds (files_inv E B M) (\<lambda>d' x. d' = no_file_debt) d' (?k (snd (delete_txn E tid s)))
        \<and> files_inv E B M (fst (delete_txn E tid s)) (ds[t := d'])"
      unfolding D by auto
  qed
qed simp

lemma files_delete_all:
  "(\<And>i. i \<in> set ids \<Longrightarrow> CHR '':'' \<notin> set i) \<Longrightarrow> settles (files_inv E B M) no_file_debt (delete_all_prog E io ids n)"
proof (induction ids arbitrary: n)
  case (Cons i ids)
  then show ?case by (auto intro!: settle_rules files_delete)
qed simp

lemma files_sweep: "settles (files_inv E B M) no_file_debt (sweep_files_prog E io now)"
  unfolding sweep_files_prog_def
proof (rule settles_atomic_bind)
  fix s :: "('m, 'c) file_store" and ds
  assume inv: "files_inv E B M s ds"
  have "CHR '':'' \<notin> set i" if "i \<in> fst ` set (meta_cache s)" for i
  proof -
    have "dm_get (meta_cache s) i \<noteq> None" using that by (auto simp: map_of_eq_None_iff)
    then show ?thesis using files_invD(11) [OF inv] by (simp add: dm_contains_def)
  qed
  then have "settles (files_inv E B M) no_file_debt
      (delete_all_prog E io (map fst (filter (\<lambda>(k, m). transfer_expired (config s) now m) (meta_cache s))) 0)"
    by (intro files_delete_all) auto
  with inv show "files_inv E B M (fst (s, map fst (filter (\<lambda>(k, m). transfer_expired (config s) now m) (meta_cache s)))) ds
    \<and> settles (files_inv E B M) no_file_debt
      (delete_all_prog E io (snd (s, map fst (filter (\<lambda>(k, m). transfer_expired (config s) now m) (meta_cache s)))) 0)"
    by simp
qed

lemma files_fetch: "settles (files_inv E B M) d (fetch_chunk_prog E io tid ci)"
  unfolding fetch_chunk_prog_def by (intro settle_rules)

end

end
