(* ===== verification/FileTasks.thy ===== *)
theory FileTasks
  imports FileCaps Concurrency
begin

text \<open>
  The file store under the tasks of the relay: the frames that upload, fetch and delete, and the
  file sweep, run on the store in steps; every other task leaves it alone. In every interleaving the
  tables are consistent, the counters bound what they hold, and no transfer is out of the sweep's
  reach.
\<close>


section \<open>Tasks that leave the files alone\<close>

lemma leaves_on_queue [leave_rules]: "leaves files (on_queue p)"
  unfolding on_queue_def by (rule leaves_part) simp

lemma leaves_updates [leave_rules]:
  "leaves files (update (mark_auth_dirty r))" "leaves files (update (mark_bundle_dirty r))"
  "leaves files (update release_mailbox)"
  "leaves files (update (\<lambda>s. s\<lparr>online := h1 s\<rparr>))" "leaves files (update (\<lambda>s. s\<lparr>send_rate := h2 s\<rparr>))"
  "leaves files (update (\<lambda>s. s\<lparr>last_bundle_prune_ms := h3 s\<rparr>))"
  "leaves files (update (\<lambda>s. s\<lparr>total_bundle_bytes := h4 s\<rparr>))"
  "leaves files (update (\<lambda>s. s\<lparr>dirty_auth := h5 s\<rparr>))" "leaves files (update (\<lambda>s. s\<lparr>dirty_bundles := h6 s\<rparr>))"
  "leaves files (update (\<lambda>s. s\<lparr>conn_count := h7 s\<rparr>))"
  by (simp_all add: leaves_update mark_auth_dirty_def mark_bundle_dirty_def release_mailbox_def)

lemma leaves_steps [leave_rules]:
  "leaves files (atomic (hello_entry W i rid ah dh pow))" "leaves files (atomic (authorize_send W i to tok))"
  "leaves files (atomic (allow_dest_send now to))" "leaves files (atomic (remove_auth rid))"
  "leaves files (atomic (remove_idle now rid))" "leaves files (atomic (write_auths E io ab))"
  "leaves files (atomic (write_bundles E io bb))"
  "leaves files (atomic (\<lambda>s. (s\<lparr>bundles := g1 s\<rparr>, g2 s)))"
  "leaves files (atomic (\<lambda>s. (s\<lparr>conn_count := g3 s\<rparr>, g4 s)))"
  by (auto intro!: leaves_atomic simp: hello_entry_def authorize_send_def allow_dest_send_def remove_auth_def
      remove_idle_def write_auths_def write_bundles_def reserve_mailbox_slot_def Let_def split: option.split prod.split)

lemma leaves_frames:
  "leaves files (hello_prog W i rid at dt pmin pmax pver pow co c)"
  "leaves files (set_delivery_tokens_prog W r toks c)" "leaves files (ack_frame_prog W i ids c)"
  "leaves files (retire_prog W i c)" "leaves files (send_prog W i cref to tok ety ctext c)"
  "leaves files (upload_bundle_prog W i r bid ctext ex pow c)" "leaves files (fetch_bundle_prog i r bid c)"
proof -
  have loop: "leaves files (prune_loop expired freed)" for expired freed
    by (induction expired freed rule: prune_loop.induct) (auto intro!: leave_rules)
  have prune: "leaves files (prune_prog now)" for now
    unfolding prune_prog_def by (intro leave_rules loop)
  show "leaves files (upload_bundle_prog W i r bid ctext ex pow c)" "leaves files (fetch_bundle_prog i r bid c)"
    unfolding upload_bundle_prog_def fetch_bundle_prog_def Let_def by (intro leave_rules prune)+
  show "leaves files (set_delivery_tokens_prog W r toks c)"
    unfolding set_delivery_tokens_prog_def
    by (intro leave_rules leaves_atomic) (auto simp: Let_def split: option.split)
  show "leaves files (send_prog W i cref to tok ety ctext c)"
    unfolding send_prog_def deliver_prog_def Let_def by (intro leave_rules)
  show "leaves files (hello_prog W i rid at dt pmin pmax pver pow co c)" "leaves files (ack_frame_prog W i ids c)"
    "leaves files (retire_prog W i c)"
    unfolding hello_prog_def ack_frame_prog_def retire_prog_def Let_def by (intro leave_rules)+
qed

lemma leaves_background:
  "leaves files (flusher_prog E ticks)" "leaves files (gc_prog E io now)" "leaves files (queue_sweep_prog E qio now)"
proof -
  have take: "leaves files (take_auths ks ab)" "leaves files (take_bundles ks bb)" for ks ab bb
    by (induction ks ab rule: take_auths.induct; auto intro!: leave_rules)
      (induction ks bb rule: take_bundles.induct; auto intro!: leave_rules)
  show "leaves files (flusher_prog E ticks)"
    by (induction E ticks rule: flusher_prog.induct)
      (auto simp: flush_tick_prog_def flush_meta_prog_def intro!: leave_rules take)
  have stale: "leaves files (stale_prog E io rids st)" for rids st
    by (induction E io rids st rule: stale_prog.induct) (auto intro!: leave_rules)
  have collect: "leaves files (collect_prog E io now st)" for st
    by (induction E io now st rule: collect_prog.induct) (auto intro!: leave_rules)
  show "leaves files (gc_prog E io now)" "leaves files (queue_sweep_prog E qio now)"
    unfolding gc_prog_def queue_sweep_prog_def by (intro leave_rules stale collect)+
qed


section \<open>Every task\<close>

definition task_files ::
    "('t, 'b, 'c) ws_env \<Rightarrow> u64 \<Rightarrow> usize \<Rightarrow> ('t, 'c) app_state \<Rightarrow> file_debt list \<Rightarrow> bool" where
  "task_files W B M s = files_inv (a_files (w_app W)) B M (files s)"

lemma leaves_task_files: "leaves files p \<Longrightarrow> settles (task_files W B M) d p"
  unfolding task_files_def [abs_def] by (rule leaves_settles)

lemma task_files_part: "settles (files_inv (a_files (w_app W)) B M) d p \<Longrightarrow> settles (task_files W B M) d (on_files p)"
  unfolding task_files_def [abs_def] on_files_def by (rule settles_on_part) simp_all

context relay_backend
begin

lemma files_frame:
  assumes "length (payload f) < usize_modulus"
  shows "settles (task_files W B M) no_file_debt (frame_prog W i f c)"
proof (cases f)
  case (UploadFileChunk r tid ci tc tb ct pow)
  have "settles (task_files W B M) no_file_debt (upload_chunk_prog W i r tid ci tc tb ct pow c)"
    unfolding upload_chunk_prog_def
  proof (intro settles_if settles_return)
    assume "\<not> \<not> valid_bundle_id tid"
    then have tid: "CHR '':'' \<notin> set tid" by (simp add: valid_ids_no_colon)
    show "settles (task_files W B M) no_file_debt
       (case b64_decode W ct of
          None \<Rightarrow> Return [(tx c, file_err r tid ''bad_request'' ''invalid chunk encoding'')]
        | Some raw \<Rightarrow> if ci = 0 \<and> \<not> pow_valid W i tid pow
            then Return [(tx c, file_err r tid ''pow_required'' ''invalid proof of work for new file transfer'')]
            else bind (on_files (store_chunk_prog (a_files E) (i_cio i) (i_clock i 1) (i_clock i 2) tid ci tc tb raw))
              (\<lambda>ra. Return (case ra of
                  Inl reject \<Rightarrow> [(tx c, file_err r tid (reject_code reject) (reject_message reject))]
                | Inr stored \<Rightarrow> [(tx c, FileChunkStored r tid ci (sc_received_chunks stored) (sc_total_chunks stored))])))"
    proof (cases "b64_decode W ct")
      case (Some raw)
      then have "length raw < usize_modulus" using b64_bounded assms UploadFileChunk by fastforce
      with Some show ?thesis by (auto intro!: settle_rules task_files_part fb.files_store_chunk tid)
    qed simp
  qed
  with UploadFileChunk show ?thesis by (auto simp: goes_on_def intro!: settle_rules)
next
  case (FetchFileChunk r tid ci)
  then show ?thesis
    by (auto simp: goes_on_def fetch_file_prog_def intro!: settle_rules task_files_part fb.files_fetch)
next
  case (DeleteTransfer r tid)
  then show ?thesis
    by (auto simp: goes_on_def delete_transfer_prog_def dest: valid_ids_no_colon(2)
        intro!: settle_rules task_files_part fb.files_delete)
qed (auto simp: goes_on_def intro!: leaves_task_files leave_rules leaves_frames)

lemma files_text: "settles (task_files W B M) no_file_debt (text_prog W i msg c)"
  unfolding text_prog_def Let_def
proof (intro settles_if settles_return)
  assume "\<not> MAX_FRAME_BYTES < length msg"
  then have "length (payload f) < usize_modulus" if "w_json W msg = Inr f" for f
    using json_bounded [OF that] by (simp add: config_defs usize_modulus_def)
  then show "settles (task_files W B M) no_file_debt
     (case w_json W msg of
        Inl e \<Rightarrow> Return (count_frame (i_clock i 0) c, [(tx (count_frame (i_clock i 0) c), err ''bad_json'' e)], False)
      | Inr frame \<Rightarrow> frame_prog W i frame (count_frame (i_clock i 0) c))"
    by (cases "w_json W msg") (auto intro: files_frame)
qed

lemma files_task: "settles (task_files W B M) no_file_debt (task_prog W task)"
proof (cases task)
  case (Socket now ch texts)
  have serve: "settles (task_files W B M) no_file_debt (serve_prog W texts c)" for c
  proof (induction texts arbitrary: c)
    case (Cons x texts)
    then show ?case by (cases x) (auto intro!: settle_rules files_text)
  qed simp
  have "leaves files (open_prog now ch)" "leaves files (close_prog c)" for c
    unfolding open_prog_def close_prog_def by (intro leave_rules)+
  then show ?thesis
    unfolding Socket task_prog.simps socket_prog_def
    by (intro settle_rules serve leaves_task_files)
next
  case (FileAging io now)
  then show ?thesis
    by (auto simp: file_sweep_prog_def intro!: settle_rules task_files_part fb.files_sweep)
qed (auto intro!: leaves_task_files leaves_background)

end


section \<open>The store in every interleaving\<close>

definition byte_bound :: "('m, 'c) file_store \<Rightarrow> u64" where
  "byte_bound s = max (reserved_bytes s) (max_total_file_bytes (config s))"

definition slot_bound :: "('m, 'c) file_store \<Rightarrow> usize" where
  "slot_bound s = max (transfer_count s) (max_transfers (config s))"

lemma owed_nothing [simp]:
  "owed fd_bytes (replicate n no_file_debt) = 0" "owed fd_slots (replicate n no_file_debt) = 0"
  "owed (holds i) (replicate n no_file_debt) = 0"
  by (simp_all add: owed_def sum_list_replicate no_file_debt_def holds_def)

lemma files_at_rest:
  assumes "file_backend E" "file_inv E s"
  shows "files_inv E (byte_bound s) (slot_bound s) s (replicate n no_file_debt)"
proof -
  note I = file_invD [OF assms(2)]
  have "in_table E s i \<le> in_cache s i" for i
    using I(4) [of i] by (auto simp: in_table_def in_cache_def dm_contains_def option_rel_Some2)
  moreover have "CHR '':'' \<notin> set i" if "dm_contains (meta_cache s) i" for i
    using that file_backend.cached_id_ok [OF assms] by (auto simp: dm_contains_def)
  ultimately show ?thesis
    using I(1,7-9) file_inv_disk [OF assms(2)]
    by (auto simp: files_inv_def disk_bytes_def disk_rows_def
        byte_bound_def slot_bound_def config_ok_def)
qed

lemma files_of_tasks:
  fixes W :: "('t, 'b, 'c) ws_env"
  assumes W: "relay_backend W" and inv: "file_inv (a_files (w_app W)) (files s)"
    and run: "interleave sched (s, map (task_prog W) tasks) = (s', ps)"
  obtains ds where
    "files_inv (a_files (w_app W)) (byte_bound (files s)) (slot_bound (files s)) (files s') ds"
    "all_done ps \<Longrightarrow> owed fd_bytes ds = 0" "all_done ps \<Longrightarrow> owed fd_slots ds = 0"
proof -
  let ?Inv = "task_files W (byte_bound (files s)) (slot_bound (files s))"
  let ?Fin = "\<lambda>d (x :: outputs). d = no_file_debt" and ?ds = "replicate (length tasks) no_file_debt"
  have "file_backend (a_files (w_app W))" using W by (simp add: relay_backend_def app_backend_def)
  then have "?Inv s ?ds" unfolding task_files_def using inv by (rule files_at_rest)
  moreover have "list_all2 (upholds ?Inv ?Fin) ?ds (map (task_prog W) tasks)"
    using relay_backend.files_task [OF W] by (simp add: list_all2_conv_all_nth settles_def)
  ultimately obtain ds where ds: "?Inv s' ds" "list_all2 (upholds ?Inv ?Fin) ds ps"
    using upholds_interleave [OF _ _ run] by blast
  have "d = no_file_debt" if "all_done ps" "d \<in> set ds" for d
    using ds(2) that
  proof (induction rule: list_all2_induct)
    case (Cons d' ds p ps)
    from Cons.prems Cons.hyps(1) have "d' = no_file_debt"
      by (cases p) (auto simp: all_done_ended ended_def elim: upholds_ReturnE)
    with Cons show ?case by (auto simp: all_done_ended)
  qed simp
  then have "all_done ps \<Longrightarrow> owed f ds = 0" if "f no_file_debt = 0" for f
    using that by (auto simp: owed_def)
  then show thesis
    using that ds(1) by (simp add: task_files_def no_file_debt_def)
qed

text \<open>
  C8: when uploads, fetches, deletions and sweeps interleave in any way, the tables stay consistent:
  every chunk belongs to a stored transfer, and a transfer's metadata counts exactly its chunks
  and their bytes. What is on disk never exceeds the byte counter, nor the number of transfers
  their counter, and the counters never exceed the operator's caps (or where they stood before,
  if that was higher). Every stored transfer is in the cache, where fetches and the sweep find it.
  Once all tasks have ended, which no order of steps can prevent, the counters are exact.
\<close>

theorem concurrent_files:
  fixes W :: "('t, 'b, 'c) ws_env"
  defines "E \<equiv> a_files (w_app W)"
  assumes "relay_backend W" "file_inv E (files s)" "interleave sched (s, map (task_prog W) tasks) = (s', ps)"
  shows "(\<forall>tid m. meta_at E (files s') tid = Some m \<longrightarrow> dm_contains (meta_cache (files s')) tid
        \<and> unat (m_stored_bytes m) = chunk_bytes E (chunk_table (files s')) tid
        \<and> unat (m_received_chunks m) = chunk_count E (chunk_table (files s')) tid)
    \<and> (\<forall>tid i. chunk_at E (files s') tid i \<noteq> None \<longrightarrow> meta_at E (files s') tid \<noteq> None)
    \<and> disk_bytes E (files s') \<le> unat (reserved_bytes (files s'))
    \<and> reserved_bytes (files s') \<le> max (reserved_bytes (files s)) (max_total_file_bytes (config (files s)))
    \<and> disk_rows E (files s') \<le> transfer_count (files s')
    \<and> transfer_count (files s') \<le> max (transfer_count (files s)) (max_transfers (config (files s)))
    \<and> (\<exists>more s'' ps''. interleave more (s', ps) = (s'', ps'') \<and> all_done ps''
         \<and> unat (reserved_bytes (files s'')) = disk_bytes E (files s'')
         \<and> transfer_count (files s'') = disk_rows E (files s''))"
proof -
  have FB: "file_backend E" using assms(2) by (simp add: E_def relay_backend_def app_backend_def)
  obtain ds where "files_inv E (byte_bound (files s)) (slot_bound (files s)) (files s') ds"
    using files_of_tasks [OF assms(2-4) [unfolded E_def]] unfolding E_def by blast
  note I = files_invD [OF this]
  have cached: "dm_contains (meta_cache (files s')) tid" if "meta_at E (files s') tid = Some m" for tid m
    using I(10) [of tid] that by (auto simp: in_table_def in_cache_def split: if_splits)
  have row: "meta_at E (files s') tid \<noteq> None" if held: "chunk_at E (files s') tid i \<noteq> None" for tid i
  proof -
    obtain v where "t_get (f_chunks E) (chunk_table (files s')) (chunk_key tid i) = Some v"
      using held by (auto simp: chunk_at_def)
    from disk_invD(3) [OF I(1) this] obtain t j
      where t: "chunk_key tid i = chunk_key t j" "meta_at E (files s') t \<noteq> None" by blast
    then have "CHR '':'' \<notin> set t" using file_backend.stored_id_ok [OF FB I(1)] by blast
    with t show ?thesis using chunk_key_inject_left [of t tid i j] by simp
  qed
  obtain more s'' ps'' where more: "interleave more (s', ps) = (s'', ps'')" "all_done ps''"
    using tasks_can_end [of s' ps] by metis
  then have "interleave (sched @ more) (s, map (task_prog W) tasks) = (s'', ps'')"
    using assms(4) by (simp add: interleave_append)
  then obtain ds' where "files_inv E (byte_bound (files s)) (slot_bound (files s)) (files s'') ds'"
    "owed fd_bytes ds' = 0" "owed fd_slots ds' = 0"
    using files_of_tasks [OF assms(2,3) [unfolded E_def]] more(2) unfolding E_def by metis
  then have "unat (reserved_bytes (files s'')) = disk_bytes E (files s'')
      \<and> transfer_count (files s'') = disk_rows E (files s'')"
    using files_invD(3,6) by fastforce
  with more cached row disk_invD(2) [OF I(1)] I(3,4,6,7) show ?thesis
    unfolding byte_bound_def slot_bound_def by (fastforce simp: meta_ok_def)
qed

text \<open>Two sockets upload the first chunk of the same transfer while the sweep runs.\<close>

definition file_tasks :: "task list" where
  "file_tasks = [Socket 86400000 1 [(in1, ''chunk'')], Socket 86400000 2 [(in1, ''chunk'')],
     FileAging (\<lambda>_. io_fine) 86400000]"

lemma app0_files: "file_inv (a_files (w_app ref_ws)) (files app0)"
  using state_okD(6) [OF relay_invD(1) [OF relay0_inv [of True]]] by (simp add: relay0_def)

theorem concurrent_files_witness:
  "reserved_bytes (files (fst (interleave [0, 1, 0, 1, 2, 0, 1, 0, 1, 2] (app0, map (task_prog ref_ws) file_tasks)))) \<le> 250
   \<and> transfer_count (files (fst (interleave [0, 1, 0, 1, 2, 0, 1, 0, 1, 2] (app0, map (task_prog ref_ws) file_tasks)))) \<le> 3"
proof -
  obtain s' ps where run: "interleave [0, 1, 0, 1, 2, 0, 1, 0, 1, 2] (app0, map (task_prog ref_ws) file_tasks) = (s', ps)"
    using prod.exhaust by blast
  have "max (reserved_bytes (files app0)) (max_total_file_bytes (config (files app0))) = 250"
    "max (transfer_count (files app0)) (max_transfers (config (files app0))) = 3"
    by (simp_all add: app0_def small_config_def)
  then show ?thesis unfolding run using concurrent_files [OF ref_relay_backend app0_files run] by simp
qed

end
