(* ===== verification/FileKept.thy ===== *)
theory FileKept
  imports FileTasks Replies
begin

text \<open>
  An uploaded chunk under the tasks of the relay: once a socket has been told that its chunk is
  stored, the chunk stays fetchable while the other tasks go on, if none of them deletes its transfer,
  puts other bytes at its index or finds it expired. The invariant follows the transfer's cache
  entry, its metadata and the chunk; each task has a flag, whether it has stored the chunk.
\<close>


section \<open>The invariant\<close>

text \<open>The upload that is followed: its transfer and declared shape, the chunk, and a time it is not older than.\<close>

record upload =
  u_tid :: string
  u_index :: u32
  u_data :: bytes
  u_chunks :: u32
  u_bytes :: u64
  u_since :: u64

definition entry_ok :: "upload \<Rightarrow> file_meta \<Rightarrow> bool" where
  "entry_ok u c \<longleftrightarrow> m_total_chunks c = u_chunks u \<and> m_total_bytes c = u_bytes u \<and> u_since u \<le> m_created_at_ms c"

definition kept_inv ::
    "('m, 'b, 'c) file_env \<Rightarrow> file_config \<Rightarrow> upload \<Rightarrow> ('m, 'c) file_store \<Rightarrow> bool list \<Rightarrow> bool" where
  "kept_inv E cfg u s ds \<longleftrightarrow> config s = cfg \<and> dm_wf (meta_cache s)
     \<and> (\<forall>c. dm_get (meta_cache s) (u_tid u) = Some c \<longrightarrow> entry_ok u c)
     \<and> (\<forall>m. meta_at E s (u_tid u) = Some m \<longrightarrow> u_since u \<le> m_created_at_ms m)
     \<and> (True \<in> set ds \<longrightarrow> chunk_at E s (u_tid u) (u_index u) = Some (u_data u) \<and> meta_at E s (u_tid u) \<noteq> None)"

lemma kept_ram:
  assumes "kept_inv E cfg u s ds" "meta_table s' = meta_table s" "chunk_table s' = chunk_table s"
    "config s' = config s" "dm_wf (meta_cache s) \<Longrightarrow> dm_wf (meta_cache s')"
    "\<And>c. dm_get (meta_cache s') (u_tid u) = Some c \<Longrightarrow> dm_get (meta_cache s) (u_tid u) = Some c \<or> entry_ok u c"
  shows "kept_inv E cfg u s' ds"
  using assms(1,4-6) unfolding kept_inv_def disk_same(4,5) [OF assms(2,3)] by auto

lemma kept_steps [settle_rules]:
  "settles (kept_inv E cfg u) d (update (release_bytes n))" "settles (kept_inv E cfg u) d (update release_slot)"
  "settles (kept_inv E cfg u) d (atomic reserve_slot)" "settles (kept_inv E cfg u) d (update (uncache i))"
  "settles (kept_inv E cfg u) d (release_if n)"
proof -
  show R: "settles (kept_inv E cfg u) d (update (release_bytes n))"
    by (intro settles_update, erule kept_ram) (simp_all add: release_bytes_def)
  then show "settles (kept_inv E cfg u) d (release_if n)" by (simp add: release_if_def)
  show "settles (kept_inv E cfg u) d (update release_slot)"
    by (intro settles_update, erule kept_ram) (simp_all add: release_slot_def)
  show "settles (kept_inv E cfg u) d (atomic reserve_slot)"
    by (intro settles_atomic, erule kept_ram) (auto simp: reserve_slot_def split: if_splits)
  show "settles (kept_inv E cfg u) d (update (uncache i))"
    by (intro settles_update, erule kept_ram) (simp_all add: uncache_def split: if_splits)
qed

lemma kept_mirror:
  fixes E :: "('m, 'b, 'c) file_env"
  assumes "i = u_tid u \<Longrightarrow> tc = u_chunks u \<and> tb = u_bytes u \<and> u_since u \<le> m_created_at_ms m"
  shows "settles (kept_inv E cfg u) d (update (mirror_meta i tc tb m))"
proof (rule settles_update)
  fix s :: "('m, 'c) file_store" and ds
  assume inv: "kept_inv E cfg u s ds"
  have "entry_ok u (cache_entry tc tb m (dm_get (meta_cache s) i))" if i: "i = u_tid u"
    using assms [OF i] inv i
    by (cases "dm_get (meta_cache s) i") (auto simp: cache_entry_def entry_ok_def kept_inv_def)
  then show "kept_inv E cfg u (mirror_meta i tc tb m s) ds"
    by (intro kept_ram [OF inv]) (auto simp: mirror_meta_def split: if_splits)
qed


section \<open>Storing a chunk\<close>

text \<open>What an upload may do to the transfer that is followed.\<close>

definition upload_fits :: "upload \<Rightarrow> u64 \<Rightarrow> u64 \<Rightarrow> string \<Rightarrow> u32 \<Rightarrow> u32 \<Rightarrow> u64 \<Rightarrow> bytes \<Rightarrow> bool" where
  "upload_fits u t1 t2 i j tc tb data \<longleftrightarrow> (i = u_tid u \<longrightarrow> tc = u_chunks u \<and> tb = u_bytes u
     \<and> u_since u \<le> t1 \<and> u_since u \<le> t2 \<and> (j = u_index u \<longrightarrow> data = u_data u))"

lemma failed_commit_same:
  assumes "write_commit E io now tid ci tc tb data len creating s = (s', add, rel, Inl e)"
  shows "meta_table s' = meta_table s" "chunk_table s' = chunk_table s" "config s' = config s" "meta_cache s' = meta_cache s"
proof -
  have "add = 0 \<and> s' = s \<or> try_reserve_bytes add s = (s', Inr ())"
    using assms write_txn_reserved [of E io now tid ci tc tb data len creating s]
    by (auto simp: write_commit_def split: if_splits prod.splits sum.splits)
  then show "meta_table s' = meta_table s" "chunk_table s' = chunk_table s" "config s' = config s" "meta_cache s' = meta_cache s"
    by (auto simp: try_reserve_bytes_def Let_def split: if_splits)
qed

context file_backend
begin

lemma commit_tables:
  assumes tid: "CHR '':'' \<notin> set tid"
    and w: "write_commit E io now tid ci tc tb data len creating s = (s', add, rel, Inr m)"
  shows "meta_at E s' = (meta_at E s)(tid \<mapsto> m)"
    "chunk_at E s' = (chunk_at E s)(tid := (chunk_at E s tid)(ci \<mapsto> data))"
    "config s' = config s" "meta_cache s' = meta_cache s"
    "m_created_at_ms m = now \<or> (\<exists>m0. meta_at E s tid = Some m0 \<and> m_created_at_ms m = m_created_at_ms m0)"
proof -
  obtain s1 mt ct where t: "write_txn E io now tid ci tc tb data len creating s = (s1, add, rel, Inr (mt, ct, m))"
    and s': "s' = s1\<lparr>meta_table := mt, chunk_table := ct\<rparr>"
    using w by (auto simp: write_commit_def split: if_splits prod.splits sum.splits)
  obtain m0 where m: "start_meta E now tid tc tb creating s = Some m0" "m = updated_meta (of_nat (old_len E s tid ci)) len m0"
    "mt = t_insert (f_meta E) tid (enc (f_codec E) m) (meta_table s)"
    "ct = t_insert (f_chunks E) (chunk_key tid ci) data (chunk_table s)"
    using write_txn_Inr [OF t] by metis
  show "meta_at E s' = (meta_at E s)(tid \<mapsto> m)"
    by (auto simp: meta_at_def s' m(3) mt.get_insert cod.dec_enc)
  show "chunk_at E s' = (chunk_at E s)(tid := (chunk_at E s tid)(ci \<mapsto> data))"
    by (auto simp: chunk_at_def s' m(4) ct.get_insert chunk_key_inject_left [OF tid] fun_eq_iff)
  show "config s' = config s" "meta_cache s' = meta_cache s"
    using write_txn_reserved [OF t] by (auto simp: s' try_reserve_bytes_def Let_def split: if_splits)
  show "m_created_at_ms m = now \<or> (\<exists>m0. meta_at E s tid = Some m0 \<and> m_created_at_ms m = m_created_at_ms m0)"
    using m(1) by (auto simp: m(2) updated_meta_def start_meta_def split: if_splits)
qed

lemma kept_commit:
  assumes i: "CHR '':'' \<notin> set i" and fits: "upload_fits u t1 now i j tc tb data"
    and fail: "\<And>add rel e. upholds (kept_inv E cfg u) Fin d (k (add, rel, Inl e))"
    and fine: "\<And>add rel m. (i = u_tid u \<Longrightarrow> u_since u \<le> m_created_at_ms m) \<Longrightarrow>
      upholds (kept_inv E cfg u) Fin (d \<or> i = u_tid u \<and> j = u_index u) (k (add, rel, Inr m))"
  shows "upholds (kept_inv E cfg u) Fin d (bind (atomic (write_commit E io now i j tc tb data len creating)) k)"
proof (rule upholds_atomic_bind)
  fix s :: "('m, 'c) file_store" and ds t
  assume t: "t < length ds" "ds ! t = d" "kept_inv E cfg u s ds"
  let ?W = "write_commit E io now i j tc tb data len creating s"
  obtain s' add rel r where W: "?W = (s', add, rel, r)" using prod_cases4 by blast
  show "\<exists>d'. upholds (kept_inv E cfg u) Fin d' (k (snd ?W)) \<and> kept_inv E cfg u (fst ?W) (ds[t := d'])"
  proof (cases r)
    case (Inl e)
    note F = failed_commit_same [OF W [unfolded Inl]]
    have "kept_inv E cfg u s' ds" by (rule kept_ram [OF t(3)]) (simp_all add: F)
    moreover have "ds[t := d] = ds" unfolding t(2) [symmetric] by (rule list_update_id)
    ultimately show ?thesis using fail by (intro exI [of _ d]) (simp add: W Inl)
  next
    case (Inr m)
    note C = commit_tables [OF i W [unfolded Inr]]
    have since: "u_since u \<le> m_created_at_ms m" if "i = u_tid u"
      using C(5) t(3) fits that by (auto simp: kept_inv_def upload_fits_def)
    let ?d = "d \<or> i = u_tid u \<and> j = u_index u"
    have flag: "True \<in> set (ds[t := ?d]) \<Longrightarrow> True \<in> set ds \<or> i = u_tid u \<and> j = u_index u"
      using set_update_subset_insert [of ds t ?d] t(1,2) by (auto dest: nth_mem)
    have "kept_inv E cfg u s' (ds[t := ?d])"
      unfolding kept_inv_def
    proof (intro conjI allI impI)
      show "u_since u \<le> m_created_at_ms m'" if "meta_at E s' (u_tid u) = Some m'" for m'
        using that since t(3) by (auto simp: fun_cong [OF C(1)] kept_inv_def split: if_splits)
      assume "True \<in> set (ds[t := ?d])"
      with flag fits t(3) show "chunk_at E s' (u_tid u) (u_index u) = Some (u_data u)" "meta_at E s' (u_tid u) \<noteq> None"
        by (auto simp: fun_cong [OF C(1)] fun_cong [OF C(2)] kept_inv_def upload_fits_def)
    qed (use t(3) C(3,4) in \<open>auto simp: kept_inv_def\<close>)
    then show ?thesis using fine [OF since] by (intro exI [of _ ?d]) (simp add: W Inr)
  qed
qed

lemma kept_write_chunk:
  assumes "CHR '':'' \<notin> set i" "upload_fits u t1 now i j tc tb data"
  shows "upholds (kept_inv E cfg u) (\<lambda>d' r. d' = (d \<or> (i = u_tid u \<and> j = u_index u \<and> (\<exists>x. r = Inr x)))) d
    (write_chunk_prog E io now i j tc tb data len creating)"
  (is "upholds _ ?Fin d _")
  unfolding write_chunk_prog_def
proof (rule kept_commit [OF assms])
  show "upholds (kept_inv E cfg u) ?Fin d
      (case (add, rel, Inl e) of (add, rel, Inl e) \<Rightarrow> bind (release_if add) (\<lambda>_. Return (Inl e))
       | (add, rel, Inr m) \<Rightarrow> bind (release_if rel) (\<lambda>_. bind (update (mirror_meta i tc tb m)) (\<lambda>_.
           Return (Inr \<lparr>sc_received_chunks = m_received_chunks m, sc_total_chunks = tc\<rparr>))))" for add rel e
    by (simp, rule upholds_after [OF kept_steps(5)]) (simp add: upholds.return)
  fix add rel and m :: file_meta
  assume "i = u_tid u \<Longrightarrow> u_since u \<le> m_created_at_ms m"
  then have "settles (kept_inv E cfg u) d' (update (mirror_meta i tc tb m))" for d'
    using assms(2) by (intro kept_mirror) (auto simp: upload_fits_def)
  then show "upholds (kept_inv E cfg u) ?Fin (d \<or> i = u_tid u \<and> j = u_index u)
      (case (add, rel, Inr m) of (add, rel, Inl e) \<Rightarrow> bind (release_if add) (\<lambda>_. Return (Inl e))
       | (add, rel, Inr m) \<Rightarrow> bind (release_if rel) (\<lambda>_. bind (update (mirror_meta i tc tb m)) (\<lambda>_.
           Return (Inr \<lparr>sc_received_chunks = m_received_chunks m, sc_total_chunks = tc\<rparr>))))"
    by (simp, intro upholds_after [OF kept_steps(5)] upholds_after) (simp_all add: upholds.return)
qed

lemma kept_store_chunk:
  assumes "CHR '':'' \<notin> set i" "upload_fits u t1 t2 i j tc tb data"
  shows "upholds (kept_inv E cfg u) (\<lambda>d' r. d' = (d \<or> (i = u_tid u \<and> j = u_index u \<and> (\<exists>x. r = Inr x)))) d
    (store_chunk_prog E io t1 t2 i j tc tb data)"
  (is "upholds _ ?Fin d _")
proof -
  have claim: "settles (kept_inv E cfg u) d (atomic (claim_transfer t1 i j tc tb))"
  proof (rule settles_atomic)
    fix s :: "('m, 'c) file_store" and ds
    assume inv: "kept_inv E cfg u s ds"
    show "kept_inv E cfg u (fst (claim_transfer t1 i j tc tb s)) ds"
      by (rule kept_ram [OF inv])
        (use assms(2) in \<open>auto simp: claim_transfer_def upload_fits_def entry_ok_def split: option.splits if_splits\<close>)
  qed
  note W = kept_write_chunk [OF assms]
  have create: "upholds (kept_inv E cfg u) ?Fin d (create_prog E io t2 i j tc tb data len)" for len
    unfolding create_prog_def
  proof (rule upholds_after [OF kept_steps(3)])
    fix slot :: "file_reject + unit"
    have "upholds (kept_inv E cfg u) ?Fin d (bind (write_chunk_prog E io t2 i j tc tb data len True)
        (\<lambda>result. case result of
            Inl e \<Rightarrow> bind (update release_slot) (\<lambda>_. bind (update (uncache i)) (\<lambda>_. Return (Inl e)))
          | Inr r \<Rightarrow> Return (Inr r)))"
    proof (rule upholds_bind [OF W])
      fix d' and r :: "file_reject + stored_chunk"
      assume "?Fin d' r"
      then show "upholds (kept_inv E cfg u) ?Fin d' (case r of
            Inl e \<Rightarrow> bind (update release_slot) (\<lambda>_. bind (update (uncache i)) (\<lambda>_. Return (Inl e)))
          | Inr r \<Rightarrow> Return (Inr r))"
        by (cases r) (auto intro!: upholds.return upholds_after kept_steps)
    qed
    then show "upholds (kept_inv E cfg u) ?Fin d
      (case slot of Inl e \<Rightarrow> bind (update (uncache i)) (\<lambda>_. Return (Inl e))
        | Inr _ \<Rightarrow> bind (write_chunk_prog E io t2 i j tc tb data len True)
        (\<lambda>result. case result of
            Inl e \<Rightarrow> bind (update release_slot) (\<lambda>_. bind (update (uncache i)) (\<lambda>_. Return (Inl e)))
          | Inr r \<Rightarrow> Return (Inr r)))"
      by (cases slot) (auto intro!: upholds.return upholds_after kept_steps)
  qed
  show ?thesis
    unfolding store_chunk_prog_def Let_def
    by (intro upholds_after [OF settles_read] upholds_if upholds_after [OF claim])
      (auto intro!: upholds.return create W split: sum.split)
qed

text \<open>A deletion of another transfer leaves the chunk where it is.\<close>

lemma prefix_chunk_key_eq: "CHR '':'' \<notin> set t \<Longrightarrow> prefix (i @ '':'') (chunk_key t j) \<Longrightarrow> i = t"
proof -
  assume t: "CHR '':'' \<notin> set t" and "prefix (i @ '':'') (chunk_key t j)"
  then obtain r where r: "chunk_key t j = i @ CHR '':'' # r" by (auto simp: prefix_def)
  have "count_list (chunk_key t j) CHR '':'' = 1"
    using t by (simp add: chunk_key_def count_list_0_iff)
  with r have "CHR '':'' \<notin> set i" by (simp add: count_list_0_iff)
  with t r show "i = t" by (simp add: chunk_key_def separated_eq_iff)
qed

lemma kept_delete:
  assumes "CHR '':'' \<notin> set (u_tid u)" "i \<noteq> u_tid u"
  shows "settles (kept_inv E cfg u) d (delete_prog E io i)"
proof -
  have "kept_inv E cfg u (fst (delete_txn E i s)) ds" if inv: "kept_inv E cfg u s ds" for s ds
  proof -
    let ?s = "fst (delete_txn E i s)"
    have "meta_at E ?s (u_tid u) = meta_at E s (u_tid u)"
      using assms(2) by (simp add: delete_txn_def chunk_bounds_def Let_def meta_at_def mt.get_remove)
    moreover have "chunk_at E ?s (u_tid u) j = chunk_at E s (u_tid u) j" for j
      using assms(2) prefix_chunk_key_eq [OF assms(1), of i j]
      by (auto simp: delete_txn_def chunk_bounds_def Let_def chunk_at_def ct.get_remove_range)
    moreover have "config ?s = config s" "meta_cache ?s = meta_cache s"
      by (simp_all add: delete_txn_def chunk_bounds_def Let_def)
    ultimately show ?thesis using inv by (simp add: kept_inv_def)
  qed
  then show ?thesis unfolding delete_prog_def by (intro settle_rules settles_atomic)
qed

lemma kept_delete_all:
  assumes "CHR '':'' \<notin> set (u_tid u)" "u_tid u \<notin> set ids"
  shows "settles (kept_inv E cfg u) d (delete_all_prog E io ids n)"
  using assms(2)
  by (induction ids arbitrary: n) (auto intro!: settle_rules kept_delete [OF assms(1)])

lemma kept_sweep:
  assumes "CHR '':'' \<notin> set (u_tid u)"
    "unat now \<le> unat (u_since u) + unat (min INCOMPLETE_FILE_TTL_MS (file_ttl_ms cfg))"
  shows "settles (kept_inv E cfg u) d (sweep_files_prog E io now)"
  unfolding sweep_files_prog_def
proof (rule settles_atomic_bind)
  fix s :: "('m, 'c) file_store" and ds
  assume inv: "kept_inv E cfg u s ds"
  let ?ids = "map fst (filter (\<lambda>(k, m). transfer_expired (config s) now m) (meta_cache s))"
  have "\<not> transfer_expired (config s) now c" if "(u_tid u, c) \<in> set (meta_cache s)" for c
  proof -
    have "dm_get (meta_cache s) (u_tid u) = Some c" using that inv by (auto simp: kept_inv_def dm_get_set)
    then show ?thesis using inv not_expired [OF assms(2), of c] by (auto simp: kept_inv_def entry_ok_def)
  qed
  then have "u_tid u \<notin> set ?ids" by auto
  from kept_delete_all [OF assms(1) this] inv
  show "kept_inv E cfg u (fst (s, ?ids)) ds \<and> settles (kept_inv E cfg u) d (delete_all_prog E io (snd (s, ?ids)) 0)"
    by simp
qed

lemma kept_fetch: "settles (kept_inv E cfg u) d (fetch_chunk_prog E io tid ci)"
  unfolding fetch_chunk_prog_def by (intro settle_rules)

end


section \<open>Every task\<close>

text \<open>The tasks that do not stand in the way of the upload.\<close>

fun frame_fits :: "('t, 'b, 'c) ws_env \<Rightarrow> upload \<Rightarrow> frame_in \<times> client_frame \<Rightarrow> bool" where
  "frame_fits W u (i, UploadFileChunk r tid ci tc tb ct pow) \<longleftrightarrow>
     (case b64_decode W ct of Some raw \<Rightarrow> upload_fits u (i_clock i 1) (i_clock i 2) tid ci tc tb raw | None \<Rightarrow> True)"
| "frame_fits W u (i, DeleteTransfer r tid) \<longleftrightarrow> tid \<noteq> u_tid u"
| "frame_fits W u (i, f) \<longleftrightarrow> True"

fun task_fits :: "('t, 'b, 'c) ws_env \<Rightarrow> file_config \<Rightarrow> upload \<Rightarrow> task \<Rightarrow> bool" where
  "task_fits W cfg u (Socket now ch texts) \<longleftrightarrow> list_all (frame_fits W u) (frames_of W texts)"
| "task_fits W cfg u (FileAging io now) \<longleftrightarrow>
     unat now \<le> unat (u_since u) + unat (min INCOMPLETE_FILE_TTL_MS (file_ttl_ms cfg))"
| "task_fits W cfg u task \<longleftrightarrow> True"

definition stored_reply :: "upload \<Rightarrow> outputs \<Rightarrow> bool" where
  "stored_reply u out \<longleftrightarrow> (\<exists>ch req n m. (ch, FileChunkStored req (u_tid u) (u_index u) n m) \<in> set out)"

lemma stored_reply_simps [simp]:
  "\<not> stored_reply u []" "stored_reply u (xs @ ys) \<longleftrightarrow> stored_reply u xs \<or> stored_reply u ys"
  "stored_reply u ((ch, r) # xs) \<longleftrightarrow> (\<exists>req n m. r = FileChunkStored req (u_tid u) (u_index u) n m) \<or> stored_reply u xs"
  by (auto simp: stored_reply_def)

lemma well_answered_stored:
  "well_answered f ch out \<Longrightarrow> stored_reply u out \<Longrightarrow> \<exists>r tid ci tc tb ct pow. f = UploadFileChunk r tid ci tc tb ct pow"
  by (cases f) (auto simp: hello_answered_def stored_reply_def replies_to_def)

definition task_kept ::
    "('t, 'b, 'c) ws_env \<Rightarrow> file_config \<Rightarrow> upload \<Rightarrow> ('t, 'c) app_state \<Rightarrow> bool list \<Rightarrow> bool" where
  "task_kept W cfg u s = kept_inv (a_files (w_app W)) cfg u (files s)"

definition flagged :: "upload \<Rightarrow> bool \<Rightarrow> bool \<Rightarrow> outputs \<Rightarrow> bool" where
  "flagged u d d' out \<longleftrightarrow> (d \<or> stored_reply u out \<longrightarrow> d')"

lemma leaves_task_kept: "leaves files p \<Longrightarrow> settles (task_kept W cfg u) d p"
  unfolding task_kept_def [abs_def] by (rule leaves_settles)

lemma task_kept_part:
  "settles (kept_inv (a_files (w_app W)) cfg u) d p \<Longrightarrow> settles (task_kept W cfg u) d (on_files p)"
  unfolding task_kept_def [abs_def] on_files_def by (rule settles_on_part) simp_all

context relay_backend
begin

lemma kept_upload:
  assumes "frame_fits W u (i, UploadFileChunk r tid ci tc tb ct pow)"
  shows "upholds (task_kept W cfg u) (\<lambda>d' out. flagged u d d' out) d (upload_chunk_prog W i r tid ci tc tb ct pow c)"
proof (cases "valid_bundle_id tid")
  case False
  then show ?thesis by (auto simp: upload_chunk_prog_def file_err_def flagged_def intro!: upholds.return)
next
  case True
  then have tid: "CHR '':'' \<notin> set tid" by (rule valid_ids_no_colon)
  show ?thesis
  proof (cases "b64_decode W ct")
    case None
    with True show ?thesis by (auto simp: upload_chunk_prog_def file_err_def flagged_def intro!: upholds.return)
  next
    case (Some raw)
    let ?p = "store_chunk_prog (a_files E) (i_cio i) (i_clock i 1) (i_clock i 2) tid ci tc tb raw"
    have fits: "upload_fits u (i_clock i 1) (i_clock i 2) tid ci tc tb raw" using assms Some by simp
    have "upholds (task_kept W cfg u) (\<lambda>d' r. d' = (d \<or> (tid = u_tid u \<and> ci = u_index u \<and> (\<exists>x. r = Inr x)))) d (on_files ?p)"
      unfolding task_kept_def [abs_def] on_files_def
      by (rule upholds_part [OF fb.kept_store_chunk [OF tid fits]]) simp
    then have "upholds (task_kept W cfg u) (\<lambda>d' out. flagged u d d' out) d (bind (on_files ?p)
        (\<lambda>ra. Return (case ra of
            Inr stored \<Rightarrow> [(tx c, FileChunkStored r tid ci (sc_received_chunks stored) (sc_total_chunks stored))]
          | Inl reject \<Rightarrow> [(tx c, file_err r tid (reject_code reject) (reject_message reject))])))"
      by (rule upholds_bind) (auto intro!: upholds.return simp: flagged_def file_err_def split: sum.splits)
    with True Some show ?thesis
      by (auto simp: upload_chunk_prog_def file_err_def flagged_def intro!: upholds.return)
  qed
qed

lemma kept_frame:
  assumes u: "CHR '':'' \<notin> set (u_tid u)" and fits: "frame_fits W u (i, f)"
  shows "upholds (task_kept W cfg u) (\<lambda>d' (c', out, stop). flagged u d d' out) d (frame_prog W i f c)"
proof -
  have quiet: ?thesis if "settles (task_kept W cfg u) d (frame_prog W i f c)"
    "\<And>r tid ci tc tb ct pow. f \<noteq> UploadFileChunk r tid ci tc tb ct pow"
    using upholds_answers [OF that(1) [unfolded settles_def] frame_replies]
    by (rule upholds_Fin) (auto simp: frame_typed_def flagged_def that(2) dest: well_answered_stored)
  show ?thesis
  proof (cases f)
    case (UploadFileChunk r tid ci tc tb ct pow)
    from fits show ?thesis
      unfolding UploadFileChunk frame_prog.simps goes_on_def
      by (intro upholds_bind [OF kept_upload]) (auto intro!: upholds.return)
  next
    case (FetchFileChunk r tid ci)
    then show ?thesis
      by (intro quiet) (auto simp: goes_on_def fetch_file_prog_def intro!: settle_rules task_kept_part fb.kept_fetch)
  next
    case (DeleteTransfer r tid)
    then show ?thesis using fits
      by (intro quiet) (auto simp: goes_on_def delete_transfer_prog_def intro!: settle_rules task_kept_part fb.kept_delete u)
  qed (rule quiet; auto simp: goes_on_def intro!: leaves_task_kept leave_rules leaves_frames)+
qed

lemma kept_serve:
  assumes u: "CHR '':'' \<notin> set (u_tid u)" and "list_all (frame_fits W u) (frames_of W texts)"
  shows "upholds (task_kept W cfg u) (\<lambda>d' (c', out). flagged u d d' out) d (serve_prog W texts c)"
  using assms(2)
proof (induction texts arbitrary: c d)
  case Nil
  show ?case by (simp add: upholds.return flagged_def)
next
  case (Cons x texts)
  obtain i msg where x: "x = (i, msg)" by force
  have fits: "list_all (frame_fits W u) (frames_of W texts)"
    using Cons.prems by (auto simp: x split: sum.splits)
  have "upholds (task_kept W cfg u) (\<lambda>d' (c', out, stop). flagged u d d' out) d (text_prog W i msg c)"
  proof (cases rule: text_prog_cases [where W = W and i = i and msg = msg and c = c])
    case (4 f)
    with Cons.prems show ?thesis by (auto simp: x intro: kept_frame [OF u])
  qed (simp_all add: upholds.return flagged_def err_def)
  then have "upholds (task_kept W cfg u) (\<lambda>d' (c', out). flagged u d d' out) d
    (bind (text_prog W i msg c) (\<lambda>(c, out, stop). if stop then Return (c, out)
       else bind (serve_prog W texts c) (\<lambda>(c, outs). Return (c, out @ outs))))"
  proof (rule upholds_bind)
    fix d' and y :: "conn \<times> outputs \<times> bool"
    assume y: "case y of (c', out, stop) \<Rightarrow> flagged u d d' out"
    obtain c' out stop where y': "y = (c', out, stop)" using prod_cases3 by blast
    have "upholds (task_kept W cfg u) (\<lambda>d'' (c', out). flagged u d d'' out) d'
        (bind (serve_prog W texts c') (\<lambda>(c, outs). Return (c, out @ outs)))"
      by (rule upholds_bind [OF Cons.IH [OF fits]]) (use y in \<open>auto intro!: upholds.return simp: y' flagged_def\<close>)
    then show "upholds (task_kept W cfg u) (\<lambda>d' (c', out). flagged u d d' out) d'
        (case y of (c, out, stop) \<Rightarrow> if stop then Return (c, out)
          else bind (serve_prog W texts c) (\<lambda>(c, outs). Return (c, out @ outs)))"
      using y by (auto simp: y' intro!: upholds.return)
  qed
  then show ?case by (simp add: x)
qed

lemma kept_task:
  assumes u: "CHR '':'' \<notin> set (u_tid u)" and fits: "task_fits W cfg u task"
  shows "upholds (task_kept W cfg u) (\<lambda>d' out. flagged u False d' out) False (task_prog W task)"
proof -
  have quiet: "upholds (task_kept W cfg u) (\<lambda>d' out. flagged u False d' out) False p"
    if "settles (task_kept W cfg u) False p" "answers (\<lambda>out. out = []) p" for p
    using upholds_answers [OF that(1) [unfolded settles_def] that(2)] by (rule upholds_Fin) (simp add: flagged_def)
  show ?thesis
  proof (cases task)
    case (Socket now ch texts)
    have op: "leaves files (open_prog now ch)" "leaves files (close_prog c)" for c
      unfolding open_prog_def close_prog_def by (intro leave_rules)+
    have "upholds (task_kept W cfg u) (\<lambda>d' out. flagged u False d' out) False
        (bind (serve_prog W texts c) (\<lambda>(c, outs). bind (close_prog c) (\<lambda>_. Return outs)))" for c
      by (rule upholds_bind [OF kept_serve [OF u]])
        (use fits in \<open>auto simp: Socket intro!: upholds_after [OF leaves_task_kept [OF op(2)]] upholds.return\<close>)
    then show ?thesis
      unfolding Socket task_prog.simps socket_prog_def
      by (intro upholds_after [OF leaves_task_kept [OF op(1)]])
        (auto intro!: upholds.return simp: flagged_def split: option.split)
  next
    case (FileAging io now)
    then show ?thesis using fits
      by (auto simp: silent_tasks intro!: quiet)
        (auto simp: file_sweep_prog_def intro!: settle_rules task_kept_part fb.kept_sweep u)
  qed (auto intro!: quiet leaves_task_kept leaves_background silent_tasks)
qed

end


section \<open>In every interleaving\<close>

text \<open>
  C4: an uploaded chunk is not lost between the tasks. Once a socket has been told that its chunk
  is stored, every fetch of it that can read the store returns its bytes and the declared shape of
  the transfer, whatever the order in which other uploads (of the same transfer too, several first
  chunks at once included), fetches, deletions of other transfers, sweeps and failing transactions
  take their steps. The conditions are on what the tasks do: the uploads of the transfer
  declare one shape and put the same bytes at the chunk's index, none of them deletes it, and the
  sweeps run within the incomplete-transfer window.
\<close>

theorem concurrent_upload_kept:
  fixes W :: "('t, 'b, 'c) ws_env"
  assumes "relay_backend W" "file_inv (a_files (w_app W)) (files s)" "CHR '':'' \<notin> set (u_tid u)"
    "u_index u < u_chunks u" "dm_get (meta_cache (files s)) (u_tid u) = None"
    "list_all (task_fits W (config (files s)) u) tasks"
    "interleave sched (s, map (task_prog W) tasks) = (s', ps)"
    "Return out \<in> set ps" "stored_reply u out" "read_ok io"
  shows "fetch_chunk (a_files (w_app W)) io (u_tid u) (u_index u) (files s')
    = Inr \<lparr>fc_data = u_data u, fc_total_chunks = u_chunks u, fc_total_bytes = u_bytes u\<rparr>"
proof -
  let ?E = "a_files (w_app W)" and ?Inv = "task_kept W (config (files s)) u"
  let ?Fin = "\<lambda>d out. flagged u False d out" and ?ds = "replicate (length tasks) False"
  have "meta_at ?E (files s) (u_tid u) = None"
    using file_invD(4) [OF assms(2), of "u_tid u"] assms(5) by simp
  then have "?Inv s ?ds"
    using assms(5) file_invD(3) [OF assms(2)] by (simp add: task_kept_def kept_inv_def)
  moreover have "list_all2 (upholds ?Inv ?Fin) ?ds (map (task_prog W) tasks)"
    using relay_backend.kept_task [OF assms(1,3)] assms(6) by (simp add: list_all2_conv_all_nth list_all_length)
  ultimately obtain ds where ds: "?Inv s' ds" "list_all2 (upholds ?Inv ?Fin) ds ps"
    using upholds_interleave [OF _ _ assms(7)] by blast
  from assms(8) obtain t where t: "t < length ps" "ps ! t = Return out" by (auto simp: in_set_conv_nth)
  then have "upholds ?Inv ?Fin (ds ! t) (Return out)" "t < length ds"
    using ds(2) by (auto dest: list_all2_nthD2 list_all2_lengthD)
  then have "True \<in> set ds"
    using assms(9) by (auto elim!: upholds_ReturnE simp: flagged_def) (metis nth_mem)
  then have K: "config (files s') = config (files s)" "chunk_at ?E (files s') (u_tid u) (u_index u) = Some (u_data u)"
    "meta_at ?E (files s') (u_tid u) \<noteq> None"
    "\<And>c. dm_get (meta_cache (files s')) (u_tid u) = Some c \<Longrightarrow> entry_ok u c"
    using ds(1) by (auto simp: task_kept_def kept_inv_def)
  obtain ds' where "files_inv ?E (byte_bound (files s)) (slot_bound (files s)) (files s') ds'"
    using files_of_tasks [OF assms(1,2,7)] by blast
  from files_invD(10) [OF this, of "u_tid u"] K(3)
  obtain c where c: "dm_get (meta_cache (files s')) (u_tid u) = Some c"
    by (auto simp: in_table_def in_cache_def dm_contains_def split: if_splits)
  from K(4) [OF this] have "m_total_chunks c = u_chunks u" "m_total_bytes c = u_bytes u" by (simp_all add: entry_ok_def)
  with c K(2) assms(4,10) show ?thesis by (simp add: fetch_chunk_def chunk_at_def)
qed

definition sample_upload1 :: upload where
  "sample_upload1 = \<lparr>u_tid = bundle1, u_index = 0, u_data = [97, 98], u_chunks = 1, u_bytes = 2, u_since = 86400000\<rparr>"

lemma sample_uploading:
  "snd (alone (task_prog ref_ws (file_tasks ! 0)) app0) = [(1, FileChunkStored ''r'' bundle1 0 1 1)]"
proof -
  have "open_socket 86400000 1 app0 = (app1, Some conn0)" by (simp add: open_socket_def eval_defs)
  moreover have st: "snd (store_chunk (a_files ref_app) all_ok 86400000 86400000 bundle1 0 1 2 [97, 98] (files app1))
      = Inr \<lparr>sc_received_chunks = 1, sc_total_chunks = 1\<rparr>"
    by (simp add: store_chunk_def app1_def app0_def small_config_def Let_def reserve_slot_def
        write_chunk_def write_txn_def all_ok_def try_reserve_bytes_def sat_add_def)
  moreover have conn: "count_frame 86400000 conn0 = conn0\<lparr>frame_count := 1\<rparr>"
    by (simp add: count_frame_def conn0_def sat_add_def sat_sub_def Let_def config_defs)
  moreover have raw: "as_bytes ''ab'' = [97, 98]" by (simp add: as_bytes_def)
  ultimately have "snd (snd (handle_text ref_ws in1 ''chunk'' conn0 app1)) = ([(1, FileChunkStored ''r'' bundle1 0 1 1)], False)"
    by (cases "store_chunk (a_files ref_app) all_ok 86400000 86400000 bundle1 0 1 2 [97, 98] (files app1)")
      (simp add: handle_text_def ref_json_def handle_upload_chunk_def Let_def conn0_def config_defs)
  then obtain c' s' where "handle_text ref_ws in1 ''chunk'' conn0 app1 = (c', s', [(1, FileChunkStored ''r'' bundle1 0 1 1)], False)"
    by (metis prod.collapse)
  with \<open>open_socket 86400000 1 app0 = (app1, Some conn0)\<close> show ?thesis
    by (simp add: file_tasks_def socket_prog_def open_alone text_alone close_alone)
qed

theorem concurrent_upload_kept_witness:
  "\<exists>sched s' ps. interleave sched (app0, map (task_prog ref_ws) file_tasks) = (s', ps)
     \<and> fetch_chunk (a_files ref_app) io_fine bundle1 0 (files s')
         = Inr \<lparr>fc_data = [97, 98], fc_total_chunks = 1, fc_total_bytes = 2\<rparr>"
proof -
  let ?ps = "map (task_prog ref_ws) file_tasks" and ?out = "[(1, FileChunkStored ''r'' bundle1 0 1 1)]"
  have len: "0 < length ?ps" by (simp add: file_tasks_def)
  have nth: "?ps ! 0 = task_prog ref_ws (file_tasks ! 0)" by (simp add: file_tasks_def)
  obtain sched s' where run: "interleave sched (app0, ?ps) = (s', ?ps[0 := Return ?out])"
    using alone_interleaved [OF len, of app0] unfolding nth sample_uploading by blast
  have ret: "Return ?out \<in> set (?ps[0 := Return ?out])" using len by (rule set_update_memI)
  have colon: "CHR '':'' \<notin> set (u_tid sample_upload1)" by (simp add: sample_upload1_def bundle1_def)
  have "fetch_chunk (a_files (w_app ref_ws)) io_fine (u_tid sample_upload1) (u_index sample_upload1) (files s')
    = Inr \<lparr>fc_data = u_data sample_upload1, fc_total_chunks = u_chunks sample_upload1, fc_total_bytes = u_bytes sample_upload1\<rparr>"
    by (rule concurrent_upload_kept [OF ref_relay_backend app0_files colon _ _ _ run ret])
      (auto simp: sample_upload1_def file_tasks_def ref_json_def upload_fits_def as_bytes_def in1_def
        app0_def config_defs io_fine_def stored_reply_def)
  with run show ?thesis by (auto simp: sample_upload1_def)
qed

end
