(* ===== verification/FileRaces.thy ===== *)
theory FileRaces
  imports Races FileCaps
begin

text \<open>
  What the interleaving of the file operations can do that no order of whole operations can. An upload
  touches the metadata cache twice, before and after its transaction, and a deletion of the same
  transfer can fall between: the counters stay right (\<open>FileTasks\<close>), the cache does not.
\<close>


section \<open>A cache entry without a transfer\<close>

text \<open>A transfer of two chunks with the first of them stored.\<close>

definition half_sent :: "((string \<times> file_meta option) list, (string \<times> bytes) list) file_store" where
  "half_sent =
     \<lparr>meta_table = [(''t'', Some \<lparr>m_total_chunks = 2, m_total_bytes = 5, m_stored_bytes = 3,
        m_received_chunks = 1, m_created_at_ms = 1001\<rparr>)],
      chunk_table = [(''t:0'', [1, 2, 3])], config = small_config,
      meta_cache = [(''t'', \<lparr>m_total_chunks = 2, m_total_bytes = 5, m_stored_bytes = 3,
        m_received_chunks = 1, m_created_at_ms = 1000\<rparr>)],
      reserved_bytes = 3, transfer_count = 1\<rparr>"

text \<open>An upload and a deletion, of whatever result.\<close>

definition upload_task ::
    "u32 \<Rightarrow> u32 \<Rightarrow> u64 \<Rightarrow> bytes
     \<Rightarrow> (((string \<times> file_meta option) list, (string \<times> bytes) list) file_store, (file_reject + stored_chunk) + bool option) prog"
where
  "upload_task ci tc tb data =
     bind (store_chunk_prog ref_files all_ok 2000 2001 ''t'' ci tc tb data) (\<lambda>r. Return (Inl r))"

definition delete_task ::
    "(((string \<times> file_meta option) list, (string \<times> bytes) list) file_store, (file_reject + stored_chunk) + bool option) prog"
where
  "delete_task = bind (delete_prog ref_files io_fine ''t'') (\<lambda>r. Return (Inr r))"

lemma t_keys: "chunk_key ''t'' 0 = ''t:0''" "chunk_key ''t'' 1 = ''t:1''"
proof -
  have "char_of (48 :: nat) = CHR ''0''" "char_of (49 :: nat) = CHR ''1''" by code_simp+
  then show "chunk_key ''t'' 0 = ''t:0''" "chunk_key ''t'' 1 = ''t:1''"
    by (simp_all add: chunk_key_def show_dec.simps digit_char_def)
qed

lemmas file_race_defs = upload_task_def delete_task_def store_chunk_prog_def write_chunk_prog_def
  create_prog_def delete_prog_def release_if_def step_forms turn_now Let_def bind_split

lemmas file_race_state = claim_transfer_def write_commit_def write_txn_def small_config_def
  all_ok_def mirror_meta_def cache_entry_def uncache_def delete_txn_def chunk_bounds_def
  try_reserve_bytes_def release_bytes_def release_slot_def reserve_slot_def sat_add_def sat_sub_def
  usize_add_def usize_sub_def usize_modulus_def t_remove_all_def ref_codec_def t_keys Let_def
  word_le_nat_alt word_less_nat_alt

text \<open>The same transfer with both chunks, and what a deletion leaves of either.\<close>

abbreviation t_meta :: "u32 \<Rightarrow> u64 \<Rightarrow> u64 \<Rightarrow> file_meta" where
  "t_meta n b t \<equiv> \<lparr>m_total_chunks = 2, m_total_bytes = 5, m_stored_bytes = b, m_received_chunks = n,
     m_created_at_ms = t\<rparr>"

lemma t_between: "''t:'' \<le> ''t:0''" "''t:0'' < ''t;''" "''t:'' \<le> ''t:1''" "''t:1'' < ''t;''"
  by code_simp+

definition fully_sent :: "((string \<times> file_meta option) list, (string \<times> bytes) list) file_store" where
  "fully_sent = half_sent\<lparr>meta_table := [(''t'', Some (t_meta 2 5 1001))],
     chunk_table := [(''t:0'', [1, 2, 3]), (''t:1'', [9, 9])], reserved_bytes := 5\<rparr>"

lemma upload_steps:
  "claim_transfer 2000 ''t'' 1 2 5 half_sent = (half_sent, Inr False)"
  "write_commit ref_files all_ok 2001 ''t'' 1 2 5 [9, 9] 2 False half_sent
     = (fully_sent, 2, 0, Inr (t_meta 2 5 1001))"
  by (simp_all add: file_race_state half_sent_def fully_sent_def)

lemma half_sent_config: "config half_sent = small_config" "max_chunks small_config = 4"
  "max_file_bytes small_config = 100" "write_ok io_fine" "\<not> 2 \<le> (1 :: u32)"
  by (simp_all add: half_sent_def small_config_def io_fine_def word_le_nat_alt)

lemma delete_steps:
  "delete_txn ref_files ''t'' fully_sent = (fully_sent\<lparr>meta_table := [], chunk_table := []\<rparr>, True, 5)"
  by (simp add: file_race_state half_sent_def fully_sent_def t_between sort_key_def)

text \<open>
  The upload of the second chunk commits, the transfer is deleted, and only then the upload puts its
  metadata into the cache: no transfer and no byte is left, but the cache has an entry for the id.
\<close>

theorem ghost_of_a_deleted_transfer:
  "\<exists>s. interleave [0, 0, 0, 1, 1, 1, 1, 0] (half_sent, [upload_task 1 2 5 [9, 9], delete_task])
      = (s, [Return (Inl (Inr \<lparr>sc_received_chunks = 2, sc_total_chunks = 2\<rparr>)), Return (Inr (Some True))])
    \<and> meta_table s = [] \<and> chunk_table s = [] \<and> transfer_count s = 0 \<and> reserved_bytes s = 0
    \<and> dm_get (meta_cache s) ''t'' \<noteq> None"
  by (simp add: file_race_defs upload_steps delete_steps half_sent_config del: bind.simps(2))
    (simp add: file_race_state fully_sent_def half_sent_def)


section \<open>What becomes of it\<close>

definition ghost :: "('m, 'b, 'c) file_env \<Rightarrow> string \<Rightarrow> ('m, 'c) file_store \<Rightarrow> bool" where
  "ghost E tid s \<longleftrightarrow> dm_get (meta_cache s) tid \<noteq> None \<and> t_get (f_meta E) (meta_table s) tid = None"

context file_backend
begin

lemma other_txn:
  assumes "write_txn E io now tid' ci tc tb data len creating s = (s', add, rel, r)" "tid' \<noteq> tid"
  shows "meta_cache s' = meta_cache s" "meta_table s' = meta_table s"
    and "r = Inr (mt, ct, m) \<Longrightarrow> t_get (f_meta E) mt tid = t_get (f_meta E) (meta_table s) tid"
proof -
  show "meta_cache s' = meta_cache s" "meta_table s' = meta_table s"
    using write_txn_reserved [OF assms(1)] by (auto simp: try_reserve_bytes_def Let_def split: if_splits)
  show "t_get (f_meta E) mt tid = t_get (f_meta E) (meta_table s) tid" if "r = Inr (mt, ct, m)"
    by (rule write_txn_Inr [OF assms(1) [unfolded that]]) (use assms(2) in \<open>simp add: table_simps\<close>)
qed

lemma other_chunk:
  assumes "ghost E tid s" "tid' \<noteq> tid"
  shows "ghost E tid (fst (write_chunk E io now tid' ci tc tb data len creating s))"
proof -
  obtain s' add rel r where t: "write_txn E io now tid' ci tc tb data len creating s = (s', add, rel, r)"
    by (metis prod_cases4)
  note other = other_txn [OF t assms(2)]
  show ?thesis
  proof (cases r)
    case (Inl e)
    with assms other(1,2) show ?thesis by (simp add: write_chunk_def t ghost_def release_bytes_def)
  next
    case (Inr x)
    obtain mt ct m where "x = (mt, ct, m)" by (metis prod_cases3)
    with Inr assms other(1,2) other(3) [of mt ct m] show ?thesis
      by (simp add: write_chunk_def t ghost_def release_bytes_def Let_def)
  qed
qed

lemma ghost_store_other:
  assumes "ghost E tid s" "tid' \<noteq> tid"
  shows "ghost E tid (fst (store_chunk E io t1 t2 tid' ci tc tb data s))"
proof (cases "dm_get (meta_cache s) tid'")
  case None
  let ?s = "s\<lparr>meta_cache := dm_insert tid' \<lparr>m_total_chunks = tc, m_total_bytes = tb, m_stored_bytes = 0,
    m_received_chunks = 0, m_created_at_ms = t1\<rparr> (meta_cache s), transfer_count := usize_add (transfer_count s) 1\<rparr>"
  obtain s' r where w: "write_chunk E io t2 tid' ci tc tb data (of_nat (length data)) True ?s = (s', r)" by fastforce
  have "ghost E tid ?s" using assms by (simp add: ghost_def)
  from other_chunk [OF this assms(2), of io t2 ci tc tb data "of_nat (length data)" True] w
  have "ghost E tid s'" by simp
  then show ?thesis using assms None w
    by (cases "ci = 0"; cases r; cases "transfer_count s < max_transfers (config s)")
      (simp_all add: store_chunk_def Let_def reserve_slot_def ghost_def release_slot_def)
next
  case (Some m)
  with assms other_chunk [OF assms] show ?thesis by (simp add: store_chunk_def Let_def)
qed

lemma ghost_refuses:
  assumes "ghost E tid s"
  shows "\<exists>e. store_chunk E io t1 t2 tid ci tc tb data s = (s, Inl e)"
  using assms
  by (auto simp: ghost_def store_chunk_def write_chunk_def write_txn_def Let_def split: option.splits)

lemma ghost_delete:
  assumes "ghost E tid s"
  shows "ghost E tid (fst (delete_transfer E io tid' s))"
  using assms
  by (auto simp: ghost_def delete_transfer_def Let_def chunk_bounds_def table_simps release_slot_def release_bytes_def
      split: option.splits)

lemma ghost_delete_all: "ghost E tid s \<Longrightarrow> ghost E tid (fst (delete_all E io ids n s))"
proof (induction ids arbitrary: n s)
  case (Cons i ids)
  with ghost_delete [OF Cons.prems, of "io i" i] show ?case by (auto split: prod.split option.split)
qed simp

lemma ghost_step:
  assumes "ghost E tid s" "\<And>io. op \<noteq> FReopen io"
  shows "ghost E tid (file_step E op s)"
proof (cases op)
  case (FStore io t1 t2 t ci tc tb data)
  with ghost_store_other [OF assms(1)] ghost_refuses [OF assms(1)] assms(1) show ?thesis
    by (cases "t = tid") (simp_all, metis fst_conv)
qed (use assms in \<open>simp_all add: ghost_delete ghost_delete_all sweep_expired_files_def\<close>)

end

text \<open>
  Nothing but a restart removes it: no upload, no deletion, no sweep; every upload under the id is
  refused meanwhile, and no deletion of it reports a transfer.
\<close>

theorem ghost_stays:
  assumes "file_backend E" "ghost E tid s" "\<forall>op \<in> set ops. \<forall>io. op \<noteq> FReopen io"
  shows "ghost E tid (run (file_step E) ops s)"
    and "\<exists>e. store_chunk E io t1 t2 tid ci tc tb data (run (file_step E) ops s)
      = (run (file_step E) ops s, Inl e)"
proof -
  show ghost: "ghost E tid (run (file_step E) ops s)"
    using assms(2,3)
  proof (induction ops arbitrary: s)
    case (Cons op ops)
    then show ?case using file_backend.ghost_step [OF assms(1) Cons.prems(1), of op] by simp
  qed simp
  show "\<exists>e. store_chunk E io t1 t2 tid ci tc tb data (run (file_step E) ops s)
      = (run (file_step E) ops s, Inl e)"
    by (rule file_backend.ghost_refuses [OF assms(1) ghost])
qed


section \<open>A chunk for the transfer before\<close>

text \<open>
  The shape of an upload is compared with the cache when it claims its transfer, not in its
  transaction. A second chunk that was claimed for a transfer that is then deleted is committed to
  the transfer that takes its place: here one of a single chunk, of which two are then stored.
\<close>

abbreviation s_meta :: "u32 \<Rightarrow> u64 \<Rightarrow> u64 \<Rightarrow> file_meta" where
  "s_meta n b t \<equiv> \<lparr>m_total_chunks = 1, m_total_bytes = 4, m_stored_bytes = b, m_received_chunks = n,
     m_created_at_ms = t\<rparr>"

definition emptied :: "((string \<times> file_meta option) list, (string \<times> bytes) list) file_store" where
  "emptied = \<lparr>meta_table = [], chunk_table = [], config = small_config, meta_cache = [],
     reserved_bytes = 0, transfer_count = 0\<rparr>"

definition claimed :: "((string \<times> file_meta option) list, (string \<times> bytes) list) file_store" where
  "claimed = emptied\<lparr>meta_cache := [(''t'', s_meta 0 0 2000)]\<rparr>"

definition single_sent :: "((string \<times> file_meta option) list, (string \<times> bytes) list) file_store" where
  "single_sent = emptied\<lparr>meta_table := [(''t'', Some (s_meta 1 1 2001))], chunk_table := [(''t:0'', [7])],
     meta_cache := [(''t'', s_meta 1 1 2000)], reserved_bytes := 1, transfer_count := 1\<rparr>"

definition mixed_up :: "((string \<times> file_meta option) list, (string \<times> bytes) list) file_store" where
  "mixed_up = single_sent\<lparr>meta_table := [(''t'', Some (s_meta 2 3 2001))],
     chunk_table := [(''t:0'', [7]), (''t:1'', [9, 9])],
     meta_cache := [(''t'', s_meta 2 3 2000)], reserved_bytes := 3\<rparr>"

lemma emptied_config: "config emptied = small_config"
  by (simp add: emptied_def)

lemma replace_steps:
  "delete_txn ref_files ''t'' half_sent = (half_sent\<lparr>meta_table := [], chunk_table := []\<rparr>, True, 3)"
  "release_bytes 3 (release_slot (uncache ''t'' (half_sent\<lparr>meta_table := [], chunk_table := []\<rparr>))) = emptied"
  "claim_transfer 2000 ''t'' 0 1 4 emptied = (claimed, Inr True)"
  "reserve_slot claimed = (claimed\<lparr>transfer_count := Suc 0\<rparr>, Inr ())"
  "write_commit ref_files all_ok 2001 ''t'' 0 1 4 [7] 1 True (claimed\<lparr>transfer_count := Suc 0\<rparr>)
     = (single_sent\<lparr>meta_cache := [(''t'', s_meta 0 0 2000)]\<rparr>, 1, 0, Inr (s_meta 1 1 2001))"
  "mirror_meta ''t'' 1 4 (s_meta 1 1 2001) (single_sent\<lparr>meta_cache := [(''t'', s_meta 0 0 2000)]\<rparr>) = single_sent"
  "write_commit ref_files all_ok 2001 ''t'' 1 2 5 [9, 9] 2 False single_sent
     = (mixed_up\<lparr>meta_cache := [(''t'', s_meta 1 1 2000)]\<rparr>, 2, 0, Inr (s_meta 2 3 2001))"
  "mirror_meta ''t'' 2 5 (s_meta 2 3 2001) (mixed_up\<lparr>meta_cache := [(''t'', s_meta 1 1 2000)]\<rparr>) = mixed_up"
  by (simp_all add: file_race_state half_sent_def emptied_def claimed_def single_sent_def mixed_up_def t_between sort_key_def)

theorem chunk_of_the_transfer_before:
  "interleave [0, 0, 1, 1, 1, 1, 2, 2, 2, 2, 2, 0, 0] (half_sent, [upload_task 1 2 5 [9, 9], delete_task, upload_task 0 1 4 [7]])
      = (mixed_up, [Return (Inl (Inr \<lparr>sc_received_chunks = 2, sc_total_chunks = 2\<rparr>)), Return (Inr (Some True)),
           Return (Inl (Inr \<lparr>sc_received_chunks = 1, sc_total_chunks = 1\<rparr>))])"
  "fetch_chunk ref_files io_fine ''t'' 1 mixed_up = Inl BadRequest"
proof -
  show "fetch_chunk ref_files io_fine ''t'' 1 mixed_up = Inl BadRequest"
    by (simp add: fetch_chunk_def mixed_up_def)
  show "interleave [0, 0, 1, 1, 1, 1, 2, 2, 2, 2, 2, 0, 0] (half_sent, [upload_task 1 2 5 [9, 9], delete_task, upload_task 0 1 4 [7]])
      = (mixed_up, [Return (Inl (Inr \<lparr>sc_received_chunks = 2, sc_total_chunks = 2\<rparr>)), Return (Inr (Some True)),
           Return (Inl (Inr \<lparr>sc_received_chunks = 1, sc_total_chunks = 1\<rparr>))])"
    by (simp add: file_race_defs upload_steps half_sent_config emptied_config replace_steps
        del: bind.simps(2))
qed

end
