(* ===== verification/Wired.thy ===== *)
theory Wired
  imports Outbox RelaySafety
begin

text \<open>
  The relay with the channels of its sockets: the state of \<open>Relay\<close> and one outbox per socket. The
  handlers of \<open>Ws\<close> take as inputs whether a live route takes a message and how much of a backlog
  its socket takes; here both are what the outboxes say. The frames a handler sends are put in the
  channels of their sockets, the writers take their turns in between, and the end of a socket
  aborts its writer.
\<close>


section \<open>Steps\<close>

record ('t, 'c, 'q) wired =
  core :: "('t, 'c) relay"
  outboxes :: "(chan, 'q outbox) dashmap"

text \<open>A frame into the channel of its socket, if that has room (\<open>try_send\<close>).\<close>

definition push_to ::
    "'q channel_ops \<Rightarrow> chan \<times> server_frame \<Rightarrow> (chan, 'q outbox) dashmap \<Rightarrow> (chan, 'q outbox) dashmap" where
  "push_to Q = (\<lambda>(ch, f) B.
     (case dm_get B ch of Some bx \<Rightarrow> dm_insert ch (fst (try_push Q f bx)) B | None \<Rightarrow> B))"

definition sent_envelope :: "frame_in \<Rightarrow> string \<Rightarrow> string \<Rightarrow> string \<Rightarrow> stored_envelope" where
  "sent_envelope i to etype ctext =
     \<lparr>env_id = i_uuid i, env_to = to, envelope_type = etype, ciphertext = ctext\<rparr>"

text \<open>Whether the live route of a send's destination takes its message.\<close>

definition route_takes ::
    "'q channel_ops \<Rightarrow> frame_in \<Rightarrow> client_frame option \<Rightarrow> ('t, 'c) app_state \<Rightarrow> (chan, 'q outbox) dashmap \<Rightarrow> bool" where
  "route_takes Q i frame s B =
     (case frame of
        Some (SendEnvelope cref to token etype ctext) \<Rightarrow>
          (case Option.bind (dm_get (online s) to) (dm_get B) of
             Some bx \<Rightarrow> snd (try_push Q (Envelope (sent_envelope i to etype ctext)) bx)
           | None \<Rightarrow> False)
      | _ \<Rightarrow> False)"

text \<open>The mailbox and the version of an accepted \<open>Hello\<close> that collects a backlog.\<close>

definition collects :: "client_frame option \<Rightarrow> outputs \<Rightarrow> (string \<times> u16) option" where
  "collects frame out =
     (case (frame, out) of
        (Some (Hello rid at dt pmin pmax pver pow False), (ch, HelloOk selected a b t r m) # rest) \<Rightarrow> Some (rid, selected)
      | _ \<Rightarrow> None)"

definition end_box ::
    "'q channel_ops \<Rightarrow> chan \<Rightarrow> (chan, 'q outbox) dashmap \<Rightarrow> (chan, 'q outbox) dashmap" where
  "end_box Q ch B =
     (case dm_get B ch of Some bx \<Rightarrow> dm_insert ch (abort_writer Q bx) B | None \<Rightarrow> B)"

datatype wired_event =
    WConnect chan u64
  | WText chan frame_in string "write_result list"
  | WTurn chan write_result
  | WDisconnect chan
  | WTask event

text \<open>
  \<open>WText\<close> has the results of the turns its own writer takes while a backlog is sent; the ticks of the
  background tasks and the restart are \<open>WTask\<close>, and a restart leaves no outbox.
\<close>

fun is_task :: "event \<Rightarrow> bool" where
  "is_task (Connect ch now) = False"
| "is_task (Text ch i msg) = False"
| "is_task (Disconnect ch) = False"
| "is_task _ = True"

fun is_restart :: "event \<Rightarrow> bool" where
  "is_restart (Restart ioq iof ioa iob now) = True"
| "is_restart _ = False"

inductive wired_step ::
    "('t, 'b, 'c) ws_env \<Rightarrow> 'q channel_ops \<Rightarrow> (server_frame \<Rightarrow> string option)
     \<Rightarrow> ('t, 'c, 'q) wired \<Rightarrow> wired_event \<Rightarrow> event list \<Rightarrow> outputs \<Rightarrow> ('t, 'c, 'q) wired \<Rightarrow> bool"
  for W Q ser where
  w_accept: "relay_step W (core S) (Connect ch now) [] R \<Longrightarrow> dm_contains (conns R) ch \<Longrightarrow>
    dm_get (outboxes S) ch = None \<Longrightarrow>
    wired_step W Q ser S (WConnect ch now) [Connect ch now] []
      \<lparr>core = R, outboxes = dm_insert ch (open_outbox Q) (outboxes S)\<rparr>"
| w_refuse: "relay_step W (core S) (Connect ch now) [] R \<Longrightarrow> \<not> dm_contains (conns R) ch \<Longrightarrow>
    wired_step W Q ser S (WConnect ch now) [Connect ch now] [] (S\<lparr>core := R\<rparr>)"
| w_text: "dm_get (conns (core S)) ch = Some c \<Longrightarrow>
    i' = i\<lparr>i_live := route_takes Q i (frame_of W i msg c) (app (core S)) (outboxes S)\<rparr> \<Longrightarrow>
    relay_step W (core S) (Text ch i' msg) out R \<Longrightarrow> collects (frame_of W i msg c) out = None \<Longrightarrow>
    B = fold (push_to Q) out (outboxes S) \<Longrightarrow>
    wired_step W Q ser S (WText ch i msg turns) [Text ch i' msg] out
      \<lparr>core = R, outboxes = (if dm_contains (conns R) ch then B else end_box Q ch B)\<rparr>"
| w_backlog: "dm_get (conns (core S)) ch = Some c \<Longrightarrow> dm_get (outboxes S) ch = Some bx \<Longrightarrow>
    relay_step W (core S) (Text ch (i\<lparr>i_alive := n\<rparr>) msg) ((ch, ok) # rest) R \<Longrightarrow>
    collects (frame_of W i msg c) ((ch, ok) # rest) = Some (rid, selected) \<Longrightarrow>
    envs = (case flush (a_queue (w_app W)) (i_qio i) rid (queues (app (core S))) of Some es \<Rightarrow> es | None \<Rightarrow> []) \<Longrightarrow>
    push_hello Q ser ok envs selected turns bx = Some (bx', turns', n) \<Longrightarrow>
    wired_step W Q ser S (WText ch i msg turns) [Text ch (i\<lparr>i_alive := n\<rparr>) msg] ((ch, ok) # rest)
      \<lparr>core = R, outboxes = dm_insert ch bx' (outboxes S)\<rparr>"
| w_turn: "dm_get (outboxes S) ch = Some bx \<Longrightarrow>
    wired_step W Q ser S (WTurn ch r) [] [] (S\<lparr>outboxes := dm_insert ch (writer_turn Q ser r bx) (outboxes S)\<rparr>)"
| w_gone: "relay_step W (core S) (Disconnect ch) [] R \<Longrightarrow>
    wired_step W Q ser S (WDisconnect ch) [Disconnect ch] [] \<lparr>core = R, outboxes = end_box Q ch (outboxes S)\<rparr>"
| w_task: "relay_step W (core S) e out R \<Longrightarrow> is_task e \<Longrightarrow>
    wired_step W Q ser S (WTask e) [e] out \<lparr>core = R, outboxes = (if is_restart e then [] else outboxes S)\<rparr>"

inductive wired_run ::
    "('t, 'b, 'c) ws_env \<Rightarrow> 'q channel_ops \<Rightarrow> (server_frame \<Rightarrow> string option)
     \<Rightarrow> ('t, 'c, 'q) wired \<Rightarrow> wired_event list \<Rightarrow> event list \<Rightarrow> outputs \<Rightarrow> ('t, 'c, 'q) wired \<Rightarrow> bool"
  for W Q ser where
  none: "wired_run W Q ser S [] [] [] S"
| more: "wired_step W Q ser S e es out S1 \<Longrightarrow> wired_run W Q ser S1 evs es' outs S' \<Longrightarrow>
    wired_run W Q ser S (e # evs) (es @ es') (out @ outs) S'"

inductive_cases wired_run_NilE: "wired_run W Q ser S [] es outs S'"
inductive_cases wired_run_ConsE: "wired_run W Q ser S (e # evs) es outs S'"

text \<open>A step of the wired relay is a step of the relay, or a turn of a writer, which it does not see.\<close>

lemma wired_step_core: "wired_step W Q ser S e es out S' \<Longrightarrow> relay_run W (core S) es out (core S')"
  by (induction rule: wired_step.induct)
    (auto intro: relay_run.intros relay_run.more [where out = out and outs = "[]" for out, simplified])

lemma wired_run_core: "wired_run W Q ser S evs es outs S' \<Longrightarrow> relay_run W (core S) es outs (core S')"
  by (induction rule: wired_run.induct) (auto intro: relay_run.none relay_run_append wired_step_core)


section \<open>What reaches the wire\<close>

definition sent_to :: "chan \<Rightarrow> outputs \<Rightarrow> server_frame list" where
  "sent_to ch outs = map snd (filter (\<lambda>(c, f). c = ch) outs)"

lemma sent_to_simps [simp]:
  "sent_to ch [] = []" "sent_to ch (outs @ outs') = sent_to ch outs @ sent_to ch outs'"
  "sent_to ch ((c, f) # outs) = (if c = ch then f # sent_to ch outs else sent_to ch outs)"
  by (simp_all add: sent_to_def)

text \<open>Every outbox has accepted, in their order, some of the frames that were sent to its socket.\<close>

definition boxed ::
    "'q channel_ops \<Rightarrow> (server_frame \<Rightarrow> string option) \<Rightarrow> outputs \<Rightarrow> (chan, 'q outbox) dashmap \<Rightarrow> bool" where
  "boxed Q ser outs B \<longleftrightarrow> (\<forall>ch bx. dm_get B ch = Some bx \<longrightarrow>
     (\<exists>acc. outbox_inv Q ser acc bx \<and> subseq acc (sent_to ch outs)))"

lemma boxed_more: "boxed Q ser outs B \<Longrightarrow> boxed Q ser (outs @ outs') B"
  unfolding boxed_def by (fastforce intro: subseq_rev_drop_many)

text \<open>The reply to an accepted \<open>Hello\<close>: the acceptance, then the backlog and its count.\<close>

lemma hello_reply_form:
  assumes "handle_hello W i rid at dt pmin pmax pver pow False c s = (c', s', (ch, HelloOk v1 v2 v3 v4 v5 v6) # rest)"
  shows "ch = tx c \<and> rest = hello_flush W i (tx c) rid v1 s"
proof -
  obtain s1 r where e: "hello_entry W i rid (token_hash (w_hash W) at) (token_hash (w_hash W) dt) pow s = (s1, r)"
    by force
  then have q: "queues s1 = queues s" and r: "r = None \<or> (\<exists>a b. r = Some (Error a b))"
    by (auto simp: hello_entry_def reserve_mailbox_slot_def err_def Let_def
        split: option.splits if_splits prod.splits)
  from r show ?thesis
    using assms e q by (auto simp: handle_hello_def hello_flush_def mark_auth_dirty_def Let_def err_def split: if_splits)
qed

lemma collects_reply:
  assumes "relay_step W R (Text ch (i\<lparr>i_alive := n\<rparr>) msg) ((ch, ok) # rest) R'" "dm_get (conns R) ch = Some c"
    "collects (frame_of W i msg c) ((ch, ok) # rest) = Some (rid, selected)"
  defines "envs \<equiv> case flush (a_queue (w_app W)) (i_qio i) rid (queues (app R)) of Some es \<Rightarrow> es | None \<Rightarrow> []"
  assumes "n \<le> length envs"
  shows "rest = map (Pair ch) (map Envelope (take n envs) @ (if selected \<ge> 6 then [Synced (of_nat n)] else []))"
proof -
  let ?i = "i\<lparr>i_alive := n\<rparr>"
  obtain at dt pmin pmax pver pow a b tm tr mx
    where f: "frame_of W i msg c = Some (Hello rid at dt pmin pmax pver pow False)" "ok = HelloOk selected a b tm tr mx"
    using assms(3) by (auto simp: collects_def split: option.splits client_frame.splits bool.splits server_frame.splits)
  then have f': "frame_of W ?i msg c = Some (Hello rid at dt pmin pmax pver pow False)" by (simp add: frame_of_def)
  have out: "(ch, ok) # rest = out'" if "handle_text W ?i msg c (app R) = (c', s', out', stop)" for c' s' out' stop
    using assms(1,2) that by (auto elim!: relay_stepE)
  obtain c' s' out' where h: "handle_hello W ?i rid at dt pmin pmax pver pow False (count_frame (i_clock ?i 0) c) (app R) = (c', s', out')"
    by (metis prod_cases3)
  with f' out [of c' s' out' False] have "(ch, ok) # rest = out'" by (simp add: handle_text_frame)
  with h f(2) have "handle_hello W ?i rid at dt pmin pmax pver pow False (count_frame (i_clock ?i 0) c) (app R)
      = (c', s', (ch, HelloOk selected a b tm tr mx) # rest)" by simp
  from hello_reply_form [OF this] have "rest = hello_flush W ?i ch rid selected (app R)" by simp
  then show ?thesis
    using assms(5) by (auto simp: hello_flush_def envs_def Let_def min_absorb2 split: option.split)
qed

text \<open>What the sends of a backlog leave, however far they get.\<close>

context bounded_channel
begin

lemma await_some:
  assumes "await_push Q ser f turns bx = Some (bx', turns', sent)" "outbox_inv Q ser acc bx"
  shows "outbox_inv Q ser (if sent then acc @ [f] else acc) bx' \<and> set turns' \<subseteq> set turns"
  using assms
proof (induction turns arbitrary: bx)
  case Nil
  obtain bx1 s where p: "try_push Q f bx = (bx1, s)" by force
  with Nil try_push_inv [OF Nil(2) p] show ?case by (cases s) (auto split: if_splits)
next
  case (Cons r turns)
  obtain bx1 s where p: "try_push Q f bx = (bx1, s)" by force
  note P = try_push_inv [OF Cons.prems(2) p]
  show ?case
  proof (cases "q_closed Q (channel bx) \<or> s")
    case True
    with Cons.prems p P show ?thesis by (cases s) (auto split: if_splits)
  next
    case False
    with P have "bx1 = bx" by simp
    with False p Cons.prems have "await_push Q ser f turns (writer_turn Q ser r bx) = Some (bx', turns', sent)" by simp
    from Cons.IH [OF this writer_turn_inv [OF Cons.prems(2)]] show ?thesis by auto
  qed
qed

lemma backlog_some:
  assumes "push_backlog Q ser envs turns bx = Some (bx', turns', n)" "outbox_inv Q ser acc bx"
  shows "n \<le> length envs \<and> outbox_inv Q ser (acc @ map Envelope (take n envs)) bx' \<and> set turns' \<subseteq> set turns"
  using assms
proof (induction envs arbitrary: bx turns acc n)
  case (Cons env envs)
  obtain bx1 turns1 sent where a: "await_push Q ser (Envelope env) turns bx = Some (bx1, turns1, sent)"
    using Cons.prems(1) by (auto split: option.splits)
  note A = await_some [OF a Cons.prems(2)]
  show ?case
  proof (cases sent)
    case True
    obtain m where b: "push_backlog Q ser envs turns1 bx1 = Some (bx', turns', m)" "n = Suc m"
      using Cons.prems(1) a True by (auto split: option.splits)
    have "outbox_inv Q ser (acc @ [Envelope env]) bx1" using A True by simp
    from Cons.IH [OF b(1) this] b(2) A show ?thesis by auto
  next
    case False
    with Cons.prems(1) a A show ?thesis by auto
  qed
qed simp

lemma hello_some:
  assumes "push_hello Q ser ok envs selected turns bx = Some (bx', turns', n)" "outbox_inv Q ser acc bx"
  shows "n \<le> length envs \<and> (\<exists>acc'. outbox_inv Q ser (acc @ acc') bx'
    \<and> subseq acc' (ok # map Envelope (take n envs) @ (if selected \<ge> 6 then [Synced (of_nat n)] else [])))"
proof -
  obtain bx0 s0 where p: "try_push Q ok bx = (bx0, s0)" by force
  obtain bx1 turns1 m where b: "push_backlog Q ser envs turns bx0 = Some (bx1, turns1, m)"
    using assms(1) p by (auto simp: push_hello_def split: option.splits)
  have m: "m = n" using assms(1) p b by (auto simp: push_hello_def split: option.splits if_splits)
  let ?h = "if s0 then [ok] else []"
  have "outbox_inv Q ser (acc @ ?h) bx0" using try_push_inv [OF assms(2) p] by (auto split: if_splits)
  from backlog_some [OF b this] m
  have B: "n \<le> length envs" "outbox_inv Q ser (acc @ ?h @ map Envelope (take n envs)) bx1" by simp_all
  have hd: "subseq ?h [ok]" by simp
  show ?thesis
  proof (cases "selected \<ge> 6")
    case True
    obtain turns2 sent where a: "await_push Q ser (Synced (of_nat n)) turns1 bx1 = Some (bx', turns2, sent)"
      using assms(1) p b m True by (auto simp: push_hello_def split: option.splits)
    have "outbox_inv Q ser (acc @ ?h @ map Envelope (take n envs) @ (if sent then [Synced (of_nat n)] else [])) bx'"
      using await_some [OF a B(2)] by (cases sent) auto
    moreover have "subseq (?h @ map Envelope (take n envs) @ (if sent then [Synced (of_nat n)] else []))
        ([ok] @ map Envelope (take n envs) @ [Synced (of_nat n)])"
      by (intro list_emb_append_mono hd) auto
    ultimately show ?thesis using B(1) True by auto
  next
    case False
    then have "bx' = bx1" using assms(1) p b by (auto simp: push_hello_def)
    moreover have "subseq (?h @ map Envelope (take n envs)) ([ok] @ map Envelope (take n envs))"
      by (intro list_emb_append_mono hd) auto
    ultimately show ?thesis using B False by auto
  qed
qed

lemma boxed_push:
  assumes "boxed Q ser outs B"
  shows "boxed Q ser (outs @ [out]) (push_to Q out B)"
proof -
  obtain c f where o: "out = (c, f)" by force
  have "\<exists>acc. outbox_inv Q ser acc bx' \<and> subseq acc (sent_to ch (outs @ [out]))"
    if bx': "dm_get (push_to Q out B) ch = Some bx'" for ch bx'
  proof (cases "ch = c \<and> dm_get B ch \<noteq> None")
    case True
    then obtain bx where "dm_get B c = Some bx" by auto
    moreover from this obtain acc where "outbox_inv Q ser acc bx" "subseq acc (sent_to c outs)"
      using assms by (auto simp: boxed_def)
    ultimately obtain bx acc where bx: "dm_get B c = Some bx" "outbox_inv Q ser acc bx" "subseq acc (sent_to c outs)"
      by blast
    obtain bx1 sent where p: "try_push Q f bx = (bx1, sent)" by force
    have "bx' = bx1" using bx' True bx(1) p o by (simp add: push_to_def)
    with conjunct1 [OF try_push_inv [OF bx(2) p]] have "outbox_inv Q ser (if sent then acc @ [f] else acc) bx'" by simp
    moreover have "subseq (if sent then acc @ [f] else acc) (sent_to c (outs @ [out]))"
      using bx(3) o by (auto intro: subseq_rev_drop_many)
    ultimately show ?thesis using True by blast
  next
    case False
    then have "dm_get B ch = Some bx'" using bx' o by (auto simp: push_to_def split: option.splits)
    then show ?thesis using boxed_more [OF assms, of "[out]"] by (simp add: boxed_def)
  qed
  then show ?thesis by (simp add: boxed_def)
qed

lemma boxed_fold: "boxed Q ser outs B \<Longrightarrow> boxed Q ser (outs @ out) (fold (push_to Q) out B)"
proof (induction out arbitrary: outs B)
  case (Cons f fs)
  from Cons.IH [OF boxed_push [OF Cons.prems, of f]] show ?case by simp
qed simp

lemma boxed_update:
  assumes "boxed Q ser outs B" "\<And>acc. outbox_inv Q ser acc bx \<Longrightarrow> outbox_inv Q ser acc bx'" "dm_get B ch = Some bx"
  shows "boxed Q ser outs (dm_insert ch bx' B)"
  using assms by (fastforce simp: boxed_def)

lemma boxed_end: "boxed Q ser outs B \<Longrightarrow> boxed Q ser outs (end_box Q ch B)"
  by (auto simp: end_box_def intro: boxed_update abort_inv split: option.split)

lemma boxed_step:
  assumes "wired_step W Q ser S e es out S'" "boxed Q ser outs (outboxes S)"
  shows "boxed Q ser (outs @ out) (outboxes S')"
  using assms
proof (induction rule: wired_step.induct)
  case (w_accept S ch now R)
  then show ?case using open_inv by (fastforce simp: boxed_def)
next
  case (w_text S ch c i' i msg out R B turns)
  then show ?case using boxed_fold [of ser outs "outboxes S" out] by (simp add: boxed_end)
next
  case (w_backlog S ch c bx n i msg ok rest R rid selected envs turns bx' turns')
  obtain acc where acc: "outbox_inv Q ser acc bx" "subseq acc (sent_to ch outs)"
    using w_backlog by (auto simp: boxed_def)
  from hello_some [OF w_backlog(6) acc(1)] obtain acc' where acc': "n \<le> length envs" "outbox_inv Q ser (acc @ acc') bx'"
    "subseq acc' (ok # map Envelope (take n envs) @ (if selected \<ge> 6 then [Synced (of_nat n)] else []))" by blast
  have "rest = map (Pair ch) (map Envelope (take n envs) @ (if selected \<ge> 6 then [Synced (of_nat n)] else []))"
    unfolding w_backlog(5) using collects_reply [OF w_backlog(3,1,4)] acc'(1) w_backlog(5) by simp
  then have "sent_to ch ((ch, ok) # rest) = ok # map Envelope (take n envs) @ (if selected \<ge> 6 then [Synced (of_nat n)] else [])"
    by (simp add: sent_to_def comp_def)
  then have "subseq (acc @ acc') (sent_to ch (outs @ (ch, ok) # rest))"
    using list_emb_append_mono [OF acc(2) acc'(3)] by simp
  with acc'(2) boxed_more [OF w_backlog.prems, of "(ch, ok) # rest"] show ?case
    by (fastforce simp: boxed_def simp del: sent_to_simps)
next
  case (w_turn S ch bx r)
  then show ?case by (auto intro: boxed_update writer_turn_inv)
qed (auto intro: boxed_end boxed_more simp: boxed_def [of _ _ _ "[]"])

lemma boxed_run:
  "wired_run W Q ser S evs es outs S' \<Longrightarrow> boxed Q ser outs0 (outboxes S) \<Longrightarrow> boxed Q ser (outs0 @ outs) (outboxes S')"
proof (induction arbitrary: outs0 rule: wired_run.induct)
  case (more S e es out S1 evs es' outs S')
  from more.IH [OF boxed_step [OF more.hyps(1) more.prems]] show ?case by simp
qed simp

end


section \<open>From the channel to the wire\<close>

lemma conns_before:
  "relay_step W R e out R' \<Longrightarrow> dm_contains (conns R') live \<Longrightarrow> \<not> is_restart e \<Longrightarrow> (\<And>now. e \<noteq> Connect live now)
     \<Longrightarrow> dm_contains (conns R) live"
  by (induction rule: relay_step.induct) (auto simp: dm_contains_def split: if_splits)

text \<open>A frame whose text is written after at most \<open>j\<close> turns of its writer, if they succeed.\<close>

definition due ::
    "'q channel_ops \<Rightarrow> (server_frame \<Rightarrow> string option) \<Rightarrow> server_frame \<Rightarrow> nat \<Rightarrow> 'q outbox \<Rightarrow> bool" where
  "due Q ser f j bx \<longleftrightarrow> (\<exists>m. ser f = Some m \<and> m \<in> set (wire bx))
     \<or> writing bx \<and> (\<exists>pre post. q_pending Q (channel bx) = pre @ f # post \<and> length pre < j)"

text \<open>Events in which the writer of a socket does not fail; the process is not restarted.\<close>

fun steady :: "chan \<Rightarrow> wired_event \<Rightarrow> bool" where
  "steady live (WTurn ch r) = (ch = live \<longrightarrow> r = Written)"
| "steady live (WText ch i msg turns) = (ch = live \<longrightarrow> set turns \<subseteq> {Written})"
| "steady live (WTask e) = (\<not> is_restart e)"
| "steady live _ = True"

lemma due_mono: "due Q ser f j bx \<Longrightarrow> j \<le> k \<Longrightarrow> due Q ser f k bx"
  by (fastforce simp: due_def)

context bounded_channel
begin

lemma due_push:
  assumes "due Q ser f j bx"
  shows "due Q ser f j (fst (try_push Q g bx))"
proof (cases "q_closed Q (channel bx) \<or> length (q_pending Q (channel bx)) \<ge> q_capacity Q (channel bx)")
  case True
  with assms try_send_full [OF True] show ?thesis by (simp add: try_push_def)
next
  case False
  then have "q_pending Q (fst (q_try_send Q g (channel bx))) = q_pending Q (channel bx) @ [g]"
    using try_send_room [of "channel bx" g] by simp
  with assms show ?thesis by (fastforce simp: try_push_def due_def case_prod_unfold)
qed

lemma due_turn:
  assumes "due Q ser f (Suc j) bx" "ser f = Some m"
  shows "due Q ser f j (writer_turn Q ser Written bx)"
proof (cases "writing bx \<and> \<not> m \<in> set (wire bx)")
  case True
  then obtain pre post where p: "q_pending Q (channel bx) = pre @ f # post" "length pre \<le> j"
    using assms by (auto simp: due_def)
  show ?thesis
  proof (cases pre)
    case Nil
    then have "q_pending Q (channel bx) = f # post" using p(1) by simp
    from recv_first [OF this] True assms(2) show ?thesis
      by (simp add: writer_turn_def case_prod_unfold due_def)
  next
    case (Cons g pre')
    then have "q_pending Q (channel bx) = g # (pre' @ f # post)" using p(1) by simp
    from recv_first [OF this] True p(2) Cons show ?thesis
      by (fastforce simp: writer_turn_def case_prod_unfold due_def split: option.split)
  qed
next
  case False
  then show ?thesis using assms
    by (auto simp: writer_turn_def case_prod_unfold due_def split: option.split)
qed

lemma due_stays: "due Q ser f j bx \<Longrightarrow> ser f = Some m \<Longrightarrow> due Q ser f j (writer_turn Q ser Written bx)"
  using due_turn [of ser f j bx m] due_mono [of Q ser f j bx "Suc j"] by simp

lemma due_await:
  assumes "await_push Q ser g turns bx = Some (bx', turns', sent)" "due Q ser f j bx" "ser f = Some m" "set turns \<subseteq> {Written}"
  shows "due Q ser f j bx' \<and> set turns' \<subseteq> {Written}"
  using assms
proof (induction turns arbitrary: bx)
  case Nil
  obtain bx1 s where p: "try_push Q g bx = (bx1, s)" by force
  with Nil due_push [OF Nil(2), of g] show ?case by (cases s) (auto split: if_splits)
next
  case (Cons r turns)
  obtain bx1 s where p: "try_push Q g bx = (bx1, s)" by force
  then have d: "due Q ser f j bx1" using due_push [OF Cons.prems(2), of g] by simp
  show ?case
  proof (cases "q_closed Q (channel bx) \<or> s")
    case True
    with Cons.prems p d show ?thesis by (cases s) (auto split: if_splits)
  next
    case False
    with p Cons.prems have "await_push Q ser g turns (writer_turn Q ser Written bx1) = Some (bx', turns', sent)" by simp
    from Cons.IH [OF this due_stays [OF d Cons.prems(3)] Cons.prems(3)] Cons.prems(4) show ?thesis by simp
  qed
qed

lemma due_backlog:
  assumes "push_backlog Q ser envs turns bx = Some (bx', turns', n)" "due Q ser f j bx" "ser f = Some m" "set turns \<subseteq> {Written}"
  shows "due Q ser f j bx' \<and> set turns' \<subseteq> {Written}"
  using assms
proof (induction envs arbitrary: bx turns n)
  case (Cons env envs)
  obtain bx1 turns1 sent where a: "await_push Q ser (Envelope env) turns bx = Some (bx1, turns1, sent)"
    using Cons.prems(1) by (auto split: option.splits)
  note A = due_await [OF a Cons.prems(2-4)]
  show ?case
  proof (cases sent)
    case True
    then obtain k where "push_backlog Q ser envs turns1 bx1 = Some (bx', turns', k)"
      using Cons.prems(1) a by (auto split: option.splits)
    from Cons.IH [OF this _ Cons.prems(3)] A show ?thesis by blast
  next
    case False
    with Cons.prems(1) a A show ?thesis by auto
  qed
qed simp

lemma due_hello:
  assumes "push_hello Q ser ok envs selected turns bx = Some (bx', turns', n)" "due Q ser f j bx" "ser f = Some m"
    "set turns \<subseteq> {Written}"
  shows "due Q ser f j bx'"
proof -
  obtain bx1 turns1 k where b: "push_backlog Q ser envs turns (fst (try_push Q ok bx)) = Some (bx1, turns1, k)"
    using assms(1) by (auto simp: push_hello_def split: option.splits)
  note B = due_backlog [OF b due_push [OF assms(2)] assms(3,4)]
  show ?thesis
  proof (cases "selected \<ge> 6")
    case True
    obtain turns2 sent where "await_push Q ser (Synced (of_nat k)) turns1 bx1 = Some (bx', turns2, sent)"
      using assms(1) b True by (auto simp: push_hello_def split: option.splits)
    from due_await [OF this] B assms(3) show ?thesis by blast
  next
    case False
    with assms(1) b B show ?thesis by (simp add: push_hello_def)
  qed
qed

text \<open>The outbox of a socket with a frame due, if it has one.\<close>

definition due_at :: "(server_frame \<Rightarrow> string option) \<Rightarrow> server_frame \<Rightarrow> chan \<Rightarrow> nat \<Rightarrow> (chan, 'q outbox) dashmap \<Rightarrow> bool" where
  "due_at ser f live j B \<longleftrightarrow> (\<exists>bx. dm_get B live = Some bx \<and> due Q ser f j bx)"

lemma due_at_push: "due_at ser f live j B \<Longrightarrow> due_at ser f live j (push_to Q out B)"
  by (cases out) (auto simp: due_at_def push_to_def due_push split: option.split)

lemma due_at_fold: "due_at ser f live j B \<Longrightarrow> due_at ser f live j (fold (push_to Q) out B)"
  by (induction out arbitrary: B) (simp_all add: due_at_push)

lemma due_at_other: "due_at ser f live j B \<Longrightarrow> ch \<noteq> live \<Longrightarrow> due_at ser f live j (dm_insert ch bx B)"
  by (simp add: due_at_def)

lemma due_at_end: "due_at ser f live j B \<Longrightarrow> ch \<noteq> live \<Longrightarrow> due_at ser f live j (end_box Q ch B)"
  by (simp add: due_at_def end_box_def split: option.split)

text \<open>A socket that is open after a step and has its outbox before it was open before it.\<close>

lemma box_push: "dm_get B live \<noteq> None \<Longrightarrow> dm_get (push_to Q out B) live \<noteq> None"
  by (cases out) (auto simp: push_to_def split: option.split)

lemma box_fold: "dm_get B live \<noteq> None \<Longrightarrow> dm_get (fold (push_to Q) out B) live \<noteq> None"
proof (induction out arbitrary: B)
  case (Cons o1 out)
  from Cons.IH [OF box_push [OF Cons.prems, of o1]] show ?case by simp
qed simp

lemma box_end: "dm_get B live \<noteq> None \<Longrightarrow> dm_get (end_box Q ch B) live \<noteq> None"
  by (auto simp: end_box_def split: option.split)

lemma open_before:
  assumes "wired_step W Q ser S e es out S'" "dm_get (outboxes S) live \<noteq> None" "steady live e"
  shows "dm_get (outboxes S') live \<noteq> None" "dm_contains (conns (core S')) live \<Longrightarrow> dm_contains (conns (core S)) live"
proof -
  show "dm_get (outboxes S') live \<noteq> None"
    using assms
  proof (induction rule: wired_step.induct)
    case (w_text S ch c i' i msg out R B turns)
    then show ?case using box_fold [of "outboxes S" live out] box_end by simp
  next
    case (w_gone S ch R)
    then show ?case using box_end by simp
  qed auto
  show "dm_contains (conns (core S)) live" if "dm_contains (conns (core S')) live"
    using assms that by (induction rule: wired_step.induct) (auto intro: conns_before)
qed

lemma open_before_run:
  assumes "wired_run W Q ser S evs es outs S'" "dm_get (outboxes S) live \<noteq> None" "list_all (steady live) evs"
    "dm_contains (conns (core S')) live"
  shows "dm_contains (conns (core S)) live"
  using assms
proof (induction rule: wired_run.induct)
  case (more S e es out S1 evs es' outs S')
  from open_before [OF more.hyps(1) more.prems(1)] more.prems more.IH show ?case by simp
qed simp

lemma due_step:
  assumes "wired_step W Q ser S e es out S'" "due_at ser f live j (outboxes S)" "ser f = Some m" "steady live e"
    "dm_contains (conns (core S')) live"
  shows "due_at ser f live (if e = WTurn live Written then j - 1 else j) (outboxes S')"
  using assms
proof (induction rule: wired_step.induct)
  case (w_accept S ch now R)
  then show ?case by (auto simp: due_at_def)
next
  case (w_text S ch c i' i msg out R B turns)
  then have "due_at ser f live j B" using due_at_fold [of ser f live j "outboxes S" out] by simp
  with w_text show ?case using due_at_end [of ser f live j B ch] by auto
next
  case (w_backlog S ch c bx n i msg ok rest R rid selected envs turns bx' turns')
  show ?case
  proof (cases "ch = live")
    case True
    then have "due Q ser f j bx" "set turns \<subseteq> {Written}" using w_backlog by (auto simp: due_at_def)
    with w_backlog True show ?thesis using due_hello by (fastforce simp: due_at_def)
  next
    case False
    with w_backlog show ?thesis by (simp add: due_at_def)
  qed
next
  case (w_turn S ch bx r)
  show ?case
  proof (cases "ch = live")
    case True
    then have "r = Written" "due Q ser f (Suc (j - 1)) bx" using w_turn by (auto simp: due_at_def intro: due_mono)
    with True w_turn show ?thesis using due_turn [of ser f "j - 1" bx m] by (simp add: due_at_def)
  next
    case False
    with w_turn show ?thesis by (simp add: due_at_def)
  qed
next
  case (w_gone S ch R)
  then have "ch \<noteq> live" by (auto simp: dm_contains_def elim!: relay_stepE)
  with w_gone show ?case by (simp add: due_at_end)
qed auto

lemma due_run:
  assumes "wired_run W Q ser S evs es outs S'" "due_at ser f live j (outboxes S)" "ser f = Some m"
    "list_all (steady live) evs" "dm_contains (conns (core S')) live"
  shows "due_at ser f live (j - length (filter (\<lambda>e. e = WTurn live Written) evs)) (outboxes S')"
  using assms
proof (induction arbitrary: j rule: wired_run.induct)
  case (more S e es out S1 evs es' outs S')
  have box: "dm_get (outboxes S) live \<noteq> None" using more.prems(1) by (auto simp: due_at_def)
  have "dm_contains (conns (core S1)) live"
    using open_before_run [OF more.hyps(2) open_before(1) [OF more.hyps(1) box]] more.prems by simp
  from due_step [OF more.hyps(1) more.prems(1,2) _ this] more.prems(3)
  have "due_at ser f live (if e = WTurn live Written then j - 1 else j) (outboxes S1)" by simp
  from more.IH [OF this] more.prems show ?case by (auto split: if_splits)
qed simp

end


text \<open>A send that is answered as delivered has put its message in the channel of the live route.\<close>

lemma send_live:
  assumes "handle_send W i cref to tok ety ctext c s = (s', out)" "(ch, SendOk u False r) \<in> set out"
    "dm_get (online s) to = Some live"
  shows "i_live i \<and> (\<exists>g. out = [(live, Envelope (sent_envelope i to ety ctext)), (tx c, g)])"
proof (cases "dm_get (auths s) to")
  case None
  with assms(1,2) show ?thesis by (auto simp: handle_send_def send_err_def split: if_splits)
next
  case (Some a)
  define s1 where "s1 = s\<lparr>auths := dm_insert to (a\<lparr>last_active_ms := now_activity_ms (i_clock i 1)\<rparr>) (auths s)\<rparr>"
  obtain s2 allowed where al: "allow_dest_send (i_clock i 2) to s1 = (s2, allowed)" by force
  have "online s2 = online s" using al by (auto simp: allow_dest_send_def s1_def split: prod.splits)
  then have d: "deliver_live i to env s2 = (if i_live i then (s2, True, [(live, Envelope env)])
      else (s2\<lparr>online := dm_remove to (online s2)\<rparr>, False, []))" for env
    using assms(3) by (simp add: deliver_live_def)
  show ?thesis
    using assms(1,2) Some al [unfolded s1_def] unfolding handle_send_def Let_def
    by (auto simp: d send_err_def sent_envelope_def split: if_splits bool.splits prod.splits)
qed

context bounded_channel
begin

lemma push_due:
  assumes "dm_get B live = Some bx" "outbox_inv Q ser acc bx" "snd (try_push Q f bx)"
  shows "due_at ser f live OUTBOUND_QUEUE_CAPACITY (push_to Q (live, f) B)"
proof -
  obtain bx' where p: "try_push Q f bx = (bx', True)" using assms(3) by (metis prod.collapse)
  have "\<not> (q_closed Q (channel bx) \<or> length (q_pending Q (channel bx)) \<ge> q_capacity Q (channel bx))"
    using assms(3) try_send_full [of "channel bx" f] by (auto simp: try_push_def)
  then have "q_pending Q (channel bx') = q_pending Q (channel bx) @ [f]" "writing bx'"
    "length (q_pending Q (channel bx)) < OUTBOUND_QUEUE_CAPACITY"
    using p assms(2) try_send_room [of "channel bx" f] by (auto simp: try_push_def outbox_inv_def split: prod.splits)
  with assms(1) p show ?thesis by (auto simp: due_at_def push_to_def due_def)
qed

lemma send_due:
  assumes "wired_step W Q ser S (WText ch i msg turns) es out S1" "boxed Q ser outs (outboxes S)"
    "dm_get (conns (core S)) ch = Some c" "frame_of W i msg c = Some (SendEnvelope cref to token etype ctext)"
    "(ch', SendOk u False r) \<in> set out" "dm_get (online (app (core S))) to = Some live"
  shows "due_at ser (Envelope (sent_envelope i to etype ctext)) live OUTBOUND_QUEUE_CAPACITY (outboxes S1)"
  using assms(1)
proof (cases rule: wired_step.cases)
  case (w_text c0 i' R B)
  let ?f = "Envelope (sent_envelope i to etype ctext)"
  have i': "i_live i' = route_takes Q i (frame_of W i msg c) (app (core S)) (outboxes S)"
    "sent_envelope i' to etype ctext = sent_envelope i to etype ctext" "frame_of W i' msg c = frame_of W i msg c"
    using w_text assms(3) by (auto simp: sent_envelope_def frame_of_def)
  obtain s' out' where h: "handle_send W i' cref to token etype ctext (count_frame (i_clock i' 0) c) (app (core S)) = (s', out')"
    by force
  have out: "out' = out" "dm_contains (conns R) ch"
    using w_text(5) assms(3,4) h i'(3) by (auto simp: handle_text_frame dm_contains_def elim!: relay_stepE)
  from send_live [OF h, of ch' u r live] out(1) assms(5,6) obtain g where
    s: "i_live i'" "out = [(live, ?f), (tx (count_frame (i_clock i' 0) c), g)]" by (auto simp: i'(2))
  then have takes: "route_takes Q i (frame_of W i msg c) (app (core S)) (outboxes S)" using i'(1) by simp
  then obtain bx where bx: "dm_get (outboxes S) live = Some bx" "snd (try_push Q ?f bx)"
    using assms(4,6) by (auto simp: route_takes_def split: option.splits)
  then obtain acc where "outbox_inv Q ser acc bx" using assms(2) by (auto simp: boxed_def)
  from push_due [OF bx(1) this bx(2)] have "due_at ser ?f live OUTBOUND_QUEUE_CAPACITY (fold (push_to Q) out (outboxes S))"
    using s(2) due_at_push by simp
  then show ?thesis using w_text out(2) by simp
qed (use assms(3,4) in \<open>auto simp: collects_def\<close>)

end

end
