(* ===== verification/WiredTheorems.thy ===== *)
theory WiredTheorems
  imports Wired
begin

text \<open>
  The properties of the relay with its channels (\<open>Wired\<close>), and their instances on the reference relay:
  Alice connects, registers and sends herself a message, which her writer writes.
\<close>


section \<open>A run\<close>

lemma wired_run_append:
  "wired_run W Q ser S evs es outs S1 \<Longrightarrow> wired_run W Q ser S1 evs' es' outs' S' \<Longrightarrow>
   wired_run W Q ser S (evs @ evs') (es @ es') (outs @ outs') S'"
proof (induction rule: wired_run.induct)
  case (more S e es out S1 evs es1 outs S2)
  from wired_run.more [OF more.hyps(1) more.IH [OF more.prems]] show ?case by simp
qed simp

lemma turns_run:
  "dm_get (outboxes S) ch \<noteq> None \<Longrightarrow>
   \<exists>S'. wired_run W Q ser S (replicate n (WTurn ch r)) [] [] S' \<and> core S' = core S \<and> dm_get (outboxes S') ch \<noteq> None"
proof (induction n arbitrary: S)
  case 0
  then show ?case using wired_run.none by fastforce
next
  case (Suc n)
  then obtain bx where bx: "dm_get (outboxes S) ch = Some bx" by blast
  let ?S = "S\<lparr>outboxes := dm_insert ch (writer_turn Q ser r bx) (outboxes S)\<rparr>"
  from Suc.IH [of ?S] obtain S' where "wired_run W Q ser ?S (replicate n (WTurn ch r)) [] [] S'" "core S' = core S"
    "dm_get (outboxes S') ch \<noteq> None" by auto
  with wired_run.more [OF wired_step.w_turn [where r = r, OF bx]] show ?case by fastforce
qed

text \<open>The text of an envelope is its ciphertext.\<close>

definition wire_text :: "server_frame \<Rightarrow> string option" where
  "wire_text f = (case f of Envelope e \<Rightarrow> Some (ciphertext e) | _ \<Rightarrow> Some [])"

definition wired0 :: "(ref_tab, ref_chunks, list_channel) wired" where
  "wired0 = \<lparr>core = relay0, outboxes = []\<rparr>"

definition wired1 :: "(ref_tab, ref_chunks, list_channel) wired" where
  "wired1 = \<lparr>core = relay1, outboxes = [(1, open_outbox list_channel_ops)]\<rparr>"

definition greeted :: "list_channel outbox" where
  "greeted = \<lparr>channel = \<lparr>lc_pending = [HelloOk 7 4 7 86400000 ''root'' 100, Synced 0], lc_closed = False,
     lc_capacity = OUTBOUND_QUEUE_CAPACITY\<rparr>, wire = [], writing = True\<rparr>"

definition wired2 :: "(ref_tab, ref_chunks, list_channel) wired" where
  "wired2 = \<lparr>core = relay2, outboxes = [(1, greeted)]\<rparr>"

lemma wired_connect: "wired_step ref_ws list_channel_ops wire_text wired0 (WConnect 1 86400000) [Connect 1 86400000] [] wired1"
  using wired_step.w_accept [of ref_ws wired0 1 86400000 relay1 list_channel_ops wire_text] sample_connect
  by (simp add: wired0_def wired1_def relay1_def dm_contains_def)

lemma wired_hello: "wired_step ref_ws list_channel_ops wire_text wired1 (WText 1 in1 ''hello'' [])
  [Text 1 (in1\<lparr>i_alive := 0\<rparr>) ''hello''] [(1, HelloOk 7 4 7 86400000 ''root'' 100), (1, Synced 0)] wired2"
proof -
  let ?i = "in1\<lparr>i_alive := 0\<rparr>" and ?ok = "HelloOk 7 4 7 86400000 ''root'' 100"
  have "pow_valid ref_ws ?i alice (Some ''0:x'')" using sample_pow [of alice] by (simp add: pow_valid_def)
  then have "handle_text ref_ws ?i ''hello'' conn0 app1 = (conn2, app2, [(1, ?ok), (1, Synced 0)], False)"
    by (simp add: eval_defs handle_hello_def hello_entry_def hello_flush_def reserve_mailbox_slot_def
        mailbox_auth_new_def flush_def read_mailbox_def mailbox_bounds_def List.map_filter_simps small_config_def)
  moreover have "input_ok ref_ws ?i (app relay1)" by (simp add: input_ok_def relay1_def app1_def app0_def)
  ultimately have "relay_step ref_ws relay1 (Text 1 ?i ''hello'') [(1, ?ok), (1, Synced 0)]
      \<lparr>app = app2, conns = dm_insert 1 conn2 (conns relay1)\<rparr>"
    by (intro relay_step.frame [where c = conn0]) (simp_all add: relay1_def)
  then have step: "relay_step ref_ws (core wired1) (Text 1 ?i ''hello'') [(1, ?ok), (1, Synced 0)] relay2"
    by (simp add: wired1_def relay1_def relay2_def)
  have "frame_of ref_ws in1 ''hello'' conn0 = Some (Hello alice auth_a send_a None None (Some 7) (Some ''0:x'') False)"
    by (simp add: frame_of_def count_frame_def conn0_def sat_add_def sat_sub_def Let_def config_defs ref_json_def)
  then have "collects (frame_of ref_ws in1 ''hello'' conn0) [(1, ?ok), (1, Synced 0)] = Some (alice, 7)"
    by (simp add: collects_def)
  moreover have "flush (a_queue ref_app) io_fine alice (queues app1) = Some []"
    by (simp add: flush_def read_mailbox_def mailbox_bounds_def List.map_filter_simps app1_def app0_def)
  moreover have "push_hello list_channel_ops wire_text ?ok [] 7 [] (open_outbox list_channel_ops) = Some (greeted, [], 0)"
    by (simp add: push_hello_def try_push_def open_outbox_def list_channel_ops_def greeted_def config_defs)
  ultimately show ?thesis
    using wired_step.w_backlog [OF _ _ step, of conn0 "open_outbox list_channel_ops" alice 7 "[]" list_channel_ops wire_text "[]" greeted "[]"]
    by (simp add: wired1_def wired2_def relay1_def)
qed

text \<open>The message is taken by the live route and queued.\<close>

definition hi :: server_frame where
  "hi = Envelope \<lparr>env_id = 7, env_to = alice, envelope_type = ''chat'', ciphertext = ''hi''\<rparr>"

definition live3 :: "(ref_tab, ref_chunks) relay" where
  "live3 = \<lparr>app = app2\<lparr>send_rate := [(alice, (86400000, 1))], queues := queue3\<rparr>, conns = [(1, conn3)]\<rparr>"

definition wired3 :: "(ref_tab, ref_chunks, list_channel) wired" where
  "wired3 = \<lparr>core = live3, outboxes = fold (push_to list_channel_ops) [(1, hi), (1, SendOk 7 False None)] [(1, greeted)]\<rparr>"

lemma live_send: "relay_step ref_ws relay2 (Text 1 in1 ''send'') [(1, hi), (1, SendOk 7 False None)] live3"
proof -
  have rate: "allow_dest_send 86400000 alice app2 = (app2\<lparr>send_rate := [(alice, (86400000, 1))]\<rparr>, True)"
    by (simp add: allow_dest_send_def rate_step_def eval_defs sat_sub_def)
  have room: "\<not> would_exceed_global (queues app2) (length ''hi'')"
    by (simp add: would_exceed_global_def eval_defs)
  have lease: "app2\<lparr>auths := [(alice, auth1)]\<rparr> = app2" by (simp add: app2_def)
  have conn: "count_frame 86400000 conn2 = conn3"
    by (simp add: count_frame_def conn2_def conn3_def sat_add_def sat_sub_def Let_def config_defs)
  have "handle_send ref_ws in1 None alice send_a ''chat'' ''hi'' conn3 app2
      = (app live3, [(1, hi), (1, SendOk 7 False None)])"
    using sample_enqueue rate room lease
    by (simp add: handle_send_def deliver_live_def Let_def mark_auth_dirty_def hi_def)
      (simp add: app2_def live3_def conn3_def app1_def app0_def mark_auth_dirty_def)
  then have "handle_text ref_ws in1 ''send'' conn2 app2 = (conn3, app live3, [(1, hi), (1, SendOk 7 False None)], False)"
    by (simp add: handle_text_def conn ref_json_def Let_def) (simp add: conn3_def config_defs)
  moreover have "input_ok ref_ws in1 (app relay2)" by (simp add: input_ok_def relay2_def app2_def app1_def app0_def)
  ultimately have "relay_step ref_ws relay2 (Text 1 in1 ''send'') [(1, hi), (1, SendOk 7 False None)]
      \<lparr>app = app live3, conns = dm_insert 1 conn3 (conns relay2)\<rparr>"
    by (intro relay_step.frame [where c = conn2]) (simp_all add: relay2_def)
  then show ?thesis by (simp add: live3_def relay2_def)
qed

lemma send_frame: "frame_of ref_ws in1 ''send'' conn2 = Some (SendEnvelope None alice send_a ''chat'' ''hi'')"
  by (simp add: frame_of_def count_frame_def conn2_def sat_add_def sat_sub_def Let_def config_defs ref_json_def)

lemma wired_send: "wired_step ref_ws list_channel_ops wire_text wired2 (WText 1 in1 ''send'' [])
  [Text 1 in1 ''send''] [(1, hi), (1, SendOk 7 False None)] wired3"
proof -
  have "route_takes list_channel_ops in1 (frame_of ref_ws in1 ''send'' conn2) app2 [(1, greeted)]"
    by (simp add: send_frame route_takes_def try_push_def list_channel_ops_def greeted_def config_defs)
  moreover have "in1\<lparr>i_live := True\<rparr> = in1" by (simp add: in1_def)
  moreover have "collects (frame_of ref_ws in1 ''send'' conn2) [(1, hi), (1, SendOk 7 False None)] = None"
    by (simp add: send_frame collects_def)
  ultimately show ?thesis
    using wired_step.w_text [where S = wired2 and ch = 1 and c = conn2 and i = in1 and i' = in1 and msg = "''send''"
        and out = "[(1, hi), (1, SendOk 7 False None)]" and W = ref_ws and Q = list_channel_ops and ser = wire_text
        and turns = "[]" and R = live3] live_send
    by (simp add: wired2_def wired3_def relay2_def live3_def dm_contains_def)
qed

abbreviation alices_turns :: "wired_event list" where
  "alices_turns \<equiv> replicate OUTBOUND_QUEUE_CAPACITY (WTurn 1 Written)"

abbreviation alices_run :: "wired_event list" where
  "alices_run \<equiv> [WConnect 1 86400000, WText 1 in1 ''hello'' [], WText 1 in1 ''send'' []] @ alices_turns"

lemma alice_greeted: "\<exists>es outs. wired_run ref_ws list_channel_ops wire_text wired0 [WConnect 1 86400000, WText 1 in1 ''hello'' []] es outs wired2"
  using wired_run.more [OF wired_connect wired_run.more [OF wired_hello wired_run.none]] by blast

lemma alice_writes:
  "\<exists>S. wired_run ref_ws list_channel_ops wire_text wired3 alices_turns [] [] S \<and> dm_contains (conns (core S)) 1
     \<and> dm_get (outboxes S) 1 \<noteq> None"
proof -
  have "dm_get (outboxes wired3) 1 \<noteq> None" by (simp add: wired3_def push_to_def)
  from turns_run [OF this] show ?thesis by (fastforce simp: wired3_def live3_def dm_contains_def)
qed


section \<open>Properties\<close>

text \<open>
  C12: what a client reads is what the handlers sent it. Every run of the relay with its channels is a run
  of the relay, and at any time the texts on the wire of a socket are those of frames that the
  handlers sent to this socket, in the order they were sent: some may be missing (a full channel drops
  them), none is added, doubled, reordered or meant for another socket. While its writer runs, what was
  accepted and is not on the wire yet is in the channel, which never holds more than 256 frames.
\<close>

theorem wires_carry_replies:
  assumes "bounded_channel Q" "outboxes S = []" "wired_run W Q ser S evs es outs S'"
  shows "relay_run W (core S) es outs (core S')
    \<and> (\<forall>ch bx. dm_get (outboxes S') ch = Some bx \<longrightarrow>
        length (q_pending Q (channel bx)) \<le> OUTBOUND_QUEUE_CAPACITY
        \<and> (\<exists>acc. subseq acc (sent_to ch outs)
             \<and> (if writing bx then texts ser acc = wire bx @ texts ser (q_pending Q (channel bx))
                else \<exists>lost. texts ser acc = wire bx @ lost)))"
proof -
  have "boxed Q ser [] (outboxes S)" using assms(2) by (simp add: boxed_def)
  from bounded_channel.boxed_run [OF assms(1,3) this] have "boxed Q ser outs (outboxes S')" by simp
  then show ?thesis
    using wired_run_core [OF assms(3)] by (fastforce simp: boxed_def outbox_inv_def)
qed

theorem wires_carry_replies_witness:
  "\<exists>es outs S. wired_run ref_ws list_channel_ops wire_text wired0 alices_run es outs S
     \<and> relay_run ref_ws relay0 es outs (core S)
     \<and> (\<exists>bx acc lost. dm_get (outboxes S) 1 = Some bx \<and> subseq acc (sent_to 1 outs) \<and> texts wire_text acc = wire bx @ lost)"
proof -
  obtain es outs where "wired_run ref_ws list_channel_ops wire_text wired0 [WConnect 1 86400000, WText 1 in1 ''hello'' []] es outs wired2"
    using alice_greeted by blast
  moreover obtain S where S: "wired_run ref_ws list_channel_ops wire_text wired3 alices_turns [] [] S"
    "dm_get (outboxes S) 1 \<noteq> None" using alice_writes by blast
  ultimately have run: "wired_run ref_ws list_channel_ops wire_text wired0 alices_run
      (es @ [Text 1 in1 ''send'']) (outs @ [(1, hi), (1, SendOk 7 False None)]) S"
    using wired_run_append wired_run.more [OF wired_send] by fastforce
  have "outboxes wired0 = []" "core wired0 = relay0" by (simp_all add: wired0_def)
  note W = wires_carry_replies [OF list_channel.bounded_channel_axioms this(1) run, unfolded this(2)]
  from S(2) obtain bx where "dm_get (outboxes S) 1 = Some bx" by blast
  moreover from this W obtain acc lost where "subseq acc (sent_to 1 (outs @ [(1, hi), (1, SendOk 7 False None)]))"
    "texts wire_text acc = wire bx @ lost" by (metis (full_types))
  ultimately show ?thesis using W run by blast
qed

text \<open>
  C11: a message that is answered as delivered (\<open>SendOk\<close> with \<open>queued\<close> false) is on the recipient's wire as
  soon as the writer of its live socket has taken 256 turns that succeed, whatever else happens in between, if
  that socket is still open then and the relay was not restarted.
\<close>

theorem live_send_is_written:
  assumes "bounded_channel Q" "outboxes S0 = []" "wired_run W Q ser S0 evs0 es0 outs0 S"
    "wired_step W Q ser S (WText ch i msg turns) es out S1"
    "dm_get (conns (core S)) ch = Some c" "frame_of W i msg c = Some (SendEnvelope cref to token etype ctext)"
    "(tx c, SendOk u False r) \<in> set out" "dm_get (online (app (core S))) to = Some live"
    "wired_run W Q ser S1 evs es1 outs1 S'" "list_all (steady live) evs"
    "OUTBOUND_QUEUE_CAPACITY \<le> length (filter (\<lambda>e. e = WTurn live Written) evs)"
    "dm_contains (conns (core S')) live" "ser (Envelope (sent_envelope i to etype ctext)) = Some m"
  shows "\<exists>bx. dm_get (outboxes S') live = Some bx \<and> m \<in> set (wire bx)"
proof -
  let ?f = "Envelope (sent_envelope i to etype ctext)"
  have "boxed Q ser [] (outboxes S0)" using assms(2) by (simp add: boxed_def)
  from bounded_channel.boxed_run [OF assms(1,3) this] have "boxed Q ser outs0 (outboxes S)" by simp
  from bounded_channel.due_run [OF assms(1,9) bounded_channel.send_due [OF assms(1,4) this assms(5-8)] assms(13,10,12)] assms(11)
  show ?thesis by (auto simp: bounded_channel.due_at_def [OF assms(1)] due_def assms(13))
qed

theorem live_send_is_written_witness:
  "\<exists>S bx. wired_run ref_ws list_channel_ops wire_text wired3 alices_turns [] [] S
     \<and> dm_get (outboxes S) 1 = Some bx \<and> ''hi'' \<in> set (wire bx)"
proof -
  obtain es outs where run: "wired_run ref_ws list_channel_ops wire_text wired0 [WConnect 1 86400000, WText 1 in1 ''hello'' []] es outs wired2"
    using alice_greeted by blast
  obtain S where S: "wired_run ref_ws list_channel_ops wire_text wired3 alices_turns [] [] S" "dm_contains (conns (core S)) 1"
    using alice_writes by blast
  have "\<exists>bx. dm_get (outboxes S) 1 = Some bx \<and> ''hi'' \<in> set (wire bx)"
  proof (rule live_send_is_written [OF list_channel.bounded_channel_axioms _ run wired_send _ send_frame, of 7 None 1])
    show "dm_get (conns (core wired2)) 1 = Some conn2" by (simp add: wired2_def relay2_def)
    show "(tx conn2, SendOk 7 False None) \<in> set [(1, hi), (1, SendOk 7 False None)]" by (simp add: conn2_def)
    show "dm_get (online (app (core wired2))) alice = Some 1" by (simp add: wired2_def relay2_def)
    show "list_all (steady 1) alices_turns" by (simp add: list_all_iff)
  qed (use S in \<open>simp_all add: wired0_def wire_text_def sent_envelope_def\<close>)
  with S(1) show ?thesis by blast
qed

end
