(* ===== verification/TestKit.thy ===== *)
theory TestKit
  imports Prelude "HOL-Library.Monad_Syntax"
begin

text \<open>
  The unit tests of the sources are part of the program too. A test is a computation in the option
  monad: a failed assertion and the \<open>unwrap\<close> of an error are \<open>None\<close>, and a test passes if it comes to
  its end. An operation of a store returns the new state with its result, so \<open>unwrap\<close> hands on both.
\<close>

definition assert_that :: "bool \<Rightarrow> unit option" where
  "assert_that b = (if b then Some () else None)"

text \<open>\<open>unwrap\<close> of an \<open>Option\<close> or an \<open>anyhow::Result\<close> with the state after the call.\<close>

fun unwrap :: "'s \<times> 'a option \<Rightarrow> ('s \<times> 'a) option" where
  "unwrap (s, Some x) = Some (s, x)"
| "unwrap (s, None) = None"

text \<open>\<open>unwrap\<close> of a \<open>Result\<close>, and \<open>matches!(r, Err(e))\<close> with what the call left.\<close>

fun unwrap_ok :: "'s \<times> ('e + 'a) \<Rightarrow> ('s \<times> 'a) option" where
  "unwrap_ok (s, Inr x) = Some (s, x)"
| "unwrap_ok (s, Inl e) = None"

fun expect_err :: "'e \<Rightarrow> 's \<times> ('e + 'a) \<Rightarrow> 's option" where
  "expect_err e (s, Inl e') = (if e' = e then Some s else None)"
| "expect_err e (s, Inr x) = None"

definition passes :: "unit option \<Rightarrow> bool" where
  "passes t \<longleftrightarrow> t = Some ()"

lemma assert_bind [simp]: "Option.bind (assert_that b) f = (if b then f () else None)"
  by (simp add: assert_that_def)

lemma passes_end [simp]: "passes (Some ())" "\<not> passes None" "passes (assert_that b) \<longleftrightarrow> b"
  by (simp_all add: passes_def assert_that_def)

end
