(* ===== verification/QueueTests.thy ===== *)
theory QueueTests
  imports QueueTheorems TestKit
begin

text \<open>
  The unit tests of \<open>src/queue_store.rs\<close>, as in \<open>FileTests\<close>: each is its Rust function on the model, for
  any implementations of redb, serde and uuid that keep their contracts (the locale
  \<open>queue_backend\<close>), with the clock readings and the drawn ids as arguments. They pass for all clocks
  and all ids that differ.
\<close>


section \<open>The tests\<close>

definition test_env :: "uuid \<Rightarrow> string \<Rightarrow> string \<Rightarrow> stored_envelope" where
  "test_env i to ct = \<lparr>env_id = i, env_to = to, envelope_type = ''axeno_sealed_signal_v1'', ciphertext = ct\<rparr>"

definition temp_db :: "('t, 'b) queue_env \<Rightarrow> 't queue_store option" where
  "temp_db E = queue_new E io_fine (t_empty (q_table E))"

definition enqueue_flush_ack_roundtrip ::
    "('t, 'b) queue_env \<Rightarrow> (nat \<Rightarrow> uuid) \<Rightarrow> (nat \<Rightarrow> u64) \<Rightarrow> unit option" where
  "enqueue_flush_ack_roundtrip E ids now = do {
     store \<leftarrow> temp_db E;
     let a = test_env (ids 0) ''mbx_alice_0000000000'' ''one'';
     let b = test_env (ids 1) ''mbx_alice_0000000000'' ''two'';
     (store, _) \<leftarrow> unwrap (enqueue E io_fine (now 0) ''mbx_alice_0000000000'' a store);
     (store, _) \<leftarrow> unwrap (enqueue E io_fine (now 1) ''mbx_alice_0000000000'' b store);
     flushed \<leftarrow> flush E io_fine ''mbx_alice_0000000000'' store;
     assert_that (length flushed = 2);
     assert_that (ciphertext (flushed ! 0) = ''one'');
     assert_that (ciphertext (flushed ! 1) = ''two'');
     (store, removed) \<leftarrow> unwrap (ack E io_fine ''mbx_alice_0000000000'' [env_id a] store);
     assert_that (removed = 1);
     after \<leftarrow> flush E io_fine ''mbx_alice_0000000000'' store;
     assert_that (length after = 1);
     assert_that (ciphertext (after ! 0) = ''two'')
   }"

definition mailboxes_are_isolated ::
    "('t, 'b) queue_env \<Rightarrow> (nat \<Rightarrow> uuid) \<Rightarrow> (nat \<Rightarrow> u64) \<Rightarrow> unit option" where
  "mailboxes_are_isolated E ids now = do {
     store \<leftarrow> temp_db E;
     (store, _) \<leftarrow> unwrap (enqueue E io_fine (now 0) ''mbx_alice_0000000000''
       (test_env (ids 0) ''mbx_alice_0000000000'' ''a'') store);
     (store, _) \<leftarrow> unwrap (enqueue E io_fine (now 1) ''mbx_bob_00000000000''
       (test_env (ids 1) ''mbx_bob_00000000000'' ''b'') store);
     msgs \<leftarrow> flush E io_fine ''mbx_alice_0000000000'' store;
     assert_that (length msgs = 1);
     msgs \<leftarrow> flush E io_fine ''mbx_bob_00000000000'' store;
     assert_that (length msgs = 1);
     empty \<leftarrow> is_empty E io_fine ''mbx_alice_0000000000'' store;
     assert_that (\<not> empty);
     (store, _) \<leftarrow> unwrap (purge_mailbox E io_fine ''mbx_alice_0000000000'' store);
     empty \<leftarrow> is_empty E io_fine ''mbx_alice_0000000000'' store;
     assert_that empty;
     msgs \<leftarrow> flush E io_fine ''mbx_bob_00000000000'' store;
     assert_that (length msgs = 1)
   }"

text \<open>The loop of \<open>count_limit_evicts_oldest\<close>.\<close>

fun fill_mailbox ::
    "('t, 'b) queue_env \<Rightarrow> (nat \<Rightarrow> uuid) \<Rightarrow> (nat \<Rightarrow> u64) \<Rightarrow> string \<Rightarrow> nat list \<Rightarrow> 't queue_store \<Rightarrow> uuid option
     \<Rightarrow> ('t queue_store \<times> uuid option) option" where
  "fill_mailbox E ids now mbx [] store first_id = Some (store, first_id)"
| "fill_mailbox E ids now mbx (i # rest) store first_id = do {
     let e = test_env (ids i) mbx (''m'' @ show_dec i);
     let first_id = (if i = 0 then Some (env_id e) else first_id);
     (store, _) \<leftarrow> unwrap (enqueue E io_fine (now i) mbx e store);
     fill_mailbox E ids now mbx rest store first_id
   }"

definition count_limit_evicts_oldest ::
    "('t, 'b) queue_env \<Rightarrow> (nat \<Rightarrow> uuid) \<Rightarrow> (nat \<Rightarrow> u64) \<Rightarrow> unit option" where
  "count_limit_evicts_oldest E ids now = do {
     store \<leftarrow> temp_db E;
     let mbx = ''mbx_cap_000000000000'';
     (store, first_id) \<leftarrow> fill_mailbox E ids now mbx [0..<MAX_QUEUE_PER_RECIPIENT + 5] store None;
     flushed \<leftarrow> flush E io_fine mbx store;
     assert_that (length flushed = MAX_QUEUE_PER_RECIPIENT);
     assert_that (\<not> list_ex (\<lambda>e. Some (env_id e) = first_id) flushed)
   }"

definition byte_total_tracks_and_persists_across_reopen ::
    "('t, 'b) queue_env \<Rightarrow> (nat \<Rightarrow> uuid) \<Rightarrow> (nat \<Rightarrow> u64) \<Rightarrow> unit option" where
  "byte_total_tracks_and_persists_across_reopen E ids now = do {
     store \<leftarrow> queue_new E io_fine (t_empty (q_table E));
     (store, _) \<leftarrow> unwrap (enqueue E io_fine (now 0) ''mbx_t_0000000000000''
       (test_env (ids 0) ''mbx_t_0000000000000'' ''abcde'') store);
     assert_that (total_bytes store = 5);
     store \<leftarrow> queue_new E io_fine (envelopes store);
     assert_that (total_bytes store = 5);
     msgs \<leftarrow> flush E io_fine ''mbx_t_0000000000000'' store;
     assert_that (length msgs = 1)
   }"


section \<open>They pass\<close>

lemma show_dec_length: "length (show_dec i) \<le> i + 1"
proof (induction i rule: show_dec.induct)
  case (1 i)
  then show ?case by (cases "i < 10") (auto simp: show_dec.simps [of i])
qed

text \<open>What a store holds: the list of every mailbox, the byte total and the next sequence number.\<close>

definition boxes ::
    "('t, 'b) queue_env \<Rightarrow> 't queue_store \<Rightarrow> (string \<Rightarrow> (uuid \<times> stored_value) list) \<Rightarrow> nat \<Rightarrow> nat \<Rightarrow> bool" where
  "boxes E q f b n \<longleftrightarrow> queue_inv E q \<and> (\<forall>m. CHR '':'' \<notin> set m \<longrightarrow> mail E q m = f m)
     \<and> total_bytes q = b \<and> unat (next_seq q) = n"

context queue_backend
begin

lemma temp_db_boxes: "\<exists>q. temp_db E = Some q \<and> boxes E q (\<lambda>_. []) 0 1"
proof -
  have "t_iter (q_table E) (t_empty (q_table E)) = []" by (simp add: tab.iter_Nil_iff tab.get_empty)
  then obtain q where q: "temp_db E = Some q" "next_seq q = 1"
    by (simp add: temp_db_def queue_new_def scan_totals_def sat_add_def)
  with open_empty [of io_fine q] show ?thesis by (auto simp: temp_db_def boxes_def)
qed

lemma put_boxes:
  assumes "boxes E q f b n" "CHR '':'' \<notin> set m" "i \<notin> fst ` set (f m)"
    "length ct \<le> PER_MAILBOX_QUEUE_BYTES" "b + length ct \<le> GLOBAL_QUEUE_DISK_CAP_BYTES" "n < 2 ^ 64 - 1"
  defines "k \<equiv> evict_count (f m) (length ct)"
  obtains q' v where "enqueue E io_fine now m (test_env i to ct) q = (q', Some k)" "sv_c v = ct"
    "boxes E q' (f(m := drop k (f m) @ [(i, v)])) (b + length ct - queue_bytes (take k (f m))) (Suc n)"
proof -
  let ?env = "test_env i to ct"
  have env: "env_id ?env = i" "ciphertext ?env = ct" by (simp_all add: test_env_def)
  have B: "queue_inv E q" "mail E q m = f m" "total_bytes q = b" "unat (next_seq q) = n"
    using assms(1,2) by (auto simp: boxes_def)
  note wk = queue_invD(1) [OF B(1) assms(2)]
  have fresh: "t_get (q_table E) (envelopes q) (key_for E m i) = None"
  proof (rule ccontr)
    assume "t_get (q_table E) (envelopes q) (key_for E m i) \<noteq> None"
    then obtain x where x: "t_get (q_table E) (envelopes q) (key_for E m i) = Some x" by blast
    then obtain v where "dec (q_codec E) x = Some v" using wk by (auto simp: well_keyed_def)
    with x have "(i, v) \<in> set (f m)"
      using set_read_mailbox [OF wk assms(2), of i v] B(2) by (auto simp: entry_at_def)
    with assms(3) show False by force
  qed
  have "next_seq q \<noteq> - 1"
  proof
    assume "next_seq q = - 1"
    then have "unat (next_seq q) = 2 ^ 64 - 1" by (simp add: unsigned_minus_1_eq_mask mask_eq_exp_minus_1)
    with B(4) assms(6) show False by simp
  qed
  moreover have "\<not> would_exceed_global q (length ct)"
    using B(3) assms(5) by (simp add: would_exceed_global_def usize_sat_add_def)
  ultimately have pre: "enqueue_pre E m ?env q"
    using assms(2,4) fresh by (simp add: enqueue_pre_def env)
  obtain q' r where eq: "enqueue E io_fine now m ?env q = (q', Some r)"
    using operations_return(1) [of io_fine] by (metis io_fine_simps snd_SomeE)
  note R = enqueue_result [OF B(1) pre eq, unfolded B env]
  note M = enqueue_effect(3,4) [OF B(1) pre eq, unfolded B env]
  have "boxes E q' (f(m := drop r (f m) @ [(i, queued_value now ?env q)])) (b + length ct - queue_bytes (take r (f m))) (Suc n)"
    using enqueue_inv [OF B(1) pre eq] M R(3,5) B(4) assms(1) unat_plus_one [OF \<open>next_seq q \<noteq> - 1\<close>]
    by (auto simp: boxes_def)
  then show thesis
    using that [of q' "queued_value now ?env q"] eq R(1) by (simp add: k_def queued_value_def env)
qed

lemma flush_boxes: "boxes E q f b n \<Longrightarrow> CHR '':'' \<notin> set m \<Longrightarrow> flush E io_fine m q = Some (delivered m (f m))"
  by (simp add: flush_delivered boxes_def)

lemma ack_boxes:
  assumes "boxes E q f b n" "CHR '':'' \<notin> set m"
  obtains q' b' where "ack E io_fine m is q = (q', Some (length (filter (\<lambda>e. fst e \<in> set is) (f m))))"
    "boxes E q' (f(m := filter (\<lambda>e. fst e \<notin> set is) (f m))) b' n"
proof -
  have B: "queue_inv E q" "mail E q m = f m" using assms by (auto simp: boxes_def)
  obtain q' r where eq: "ack E io_fine m is q = (q', Some r)"
    using operations_return(2) [of io_fine] by (metis io_fine_simps snd_SomeE)
  note A = ack_effect [OF B(1) assms(2) eq]
  have "boxes E q' (f(m := filter (\<lambda>e. fst e \<notin> set is) (f m))) (total_bytes q') n"
    using A(1-3,5) assms B(2) by (auto simp: boxes_def)
  then show thesis using that [of q' "total_bytes q'"] eq A(4) B(2) by simp
qed

lemma purge_boxes:
  assumes "boxes E q f b n" "CHR '':'' \<notin> set m"
  obtains q' r b' where "purge_mailbox E io_fine m q = (q', Some r)" "boxes E q' (f(m := [])) b' n"
proof -
  have B: "queue_inv E q" using assms by (simp add: boxes_def)
  obtain q' r where eq: "purge_mailbox E io_fine m q = (q', Some r)"
    using operations_return(3) [of io_fine] by (metis io_fine_simps snd_SomeE)
  note A = purge_effect [OF B assms(2) eq]
  have "boxes E q' (f(m := [])) (total_bytes q') n"
    using A(1,2,4,5) assms by (auto simp: boxes_def)
  then show thesis using that [of q' r "total_bytes q'"] eq by simp
qed

lemma reopen_boxes:
  assumes "boxes E q f b n"
  obtains q' n' where "queue_new E io_fine (envelopes q) = Some q'" "boxes E q' f b n'"
proof -
  have B: "queue_inv E q" using assms by (simp add: boxes_def)
  obtain q' where eq: "queue_new E io_fine (envelopes q) = Some q'"
    by (cases "scan_totals E (envelopes q)") (auto simp: queue_new_def)
  have "boxes E q' f b (unat (next_seq q'))"
    using reopen_effect(1-3) [OF B eq] assms by (simp add: boxes_def)
  then show thesis using that eq by blast
qed

lemma is_empty_boxes: "boxes E q f b n \<Longrightarrow> CHR '':'' \<notin> set m \<Longrightarrow> is_empty E io_fine m q = Some (f m = [])"
  by (simp add: is_empty_iff boxes_def)

lemmas in_boxes = flush_boxes is_empty_boxes delivered_def evict_count_zero fits_def config_defs

lemma enqueue_flush_ack_roundtrip_passes:
  assumes "ids 0 \<noteq> ids 1"
  shows "passes (enqueue_flush_ack_roundtrip E ids now)"
proof -
  let ?m = "''mbx_alice_0000000000''"
  obtain q0 where q0: "temp_db E = Some q0" "boxes E q0 (\<lambda>_. []) 0 1" using temp_db_boxes by blast
  obtain q1 v where q1: "enqueue E io_fine (now 0) ?m (test_env (ids 0) ?m ''one'') q0 = (q1, Some 0)" "sv_c v = ''one''"
    "boxes E q1 ((\<lambda>_. [])(?m := [(ids 0, v)])) (length ''one'') (Suc 1)"
    by (rule put_boxes [OF q0(2), of ?m "ids 0" "''one''" "now 0" ?m]) (auto simp: config_defs)
  obtain q2 w where q2: "enqueue E io_fine (now 1) ?m (test_env (ids 1) ?m ''two'') q1 = (q2, Some 0)" "sv_c w = ''two''"
    "boxes E q2 ((\<lambda>_. [])(?m := [(ids 0, v), (ids 1, w)])) (length ''one'' + length ''two'') (Suc (Suc 1))"
    by (rule put_boxes [OF q1(3), of ?m "ids 1" "''two''" "now 1" ?m])
      (use assms q1(2) in \<open>auto simp: in_boxes\<close>)
  obtain q3 b where q3: "ack E io_fine ?m [ids 0] q2 = (q3, Some 1)" "boxes E q3 ((\<lambda>_. [])(?m := [(ids 1, w)])) b (Suc (Suc 1))"
    by (rule ack_boxes [OF q2(3), of ?m "[ids 0]"]) (use assms in auto)
  have "env_id (test_env i m c) = i" for i m c by (simp add: test_env_def)
  with q0 q1 q2 q3 show ?thesis
    by (simp add: enqueue_flush_ack_roundtrip_def in_boxes)
qed

lemma mailboxes_are_isolated_passes: "passes (mailboxes_are_isolated E ids now)"
proof -
  let ?a = "''mbx_alice_0000000000''" and ?b = "''mbx_bob_00000000000''"
  obtain q0 where q0: "temp_db E = Some q0" "boxes E q0 (\<lambda>_. []) 0 1" using temp_db_boxes by blast
  obtain q1 v where q1: "enqueue E io_fine (now 0) ?a (test_env (ids 0) ?a ''a'') q0 = (q1, Some 0)"
    "boxes E q1 ((\<lambda>_. [])(?a := [(ids 0, v)])) (length ''a'') (Suc 1)"
    by (rule put_boxes [OF q0(2), of ?a "ids 0" "''a''" "now 0" ?a]) (auto simp: config_defs)
  obtain q2 w where q2: "enqueue E io_fine (now 1) ?b (test_env (ids 1) ?b ''b'') q1 = (q2, Some 0)"
    "boxes E q2 ((\<lambda>_. [])(?a := [(ids 0, v)], ?b := [(ids 1, w)])) (length ''a'' + length ''b'') (Suc (Suc 1))"
    by (rule put_boxes [OF q1(2), of ?b "ids 1" "''b''" "now 1" ?b]) (auto simp: config_defs)
  obtain q3 r b where q3: "purge_mailbox E io_fine ?a q2 = (q3, Some r)"
    "boxes E q3 ((\<lambda>_. [])(?a := [(ids 0, v)], ?b := [(ids 1, w)], ?a := [])) b (Suc (Suc 1))"
    by (rule purge_boxes [OF q2(2), of ?a]) auto
  show ?thesis
    using q0(1) q1(1) q2(1) q3(1)
    by (simp add: mailboxes_are_isolated_def flush_boxes [OF q2(2)] is_empty_boxes [OF q2(2)]
        flush_boxes [OF q3(2)] is_empty_boxes [OF q3(2)])
qed

lemma byte_total_passes: "passes (byte_total_tracks_and_persists_across_reopen E ids now)"
proof -
  let ?m = "''mbx_t_0000000000000''"
  obtain q0 where q0: "temp_db E = Some q0" "boxes E q0 (\<lambda>_. []) 0 1" using temp_db_boxes by blast
  obtain q1 v where q1: "enqueue E io_fine (now 0) ?m (test_env (ids 0) ?m ''abcde'') q0 = (q1, Some 0)"
    "boxes E q1 ((\<lambda>_. [])(?m := [(ids 0, v)])) (length ''abcde'') (Suc 1)"
    by (rule put_boxes [OF q0(2), of ?m "ids 0" "''abcde''" "now 0" ?m]) (auto simp: config_defs)
  obtain q2 n where q2: "queue_new E io_fine (envelopes q1) = Some q2"
    "boxes E q2 ((\<lambda>_. [])(?m := [(ids 0, v)])) (length ''abcde'') n"
    using reopen_boxes [OF q1(2)] by blast
  have "total_bytes q1 = 5" "total_bytes q2 = 5" using q1(2) q2(2) by (auto simp: boxes_def)
  with q0(1) q1(1) q2(1) show ?thesis
    by (simp add: byte_total_tracks_and_persists_across_reopen_def temp_db_def flush_boxes [OF q2(2)])
qed

text \<open>The loop: after \<open>i\<close> rounds the mailbox holds the last 500 of the \<open>i\<close> messages.\<close>

definition filled :: "(nat \<Rightarrow> uuid) \<Rightarrow> string \<Rightarrow> nat \<Rightarrow> 't queue_store \<Rightarrow> bool" where
  "filled ids m i q \<longleftrightarrow> (\<exists>f b. boxes E q f b (Suc i) \<and> map fst (f m) = map ids [i - MAX_QUEUE_PER_RECIPIENT..<i]
     \<and> (\<forall>e \<in> set (f m). length (sv_c (snd e)) \<le> 600) \<and> b \<le> i * 600)"

lemma filled_put:
  assumes "inj_on ids {..<505}" "CHR '':'' \<notin> set m" "filled ids m i q" "i < 505"
  obtains q' k where "enqueue E io_fine now m (test_env (ids i) m (''m'' @ show_dec i)) q = (q', Some k)"
    "filled ids m (Suc i) q'"
proof -
  obtain f b where B: "boxes E q f b (Suc i)" and ids: "map fst (f m) = map ids [i - MAX_QUEUE_PER_RECIPIENT..<i]"
    and short: "\<forall>e \<in> set (f m). length (sv_c (snd e)) \<le> 600" and b: "b \<le> i * 600"
    using assms(3) by (auto simp: filled_def)
  let ?ct = "''m'' @ show_dec i"
  have "length (show_dec i) \<le> i + 1" by (rule show_dec_length)
  then have ct: "length ?ct \<le> 600" using assms(4) by simp
  have len: "length (f m) = min i MAX_QUEUE_PER_RECIPIENT" using arg_cong [OF ids, of length] by simp
  have small: "queue_bytes es \<le> length es * 600" if "set es \<subseteq> set (f m)" for es
    using that short by (induction es) auto
  have bytes: "queue_bytes (drop j (f m)) + length ?ct \<le> PER_MAILBOX_QUEUE_BYTES" for j
  proof -
    have "queue_bytes (drop j (f m)) \<le> length (drop j (f m)) * 600" by (rule small) (rule set_drop_subset)
    also have "\<dots> \<le> 500 * 600" using len by (intro mult_right_mono) (auto simp: config_defs)
    finally show ?thesis using ct by (simp add: config_defs)
  qed
  have k: "evict_count (f m) (length ?ct) = (if i < MAX_QUEUE_PER_RECIPIENT then 0 else 1)"
  proof (cases "i < MAX_QUEUE_PER_RECIPIENT")
    case True
    then have "fits (f m) (length ?ct)" using bytes [of 0] len by (simp add: fits_def)
    then show ?thesis using True evict_count_zero by simp
  next
    case False
    then have "length (f m) = 500" using len by (simp add: config_defs)
    then obtain e es where "f m = e # es" "length es = 499" by (cases "f m") auto
    moreover from this have "fits es (length ?ct)" "\<not> fits (e # es) (length ?ct)"
      using bytes [of 1] by (simp_all add: fits_def config_defs)
    ultimately show ?thesis using False evict_count_zero by simp
  qed
  have "ids i \<notin> fst ` set (f m)"
  proof -
    have "fst ` set (f m) = set (map fst (f m))" by simp
    also have "\<dots> = ids ` {i - MAX_QUEUE_PER_RECIPIENT..<i}" unfolding ids by simp
    finally show ?thesis using assms(1,4) by (auto dest: inj_onD)
  qed
  moreover have "length ?ct \<le> PER_MAILBOX_QUEUE_BYTES" "b + length ?ct \<le> GLOBAL_QUEUE_DISK_CAP_BYTES"
    using bytes [of 500] ct b assms(4) by (simp_all add: config_defs)
  ultimately obtain q' v where put: "enqueue E io_fine now m (test_env (ids i) m ?ct) q
      = (q', Some (evict_count (f m) (length ?ct)))" "sv_c v = ?ct"
    "boxes E q' (f(m := drop (evict_count (f m) (length ?ct)) (f m) @ [(ids i, v)]))
      (b + length ?ct - queue_bytes (take (evict_count (f m) (length ?ct)) (f m))) (Suc (Suc i))"
    using put_boxes [OF B assms(2), of "ids i" ?ct now m] assms(4) by auto
  let ?k = "evict_count (f m) (length ?ct)"
  have "map fst (drop ?k (f m) @ [(ids i, v)]) = map ids [Suc i - MAX_QUEUE_PER_RECIPIENT..<Suc i]"
  proof -
    have "map fst (drop ?k (f m)) = map ids (drop ?k [i - MAX_QUEUE_PER_RECIPIENT..<i])"
      by (metis ids drop_map)
    moreover have "Suc (i - 500) = i - 499" if "\<not> i < 500" using that by simp
    ultimately show ?thesis using k by (auto simp: config_defs)
  qed
  moreover have "\<forall>e \<in> set (drop ?k (f m) @ [(ids i, v)]). length (sv_c (snd e)) \<le> 600"
    using short ct put(2) by (auto dest: in_set_dropD)
  moreover have "b + length ?ct - x \<le> Suc i * 600" for x using b ct by simp
  ultimately have "filled ids m (Suc i) q'"
    unfolding filled_def using put(3) by - (rule exI, rule exI, rule conjI, assumption, simp)
  with put(1) show thesis by (rule that)
qed

lemma fill_mailbox_filled:
  assumes "inj_on ids {..<505}" "CHR '':'' \<notin> set m" "filled ids m i q" "i + d \<le> 505" "first = (if i = 0 then None else Some (ids 0))"
  shows "\<exists>q'. fill_mailbox E ids now m [i..<i + d] q first = Some (q', if i + d = 0 then None else Some (ids 0))
    \<and> filled ids m (i + d) q'"
  using assms(3-5)
proof (induction d arbitrary: i q first)
  case (Suc d)
  obtain q' k where put: "enqueue E io_fine (now i) m (test_env (ids i) m (''m'' @ show_dec i)) q = (q', Some k)"
    "filled ids m (Suc i) q'"
    using filled_put [OF assms(1,2) Suc.prems(1)] Suc.prems(2) by auto
  have "env_id (test_env j m c) = j" for j c by (simp add: test_env_def)
  moreover have "[i..<i + Suc d] = i # [Suc i..<Suc i + d]" by (simp add: upt_conv_Cons del: upt_Suc)
  ultimately show ?case
    using put Suc.IH [OF put(2), of "Some (ids 0)"] Suc.prems by (auto simp del: upt_Suc)
qed auto

lemma count_limit_evicts_oldest_passes:
  assumes "inj_on ids {..<505}"
  shows "passes (count_limit_evicts_oldest E ids now)"
proof -
  let ?m = "''mbx_cap_000000000000''"
  obtain q0 where q0: "temp_db E = Some q0" "boxes E q0 (\<lambda>_. []) 0 1" using temp_db_boxes by blast
  then have "filled ids ?m 0 q0" by (auto simp: filled_def)
  moreover have loop: "[0..<MAX_QUEUE_PER_RECIPIENT + 5] = [0..<0 + 505]" by (simp add: config_defs)
  ultimately obtain q1 where q1: "fill_mailbox E ids now ?m [0..<MAX_QUEUE_PER_RECIPIENT + 5] q0 None = Some (q1, Some (ids 0))"
    "filled ids ?m 505 q1"
    using fill_mailbox_filled [OF assms, of ?m 0 q0 505 None now] unfolding loop by auto
  then obtain f b where B: "boxes E q1 f b 506" and ids: "map fst (f ?m) = map ids [505 - MAX_QUEUE_PER_RECIPIENT..<505]"
    by (auto simp: filled_def)
  have len: "length (f ?m) = MAX_QUEUE_PER_RECIPIENT" using arg_cong [OF ids, of length] by (simp add: config_defs)
  have "ids 0 \<notin> ids ` {505 - MAX_QUEUE_PER_RECIPIENT..<505}"
    using assms by (auto dest: inj_onD simp: config_defs)
  moreover have "set (map fst (f ?m)) = ids ` {505 - MAX_QUEUE_PER_RECIPIENT..<505}" unfolding ids by simp
  ultimately have "ids 0 \<notin> fst ` set (f ?m)" by simp
  then have "\<not> list_ex (\<lambda>e. Some (env_id e) = Some (ids 0)) (delivered ?m (f ?m))"
    by (force simp: delivered_def list_ex_iff)
  with q0(1) q1(1) len show ?thesis
    by (simp add: count_limit_evicts_oldest_def flush_boxes [OF B])
qed

end

theorem queue_tests_pass:
  assumes "queue_backend E" "inj_on ids {..<505}"
  shows "passes (enqueue_flush_ack_roundtrip E ids now)"
    and "passes (mailboxes_are_isolated E ids now)"
    and "passes (count_limit_evicts_oldest E ids now)"
    and "passes (byte_total_tracks_and_persists_across_reopen E ids now)"
proof -
  have "ids 0 \<noteq> ids 1" using assms(2) by (auto dest: inj_onD)
  then show "passes (enqueue_flush_ack_roundtrip E ids now)"
    by (rule queue_backend.enqueue_flush_ack_roundtrip_passes [OF assms(1)])
qed (rule queue_backend.mailboxes_are_isolated_passes [OF assms(1)]
    queue_backend.count_limit_evicts_oldest_passes [OF assms]
    queue_backend.byte_total_passes [OF assms(1)])+

text \<open>Ids that differ: the numbers in their order.\<close>

lemma queue_tests_pass_ref: "passes (count_limit_evicts_oldest ref_queue (of_nat :: nat \<Rightarrow> uuid) (\<lambda>_. 0))"
proof (rule queue_tests_pass(3) [OF ref_backend])
  show "inj_on (of_nat :: nat \<Rightarrow> uuid) {..<505}"
    by (rule inj_onI) (simp add: word_of_nat_eq_iff take_bit_nat_eq_self)
qed

end
