(* ===== verification/FileTests.thy ===== *)
theory FileTests
  imports FileTheorems TestKit
begin

text \<open>
  The unit tests of \<open>src/file_store.rs\<close>. Each is its Rust function on the model, with the database
  and serde any implementations that keep their contracts (the locale \<open>file_backend\<close>), calls that
  succeed, and the clock readings as arguments. They pass for all of them.
\<close>


section \<open>The tests\<close>

definition exists_transfer :: "('m, 'c) file_store \<Rightarrow> string \<Rightarrow> bool" where
  "exists_transfer s transfer_id = dm_contains (meta_cache s) transfer_id"

definition new_store :: "('m, 'b, 'c) file_env \<Rightarrow> file_config \<Rightarrow> ('m, 'c) file_store option" where
  "new_store E cfg = file_new E io_fine (t_empty (f_meta E)) (t_empty (f_chunks E)) cfg"

definition temp_store :: "('m, 'b, 'c) file_env \<Rightarrow> u64 \<Rightarrow> ('m, 'c) file_store option" where
  "temp_store E max_file_mib = new_store E
     \<lparr>max_file_bytes = max_file_mib * 1024 * 1024, max_total_file_bytes = 64 * 1024 * 1024,
      file_ttl_ms = 60000, max_transfers = 100,
      max_chunks = ucast (div_ceil (max_file_mib * 1024 * 1024) (16 * 1024))\<rparr>"

text \<open>An upload at the clock readings of its claim and its write.\<close>

definition store_at ::
    "('m, 'b, 'c) file_env \<Rightarrow> u64 \<times> u64 \<Rightarrow> string \<Rightarrow> u32 \<Rightarrow> u32 \<Rightarrow> u64 \<Rightarrow> bytes \<Rightarrow> ('m, 'c) file_store
     \<Rightarrow> ('m, 'c) file_store \<times> (file_reject + stored_chunk)" where
  "store_at E now tid ci tc tb data s = store_chunk E all_ok (fst now) (snd now) tid ci tc tb data s"

definition upload_fetch_delete_roundtrip ::
    "('m, 'b, 'c) file_env \<Rightarrow> u64 \<times> u64 \<Rightarrow> u64 \<times> u64 \<Rightarrow> unit option" where
  "upload_fetch_delete_roundtrip E now0 now1 = do {
     store \<leftarrow> temp_store E 1;
     let id = ''transfer_abcdefghijklmnop'';
     let c0 = replicate 100 1;
     let c1 = replicate 80 2;
     (store, r0) \<leftarrow> unwrap_ok (store_at E now0 id 0 2 180 c0 store);
     assert_that (sc_received_chunks r0 = 1);
     (store, r1) \<leftarrow> unwrap_ok (store_at E now1 id 1 2 180 c1 store);
     assert_that (sc_received_chunks r1 = 2);
     (store, f0) \<leftarrow> unwrap_ok (store, fetch_chunk E io_fine id 0 store);
     assert_that (fc_data f0 = c0);
     assert_that (fc_total_chunks f0 = 2);
     (store, f1) \<leftarrow> unwrap_ok (store, fetch_chunk E io_fine id 1 store);
     assert_that (fc_data f1 = c1);
     (store, deleted) \<leftarrow> unwrap (delete_transfer E io_fine id store);
     assert_that deleted;
     assert_that (fetch_chunk E io_fine id 0 store = Inl NotFound);
     assert_that (reserved_bytes store = 0);
     assert_that (transfer_count store = 0)
   }"


definition rejects_oversize_and_inconsistent :: "('m, 'b, 'c) file_env \<Rightarrow> u64 \<times> u64 \<Rightarrow> unit option" where
  "rejects_oversize_and_inconsistent E now = do {
     store \<leftarrow> temp_store E 1;
     let id = ''transfer_abcdefghijklmnop'';
     store \<leftarrow> expect_err TooLarge (store_at E now id 0 1 (2 * 1024 * 1024) [9] store);
     (store, _) \<leftarrow> unwrap_ok (store_at E now id 0 2 200 (replicate 100 1) store);
     store \<leftarrow> expect_err BadRequest (store_at E now id 1 3 200 [1] store);
     store \<leftarrow> expect_err NotFound (store_at E now ''transfer_zzzzzzzzzzzzzzzz'' 1 2 200 [1] store);
     Some ()
   }"

definition reupload_is_idempotent ::
    "('m, 'b, 'c) file_env \<Rightarrow> u64 \<times> u64 \<Rightarrow> u64 \<times> u64 \<Rightarrow> unit option" where
  "reupload_is_idempotent E now0 now1 = do {
     store \<leftarrow> temp_store E 1;
     let id = ''transfer_abcdefghijklmnop'';
     (store, _) \<leftarrow> unwrap_ok (store_at E now0 id 0 2 200 (replicate 100 1) store);
     (store, again) \<leftarrow> unwrap_ok (store_at E now1 id 0 2 200 (replicate 100 7) store);
     assert_that (sc_received_chunks again = 1);
     (store, f) \<leftarrow> unwrap_ok (store, fetch_chunk E io_fine id 0 store);
     assert_that (fc_data f = replicate 100 7)
   }"

definition re_creating_chunk_zero_does_not_double_reserve ::
    "('m, 'b, 'c) file_env \<Rightarrow> u64 \<times> u64 \<Rightarrow> u64 \<times> u64 \<Rightarrow> unit option" where
  "re_creating_chunk_zero_does_not_double_reserve E now0 now1 = do {
     store \<leftarrow> temp_store E 1;
     let id = ''transfer_abcdefghijklmnop'';
     (store, _) \<leftarrow> unwrap_ok (store_at E now0 id 0 2 200 (replicate 100 1) store);
     (store, _) \<leftarrow> unwrap_ok (store_at E now1 id 0 2 200 (replicate 100 7) store);
     assert_that (transfer_count store = 1);
     assert_that (reserved_bytes store = 100);
     (store, deleted) \<leftarrow> unwrap (delete_transfer E io_fine id store);
     assert_that deleted;
     assert_that (transfer_count store = 0);
     assert_that (reserved_bytes store = 0)
   }"

definition declared_size_does_not_reserve_unsent_bytes ::
    "('m, 'b, 'c) file_env \<Rightarrow> u64 \<times> u64 \<Rightarrow> u64 \<times> u64 \<Rightarrow> unit option" where
  "declared_size_does_not_reserve_unsent_bytes E now0 now1 = do {
     store \<leftarrow> new_store E
       \<lparr>max_file_bytes = 1024 * 1024, max_total_file_bytes = 1024 * 1024, file_ttl_ms = 60000,
        max_transfers = 100, max_chunks = ucast (div_ceil (1024 * 1024) (16 * 1024))\<rparr>;
     let big = ''transfer_declarebig00000'';
     (store, _) \<leftarrow> unwrap_ok (store_at E now0 big 0 2 (1024 * 1024) (replicate 10 1) store);
     assert_that (reserved_bytes store = 10);
     let other = ''transfer_realupload00000'';
     (store, _) \<leftarrow> unwrap_ok (store_at E now1 other 0 1 500 (replicate 500 2) store);
     assert_that (reserved_bytes store = 510);
     assert_that (exists_transfer store other)
   }"

definition global_byte_cap_rejects_actual_overflow ::
    "('m, 'b, 'c) file_env \<Rightarrow> u64 \<times> u64 \<Rightarrow> u64 \<times> u64 \<Rightarrow> unit option" where
  "global_byte_cap_rejects_actual_overflow E now0 now1 = do {
     store \<leftarrow> new_store E
       \<lparr>max_file_bytes = 1024, max_total_file_bytes = 1000, file_ttl_ms = 60000, max_transfers = 100,
        max_chunks = 64\<rparr>;
     (store, _) \<leftarrow> unwrap_ok (store_at E now0 ''transfer_aaaaaaaaaaaaaaaa'' 0 1 800 (replicate 800 1) store);
     store \<leftarrow> expect_err Full (store_at E now1 ''transfer_bbbbbbbbbbbbbbbb'' 0 1 800 (replicate 800 2) store);
     assert_that (reserved_bytes store = 800);
     assert_that (transfer_count store = 1)
   }"

definition cached_created_at_matches_disk_after_later_chunk ::
    "('m, 'b, 'c) file_env \<Rightarrow> u64 \<times> u64 \<Rightarrow> u64 \<times> u64 \<Rightarrow> unit option" where
  "cached_created_at_matches_disk_after_later_chunk E now0 now1 = do {
     store \<leftarrow> temp_store E 1;
     let id = ''transfer_abcdefghijklmnop'';
     (store, _) \<leftarrow> unwrap_ok (store_at E now0 id 0 2 200 (replicate 100 1) store);
     m \<leftarrow> dm_get (meta_cache store) id;
     let created_after_first = m_created_at_ms m;
     (store, _) \<leftarrow> unwrap_ok (store_at E now1 id 1 2 200 (replicate 100 2) store);
     m \<leftarrow> dm_get (meta_cache store) id;
     let cached = m_created_at_ms m;
     v \<leftarrow> t_get (f_meta E) (meta_table store) id;
     m \<leftarrow> dec (f_codec E) v;
     let disk = m_created_at_ms m;
     assert_that (cached = disk);
     assert_that (cached = created_after_first)
   }"

definition over_declared_bytes_rejected :: "('m, 'b, 'c) file_env \<Rightarrow> u64 \<times> u64 \<Rightarrow> unit option" where
  "over_declared_bytes_rejected E now = do {
     store \<leftarrow> temp_store E 1;
     let id = ''transfer_abcdefghijklmnop'';
     store \<leftarrow> expect_err BadRequest (store_at E now id 0 1 100 (replicate 150 1) store);
     Some ()
   }"

text \<open>The two tests of the sweep write a creation time into the table and the cache by hand.\<close>

definition set_created_at ::
    "('m, 'b, 'c) file_env \<Rightarrow> string \<Rightarrow> u64 \<Rightarrow> ('m, 'c) file_store \<Rightarrow> ('m, 'c) file_store option" where
  "set_created_at E transfer_id created store = do {
     v \<leftarrow> t_get (f_meta E) (meta_table store) transfer_id;
     m \<leftarrow> dec (f_codec E) v;
     let b = enc (f_codec E) (m\<lparr>m_created_at_ms := created\<rparr>);
     let store = store\<lparr>meta_table := t_insert (f_meta E) transfer_id b (meta_table store)\<rparr>;
     c \<leftarrow> dm_get (meta_cache store) transfer_id;
     Some (store\<lparr>meta_cache := dm_insert transfer_id (c\<lparr>m_created_at_ms := created\<rparr>) (meta_cache store)\<rparr>)
   }"

definition sweep_reclaims_old_transfers ::
    "('m, 'b, 'c) file_env \<Rightarrow> u64 \<times> u64 \<Rightarrow> u64 \<Rightarrow> unit option" where
  "sweep_reclaims_old_transfers E now0 now_sweep = do {
     store \<leftarrow> temp_store E 1;
     let id = ''transfer_abcdefghijklmnop'';
     (store, _) \<leftarrow> unwrap_ok (store_at E now0 id 0 1 50 (replicate 50 1) store);
     store \<leftarrow> set_created_at E id 1 store;
     (store, swept) \<leftarrow> unwrap (sweep_expired_files E (\<lambda>_. io_fine) now_sweep store);
     assert_that (swept = 1);
     assert_that (\<not> exists_transfer store id)
   }"

definition sweep_reclaims_incomplete_before_full_ttl ::
    "('m, 'b, 'c) file_env \<Rightarrow> u64 \<times> u64 \<Rightarrow> u64 \<times> u64 \<Rightarrow> u64 \<times> u64 \<Rightarrow> u64 \<Rightarrow> u64 \<Rightarrow> unit option" where
  "sweep_reclaims_incomplete_before_full_ttl E now0 now1 now2 now_aged now_sweep = do {
     store \<leftarrow> new_store E
       \<lparr>max_file_bytes = 1024 * 1024, max_total_file_bytes = 64 * 1024 * 1024,
        file_ttl_ms = 24 * 60 * 60 * 1000, max_transfers = 100,
        max_chunks = ucast (div_ceil (1024 * 1024) (16 * 1024))\<rparr>;
     let incomplete = ''transfer_incomplete00000'';
     (store, _) \<leftarrow> unwrap_ok (store_at E now0 incomplete 0 2 200 (replicate 100 1) store);
     let complete = ''transfer_complete0000000'';
     (store, _) \<leftarrow> unwrap_ok (store_at E now1 complete 0 2 200 (replicate 100 1) store);
     (store, _) \<leftarrow> unwrap_ok (store_at E now2 complete 1 2 200 (replicate 100 2) store);
     let aged = sat_sub now_aged (INCOMPLETE_FILE_TTL_MS + 60000);
     store \<leftarrow> set_created_at E incomplete aged store;
     store \<leftarrow> set_created_at E complete aged store;
     (store, swept) \<leftarrow> unwrap (sweep_expired_files E (\<lambda>_. io_fine) now_sweep store);
     assert_that (swept = 1);
     assert_that (\<not> exists_transfer store incomplete);
     assert_that (exists_transfer store complete);
     assert_that (reserved_bytes store = 200);
     assert_that (transfer_count store = 1)
   }"


section \<open>They pass\<close>

lemmas upload_defs = store_at_def store_chunk_def write_chunk_def write_txn_def all_ok_def reserve_slot_def
  try_reserve_bytes_def release_bytes_def release_slot_def sat_add_def sat_sub_def usize_add_def usize_sub_def
  usize_modulus_def Let_def

lemma small_words: "\<not> 2 \<le> (1 :: u32)" "\<not> 3 \<le> (1 :: u32)" by (simp_all add: word_le_nat_alt)

context file_backend
begin

lemma new_store_ok:
  "new_store E cfg = Some \<lparr>meta_table = t_empty (f_meta E), chunk_table = t_empty (f_chunks E), config = cfg,
     meta_cache = [], reserved_bytes = 0, transfer_count = 0\<rparr>"
proof -
  have "t_iter (f_meta E) (t_empty (f_meta E)) = []" by (simp add: mt.iter_Nil_iff mt.get_empty)
  then show ?thesis by (simp add: new_store_def file_new_def)
qed

lemmas test_steps = upload_defs table_simps small_words cod.dec_enc fetch_chunk_def delete_transfer_def
  chunk_bounds_def exists_transfer_def dm_contains_def chunk_key_inject

lemmas test_start = temp_store_def new_store_ok div_ceil_def

lemma upload_fetch_delete_roundtrip_passes: "passes (upload_fetch_delete_roundtrip E now0 now1)"
  by (simp add: upload_fetch_delete_roundtrip_def test_start) (simp add: test_steps)

lemma rejects_oversize_and_inconsistent_passes: "passes (rejects_oversize_and_inconsistent E now)"
  by (simp add: rejects_oversize_and_inconsistent_def test_start) (simp add: test_steps)

lemma reupload_is_idempotent_passes: "passes (reupload_is_idempotent E now0 now1)"
  by (simp add: reupload_is_idempotent_def test_start) (simp add: test_steps)

lemma re_creating_chunk_zero_does_not_double_reserve_passes: "passes (re_creating_chunk_zero_does_not_double_reserve E now0 now1)"
  by (simp add: re_creating_chunk_zero_does_not_double_reserve_def test_start) (simp add: test_steps)

lemma declared_size_does_not_reserve_unsent_bytes_passes: "passes (declared_size_does_not_reserve_unsent_bytes E now0 now1)"
  by (simp add: declared_size_does_not_reserve_unsent_bytes_def test_start) (simp add: test_steps)

lemma global_byte_cap_rejects_actual_overflow_passes: "passes (global_byte_cap_rejects_actual_overflow E now0 now1)"
  by (simp add: global_byte_cap_rejects_actual_overflow_def test_start) (simp add: test_steps)

lemma over_declared_bytes_rejected_passes: "passes (over_declared_bytes_rejected E now)"
  by (simp add: over_declared_bytes_rejected_def test_start) (simp add: test_steps)

lemma sweep_reclaims_old_transfers_passes:
  assumes "60001 < now_sweep"
  shows "passes (sweep_reclaims_old_transfers E now0 now_sweep)"
proof -
  have "60001 < unat now_sweep" using assms by (simp add: word_less_nat_alt)
  then have "1 < sat_sub now_sweep 60000" by (simp add: sat_sub_less_iff)
  then show ?thesis
    by (simp add: sweep_reclaims_old_transfers_def test_start)
      (simp add: test_steps set_created_at_def sweep_expired_files_def transfer_expired_def del: sat_sub_def)
qed

lemma sweep_reclaims_incomplete_before_full_ttl_passes:
  assumes "3660000 \<le> unat now_aged" "unat now_aged \<le> unat now_sweep" "unat now_sweep \<le> unat now_aged + 60000"
  shows "passes (sweep_reclaims_incomplete_before_full_ttl E now0 now1 now2 now_aged now_sweep)"
proof -
  define aged where "aged = sat_sub now_aged (INCOMPLETE_FILE_TTL_MS + 60000)"
  have "unat aged = unat now_aged - 3660000" by (simp add: aged_def unat_sat_sub INCOMPLETE_FILE_TTL_MS_def)
  then have "aged < sat_sub now_sweep 3600000" "\<not> aged < sat_sub now_sweep 86400000"
    using assms by (simp_all add: sat_sub_less_iff)
  moreover have "sat_sub 300 100 = (200 :: u64)" by (simp add: sat_sub_def)
  ultimately show ?thesis
    by (simp add: sweep_reclaims_incomplete_before_full_ttl_def test_start aged_def [symmetric])
      (simp add: test_steps set_created_at_def sweep_expired_files_def transfer_expired_def
        INCOMPLETE_FILE_TTL_MS_def min_def del: sat_sub_def)
qed

lemma cached_created_at_passes:
  "passes (cached_created_at_matches_disk_after_later_chunk E now0 now1) \<longleftrightarrow> fst now0 = snd now0"
  by (simp add: cached_created_at_matches_disk_after_later_chunk_def test_start) (simp add: test_steps)

end

text \<open>
  All of them, for every backend. The sweeps need a clock that is past the first hour and minute of
  1970 and runs forward by at most a minute during the test. The test of the creation time passes
  only if the two readings of the first upload are of the same millisecond: the cache keeps the one,
  the table the other.
\<close>

theorem file_tests_pass:
  assumes "file_backend E"
  shows "passes (upload_fetch_delete_roundtrip E now0 now1)"
    and "passes (rejects_oversize_and_inconsistent E now0)"
    and "passes (reupload_is_idempotent E now0 now1)"
    and "passes (re_creating_chunk_zero_does_not_double_reserve E now0 now1)"
    and "passes (declared_size_does_not_reserve_unsent_bytes E now0 now1)"
    and "passes (global_byte_cap_rejects_actual_overflow E now0 now1)"
    and "passes (over_declared_bytes_rejected E now0)"
    and "passes (cached_created_at_matches_disk_after_later_chunk E now0 now1) \<longleftrightarrow> fst now0 = snd now0"
    and "60001 < now_sweep \<Longrightarrow> passes (sweep_reclaims_old_transfers E now0 now_sweep)"
    and "3660000 \<le> unat now_aged \<Longrightarrow> unat now_aged \<le> unat now_sweep \<Longrightarrow>
      unat now_sweep \<le> unat now_aged + 60000 \<Longrightarrow>
      passes (sweep_reclaims_incomplete_before_full_ttl E now0 now1 now2 now_aged now_sweep)"
  using assms
  by (simp_all add: file_backend.upload_fetch_delete_roundtrip_passes file_backend.rejects_oversize_and_inconsistent_passes
      file_backend.reupload_is_idempotent_passes file_backend.re_creating_chunk_zero_does_not_double_reserve_passes
      file_backend.declared_size_does_not_reserve_unsent_bytes_passes
      file_backend.global_byte_cap_rejects_actual_overflow_passes file_backend.over_declared_bytes_rejected_passes
      file_backend.cached_created_at_passes file_backend.sweep_reclaims_old_transfers_passes
      file_backend.sweep_reclaims_incomplete_before_full_ttl_passes)

end
