(* ===== verification/MetaTests.thy ===== *)
theory MetaTests
  imports State TestKit
begin

text \<open>
  The unit tests of \<open>src/meta_store.rs\<close>, as in \<open>FileTests\<close>, and the constants that \<open>src/config.rs\<close>
  pins. The store is its table: \<open>T\<close> and \<open>C\<close> are any ordered table and any codec.
\<close>


section \<open>The tests\<close>

definition test_auth :: "u64 \<Rightarrow> string \<Rightarrow> mailbox_auth" where
  "test_auth now hash = mailbox_auth_new now hash (hash @ ''_delivery'')"

definition auth_upsert_delete_roundtrip ::
    "('t, 'b) table_ops \<Rightarrow> (mailbox_auth, 'b) codec \<Rightarrow> u64 \<Rightarrow> unit option" where
  "auth_upsert_delete_roundtrip T C now = do {
     let store = t_empty T;
     e \<leftarrow> table_is_empty T io_fine store;
     assert_that e;
     (store, _) \<leftarrow> unwrap (flush_items T C io_fine [(''mbx_a'', Some (test_auth now ''h1''))] store);
     (store, _) \<leftarrow> unwrap (flush_items T C io_fine [(''mbx_b'', Some (test_auth now ''h2''))] store);
     e \<leftarrow> table_is_empty T io_fine store;
     assert_that (\<not> e);
     loaded \<leftarrow> load_all T C io_fine store;
     assert_that (length loaded = 2);
     (store, _) \<leftarrow> unwrap (flush_items T C io_fine [(''mbx_a'', None)] store);
     loaded \<leftarrow> load_all T C io_fine store;
     assert_that (length loaded = 1);
     assert_that (fst (loaded ! 0) = ''mbx_b'')
   }"

definition auth_persists_across_reopen ::
    "('t, 'b) table_ops \<Rightarrow> (mailbox_auth, 'b) codec \<Rightarrow> u64 \<Rightarrow> unit option" where
  "auth_persists_across_reopen T C now = do {
     (store, _) \<leftarrow> unwrap (flush_items T C io_fine [(''mbx_x'', Some (test_auth now ''hx''))] (t_empty T));
     loaded \<leftarrow> load_all T C io_fine store;
     assert_that (length loaded = 1);
     assert_that (receive_auth_hash (snd (loaded ! 0)) = ''hx'')
   }"

definition bundle_upsert_delete_roundtrip ::
    "('t, 'b) table_ops \<Rightarrow> (hosted_bundle, 'b) codec \<Rightarrow> unit option" where
  "bundle_upsert_delete_roundtrip T C = do {
     let bundle = \<lparr>b_id = ''bun_1'', b_ciphertext = ''ct'', b_created_at_ms = 1, b_expires_at_ms = 2\<rparr>;
     (store, _) \<leftarrow> unwrap (flush_items T C io_fine [(''bun_1'', Some bundle)] (t_empty T));
     loaded \<leftarrow> load_all T C io_fine store;
     assert_that (length loaded = 1);
     (store, _) \<leftarrow> unwrap (flush_items T C io_fine [(''bun_1'', None)] store);
     e \<leftarrow> table_is_empty T io_fine store;
     assert_that e
   }"

definition pow_difficulty_matches_client :: "unit option" where
  "pow_difficulty_matches_client = assert_that (POW_LEADING_ZERO_BITS = 22)"

definition protocol_range_matches_client :: "unit option" where
  "protocol_range_matches_client = do {
     assert_that (PROTOCOL_VERSION = 7);
     assert_that (PROTOCOL_MIN_SUPPORTED = 4)
   }"


section \<open>They pass\<close>

text \<open>A table is the list of its entries in key order, whatever its history.\<close>

context redb_table
begin

lemma iter_of_map:
  assumes "t_get T t = map_of es" "sorted_wrt (<) (map fst es)"
  shows "t_iter T t = es"
proof (rule map_sorted_distinct_set_unique [where f = fst])
  have es: "distinct (map fst es)" "sorted (map fst es)"
    using assms(2) by (simp_all add: strict_sorted_iff)
  with iter_sorted [of t] show "sorted (map fst (t_iter T t))" "distinct (map fst (t_iter T t))"
    "sorted (map fst es)" "distinct (map fst es)" by (simp_all add: strict_sorted_iff)
  show same: "set (t_iter T t) = set es"
    using in_iter_iff [of _ _ t] map_of_eq_Some_iff [OF es(1)] by (auto simp: assms(1))
  show "inj_on fst (set (t_iter T t) \<union> set es)" unfolding same using es(1) by (simp add: distinct_map)
qed

lemma iter_after:
  "t_iter T (t_empty T) = []"
  "t_iter T (t_insert T k v (t_empty T)) = [(k, v)]"
  "t_iter T (t_remove T k (t_insert T k v (t_empty T))) = []"
  "k < j \<Longrightarrow> t_iter T (t_insert T j w (t_insert T k v (t_empty T))) = [(k, v), (j, w)]"
  "k < j \<Longrightarrow> t_iter T (t_remove T k (t_insert T j w (t_insert T k v (t_empty T)))) = [(j, w)]"
  by (rule iter_of_map; auto simp: table_simps)+

end

lemma key_order: "''mbx_a'' < ''mbx_b''" by code_simp

lemmas meta_steps = flush_items_def apply_item_def load_all_def table_is_empty_def List.map_filter_simps
  test_auth_def mailbox_auth_new_def

theorem meta_tests_pass:
  assumes "redb_table T" "serde_codec C" "serde_codec C'"
  shows "passes (auth_upsert_delete_roundtrip T C now)" "passes (auth_persists_across_reopen T C now)"
    "passes (bundle_upsert_delete_roundtrip T C')"
    "passes pow_difficulty_matches_client" "passes protocol_range_matches_client"
  by (simp_all add: auth_upsert_delete_roundtrip_def auth_persists_across_reopen_def
      bundle_upsert_delete_roundtrip_def pow_difficulty_matches_client_def protocol_range_matches_client_def
      meta_steps redb_table.iter_after [OF assms(1)] key_order config_defs
      serde_codec.dec_enc [OF assms(2)] serde_codec.dec_enc [OF assms(3)])

end
